(* ===== verification/Prelude.thy ===== *)
theory Prelude
  imports Complex_Main "HOL-Library.List_Lexorder" "HOL-Library.Char_ord" "HOL-Library.AList"
begin

text \<open>
  Shared vocabulary of the development: the Python values the model is written in and the
  generic facts about them.

  A Python \<^verbatim>\<open>str\<close> is modelled by the \<open>string\<close> of its UTF-8 bytes and \<^verbatim>\<open>bytes\<close> by
  the same type, so \<^verbatim>\<open>.encode("utf-8")\<close> is the identity; comparison and sorting of
  \<open>string\<close>s (lexicographic on bytes) then agree with Python's order on code points, while
  \<open>length\<close> counts bytes and \<open>str_len\<close> the characters. A Python \<^verbatim>\<open>dict\<close> is an association list in insertion order:
  \<open>map_of\<close> looks up, \<open>AList.update\<close> stores (in place, or at the end for a new key) and
  \<open>AList.delete\<close> pops. A raised exception is an \<open>Inl\<close>, a returned value an \<open>Inr\<close>.
\<close>

section \<open>Collections of facts\<close>

named_theorems dict_simps \<open>lookups after an update or a removal in a dictionary\<close>
named_theorems codec_simps \<open>encode / decode round trips\<close>
named_theorems inv_intros \<open>operations keep a component's invariant\<close>
named_theorems env_laws \<open>what the cryptographic environment promises\<close>

section \<open>Types\<close>

type_synonym bytes = string
type_synonym did = string
type_synonym ('k, 'v) dict = "('k \<times> 'v) list"

datatype py_error =
    ValueError string
  | KeyError string
  | TypeError string
  | RuntimeError string
  | OverflowError string
  | GuardRefusal string
  | NoRoute string
  | SqliteError string
  | AttributeError string

type_synonym 'a res = "py_error + 'a"

definition rbind :: "'e + 'a \<Rightarrow> ('a \<Rightarrow> 'e + 'b) \<Rightarrow> 'e + 'b" where
  "rbind m f = (case m of Inl e \<Rightarrow> Inl e | Inr x \<Rightarrow> f x)"

lemma rbind_simps [simp]:
  "rbind (Inl e) f = Inl e"
  "rbind (Inr x) f = f x"
  by (simp_all add: rbind_def)

lemma rbind_Inr_iff: "rbind m f = Inr y \<longleftrightarrow> (\<exists>x. m = Inr x \<and> f x = Inr y)"
  by (cases m) auto

lemma rbind_Inl_iff: "rbind m f = Inl e \<longleftrightarrow> m = Inl e \<or> (\<exists>x. m = Inr x \<and> f x = Inl e)"
  by (cases m) auto

text \<open>Python's \<^verbatim>\<open>for x in xs: body\<close> where the body may raise: the first exception ends the loop.\<close>

fun rfold :: "('a \<Rightarrow> 's \<Rightarrow> 's res) \<Rightarrow> 'a list \<Rightarrow> 's \<Rightarrow> 's res" where
  "rfold f [] s = Inr s"
| "rfold f (x # xs) s = rbind (f x s) (rfold f xs)"

lemma rfold_append: "rfold f (xs @ ys) s = rbind (rfold f xs s) (rfold f ys)"
  by (induction xs arbitrary: s) (auto simp: rbind_def split: sum.splits)

lemma rfold_invariant:
  assumes "rfold f xs s = Inr t" and "P s"
    and "\<And>x s t. x \<in> set xs \<Longrightarrow> P s \<Longrightarrow> f x s = Inr t \<Longrightarrow> P t"
  shows "P t"
  using assms by (induction xs arbitrary: s) (auto simp: rbind_Inr_iff)

text \<open>
  A function with early returns: a chain of steps that each go on with a value, return early with a
  result, or raise. \<open>need\<close> is \<^verbatim>\<open>if not c: return x\<close>, \<open>or_return\<close> a \<^verbatim>\<open>try\<close> whose handler
  returns, \<open>raises\<close> a call whose exceptions propagate.
\<close>

datatype 'r exit = Raise py_error | Return 'r

definition need :: "bool \<Rightarrow> 'r \<Rightarrow> 'r exit + unit" where
  "need b x = (if b then Inr () else Inl (Return x))"

definition or_return :: "'a res \<Rightarrow> 'r \<Rightarrow> 'r exit + 'a" where
  "or_return m x = (case m of Inl _ \<Rightarrow> Inl (Return x) | Inr a \<Rightarrow> Inr a)"

definition raises :: "'a res \<Rightarrow> 'r exit + 'a" where
  "raises m = (case m of Inl e \<Rightarrow> Inl (Raise e) | Inr a \<Rightarrow> Inr a)"

definition some_or :: "'a option \<Rightarrow> 'r \<Rightarrow> 'r exit + 'a" where
  "some_or m x = (case m of None \<Rightarrow> Inl (Return x) | Some a \<Rightarrow> Inr a)"

definition finish :: "('r \<Rightarrow> 'a) \<Rightarrow> 'r exit + 'a \<Rightarrow> 'a res" where
  "finish f m = (case m of Inl (Raise e) \<Rightarrow> Inl e | Inl (Return x) \<Rightarrow> Inr (f x) | Inr a \<Rightarrow> Inr a)"

lemma need_simps [simp]: "need True x = Inr ()" "need False x = Inl (Return x)"
  by (simp_all add: need_def)

lemma chain_Inr_iff:
  "need b x = Inr u \<longleftrightarrow> b"
  "or_return m x = Inr a \<longleftrightarrow> m = Inr a"
  "raises m = Inr a \<longleftrightarrow> m = Inr a"
  "some_or w x = Inr a \<longleftrightarrow> w = Some a"
  by (auto simp: need_def or_return_def raises_def some_or_def split: sum.splits option.splits)

lemma chain_simps [simp]:
  "or_return (Inr a) x = Inr a" "or_return (Inl e) x = Inl (Return x)"
  "raises (Inr a) = Inr a" "raises (Inl e) = Inl (Raise e)"
  "some_or (Some a) x = Inr a" "some_or None x = Inl (Return x)"
  by (simp_all add: or_return_def raises_def some_or_def)

lemma finish_simps [simp]:
  "finish f (Inr a) = Inr a" "finish f (Inl (Return x)) = Inr (f x)" "finish f (Inl (Raise e)) = Inl e"
  by (simp_all add: finish_def)

lemma finish_okD:
  assumes "finish f m = Inr r" "ok r" "\<And>x. \<not> ok (f x)"
  shows "m = Inr r"
  using assms by (auto simp: finish_def split: sum.splits exit.splits)

lemmas chain_iffs = rbind_Inr_iff chain_Inr_iff

section \<open>Strings\<close>

fun join :: "string \<Rightarrow> string list \<Rightarrow> string" where
  "join sep [] = []"
| "join sep [x] = x"
| "join sep (x # y # ys) = x @ sep @ join sep (y # ys)"

lemma join_Cons: "join sep (x # xs) = x @ concat (map (\<lambda>y. sep @ y) xs)"
proof (induction xs arbitrary: x)
  case Nil
  then show ?case by simp
next
  case (Cons y ys)
  show ?case by (simp add: Cons.IH)
qed

fun starts_with :: "string \<Rightarrow> string \<Rightarrow> bool" where
  "starts_with s [] = True"
| "starts_with [] (p # ps) = False"
| "starts_with (c # cs) (p # ps) = (c = p \<and> starts_with cs ps)"

lemma starts_with_append [simp]: "starts_with (p @ s) p"
  by (induction p) auto

lemma starts_with_iff: "starts_with s p \<longleftrightarrow> take (length p) s = p"
  by (induction s p rule: starts_with.induct) auto

lemma starts_with_drop: "starts_with s p \<Longrightarrow> p @ drop (length p) s = s"
  unfolding starts_with_iff by (metis append_take_drop_id)

lemma starts_with_appendD: "starts_with s (p @ q) \<Longrightarrow> starts_with s p"
  by (induction s p rule: starts_with.induct) auto

text \<open>
  The characters of a string are its UTF-8 sequences: a byte that is not a continuation byte starts
  one. \<^verbatim>\<open>len(s)\<close> counts them, and iterating over \<open>s\<close> yields them.
\<close>

definition is_cont :: "char \<Rightarrow> bool" where
  "is_cont c \<longleftrightarrow> (of_char c :: nat) div 64 = 2"

definition str_len :: "string \<Rightarrow> nat" where
  "str_len s = length (filter (\<lambda>c. \<not> is_cont c) s)"

function utf8_chars :: "string \<Rightarrow> string list" where
  "utf8_chars [] = []"
| "utf8_chars (c # cs) = (c # takeWhile is_cont cs) # utf8_chars (dropWhile is_cont cs)"
  by pat_completeness auto
termination
  by (relation "measure length") (auto simp: length_dropWhile_le le_imp_less_Suc)

text \<open>ASCII whitespace, as \<^verbatim>\<open>str.strip\<close> and \<^verbatim>\<open>str.split\<close> see it.\<close>

definition is_space :: "char \<Rightarrow> bool" where
  "is_space c \<longleftrightarrow> of_char c \<in> {9, 10, 11, 12, 13, 28, 29, 30, 31, 32 :: nat}"

definition strip :: "string \<Rightarrow> string" where
  "strip s = rev (dropWhile is_space (rev (dropWhile is_space s)))"

section \<open>Dictionaries\<close>

abbreviation dset :: "'k \<Rightarrow> 'v \<Rightarrow> ('k, 'v) dict \<Rightarrow> ('k, 'v) dict" where
  "dset \<equiv> AList.update"

abbreviation dpop :: "'k \<Rightarrow> ('k, 'v) dict \<Rightarrow> ('k, 'v) dict" where
  "dpop \<equiv> AList.delete"

definition dget :: "('k, 'v) dict \<Rightarrow> 'k \<Rightarrow> 'v \<Rightarrow> 'v" where
  "dget d k v = (case map_of d k of None \<Rightarrow> v | Some w \<Rightarrow> w)"

definition dkeys :: "('k, 'v) dict \<Rightarrow> 'k list" where
  "dkeys d = map fst d"

text \<open>\<^verbatim>\<open>{**a, **b}\<close>\<close>

definition dmerge :: "('k, 'v) dict \<Rightarrow> ('k, 'v) dict \<Rightarrow> ('k, 'v) dict" where
  "dmerge a b = fold (\<lambda>(k, v). dset k v) b a"

lemma map_of_dset [simp, dict_simps]: "map_of (dset k v d) x = (if x = k then Some v else map_of d x)"
  by (simp add: update_conv')

lemma set_dset: "p \<in> set (dset k v d) \<Longrightarrow> p = (k, v) \<or> p \<in> set d"
  by (induction d) (auto split: if_splits)

lemma map_of_dpop [simp, dict_simps]: "map_of (dpop k d) x = (if x = k then None else map_of d x)"
  by (simp add: delete_conv')

lemma map_of_dmerge [dict_simps]:
  "distinct (dkeys b) \<Longrightarrow>
   map_of (dmerge a b) k = (case map_of b k of None \<Rightarrow> map_of a k | Some v \<Rightarrow> Some v)"
proof (induction b arbitrary: a)
  case Nil
  then show ?case by (simp add: dmerge_def)
next
  case (Cons p b)
  obtain k' v where p: "p = (k', v)" by (cases p)
  have "map_of (dmerge a (p # b)) k = map_of (dmerge (dset k' v a) b) k"
    by (simp add: dmerge_def p)
  also have "\<dots> = (case map_of b k of None \<Rightarrow> map_of (dset k' v a) k | Some v \<Rightarrow> Some v)"
    using Cons.prems by (intro Cons.IH) (simp add: dkeys_def)
  also have "\<dots> = (case map_of (p # b) k of None \<Rightarrow> map_of a k | Some v \<Rightarrow> Some v)"
  proof (cases "k = k'")
    case True
    with Cons.prems have "map_of b k = None"
      by (simp add: dkeys_def p map_of_eq_None_iff)
    with True show ?thesis by (simp add: p)
  next
    case False
    then show ?thesis by (simp add: p split: option.splits)
  qed
  finally show ?case .
qed

lemma distinct_dset [simp, inv_intros]: "distinct (map fst d) \<Longrightarrow> distinct (map fst (dset k v d))"
  by (rule distinct_update)

lemma distinct_dpop [simp, inv_intros]: "distinct (map fst d) \<Longrightarrow> distinct (map fst (dpop k d))"
  by (rule distinct_delete)

lemma distinct_filter_keys [simp]: "distinct (map fst d) \<Longrightarrow> distinct (map fst (filter P d))"
  by (induction d) auto

lemma length_dset:
  "length (dset k v d) = (if map_of d k = None then Suc (length d) else length d)"
  by (induction d) auto

lemma map_of_filter_keys:
  "map_of (filter (\<lambda>(k, v). P k) d) k = (if P k then map_of d k else None)"
  by (induction d) auto

lemma map_of_filter_in:
  "distinct (map fst d) \<Longrightarrow>
   map_of (filter (\<lambda>(k, v). P k v) d) k =
     (case map_of d k of None \<Rightarrow> None | Some v \<Rightarrow> if P k v then Some v else None)"
proof (induction d)
  case Nil
  then show ?case by simp
next
  case (Cons p d)
  obtain k' v where p: "p = (k', v)" by (cases p)
  show ?case
  proof (cases "k = k'")
    case True
    with Cons.prems have "map_of d k = None"
      by (auto simp: p map_of_eq_None_iff)
    with True Cons show ?thesis by (auto simp: p)
  next
    case False
    with Cons show ?thesis by (auto simp: p)
  qed
qed

lemma map_of_SomeI: "distinct (map fst d) \<Longrightarrow> (k, v) \<in> set d \<Longrightarrow> map_of d k = Some v"
  by simp

section \<open>Lists\<close>

text \<open>\<^verbatim>\<open>sorted(set(xs))\<close> and \<^verbatim>\<open>dict.fromkeys(xs)\<close>.\<close>

definition sorted_set :: "'a::linorder list \<Rightarrow> 'a list" where
  "sorted_set xs = sort (remdups xs)"

lemma set_sorted_set [simp]: "set (sorted_set xs) = set xs"
  by (simp add: sorted_set_def)

lemma sorted_sorted_set [simp]: "sorted (sorted_set xs)"
  by (simp add: sorted_set_def)

lemma distinct_sorted_set [simp]: "distinct (sorted_set xs)"
  by (simp add: sorted_set_def)

lemma sorted_set_idem [simp]: "sorted_set (sorted_set xs) = sorted_set xs"
  by (simp add: sorted_set_def distinct_remdups_id sorted_sort_id)

lemma sorted_set_id: "sorted xs \<Longrightarrow> distinct xs \<Longrightarrow> sorted_set xs = xs"
  by (simp add: sorted_set_def distinct_remdups_id sorted_sort_id)

lemma sorted_set_fixpoint_iff: "sorted_set xs = xs \<longleftrightarrow> sorted xs \<and> distinct xs"
  by (metis distinct_sorted_set sorted_set_id sorted_sorted_set)

lemma sorted_set_Nil_iff [simp]: "sorted_set xs = [] \<longleftrightarrow> xs = []"
  by (metis set_empty set_sorted_set)

fun from_keys :: "'a list \<Rightarrow> 'a list" where
  "from_keys [] = []"
| "from_keys (x # xs) = x # filter (\<lambda>y. y \<noteq> x) (from_keys xs)"

lemma set_from_keys [simp]: "set (from_keys xs) = set xs"
  by (induction xs) auto

lemma distinct_from_keys [simp]: "distinct (from_keys xs)"
  by (induction xs) auto

text \<open>A block of equal leading elements, as the \<^verbatim>\<open>pad\<close> loops count it.\<close>

lemma takeWhile_replicate_append:
  "\<not> P (hd ys) \<or> ys = [] \<Longrightarrow> P x \<Longrightarrow> takeWhile P (replicate n x @ ys) = replicate n x"
  by (induction n) (cases ys; auto)+

lemma dropWhile_replicate_append:
  "\<not> P (hd ys) \<or> ys = [] \<Longrightarrow> P x \<Longrightarrow> dropWhile P (replicate n x @ ys) = ys"
  by (induction n) (cases ys; auto)+

lemma takeWhile_eq_replicate: "takeWhile (\<lambda>y. y = x) xs = replicate (length (takeWhile (\<lambda>y. y = x) xs)) x"
  by (induction xs) auto

end
