(* ===== verification/Json.thy ===== *)
theory Json
  imports Prelude
begin

text \<open>
  JSON values as Python holds them after \<^verbatim>\<open>json.loads\<close>, the conversions and predicates the
  sources apply to them (\<^verbatim>\<open>_is_num\<close>, \<^verbatim>\<open>float\<close>, \<^verbatim>\<open>int\<close>, \<^verbatim>\<open>bool\<close>), and
  \<^verbatim>\<open>identity/signing.py\<close>'s \<^verbatim>\<open>canonical\<close>: the byte encoding every signature and hash
  of the system covers.

  A Python \<^verbatim>\<open>float\<close> is an exact rational, an infinity or NaN, with IEEE comparisons (every
  comparison with NaN is false); rounding and the sign of zero are not modelled. \<^verbatim>\<open>float(n)\<close>
  of an integer too large for a double raises \<^verbatim>\<open>OverflowError\<close>, as in CPython.

  The main result is that \<open>canonical\<close> is injective up to the order of object keys
  (\<open>canonical_inject\<close>): two payloads share their signed bytes only if they carry the same
  fields with the same values, so the \<^verbatim>\<open>type\<close> tag in a payload separates the domains in
  which its signature counts.
\<close>

section \<open>The environment\<close>

text \<open>
  What the sources take from PyNaCl (Ed25519), from \<^verbatim>\<open>hashlib\<close> and from the interpreter's
  number and container formatting. Every definition that needs one of these takes the
  environment as its first argument; the laws a theorem relies on are its hypotheses.
\<close>

datatype pyfloat = Fin rat | PInf | NInf | NaN

datatype json =
    JNull
  | JBool bool
  | JInt int
  | JFloat pyfloat
  | JStr string
  | JList "json list"
  | JObj "(string \<times> json) list"

record env =
  ed_pub :: "bytes \<Rightarrow> bytes"                              \<comment> \<open>seed to verify key\<close>
  ed_sign :: "bytes \<Rightarrow> bytes \<Rightarrow> bytes"                    \<comment> \<open>seed, message to signature\<close>
  ed_verify :: "bytes \<Rightarrow> bytes \<Rightarrow> bytes \<Rightarrow> bool"           \<comment> \<open>verify key, message, signature\<close>
  sha256 :: "bytes \<Rightarrow> bytes"                              \<comment> \<open>the 32-byte digest\<close>
  float_repr :: "rat \<Rightarrow> string"                          \<comment> \<open>\<^verbatim>\<open>float.__repr__\<close> of a finite float\<close>
  parse_float :: "string \<Rightarrow> pyfloat option"               \<comment> \<open>\<^verbatim>\<open>float(s)\<close>, None: ValueError\<close>
  container_repr :: "json \<Rightarrow> string"                     \<comment> \<open>\<^verbatim>\<open>str\<close> of a list or dict\<close>
  str_repr :: "string \<Rightarrow> string"                         \<comment> \<open>\<^verbatim>\<open>repr\<close> of a string\<close>
  sql_num :: "string \<Rightarrow> json option"                      \<comment> \<open>SQLite's numeric reading of a text\<close>
  sql_text :: "pyfloat \<Rightarrow> string"                        \<comment> \<open>SQLite's text of a real\<close>

section \<open>Values\<close>

fun flt :: "pyfloat \<Rightarrow> pyfloat \<Rightarrow> bool" where
  "flt (Fin a) (Fin b) = (a < b)"
| "flt (Fin a) PInf = True"
| "flt NInf (Fin b) = True"
| "flt NInf PInf = True"
| "flt _ _ = False"

fun fle :: "pyfloat \<Rightarrow> pyfloat \<Rightarrow> bool" where
  "fle (Fin a) (Fin b) = (a \<le> b)"
| "fle (Fin a) PInf = True"
| "fle NInf (Fin b) = True"
| "fle NInf PInf = True"
| "fle PInf PInf = True"
| "fle NInf NInf = True"
| "fle _ _ = False"

fun fadd :: "pyfloat \<Rightarrow> pyfloat \<Rightarrow> pyfloat" where
  "fadd (Fin a) (Fin b) = Fin (a + b)"
| "fadd NaN _ = NaN"
| "fadd _ NaN = NaN"
| "fadd PInf NInf = NaN"
| "fadd NInf PInf = NaN"
| "fadd PInf _ = PInf"
| "fadd _ PInf = PInf"
| "fadd NInf _ = NInf"
| "fadd _ NInf = NInf"

fun fneg :: "pyfloat \<Rightarrow> pyfloat" where
  "fneg (Fin a) = Fin (- a)"
| "fneg PInf = NInf"
| "fneg NInf = PInf"
| "fneg NaN = NaN"

abbreviation fsub :: "pyfloat \<Rightarrow> pyfloat \<Rightarrow> pyfloat" where
  "fsub a b \<equiv> fadd a (fneg b)"

fun is_finite :: "pyfloat \<Rightarrow> bool" where
  "is_finite (Fin _) = True"
| "is_finite _ = False"

lemma flt_NaN [simp]: "\<not> flt NaN x" "\<not> flt x NaN" "\<not> fle NaN x" "\<not> fle x NaN"
  by (cases x; simp)+

lemma flt_irrefl [simp]: "\<not> flt x x"
  by (cases x) auto

lemma flt_fle_trans: "flt a b \<Longrightarrow> fle b c \<Longrightarrow> flt a c"
  by (cases a; cases b; cases c) auto

lemma fle_flt_trans: "fle a b \<Longrightarrow> flt b c \<Longrightarrow> flt a c"
  by (cases a; cases b; cases c) auto

lemma flt_trans: "flt a b \<Longrightarrow> flt b c \<Longrightarrow> flt a c"
  by (cases a; cases b; cases c) auto

lemma fle_trans: "fle a b \<Longrightarrow> fle b c \<Longrightarrow> fle a c"
  by (cases a; cases b; cases c) auto

lemma flt_imp_fle: "flt a b \<Longrightarrow> fle a b"
  by (cases a; cases b) auto

lemma not_flt_fle: "a \<noteq> NaN \<Longrightarrow> b \<noteq> NaN \<Longrightarrow> \<not> flt a b \<longleftrightarrow> fle b a"
  by (cases a; cases b) auto

text \<open>\<^verbatim>\<open>d.get(k)\<close>: a missing key and a JSON null are both \<^verbatim>\<open>None\<close>.\<close>

definition pget :: "(string, json) dict \<Rightarrow> string \<Rightarrow> json" where
  "pget d k = (case map_of d k of None \<Rightarrow> JNull | Some v \<Rightarrow> v)"

fun is_str :: "json \<Rightarrow> bool" where
  "is_str (JStr _) = True"
| "is_str _ = False"

text \<open>A value of the type an \<^verbatim>\<open>isinstance\<close> check asks for.\<close>

fun as_str :: "json \<Rightarrow> string option" where
  "as_str (JStr s) = Some s"
| "as_str _ = None"

fun as_int :: "json \<Rightarrow> int option" where
  "as_int (JInt n) = Some n"
| "as_int _ = None"

fun as_list :: "json \<Rightarrow> json list option" where
  "as_list (JList vs) = Some vs"
| "as_list _ = None"

fun as_obj :: "json \<Rightarrow> (string \<times> json) list option" where
  "as_obj (JObj d) = Some d"
| "as_obj _ = None"

lemma as_iffs [simp]:
  "as_str v = Some s \<longleftrightarrow> v = JStr s" "as_int v = Some n \<longleftrightarrow> v = JInt n"
  "as_list v = Some vs \<longleftrightarrow> v = JList vs" "as_obj v = Some d \<longleftrightarrow> v = JObj d"
  by (cases v; simp)+

text \<open>A list whose elements are all strings.\<close>

fun strings_of :: "json list \<Rightarrow> string list option" where
  "strings_of [] = Some []"
| "strings_of (v # vs) =
     (case (v, strings_of vs) of (JStr s, Some ss) \<Rightarrow> Some (s # ss) | _ \<Rightarrow> None)"

lemma strings_of_map [simp]: "strings_of (map JStr ss) = Some ss"
  by (induction ss) auto

lemma strings_of_SomeD: "strings_of vs = Some ss \<Longrightarrow> vs = map JStr ss"
  by (induction vs arbitrary: ss) (auto split: json.splits option.splits)

lemma strings_of_iff: "strings_of vs = Some ss \<longleftrightarrow> vs = map JStr ss"
  using strings_of_SomeD strings_of_map by blast

text \<open>\<^verbatim>\<open>isinstance(v, (int, float)) and not isinstance(v, bool)\<close>\<close>

fun is_num :: "json \<Rightarrow> bool" where
  "is_num (JInt _) = True"
| "is_num (JFloat _) = True"
| "is_num _ = False"

fun truthy :: "json \<Rightarrow> bool" where
  "truthy JNull = False"
| "truthy (JBool b) = b"
| "truthy (JInt n) = (n \<noteq> 0)"
| "truthy (JFloat f) = (f \<noteq> Fin 0)"
| "truthy (JStr s) = (s \<noteq> [])"
| "truthy (JList vs) = (vs \<noteq> [])"
| "truthy (JObj d) = (d \<noteq> [])"

text \<open>The smallest magnitude of an integer that \<^verbatim>\<open>float\<close> refuses: half an ulp above the
  largest double.\<close>

definition float_limit :: int where
  "float_limit = 2 ^ 1024 - 2 ^ 970"

fun to_float :: "env \<Rightarrow> json \<Rightarrow> pyfloat res" where
  "to_float E (JInt n) =
     (if \<bar>n\<bar> < float_limit then Inr (Fin (of_int n))
      else Inl (OverflowError ''int too large to convert to float''))"
| "to_float E (JFloat f) = Inr f"
| "to_float E (JBool b) = Inr (Fin (if b then 1 else 0))"
| "to_float E (JStr s) =
     (case parse_float E s of
        None \<Rightarrow> Inl (ValueError ''could not convert string to float'')
      | Some f \<Rightarrow> Inr f)"
| "to_float E _ = Inl (TypeError ''float() argument must be a string or a real number'')"


section \<open>Numbers as text\<close>

definition digit_char :: "nat \<Rightarrow> char" where
  "digit_char d = char_of (48 + d)"

definition is_digit :: "char \<Rightarrow> bool" where
  "is_digit c \<longleftrightarrow> 48 \<le> (of_char c :: nat) \<and> (of_char c :: nat) \<le> 57"

fun nat_str :: "nat \<Rightarrow> string" where
  "nat_str n = (if n < 10 then [digit_char n] else nat_str (n div 10) @ [digit_char (n mod 10)])"

declare nat_str.simps [simp del]

definition int_str :: "int \<Rightarrow> string" where
  "int_str n = (if n < 0 then CHR ''-'' # nat_str (nat (- n)) else nat_str (nat n))"

definition dec_val :: "string \<Rightarrow> nat" where
  "dec_val s = foldl (\<lambda>a c. a * 10 + (of_char c - 48)) 0 s"

lemma of_digit_char: "d < 10 \<Longrightarrow> (of_char (digit_char d) :: nat) = 48 + d"
  by (simp add: digit_char_def)

lemma is_digit_digit_char [simp]: "d < 10 \<Longrightarrow> is_digit (digit_char d)"
  by (simp add: is_digit_def of_digit_char)

lemma nat_str_nonempty [simp]: "nat_str n \<noteq> []"
  by (subst nat_str.simps) simp

lemma nat_str_digits: "c \<in> set (nat_str n) \<Longrightarrow> is_digit c"
proof (induction n rule: nat_str.induct)
  case (1 n)
  then show ?case
    by (subst (asm) (2) nat_str.simps) (auto split: if_splits)
qed

lemma dec_val_nat_str [codec_simps]: "dec_val (nat_str n) = n"
proof (induction n rule: nat_str.induct)
  case (1 n)
  show ?case
  proof (cases "n < 10")
    case True
    then show ?thesis
      by (subst nat_str.simps) (simp add: dec_val_def of_digit_char)
  next
    case False
    with 1 have "dec_val (nat_str (n div 10)) = n div 10" by simp
    moreover have "dec_val (nat_str n) = dec_val (nat_str (n div 10)) * 10 + n mod 10"
      using False by (subst nat_str.simps) (simp add: dec_val_def of_digit_char)
    ultimately show ?thesis by simp
  qed
qed

lemma nat_str_inject [simp]: "nat_str m = nat_str n \<longleftrightarrow> m = n"
  by (metis dec_val_nat_str)

lemma minus_not_digit [simp]: "\<not> is_digit (CHR ''-'')"
  by (simp add: is_digit_def)

lemma int_str_chars: "c \<in> set (int_str n) \<Longrightarrow> is_digit c \<or> c = CHR ''-''"
  by (auto simp: int_str_def dest: nat_str_digits split: if_splits)

lemma int_str_inject [simp]: "int_str m = int_str n \<longleftrightarrow> m = n"
proof -
  have no_minus: "nat_str a \<noteq> CHR ''-'' # s" for a s
    by (metis list.set_intros(1) minus_not_digit nat_str_digits)
  show ?thesis
    by (auto simp: int_str_def no_minus no_minus [symmetric] split: if_splits)
qed

text \<open>\<^verbatim>\<open>int(s)\<close> of an ASCII string: surrounding whitespace, one sign, digits with single
  underscores between them.\<close>

fun digits_text :: "string \<Rightarrow> bool" where
  "digits_text [] = False"
| "digits_text [c] = is_digit c"
| "digits_text (c # d # cs) =
     (is_digit c \<and> (if d = CHR ''_'' then digits_text cs else digits_text (d # cs)))"

definition parse_int :: "string \<Rightarrow> int option" where
  "parse_int s =
     (let t = strip s;
          neg = (t \<noteq> [] \<and> hd t = CHR ''-'');
          ds = (if t \<noteq> [] \<and> (hd t = CHR ''-'' \<or> hd t = CHR ''+'') then tl t else t)
      in if digits_text ds
         then Some ((if neg then - 1 else 1) * int (dec_val (filter (\<lambda>c. c \<noteq> CHR ''_'') ds)))
         else None)"

definition trunc_rat :: "rat \<Rightarrow> int" where
  "trunc_rat q = (if q < 0 then - \<lfloor>- q\<rfloor> else \<lfloor>q\<rfloor>)"

fun to_int :: "json \<Rightarrow> int res" where
  "to_int (JInt n) = Inr n"
| "to_int (JBool b) = Inr (if b then 1 else 0)"
| "to_int (JFloat (Fin q)) = Inr (trunc_rat q)"
| "to_int (JFloat NaN) = Inl (ValueError ''cannot convert float NaN to integer'')"
| "to_int (JFloat _) = Inl (OverflowError ''cannot convert float infinity to integer'')"
| "to_int (JStr s) =
     (case parse_int s of
        None \<Rightarrow> Inl (ValueError ''invalid literal for int()'')
      | Some n \<Rightarrow> Inr n)"
| "to_int _ = Inl (TypeError ''int() argument must be a string or a real number'')"

text \<open>\<^verbatim>\<open>str(v)\<close> of a JSON value.\<close>

fun py_str :: "env \<Rightarrow> json \<Rightarrow> string" where
  "py_str E JNull = ''None''"
| "py_str E (JBool b) = (if b then ''True'' else ''False'')"
| "py_str E (JInt n) = int_str n"
| "py_str E (JFloat f) =
     (case f of Fin q \<Rightarrow> float_repr E q | PInf \<Rightarrow> ''inf'' | NInf \<Rightarrow> ''-inf'' | NaN \<Rightarrow> ''nan'')"
| "py_str E (JStr s) = s"
| "py_str E v = container_repr E v"

section \<open>Hexadecimal\<close>

definition hexd :: "nat \<Rightarrow> char" where
  "hexd n = (if n < 10 then char_of (48 + n) else char_of (87 + n))"

definition hex :: "bytes \<Rightarrow> string" where
  "hex bs = concat (map (\<lambda>b. [hexd (of_char b div 16), hexd (of_char b mod 16)]) bs)"

definition hexdigest :: "env \<Rightarrow> bytes \<Rightarrow> string" where
  "hexdigest E bs = hex (sha256 E bs)"

lemma of_hexd: "n < 16 \<Longrightarrow> (of_char (hexd n) :: nat) = (if n < 10 then 48 + n else 87 + n)"
  by (simp add: hexd_def)

lemma hexd_inject: "m < 16 \<Longrightarrow> n < 16 \<Longrightarrow> hexd m = hexd n \<longleftrightarrow> m = n"
  by (auto dest!: arg_cong [where f = "of_char :: char \<Rightarrow> nat"] simp: of_hexd split: if_splits)

lemma of_char_lt_256 [simp]: "(of_char c :: nat) < 256"
  by (metis nat_of_char_less_256)

lemma hex_inject: "hex a = hex b \<longleftrightarrow> a = b"
proof (induction a arbitrary: b)
  case Nil
  then show ?case by (cases b) (auto simp: hex_def)
next
  case (Cons x a)
  show ?case
  proof (cases b)
    case Nil
    then show ?thesis by (simp add: hex_def)
  next
    case (Cons y c)
    have lt: "(of_char z :: nat) div 16 < 16" for z
      using of_char_lt_256 [of z] by linarith
    have "hex (x # a) = hex (y # c) \<longleftrightarrow>
        (of_char x :: nat) div 16 = of_char y div 16 \<and>
        (of_char x :: nat) mod 16 = of_char y mod 16 \<and> hex a = hex c"
      by (simp add: hex_def hexd_inject lt)
    also have "\<dots> \<longleftrightarrow> (of_char x :: nat) = of_char y \<and> a = c"
      by (metis Cons.IH div_mult_mod_eq)
    finally show ?thesis by (simp add: Cons)
  qed
qed

lemma length_hex [simp]: "length (hex bs) = 2 * length bs"
  by (induction bs) (auto simp: hex_def)


section \<open>Serialisation\<close>

text \<open>\<^verbatim>\<open>json.dumps(v, separators=(",", ":"), ensure_ascii=False)\<close>: control characters, the
  quote and the backslash are escaped, every other byte is copied.\<close>

definition escape_dct :: "(char, char) dict" where
  "escape_dct =
     [(CHR 0x5C, CHR 0x5C), (CHR 0x22, CHR 0x22), (CHR 0x08, CHR ''b''), (CHR 0x0C, CHR ''f''),
      (CHR 0x0A, CHR ''n''), (CHR 0x0D, CHR ''r''), (CHR 0x09, CHR ''t'')]"

definition esc_char :: "char \<Rightarrow> string" where
  "esc_char c =
     (case map_of escape_dct c of
        Some x \<Rightarrow> [CHR 0x5C, x]
      | None \<Rightarrow>
          if (of_char c :: nat) < 32
          then [CHR 0x5C, CHR ''u'', CHR ''0'', CHR ''0'',
                hexd (of_char c div 16), hexd (of_char c mod 16)]
          else [c])"

definition dumps_str :: "string \<Rightarrow> string" where
  "dumps_str s = CHR 0x22 # concat (map esc_char s) @ [CHR 0x22]"

fun float_text :: "env \<Rightarrow> pyfloat \<Rightarrow> string" where
  "float_text E (Fin q) = float_repr E q"
| "float_text E PInf = ''Infinity''"
| "float_text E NInf = ''-Infinity''"
| "float_text E NaN = ''NaN''"

primrec dumps :: "env \<Rightarrow> json \<Rightarrow> string" where
  "dumps E JNull = ''null''"
| "dumps E (JBool b) = (if b then ''true'' else ''false'')"
| "dumps E (JInt n) = int_str n"
| "dumps E (JFloat f) = float_text E f"
| "dumps E (JStr s) = dumps_str s"
| "dumps E (JList vs) = ''['' @ join '','' (map (dumps E) vs) @ '']''"
| "dumps E (JObj d) =
     ''{'' @ join '','' (map (\<lambda>(k, t). dumps_str k @ '':'' @ t) (map (map_prod id (dumps E)) d)) @ ''}''"

text \<open>\<^verbatim>\<open>sort_keys=True\<close>: every object's items in key order.\<close>

primrec sort_keys :: "json \<Rightarrow> json" where
  "sort_keys JNull = JNull"
| "sort_keys (JBool b) = JBool b"
| "sort_keys (JInt n) = JInt n"
| "sort_keys (JFloat f) = JFloat f"
| "sort_keys (JStr s) = JStr s"
| "sort_keys (JList vs) = JList (map sort_keys vs)"
| "sort_keys (JObj d) = JObj (sort_key fst (map (map_prod id sort_keys) d))"

definition canonical :: "env \<Rightarrow> json \<Rightarrow> bytes" where
  "canonical E v = dumps E (sort_keys v)"

lemma dumps_float_repr: "float_repr E = float_repr E' \<Longrightarrow> dumps E v = dumps E' v"
proof (induction v)
  case (JFloat f)
  then show ?case by (cases f) simp_all
next
  case (JList vs)
  then have "map (dumps E) vs = map (dumps E') vs" by simp
  then show ?case by (simp only: dumps.simps)
next
  case (JObj d)
  then have "map (map_prod id (dumps E)) d = map (map_prod id (dumps E')) d" by (auto simp: map_prod_def)
  then show ?case by (simp only: dumps.simps)
qed simp_all

text \<open>What \<^verbatim>\<open>float.__repr__\<close> promises: distinct floats print differently, from digits, signs,
  a point and an exponent mark, and never like an integer.\<close>

definition float_repr_ok :: "env \<Rightarrow> bool" where
  "float_repr_ok E \<longleftrightarrow>
     (\<forall>p q. float_repr E p = float_repr E q \<longrightarrow> p = q) \<and>
     (\<forall>q. (\<exists>c\<in>set (float_repr E q). c = CHR ''.'' \<or> c = CHR ''e'') \<and>
          (\<forall>c\<in>set (float_repr E q). is_digit c \<or> c \<in> set ''.e+-''))"

subsection \<open>Reading strings back\<close>

lemma of_char_inject [simp]: "(of_char c :: nat) = of_char d \<longleftrightarrow> c = d"
  by (metis char_of_char)

lemma escape_dct_inject: "map_of escape_dct c = Some x \<Longrightarrow> map_of escape_dct d = Some x \<Longrightarrow> c = d"
  by (auto simp: escape_dct_def split: if_splits)

lemma escape_dct_u: "map_of escape_dct c \<noteq> Some (CHR ''u'')"
  by (simp add: escape_dct_def)

lemma esc_char_cases:
  obtains (plain) "esc_char c = [c]" "c \<noteq> CHR 0x22" "c \<noteq> CHR 0x5C"
  | (short) x where "esc_char c = [CHR 0x5C, x]" "map_of escape_dct c = Some x"
  | (hex) "esc_char c =
      [CHR 0x5C, CHR ''u'', CHR ''0'', CHR ''0'', hexd (of_char c div 16), hexd (of_char c mod 16)]"
proof (cases "map_of escape_dct c")
  case (Some x)
  then show ?thesis by (intro short) (simp_all add: esc_char_def)
next
  case None
  then have "c \<noteq> CHR 0x22" "c \<noteq> CHR 0x5C"
    by (auto simp: escape_dct_def split: if_splits)
  with None plain hex show ?thesis
    by (cases "(of_char c :: nat) < 32") (simp_all add: esc_char_def)
qed

lemma esc_char_nonquote: "esc_char c @ r \<noteq> CHR 0x22 # s"
  by (cases c rule: esc_char_cases) auto

lemma low_char_hex:
  assumes "hexd (of_char c div 16) = hexd (of_char d div 16)"
    and "hexd (of_char c mod 16) = hexd (of_char d mod 16)"
  shows "c = d"
proof -
  have lt: "(of_char z :: nat) div 16 < 16" for z
    using of_char_lt_256 [of z] by linarith
  have "(of_char c :: nat) div 16 = of_char d div 16" "(of_char c :: nat) mod 16 = of_char d mod 16"
    using assms by (simp_all add: hexd_inject lt)
  then have "(of_char c :: nat) = of_char d"
    by (metis div_mult_mod_eq)
  then show ?thesis by simp
qed

lemma esc_char_unique: "esc_char c @ r = esc_char d @ s \<Longrightarrow> c = d \<and> r = s"
proof (cases c rule: esc_char_cases)
  case plain
  moreover assume "esc_char c @ r = esc_char d @ s"
  ultimately show ?thesis
    by (cases d rule: esc_char_cases) auto
next
  case (short x)
  moreover assume "esc_char c @ r = esc_char d @ s"
  ultimately show ?thesis
    by (cases d rule: esc_char_cases) (auto simp: escape_dct_u dest: escape_dct_inject)
next
  case hex
  moreover assume "esc_char c @ r = esc_char d @ s"
  ultimately show ?thesis
    by (cases d rule: esc_char_cases) (auto simp: escape_dct_u dest: low_char_hex)
qed

lemma esc_chars_unique:
  "concat (map esc_char s) @ CHR 0x22 # r = concat (map esc_char t) @ CHR 0x22 # r' \<Longrightarrow>
   s = t \<and> r = r'"
proof (induction s arbitrary: t)
  case Nil
  then show ?case
    by (cases t) (auto dest: esc_char_nonquote [THEN notE, OF sym])
next
  case (Cons c s)
  show ?case
  proof (cases t)
    case Nil
    with Cons.prems show ?thesis
      by (simp add: esc_char_nonquote)
  next
    case (Cons d t')
    with Cons.prems have "esc_char c @ (concat (map esc_char s) @ CHR 0x22 # r) =
        esc_char d @ (concat (map esc_char t') @ CHR 0x22 # r')"
      by simp
    from esc_char_unique [OF this] Cons.IH [of t'] show ?thesis
      by (simp add: Cons)
  qed
qed

lemma dumps_str_unique: "dumps_str s @ r = dumps_str t @ r' \<Longrightarrow> s = t \<and> r = r'"
  using esc_chars_unique [of s r t r'] by (simp add: dumps_str_def)


subsection \<open>Reading values back\<close>

definition stop :: "string \<Rightarrow> bool" where
  "stop r \<longleftrightarrow> r = [] \<or> hd r \<in> set '',]}''"

fun scalar :: "json \<Rightarrow> bool" where
  "scalar (JStr _) = False"
| "scalar (JList _) = False"
| "scalar (JObj _) = False"
| "scalar _ = True"

definition token_char :: "char \<Rightarrow> bool" where
  "token_char c \<longleftrightarrow> c \<notin> set '',]}[{'' \<and> c \<noteq> CHR 0x22"

lemma stop_simps [simp]: "stop []" "stop (CHR '','' # r)" "stop (CHR '']'' # r)" "stop (CHR ''}'' # r)"
  by (simp_all add: stop_def)

lemma token_unique:
  assumes "t @ r = t' @ s" "stop r" "stop s"
    and "\<And>c. c \<in> set t \<Longrightarrow> token_char c" "\<And>c. c \<in> set t' \<Longrightarrow> token_char c"
  shows "t = t' \<and> r = s"
  using assms
proof (induction t arbitrary: t')
  case Nil
  then show ?case
    by (cases t') (auto simp: stop_def token_char_def)
next
  case (Cons c t)
  then show ?case
    by (cases t') (auto simp: stop_def token_char_def)
qed

lemma digit_token: "is_digit c \<Longrightarrow> token_char c"
  by (auto simp: is_digit_def token_char_def)

lemma float_text_token:
  assumes "float_repr_ok E" "c \<in> set (float_text E f)"
  shows "token_char c"
proof (cases f)
  case (Fin q)
  with assms have "is_digit c \<or> c \<in> set ''.e+-''"
    by (simp add: float_repr_ok_def)
  then show ?thesis by (auto simp: digit_token) (simp_all add: token_char_def)
qed (use assms in \<open>auto simp: token_char_def\<close>)

lemma scalar_token:
  assumes "float_repr_ok E" "scalar v" "c \<in> set (dumps E v)"
  shows "token_char c"
proof (cases v)
  case (JInt n)
  with assms have "is_digit c \<or> c = CHR ''-''" by (auto dest: int_str_chars)
  then show ?thesis by (auto simp: digit_token) (simp add: token_char_def)
next
  case (JFloat f)
  with assms show ?thesis by (auto intro: float_text_token)
qed (use assms in \<open>auto simp: token_char_def split: if_splits\<close>)

lemma int_str_neq: "\<exists>c\<in>set t. \<not> is_digit c \<and> c \<noteq> CHR ''-'' \<Longrightarrow> int_str n \<noteq> t"
  using int_str_chars by blast

lemma float_repr_neq:
  "float_repr_ok E \<Longrightarrow> \<exists>c\<in>set t. \<not> is_digit c \<and> c \<notin> set ''.e+-'' \<Longrightarrow> float_repr E q \<noteq> t"
  unfolding float_repr_ok_def by blast

lemma int_str_float_repr: "float_repr_ok E \<Longrightarrow> int_str n \<noteq> float_repr E q"
proof (rule int_str_neq)
  assume "float_repr_ok E"
  then obtain c where "c \<in> set (float_repr E q)" "c = CHR ''.'' \<or> c = CHR ''e''"
    unfolding float_repr_ok_def by blast
  then show "\<exists>c\<in>set (float_repr E q). \<not> is_digit c \<and> c \<noteq> CHR ''-''"
    by (auto simp: is_digit_def intro!: bexI [of _ c])
qed

lemma int_str_words [simp]:
  "int_str n \<noteq> ''null''" "int_str n \<noteq> ''true''" "int_str n \<noteq> ''false''"
  "int_str n \<noteq> ''Infinity''" "int_str n \<noteq> ''-Infinity''" "int_str n \<noteq> ''NaN''"
  by (rule int_str_neq, simp add: is_digit_def)+

lemma float_repr_words:
  assumes "float_repr_ok E"
  shows "float_repr E q \<noteq> ''null''" "float_repr E q \<noteq> ''true''" "float_repr E q \<noteq> ''false''"
    "float_repr E q \<noteq> ''Infinity''" "float_repr E q \<noteq> ''-Infinity''" "float_repr E q \<noteq> ''NaN''"
  by (rule float_repr_neq [OF assms], simp add: is_digit_def)+

lemma float_text_inject: "float_repr_ok E \<Longrightarrow> float_text E f = float_text E g \<longleftrightarrow> f = g"
  by (cases f; cases g)
    (auto simp: float_repr_words float_repr_words [THEN not_sym] float_repr_ok_def)

lemma float_text_words:
  assumes "float_repr_ok E"
  shows "float_text E f \<noteq> ''null''" "float_text E f \<noteq> ''true''" "float_text E f \<noteq> ''false''"
    "float_text E f \<noteq> int_str n"
  by (cases f; simp add: assms float_repr_words int_str_float_repr [THEN not_sym]
        int_str_words [THEN not_sym])+

lemma scalar_inject:
  assumes "float_repr_ok E" "scalar v" "scalar w" "dumps E v = dumps E w"
  shows "v = w"
  using assms
  by (cases v; cases w)
    (auto simp: float_text_inject float_text_words float_text_words [THEN not_sym]
       int_str_words [THEN not_sym] split: if_splits)

text \<open>An item printer reads back uniquely in front of a delimiter.\<close>

definition uniq :: "('a \<Rightarrow> string) \<Rightarrow> 'a \<Rightarrow> bool" where
  "uniq f x \<longleftrightarrow> (\<forall>y r s. f x @ r = f y @ s \<longrightarrow> stop r \<longrightarrow> stop s \<longrightarrow> x = y \<and> r = s)"

lemma uniqD: "uniq f x \<Longrightarrow> f x @ r = f y @ s \<Longrightarrow> stop r \<Longrightarrow> stop s \<Longrightarrow> x = y \<and> r = s"
  by (simp add: uniq_def)

lemma tail_unique:
  assumes "concat (map (\<lambda>x. '','' @ f x) xs) @ c # r = concat (map (\<lambda>x. '','' @ f x) ys) @ c # s"
    and "\<forall>x\<in>set xs. uniq f x" and "c = CHR '']'' \<or> c = CHR ''}''"
  shows "xs = ys \<and> r = s"
  using assms
proof (induction xs arbitrary: ys)
  case Nil
  then show ?case by (cases ys) auto
next
  case (Cons x xs)
  show ?case
  proof (cases ys)
    case Nil
    with Cons.prems show ?thesis by auto
  next
    case (Cons y ys')
    let ?tl = "\<lambda>zs t. concat (map (\<lambda>x. '','' @ f x) zs) @ c # t"
    have st: "stop (?tl zs t)" for zs t
      using Cons.prems(3) by (cases zs) auto
    from Cons.prems Cons have "f x @ ?tl xs r = f y @ ?tl ys' s"
      by simp
    with uniqD [of f x "?tl xs r" y "?tl ys' s"] Cons.prems(2) st
    have "x = y" "?tl xs r = ?tl ys' s"
      by simp_all
    with Cons.IH [of ys'] Cons.prems Cons show ?thesis by simp
  qed
qed

lemma seq_unique:
  assumes eq: "join '','' (map f xs) @ c # r = join '','' (map f ys) @ c # s"
    and u: "\<forall>x\<in>set xs. uniq f x" and c: "c = CHR '']'' \<or> c = CHR ''}''"
    and hd: "\<And>x. f x \<noteq> [] \<and> hd (f x) \<notin> set '',]}''"
  shows "xs = ys \<and> r = s"
proof -
  have first: "f z @ t \<noteq> c # t'" for z t t'
    using hd [of z] c by (cases "f z") auto
  show ?thesis
  proof (cases xs)
    case Nil
    with eq first show ?thesis
      by (cases ys) (auto simp: join_Cons dest: sym)
  next
    case (Cons x xs')
    note xs = Cons
    show ?thesis
    proof (cases ys)
      case Nil
      with eq first xs show ?thesis by (auto simp: join_Cons)
    next
      case (Cons y ys')
      let ?tl = "\<lambda>zs t. concat (map (\<lambda>x. '','' @ f x) zs) @ c # t"
      have st: "stop (?tl zs t)" for zs t
        using c by (cases zs) auto
      from eq xs Cons have "f x @ ?tl xs' r = f y @ ?tl ys' s"
        by (simp add: join_Cons comp_def)
      with uniqD [of f x "?tl xs' r" y "?tl ys' s"] u st xs
      have "x = y" "?tl xs' r = ?tl ys' s"
        by simp_all
      with tail_unique [OF this(2)] u c xs Cons show ?thesis by simp
    qed
  qed
qed

lemma float_repr_nonempty:
  assumes "float_repr_ok E"
  shows "float_repr E q \<noteq> []"
proof -
  from assms obtain c where "c \<in> set (float_repr E q)"
    unfolding float_repr_ok_def by blast
  then show ?thesis by auto
qed

lemma dumps_hd:
  assumes "float_repr_ok E"
  shows "dumps E v \<noteq> [] \<and> hd (dumps E v) \<notin> set '',]}''"
proof (cases "scalar v")
  case True
  have "dumps E v \<noteq> []"
  proof (cases v)
    case (JFloat f)
    with float_repr_nonempty [OF assms] show ?thesis by (cases f) simp_all
  qed (use True in \<open>auto simp: int_str_def\<close>)
  with scalar_token [OF assms True, of "hd (dumps E v)"] show ?thesis
    by (auto simp: token_char_def)
next
  case False
  then show ?thesis by (cases v) (auto simp: dumps_str_def)
qed

lemma scalar_hd: "float_repr_ok E \<Longrightarrow> scalar v \<Longrightarrow> token_char (hd (dumps E v))"
  by (rule scalar_token) (use dumps_hd in auto)

lemma nonscalar_hd: "\<not> scalar v \<Longrightarrow> \<not> token_char (hd (dumps E v))"
  by (cases v) (auto simp: dumps_str_def token_char_def)

definition member_text :: "env \<Rightarrow> string \<times> json \<Rightarrow> string" where
  "member_text E m = dumps_str (fst m) @ '':'' @ dumps E (snd m)"

lemma dumps_JObj: "dumps E (JObj d) = ''{'' @ join '','' (map (member_text E) d) @ ''}''"
  by (simp add: member_text_def [abs_def] comp_def case_prod_unfold)

lemma uniq_member:
  assumes "uniq (dumps E) v"
  shows "uniq (member_text E) (k, v)"
proof -
  have "(k, v) = m \<and> r = s" if "member_text E (k, v) @ r = member_text E m @ s" "stop r" "stop s" for m r s
  proof -
    from that(1) have "k = fst m \<and> CHR '':'' # dumps E v @ r = CHR '':'' # dumps E (snd m) @ s"
      by (intro dumps_str_unique) (simp add: member_text_def)
    with uniqD [OF assms, of r "snd m" s] that(2,3) show ?thesis by auto
  qed
  then show ?thesis by (simp add: uniq_def)
qed

lemma same_hd:
  assumes "float_repr_ok E" "dumps E v @ r = dumps E w @ s"
  shows "hd (dumps E v) = hd (dumps E w)"
  using assms dumps_hd [OF assms(1)] by (metis hd_append2)

lemma scalar_uniq:
  assumes "float_repr_ok E" "scalar v"
  shows "uniq (dumps E) v"
proof -
  have "v = w \<and> r = s" if eq: "dumps E v @ r = dumps E w @ s" and st: "stop r" "stop s" for w r s
  proof -
    have "scalar w"
      using same_hd [OF assms(1) eq] scalar_hd [OF assms] nonscalar_hd [of w E] by metis
    with token_unique [OF eq st] scalar_token [OF assms(1)] scalar_inject [OF assms] assms(2)
    show ?thesis by blast
  qed
  then show ?thesis by (simp add: uniq_def)
qed

lemma dumps_uniq:
  assumes "float_repr_ok E"
  shows "uniq (dumps E) v"
proof (induction v)
  case (JStr s)
  have "dumps E (JStr s) @ r = dumps E w @ t \<Longrightarrow> JStr s = w \<and> r = t" for w r t
    using same_hd [OF assms, of "JStr s" r w t] scalar_hd [OF assms, of w]
    by (cases w) (auto simp: dumps_str_def token_char_def dest!: esc_chars_unique)
  then show ?case by (simp add: uniq_def)
next
  case (JList vs)
  have "JList vs = w \<and> r = t" if eq: "dumps E (JList vs) @ r = dumps E w @ t" for w r t
  proof -
    from same_hd [OF assms eq] scalar_hd [OF assms, of w] obtain ws where w: "w = JList ws"
      by (cases w) (auto simp: dumps_str_def token_char_def)
    with eq have "join '','' (map (dumps E) vs) @ CHR '']'' # r = join '','' (map (dumps E) ws) @ CHR '']'' # t"
      by simp
    from seq_unique [OF this] JList dumps_hd [OF assms] w show ?thesis by auto
  qed
  then show ?case by (simp add: uniq_def)
next
  case (JObj d)
  have "JObj d = w \<and> r = t" if eq: "dumps E (JObj d) @ r = dumps E w @ t" for w r t
  proof -
    from same_hd [OF assms eq] scalar_hd [OF assms, of w] obtain e where w: "w = JObj e"
      by (cases w) (auto simp: dumps_str_def token_char_def)
    have u: "\<forall>m\<in>set d. uniq (member_text E) m"
      using JObj by (force intro: uniq_member simp: snds.simps)
    have hd: "member_text E m \<noteq> [] \<and> hd (member_text E m) \<notin> set '',]}''" for m
      by (simp add: member_text_def dumps_str_def)
    from eq have "join '','' (map (member_text E) d) @ CHR ''}'' # r =
        join '','' (map (member_text E) e) @ CHR ''}'' # t"
      unfolding w dumps_JObj by simp
    from seq_unique [OF this u _ hd] w show ?thesis by auto
  qed
  then show ?case by (simp add: uniq_def)
qed (simp_all add: scalar_uniq [OF assms])

theorem dumps_inject: "float_repr_ok E \<Longrightarrow> dumps E v = dumps E w \<Longrightarrow> v = w"
  using uniqD [OF dumps_uniq, of E v "[]" w "[]"] by simp

subsection \<open>Canonical bytes\<close>

lemma map_of_sort_key_fst: "distinct (map fst d) \<Longrightarrow> map_of (sort_key fst d) = map_of d"
  by (subst map_of_inject_set) (auto simp: distinct_map inj_on_def distinct_sort)

lemma canonical_inject: "float_repr_ok E \<Longrightarrow> canonical E v = canonical E w \<Longrightarrow> sort_keys v = sort_keys w"
  unfolding canonical_def by (rule dumps_inject)

lemma map_of_map_snd: "map_of (map (map_prod id f) d) k = map_option f (map_of d k)"
  by (induction d) auto

lemma canonical_fields:
  assumes "float_repr_ok E" "distinct (map fst d)" "distinct (map fst e)"
    and "canonical E (JObj d) = canonical E (JObj e)"
  shows "map_option sort_keys (map_of d k) = map_option sort_keys (map_of e k)"
proof -
  have fst: "map fst (map (map_prod id f) c) = map fst c" for f :: "json \<Rightarrow> json" and c :: "(string \<times> json) list"
    by simp
  from canonical_inject [OF assms(1,4)]
  have "map_of (sort_key fst (map (map_prod id sort_keys) d)) k =
      map_of (sort_key fst (map (map_prod id sort_keys) e)) k"
    by simp
  then show ?thesis
    using assms(2,3) by (simp add: map_of_sort_key_fst map_of_map_snd)
qed

lemma sort_keys_eq_JStr [simp]: "sort_keys v = JStr s \<longleftrightarrow> v = JStr s"
  by (cases v) auto

text \<open>Two objects that share their canonical bytes carry the same string under every key.\<close>

lemma canonical_str_field:
  assumes "float_repr_ok E" "distinct (map fst d)" "distinct (map fst e)"
    and "canonical E (JObj d) = canonical E (JObj e)" and "map_of d k = Some (JStr s)"
  shows "map_of e k = Some (JStr s)"
proof -
  have "map_option sort_keys (map_of e k) = Some (JStr s)"
    using canonical_fields [OF assms(1-4), of k] assms(5) by simp
  then show ?thesis by auto
qed

end
