(* ===== verification/Base64.thy ===== *)
theory Base64
  imports Json
begin

text \<open>
  The standard base64 codec as \<^verbatim>\<open>base64.b64encode\<close> and \<^verbatim>\<open>base64.b64decode\<close> compute it
  (\<^verbatim>\<open>binascii.a2b_base64\<close>, whose \<^verbatim>\<open>strict_mode\<close> is \<^verbatim>\<open>validate\<close>): keys,
  seeds, signatures and ciphertexts travel in it. \<open>b64decode_encode\<close> is the round trip in both
  modes.
\<close>

definition b64_alphabet :: string where
  "b64_alphabet = ''ABCDEFGHIJKLMNOPQRSTUVWXYZabcdefghijklmnopqrstuvwxyz0123456789+/''"

fun index_of :: "'a list \<Rightarrow> 'a \<Rightarrow> nat option" where
  "index_of [] c = None"
| "index_of (x # xs) c = (if c = x then Some 0 else map_option Suc (index_of xs c))"

abbreviation b64_char :: "nat \<Rightarrow> char" where
  "b64_char n \<equiv> b64_alphabet ! n"

abbreviation ord :: "char \<Rightarrow> nat" where
  "ord c \<equiv> of_char c"

fun b64encode :: "bytes \<Rightarrow> string" where
  "b64encode [] = []"
| "b64encode [a] = [b64_char (ord a div 4), b64_char (ord a mod 4 * 16), CHR ''='', CHR ''='']"
| "b64encode [a, b] =
     [b64_char (ord a div 4), b64_char (ord a mod 4 * 16 + ord b div 16),
      b64_char (ord b mod 16 * 4), CHR ''='']"
| "b64encode (a # b # c # r) =
     b64_char (ord a div 4) # b64_char (ord a mod 4 * 16 + ord b div 16) #
     b64_char (ord b mod 16 * 4 + ord c div 64) # b64_char (ord c mod 64) # b64encode r"

text \<open>
  The decoder's loop: the position in the quad, the bits left over from the previous character,
  the pads seen in this quad and whether padding has started.
\<close>

fun a2b_base64 :: "bool \<Rightarrow> nat \<Rightarrow> nat \<Rightarrow> nat \<Rightarrow> bool \<Rightarrow> string \<Rightarrow> bytes res" where
  "a2b_base64 strict quad left pads started [] =
     (if quad = 0 then Inr [] else Inl (ValueError ''Incorrect padding''))"
| "a2b_base64 strict quad left pads started (c # cs) =
     (if c = CHR ''='' then
        if 2 \<le> quad \<and> 4 \<le> quad + (pads + 1) then
          if strict \<and> cs \<noteq> [] then Inl (ValueError ''Excess data after padding'') else Inr []
        else a2b_base64 strict quad left (if 2 \<le> quad then pads + 1 else pads) True cs
      else
        (case index_of b64_alphabet c of
           None \<Rightarrow>
             if strict then Inl (ValueError ''Only base64 data is allowed'')
             else a2b_base64 strict quad left pads started cs
         | Some v \<Rightarrow>
             if strict \<and> started then Inl (ValueError ''Discontinuous padding not allowed'')
             else if quad = 0 then a2b_base64 strict 1 v 0 started cs
             else if quad = 1 then
               rbind (a2b_base64 strict 2 (v mod 16) 0 started cs)
                 (\<lambda>out. Inr (char_of (left * 4 + v div 16) # out))
             else if quad = 2 then
               rbind (a2b_base64 strict 3 (v mod 4) 0 started cs)
                 (\<lambda>out. Inr (char_of (left * 16 + v div 4) # out))
             else
               rbind (a2b_base64 strict 0 0 0 started cs)
                 (\<lambda>out. Inr (char_of (left * 64 + v) # out))))"

definition b64decode :: "bool \<Rightarrow> string \<Rightarrow> bytes res" where
  "b64decode validate s =
     (if validate \<and> s \<noteq> [] \<and> hd s = CHR ''='' then Inl (ValueError ''Leading padding not allowed'')
      else a2b_base64 validate 0 0 0 False s)"

section \<open>Round trip\<close>

lemma b64_tables:
  "list_all (\<lambda>n. index_of b64_alphabet (b64_char n) = Some n \<and> b64_char n \<noteq> CHR ''='') [0..<64]"
  by code_simp

lemma index_of_b64_char [simp]:
  "n < 64 \<Longrightarrow> index_of b64_alphabet (b64_char n) = Some n"
  "n < 64 \<Longrightarrow> b64_char n \<noteq> CHR ''=''"
  using b64_tables by (simp_all add: list_all_iff)

lemma ord_split:
  "ord a div 4 < 64" "ord a mod 4 * 16 < 64" "ord a mod 4 * 16 + ord b div 16 < 64"
  "ord b mod 16 * 4 < 64" "ord b mod 16 * 4 + ord c div 64 < 64" "ord c mod 64 < 64"
  using of_char_lt_256 [of a] of_char_lt_256 [of b] of_char_lt_256 [of c] by linarith+

lemma quad_join:
  fixes x y :: nat
  shows "y < 16 \<Longrightarrow> (x * 16 + y) div 16 = x" "y < 16 \<Longrightarrow> (x * 16 + y) mod 16 = y"
    "y < 4 \<Longrightarrow> (x * 4 + y) div 4 = x" "y < 4 \<Longrightarrow> (x * 4 + y) mod 4 = y"
  by simp_all

lemma ord_div: "ord b div 16 < 16" "ord c div 64 < 4"
  using of_char_lt_256 [of b] of_char_lt_256 [of c] by linarith+

lemma char_of_join: "char_of (ord a div m * m + ord a mod m) = a"
  by simp

lemma a2b_encode: "a2b_base64 strict 0 0 0 False (b64encode bs) = Inr bs"
  by (induction bs rule: b64encode.induct)
    (simp_all add: ord_split quad_join ord_div char_of_join)

lemma b64encode_hd: "b64encode bs \<noteq> [] \<Longrightarrow> hd (b64encode bs) \<noteq> CHR ''=''"
  by (cases bs rule: b64encode.cases) (simp_all add: ord_split)

theorem b64decode_encode [simp, codec_simps]: "b64decode validate (b64encode bs) = Inr bs"
  by (auto simp: b64decode_def a2b_encode dest: b64encode_hd)

lemma b64encode_inject [simp]: "b64encode a = b64encode b \<longleftrightarrow> a = b"
  by (metis b64decode_encode sum.inject(2))

lemma b64encode_Nil_iff [simp]: "b64encode bs = [] \<longleftrightarrow> bs = []"
  by (cases bs rule: b64encode.cases) simp_all


lemma a2b_strict_lenient: "a2b_base64 True q l p st s = Inr bs \<Longrightarrow> a2b_base64 False q l p st s = Inr bs"
proof (induction s arbitrary: q l p st bs)
  case Nil
  then show ?case by simp
next
  case (Cons c s)
  then show ?case by (auto simp: rbind_Inr_iff split: if_splits option.splits)
qed

lemma b64decode_strict_lenient: "b64decode True s = Inr bs \<Longrightarrow> b64decode False s = Inr bs"
  by (auto simp: b64decode_def intro: a2b_strict_lenient split: if_splits)

end
