(* ===== verification/Did.thy ===== *)
theory Did
  imports Base64
begin

text \<open>
  \<^verbatim>\<open>identity/did.py\<close>: the inline base58btc codec and the \<^verbatim>\<open>did:key\<close> identifiers of
  Ed25519 keys. Both directions round trip (\<open>pubkey_from_did_of_key\<close>,
  \<open>did_of_pubkey_from_did\<close>): a did:key names exactly one key, and a key has exactly one
  spelling, so comparing DID strings, as every allowlist and every revocation list does, is
  comparing keys.
\<close>

section \<open>Positional notation\<close>

function digits :: "nat \<Rightarrow> nat \<Rightarrow> nat list" where
  "digits b n = (if n = 0 \<or> b < 2 then [] else digits b (n div b) @ [n mod b])"
  by auto
termination by (relation "measure snd") auto

declare digits.simps [simp del]

definition undigits :: "nat \<Rightarrow> nat list \<Rightarrow> nat" where
  "undigits b ds = foldl (\<lambda>n d. n * b + d) 0 ds"

lemma digits_0 [simp]: "digits b 0 = []"
  by (simp add: digits.simps)

lemma digits_Nil_iff: "digits b n = [] \<longleftrightarrow> n = 0 \<or> b < 2"
  by (subst digits.simps) simp

lemma digits_step: "n \<noteq> 0 \<Longrightarrow> \<not> b < 2 \<Longrightarrow> digits b n = digits b (n div b) @ [n mod b]"
  by (subst digits.simps) simp

lemma undigits_simps [simp]:
  "undigits b [] = 0" "undigits b (ds @ [d]) = undigits b ds * b + d"
  by (simp_all add: undigits_def)

lemma undigits_digits: "2 \<le> b \<Longrightarrow> undigits b (digits b n) = n"
proof (induction b n rule: digits.induct)
  case (1 b n)
  then show ?case
    by (cases "n = 0") (simp_all add: digits.simps [of b n])
qed

lemma undigits_Cons: "undigits b (d # ds) = d * b ^ length ds + undigits b ds"
proof (induction ds rule: rev_induct)
  case Nil
  then show ?case by (simp add: undigits_def)
next
  case (snoc x xs)
  have "undigits b (d # xs @ [x]) = undigits b (d # xs) * b + x"
    using undigits_simps(2) [of b "d # xs" x] by simp
  then show ?case by (simp add: snoc algebra_simps)
qed

lemma undigits_dropWhile: "undigits b (dropWhile (\<lambda>d. d = 0) ds) = undigits b ds"
  by (induction ds) (simp_all add: undigits_Cons)

lemma digits_undigits_nonzero:
  assumes "\<forall>d\<in>set ds. d < b" "ds = [] \<or> hd ds \<noteq> 0" "2 \<le> b"
  shows "digits b (undigits b ds) = ds"
  using assms
proof (induction ds rule: rev_induct)
  case Nil
  then show ?case by simp
next
  case (snoc d ds)
  have "undigits b (ds @ [d]) \<noteq> 0"
  proof (cases ds)
    case Nil
    with snoc show ?thesis by (simp add: undigits_def)
  next
    case (Cons e es)
    with snoc show ?thesis by (simp add: undigits_Cons)
  qed
  moreover have "ds = [] \<or> hd ds \<noteq> 0"
    using snoc.prems(2) by (cases ds) auto
  ultimately show ?case
    using snoc by (subst digits.simps) simp
qed

lemma digits_undigits:
  assumes "\<forall>d\<in>set ds. d < b" "2 \<le> b"
  shows "digits b (undigits b ds) = dropWhile (\<lambda>d. d = 0) ds"
proof -
  have "digits b (undigits b (dropWhile (\<lambda>d. d = 0) ds)) = dropWhile (\<lambda>d. d = 0) ds"
  proof (rule digits_undigits_nonzero)
    show "dropWhile (\<lambda>d. d = 0) ds = [] \<or> hd (dropWhile (\<lambda>d. d = 0) ds) \<noteq> 0"
      using hd_dropWhile [of "\<lambda>d. d = 0" ds] by blast
  qed (use assms in \<open>auto dest: set_dropWhileD\<close>)
  then show ?thesis by (simp add: undigits_dropWhile)
qed

lemma digits_bound: "d \<in> set (digits b n) \<Longrightarrow> d < b"
proof (induction b n rule: digits.induct)
  case (1 b n)
  then show ?case
    by (subst (asm) (2) digits.simps) (auto split: if_splits)
qed

lemma digits_hd: "digits b n \<noteq> [] \<Longrightarrow> hd (digits b n) \<noteq> 0"
proof (induction b n rule: digits.induct)
  case (1 b n)
  then have n: "\<not> (n = 0 \<or> b < 2)" by (simp add: digits_Nil_iff)
  then have eq: "digits b n = digits b (n div b) @ [n mod b]" by (simp add: digits_step)
  show ?case
  proof (cases "digits b (n div b) = []")
    case True
    then have "n div b = 0" using n by (simp add: digits_Nil_iff)
    with n have "n mod b = n" by (metis div_mult_mod_eq mult_0 add_0)
    with True n eq show ?thesis by simp
  next
    case False
    with 1 n eq show ?thesis by simp
  qed
qed

section \<open>Python's integers as bytes\<close>

definition from_bytes :: "bytes \<Rightarrow> nat" where
  "from_bytes bs = undigits 256 (map of_char bs)"

fun bit_length :: "nat \<Rightarrow> nat" where
  "bit_length n = (if n = 0 then 0 else Suc (bit_length (n div 2)))"

declare bit_length.simps [simp del]

text \<open>\<^verbatim>\<open>n.to_bytes(len, "big")\<close>, for an \<open>n\<close> that fits.\<close>

definition to_bytes :: "nat \<Rightarrow> nat \<Rightarrow> bytes" where
  "to_bytes len n = map (\<lambda>i. char_of (n div 256 ^ (len - 1 - i) mod 256)) [0..<len]"

lemma bit_length_0 [simp]: "bit_length 0 = 0"
  by (simp add: bit_length.simps)

lemma bit_length_div: "n \<noteq> 0 \<Longrightarrow> bit_length n = Suc (bit_length (n div 2))"
  by (subst bit_length.simps) simp

lemma bit_length_power: "2 ^ k \<le> n \<Longrightarrow> bit_length n = k + bit_length (n div 2 ^ k)"
proof (induction k)
  case 0
  then show ?case by simp
next
  case (Suc k)
  then have "2 ^ k \<le> n" by simp
  moreover from this have "n div 2 ^ k \<noteq> 0" by (simp add: div_eq_0_iff)
  ultimately show ?case
    using Suc.IH bit_length_div [of "n div 2 ^ k"] by (simp add: div_mult2_eq [symmetric] mult.commute)
qed

lemma bit_length_256: "256 \<le> n \<Longrightarrow> bit_length n = 8 + bit_length (n div 256)"
  using bit_length_power [of 8 n] by simp

lemma bit_length_small: "0 < n \<Longrightarrow> n < 2 ^ k \<Longrightarrow> 1 \<le> bit_length n \<and> bit_length n \<le> k"
proof (induction k arbitrary: n)
  case 0
  then show ?case by simp
next
  case (Suc k)
  show ?case
  proof (cases "n div 2 = 0")
    case True
    with Suc.prems show ?thesis by (simp add: bit_length_div)
  next
    case False
    moreover have "n div 2 < 2 ^ k" using Suc.prems by auto
    ultimately have "bit_length (n div 2) \<le> k" using Suc.IH [of "n div 2"] by auto
    with Suc.prems show ?thesis by (simp add: bit_length_div)
  qed
qed

lemma byte_length: "(bit_length n + 7) div 8 = length (digits 256 n)"
proof (induction n rule: less_induct)
  case (less n)
  consider "n = 0" | "0 < n" "n < 256" | "256 \<le> n" by linarith
  then show ?case
  proof cases
    case 2
    have "digits 256 n = [n]"
      using 2 by (simp add: digits.simps [of 256 n])
    moreover have "1 \<le> bit_length n \<and> bit_length n \<le> 8"
      using bit_length_small [of n 8] 2 by simp
    ultimately have "(bit_length n + 7) div 8 = 1" by (intro div_nat_eqI) auto
    with \<open>digits 256 n = [n]\<close> show ?thesis by simp
  next
    case 3
    then have "length (digits 256 n) = Suc (length (digits 256 (n div 256)))"
      by (subst digits.simps) simp
    also have "\<dots> = Suc ((bit_length (n div 256) + 7) div 8)"
      using less.IH [of "n div 256"] 3 by simp
    also have "\<dots> = (bit_length n + 7) div 8"
      using 3 by (simp add: bit_length_256)
    finally show ?thesis ..
  qed simp
qed

lemma nth_digits:
  "i < length (digits b n) \<Longrightarrow> digits b n ! i = n div b ^ (length (digits b n) - 1 - i) mod b"
proof (induction b n arbitrary: i rule: digits.induct)
  case (1 b n)
  then have "digits b n \<noteq> []" by auto
  then have n: "\<not> (n = 0 \<or> b < 2)" by (simp add: digits_Nil_iff)
  then have eq: "digits b n = digits b (n div b) @ [n mod b]" by (simp add: digits_step)
  show ?case
  proof (cases "i < length (digits b (n div b))")
    case True
    then have "Suc (length (digits b (n div b)) - 1 - i) = length (digits b (n div b)) - i"
      by simp
    then have "n div b div b ^ (length (digits b (n div b)) - 1 - i) = n div b ^ (length (digits b (n div b)) - i)"
      by (metis div_mult2_eq power_Suc)
    with 1(1) [OF n True] True show ?thesis by (simp add: eq nth_append)
  next
    case False
    with 1(2) have "i = length (digits b (n div b))" by (simp add: eq)
    then show ?thesis by (simp add: eq)
  qed
qed

lemma to_bytes_digits: "to_bytes (length (digits 256 n)) n = map char_of (digits 256 n)"
  by (rule nth_equalityI) (simp_all add: to_bytes_def nth_digits)

section \<open>base58btc\<close>

definition b58_alphabet :: string where
  "b58_alphabet = ''123456789ABCDEFGHJKLMNPQRSTUVWXYZabcdefghijkmnopqrstuvwxyz''"

function b58_loop :: "nat \<Rightarrow> string \<Rightarrow> string" where
  "b58_loop n out = (if 0 < n then b58_loop (n div 58) (b58_alphabet ! (n mod 58) # out) else out)"
  by auto
termination by (relation "measure fst") auto

declare b58_loop.simps [simp del]

fun count_leading :: "'a \<Rightarrow> 'a list \<Rightarrow> nat" where
  "count_leading x [] = 0"
| "count_leading x (y # ys) = (if y = x then Suc (count_leading x ys) else 0)"

definition b58encode :: "bytes \<Rightarrow> string" where
  "b58encode data =
     (let out = b58_loop (from_bytes data) [];
          pad = count_leading (char_of (0::nat)) data
      in replicate pad (CHR ''1'') @ out)"

fun b58_value :: "string \<Rightarrow> nat \<Rightarrow> nat res" where
  "b58_value [] n = Inr n"
| "b58_value (ch # s) n =
     (case index_of b58_alphabet ch of
        None \<Rightarrow> Inl (ValueError ''invalid base58 character'')
      | Some i \<Rightarrow> b58_value s (n * 58 + i))"

definition b58decode :: "string \<Rightarrow> bytes res" where
  "b58decode s =
     rbind (b58_value s 0) (\<lambda>n.
       let body = (if n \<noteq> 0 then to_bytes ((bit_length n + 7) div 8) n else []);
           pad = count_leading (CHR ''1'') s
       in Inr (replicate pad (char_of (0::nat)) @ body))"

lemma b58_loop_digits: "b58_loop n out = map ((!) b58_alphabet) (digits 58 n) @ out"
proof (induction n out rule: b58_loop.induct)
  case (1 n out)
  then show ?case
    by (cases "n = 0") (simp_all add: b58_loop.simps [of n out] b58_loop.simps [of 0 out] digits_step)
qed

lemma b58_tables:
  "list_all (\<lambda>n. index_of b58_alphabet (b58_alphabet ! n) = Some n) [0..<58] \<and>
   b58_alphabet ! 0 = CHR ''1'' \<and> length b58_alphabet = 58"
  by code_simp

lemma index_of_b58 [simp]: "n < 58 \<Longrightarrow> index_of b58_alphabet (b58_alphabet ! n) = Some n"
  using b58_tables by (simp add: list_all_iff)

lemma index_of_Some: "index_of xs c = Some i \<Longrightarrow> i < length xs \<and> xs ! i = c"
  by (induction xs arbitrary: i) (auto split: if_splits)

lemma b58_nth_one: "n < 58 \<Longrightarrow> b58_alphabet ! n = CHR ''1'' \<longleftrightarrow> n = 0"
  using b58_tables index_of_b58 by (metis option.inject zero_less_numeral)

lemma b58_value_digits:
  "\<forall>d\<in>set ds. d < 58 \<Longrightarrow>
   b58_value (map ((!) b58_alphabet) ds) n = Inr (foldl (\<lambda>n d. n * 58 + d) n ds)"
  by (induction ds arbitrary: n) auto

lemma b58_value_Inr:
  "b58_value s n = Inr m \<Longrightarrow>
   \<exists>ds. s = map ((!) b58_alphabet) ds \<and> (\<forall>d\<in>set ds. d < 58) \<and> m = foldl (\<lambda>n d. n * 58 + d) n ds"
proof (induction s n rule: b58_value.induct)
  case (1 n)
  then show ?case by simp
next
  case (2 ch s n)
  then obtain i where i: "index_of b58_alphabet ch = Some i" "b58_value s (n * 58 + i) = Inr m"
    by (auto split: option.splits)
  with 2 obtain ds where "s = map ((!) b58_alphabet) ds" "\<forall>d\<in>set ds. d < 58"
    "m = foldl (\<lambda>n d. n * 58 + d) (n * 58 + i) ds"
    by blast
  with index_of_Some [OF i(1)] b58_tables show ?case
    by (intro exI [of _ "i # ds"]) auto
qed

lemma count_leading_takeWhile: "count_leading x xs = length (takeWhile (\<lambda>y. y = x) xs)"
  by (induction xs) auto

lemma replicate_count_leading: "replicate (count_leading x xs) x @ dropWhile (\<lambda>y. y = x) xs = xs"
  by (induction xs) auto

lemma count_leading_append:
  "xs = [] \<or> hd xs \<noteq> x \<Longrightarrow> count_leading x (replicate n x @ xs) = n"
  by (induction n) (cases xs; auto)+

lemma count_leading_map:
  "\<forall>y\<in>set ys. f y = x \<longleftrightarrow> y = z \<Longrightarrow> count_leading x (map f ys) = count_leading z ys"
  by (induction ys) auto

lemma undigits_replicate_0: "undigits b (replicate n 0 @ ds) = undigits b ds"
  by (induction n) (simp_all add: undigits_Cons)

text \<open>Both codecs share one shape: leading zeros apart, the digits of the number.\<close>

lemma digits_count_leading:
  assumes "\<forall>d\<in>set ds. d < b" "2 \<le> b"
  shows "replicate (count_leading 0 ds) 0 @ digits b (undigits b ds) = ds"
  using replicate_count_leading [of 0 ds] by (simp add: digits_undigits [OF assms])

lemma b58_decode_value:
  assumes "b58_value s 0 = Inr n"
  shows "b58decode s = Inr (replicate (count_leading (CHR ''1'') s) (char_of (0::nat)) @ map char_of (digits 256 n))"
  using assms by (simp add: b58decode_def byte_length to_bytes_digits)

lemma map_of_char_of_digits: "map (\<lambda>d. d mod 256) (digits 256 n) = digits 256 n"
  by (rule map_idI) (auto dest: digits_bound)

lemma count_leading_zero_byte: "count_leading (char_of (0::nat)) data = count_leading 0 (map ord data)"
proof -
  have "ord c = 0 \<longleftrightarrow> c = char_of (0::nat)" for c
    by (metis char_of_char of_char_of mod_0)
  then show ?thesis by (intro count_leading_map [symmetric]) simp
qed

theorem b58decode_encode [codec_simps]: "b58decode (b58encode data) = Inr data"
proof -
  let ?n = "from_bytes data" and ?pad = "count_leading (char_of (0::nat)) data"
  let ?ds = "replicate ?pad 0 @ digits 58 ?n"
  have one: "b58_alphabet ! 0 = CHR ''1''" using b58_tables by simp
  have lt: "\<forall>d\<in>set ?ds. d < 58" by (auto dest: digits_bound)
  have enc: "b58encode data = map ((!) b58_alphabet) ?ds"
    by (simp add: b58encode_def b58_loop_digits one)
  have "b58_value (b58encode data) 0 = Inr (undigits 58 ?ds)"
    unfolding enc by (simp only: b58_value_digits [OF lt] undigits_def)
  then have val: "b58_value (b58encode data) 0 = Inr ?n"
    by (simp add: undigits_replicate_0 undigits_digits)
  have "count_leading (CHR ''1'') (b58encode data) = count_leading 0 ?ds"
    unfolding enc using lt by (intro count_leading_map) (simp add: b58_nth_one)
  also have "\<dots> = ?pad"
    using digits_hd by (intro count_leading_append) blast
  finally have "b58decode (b58encode data) = Inr (map char_of (replicate ?pad 0 @ digits 256 ?n))"
    by (simp add: b58_decode_value [OF val])
  also have "replicate ?pad 0 @ digits 256 ?n = map of_char data"
    by (simp add: from_bytes_def count_leading_zero_byte digits_count_leading)
  finally show ?thesis by (simp add: comp_def)
qed

theorem b58encode_decode [codec_simps]:
  assumes "b58decode s = Inr data"
  shows "b58encode data = s"
proof -
  from assms obtain n where n: "b58_value s 0 = Inr n"
    by (auto simp: b58decode_def rbind_Inr_iff)
  then obtain ds where ds: "s = map ((!) b58_alphabet) ds" "\<forall>d\<in>set ds. d < 58" "n = undigits 58 ds"
    unfolding undigits_def using b58_value_Inr by blast
  let ?pad = "count_leading 0 ds"
  have pad: "count_leading (CHR ''1'') s = ?pad"
    unfolding ds(1) using ds(2) by (intro count_leading_map) (simp add: b58_nth_one)
  have data: "data = replicate ?pad (char_of (0::nat)) @ map char_of (digits 256 n)"
    using assms b58_decode_value [OF n] by (simp add: pad)
  have bytes: "map of_char data = replicate ?pad 0 @ digits 256 n"
    by (simp add: data map_of_char_of_digits comp_def)
  have "from_bytes data = n"
    by (simp add: from_bytes_def bytes undigits_replicate_0 undigits_digits)
  moreover have "count_leading (char_of (0::nat)) data = ?pad"
    unfolding count_leading_zero_byte bytes using digits_hd by (intro count_leading_append) blast
  ultimately have "b58encode data = map ((!) b58_alphabet) (replicate ?pad 0 @ digits 58 n)"
    using b58_tables by (simp add: b58encode_def b58_loop_digits)
  also have "replicate ?pad 0 @ digits 58 n = ds"
    unfolding ds(3) using ds(2) by (intro digits_count_leading) auto
  finally show ?thesis by (simp add: ds(1))
qed

section \<open>did:key\<close>

definition did_key_prefix :: string where
  "did_key_prefix = ''did:key:z''"

definition ed25519_multicodec :: bytes where
  "ed25519_multicodec = [char_of (0xed :: nat), char_of (0x01 :: nat)]"

definition did_key_from_pubkey :: "bytes \<Rightarrow> did res" where
  "did_key_from_pubkey pk =
     (if length pk \<noteq> 32 then Inl (ValueError ''Ed25519 public key must be 32 bytes'')
      else Inr (did_key_prefix @ b58encode (ed25519_multicodec @ pk)))"

definition pubkey_from_did :: "did \<Rightarrow> bytes res" where
  "pubkey_from_did did =
     (if \<not> starts_with did did_key_prefix
      then Inl (ValueError ''not a did:key (base58btc / Ed25519) DID'')
      else rbind (b58decode (drop (length did_key_prefix) did)) (\<lambda>raw.
        if take 2 raw \<noteq> ed25519_multicodec
        then Inl (ValueError ''did:key is not tagged as Ed25519 (0xed multicodec)'')
        else let pk = drop 2 raw
             in if length pk \<noteq> 32
                then Inl (ValueError ''Ed25519 did:key must wrap a 32-byte key'')
                else Inr pk))"

definition multibase_key :: "did \<Rightarrow> string res" where
  "multibase_key did =
     (if \<not> starts_with did ''did:key:'' then Inl (ValueError ''not a did:key DID'')
      else Inr (drop (length ''did:key:'') did))"

definition did_document :: "did \<Rightarrow> json res" where
  "did_document did =
     rbind (pubkey_from_did did) (\<lambda>_.
     rbind (multibase_key did) (\<lambda>mb.
       let vm_id = did @ ''#'' @ mb
       in Inr (JObj
         [(''@context'', JList [JStr ''https://www.w3.org/ns/did/v1'',
                                JStr ''https://w3id.org/security/suites/ed25519-2020/v1'']),
          (''id'', JStr did),
          (''verificationMethod'', JList [JObj
             [(''id'', JStr vm_id),
              (''type'', JStr ''Ed25519VerificationKey2020''),
              (''controller'', JStr did),
              (''publicKeyMultibase'', JStr mb)]]),
          (''authentication'', JList [JStr vm_id]),
          (''assertionMethod'', JList [JStr vm_id])])))"

lemma pubkey_from_did_of_key:
  assumes "did_key_from_pubkey pk = Inr did"
  shows "pubkey_from_did did = Inr pk"
proof -
  from assms have did: "did = did_key_prefix @ b58encode (ed25519_multicodec @ pk)" and "length pk = 32"
    by (auto simp: did_key_from_pubkey_def split: if_splits)
  then show ?thesis
    by (simp add: pubkey_from_did_def b58decode_encode Let_def ed25519_multicodec_def)
qed

lemma did_of_pubkey_from_did:
  assumes "pubkey_from_did did = Inr pk"
  shows "did_key_from_pubkey pk = Inr did"
proof -
  let ?rest = "drop (length did_key_prefix) did"
  from assms obtain raw where raw: "starts_with did did_key_prefix" "b58decode ?rest = Inr raw"
    "take 2 raw = ed25519_multicodec" "pk = drop 2 raw" "length pk = 32"
    by (auto simp: pubkey_from_did_def Let_def rbind_Inr_iff split: if_splits)
  then have "ed25519_multicodec @ pk = raw"
    by (metis append_take_drop_id)
  with raw b58encode_decode [OF raw(2)] show ?thesis
    by (simp add: did_key_from_pubkey_def starts_with_drop)
qed

lemma pubkey_from_did_length: "pubkey_from_did did = Inr pk \<Longrightarrow> length pk = 32"
  by (auto simp: pubkey_from_did_def Let_def rbind_Inr_iff split: if_splits)

lemma pubkey_from_did_inject:
  "pubkey_from_did d = Inr pk \<Longrightarrow> pubkey_from_did d' = Inr pk \<Longrightarrow> d = d'"
  by (metis did_of_pubkey_from_did sum.inject(2))

lemma did_document_ok:
  assumes "pubkey_from_did did = Inr pk"
  obtains doc where "did_document did = Inr (JObj doc)" "pget doc ''id'' = JStr did"
proof -
  have "starts_with did did_key_prefix"
    using assms by (auto simp: pubkey_from_did_def split: if_splits)
  then have "starts_with did ''did:key:''"
    by (intro starts_with_appendD [of did "''did:key:''" "''z''"]) (simp add: did_key_prefix_def)
  with assms that show ?thesis
    by (auto simp: did_document_def multibase_key_def Let_def pget_def)
qed

text \<open>C1 did:key is a bijection between 32-byte keys and well-formed DIDs: a DID resolves to the key
  exactly when it is the encoding of that key. So a key has one spelling, and comparing DID strings
  compares keys.\<close>

theorem did_key_bijection: "did_key_from_pubkey pk = Inr did \<longleftrightarrow> pubkey_from_did did = Inr pk"
  using did_of_pubkey_from_did pubkey_from_did_of_key by blast

end
