(* ===== verification/Signing.thy ===== *)
theory Signing
  imports Did
begin

text \<open>
  \<^verbatim>\<open>identity/keys.py\<close>, \<^verbatim>\<open>identity/allowlist.py\<close> and \<^verbatim>\<open>identity/signing.py\<close>: signing
  identities and their key file, the allowlist and its file, and the signed JSON envelope every
  statement of the system travels in.

  An \<^verbatim>\<open>Identity\<close> is its 32-byte seed and a \<^verbatim>\<open>PublicIdentity\<close> its 32-byte verify key. The
  trust objects (\<^verbatim>\<open>Allowlist\<close>, \<^verbatim>\<open>ALLOW_ANY\<close>, \<^verbatim>\<open>TrustPolicy\<close>) are only ever asked
  \<^verbatim>\<open>.contains(did)\<close>, so a trust object is that predicate and \<^verbatim>\<open>None\<close> is \<open>None\<close>.
  The text files are read as ASCII.
\<close>

type_synonym identity = bytes
type_synonym trust = "did \<Rightarrow> bool"

section \<open>What Ed25519 promises\<close>

text \<open>Keys are 32 bytes, signatures 64, and a signature verifies under the key of its seed.\<close>

definition crypto_ok :: "env \<Rightarrow> bool" where
  "crypto_ok E \<longleftrightarrow>
     (\<forall>seed. length seed = 32 \<longrightarrow> length (ed_pub E seed) = 32) \<and>
     (\<forall>seed m. length seed = 32 \<longrightarrow>
        length (ed_sign E seed m) = 64 \<and> ed_verify E (ed_pub E seed) m (ed_sign E seed m))"

text \<open>Nobody else can sign for \<open>pk\<close>: what verifies under it is one of the messages \<open>S\<close> its holder
  signed.\<close>

definition unforgeable :: "env \<Rightarrow> bytes \<Rightarrow> bytes set \<Rightarrow> bool" where
  "unforgeable E pk S \<longleftrightarrow> (\<forall>m s. ed_verify E pk m s \<longrightarrow> m \<in> S)"

lemma crypto_okD [env_laws]:
  assumes "crypto_ok E" "length seed = 32"
  shows "length (ed_pub E seed) = 32" "length (ed_sign E seed m) = 64"
    "ed_verify E (ed_pub E seed) m (ed_sign E seed m)"
  using assms by (simp_all add: crypto_ok_def)

section \<open>Identities\<close>

text \<open>\<^verbatim>\<open>nacl.signing.VerifyKey\<close> and \<^verbatim>\<open>SigningKey\<close> take exactly 32 bytes.\<close>

definition verify_key_of :: "bytes \<Rightarrow> bytes res" where
  "verify_key_of bs =
     (if length bs = 32 then Inr bs else Inl (ValueError ''The key must be exactly 32 bytes long''))"

definition signing_key_of :: "bytes \<Rightarrow> identity res" where
  "signing_key_of bs =
     (if length bs = 32 then Inr bs else Inl (ValueError ''The seed must be exactly 32 bytes long''))"

definition from_did :: "did \<Rightarrow> bytes res" where
  "from_did did = rbind (pubkey_from_did did) verify_key_of"

definition from_b64 :: "string \<Rightarrow> bytes res" where
  "from_b64 b64 = rbind (b64decode False b64) verify_key_of"

definition verify_key_b64 :: "bytes \<Rightarrow> string" where
  "verify_key_b64 pk = b64encode pk"

definition pk_verify :: "env \<Rightarrow> bytes \<Rightarrow> bytes \<Rightarrow> bytes \<Rightarrow> bool" where
  "pk_verify E pk data sig \<longleftrightarrow> length sig = 64 \<and> ed_verify E pk data sig"

definition from_seed_b64 :: "string \<Rightarrow> identity res" where
  "from_seed_b64 b64 = rbind (b64decode False b64) signing_key_of"

definition seed_b64 :: "identity \<Rightarrow> string" where
  "seed_b64 seed = b64encode seed"

definition identity_did :: "env \<Rightarrow> identity \<Rightarrow> did res" where
  "identity_did E seed = did_key_from_pubkey (ed_pub E seed)"

definition sign :: "env \<Rightarrow> identity \<Rightarrow> bytes \<Rightarrow> bytes" where
  "sign E seed data = ed_sign E seed data"

lemma identity_did_ok:
  assumes "crypto_ok E" "length seed = 32"
  obtains did where "identity_did E seed = Inr did" "pubkey_from_did did = Inr (ed_pub E seed)"
    "from_did did = Inr (ed_pub E seed)"
proof -
  have "length (ed_pub E seed) = 32" using assms by (rule crypto_okD)
  then obtain did where did: "identity_did E seed = Inr did"
    by (simp add: identity_did_def did_key_from_pubkey_def)
  then have "pubkey_from_did did = Inr (ed_pub E seed)"
    unfolding identity_did_def by (rule pubkey_from_did_of_key)
  with did that show ?thesis
    using \<open>length (ed_pub E seed) = 32\<close> by (simp add: from_did_def verify_key_of_def)
qed

lemma from_did_eq: "from_did did = pubkey_from_did did"
  by (cases "pubkey_from_did did") (auto simp: from_did_def verify_key_of_def dest: pubkey_from_did_length)

section \<open>Key = value files\<close>

text \<open>\<^verbatim>\<open>str.splitlines\<close> on ASCII text: a line feed, a carriage return, the pair, and the
  vertical tab, form feed and separators 0x1c to 0x1e end a line.\<close>

definition is_newline :: "char \<Rightarrow> bool" where
  "is_newline c \<longleftrightarrow> of_char c \<in> {10, 11, 12, 13, 28, 29, 30 :: nat}"

function splitlines_from :: "string \<Rightarrow> string \<Rightarrow> string list" where
  "splitlines_from cur [] = (if cur = [] then [] else [rev cur])"
| "splitlines_from cur (c # cs) =
     (if is_newline c
      then rev cur # splitlines_from [] (if c = CHR 0x0D \<and> cs \<noteq> [] \<and> hd cs = CHR 0x0A then tl cs else cs)
      else splitlines_from (c # cur) cs)"
  by pat_completeness auto
termination by (relation "measure (length \<circ> snd)") auto

definition splitlines :: "string \<Rightarrow> string list" where
  "splitlines s = splitlines_from [] s"

text \<open>\<^verbatim>\<open>s.partition("=")\<close>\<close>

definition partition_eq :: "string \<Rightarrow> string \<times> string" where
  "partition_eq s = (takeWhile (\<lambda>c. c \<noteq> CHR ''='') s, drop 1 (dropWhile (\<lambda>c. c \<noteq> CHR ''='') s))"

text \<open>\<^verbatim>\<open>s.split()[0] if s.split() else ""\<close>\<close>

definition first_word :: "string \<Rightarrow> string" where
  "first_word s = takeWhile (\<lambda>c. \<not> is_space c) (dropWhile is_space s)"

definition identity_save :: "env \<Rightarrow> identity \<Rightarrow> string res" where
  "identity_save E seed =
     rbind (identity_did E seed) (\<lambda>did. Inr (
       ''# did:key: '' @ did @ [CHR 0x0A] @
       ''# public_key = '' @ verify_key_b64 (ed_pub E seed) @ ''   (share this)'' @ [CHR 0x0A] @
       ''signing_seed = '' @ seed_b64 seed @ [CHR 0x0A]))"

definition identity_load_line :: "string \<Rightarrow> string option \<Rightarrow> string option res" where
  "identity_load_line raw seed =
     (let s = strip raw in
      if s = [] \<or> starts_with s ''#'' then Inr seed
      else if CHR ''='' \<notin> set s then Inl (ValueError ''expected key = value'')
      else let (key, val) = partition_eq s
           in if strip key = ''signing_seed'' then Inr (Some (strip val)) else Inr seed)"

definition identity_load :: "string \<Rightarrow> identity res" where
  "identity_load file_text =
     rbind (rfold identity_load_line (splitlines file_text) None) (\<lambda>seed.
       case seed of
         None \<Rightarrow> Inl (ValueError ''no signing_seed line found'')
       | Some b64 \<Rightarrow> from_seed_b64 b64)"

section \<open>The allowlist\<close>

type_synonym allowlist = "did set"

definition al_contains :: "allowlist \<Rightarrow> trust" where
  "al_contains al did \<longleftrightarrow> did \<in> al"

definition al_add :: "did \<Rightarrow> allowlist \<Rightarrow> allowlist res" where
  "al_add did al = rbind (pubkey_from_did did) (\<lambda>_. Inr (insert did al))"

definition al_load_line :: "string \<Rightarrow> allowlist \<Rightarrow> allowlist res" where
  "al_load_line raw al =
     (let s = strip raw in
      if s = [] \<or> starts_with s ''#'' then Inr al
      else if CHR ''='' \<notin> set s then Inl (ValueError ''expected key = value'')
      else let (key, val) = partition_eq s
           in if strip key \<noteq> ''authorized_did'' then Inl (ValueError ''unknown key'')
              else al_add (first_word val) al)"

definition al_load :: "string \<Rightarrow> allowlist res" where
  "al_load file_text = rfold al_load_line (splitlines file_text) {}"

definition allow_any :: trust where
  "allow_any did = True"

definition require_trust :: "trust option \<Rightarrow> string \<Rightarrow> trust res" where
  "require_trust t what =
     (case t of
        None \<Rightarrow> Inl (ValueError (what @ '' needs an allowlist / trust policy''))
      | Some c \<Rightarrow> Inr c)"

definition al_wf :: "allowlist \<Rightarrow> bool" where
  "al_wf al \<longleftrightarrow> (\<forall>did\<in>al. \<exists>pk. pubkey_from_did did = Inr pk)"

lemma al_add_wf [inv_intros]: "al_wf al \<Longrightarrow> al_add did al = Inr al' \<Longrightarrow> al_wf al'"
  by (auto simp: al_wf_def al_add_def rbind_Inr_iff)

lemma al_load_line_wf [inv_intros]: "al_wf al \<Longrightarrow> al_load_line raw al = Inr al' \<Longrightarrow> al_wf al'"
  by (auto simp: al_load_line_def Let_def split: if_splits prod.splits dest: al_add_wf)

lemma al_load_wf: "al_load doc = Inr al \<Longrightarrow> al_wf al"
  unfolding al_load_def
  by (erule rfold_invariant [of al_load_line]) (simp add: al_wf_def, rule al_load_line_wf)

subsection \<open>The key file reads back\<close>

definition plain :: "string \<Rightarrow> bool" where
  "plain s \<longleftrightarrow> (\<forall>c\<in>set s. \<not> is_newline c \<and> \<not> is_space c)"

lemma splitlines_from_line:
  "\<forall>c\<in>set l. \<not> is_newline c \<Longrightarrow>
   splitlines_from cur (l @ CHR 0x0A # r) = (rev cur @ l) # splitlines_from [] r"
  by (induction l arbitrary: cur) (auto simp: is_newline_def)

lemma splitlines_lines:
  "\<forall>l\<in>set ls. \<forall>c\<in>set l. \<not> is_newline c \<Longrightarrow>
   splitlines (concat (map (\<lambda>l. l @ [CHR 0x0A]) ls)) = ls"
  by (induction ls) (auto simp: splitlines_def splitlines_from_line)

lemma b64_plain: "list_all (\<lambda>c. \<not> is_newline c \<and> \<not> is_space c) (CHR ''='' # b64_alphabet)"
  by code_simp

lemma b58_plain: "list_all (\<lambda>c. \<not> is_newline c \<and> \<not> is_space c) b58_alphabet"
  by code_simp

lemma b64encode_plain: "plain (b64encode bs)"
proof -
  have l: "length b64_alphabet = 64" by code_simp
  have "b64_char n \<in> set (CHR ''='' # b64_alphabet)" if "n < 64" for n
    using that l nth_mem [of n b64_alphabet] by simp
  then have "set (b64encode bs) \<subseteq> set (CHR ''='' # b64_alphabet)"
    by (induction bs rule: b64encode.induct) (simp_all add: ord_split)
  with b64_plain show ?thesis
    unfolding plain_def list_all_iff by blast
qed

lemma b58encode_plain: "plain (b58encode bs)"
proof -
  have "b58_alphabet ! n \<in> set b58_alphabet" if "n < 58" for n
    using b58_tables that by simp
  moreover have "CHR ''1'' \<in> set b58_alphabet" by code_simp
  ultimately show ?thesis
    using b58_plain unfolding plain_def b58encode_def b58_loop_digits list_all_iff
    by (auto simp: Let_def dest!: digits_bound)
qed

lemma did_plain: "did_key_from_pubkey pk = Inr did \<Longrightarrow> plain did"
  using b58encode_plain [of "ed25519_multicodec @ pk"]
  by (auto simp: did_key_from_pubkey_def plain_def did_key_prefix_def is_newline_def is_space_def
      split: if_splits)

lemma strip_plain: "plain s \<Longrightarrow> strip s = s"
proof -
  have "dropWhile is_space t = t" if "\<forall>c\<in>set t. \<not> is_space c" for t
    using that by (cases t) auto
  from this [of s] this [of "rev s"] show "plain s \<Longrightarrow> strip s = s" by (simp add: strip_def plain_def)
qed

lemma strip_id:
  assumes "s \<noteq> []" "\<not> is_space (hd s)" "\<not> is_space (last s)"
  shows "strip s = s"
proof -
  have "dropWhile is_space s = s" using assms by (cases s) auto
  moreover have "dropWhile is_space (rev s) = rev s"
    using assms by (cases s rule: rev_cases) auto
  ultimately show ?thesis by (simp add: strip_def)
qed

lemma identity_load_save:
  assumes "length seed = 32" "identity_save E seed = Inr doc"
  shows "identity_load doc = Inr seed"
proof -
  from assms(2) obtain did where did: "identity_did E seed = Inr did" and
    doc: "doc = concat (map (\<lambda>l. l @ [CHR 0x0A])
      [''# did:key: '' @ did, ''# public_key = '' @ verify_key_b64 (ed_pub E seed) @ ''   (share this)'',
       ''signing_seed = '' @ seed_b64 seed])"
    by (auto simp: identity_save_def rbind_Inr_iff)
  have nl: "c \<in> set did \<Longrightarrow> \<not> is_newline c" "c \<in> set (b64encode bs) \<Longrightarrow> \<not> is_newline c" for c bs
    using did_plain [of "ed_pub E seed" did] did b64encode_plain [of bs]
    by (auto simp: identity_did_def plain_def)
  have lines: "splitlines doc =
      [''# did:key: '' @ did, ''# public_key = '' @ verify_key_b64 (ed_pub E seed) @ ''   (share this)'',
       ''signing_seed = '' @ seed_b64 seed]"
    unfolding doc
    by (rule splitlines_lines) (auto simp: verify_key_b64_def seed_b64_def dest: nl, simp_all add: is_newline_def)
  have hash: "identity_load_line (CHR ''#'' # l) x = Inr x" for l x
  proof -
    have sp: "\<not> is_space (CHR ''#'')" by (simp add: is_space_def)
    then have "starts_with (strip (CHR ''#'' # l)) ''#''"
      by (simp add: strip_def dropWhile_append)
    then show ?thesis by (simp add: identity_load_line_def Let_def)
  qed
  have "b64encode seed \<noteq> []" using assms(1) by auto
  then have "strip (''signing_seed = '' @ seed_b64 seed) = ''signing_seed = '' @ seed_b64 seed"
    using b64encode_plain [of seed]
    by (intro strip_id) (auto simp: seed_b64_def plain_def is_space_def [of "CHR ''s''"])
  moreover have "strip (CHR '' '' # b64encode seed) = b64encode seed"
    using strip_plain [OF b64encode_plain [of seed]] by (simp add: strip_def is_space_def [of "CHR '' ''"])
  moreover have "strip ''signing_seed '' = ''signing_seed''" by code_simp
  ultimately have "identity_load_line (''signing_seed = '' @ seed_b64 seed) x = Inr (Some (b64encode seed))" for x
    by (simp add: identity_load_line_def partition_eq_def seed_b64_def)
  with hash show ?thesis
    by (simp add: identity_load_def lines from_seed_b64_def signing_key_of_def assms(1))
qed

section \<open>Signed payloads\<close>

type_synonym obj = "(string, json) dict"

definition has_envelope :: "obj \<Rightarrow> bool" where
  "has_envelope d \<longleftrightarrow> ''signer'' \<in> set (dkeys d) \<or> ''sig'' \<in> set (dkeys d)"

definition sign_payload :: "env \<Rightarrow> identity \<Rightarrow> obj \<Rightarrow> obj res" where
  "sign_payload E seed payload =
     (if has_envelope payload then Inl (ValueError ''payload already contains a signer/sig envelope'')
      else let sig = sign E seed (canonical E (JObj payload))
           in rbind (identity_did E seed) (\<lambda>did.
                Inr (dmerge payload [(''signer'', JStr did), (''sig'', JStr (b64encode sig))])))"

definition unsigned :: "obj \<Rightarrow> obj" where
  "unsigned d = filter (\<lambda>(k, v). k \<noteq> ''signer'' \<and> k \<noteq> ''sig'') d"

definition verify_payload :: "env \<Rightarrow> json \<Rightarrow> trust option \<Rightarrow> bool \<times> did option" where
  "verify_payload E v allowlist =
     (case v of
        JObj d \<Rightarrow>
          (case (pget d ''signer'', pget d ''sig'') of
             (JStr signer, JStr sig_b64) \<Rightarrow>
               (case (from_did signer, b64decode True sig_b64) of
                  (Inr pub, Inr sig) \<Rightarrow>
                    if \<not> pk_verify E pub (canonical E (JObj (unsigned d))) sig then (False, None)
                    else (case allowlist of
                            None \<Rightarrow> (True, Some signer)
                          | Some contains \<Rightarrow>
                              if contains signer then (True, Some signer) else (False, Some signer))
                | _ \<Rightarrow> (False, None))
           | _ \<Rightarrow> (False, None))
      | _ \<Rightarrow> (False, None))"

lemma pget_Some: "map_of d k = Some v \<Longrightarrow> pget d k = v"
  by (simp add: pget_def)

lemma pget_eq_JStr: "pget d k = JStr s \<longleftrightarrow> map_of d k = Some (JStr s)"
  by (auto simp: pget_def split: option.splits)

lemma unsigned_id: "\<not> has_envelope d \<Longrightarrow> unsigned d = d"
  by (force simp: unsigned_def has_envelope_def dkeys_def intro!: filter_True)

lemma dset_new: "k \<notin> set (dkeys d) \<Longrightarrow> dset k v d = d @ [(k, v)]"
  by (induction d) (auto simp: dkeys_def)

lemma sign_payload_eq:
  assumes "\<not> has_envelope payload" "identity_did E seed = Inr did"
  shows "sign_payload E seed payload =
     Inr (payload @ [(''signer'', JStr did), (''sig'', JStr (b64encode (sign E seed (canonical E (JObj payload)))))])"
proof -
  have "''signer'' \<notin> set (dkeys payload)" "\<And>v. ''sig'' \<notin> set (dkeys (payload @ [(''signer'', v)]))"
    using assms(1) by (auto simp: has_envelope_def dkeys_def)
  then show ?thesis
    using assms by (simp add: sign_payload_def Let_def dmerge_def dset_new)
qed

lemma sign_payload_Inr:
  assumes "sign_payload E seed payload = Inr obj"
  obtains did where "identity_did E seed = Inr did" "\<not> has_envelope payload"
    "obj = payload @ [(''signer'', JStr did), (''sig'', JStr (b64encode (sign E seed (canonical E (JObj payload)))))]"
    "unsigned obj = payload" "pget obj ''signer'' = JStr did"
    "pget obj ''sig'' = JStr (b64encode (sign E seed (canonical E (JObj payload))))"
proof -
  from assms obtain did where did: "identity_did E seed = Inr did" and ne: "\<not> has_envelope payload"
    by (auto simp: sign_payload_def Let_def rbind_Inr_iff split: if_splits)
  with assms have obj: "obj = payload @ [(''signer'', JStr did), (''sig'', JStr (b64encode (sign E seed (canonical E (JObj payload)))))]"
    by (simp add: sign_payload_eq)
  have un: "unsigned obj = payload"
    using unsigned_id [OF ne] by (simp add: obj unsigned_def)
  have none: "map_of payload ''signer'' = None" "map_of payload ''sig'' = None"
    using ne by (auto simp: has_envelope_def dkeys_def map_of_eq_None_iff)
  from did ne obj un none that show ?thesis by (simp add: pget_def map_add_def)
qed

lemma sign_payload_fields:
  assumes "sign_payload E seed payload = Inr obj" "k \<noteq> ''signer''" "k \<noteq> ''sig''"
  shows "pget obj k = pget payload k" "map_of obj k = map_of payload k"
  using assms by (auto elim!: sign_payload_Inr simp: pget_def map_add_def split: option.splits)

lemma verify_payload_True_iff:
  "verify_payload E (JObj d) allowlist = (True, Some did) \<longleftrightarrow>
   (\<exists>s pk sig. map_of d ''signer'' = Some (JStr did) \<and> map_of d ''sig'' = Some (JStr s) \<and>
      pubkey_from_did did = Inr pk \<and> b64decode True s = Inr sig \<and>
      pk_verify E pk (canonical E (JObj (unsigned d))) sig \<and>
      (\<forall>c. allowlist = Some c \<longrightarrow> c did))"
  by (auto simp: verify_payload_def pget_eq_JStr [symmetric] from_did_eq
      split: json.splits sum.splits option.splits if_splits)

lemma verify_payload_True:
  assumes "verify_payload E v allowlist = (True, x)"
  obtains d did where "v = JObj d" "x = Some did" "verify_payload E (JObj d) allowlist = (True, Some did)"
  using assms by (auto simp: verify_payload_def split: json.splits sum.splits option.splits if_splits)

lemma verify_payload_signed:
  assumes "crypto_ok E" "length seed = 32" "sign_payload E seed payload = Inr obj"
    "identity_did E seed = Inr did"
  shows "verify_payload E (JObj obj) allowlist =
    ((case allowlist of None \<Rightarrow> True | Some c \<Rightarrow> c did), Some did)"
proof -
  obtain did' where did': "identity_did E seed = Inr did'" "pubkey_from_did did' = Inr (ed_pub E seed)"
    "from_did did' = Inr (ed_pub E seed)"
    using identity_did_ok [OF assms(1,2)] .
  with assms(4) have [simp]: "did' = did" by simp
  show ?thesis
    using assms(3)
  proof (rule sign_payload_Inr)
    fix d
    assume "identity_did E seed = Inr d" "unsigned obj = payload" "pget obj ''signer'' = JStr d"
      "pget obj ''sig'' = JStr (b64encode (sign E seed (canonical E (JObj payload))))"
    moreover from this assms(4) have "d = did" by simp
    moreover have "pk_verify E (ed_pub E seed) m (sign E seed m)" for m
      using crypto_okD [OF assms(1,2)] by (simp add: pk_verify_def sign_def)
    ultimately show ?thesis
      using did' by (simp add: verify_payload_def split: option.splits)
  qed
qed

lemma sign_payload_total:
  assumes "crypto_ok E" "length seed = 32" "\<not> has_envelope payload"
  obtains obj did where "sign_payload E seed payload = Inr obj" "identity_did E seed = Inr did"
  using assms identity_did_ok sign_payload_eq by metis

lemma distinct_unsigned: "distinct (map fst d) \<Longrightarrow> distinct (map fst (unsigned d))"
  by (simp add: unsigned_def)

lemma map_of_unsigned: "k \<noteq> ''signer'' \<Longrightarrow> k \<noteq> ''sig'' \<Longrightarrow> map_of (unsigned d) k = map_of d k"
  unfolding unsigned_def by (simp add: map_of_filter_keys)

text \<open>Authenticity: what verifies under a key only its holder can use carries, field by field, a
  payload the holder signed.\<close>

lemma verified_fields:
  assumes "float_repr_ok E" "verify_payload E (JObj d) allowlist = (True, Some did)"
    "pubkey_from_did did = Inr pk" "unforgeable E pk ((\<lambda>p. canonical E (JObj p)) ` P)"
    "\<forall>p\<in>P. distinct (map fst p)" "distinct (map fst d)"
  shows "\<exists>p\<in>P. \<forall>k. k \<noteq> ''signer'' \<longrightarrow> k \<noteq> ''sig'' \<longrightarrow>
     map_option sort_keys (map_of d k) = map_option sort_keys (map_of p k)"
proof -
  from assms(2,3) have "\<exists>s. ed_verify E pk (canonical E (JObj (unsigned d))) s"
    by (auto simp: verify_payload_True_iff pk_verify_def)
  with assms(4) obtain p where p: "p \<in> P" "canonical E (JObj (unsigned d)) = canonical E (JObj p)"
    unfolding unforgeable_def by blast
  have eq: "map_option sort_keys (map_of (unsigned d) k) = map_option sort_keys (map_of p k)" for k
    using assms(1,5,6) p by (intro canonical_fields distinct_unsigned) auto
  show ?thesis
  proof (intro bexI [of _ p] allI impI)
    fix k :: string
    assume "k \<noteq> ''signer''" "k \<noteq> ''sig''"
    then show "map_option sort_keys (map_of d k) = map_option sort_keys (map_of p k)"
      using eq [of k] map_of_unsigned [of k d] by simp
  qed (rule p(1))
qed

section \<open>The laws can hold together\<close>

text \<open>
  A concrete environment that keeps every law assumed of the real one: keys are their seeds, a
  signature is the first 64 bytes of key and message, the digest is the tagged message and a
  float prints as its reduced fraction. The witnesses of the development are stated over it.
\<close>

definition ref_sign :: "bytes \<Rightarrow> bytes \<Rightarrow> bytes" where
  "ref_sign k m = take 64 (k @ m @ replicate 64 (CHR 0x00))"

definition ref_env :: env where
  "ref_env = \<lparr>ed_pub = (\<lambda>seed. seed), ed_sign = ref_sign, ed_verify = (\<lambda>pk m s. s = ref_sign pk m),
     sha256 = (\<lambda>m. CHR ''h'' # m),
     float_repr = (\<lambda>q. int_str (fst (quotient_of q)) @ ''.'' @ int_str (snd (quotient_of q))),
     parse_float = (\<lambda>_. None), container_repr = (\<lambda>_. []), str_repr = (\<lambda>s. s), sql_num = (\<lambda>_. None), sql_text = (\<lambda>_. [])\<rparr>"

definition ref_seed :: "char \<Rightarrow> identity" where
  "ref_seed c = replicate 32 c"

lemma length_ref_seed [simp]: "length (ref_seed c) = 32"
  by (simp add: ref_seed_def)

lemma ref_env_crypto [simp]: "crypto_ok ref_env"
  by (auto simp: crypto_ok_def ref_env_def ref_sign_def)

lemma ref_env_sha [simp]: "inj_on (sha256 ref_env) S" "sha256 ref_env m \<noteq> []"
  by (simp_all add: ref_env_def)

lemma dot_split:
  assumes "a @ CHR ''.'' # b = c @ CHR ''.'' # d" "CHR ''.'' \<notin> set a" "CHR ''.'' \<notin> set c"
  shows "a = c \<and> b = d"
  using assms by (auto simp: append_eq_append_conv2 append_eq_Cons_conv Cons_eq_append_conv)

lemma ref_env_float [simp]: "float_repr_ok ref_env"
proof -
  have dot: "CHR ''.'' \<notin> set (int_str n)" for n
    using int_str_chars [of "CHR ''.''" n] by (auto simp: is_digit_def)
  have "p = q" if "float_repr ref_env p = float_repr ref_env q" for p q
  proof -
    from that have "int_str (fst (quotient_of p)) @ CHR ''.'' # int_str (snd (quotient_of p)) =
        int_str (fst (quotient_of q)) @ CHR ''.'' # int_str (snd (quotient_of q))"
      by (simp add: ref_env_def)
    from dot_split [OF this dot dot]
    have "fst (quotient_of p) = fst (quotient_of q)" "snd (quotient_of p) = snd (quotient_of q)"
      by simp_all
    then show ?thesis by (metis prod.collapse quotient_of_inject)
  qed
  moreover have "is_digit c \<or> c \<in> set ''.e+-''" if "c \<in> set (float_repr ref_env q)" for c q
    using that by (auto simp: ref_env_def dest: int_str_chars)
  moreover have "\<exists>c\<in>set (float_repr ref_env q). c = CHR ''.'' \<or> c = CHR ''e''" for q
    by (auto simp: ref_env_def)
  ultimately show ?thesis unfolding float_repr_ok_def by (intro conjI allI impI ballI)
qed

definition ref_did :: "char \<Rightarrow> did" where
  "ref_did c = did_key_prefix @ b58encode (ed25519_multicodec @ ref_seed c)"

lemma ref_did_identity [simp]: "identity_did ref_env (ref_seed c) = Inr (ref_did c)"
  by (simp add: identity_did_def ref_env_def did_key_from_pubkey_def ref_did_def)

lemma ref_did_pubkey [simp]: "pubkey_from_did (ref_did c) = Inr (ref_seed c)"
  by (rule pubkey_from_did_of_key) (simp add: did_key_from_pubkey_def ref_did_def)

lemma ref_did_inject [simp]: "ref_did c = ref_did d \<longleftrightarrow> c = d"
proof -
  have "ref_seed c = ref_seed d" if "ref_did c = ref_did d"
    using that ref_did_pubkey [of c] ref_did_pubkey [of d] by simp
  then show ?thesis by (auto simp: ref_seed_def)
qed

section \<open>Properties\<close>

text \<open>C2 A signed payload verifies, as signed by the DID of the identity that signed it, against no
  allowlist and against every trust object that contains that DID; against one that does not, the
  signature is still attributed to the DID but refused.\<close>

theorem signed_payload_verifies:
  assumes "crypto_ok E" "length seed = 32" "\<not> has_envelope payload"
  shows "\<exists>did obj. identity_did E seed = Inr did \<and> sign_payload E seed payload = Inr obj \<and>
    unsigned obj = payload \<and>
    (\<forall>t. verify_payload E (JObj obj) t = ((case t of None \<Rightarrow> True | Some c \<Rightarrow> c did), Some did))"
proof -
  obtain obj did where o: "sign_payload E seed payload = Inr obj" "identity_did E seed = Inr did"
    using sign_payload_total [OF assms] .
  moreover have "unsigned obj = payload" using o(1) by (rule sign_payload_Inr)
  ultimately show ?thesis
    using verify_payload_signed [OF assms(1,2) o] by blast
qed

theorem signed_payload_verifies_witness:
  "\<exists>obj. sign_payload ref_env (ref_seed (CHR ''a'')) [(''n'', JInt 7)] = Inr obj \<and>
     verify_payload ref_env (JObj obj) (Some (\<lambda>d. d = ref_did (CHR ''b''))) = (False, Some (ref_did (CHR ''a'')))"
proof -
  have "\<not> has_envelope [(''n'', JInt 7)]" by (simp add: has_envelope_def dkeys_def)
  from signed_payload_verifies [OF ref_env_crypto length_ref_seed [of "CHR ''a''"] this]
  obtain obj where "sign_payload ref_env (ref_seed (CHR ''a'')) [(''n'', JInt 7)] = Inr obj"
    "\<forall>t. verify_payload ref_env (JObj obj) t =
       ((case t of None \<Rightarrow> True | Some c \<Rightarrow> c (ref_did (CHR ''a''))), Some (ref_did (CHR ''a'')))"
    by auto
  then show ?thesis by simp
qed


text \<open>An environment whose keys verify one message only.\<close>

definition ref_env_only :: "bytes \<Rightarrow> env" where
  "ref_env_only m = ref_env\<lparr>ed_verify := \<lambda>pk m' s. m' = m \<and> s = ref_sign pk m'\<rparr>"

definition ref_payload :: obj where
  "ref_payload = [(''type'', JStr ''t''), (''v'', JBool True)]"

definition ref_message :: bytes where
  "ref_message = canonical ref_env (JObj ref_payload)"

definition ref_object :: obj where
  "ref_object = ref_payload @ [(''signer'', JStr (ref_did (CHR ''a''))),
     (''sig'', JStr (b64encode (ref_sign (ref_seed (CHR ''a'')) ref_message)))]"

lemma ref_canonical: "canonical (ref_env_only m) (JObj ref_payload) = ref_message"
proof -
  have "''type'' < ''v''" by code_simp
  then show ?thesis
    by (simp add: ref_message_def canonical_def ref_payload_def)
qed

lemma canonical_only: "canonical (ref_env_only m) v = canonical ref_env v"
  unfolding canonical_def by (rule dumps_float_repr) (simp add: ref_env_only_def)

lemma ref_env_only_float: "float_repr_ok (ref_env_only m)"
proof -
  have "float_repr (ref_env_only m) = float_repr ref_env" by (simp add: ref_env_only_def)
  with ref_env_float show ?thesis unfolding float_repr_ok_def by simp
qed

lemma ref_object_verifies:
  "verify_payload (ref_env_only ref_message) (JObj ref_object) None = (True, Some (ref_did (CHR ''a'')))"
proof -
  have "unsigned ref_object = ref_payload"
    by (simp add: ref_object_def unsigned_def ref_payload_def)
  moreover have "length (ref_sign (ref_seed (CHR ''a'')) ref_message) = 64"
    by (simp add: ref_sign_def)
  ultimately show ?thesis
    by (simp add: verify_payload_True_iff ref_canonical pk_verify_def,
        simp add: ref_object_def ref_payload_def ref_env_only_def)
qed


text \<open>The key file is a faithful copy of the identity: reading back what \<^verbatim>\<open>save\<close> wrote gives the
  same seed, comment lines and all.\<close>

theorem key_file_round_trip:
  assumes "crypto_ok E" "length seed = 32"
  shows "\<exists>doc. identity_save E seed = Inr doc \<and> identity_load doc = Inr seed"
proof -
  obtain did where "identity_did E seed = Inr did" using identity_did_ok [OF assms] .
  then obtain doc where "identity_save E seed = Inr doc" by (simp add: identity_save_def)
  with identity_load_save [OF assms(2)] show ?thesis by blast
qed

theorem key_file_round_trip_witness:
  "\<exists>doc. identity_save ref_env (ref_seed (CHR ''k'')) = Inr doc \<and> identity_load doc = Inr (ref_seed (CHR ''k''))"
  using key_file_round_trip [OF ref_env_crypto length_ref_seed] .

text \<open>C8 Whatever an allowlist file says, the allowlist read from it holds well-formed Ed25519 did:keys
  only, each the one spelling of its key.\<close>

theorem allowlist_file_well_formed:
  assumes "al_load doc = Inr al" "did \<in> al"
  shows "\<exists>pk. length pk = 32 \<and> pubkey_from_did did = Inr pk \<and>
    (\<forall>did'. pubkey_from_did did' = Inr pk \<longrightarrow> did' = did)"
  using al_load_wf [OF assms(1)] assms(2) pubkey_from_did_length pubkey_from_did_inject
  unfolding al_wf_def by blast

lemma al_load_one:
  assumes "plain did" "pubkey_from_did did = Inr pk"
  shows "al_load (''authorized_did = '' @ did @ [CHR 0x0A]) = Inr {did}"
proof -
  have ne: "did \<noteq> []" using assms(2) by (auto simp: pubkey_from_did_def did_key_prefix_def)
  have "splitlines (concat (map (\<lambda>l. l @ [CHR 0x0A]) [''authorized_did = '' @ did])) = [''authorized_did = '' @ did]"
    using assms(1) by (intro splitlines_lines) (auto simp: plain_def, simp_all add: is_newline_def)
  then have l: "splitlines (''authorized_did = '' @ did @ [CHR 0x0A]) = [''authorized_did = '' @ did]"
    by simp
  have "strip (''authorized_did = '' @ did) = ''authorized_did = '' @ did"
    using assms(1) ne by (intro strip_id) (auto simp: plain_def is_space_def [of "CHR ''a''"])
  moreover have "strip ''authorized_did '' = ''authorized_did''" by code_simp
  moreover have "first_word (CHR '' '' # did) = did"
  proof -
    have "dropWhile is_space did = did" "takeWhile (\<lambda>c. \<not> is_space c) did = did"
      using assms(1) by (cases did; simp add: plain_def)+
    then show ?thesis by (simp add: first_word_def is_space_def [of "CHR '' ''"])
  qed
  ultimately show ?thesis
    unfolding al_load_def l using assms(2) by (simp add: al_load_line_def partition_eq_def al_add_def)
qed

theorem allowlist_file_well_formed_witness:
  "\<exists>pk. length pk = 32 \<and> pubkey_from_did (ref_did (CHR ''a'')) = Inr pk \<and>
    (\<forall>did'. pubkey_from_did did' = Inr pk \<longrightarrow> did' = ref_did (CHR ''a''))"
proof -
  have "plain (ref_did (CHR ''a''))"
    using did_plain ref_did_identity unfolding identity_did_def by blast
  from allowlist_file_well_formed [OF al_load_one [OF this ref_did_pubkey]] show ?thesis by simp
qed

end
