(* ===== verification/Revocation.thy ===== *)
theory Revocation
  imports Signing
begin

text \<open>
  \<^verbatim>\<open>identity/revocation.py\<close>: the master set with its \<^verbatim>\<open>k\<close>-of-\<^verbatim>\<open>n\<close> threshold, and
  revocation records: built by \<open>create_revocation\<close>, signed by \<open>cosign\<close>, judged by
  \<open>verify_revocation\<close>.

  The loop over the signatures is characterised by the set of masters with a valid signature
  anywhere in the list (\<open>count_sigs_eq\<close>), which gives soundness (\<open>verify_revocation_sound\<close>: a
  record is accepted only with \<^verbatim>\<open>k\<close> distinct masters over exactly its body), completeness
  (\<open>verify_revocation_complete\<close>: garbage entries never lower the count) and the round trip.
\<close>

section \<open>The master set\<close>

record master_set =
  m_dids :: "did set"
  m_threshold :: int

fun master_dids :: "did list \<Rightarrow> did list \<Rightarrow> did list res" where
  "master_dids [] seen = Inr seen"
| "master_dids (did # dids) seen =
     rbind (pubkey_from_did did) (\<lambda>_.
       if did \<in> set seen then Inl (ValueError ''duplicate master DID'')
       else master_dids dids (seen @ [did]))"

definition master_set_new :: "did list \<Rightarrow> json \<Rightarrow> master_set res" where
  "master_set_new dids threshold =
     rbind (master_dids dids []) (\<lambda>seen.
       if seen = [] then Inl (ValueError ''a master set needs at least one master DID'')
       else case threshold of
         JInt k \<Rightarrow>
           if \<not> (1 \<le> k \<and> k \<le> int (length seen)) then Inl (ValueError ''threshold out of range'')
           else Inr \<lparr>m_dids = set seen, m_threshold = k\<rparr>
       | _ \<Rightarrow> Inl (ValueError ''threshold must be an integer''))"

definition ms_contains :: "master_set \<Rightarrow> did \<Rightarrow> bool" where
  "ms_contains m did \<longleftrightarrow> did \<in> m_dids m"

definition master_load_line :: "string \<Rightarrow> did list \<times> int option \<Rightarrow> (did list \<times> int option) res" where
  "master_load_line raw st =
     (let s = strip raw; (dids, threshold) = st in
      if s = [] \<or> starts_with s ''#'' then Inr st
      else if CHR ''='' \<notin> set s then Inl (ValueError ''expected key = value'')
      else let (k, v) = partition_eq s; key = strip k; val = strip v
           in if key = ''master_did'' then Inr (dids @ [first_word val], threshold)
              else if key = ''threshold'' then
                if threshold \<noteq> None then Inl (ValueError ''threshold given more than once'')
                else (case parse_int val of
                        None \<Rightarrow> Inl (ValueError ''threshold must be an integer'')
                      | Some n \<Rightarrow> Inr (dids, Some n))
              else Inl (ValueError ''unknown key''))"

definition master_set_load :: "string \<Rightarrow> master_set res" where
  "master_set_load file_text =
     rbind (rfold master_load_line (splitlines file_text) ([], None)) (\<lambda>(dids, threshold).
       master_set_new dids (JInt (case threshold of Some k \<Rightarrow> k | None \<Rightarrow> 1)))"

text \<open>The invariant of a master set: well-formed DIDs and a threshold its members can reach.\<close>

definition ms_wf :: "master_set \<Rightarrow> bool" where
  "ms_wf m \<longleftrightarrow>
     finite (m_dids m) \<and> (\<forall>d\<in>m_dids m. \<exists>pk. pubkey_from_did d = Inr pk) \<and>
     1 \<le> m_threshold m \<and> m_threshold m \<le> int (card (m_dids m))"

lemma master_dids_Inr:
  assumes "master_dids dids seen = Inr out" "distinct seen"
    "\<forall>d\<in>set seen. \<exists>pk. pubkey_from_did d = Inr pk"
  shows "out = seen @ dids \<and> distinct out \<and> (\<forall>d\<in>set out. \<exists>pk. pubkey_from_did d = Inr pk)"
  using assms
  by (induction dids seen rule: master_dids.induct) (auto simp: rbind_Inr_iff split: if_splits)

lemma master_set_new_wf:
  assumes "master_set_new dids threshold = Inr m"
  shows "ms_wf m" "m_dids m = set dids" "threshold = JInt (m_threshold m)"
proof -
  from assms obtain seen k where seen: "master_dids dids [] = Inr seen"
    and m: "m = \<lparr>m_dids = set seen, m_threshold = k\<rparr>" "1 \<le> k" "k \<le> int (length seen)" "threshold = JInt k"
    by (auto simp: master_set_new_def rbind_Inr_iff split: if_splits json.splits)
  from master_dids_Inr [OF seen] have "seen = dids" "distinct seen"
    "\<forall>d\<in>set seen. \<exists>pk. pubkey_from_did d = Inr pk" by auto
  with m show "ms_wf m" "m_dids m = set dids" "threshold = JInt (m_threshold m)"
    by (simp_all add: ms_wf_def distinct_card)
qed

lemma master_set_load_wf: "master_set_load doc = Inr m \<Longrightarrow> ms_wf m"
  by (auto simp: master_set_load_def rbind_Inr_iff dest: master_set_new_wf)

section \<open>Records\<close>

definition REVOCATION_TYPE :: string where
  "REVOCATION_TYPE = ''secdogie/revocation/v1''"

definition MAX_REVOKED :: nat where
  "MAX_REVOKED = 64"

record revocation_record =
  r_record_id :: string
  r_revoked :: "did set"
  r_reason :: string
  r_issued_at :: pyfloat
  r_signers :: "did set"

definition rev_body :: "string list \<Rightarrow> json \<Rightarrow> json \<Rightarrow> obj" where
  "rev_body revoked reason issued_at =
     [(''type'', JStr REVOCATION_TYPE),
      (''revoked'', JList (map JStr (sorted_set revoked))),
      (''reason'', reason),
      (''issued_at'', issued_at)]"

definition record_id :: "env \<Rightarrow> obj \<Rightarrow> string" where
  "record_id E body = hexdigest E (canonical E (JObj body))"

definition check_dids :: "did list \<Rightarrow> unit res" where
  "check_dids dids = rfold (\<lambda>did _. rbind (pubkey_from_did did) (\<lambda>_. Inr ())) dids ()"

definition create_revocation :: "env \<Rightarrow> did list \<Rightarrow> json \<Rightarrow> pyfloat \<Rightarrow> obj res" where
  "create_revocation E revoked reason clock =
     (let dids = sorted_set revoked in
      if dids = [] then Inl (ValueError ''a revocation must name at least one DID'')
      else if MAX_REVOKED < length dids then Inl (ValueError ''a revocation names at most 64 DIDs'')
      else rbind (check_dids dids) (\<lambda>_.
        if \<not> is_str reason then Inl (ValueError ''reason must be a string'')
        else let body = rev_body dids reason (JFloat clock)
             in Inr (dmerge body [(''record_id'', JStr (record_id E body)), (''sigs'', JList [])])))"

text \<open>The strings of \<^verbatim>\<open>record.get("revoked", ())\<close> and the dictionaries of
  \<^verbatim>\<open>record.get("sigs", [])\<close>. A record whose \<^verbatim>\<open>revoked\<close> is not a list of strings never
  verifies; \<^verbatim>\<open>cosign\<close> is modelled as refusing it.\<close>

definition revoked_field :: "obj \<Rightarrow> string list res" where
  "revoked_field d =
     (case map_of d ''revoked'' of
        None \<Rightarrow> Inr []
      | Some (JList vs) \<Rightarrow>
          (case strings_of vs of Some ss \<Rightarrow> Inr ss | None \<Rightarrow> Inl (TypeError ''revoked is not a list of strings''))
      | Some _ \<Rightarrow> Inl (TypeError ''revoked is not a list of strings''))"

fun is_obj :: "json \<Rightarrow> bool" where
  "is_obj (JObj _) = True"
| "is_obj _ = False"

definition sigs_field :: "obj \<Rightarrow> json list res" where
  "sigs_field d =
     (case map_of d ''sigs'' of
        None \<Rightarrow> Inr []
      | Some (JList vs) \<Rightarrow> Inr (filter is_obj vs)
      | Some (JStr _) \<Rightarrow> Inr []
      | Some (JObj _) \<Rightarrow> Inr []
      | Some _ \<Rightarrow> Inl (TypeError ''object is not iterable''))"

fun obj_get :: "json \<Rightarrow> string \<Rightarrow> json" where
  "obj_get (JObj d) k = pget d k"
| "obj_get _ k = JNull"

definition cosign :: "env \<Rightarrow> identity \<Rightarrow> obj \<Rightarrow> obj res" where
  "cosign E seed rec =
     rbind (revoked_field rec) (\<lambda>revoked.
     let body = rev_body revoked (dget rec ''reason'' (JStr '''')) (pget rec ''issued_at'') in
     rbind (sigs_field rec) (\<lambda>sigs.
     rbind (identity_did E seed) (\<lambda>did.
       if list_ex (\<lambda>s. obj_get s ''signer'' = JStr did) sigs
       then Inr (dmerge body [(''record_id'', pget rec ''record_id''), (''sigs'', JList sigs)])
       else let sig = b64encode (sign E seed (canonical E (JObj body)));
                entry = JObj [(''signer'', JStr did), (''sig'', JStr sig)]
            in Inr (dmerge body [(''record_id'', JStr (record_id E body)), (''sigs'', JList (sigs @ [entry]))]))))"

fun count_sigs :: "env \<Rightarrow> master_set \<Rightarrow> did set \<Rightarrow> bytes \<Rightarrow> json list \<Rightarrow> did set \<Rightarrow> did set res" where
  "count_sigs E masters excluded message [] good = Inr good"
| "count_sigs E masters excluded message (entry # sigs) good =
     (case (obj_get entry ''signer'', obj_get entry ''sig'') of
        (JStr signer, JStr sig_b64) \<Rightarrow>
          if signer \<in> good \<or> signer \<in> excluded \<or> \<not> ms_contains masters signer
          then count_sigs E masters excluded message sigs good
          else (case b64decode True sig_b64 of
                  Inl _ \<Rightarrow> count_sigs E masters excluded message sigs good
                | Inr sig \<Rightarrow>
                    rbind (from_did signer) (\<lambda>pk.
                      count_sigs E masters excluded message sigs
                        (if pk_verify E pk message sig then insert signer good else good)))
      | _ \<Rightarrow> count_sigs E masters excluded message sigs good)"

definition verify_revocation ::
  "env \<Rightarrow> json \<Rightarrow> master_set \<Rightarrow> did set \<Rightarrow> revocation_record option res" where
  "verify_revocation E v masters exclude =
     (case v of
        JObj d \<Rightarrow>
          if pget d ''type'' \<noteq> JStr REVOCATION_TYPE then Inr None
          else (case (pget d ''revoked'', pget d ''reason'', pget d ''sigs'') of
            (JList rs, reason_v, sigs_v) \<Rightarrow>
              if \<not> (1 \<le> length rs \<and> length rs \<le> MAX_REVOKED) then Inr None
              else (case strings_of rs of
                None \<Rightarrow> Inr None
              | Some revoked \<Rightarrow>
                  if sorted_set revoked \<noteq> revoked then Inr None
                  else (case check_dids revoked of
                    Inl _ \<Rightarrow> Inr None
                  | Inr _ \<Rightarrow>
                      (case (reason_v, sigs_v) of
                        (JStr reason, JList sigs) \<Rightarrow>
                          if \<not> is_num (pget d ''issued_at'') then Inr None
                          else rbind (to_float E (pget d ''issued_at'')) (\<lambda>issued_at.
                            let body = rev_body revoked (JStr reason) (JFloat issued_at);
                                rid = record_id E body
                            in if pget d ''record_id'' \<noteq> JStr rid then Inr None
                               else rbind (count_sigs E masters exclude (canonical E (JObj body)) sigs {}) (\<lambda>good.
                                 if int (card good) < m_threshold masters then Inr None
                                 else Inr (Some \<lparr>r_record_id = rid, r_revoked = set revoked,
                                        r_reason = reason, r_issued_at = issued_at, r_signers = good\<rparr>)))
                      | _ \<Rightarrow> Inr None)))
          | _ \<Rightarrow> Inr None)
      | _ \<Rightarrow> Inr None)"

section \<open>What verification means\<close>

lemma check_dids_iff: "check_dids ds = Inr u \<longleftrightarrow> (\<forall>d\<in>set ds. \<exists>pk. pubkey_from_did d = Inr pk)"
  unfolding check_dids_def by (induction ds) (auto simp: rbind_Inr_iff)

definition valid_sig :: "env \<Rightarrow> bytes \<Rightarrow> did \<Rightarrow> json \<Rightarrow> bool" where
  "valid_sig E message signer entry \<longleftrightarrow>
     (\<exists>s sig pk. obj_get entry ''signer'' = JStr signer \<and> obj_get entry ''sig'' = JStr s \<and>
        b64decode True s = Inr sig \<and> pubkey_from_did signer = Inr pk \<and> pk_verify E pk message sig)"

definition master_signers :: "env \<Rightarrow> master_set \<Rightarrow> did set \<Rightarrow> bytes \<Rightarrow> json list \<Rightarrow> did set" where
  "master_signers E masters excluded message sigs =
     {d \<in> m_dids masters - excluded. \<exists>entry\<in>set sigs. valid_sig E message d entry}"

lemma master_signers_Cons:
  "master_signers E m ex msg (e # sigs) =
     {d \<in> m_dids m - ex. valid_sig E msg d e} \<union> master_signers E m ex msg sigs"
  by (auto simp: master_signers_def)

lemma count_sigs_eq:
  assumes "ms_wf masters"
  shows "count_sigs E masters excluded message sigs good = Inr (good \<union> master_signers E masters excluded message sigs)"
proof (induction sigs arbitrary: good)
  case Nil
  then show ?case by (simp add: master_signers_def)
next
  case (Cons e sigs)
  note IH = Cons.IH
  show ?case
  proof (cases "\<exists>signer s sig. obj_get e ''signer'' = JStr signer \<and> obj_get e ''sig'' = JStr s \<and>
      b64decode True s = Inr sig \<and> signer \<in> m_dids masters - excluded")
    case True
    then obtain signer s sig where e: "obj_get e ''signer'' = JStr signer" "obj_get e ''sig'' = JStr s"
      "b64decode True s = Inr sig" "signer \<in> m_dids masters" "signer \<notin> excluded"
      by auto
    with assms obtain pk where pk: "pubkey_from_did signer = Inr pk"
      by (auto simp: ms_wf_def)
    have "{d \<in> m_dids masters - excluded. valid_sig E message d e} =
        (if pk_verify E pk message sig then {signer} else {})"
      using e pk by (auto simp: valid_sig_def)
    with e pk show ?thesis
      by (auto simp: IH ms_contains_def from_did_eq master_signers_Cons)
  next
    case False
    then have "{d \<in> m_dids masters - excluded. valid_sig E message d e} = {}"
      by (auto simp: valid_sig_def)
    moreover have "count_sigs E masters excluded message (e # sigs) good = count_sigs E masters excluded message sigs good"
      using False by (auto simp: ms_contains_def split: json.splits sum.splits)
    ultimately show ?thesis by (simp only: IH master_signers_Cons Un_empty_left)
  qed
qed

definition rev_shape :: "env \<Rightarrow> obj \<Rightarrow> did list \<Rightarrow> string \<Rightarrow> pyfloat \<Rightarrow> json list \<Rightarrow> bool" where
  "rev_shape E d revoked reason t sigs \<longleftrightarrow>
     pget d ''type'' = JStr REVOCATION_TYPE \<and> pget d ''revoked'' = JList (map JStr revoked) \<and>
     revoked \<noteq> [] \<and> length revoked \<le> MAX_REVOKED \<and> sorted_set revoked = revoked \<and>
     (\<forall>x\<in>set revoked. \<exists>pk. pubkey_from_did x = Inr pk) \<and>
     pget d ''reason'' = JStr reason \<and> pget d ''sigs'' = JList sigs \<and>
     is_num (pget d ''issued_at'') \<and> to_float E (pget d ''issued_at'') = Inr t \<and>
     pget d ''record_id'' = JStr (record_id E (rev_body revoked (JStr reason) (JFloat t)))"

definition rev_message :: "env \<Rightarrow> revocation_record \<Rightarrow> did list \<Rightarrow> bytes" where
  "rev_message E r revoked = canonical E (JObj (rev_body revoked (JStr (r_reason r)) (JFloat (r_issued_at r))))"

lemma verify_revocation_shape:
  assumes "rev_shape E d revoked reason t sigs" "ms_wf masters"
  shows "verify_revocation E (JObj d) masters exclude =
    (let body = rev_body revoked (JStr reason) (JFloat t);
         good = master_signers E masters exclude (canonical E (JObj body)) sigs
     in if int (card good) < m_threshold masters then Inr None
        else Inr (Some \<lparr>r_record_id = record_id E body, r_revoked = set revoked, r_reason = reason,
                        r_issued_at = t, r_signers = good\<rparr>))"
proof -
  have "check_dids revoked = Inr ()" "strings_of (map JStr revoked) = Some revoked" "1 \<le> length revoked"
    using assms(1) by (auto simp: rev_shape_def check_dids_iff strings_of_iff Suc_le_eq)
  with assms show ?thesis
    by (simp add: verify_revocation_def rev_shape_def count_sigs_eq Let_def)
qed

lemma verify_revocation_shapeD:
  assumes "verify_revocation E v masters exclude = Inr (Some r)"
  obtains d revoked sigs where "v = JObj d" "rev_shape E d revoked (r_reason r) (r_issued_at r) sigs"
  using assms
  by (auto simp: verify_revocation_def rev_shape_def Let_def rbind_Inr_iff strings_of_iff check_dids_iff
      Suc_le_eq split: json.splits if_splits option.splits sum.splits)

lemma verify_revocation_iff:
  assumes "ms_wf masters"
  shows "verify_revocation E v masters exclude = Inr (Some r) \<longleftrightarrow>
    (\<exists>d revoked sigs. v = JObj d \<and> rev_shape E d revoked (r_reason r) (r_issued_at r) sigs \<and>
       m_threshold masters \<le> int (card (r_signers r)) \<and> r_revoked r = set revoked \<and>
       r_record_id r = hexdigest E (rev_message E r revoked) \<and>
       r_signers r = master_signers E masters exclude (rev_message E r revoked) sigs)"
  (is "?L \<longleftrightarrow> ?R")
proof
  assume ?L
  then obtain d revoked sigs where d: "v = JObj d" "rev_shape E d revoked (r_reason r) (r_issued_at r) sigs"
    by (rule verify_revocation_shapeD)
  with verify_revocation_shape [OF d(2) assms, of exclude] \<open>?L\<close> show ?R
    by (intro exI [of _ d] exI [of _ revoked] exI [of _ sigs])
      (cases r, auto simp: Let_def rev_message_def record_id_def split: if_splits)
next
  assume ?R
  then obtain d revoked sigs where d: "v = JObj d" "rev_shape E d revoked (r_reason r) (r_issued_at r) sigs"
    "m_threshold masters \<le> int (card (r_signers r))" "r_revoked r = set revoked"
    "r_record_id r = hexdigest E (rev_message E r revoked)"
    "r_signers r = master_signers E masters exclude (rev_message E r revoked) sigs"
    by blast
  with verify_revocation_shape [OF d(2) assms, of exclude] show ?L
    by (cases r) (simp add: Let_def rev_message_def record_id_def)
qed

lemma verify_revocation_sound:
  assumes "ms_wf masters" "verify_revocation E v masters exclude = Inr (Some r)"
  obtains d revoked sigs where "v = JObj d" "r_revoked r = set revoked" "revoked \<noteq> []"
    "length revoked \<le> MAX_REVOKED" "r_signers r \<subseteq> m_dids masters - exclude"
    "m_threshold masters \<le> int (card (r_signers r))" "pget d ''sigs'' = JList sigs"
    "\<forall>s\<in>r_signers r. \<exists>entry\<in>set sigs. valid_sig E (rev_message E r revoked) s entry"
    "r_record_id r = hexdigest E (rev_message E r revoked)" "sorted_set revoked = revoked"
proof -
  from assms(2) verify_revocation_iff [OF assms(1)] obtain d revoked sigs where
    "v = JObj d" "rev_shape E d revoked (r_reason r) (r_issued_at r) sigs"
    "m_threshold masters \<le> int (card (r_signers r))" "r_revoked r = set revoked"
    "r_record_id r = hexdigest E (rev_message E r revoked)"
    "r_signers r = master_signers E masters exclude (rev_message E r revoked) sigs"
    by blast
  then show ?thesis
    by (intro that [of d revoked sigs]) (auto simp: rev_shape_def master_signers_def)
qed

lemma verify_revocation_complete:
  assumes "ms_wf masters" "rev_shape E d revoked reason t sigs"
    and "S \<subseteq> m_dids masters - exclude" "m_threshold masters \<le> int (card S)"
    and "\<forall>s\<in>S. \<exists>entry\<in>set sigs. valid_sig E (canonical E (JObj (rev_body revoked (JStr reason) (JFloat t)))) s entry"
  obtains r where "verify_revocation E (JObj d) masters exclude = Inr (Some r)" "r_revoked r = set revoked"
    "S \<subseteq> r_signers r"
proof -
  let ?good = "master_signers E masters exclude (canonical E (JObj (rev_body revoked (JStr reason) (JFloat t)))) sigs"
  have sub: "S \<subseteq> ?good"
    using assms(3,5) by (auto simp: master_signers_def)
  have "finite ?good"
    using assms(1) by (auto simp: master_signers_def ms_wf_def)
  from card_mono [OF this sub] assms(4) have "\<not> int (card ?good) < m_threshold masters"
    by linarith
  with verify_revocation_shape [OF assms(2,1), of exclude] sub that show ?thesis
    by (simp add: Let_def)
qed

section \<open>Signing a record\<close>

text \<open>A record under signature: the body it was created with, its id, and signatures that all
  verify over the body.\<close>

definition rev_built :: "env \<Rightarrow> did list \<Rightarrow> string \<Rightarrow> pyfloat \<Rightarrow> did set \<Rightarrow> obj \<Rightarrow> bool" where
  "rev_built E revoked reason t signers d \<longleftrightarrow>
     (\<exists>sigs. d = dmerge (rev_body revoked (JStr reason) (JFloat t))
          [(''record_id'', JStr (record_id E (rev_body revoked (JStr reason) (JFloat t)))), (''sigs'', JList sigs)] \<and>
        list_all is_obj sigs \<and>
        (\<forall>s\<in>signers. \<exists>entry\<in>set sigs. valid_sig E (canonical E (JObj (rev_body revoked (JStr reason) (JFloat t)))) s entry) \<and>
        (\<forall>entry\<in>set sigs. \<exists>s\<in>signers. obj_get entry ''signer'' = JStr s))"

lemma rev_body_fields:
  "map_of (dmerge (rev_body revoked reason t) [(''record_id'', i), (''sigs'', s)]) k =
     map_of (rev_body revoked reason t @ [(''record_id'', i), (''sigs'', s)]) k"
  by (simp add: dmerge_def rev_body_def)

lemma rev_body_pget:
  fixes revoked reason t i s
  defines "d \<equiv> dmerge (rev_body revoked reason t) [(''record_id'', i), (''sigs'', s)]"
  shows "pget d ''type'' = JStr REVOCATION_TYPE" "pget d ''revoked'' = JList (map JStr (sorted_set revoked))"
    "map_of d ''revoked'' = Some (JList (map JStr (sorted_set revoked)))"
    "pget d ''reason'' = reason" "dget d ''reason'' x = reason" "pget d ''issued_at'' = t"
    "pget d ''record_id'' = i" "pget d ''sigs'' = s" "map_of d ''sigs'' = Some s"
  by (simp_all add: d_def pget_def dget_def rev_body_fields, simp_all add: rev_body_def)

lemma rev_body_sorted [simp]: "rev_body (sorted_set revoked) = rev_body revoked"
  by (intro ext) (simp add: rev_body_def)

lemma create_revocation_built:
  assumes "create_revocation E revoked reason clock = Inr d"
  obtains r where "reason = JStr r" "rev_built E (sorted_set revoked) r clock {} d"
    "\<forall>x\<in>set revoked. \<exists>pk. pubkey_from_did x = Inr pk" "revoked \<noteq> []"
    "length (sorted_set revoked) \<le> MAX_REVOKED"
proof -
  from assms obtain r where r: "reason = JStr r"
    by (cases reason) (auto simp: create_revocation_def Let_def rbind_Inr_iff split: if_splits)
  with assms that show ?thesis
    by (auto simp: create_revocation_def Let_def rbind_Inr_iff check_dids_iff rev_built_def
        split: if_splits)
qed

lemma valid_sig_own:
  assumes "crypto_ok E" "length seed = 32" "identity_did E seed = Inr did"
  shows "valid_sig E m did (JObj [(''signer'', JStr did), (''sig'', JStr (b64encode (sign E seed m)))])"
proof -
  obtain did' where "identity_did E seed = Inr did'" "pubkey_from_did did' = Inr (ed_pub E seed)"
    using identity_did_ok [OF assms(1,2)] .
  with assms crypto_okD [OF assms(1,2)] show ?thesis
    by (simp add: valid_sig_def pget_def pk_verify_def sign_def)
qed

lemma cosign_built:
  assumes "crypto_ok E" "length seed = 32" "identity_did E seed = Inr did"
    and "rev_built E revoked reason t signers d"
  obtains d' where "cosign E seed d = Inr d'" "rev_built E revoked reason t (insert did signers) d'"
proof -
  let ?body = "rev_body revoked (JStr reason) (JFloat t)"
  from assms(4) obtain sigs where d: "d = dmerge ?body [(''record_id'', JStr (record_id E ?body)), (''sigs'', JList sigs)]"
    and objs: "list_all is_obj sigs"
    and ok: "\<forall>s\<in>signers. \<exists>entry\<in>set sigs. valid_sig E (canonical E (JObj ?body)) s entry"
    and only: "\<forall>entry\<in>set sigs. \<exists>s\<in>signers. obj_get entry ''signer'' = JStr s"
    unfolding rev_built_def by blast
  have fields: "revoked_field d = Inr (sorted_set revoked)" "sigs_field d = Inr sigs"
    using objs by (simp_all add: d revoked_field_def sigs_field_def rev_body_pget list_all_iff)
  show ?thesis
  proof (cases "list_ex (\<lambda>s. obj_get s ''signer'' = JStr did) sigs")
    case True
    with only have "did \<in> signers" by (auto simp: list_ex_iff)
    then have "insert did signers = signers" by blast
    with True fields assms(3,4) that [of d] show ?thesis
      by (simp add: cosign_def Let_def d rev_body_pget)
  next
    case False
    let ?e = "JObj [(''signer'', JStr did), (''sig'', JStr (b64encode (sign E seed (canonical E (JObj ?body)))))]"
    let ?d = "dmerge ?body [(''record_id'', JStr (record_id E ?body)), (''sigs'', JList (sigs @ [?e]))]"
    have "cosign E seed d = Inr ?d"
      using False fields assms(3) by (simp add: cosign_def Let_def d rev_body_pget)
    moreover have "rev_built E revoked reason t (insert did signers) ?d"
      unfolding rev_built_def using ok only objs valid_sig_own [OF assms(1-3)]
      by (intro exI [of _ "sigs @ [?e]"]) (auto simp: pget_def)
    ultimately show ?thesis by (rule that)
  qed
qed

lemma rev_built_shape:
  assumes "rev_built E revoked reason t signers d" "sorted_set revoked = revoked" "revoked \<noteq> []"
    "length revoked \<le> MAX_REVOKED" "\<forall>x\<in>set revoked. \<exists>pk. pubkey_from_did x = Inr pk"
  obtains sigs where "rev_shape E d revoked reason t sigs"
    "\<forall>s\<in>signers. \<exists>entry\<in>set sigs. valid_sig E (canonical E (JObj (rev_body revoked (JStr reason) (JFloat t)))) s entry"
  using assms by (auto simp: rev_built_def rev_shape_def rev_body_pget)

text \<open>\<^verbatim>\<open>cosign\<close> by each identity of a list in turn.\<close>

definition cosign_all :: "env \<Rightarrow> identity list \<Rightarrow> obj \<Rightarrow> obj res" where
  "cosign_all E seeds d = rfold (cosign E) seeds d"

lemma cosign_all_built:
  assumes "crypto_ok E" "\<forall>seed\<in>set seeds. length seed = 32" "rev_built E revoked reason t signers d"
  obtains d' where "cosign_all E seeds d = Inr d'"
    "rev_built E revoked reason t (signers \<union> {did. \<exists>seed\<in>set seeds. identity_did E seed = Inr did}) d'"
  using assms(2,3)
proof (induction seeds arbitrary: d signers thesis)
  case Nil
  then show ?case by (simp add: cosign_all_def)
next
  case (Cons seed seeds)
  then have "length seed = 32" by simp
  obtain did where did: "identity_did E seed = Inr did"
    using identity_did_ok [OF assms(1) \<open>length seed = 32\<close>] .
  obtain d1 where d1: "cosign E seed d = Inr d1" "rev_built E revoked reason t (insert did signers) d1"
    using cosign_built [OF assms(1) \<open>length seed = 32\<close> did Cons.prems(3)] .
  obtain d2 where "cosign_all E seeds d1 = Inr d2"
    "rev_built E revoked reason t (insert did signers \<union> {did. \<exists>seed\<in>set seeds. identity_did E seed = Inr did}) d2"
    by (rule Cons.IH [OF _ _ d1(2)]) (use Cons.prems in auto)
  moreover have "insert did signers \<union> {did. \<exists>seed\<in>set seeds. identity_did E seed = Inr did} =
      signers \<union> {did. \<exists>s\<in>set (seed # seeds). identity_did E s = Inr did}"
    using did by auto
  ultimately show ?case
    using d1(1) by (intro Cons.prems(1) [of d2]) (auto simp: cosign_all_def)
qed

lemma create_cosign_verify:
  assumes "crypto_ok E" "ms_wf masters" "create_revocation E revoked reason clock = Inr d"
    "\<forall>seed\<in>set seeds. length seed = 32"
    and "\<forall>seed\<in>set seeds. \<forall>did. identity_did E seed = Inr did \<longrightarrow> did \<in> m_dids masters"
    and "m_threshold masters \<le> int (card {did. \<exists>seed\<in>set seeds. identity_did E seed = Inr did})"
  obtains d' r where "cosign_all E seeds d = Inr d'"
    "verify_revocation E (JObj d') masters {} = Inr (Some r)" "r_revoked r = set revoked"
proof -
  let ?S = "{did. \<exists>seed\<in>set seeds. identity_did E seed = Inr did}" and ?revoked = "sorted_set revoked"
  obtain rs where "reason = JStr rs" and rs: "rev_built E ?revoked rs clock {} d"
    "\<forall>x\<in>set revoked. \<exists>pk. pubkey_from_did x = Inr pk" "revoked \<noteq> []" "length ?revoked \<le> MAX_REVOKED"
    by (rule create_revocation_built [OF assms(3)])
  obtain d' where d': "cosign_all E seeds d = Inr d'" "rev_built E ?revoked rs clock ?S d'"
    by (rule cosign_all_built [OF assms(1,4) rs(1)]) simp
  have dids: "\<forall>x\<in>set ?revoked. \<exists>pk. pubkey_from_did x = Inr pk" "?revoked \<noteq> []"
    using rs(2,3) by simp_all
  obtain sigs where sh: "rev_shape E d' ?revoked rs clock sigs"
    "\<forall>s\<in>?S. \<exists>entry\<in>set sigs. valid_sig E (canonical E (JObj (rev_body ?revoked (JStr rs) (JFloat clock)))) s entry"
    using rev_built_shape [OF d'(2) sorted_set_idem dids(2) rs(4) dids(1)] .
  have "?S \<subseteq> m_dids masters - {}" using assms(5) by blast
  then obtain r where "verify_revocation E (JObj d') masters {} = Inr (Some r)" "r_revoked r = set ?revoked"
    by (rule verify_revocation_complete [OF assms(2) sh(1) _ assms(6) sh(2)])
  with d'(1) that show ?thesis by simp
qed

section \<open>Properties\<close>

text \<open>C4 A revocation is accepted only when at least \<^verbatim>\<open>threshold\<close> distinct masters, none of them
  excluded, each have in the record a signature that verifies under their key over exactly the
  accepted body (the DIDs revoked, the reason, the time): a stolen minority of master keys, other
  signers, and repeated or reused signatures revoke nobody.\<close>

theorem revocation_needs_threshold:
  assumes "ms_wf masters" "verify_revocation E v masters exclude = Inr (Some r)"
  shows "\<exists>d revoked sigs. v = JObj d \<and> pget d ''sigs'' = JList sigs \<and> r_revoked r = set revoked \<and>
    revoked \<noteq> [] \<and> length revoked \<le> MAX_REVOKED \<and>
    r_signers r \<subseteq> m_dids masters - exclude \<and> m_threshold masters \<le> int (card (r_signers r)) \<and>
    (\<forall>s\<in>r_signers r. \<exists>entry\<in>set sigs.
       valid_sig E (canonical E (JObj (rev_body revoked (JStr (r_reason r)) (JFloat (r_issued_at r))))) s entry)"
  by (rule verify_revocation_sound [OF assms]) (auto simp: rev_message_def)

definition ref_masters :: master_set where
  "ref_masters = \<lparr>m_dids = {ref_did (CHR ''a''), ref_did (CHR ''b'')}, m_threshold = 2\<rparr>"

lemma ref_masters_wf: "ms_wf ref_masters"
  by (auto simp: ms_wf_def ref_masters_def)

definition ref_seeds :: "identity list" where
  "ref_seeds = [ref_seed (CHR ''a''), ref_seed (CHR ''b'')]"

lemma ref_seeds_dids:
  "{did. \<exists>seed\<in>set ref_seeds. identity_did ref_env seed = Inr did} = m_dids ref_masters"
  by (auto simp: ref_seeds_def ref_masters_def)

lemma ref_create:
  obtains d where "create_revocation ref_env [ref_did c] (JStr ''lost'') (Fin 5) = Inr d"
proof -
  have "sorted_set [ref_did c] = [ref_did c]" by (rule sorted_set_id) simp_all
  with that show ?thesis
    by (simp add: create_revocation_def MAX_REVOKED_def check_dids_def Let_def)
qed

text \<open>Signing a revocation works: a record made by \<^verbatim>\<open>create_revocation\<close> and cosigned in turn by
  identities that are masters and reach the threshold is accepted, and revokes exactly the DIDs it
  was made for.\<close>

theorem revocation_round_trip:
  assumes "crypto_ok E" "ms_wf masters" "create_revocation E revoked reason clock = Inr d"
    and "\<forall>seed\<in>set seeds. length seed = 32"
    and "{did. \<exists>seed\<in>set seeds. identity_did E seed = Inr did} \<subseteq> m_dids masters"
    and "m_threshold masters \<le> int (card {did. \<exists>seed\<in>set seeds. identity_did E seed = Inr did})"
  shows "\<exists>d' r. cosign_all E seeds d = Inr d' \<and>
    verify_revocation E (JObj d') masters {} = Inr (Some r) \<and> r_revoked r = set revoked"
proof -
  have "\<forall>seed\<in>set seeds. \<forall>did. identity_did E seed = Inr did \<longrightarrow> did \<in> m_dids masters"
    using assms(5) by blast
  then show ?thesis using create_cosign_verify [OF assms(1-4) _ assms(6)] by metis
qed

theorem revocation_round_trip_witness:
  "\<exists>v r. verify_revocation ref_env v ref_masters {} = Inr (Some r) \<and> r_revoked r = {ref_did (CHR ''x'')}"
proof -
  obtain d where d: "create_revocation ref_env [ref_did (CHR ''x'')] (JStr ''lost'') (Fin 5) = Inr d"
    by (rule ref_create)
  have "\<forall>seed\<in>set ref_seeds. length seed = 32" by (simp add: ref_seeds_def)
  moreover have "m_threshold ref_masters \<le> int (card (m_dids ref_masters))" by (simp add: ref_masters_def)
  ultimately show ?thesis
    using revocation_round_trip [OF ref_env_crypto ref_masters_wf d, of ref_seeds, unfolded ref_seeds_dids] by auto
qed

lemma ref_accepted:
  obtains v r where "verify_revocation ref_env v ref_masters {} = Inr (Some r)" "r_revoked r = {ref_did c}"
proof -
  obtain d where d: "create_revocation ref_env [ref_did c] (JStr ''lost'') (Fin 5) = Inr d"
    by (rule ref_create)
  have s: "\<forall>seed\<in>set ref_seeds. length seed = 32" by (simp add: ref_seeds_def)
  have m: "\<forall>seed\<in>set ref_seeds. \<forall>did. identity_did ref_env seed = Inr did \<longrightarrow> did \<in> m_dids ref_masters"
    using ref_seeds_dids by blast
  have k: "m_threshold ref_masters \<le> int (card {did. \<exists>seed\<in>set ref_seeds. identity_did ref_env seed = Inr did})"
    unfolding ref_seeds_dids by (simp add: ref_masters_def)
  obtain d' r where "verify_revocation ref_env (JObj d') ref_masters {} = Inr (Some r)" "r_revoked r = set [ref_did c]"
    by (rule create_cosign_verify [OF ref_env_crypto ref_masters_wf d s m k])
  with that show ?thesis by simp
qed

theorem revocation_needs_threshold_witness:
  "\<exists>v r. verify_revocation ref_env v ref_masters {} = Inr (Some r) \<and> 2 \<le> int (card (r_signers r)) \<and>
     r_signers r \<subseteq> {ref_did (CHR ''a''), ref_did (CHR ''b'')}"
proof -
  obtain v r where v: "verify_revocation ref_env v ref_masters {} = Inr (Some r)"
    by (rule ref_accepted [of "CHR ''x''"])
  have "r_signers r \<subseteq> m_dids ref_masters - {} \<and> m_threshold ref_masters \<le> int (card (r_signers r))"
    using revocation_needs_threshold [OF ref_masters_wf v] by blast
  with v show ?thesis by (auto simp: ref_masters_def)
qed

text \<open>C10 An otherwise well-formed revocation whose \<^verbatim>\<open>issued_at\<close> is an integer too large for a float
  makes \<^verbatim>\<open>verify_revocation\<close> raise, whatever its signatures, instead of returning \<^verbatim>\<open>None\<close>:
  the conversion runs before any signature is looked at.\<close>

theorem huge_issued_at_raises:
  assumes "pget d ''type'' = JStr REVOCATION_TYPE" "pget d ''revoked'' = JList [JStr did]"
    "pubkey_from_did did = Inr pk" "pget d ''reason'' = JStr reason" "pget d ''sigs'' = JList sigs"
    "pget d ''issued_at'' = JInt n" "float_limit \<le> n"
  shows "verify_revocation E (JObj d) masters exclude = Inl (OverflowError ''int too large to convert to float'')"
proof -
  have "sorted_set [did] = [did]" by (rule sorted_set_id) simp_all
  moreover from assms(7) have "\<not> \<bar>n\<bar> < float_limit" by simp
  ultimately show ?thesis
    using assms(1-6) by (simp add: verify_revocation_def MAX_REVOKED_def check_dids_def)
qed


definition poison :: json where
  "poison = JObj [(''type'', JStr REVOCATION_TYPE), (''revoked'', JList [JStr (ref_did (CHR ''z''))]),
     (''reason'', JStr ''''), (''issued_at'', JInt float_limit), (''record_id'', JNull), (''sigs'', JList [])]"

lemma poison_raises:
  "verify_revocation ref_env poison ref_masters {} = Inl (OverflowError ''int too large to convert to float'')"
proof -
  have "sorted_set [ref_did c] = [ref_did c]" for c by (rule sorted_set_id) simp_all
  moreover have "\<not> \<bar>float_limit\<bar> < float_limit" by simp
  ultimately show ?thesis
    by (simp add: verify_revocation_def poison_def MAX_REVOKED_def check_dids_def pget_def)
qed

theorem huge_issued_at_raises_witness:
  "verify_revocation ref_env poison ref_masters {} = Inl (OverflowError ''int too large to convert to float'')"
  unfolding poison_def
  by (rule huge_issued_at_raises [OF _ _ ref_did_pubkey, where n = float_limit])
    (simp_all add: pget_def)

end
