(* ===== verification/Gossip.thy ===== *)
theory Gossip
  imports Prelude
begin

text \<open>
  The two contracts under which replicas that exchange messages in any order, with repeats,
  end in the same state. Revocations, the materialised state and the membership tables
  provide them; the convergence lemmas are proved once, here.
\<close>

section \<open>Grow-only sets\<close>

text \<open>Applying a message adds its contribution to the replica's set and nothing else.\<close>

locale gossip_set =
  fixes apply_msg :: "'m \<Rightarrow> 's \<Rightarrow> 's"
    and inv :: "'s \<Rightarrow> bool"
    and ok :: "'m \<Rightarrow> bool"
    and view :: "'s \<Rightarrow> 'a set"
    and contrib :: "'m \<Rightarrow> 'a set"
  assumes apply_inv: "inv s \<Longrightarrow> ok m \<Longrightarrow> inv (apply_msg m s)"
    and apply_view: "inv s \<Longrightarrow> ok m \<Longrightarrow> view (apply_msg m s) = view s \<union> contrib m"
begin

lemma fold_inv: "inv s \<Longrightarrow> list_all ok ms \<Longrightarrow> inv (fold apply_msg ms s)"
  by (induction ms arbitrary: s) (auto intro: apply_inv)

lemma fold_view:
  "inv s \<Longrightarrow> list_all ok ms \<Longrightarrow> view (fold apply_msg ms s) = view s \<union> (\<Union>m\<in>set ms. contrib m)"
  by (induction ms arbitrary: s) (auto simp: apply_inv apply_view)

lemma fold_monotone: "inv s \<Longrightarrow> list_all ok ms \<Longrightarrow> view s \<subseteq> view (fold apply_msg ms s)"
  by (simp add: fold_view)

theorem converge:
  assumes "inv s" "inv t" "view s = view t" "list_all ok ms" "list_all ok ns" "set ms = set ns"
  shows "view (fold apply_msg ms s) = view (fold apply_msg ns t)"
  using assms by (simp add: fold_view)

end

section \<open>Last writer wins\<close>

text \<open>
  A table holds, for each key, at most one value; a message writes its value when the key is
  free or the value is newer than the one held. With \<open>newer\<close> a strict order that is total on the
  acceptable values of a key, the table holds the newest value of every key whatever the order.
\<close>

locale lww_table =
  fixes apply_msg :: "'m \<Rightarrow> 's \<Rightarrow> 's"
    and inv :: "'s \<Rightarrow> bool"
    and ok :: "'m \<Rightarrow> bool"
    and look :: "'s \<Rightarrow> 'k \<Rightarrow> 'v option"
    and mkey :: "'m \<Rightarrow> 'k"
    and mval :: "'m \<Rightarrow> 'v"
    and newer :: "'v \<Rightarrow> 'v \<Rightarrow> bool"
  assumes apply_inv: "inv s \<Longrightarrow> ok m \<Longrightarrow> inv (apply_msg m s)"
    and apply_look: "inv s \<Longrightarrow> ok m \<Longrightarrow> look (apply_msg m s) k =
        (if k = mkey m \<and> (case look s k of None \<Rightarrow> True | Some v \<Rightarrow> newer (mval m) v)
         then Some (mval m) else look s k)"
    and newer_irrefl: "\<not> newer v v"
    and newer_trans: "newer u v \<Longrightarrow> newer v w \<Longrightarrow> newer u w"
    and newer_total: "ok m \<Longrightarrow> ok n \<Longrightarrow> mkey m = mkey n \<Longrightarrow>
        newer (mval m) (mval n) \<or> newer (mval n) (mval m) \<or> mval m = mval n"
begin

definition winner :: "'m set \<Rightarrow> 'k \<Rightarrow> 'v \<Rightarrow> bool" where
  "winner M k v \<longleftrightarrow> (\<exists>m\<in>M. mkey m = k \<and> mval m = v) \<and> (\<forall>m\<in>M. mkey m = k \<longrightarrow> \<not> newer (mval m) v)"

lemma fold_inv: "inv s \<Longrightarrow> list_all ok ms \<Longrightarrow> inv (fold apply_msg ms s)"
  by (induction ms arbitrary: s) (auto intro: apply_inv)

lemma fold_inv_rev: "inv s \<Longrightarrow> list_all ok ms \<Longrightarrow> inv (foldr apply_msg ms s)"
  by (induction ms) (auto intro: apply_inv)

lemma foldr_winner:
  assumes "inv s" "\<And>k. look s k = None" "list_all ok ms"
  shows "case look (foldr apply_msg ms s) k of None \<Rightarrow> \<forall>m\<in>set ms. mkey m \<noteq> k | Some v \<Rightarrow> winner (set ms) k v"
  using assms(3)
proof (induction ms)
  case Nil
  then show ?case by (simp add: assms(2))
next
  case (Cons m ms)
  then have ok: "ok m" "list_all ok ms" "\<forall>n\<in>set ms. ok n" by (simp_all add: list_all_iff)
  let ?s = "foldr apply_msg ms s"
  have inv: "inv ?s" using assms(1) ok(2) by (rule fold_inv_rev)
  show ?case
  proof (cases "mkey m = k")
    case False
    with Cons ok(1) inv show ?thesis
      by (auto simp: apply_look winner_def split: option.splits)
  next
    case True
    show ?thesis
    proof (cases "look ?s k")
      case None
      with Cons ok True inv show ?thesis
        by (auto simp: apply_look winner_def newer_irrefl)
    next
      case (Some v)
      with Cons.IH ok(2) have w: "winner (set ms) k v" by simp
      then obtain n where n: "n \<in> set ms" "mkey n = k" "mval n = v" by (auto simp: winner_def)
      show ?thesis
      proof (cases "newer (mval m) v")
        case True
        then have "winner (set (m # ms)) k (mval m)"
          using w \<open>mkey m = k\<close> unfolding winner_def by (auto simp: newer_irrefl dest: newer_trans)
        moreover have "look (apply_msg m ?s) k = Some (mval m)"
          using True Some \<open>mkey m = k\<close> inv ok(1) by (simp add: apply_look)
        ultimately show ?thesis by simp
      next
        case False
        then have "winner (set (m # ms)) k v"
          using w by (auto simp: winner_def)
        moreover have "look (apply_msg m ?s) k = Some v"
          using False Some inv ok(1) by (simp add: apply_look)
        ultimately show ?thesis by simp
      qed
    qed
  qed
qed

lemma winner_unique:
  assumes "winner M k v" "winner M k w" "\<forall>m\<in>M. ok m"
  shows "v = w"
  using assms newer_total unfolding winner_def by metis

theorem converge:
  assumes "inv s" "inv t" "\<And>k. look s k = None" "\<And>k. look t k = None"
    "list_all ok ms" "list_all ok ns" "set ms = set ns"
  shows "look (fold apply_msg ms s) k = look (fold apply_msg ns t) k"
proof -
  have ok: "list_all ok (rev ms)" "list_all ok (rev ns)" "\<forall>m\<in>set ns. ok m"
    using assms(5,6) by (auto simp: list_all_iff)
  note W = foldr_winner [OF assms(1,3) ok(1), of k] foldr_winner [OF assms(2,4) ok(2), of k]
  show ?thesis
  proof (cases "look (foldr apply_msg (rev ms) s) k")
    case None
    with W assms(7) show ?thesis
      by (cases "look (foldr apply_msg (rev ns) t) k") (auto simp: foldr_conv_fold winner_def)
  next
    case (Some v)
    with W(1) assms(7) have v: "winner (set ns) k v" by simp
    with W(2) obtain w where w: "look (foldr apply_msg (rev ns) t) k = Some w" "winner (set ns) k w"
      by (cases "look (foldr apply_msg (rev ns) t) k") (auto simp: winner_def)
    from winner_unique [OF v w(2) ok(3)] Some w show ?thesis by (simp add: foldr_conv_fold)
  qed
qed

end

end
