(* ===== verification/Trust_Policy.thy ===== *)
theory Trust_Policy
  imports Revocation Gossip
begin

text \<open>
  \<^verbatim>\<open>identity/policy.py\<close>: the revocation store, \<^verbatim>\<open>TrustPolicy\<close> (an allowlist minus the
  revoked), its refresh from the store and the self-halt.

  The store is a file shared between processes: a line of it is the value \<^verbatim>\<open>json.loads\<close>
  reads there, or \<open>None\<close> when it does not parse, and the operations that read it take its
  current lines and stamp. An operation that may raise returns the policy it leaves behind
  together with its result, so that what a raise in the middle of a refresh keeps is visible.
  Subscribers are named by numbers, and an operation returns the calls it makes to them.
\<close>

type_synonym stamp = "int \<times> int"
type_synonym store_line = "json option"

section \<open>The policy\<close>

record policy =
  p_allowlist :: allowlist
  p_masters :: "master_set option"
  p_store :: bool
  p_revoked :: "did set"
  p_records :: "(string, revocation_record) dict"
  p_subs :: "nat list"
  p_version :: nat
  p_stamp :: "stamp option"

definition store_load :: "store_line list \<Rightarrow> json list" where
  "store_load lines = filter is_obj (List.map_filter id lines)"

definition p_contains :: "policy \<Rightarrow> trust" where
  "p_contains p did \<longleftrightarrow> al_contains (p_allowlist p) did \<and> did \<notin> p_revoked p"

definition p_dids :: "policy \<Rightarrow> did set" where
  "p_dids p = {d \<in> p_allowlist p. d \<notin> p_revoked p}"

definition policy_merge ::
  "env \<Rightarrow> json \<Rightarrow> bool \<Rightarrow> policy \<Rightarrow> policy \<times> (did set \<times> nat list \<times> json list) res" where
  "policy_merge E v persist p =
     (case p_masters p of
        None \<Rightarrow> (p, Inr ({}, [], []))
      | Some masters \<Rightarrow>
          (case verify_revocation E v masters {} of
             Inl e \<Rightarrow> (p, Inl e)
           | Inr None \<Rightarrow> (p, Inr ({}, [], []))
           | Inr (Some r) \<Rightarrow>
               if r_record_id r \<in> set (dkeys (p_records p)) then (p, Inr ({}, [], []))
               else let newly = r_revoked r - p_revoked p
                    in (p\<lparr>p_records := dset (r_record_id r) r (p_records p),
                          p_revoked := p_revoked p \<union> r_revoked r,
                          p_version := (if newly \<noteq> {} then p_version p + 1 else p_version p)\<rparr>,
                        Inr (newly, if newly \<noteq> {} then p_subs p else [],
                             if persist \<and> p_store p then [v] else []))))"

text \<open>\<^verbatim>\<open>apply\<close>: the newly revoked DIDs, the subscribers called with them, and the objects
  appended to the store.\<close>

definition policy_apply ::
  "env \<Rightarrow> json \<Rightarrow> policy \<Rightarrow> policy \<times> (did set \<times> nat list \<times> json list) res" where
  "policy_apply E v p = policy_merge E v True p"

fun refresh_loop :: "env \<Rightarrow> json list \<Rightarrow> did set \<Rightarrow> policy \<Rightarrow> policy \<times> did set res" where
  "refresh_loop E [] newly p = (p, Inr newly)"
| "refresh_loop E (v # vs) newly p =
     (case policy_merge E v False p of
        (p', Inl e) \<Rightarrow> (p', Inl e)
      | (p', Inr (n, _, _)) \<Rightarrow> refresh_loop E vs (newly \<union> n) p')"

definition policy_init ::
  "env \<Rightarrow> allowlist option \<Rightarrow> master_set option \<Rightarrow> (stamp option \<times> store_line list) option \<Rightarrow> policy res" where
  "policy_init E allowlist masters store =
     (case allowlist of
        None \<Rightarrow> Inl (ValueError ''a trust policy needs an allowlist'')
      | Some al \<Rightarrow>
          let p = \<lparr>p_allowlist = al, p_masters = masters, p_store = (store \<noteq> None), p_revoked = {},
                   p_records = [], p_subs = [], p_version = 0, p_stamp = None\<rparr>
          in case store of
               None \<Rightarrow> Inr p
             | Some (stamp, lines) \<Rightarrow>
                 (case refresh_loop E (store_load lines) {} (p\<lparr>p_stamp := stamp\<rparr>) of
                    (_, Inl e) \<Rightarrow> Inl e
                  | (p', Inr _) \<Rightarrow> Inr p'))"

definition policy_refresh ::
  "env \<Rightarrow> stamp option \<Rightarrow> store_line list \<Rightarrow> policy \<Rightarrow> policy \<times> (did set \<times> nat list) res" where
  "policy_refresh E stamp lines p =
     (if \<not> p_store p then (p, Inr ({}, []))
      else if stamp = p_stamp p then (p, Inr ({}, []))
      else case refresh_loop E (store_load lines) {} (p\<lparr>p_stamp := stamp\<rparr>) of
             (p', Inl e) \<Rightarrow> (p', Inl e)
           | (p', Inr newly) \<Rightarrow> (p', Inr (newly, if newly \<noteq> {} then p_subs p' else [])))"

definition policy_on_change :: "nat \<Rightarrow> policy \<Rightarrow> policy" where
  "policy_on_change cb p = p\<lparr>p_subs := p_subs p @ [cb]\<rparr>"

text \<open>One tick of \<^verbatim>\<open>start_refresher\<close>: an exception is swallowed.\<close>

definition refresher_tick :: "env \<Rightarrow> stamp option \<Rightarrow> store_line list \<Rightarrow> policy \<Rightarrow> policy" where
  "refresher_tick E stamp lines p = fst (policy_refresh E stamp lines p)"

text \<open>A stop action changes the node's state and may raise; a raise does not stop the others.\<close>

definition halt_on_self_revocation ::
  "did set \<Rightarrow> did \<Rightarrow> ('s \<Rightarrow> 's \<times> bool) list \<Rightarrow> 's \<Rightarrow> 's \<times> bool" where
  "halt_on_self_revocation newly_revoked self_did stop_actions s =
     (if self_did \<notin> newly_revoked then (s, False)
      else (fold (\<lambda>action st. fst (action st)) stop_actions s, True))"

datatype trust_object = PlainAllowlist allowlist | Narrowed policy

definition load_trust_policy ::
  "env \<Rightarrow> string \<Rightarrow> string option \<Rightarrow> (stamp option \<times> store_line list) option \<Rightarrow> trust_object res" where
  "load_trust_policy E allow_text masters_text revocations =
     (if revocations \<noteq> None \<and> masters_text = None then Inl (ValueError ''--revocations needs --masters'')
      else rbind (al_load allow_text) (\<lambda>al.
        case masters_text of
          None \<Rightarrow> Inr (PlainAllowlist al)
        | Some mt \<Rightarrow>
            rbind (master_set_load mt) (\<lambda>masters.
            rbind (policy_init E (Some al) (Some masters) revocations) (\<lambda>p. Inr (Narrowed p)))))"

fun trust_of :: "trust_object \<Rightarrow> trust" where
  "trust_of (PlainAllowlist al) = al_contains al"
| "trust_of (Narrowed p) = p_contains p"

section \<open>The invariant\<close>

text \<open>
  \<open>S\<close> is the set of bodies in circulation, on which the digest has no collision. Every record held
  is the digest of a body of \<open>S\<close> naming the DIDs the record revokes, and the revoked set is the
  union over the records.
\<close>

definition body_of :: "env \<Rightarrow> revocation_record \<Rightarrow> bytes" where
  "body_of E r = rev_message E r (sorted_list_of_set (r_revoked r))"

definition circulating :: "env \<Rightarrow> master_set option \<Rightarrow> bytes set \<Rightarrow> json \<Rightarrow> bool" where
  "circulating E masters S v \<longleftrightarrow>
     (\<forall>m. masters = Some m \<longrightarrow> ms_wf m \<and>
        (\<exists>x. verify_revocation E v m {} = Inr x \<and> (\<forall>r. x = Some r \<longrightarrow> body_of E r \<in> S)))"

definition contribution :: "env \<Rightarrow> master_set option \<Rightarrow> json \<Rightarrow> did set" where
  "contribution E masters v =
     (case masters of
        None \<Rightarrow> {}
      | Some m \<Rightarrow> (case verify_revocation E v m {} of Inr (Some r) \<Rightarrow> r_revoked r | _ \<Rightarrow> {}))"

definition policy_inv :: "env \<Rightarrow> master_set option \<Rightarrow> bytes set \<Rightarrow> policy \<Rightarrow> bool" where
  "policy_inv E masters S p \<longleftrightarrow>
     float_repr_ok E \<and> inj_on (sha256 E) S \<and> p_masters p = masters \<and>
     p_revoked p = (\<Union>(i, r)\<in>set (p_records p). r_revoked r) \<and>
     (\<forall>(i, r)\<in>set (p_records p). finite (r_revoked r) \<and> body_of E r \<in> S \<and> i = hexdigest E (body_of E r))"

lemma verified_record:
  assumes "ms_wf m" "verify_revocation E v m ex = Inr (Some r)"
  shows "r_record_id r = hexdigest E (body_of E r)" "finite (r_revoked r)" "r_revoked r \<noteq> {}"
proof -
  obtain d revoked sigs where "r_revoked r = set revoked" "revoked \<noteq> []" "sorted_set revoked = revoked"
    "r_record_id r = hexdigest E (rev_message E r revoked)"
    by (rule verify_revocation_sound [OF assms])
  moreover from this have "sorted_list_of_set (r_revoked r) = revoked"
    by (simp add: sorted_set_fixpoint_iff sorted_list_of_set.idem_if_sorted_distinct)
  ultimately show "r_record_id r = hexdigest E (body_of E r)" "finite (r_revoked r)" "r_revoked r \<noteq> {}"
    by (simp_all add: body_of_def)
qed

text \<open>Equal record ids name equal bodies, so a record dropped as already held adds nothing.\<close>

lemma body_of_inject:
  assumes "float_repr_ok E" "body_of E r = body_of E r'" "finite (r_revoked r)" "finite (r_revoked r')"
  shows "r_revoked r = r_revoked r'"
proof -
  let ?l = "sorted_list_of_set (r_revoked r)" and ?l' = "sorted_list_of_set (r_revoked r')"
  let ?d = "rev_body ?l (JStr (r_reason r)) (JFloat (r_issued_at r))"
  let ?e = "rev_body ?l' (JStr (r_reason r')) (JFloat (r_issued_at r'))"
  have "map_option sort_keys (map_of ?d ''revoked'') = map_option sort_keys (map_of ?e ''revoked'')"
    using assms(1,2) by (intro canonical_fields) (simp_all add: body_of_def rev_message_def rev_body_def)
  then have "map (sort_keys \<circ> JStr) ?l = map (sort_keys \<circ> JStr) ?l'"
    by (simp add: rev_body_def sorted_set_id)
  then have "?l = ?l'"
    by (subst (asm) inj_map_eq_map) (auto simp: inj_def)
  then show ?thesis using assms(3,4) by (metis set_sorted_list_of_set)
qed

lemma policy_invD:
  assumes "policy_inv E masters S p"
  shows "float_repr_ok E" "inj_on (sha256 E) S" "p_masters p = masters"
    "p_revoked p = (\<Union>(i, r)\<in>set (p_records p). r_revoked r)"
    "\<And>i r. (i, r) \<in> set (p_records p) \<Longrightarrow> finite (r_revoked r) \<and> body_of E r \<in> S \<and> i = hexdigest E (body_of E r)"
  using assms unfolding policy_inv_def by blast+

lemma policy_invI:
  assumes "float_repr_ok E" "inj_on (sha256 E) S" "p_masters p = masters"
    "p_revoked p = (\<Union>(i, r)\<in>set (p_records p). r_revoked r)"
    "\<And>i r. (i, r) \<in> set (p_records p) \<Longrightarrow> finite (r_revoked r) \<and> body_of E r \<in> S \<and> i = hexdigest E (body_of E r)"
  shows "policy_inv E masters S p"
  using assms unfolding policy_inv_def by blast

lemma held_record_same:
  assumes "policy_inv E masters S p" "(r_record_id r, r') \<in> set (p_records p)"
    "body_of E r \<in> S" "r_record_id r = hexdigest E (body_of E r)" "finite (r_revoked r)"
  shows "r_revoked r \<subseteq> p_revoked p"
proof -
  from policy_invD(5) [OF assms(1,2)] policy_invD(1,2) [OF assms(1)]
  have r': "finite (r_revoked r')" "body_of E r' \<in> S"
    "r_record_id r = hexdigest E (body_of E r')" "float_repr_ok E" "inj_on (sha256 E) S"
    by simp_all
  then have "body_of E r = body_of E r'"
    using assms(3,4) by (simp add: hexdigest_def hex_inject inj_on_def)
  with r' assms(5) have "r_revoked r = r_revoked r'" using body_of_inject by blast
  moreover have "r_revoked r' \<subseteq> p_revoked p"
    using assms(2) unfolding policy_invD(4) [OF assms(1)] by blast
  ultimately show ?thesis by simp
qed

lemma dset_fresh: "k \<notin> set (dkeys d) \<Longrightarrow> set (dset k v d) = insert (k, v) (set d)"
  by (simp add: dset_new)

text \<open>One merge, on a circulating object: the state keeps the invariant and gains exactly the
  object's contribution.\<close>

lemma policy_merge_step:
  assumes "policy_inv E masters S p" "circulating E masters S v"
  obtains p' newly subs out where "policy_merge E v persist p = (p', Inr (newly, subs, out))"
    "policy_inv E masters S p'" "p_revoked p' = p_revoked p \<union> contribution E masters v"
    "newly = contribution E masters v - p_revoked p" "subs = (if newly \<noteq> {} then p_subs p else [])"
    "p_allowlist p' = p_allowlist p" "p_store p' = p_store p" "p_stamp p' = p_stamp p"
    "p_revoked p' = p_revoked p \<or> out = (if persist \<and> p_store p then [v] else [])" "set out \<subseteq> {v}"
proof (cases masters)
  case None
  with assms(1) have "p_masters p = None" by (simp add: policy_inv_def)
  with None assms(1) show ?thesis
    by (intro that [of p "{}" "[]" "[]"]) (simp_all add: policy_merge_def contribution_def)
next
  case (Some m)
  with assms have m: "p_masters p = Some m" "ms_wf m" by (auto simp: policy_inv_def circulating_def)
  from Some assms(2) obtain x where x: "verify_revocation E v m {} = Inr x" "\<forall>r. x = Some r \<longrightarrow> body_of E r \<in> S"
    by (auto simp: circulating_def)
  show ?thesis
  proof (cases x)
    case None
    with m x assms(1) Some show ?thesis
      by (intro that [of p "{}" "[]" "[]"]) (simp_all add: policy_merge_def contribution_def)
  next
    case (Some r)
    note r = verified_record [OF m(2) x(1) [unfolded Some]]
    have c: "contribution E masters v = r_revoked r"
      using x Some \<open>masters = Some m\<close> by (simp add: contribution_def)
    have S: "body_of E r \<in> S" using x Some by simp
    show ?thesis
    proof (cases "r_record_id r \<in> set (dkeys (p_records p))")
      case True
      then obtain r' where "(r_record_id r, r') \<in> set (p_records p)" by (auto simp: dkeys_def)
      from held_record_same [OF assms(1) this S r(1,2)] have "r_revoked r \<subseteq> p_revoked p" .
      with True m x Some assms(1) c show ?thesis
        by (intro that [of p "{}" "[]" "[]"]) (auto simp: policy_merge_def)
    next
      case False
      let ?newly = "r_revoked r - p_revoked p"
      let ?p = "p\<lparr>p_records := dset (r_record_id r) r (p_records p), p_revoked := p_revoked p \<union> r_revoked r,
        p_version := (if ?newly \<noteq> {} then p_version p + 1 else p_version p)\<rparr>"
      have recs: "set (p_records ?p) = insert (r_record_id r, r) (set (p_records p))"
        using dset_fresh [OF False] by simp
      have "policy_inv E masters S ?p"
      proof (rule policy_invI)
        show "p_revoked ?p = (\<Union>(i, r)\<in>set (p_records ?p). r_revoked r)"
          unfolding recs using policy_invD(4) [OF assms(1)] by auto
        show "finite (r_revoked r') \<and> body_of E r' \<in> S \<and> i = hexdigest E (body_of E r')"
          if "(i, r') \<in> set (p_records ?p)" for i r'
          using that policy_invD(5) [OF assms(1), of i r'] r S unfolding recs by blast
      qed (use policy_invD [OF assms(1)] in simp_all)
      with False m x Some c show ?thesis
        by (intro that [of ?p ?newly "if ?newly \<noteq> {} then p_subs p else []" "if persist \<and> p_store p then [v] else []"])
          (auto simp: policy_merge_def Let_def)
    qed
  qed
qed

section \<open>The gossip contract\<close>

interpretation revocations: gossip_set
  "\<lambda>v p. fst (policy_apply E v p)" "policy_inv E masters S" "circulating E masters S" p_revoked
  "contribution E masters"
  for E masters S
proof unfold_locales
  fix v p
  assume step: "policy_inv E masters S p" "circulating E masters S v"
  obtain p' x where "policy_merge E v True p = (p', x)" "policy_inv E masters S p'"
    "p_revoked p' = p_revoked p \<union> contribution E masters v"
    by (rule policy_merge_step [OF step, of True])
  then show "policy_inv E masters S (fst (policy_apply E v p))"
    and "p_revoked (fst (policy_apply E v p)) = p_revoked p \<union> contribution E masters v"
    by (simp_all add: policy_apply_def)
qed

lemma refresh_loop_step:
  assumes "policy_inv E masters S p" "list_all (circulating E masters S) vs"
  obtains p' where "refresh_loop E vs newly p = (p', Inr (newly \<union> (p_revoked p' - p_revoked p)))"
    "policy_inv E masters S p'" "p_revoked p' = p_revoked p \<union> (\<Union>v\<in>set vs. contribution E masters v)"
    "p_allowlist p' = p_allowlist p" "p_store p' = p_store p" "p_stamp p' = p_stamp p"
  using assms
proof (induction vs arbitrary: p newly thesis)
  case Nil
  then show ?case by simp
next
  case (Cons v vs)
  then have "circulating E masters S v" "list_all (circulating E masters S) vs" by auto
  obtain p1 n subs out where p1: "policy_merge E v False p = (p1, Inr (n, subs, out))"
    "policy_inv E masters S p1" "p_revoked p1 = p_revoked p \<union> contribution E masters v"
    "n = contribution E masters v - p_revoked p"
    "p_allowlist p1 = p_allowlist p" "p_store p1 = p_store p" "p_stamp p1 = p_stamp p"
    by (rule policy_merge_step [OF Cons.prems(2) \<open>circulating E masters S v\<close>, of False])
  obtain p2 where p2: "refresh_loop E vs (newly \<union> n) p1 = (p2, Inr (newly \<union> n \<union> (p_revoked p2 - p_revoked p1)))"
    "policy_inv E masters S p2" "p_revoked p2 = p_revoked p1 \<union> (\<Union>v\<in>set vs. contribution E masters v)"
    "p_allowlist p2 = p_allowlist p1" "p_store p2 = p_store p1" "p_stamp p2 = p_stamp p1"
    by (rule Cons.IH [OF _ p1(2) \<open>list_all (circulating E masters S) vs\<close>, of "newly \<union> n"])
  have "newly \<union> n \<union> (p_revoked p2 - p_revoked p1) = newly \<union> (p_revoked p2 - p_revoked p)"
    using p1(3,4) p2(3) by auto
  with p1 p2 show ?case by (intro Cons.prems(1) [of p2]) auto
qed

section \<open>Properties\<close>

subsection \<open>Convergence\<close>

definition apply_all :: "env \<Rightarrow> json list \<Rightarrow> policy \<Rightarrow> policy" where
  "apply_all E vs p = fold (\<lambda>v p. fst (policy_apply E v p)) vs p"

lemma policy_merge_frame:
  "p_allowlist (fst (policy_merge E v persist p)) = p_allowlist p"
  "p_masters (fst (policy_merge E v persist p)) = p_masters p"
  "p_store (fst (policy_merge E v persist p)) = p_store p"
  "p_stamp (fst (policy_merge E v persist p)) = p_stamp p"
  "p_subs (fst (policy_merge E v persist p)) = p_subs p"
  "p_revoked p \<subseteq> p_revoked (fst (policy_merge E v persist p))"
  by (auto simp: policy_merge_def Let_def split: option.splits sum.splits)

lemma apply_all_frame: "p_allowlist (apply_all E vs p) = p_allowlist p"
  unfolding apply_all_def
  by (induction vs arbitrary: p) (simp_all add: policy_apply_def policy_merge_frame)

lemma policy_init_inv:
  assumes "float_repr_ok E" "inj_on (sha256 E) S" "policy_init E (Some al) masters None = Inr p"
  shows "policy_inv E masters S p" "p_revoked p = {}" "p_allowlist p = al"
  using assms by (auto simp: policy_init_def Let_def intro!: policy_invI)

text \<open>C5 Revocation records may reach a node in any order, more than once and mixed with objects that do
  not verify: what the node trusts in the end is the allowlist minus the union of what the verified
  records revoke. Two nodes that have seen the same objects trust the same DIDs. (The digest is
  assumed free of collisions on the bodies in circulation, since a record is recognised by its id.)\<close>

theorem revocations_converge:
  assumes "float_repr_ok E" "inj_on (sha256 E) S" "policy_init E (Some al) masters None = Inr p"
    and "list_all (circulating E masters S) vs" "list_all (circulating E masters S) ws" "set vs = set ws"
  shows "(p_contains (apply_all E vs p) did \<longleftrightarrow>
           did \<in> al \<and> did \<notin> (\<Union>v\<in>set vs. contribution E masters v)) \<and>
         p_contains (apply_all E ws p) did = p_contains (apply_all E vs p) did"
proof (rule conjI)
  note init = policy_init_inv [OF assms(1-3)]
  show "p_contains (apply_all E vs p) did \<longleftrightarrow> did \<in> al \<and> did \<notin> (\<Union>v\<in>set vs. contribution E masters v)"
    using revocations.fold_view [OF init(1) assms(4)] init(2,3) apply_all_frame [of E vs p]
    by (simp add: p_contains_def al_contains_def apply_all_def)
  show "p_contains (apply_all E ws p) did = p_contains (apply_all E vs p) did"
    using revocations.converge [OF init(1) init(1) refl assms(4,5,6)] apply_all_frame [of E]
    by (simp add: p_contains_def al_contains_def apply_all_def)
qed

lemma ref_circulating: "circulating ref_env (Some ref_masters) UNIV v" if "verify_revocation ref_env v ref_masters {} = Inr x"
  using that ref_masters_wf by (simp add: circulating_def)

lemma ref_policy:
  obtains p where "policy_init ref_env (Some al) (Some ref_masters) None = Inr p"
  by (simp add: policy_init_def)

theorem revocations_converge_witness:
  "\<exists>p v w. policy_init ref_env (Some {ref_did (CHR ''x''), ref_did (CHR ''y'')}) (Some ref_masters) None = Inr p \<and>
     \<not> p_contains (apply_all ref_env [v, w, v] p) (ref_did (CHR ''x'')) \<and>
     \<not> p_contains (apply_all ref_env [w, v] p) (ref_did (CHR ''x''))"
proof -
  obtain p where p: "policy_init ref_env (Some {ref_did (CHR ''x''), ref_did (CHR ''y'')}) (Some ref_masters) None = Inr p"
    by (rule ref_policy)
  obtain v r where v: "verify_revocation ref_env v ref_masters {} = Inr (Some r)" "r_revoked r = {ref_did (CHR ''x'')}"
    by (rule ref_accepted)
  have w: "verify_revocation ref_env JNull ref_masters {} = Inr None" by (simp add: verify_revocation_def)
  have ok: "list_all (circulating ref_env (Some ref_masters) UNIV) [v, JNull, v]"
    "list_all (circulating ref_env (Some ref_masters) UNIV) [JNull, v]"
    using ref_circulating v(1) w by simp_all
  have c: "contribution ref_env (Some ref_masters) v = {ref_did (CHR ''x'')}"
    using v by (simp add: contribution_def)
  have "set [v, JNull, v] = set [JNull, v]" by auto
  from revocations_converge [OF ref_env_float ref_env_sha(1) p ok this, of "ref_did (CHR ''x'')"] c
  have "\<not> p_contains (apply_all ref_env [v, JNull, v] p) (ref_did (CHR ''x'')) \<and>
     \<not> p_contains (apply_all ref_env [JNull, v] p) (ref_did (CHR ''x''))" by simp
  with p show ?thesis by blast
qed

subsection \<open>Monotonicity over everything that can happen to a policy\<close>

inductive policy_step :: "env \<Rightarrow> policy \<Rightarrow> policy \<Rightarrow> bool" for E where
  apply_step: "policy_step E p (fst (policy_apply E v p))"
| tick_step: "policy_step E p (refresher_tick E stamp lines p)"
| subscribe_step: "policy_step E p (policy_on_change cb p)"

inductive_cases policy_stepE: "policy_step E p q"

lemma refresh_loop_frame:
  "p_allowlist (fst (refresh_loop E vs newly p)) = p_allowlist p \<and>
   p_revoked p \<subseteq> p_revoked (fst (refresh_loop E vs newly p)) \<and>
   p_masters (fst (refresh_loop E vs newly p)) = p_masters p \<and>
   p_stamp (fst (refresh_loop E vs newly p)) = p_stamp p \<and>
   p_store (fst (refresh_loop E vs newly p)) = p_store p"
proof (induction vs arbitrary: newly p)
  case Nil
  then show ?case by simp
next
  case (Cons v vs)
  obtain p' x where m: "policy_merge E v False p = (p', x)" by (cases "policy_merge E v False p")
  note fr = policy_merge_frame [where E = E and v = v and persist = False and p = p, unfolded m fst_conv]
  show ?case
  proof (cases x)
    case (Inl e)
    with m fr show ?thesis by simp
  next
    case (Inr y)
    obtain n a b where "y = (n, a, b)" by (cases y)
    with Inr m have "refresh_loop E (v # vs) newly p = refresh_loop E vs (newly \<union> n) p'" by simp
    with Cons.IH [of "newly \<union> n" p'] fr show ?thesis by auto
  qed
qed

lemma policy_refresh_fst:
  "fst (policy_refresh E stamp lines p) =
     (if \<not> p_store p \<or> stamp = p_stamp p then p
      else fst (refresh_loop E (store_load lines) {} (p\<lparr>p_stamp := stamp\<rparr>)))"
  by (auto simp: policy_refresh_def split: prod.splits sum.splits)

lemma policy_step_frame:
  "policy_step E p q \<Longrightarrow> p_allowlist q = p_allowlist p \<and> p_revoked p \<subseteq> p_revoked q \<and> p_masters q = p_masters p"
proof (erule policy_stepE)
  fix v
  assume "q = fst (policy_apply E v p)"
  then show ?thesis by (simp add: policy_apply_def policy_merge_frame)
next
  fix stamp lines
  assume "q = refresher_tick E stamp lines p"
  then show ?thesis
    using refresh_loop_frame [of E "store_load lines" "{}" "p\<lparr>p_stamp := stamp\<rparr>"]
    by (simp add: refresher_tick_def policy_refresh_fst)
next
  fix cb
  assume "q = policy_on_change cb p"
  then show ?thesis by (simp add: policy_on_change_def)
qed

text \<open>C6 Trust only shrinks: through any sequence of applied objects, store refreshes (those that raise
  included) and subscriptions, a revoked DID stays revoked and untrusted, no DID outside the
  allowlist becomes trusted, and the masters never change.\<close>

theorem trust_only_shrinks:
  assumes "(policy_step E)\<^sup>*\<^sup>* p q"
  shows "p_revoked p \<subseteq> p_revoked q \<and> p_masters q = p_masters p \<and>
    (\<forall>did. p_contains q did \<longrightarrow> p_contains p did) \<and> (\<forall>did\<in>p_revoked p. \<not> p_contains q did)"
proof -
  have "p_allowlist q = p_allowlist p \<and> p_revoked p \<subseteq> p_revoked q \<and> p_masters q = p_masters p"
    using assms
  proof (induction rule: rtranclp_induct)
    case (step y z)
    from policy_step_frame [OF step(2)] step(3) show ?case by auto
  qed simp
  then show ?thesis by (auto simp: p_contains_def al_contains_def)
qed

theorem trust_only_shrinks_witness:
  "\<exists>p q. (policy_step ref_env)\<^sup>*\<^sup>* p q \<and> p \<noteq> q \<and> p_masters q = p_masters p \<and>
     (\<forall>did. p_contains q did \<longrightarrow> p_contains p did)"
proof -
  obtain p where p: "policy_init ref_env (Some {}) (Some ref_masters) None = Inr p"
    by (rule ref_policy)
  let ?q = "policy_on_change 0 p"
  have st: "(policy_step ref_env)\<^sup>*\<^sup>* p ?q" by (rule r_into_rtranclp, rule subscribe_step)
  have "p_subs p \<noteq> p_subs ?q" by (simp add: policy_on_change_def)
  then have "p \<noteq> ?q" by metis
  with trust_only_shrinks [OF st] st show ?thesis by blast
qed

subsection \<open>Restarts\<close>

text \<open>A process that applies objects one by one, and the objects it appends to its store.\<close>

fun apply_persist :: "env \<Rightarrow> json list \<Rightarrow> policy \<Rightarrow> policy \<times> json list" where
  "apply_persist E [] p = (p, [])"
| "apply_persist E (v # vs) p =
     (case policy_apply E v p of
        (p', Inl _) \<Rightarrow> apply_persist E vs p'
      | (p', Inr (_, _, out)) \<Rightarrow> (let (q, outs) = apply_persist E vs p' in (q, out @ outs)))"

lemma apply_persist_frame: "p_allowlist (fst (apply_persist E vs p)) = p_allowlist p"
proof (induction vs arbitrary: p)
  case (Cons v vs)
  then show ?case
    using policy_merge_frame(1) [where E = E and v = v and persist = True and p = p]
    by (auto simp: policy_apply_def Let_def split: prod.splits sum.splits) (metis fst_conv)+
qed simp

lemma contribution_obj: "contribution E masters v \<noteq> {} \<Longrightarrow> is_obj v"
  by (cases v) (auto simp: contribution_def verify_revocation_def split: option.splits)

lemma apply_persist_step:
  assumes "policy_inv E masters S p" "p_store p" "list_all (circulating E masters S) vs"
  obtains q outs where "apply_persist E vs p = (q, outs)" "policy_inv E masters S q"
    "p_revoked q = p_revoked p \<union> (\<Union>v\<in>set outs. contribution E masters v)"
    "p_revoked q = p_revoked p \<union> (\<Union>v\<in>set vs. contribution E masters v)" "set outs \<subseteq> set vs"
  using assms
proof (induction vs arbitrary: p thesis)
  case Nil
  show ?case by (rule Nil.prems(1) [of p "[]"]) (use Nil.prems(2) in simp_all)
next
  case (Cons v vs)
  have c: "circulating E masters S v" "list_all (circulating E masters S) vs" using Cons.prems(4) by auto
  obtain p1 n subs out where p1: "policy_merge E v True p = (p1, Inr (n, subs, out))"
    "policy_inv E masters S p1" "p_revoked p1 = p_revoked p \<union> contribution E masters v" "p_store p1 = p_store p"
    "p_revoked p1 = p_revoked p \<or> out = (if True \<and> p_store p then [v] else [])" "set out \<subseteq> {v}"
    by (rule policy_merge_step [OF Cons.prems(2) c(1), of True])
  obtain q outs where q: "apply_persist E vs p1 = (q, outs)" "policy_inv E masters S q"
    "p_revoked q = p_revoked p1 \<union> (\<Union>v\<in>set outs. contribution E masters v)"
    "p_revoked q = p_revoked p1 \<union> (\<Union>v\<in>set vs. contribution E masters v)" "set outs \<subseteq> set vs"
    by (rule Cons.IH [OF _ p1(2) _ c(2)]) (use p1(4) Cons.prems(3) in auto)
  have "apply_persist E (v # vs) p = (q, out @ outs)"
    using p1(1) q(1) by (simp add: policy_apply_def)
  moreover have "p_revoked q = p_revoked p \<union> (\<Union>v\<in>set (out @ outs). contribution E masters v)"
  proof (cases "p_revoked p1 = p_revoked p")
    case True
    then have "contribution E masters v \<subseteq> p_revoked p" using p1(3) by blast
    with True q(3) p1(6) show ?thesis by auto
  next
    case False
    with p1(5) Cons.prems(3) have "out = [v]" by simp
    with p1(3) q(3) show ?thesis by auto
  qed
  moreover have "p_revoked q = p_revoked p \<union> (\<Union>v\<in>set (v # vs). contribution E masters v)"
    using p1(3) q(4) by auto
  ultimately show ?case
    using q(2,5) p1(6) by (intro Cons.prems(1) [of q "out @ outs"]) auto
qed

lemma policy_init_store:
  assumes "float_repr_ok E" "inj_on (sha256 E) S" "list_all (circulating E masters S) (store_load lines)"
  obtains p where "policy_init E (Some al) masters (Some (stamp, lines)) = Inr p" "policy_inv E masters S p"
    "p_revoked p = (\<Union>v\<in>set (store_load lines). contribution E masters v)" "p_allowlist p = al" "p_store p"
proof -
  let ?p = "\<lparr>p_allowlist = al, p_masters = masters, p_store = True, p_revoked = {}, p_records = [],
    p_subs = [], p_version = 0, p_stamp = stamp\<rparr>"
  have "policy_inv E masters S ?p" using assms(1,2) by (intro policy_invI) auto
  then obtain p where "refresh_loop E (store_load lines) {} ?p = (p, Inr ({} \<union> (p_revoked p - p_revoked ?p)))"
    "policy_inv E masters S p" "p_revoked p = p_revoked ?p \<union> (\<Union>v\<in>set (store_load lines). contribution E masters v)"
    "p_allowlist p = p_allowlist ?p" "p_store p = p_store ?p"
    by (rule refresh_loop_step [OF _ assms(3)])
  then show ?thesis by (intro that [of p]) (simp_all add: policy_init_def Let_def)
qed

lemma store_load_append:
  "set (store_load (lines @ map Some vs)) = set (store_load lines) \<union> {v \<in> set vs. is_obj v}"
  by (auto simp: store_load_def List.map_filter_def)



subsection \<open>A line that raises\<close>

lemma refresh_loop_raise_at:
  assumes "verify_revocation E v masters {} = Inl e" "p_masters p = Some masters"
  shows "\<exists>e. refresh_loop E (us @ v # vs) newly p = (fst (refresh_loop E us newly p), Inl e)"
  using assms(2)
proof (induction us arbitrary: newly p)
  case Nil
  then show ?case by (simp add: policy_merge_def assms(1))
next
  case (Cons u us)
  obtain p' x where m: "policy_merge E u False p = (p', x)" by (cases "policy_merge E u False p")
  with Cons.prems have "p_masters p' = Some masters"
    using policy_merge_frame(2) [where E = E and v = u and persist = False and p = p] by simp
  from Cons.IH [OF this] m show ?case by (cases x) (auto split: prod.splits)
qed

text \<open>One object in the store that makes verification raise cuts the store off there: a refresh stops
  at it with the store's stamp already recorded, so later refreshes of the unchanged store return at
  once, and the records behind it are never applied by this process.\<close>

theorem raising_line_hides_the_rest:
  assumes "p_store p" "p_masters p = Some masters" "stamp \<noteq> p_stamp p"
    and "verify_revocation E v masters {} = Inl e" "is_obj v"
  shows "\<exists>e q. policy_refresh E stamp (us @ Some v # vs) p = (q, Inl e) \<and>
    policy_refresh E stamp (us @ Some v # vs) q = (q, Inr ({}, [])) \<and>
    q = fst (refresh_loop E (store_load us) {} (p\<lparr>p_stamp := stamp\<rparr>))"
proof -
  let ?p = "p\<lparr>p_stamp := stamp\<rparr>"
  let ?q = "fst (refresh_loop E (store_load us) {} ?p)"
  have load: "store_load (us @ Some v # vs) = store_load us @ v # store_load vs"
    using assms(5) by (simp add: store_load_def List.map_filter_def)
  obtain e' where e: "refresh_loop E (store_load us @ v # store_load vs) {} ?p = (?q, Inl e')"
    using refresh_loop_raise_at [OF assms(4), of ?p "store_load us" "store_load vs" "{}"] assms(2) by auto
  have "p_stamp ?q = stamp" "p_store ?q"
    using refresh_loop_frame [of E "store_load us" "{}" ?p] assms(1) by simp_all
  with e load assms(1,3) show ?thesis by (simp add: policy_refresh_def)
qed

theorem raising_line_hides_the_rest_witness:
  "\<exists>p q w e. policy_refresh ref_env (Some (1, 1)) [Some poison, Some w] p = (q, Inl e) \<and>
     contribution ref_env (Some ref_masters) w = {ref_did (CHR ''x'')} \<and> p_revoked q = {} \<and>
     policy_refresh ref_env (Some (1, 1)) [Some poison, Some w] q = (q, Inr ({}, []))"
proof -
  define p where "p = \<lparr>p_allowlist = {}, p_masters = Some ref_masters, p_store = True,
    p_revoked = {}, p_records = [], p_subs = [], p_version = 0, p_stamp = None\<rparr>"
  obtain w r where w: "verify_revocation ref_env w ref_masters {} = Inr (Some r)" "r_revoked r = {ref_did (CHR ''x'')}"
    by (rule ref_accepted)
  have p: "p_store p" "p_masters p = Some ref_masters" "Some (1, 1) \<noteq> p_stamp p" "is_obj poison"
    by (simp_all add: p_def poison_def)
  have "contribution ref_env (Some ref_masters) w = {ref_did (CHR ''x'')}"
    using w by (simp add: contribution_def)
  moreover have "p_revoked (fst (refresh_loop ref_env (store_load []) {} (p\<lparr>p_stamp := Some (1, 1)\<rparr>))) = {}"
    by (simp add: store_load_def p_def List.map_filter_def)
  moreover from raising_line_hides_the_rest [OF p(1-3) poison_raises p(4), of "[]" "[Some w]"]
  obtain e q where "policy_refresh ref_env (Some (1, 1)) [Some poison, Some w] p = (q, Inl e)"
    "policy_refresh ref_env (Some (1, 1)) [Some poison, Some w] q = (q, Inr ({}, []))"
    "q = fst (refresh_loop ref_env (store_load []) {} (p\<lparr>p_stamp := Some (1, 1)\<rparr>))"
    by auto
  ultimately show ?thesis by blast
qed

end
