(* ===== verification/Statements.thy ===== *)
theory Statements
  imports Signing
begin

text \<open>
  What transport bindings, capability grants and action authorizations have in common: a signed
  object with a type tag and a validity window, accepted at a time \<open>t\<close> under a trust object. The
  locale \<open>signed_statement\<close> is the contract of their verifiers; what follows from it alone
  (no untrusted signer, no acceptance outside a window of numbers, domain separation,
  authenticity) is proved once and used for all three.
\<close>

text \<open>Python's equality on JSON values: numbers compare across types, objects as mappings.\<close>

fun num_of :: "json \<Rightarrow> pyfloat option" where
  "num_of (JBool b) = Some (Fin (if b then 1 else 0))"
| "num_of (JInt n) = Some (Fin (of_int n))"
| "num_of (JFloat f) = Some f"
| "num_of _ = None"

primrec py_eq :: "json \<Rightarrow> json \<Rightarrow> bool" where
  "py_eq JNull w = (w = JNull)"
| "py_eq (JBool b) w = (case num_of w of Some f \<Rightarrow> fle (Fin (if b then 1 else 0)) f \<and> fle f (Fin (if b then 1 else 0)) | None \<Rightarrow> False)"
| "py_eq (JInt n) w = (case num_of w of Some f \<Rightarrow> fle (Fin (of_int n)) f \<and> fle f (Fin (of_int n)) | None \<Rightarrow> False)"
| "py_eq (JFloat g) w = (case num_of w of Some f \<Rightarrow> fle g f \<and> fle f g | None \<Rightarrow> False)"
| "py_eq (JStr s) w = (w = JStr s)"
| "py_eq (JList vs) w =
     (case w of
        JList ws \<Rightarrow> length vs = length ws \<and> list_all (\<lambda>(eq, w). eq w) (zip (map py_eq vs) ws)
      | _ \<Rightarrow> False)"
| "py_eq (JObj d) w =
     (case w of
        JObj e \<Rightarrow> length d = length e \<and>
          list_all (\<lambda>(k, eq). case map_of e k of Some w \<Rightarrow> eq w | None \<Rightarrow> False) (map (map_prod id py_eq) d)
      | _ \<Rightarrow> False)"

section \<open>Validity windows\<close>

text \<open>How the three \<^verbatim>\<open>create_...\<close> functions fix the window from their arguments.\<close>

definition make_window ::
  "pyfloat \<Rightarrow> pyfloat option \<Rightarrow> pyfloat option \<Rightarrow> pyfloat option \<Rightarrow> pyfloat \<Rightarrow> (pyfloat \<times> pyfloat) res" where
  "make_window default_ttl valid_from expires_at ttl now =
     (let vf = (case valid_from of Some v \<Rightarrow> v | None \<Rightarrow> now);
          ex = (case expires_at of
                  Some e \<Rightarrow> e
                | None \<Rightarrow> fadd vf (case ttl of Some s \<Rightarrow> s | None \<Rightarrow> default_ttl))
      in if fle ex vf then Inl (ValueError ''expires_at must be after valid_from'') else Inr (vf, ex))"

text \<open>How the three verifiers read it: \<open>None\<close> is \<^verbatim>\<open>invalid validity window\<close>, and the Boolean
  pair says whether \<open>t\<close> is too early and whether it is too late.\<close>

definition read_window :: "env \<Rightarrow> obj \<Rightarrow> pyfloat \<Rightarrow> (bool \<times> bool) option res" where
  "read_window E d t =
     (let vf = pget d ''valid_from''; ex = pget d ''expires_at''
      in if \<not> is_num vf \<or> \<not> is_num ex then Inr None
         else rbind (to_float E vf) (\<lambda>v.
           if flt t v then Inr (Some (True, False))
           else rbind (to_float E ex) (\<lambda>e. Inr (Some (False, fle e t)))))"

definition in_window :: "env \<Rightarrow> obj \<Rightarrow> pyfloat \<Rightarrow> bool" where
  "in_window E d t \<longleftrightarrow> read_window E d t = Inr (Some (False, False))"

lemma in_window_iff:
  "in_window E d t \<longleftrightarrow>
     is_num (pget d ''valid_from'') \<and> is_num (pget d ''expires_at'') \<and>
     (\<exists>vf ex. to_float E (pget d ''valid_from'') = Inr vf \<and> to_float E (pget d ''expires_at'') = Inr ex \<and>
        \<not> flt t vf \<and> \<not> fle ex t)"
  by (auto simp: in_window_def read_window_def Let_def rbind_Inr_iff split: if_splits)

lemma in_window_finite:
  assumes "in_window E d t" "pget d ''valid_from'' = JFloat vf" "pget d ''expires_at'' = JFloat ex"
    "vf \<noteq> NaN" "ex \<noteq> NaN" "t \<noteq> NaN"
  shows "fle vf t" "flt t ex"
  using assms by (auto simp: in_window_iff not_flt_fle [symmetric])

lemma make_window_Inr:
  assumes "make_window dt valid_from expires_at ttl now = Inr (vf, ex)"
  shows "\<not> fle ex vf"
  using assms by (auto simp: make_window_def Let_def split: if_splits)

text \<open>An \<^verbatim>\<open>expires_at\<close> that is NaN is a number to \<^verbatim>\<open>_is_num\<close>, and never reached.\<close>

lemma NaN_never_expires:
  assumes "pget d ''valid_from'' = JFloat vf" "pget d ''expires_at'' = JFloat NaN" "\<not> flt t vf"
  shows "in_window E d t"
  using assms by (auto simp: in_window_iff)

section \<open>The contract of a verifier\<close>

locale signed_statement =
  fixes accepts :: "env \<Rightarrow> trust \<Rightarrow> pyfloat \<Rightarrow> json \<Rightarrow> bool"
    and tag :: string
  assumes accepts_sound: "accepts E c t v \<Longrightarrow>
    \<exists>d did. v = JObj d \<and> map_of d ''type'' = Some (JStr tag) \<and>
      verify_payload E v (Some c) = (True, Some did) \<and> in_window E d t"
begin

lemma signer_trusted:
  assumes "accepts E c t v"
  obtains d did where "v = JObj d" "map_of d ''signer'' = Some (JStr did)" "c did"
    "verify_payload E v (Some c) = (True, Some did)"
  using accepts_sound [OF assms] by (auto simp: verify_payload_True_iff)

lemma untrusted_refused:
  assumes "map_of d ''signer'' = Some (JStr did)" "\<not> c did"
  shows "\<not> accepts E c t (JObj d)"
  using assms by (auto elim: signer_trusted)

lemma other_type_refused:
  assumes "map_of d ''type'' \<noteq> Some (JStr tag)"
  shows "\<not> accepts E c t (JObj d)"
  using assms accepts_sound by blast

lemma accepted_window:
  assumes "accepts E c t (JObj d)" "map_of d ''valid_from'' = Some (JFloat vf)"
    "map_of d ''expires_at'' = Some (JFloat ex)" "vf \<noteq> NaN" "ex \<noteq> NaN" "t \<noteq> NaN"
  shows "fle vf t \<and> flt t ex"
proof -
  have "in_window E d t" using accepts_sound [OF assms(1)] by blast
  with assms(2-6) show ?thesis by (auto intro: in_window_finite simp: pget_def)
qed

lemma authentic:
  assumes "float_repr_ok E" "accepts E c t (JObj d)" "map_of d ''signer'' = Some (JStr did)"
    "pubkey_from_did did = Inr pk" "unforgeable E pk ((\<lambda>p. canonical E (JObj p)) ` P)"
    "\<forall>p\<in>P. distinct (map fst p)" "distinct (map fst d)"
  obtains p where "p \<in> P" "map_of p ''type'' = Some (JStr tag)"
    "\<forall>k. k \<noteq> ''signer'' \<longrightarrow> k \<noteq> ''sig'' \<longrightarrow>
       map_option sort_keys (map_of d k) = map_option sort_keys (map_of p k)"
proof -
  from accepts_sound [OF assms(2)] obtain did' where v: "verify_payload E (JObj d) (Some c) = (True, Some did')"
    and ty: "map_of d ''type'' = Some (JStr tag)" by blast
  then have "map_of d ''signer'' = Some (JStr did')" by (simp add: verify_payload_True_iff)
  with assms(3) have "did' = did" by simp
  with v have "verify_payload E (JObj d) (Some c) = (True, Some did)" by simp
  from verified_fields [OF assms(1) this assms(4-7)]
  obtain p where p: "p \<in> P" "\<forall>k. k \<noteq> ''signer'' \<longrightarrow> k \<noteq> ''sig'' \<longrightarrow>
      map_option sort_keys (map_of d k) = map_option sort_keys (map_of p k)" by blast
  then have "map_option sort_keys (map_of p ''type'') = Some (JStr tag)"
    using ty p(2) [rule_format, of "''type''"] by simp
  then have "map_of p ''type'' = Some (JStr tag)" by auto
  with p that show ?thesis by blast
qed

end

end
