(* ===== verification/Binding.thy ===== *)
theory Binding
  imports Statements
begin

text \<open>
  \<^verbatim>\<open>identity/binding.py\<close>: the signed statement in which a DID authorizes an X25519 transport key,
  its verification, the version rule and the DID of a session. The clock is a parameter: \<open>now\<close> when
  a binding is made, \<open>t\<close> when one is checked.
\<close>

definition BINDING_TYPE :: string where
  "BINDING_TYPE = ''secdogie/transport-binding/v1''"

record binding_result =
  b_ok :: bool
  b_reason :: "string option"
  b_did :: "did option"
  b_transport_public_key :: "string option"
  b_key_version :: int
  b_capabilities :: "string list"

definition binding_fail :: "string \<Rightarrow> did option \<Rightarrow> binding_result" where
  "binding_fail reason did =
     \<lparr>b_ok = False, b_reason = Some reason, b_did = did, b_transport_public_key = None,
      b_key_version = 0, b_capabilities = []\<rparr>"

fun x25519_from_b64 :: "json \<Rightarrow> bytes res" where
  "x25519_from_b64 (JStr s) =
     rbind (b64decode True s) (\<lambda>raw.
       if length raw \<noteq> 32 then Inl (ValueError ''transport_public_key must decode to 32 bytes (X25519)'')
       else Inr raw)"
| "x25519_from_b64 _ = Inl (ValueError ''transport_public_key must be a base64 string'')"

definition create_binding ::
  "env \<Rightarrow> identity \<Rightarrow> string \<Rightarrow> json \<Rightarrow> string list \<Rightarrow> pyfloat option \<Rightarrow> pyfloat option \<Rightarrow>
   pyfloat option \<Rightarrow> pyfloat \<Rightarrow> obj res" where
  "create_binding E seed transport_public_key_b64 key_version capabilities valid_from expires_at ttl now =
     rbind (x25519_from_b64 (JStr transport_public_key_b64)) (\<lambda>_.
     (case key_version of
        JInt kv \<Rightarrow>
          if kv < 0 then Inl (ValueError ''key_version must be a non-negative int'')
          else rbind (make_window (Fin (365 * 24 * 3600)) valid_from expires_at ttl now) (\<lambda>(vf, ex).
               rbind (identity_did E seed) (\<lambda>did.
                 sign_payload E seed
                   [(''type'', JStr BINDING_TYPE),
                    (''did'', JStr did),
                    (''transport_public_key'', JStr transport_public_key_b64),
                    (''key_version'', JInt kv),
                    (''capabilities'', JList (map JStr capabilities)),
                    (''valid_from'', JFloat vf),
                    (''expires_at'', JFloat ex)]))
      | _ \<Rightarrow> Inl (ValueError ''key_version must be a non-negative int'')))"

definition verify_binding :: "env \<Rightarrow> json \<Rightarrow> pyfloat \<Rightarrow> trust option \<Rightarrow> binding_result res" where
  "verify_binding E v t allowlist = finish (\<lambda>(reason, did). binding_fail reason did) (
     rbind (some_or (as_obj v) (''not an object'', None)) (\<lambda>d.
     rbind (need (pget d ''type'' = JStr BINDING_TYPE) (''wrong or missing type (domain separation)'', None)) (\<lambda>_.
     let (ok, signer) = verify_payload E v allowlist in
     rbind (need ok (if signer \<noteq> None then ''signer not authorized'' else ''invalid or missing signature'', signer)) (\<lambda>_.
     rbind (need (pget d ''did'' = JStr (the signer)) (''did does not match signer'', signer)) (\<lambda>_.
     rbind (some_or (map_of d ''transport_public_key'') (''invalid transport_public_key'', signer)) (\<lambda>tpk.
     rbind (or_return (x25519_from_b64 tpk) (''invalid transport_public_key'', signer)) (\<lambda>_.
     rbind (some_or (as_int (pget d ''key_version'')) (''invalid key_version'', signer)) (\<lambda>kv.
     rbind (need (0 \<le> kv) (''invalid key_version'', signer)) (\<lambda>_.
     rbind (some_or (as_list (dget d ''capabilities'' (JList []))) (''invalid capabilities'', signer)) (\<lambda>caps_v.
     rbind (some_or (strings_of caps_v) (''invalid capabilities'', signer)) (\<lambda>caps.
     rbind (raises (read_window E d t)) (\<lambda>w.
     rbind (some_or w (''invalid validity window'', signer)) (\<lambda>(early, late).
     rbind (need (\<not> early) (''binding not yet valid'', signer)) (\<lambda>_.
     rbind (need (\<not> late) (''binding expired'', signer)) (\<lambda>_.
       Inr \<lparr>b_ok = True, b_reason = None, b_did = signer, b_transport_public_key = as_str tpk,
            b_key_version = kv, b_capabilities = caps\<rparr>)))))))))))))))"

definition binding_kv :: "obj \<Rightarrow> int" where
  "binding_kv b = (case pget b ''key_version'' of JInt n \<Rightarrow> n | _ \<Rightarrow> - 1)"

definition is_superseded :: "obj \<Rightarrow> obj \<Rightarrow> bool" where
  "is_superseded a b \<longleftrightarrow> py_eq (pget a ''did'') (pget b ''did'') \<and> binding_kv a < binding_kv b"

definition session_did :: "env \<Rightarrow> json \<Rightarrow> json \<Rightarrow> pyfloat \<Rightarrow> trust option \<Rightarrow> did option res" where
  "session_did E binding authenticated_transport_pk_b64 t allowlist =
     rbind (verify_binding E binding t allowlist) (\<lambda>res.
       if \<not> b_ok res then Inr None
       else (case b_transport_public_key res of
               None \<Rightarrow> Inr None
             | Some tpk \<Rightarrow>
                 (case (x25519_from_b64 (JStr tpk), x25519_from_b64 authenticated_transport_pk_b64) of
                    (Inr want, Inr got) \<Rightarrow> Inr (if want = got then b_did res else None)
                  | _ \<Rightarrow> Inr None)))"

section \<open>The contract\<close>

definition binding_accepts :: "env \<Rightarrow> trust \<Rightarrow> pyfloat \<Rightarrow> json \<Rightarrow> bool" where
  "binding_accepts E c t v \<longleftrightarrow> (\<exists>r. verify_binding E v t (Some c) = Inr r \<and> b_ok r)"

lemma binding_fail_not_ok [simp]: "\<not> b_ok (binding_fail reason did)"
  by (simp add: binding_fail_def)

lemma x25519_Inr:
  assumes "x25519_from_b64 v = Inr raw"
  obtains s where "v = JStr s" "b64decode True s = Inr raw" "length raw = 32"
  using assms by (cases v) (auto simp: rbind_Inr_iff split: if_splits)

lemma verify_binding_okD:
  assumes "verify_binding E v t allowlist = Inr r" "b_ok r"
  obtains d did tpk raw kv where "v = JObj d" "map_of d ''type'' = Some (JStr BINDING_TYPE)"
    "verify_payload E v allowlist = (True, Some did)" "in_window E d t"
    "b_did r = Some did" "map_of d ''did'' = Some (JStr did)"
    "b_transport_public_key r = Some tpk" "map_of d ''transport_public_key'' = Some (JStr tpk)"
    "x25519_from_b64 (JStr tpk) = Inr raw" "b64decode True tpk = Inr raw" "length raw = 32"
    "pget d ''key_version'' = JInt kv" "b_key_version r = kv" "0 \<le> kv"
proof -
  obtain ok signer where vp: "verify_payload E v allowlist = (ok, signer)"
    by (cases "verify_payload E v allowlist")
  note chain = finish_okD [OF assms(1) [unfolded verify_binding_def], of b_ok, OF assms(2)]
  from chain vp obtain d tpk raw kv where d: "v = JObj d" "pget d ''type'' = JStr BINDING_TYPE" ok
    "pget d ''did'' = JStr (the signer)" "map_of d ''transport_public_key'' = Some tpk"
    "x25519_from_b64 tpk = Inr raw" "pget d ''key_version'' = JInt kv" "0 \<le> kv" "in_window E d t"
    "b_did r = signer" "b_transport_public_key r = as_str tpk" "b_key_version r = kv"
    by (auto simp: chain_iffs in_window_def)
  from vp \<open>ok\<close> obtain did where "signer = Some did" by (auto elim: verify_payload_True)
  with d vp show ?thesis
    by (elim x25519_Inr) (rule that, auto simp: pget_eq_JStr)
qed

text \<open>A session belongs to a DID only when the binding verifies for that DID at the time, and the bound
  transport key is, byte for byte, the key the handshake authenticated; the base64 spelling of
  either does not matter.\<close>

theorem session_did_sound:
  assumes "session_did E v pk t allowlist = Inr (Some did)"
  shows "\<exists>d tpk raw. v = JObj d \<and> verify_payload E v allowlist = (True, Some did) \<and> in_window E d t \<and>
    map_of d ''did'' = Some (JStr did) \<and> map_of d ''transport_public_key'' = Some (JStr tpk) \<and>
    b64decode True tpk = Inr raw \<and> x25519_from_b64 pk = Inr raw \<and> length raw = 32"
proof -
  from assms obtain r tpk raw where r: "verify_binding E v t allowlist = Inr r" "b_ok r" "b_did r = Some did"
    "b_transport_public_key r = Some tpk" "x25519_from_b64 (JStr tpk) = Inr raw" "x25519_from_b64 pk = Inr raw"
    unfolding session_did_def
    by (auto simp: rbind_Inr_iff simp del: x25519_from_b64.simps split: if_splits option.splits sum.splits)
  show ?thesis
    using r(1,2)
  proof (rule verify_binding_okD)
    fix d did' tpk' raw' kv
    assume "v = JObj d" "verify_payload E v allowlist = (True, Some did')" "in_window E d t"
      "b_did r = Some did'" "map_of d ''did'' = Some (JStr did')" "b_transport_public_key r = Some tpk'"
      "map_of d ''transport_public_key'' = Some (JStr tpk')" "b64decode True tpk' = Inr raw'" "length raw' = 32"
    with r show ?thesis by auto
  qed
qed

interpretation binding: signed_statement binding_accepts BINDING_TYPE
proof unfold_locales
  fix E c t v
  assume "binding_accepts E c t v"
  then obtain r where "verify_binding E v t (Some c) = Inr r" "b_ok r" by (auto simp: binding_accepts_def)
  then show "\<exists>d did. v = JObj d \<and> map_of d ''type'' = Some (JStr BINDING_TYPE) \<and>
      verify_payload E v (Some c) = (True, Some did) \<and> in_window E d t"
    by (rule verify_binding_okD) blast
qed

lemma binding_session:
  assumes "crypto_ok E" "length seed = 32" "identity_did E seed = Inr did"
    and "create_binding E seed tpk kv caps valid_from expires_at ttl now = Inr obj"
    and "make_window (Fin (365 * 24 * 3600)) valid_from expires_at ttl now = Inr (vf, ex)"
    and "\<not> flt t vf" "\<not> fle ex t" "c did"
  shows "session_did E (JObj obj) (JStr tpk) t (Some c) = Inr (Some did)"
proof -
  from assms(3,4,5) obtain raw n where tpk: "x25519_from_b64 (JStr tpk) = Inr raw" and n: "kv = JInt n" "0 \<le> n"
    and obj: "sign_payload E seed [(''type'', JStr BINDING_TYPE), (''did'', JStr did),
      (''transport_public_key'', JStr tpk), (''key_version'', JInt n), (''capabilities'', JList (map JStr caps)),
      (''valid_from'', JFloat vf), (''expires_at'', JFloat ex)] = Inr obj" (is "sign_payload E seed ?p = _")
    by (auto simp: create_binding_def rbind_Inr_iff split: json.splits if_splits simp del: x25519_from_b64.simps)
  note f = sign_payload_fields [OF obj]
  have fields: "pget obj ''type'' = JStr BINDING_TYPE" "pget obj ''did'' = JStr did"
    "map_of obj ''transport_public_key'' = Some (JStr tpk)" "pget obj ''key_version'' = JInt n"
    "dget obj ''capabilities'' (JList []) = JList (map JStr caps)"
    "pget obj ''valid_from'' = JFloat vf" "pget obj ''expires_at'' = JFloat ex"
    by (simp_all add: f dget_def pget_def)
  have "verify_payload E (JObj obj) (Some c) = (True, Some did)"
    using verify_payload_signed [OF assms(1,2) obj assms(3), of "Some c"] assms(8) by simp
  moreover have "read_window E obj t = Inr (Some (False, False))"
    using assms(6,7) fields by (simp add: read_window_def)
  ultimately have "verify_binding E (JObj obj) t (Some c) =
      Inr \<lparr>b_ok = True, b_reason = None, b_did = Some did, b_transport_public_key = Some tpk,
           b_key_version = n, b_capabilities = caps\<rparr>"
    using n tpk by (simp add: verify_binding_def fields del: x25519_from_b64.simps)
  then show ?thesis
    using tpk by (simp add: session_did_def del: x25519_from_b64.simps)
qed

text \<open>A binding made by \<^verbatim>\<open>create_binding\<close> does its job: at every time inside its window, the session
  whose handshake authenticated the bound key belongs to the DID that signed, for every trust
  object that contains the DID.\<close>

theorem binding_round_trip:
  assumes "crypto_ok E" "length seed = 32" "identity_did E seed = Inr did"
    and "create_binding E seed tpk kv caps valid_from expires_at ttl now = Inr obj"
    and "make_window (Fin (365 * 24 * 3600)) valid_from expires_at ttl now = Inr (vf, ex)"
    and "\<not> flt t vf" "\<not> fle ex t" "c did"
  shows "session_did E (JObj obj) (JStr tpk) t (Some c) = Inr (Some did)"
  using assms by (rule binding_session)

lemma ref_binding:
  obtains obj where "create_binding ref_env (ref_seed (CHR ''a'')) (b64encode (ref_seed (CHR ''k''))) (JInt 1) []
     (Some (Fin 10)) (Some (Fin 20)) None (Fin 0) = Inr obj"
proof -
  have "\<not> has_envelope [(''type'', JStr BINDING_TYPE), (''did'', JStr (ref_did (CHR ''a''))),
      (''transport_public_key'', JStr (b64encode (ref_seed (CHR ''k'')))), (''key_version'', JInt 1), (''capabilities'', JList []),
      (''valid_from'', JFloat (Fin 10)), (''expires_at'', JFloat (Fin 20))]"
    by (simp add: has_envelope_def dkeys_def)
  from sign_payload_total [OF ref_env_crypto length_ref_seed [of "CHR ''a''"] this] that show ?thesis
    by (auto simp: create_binding_def make_window_def)
qed

theorem binding_round_trip_witness:
  "\<exists>obj. session_did ref_env (JObj obj) (JStr (b64encode (ref_seed (CHR ''k'')))) (Fin 15) (Some allow_any) =
     Inr (Some (ref_did (CHR ''a'')))"
proof -
  obtain obj where obj: "create_binding ref_env (ref_seed (CHR ''a'')) (b64encode (ref_seed (CHR ''k''))) (JInt 1) []
     (Some (Fin 10)) (Some (Fin 20)) None (Fin 0) = Inr obj" by (rule ref_binding)
  from binding_round_trip [OF ref_env_crypto length_ref_seed ref_did_identity obj, of "Fin 10" "Fin 20" "Fin 15" allow_any]
  show ?thesis by (auto simp: make_window_def allow_any_def)
qed

lemma ref_session:
  obtains obj where "session_did ref_env (JObj obj) (JStr (b64encode (ref_seed (CHR ''k'')))) (Fin 15) (Some allow_any) =
     Inr (Some (ref_did (CHR ''a'')))"
proof -
  obtain obj where obj: "create_binding ref_env (ref_seed (CHR ''a'')) (b64encode (ref_seed (CHR ''k''))) (JInt 1) []
     (Some (Fin 10)) (Some (Fin 20)) None (Fin 0) = Inr obj" by (rule ref_binding)
  from binding_session [OF ref_env_crypto length_ref_seed ref_did_identity obj, of "Fin 10" "Fin 20" "Fin 15" allow_any] that
  show ?thesis by (auto simp: make_window_def allow_any_def)
qed

theorem session_did_sound_witness:
  "\<exists>obj. \<exists>d tpk raw. JObj obj = JObj d \<and> in_window ref_env d (Fin 15) \<and>
     map_of d ''transport_public_key'' = Some (JStr tpk) \<and> b64decode True tpk = Inr raw \<and> length raw = 32"
proof -
  obtain obj where "session_did ref_env (JObj obj) (JStr (b64encode (ref_seed (CHR ''k'')))) (Fin 15) (Some allow_any) =
     Inr (Some (ref_did (CHR ''a'')))" by (rule ref_session)
  from session_did_sound [OF this] show ?thesis by blast
qed

end
