(* ===== verification/Capability.thy ===== *)
theory Capability
  imports Statements
begin

text \<open>
  \<^verbatim>\<open>identity/capability.py\<close>: signed grants of action scopes. The main results are that no grant,
  whoever signs it, yields a scope outside \<^verbatim>\<open>GRANTABLE_SCOPES\<close>, and that the scopes a subject
  holds are exactly those of the grants that verify for it.
\<close>

definition CAPABILITY_TYPE :: string where
  "CAPABILITY_TYPE = ''secdogie/capability/v1''"

definition GRANTABLE_SCOPES :: "string list" where
  "GRANTABLE_SCOPES =
     [''observe.read'', ''physical.click'', ''physical.type'', ''physical.key'', ''physical.scroll'',
      ''physical.drag'', ''system.open'', ''process.run'', ''network.post'', ''network.send'']"

record capability_result =
  c_ok :: bool
  c_reason :: "string option"
  c_capability_id :: "string option"
  c_issuer :: "did option"
  c_subject :: "string option"
  c_scopes :: "string list"

definition cap_fail :: "string \<Rightarrow> string option \<Rightarrow> did option \<Rightarrow> string option \<Rightarrow> capability_result" where
  "cap_fail reason cid issuer subject =
     \<lparr>c_ok = False, c_reason = Some reason, c_capability_id = cid, c_issuer = issuer,
      c_subject = subject, c_scopes = []\<rparr>"

text \<open>\<open>Inl\<close> is the reason string, \<open>Inr\<close> the normalized scopes.\<close>

definition check_scopes :: "json \<Rightarrow> string + string list" where
  "check_scopes v =
     (case v of
        JList vs \<Rightarrow>
          (case strings_of vs of
             None \<Rightarrow> Inl ''scopes must be strings''
           | Some scopes \<Rightarrow>
               if scopes = [] then Inl ''a capability needs at least one scope''
               else let bad = sort (filter (\<lambda>s. s \<notin> set GRANTABLE_SCOPES) scopes)
                    in if bad \<noteq> [] then Inl (''not grantable: '' @ join '', '' bad)
                       else Inr (sorted_set scopes))
      | _ \<Rightarrow> Inl ''scopes must be a list'')"

definition create_capability ::
  "env \<Rightarrow> identity \<Rightarrow> did \<Rightarrow> json \<Rightarrow> pyfloat option \<Rightarrow> pyfloat option \<Rightarrow> pyfloat option \<Rightarrow> pyfloat \<Rightarrow> obj res" where
  "create_capability E issuer subject_did scopes valid_from expires_at ttl now =
     rbind (pubkey_from_did subject_did) (\<lambda>_.
     (case check_scopes scopes of
        Inl reason \<Rightarrow> Inl (ValueError reason)
      | Inr checked \<Rightarrow>
          rbind (make_window (Fin (24 * 3600)) valid_from expires_at ttl now) (\<lambda>(vf, ex).
          rbind (identity_did E issuer) (\<lambda>did.
          let body = [(''type'', JStr CAPABILITY_TYPE),
                      (''issuer'', JStr did),
                      (''subject'', JStr subject_did),
                      (''scopes'', JList (map JStr checked)),
                      (''valid_from'', JFloat vf),
                      (''expires_at'', JFloat ex)]
          in sign_payload E issuer
               (dset ''capability_id'' (JStr (take 16 (hexdigest E (canonical E (JObj body))))) body)))))"

definition verify_capability ::
  "env \<Rightarrow> json \<Rightarrow> trust option \<Rightarrow> string option \<Rightarrow> pyfloat \<Rightarrow> capability_result res" where
  "verify_capability E v issuers subject t = finish (\<lambda>(reason, cid, issuer, subj). cap_fail reason cid issuer subj) (
     rbind (some_or (as_obj v) (''not an object'', None, None, None)) (\<lambda>d.
     rbind (need (pget d ''type'' = JStr CAPABILITY_TYPE) (''wrong or missing type (domain separation)'', None, None, None)) (\<lambda>_.
     rbind (some_or issuers (''no trusted issuers configured'', None, None, None)) (\<lambda>trusted.
     let (ok, signer) = verify_payload E v (Some trusted) in
     rbind (need ok (if signer \<noteq> None then ''issuer not trusted'' else ''invalid or missing signature'', None, signer, None)) (\<lambda>_.
     rbind (need (pget d ''issuer'' = JStr (the signer)) (''issuer does not match signer'', None, signer, None)) (\<lambda>_.
     rbind (some_or (as_str (pget d ''subject'')) (''invalid subject'', None, signer, None)) (\<lambda>subj.
     rbind (need (subject = None \<or> subject = Some subj) (''grant is for a different subject'', None, signer, Some subj)) (\<lambda>_.
     rbind (some_or (as_str (pget d ''capability_id'')) (''invalid capability_id'', None, signer, Some subj)) (\<lambda>cid.
     rbind (need (cid \<noteq> []) (''invalid capability_id'', None, signer, Some subj)) (\<lambda>_.
     rbind (case check_scopes (pget d ''scopes'') of
              Inl reason \<Rightarrow> Inl (Return (reason, Some cid, signer, Some subj))
            | Inr checked \<Rightarrow> Inr checked) (\<lambda>checked.
     rbind (raises (read_window E d t)) (\<lambda>w.
     rbind (some_or w (''invalid validity window'', Some cid, signer, Some subj)) (\<lambda>(early, late).
     rbind (need (\<not> early) (''grant not yet valid'', Some cid, signer, Some subj)) (\<lambda>_.
     rbind (need (\<not> late) (''grant expired'', Some cid, signer, Some subj)) (\<lambda>_.
       Inr \<lparr>c_ok = True, c_reason = None, c_capability_id = Some cid, c_issuer = signer,
            c_subject = Some subj, c_scopes = checked\<rparr>)))))))))))))))"

fun effective_from :: "env \<Rightarrow> json list \<Rightarrow> string \<Rightarrow> trust option \<Rightarrow> pyfloat \<Rightarrow> string set \<Rightarrow> string set res" where
  "effective_from E [] subject issuers t out = Inr out"
| "effective_from E (g # grants) subject issuers t out =
     rbind (verify_capability E g issuers (Some subject) t) (\<lambda>res.
       effective_from E grants subject issuers t (if c_ok res then out \<union> set (c_scopes res) else out))"

definition effective_scopes :: "env \<Rightarrow> json list \<Rightarrow> string \<Rightarrow> trust option \<Rightarrow> pyfloat \<Rightarrow> string set res" where
  "effective_scopes E grants subject issuers t = effective_from E grants subject issuers t {}"

definition allows :: "string set \<Rightarrow> string \<Rightarrow> bool" where
  "allows granted required \<longleftrightarrow> required \<in> set GRANTABLE_SCOPES \<and> required \<in> granted"

section \<open>The contract\<close>

definition capability_accepts :: "env \<Rightarrow> trust \<Rightarrow> pyfloat \<Rightarrow> json \<Rightarrow> bool" where
  "capability_accepts E c t v \<longleftrightarrow> (\<exists>subject r. verify_capability E v (Some c) subject t = Inr r \<and> c_ok r)"

lemma cap_fail_not_ok [simp]: "\<not> c_ok (cap_fail reason cid issuer subject)"
  by (simp add: cap_fail_def)

lemma check_scopes_Inr:
  assumes "check_scopes v = Inr scopes"
  obtains ss where "v = JList (map JStr ss)" "ss \<noteq> []" "set ss \<subseteq> set GRANTABLE_SCOPES" "scopes = sorted_set ss"
proof -
  have sort_Nil: "sort xs = [] \<longleftrightarrow> xs = []" for xs :: "string list" by (metis set_empty set_sort)
  from assms that show ?thesis
    by (cases v) (auto simp: check_scopes_def Let_def strings_of_iff filter_empty_conv sort_Nil split: option.splits if_splits)
qed

lemma verify_capability_okD:
  assumes "verify_capability E v issuers subject t = Inr r" "c_ok r"
  obtains d c did subj ss where "v = JObj d" "issuers = Some c" "map_of d ''type'' = Some (JStr CAPABILITY_TYPE)"
    "verify_payload E v (Some c) = (True, Some did)" "in_window E d t" "c_issuer r = Some did"
    "map_of d ''subject'' = Some (JStr subj)" "c_subject r = Some subj" "subject = None \<or> subject = Some subj"
    "map_of d ''scopes'' = Some (JList (map JStr ss))" "ss \<noteq> []" "set ss \<subseteq> set GRANTABLE_SCOPES" "c_scopes r = sorted_set ss"
proof -
  note chain = finish_okD [OF assms(1) [unfolded verify_capability_def], of c_ok, OF assms(2)]
  from chain obtain d c where dc: "v = JObj d" "issuers = Some c" by (auto simp: chain_iffs)
  obtain ok signer where vp: "verify_payload E v (Some c) = (ok, signer)"
    by (cases "verify_payload E v (Some c)")
  have sc: "(case x of Inl reason \<Rightarrow> Inl (Return (f reason)) | Inr y \<Rightarrow> Inr y) = Inr z \<longleftrightarrow> x = Inr z" for x f z
    by (cases x) auto
  from chain vp dc obtain subj checked where d: "pget d ''type'' = JStr CAPABILITY_TYPE" ok
    "pget d ''subject'' = JStr subj" "subject = None \<or> subject = Some subj" "check_scopes (pget d ''scopes'') = Inr checked"
    "in_window E d t" "c_issuer r = signer" "c_subject r = Some subj" "c_scopes r = checked"
    by (auto simp: chain_iffs in_window_def sc)
  from vp \<open>ok\<close> obtain did where "signer = Some did" by (auto elim: verify_payload_True)
  moreover from d(5) obtain ss where "pget d ''scopes'' = JList (map JStr ss)" "ss \<noteq> []"
    "set ss \<subseteq> set GRANTABLE_SCOPES" "checked = sorted_set ss" by (rule check_scopes_Inr)
  moreover from this have "map_of d ''scopes'' = Some (JList (map JStr ss))"
    by (auto simp: pget_def split: option.splits)
  ultimately show ?thesis
    using d dc vp by (intro that [of d c did subj ss]) (auto simp: pget_eq_JStr)
qed

interpretation capability: signed_statement capability_accepts CAPABILITY_TYPE
proof unfold_locales
  fix E c t v
  assume "capability_accepts E c t v"
  then obtain subject r where "verify_capability E v (Some c) subject t = Inr r" "c_ok r"
    by (auto simp: capability_accepts_def)
  then show "\<exists>d did. v = JObj d \<and> map_of d ''type'' = Some (JStr CAPABILITY_TYPE) \<and>
      verify_payload E v (Some c) = (True, Some did) \<and> in_window E d t"
    by (rule verify_capability_okD) auto
qed

section \<open>Properties\<close>

lemma effective_from_eq:
  assumes "effective_from E grants subject issuers t out = Inr scopes"
  shows "scopes = out \<union> {s. \<exists>g\<in>set grants. \<exists>r. verify_capability E g issuers (Some subject) t = Inr r \<and> c_ok r \<and> s \<in> set (c_scopes r)}"
  using assms
proof (induction grants arbitrary: out)
  case Nil
  then show ?case by simp
next
  case (Cons g grants)
  from Cons.prems obtain res where res: "verify_capability E g issuers (Some subject) t = Inr res"
    "effective_from E grants subject issuers t (if c_ok res then out \<union> set (c_scopes res) else out) = Inr scopes"
    by (auto simp: rbind_Inr_iff)
  from Cons.IH [OF res(2)] res(1) show ?case by (auto split: if_splits)
qed

text \<open>The scopes a subject holds across a pile of grants are exactly the scopes named by those grants
  that a trusted issuer signed for that very subject and whose window covers the moment; every one of
  them is grantable, so nothing (an elevated launch, say) outside the closed list is ever held,
  whoever signs.\<close>

theorem effective_scopes_exact:
  assumes "effective_scopes E grants subject (Some issuers) t = Inr scopes"
  shows "scopes \<subseteq> set GRANTABLE_SCOPES \<and>
    (\<forall>s\<in>scopes. \<exists>d ss did. JObj d \<in> set grants \<and> map_of d ''subject'' = Some (JStr subject) \<and>
       map_of d ''scopes'' = Some (JList (map JStr ss)) \<and> s \<in> set ss \<and> in_window E d t \<and>
       verify_payload E (JObj d) (Some issuers) = (True, Some did) \<and> issuers did)"
proof -
  have ex: "\<exists>d ss did. JObj d \<in> set grants \<and> map_of d ''subject'' = Some (JStr subject) \<and>
       map_of d ''scopes'' = Some (JList (map JStr ss)) \<and> s \<in> set ss \<and> set ss \<subseteq> set GRANTABLE_SCOPES \<and> in_window E d t \<and>
       verify_payload E (JObj d) (Some issuers) = (True, Some did) \<and> issuers did" if "s \<in> scopes" for s
  proof -
    from that effective_from_eq [OF assms [unfolded effective_scopes_def]] obtain g r where
      g: "g \<in> set grants" "verify_capability E g (Some issuers) (Some subject) t = Inr r" "c_ok r" "s \<in> set (c_scopes r)"
      by auto
    from g(2,3) show ?thesis
    proof (rule verify_capability_okD)
      fix d c did subj ss
      assume "g = JObj d" "Some issuers = Some c" "verify_payload E g (Some c) = (True, Some did)" "in_window E d t"
        "map_of d ''subject'' = Some (JStr subj)" "Some subject = None \<or> Some subject = Some subj"
        "map_of d ''scopes'' = Some (JList (map JStr ss))" "set ss \<subseteq> set GRANTABLE_SCOPES" "c_scopes r = sorted_set ss"
      with g(1,4) show ?thesis
        by (intro exI [of _ d] exI [of _ ss] exI [of _ did]) (auto simp: verify_payload_True_iff)
    qed
  qed
  then show ?thesis by blast
qed

lemma capability_verifies:
  assumes "crypto_ok E" "length seed = 32" "identity_did E seed = Inr did"
    and "create_capability E seed subject scopes valid_from expires_at ttl now = Inr obj"
    and "make_window (Fin (24 * 3600)) valid_from expires_at ttl now = Inr (vf, ex)"
    and "\<not> flt t vf" "\<not> fle ex t" "c did" "sha256 E (canonical E (JObj
      [(''type'', JStr CAPABILITY_TYPE), (''issuer'', JStr did), (''subject'', JStr subject),
       (''scopes'', JList (map JStr ss)), (''valid_from'', JFloat vf), (''expires_at'', JFloat ex)])) \<noteq> []"
    and "check_scopes scopes = Inr ss"
  shows "effective_scopes E [JObj obj] subject (Some c) t = Inr (set ss)"
proof -
  let ?body = "[(''type'', JStr CAPABILITY_TYPE), (''issuer'', JStr did), (''subject'', JStr subject),
       (''scopes'', JList (map JStr ss)), (''valid_from'', JFloat vf), (''expires_at'', JFloat ex)]"
  let ?cid = "take 16 (hexdigest E (canonical E (JObj ?body)))"
  have cid: "?cid \<noteq> []"
    using assms(9) by (auto simp: hexdigest_def hex_def neq_Nil_conv)
  from assms(3,4,5,10) have obj: "sign_payload E seed (dset ''capability_id'' (JStr ?cid) ?body) = Inr obj"
    by (auto simp: create_capability_def rbind_Inr_iff Let_def split: sum.splits)
  note f = sign_payload_fields [OF obj]
  have fields: "pget obj ''type'' = JStr CAPABILITY_TYPE" "pget obj ''issuer'' = JStr did"
    "pget obj ''subject'' = JStr subject" "pget obj ''scopes'' = JList (map JStr ss)"
    "pget obj ''valid_from'' = JFloat vf" "pget obj ''expires_at'' = JFloat ex" "pget obj ''capability_id'' = JStr ?cid"
    by (simp_all add: f pget_def)
  have "verify_payload E (JObj obj) (Some c) = (True, Some did)"
    using verify_payload_signed [OF assms(1,2) obj assms(3), of "Some c"] assms(8) by simp
  moreover have "read_window E obj t = Inr (Some (False, False))"
    using assms(6,7) fields by (simp add: read_window_def)
  moreover have "check_scopes (JList (map JStr ss)) = Inr ss"
  proof -
    obtain xs where "xs \<noteq> []" "set xs \<subseteq> set GRANTABLE_SCOPES" "ss = sorted_set xs"
      using assms(10) by (rule check_scopes_Inr)
    moreover from this have "filter (\<lambda>s. s \<notin> set GRANTABLE_SCOPES) (sorted_set xs) = []"
      by (simp add: filter_empty_conv) blast
    ultimately show ?thesis by (simp add: check_scopes_def)
  qed
  ultimately have "verify_capability E (JObj obj) (Some c) (Some subject) t =
      Inr \<lparr>c_ok = True, c_reason = None, c_capability_id = Some ?cid, c_issuer = Some did,
           c_subject = Some subject, c_scopes = ss\<rparr>"
    using cid by (simp add: verify_capability_def fields)
  then show ?thesis by (simp add: effective_scopes_def)
qed

text \<open>A grant made by \<^verbatim>\<open>create_capability\<close> grants: inside its window, under an issuer list with its
  issuer, the subject holds exactly the scopes asked for.\<close>

theorem capability_round_trip:
  assumes "crypto_ok E" "length seed = 32" "identity_did E seed = Inr did"
    and "create_capability E seed subject scopes valid_from expires_at ttl now = Inr obj"
    and "make_window (Fin (24 * 3600)) valid_from expires_at ttl now = Inr (vf, ex)"
    and "\<not> flt t vf" "\<not> fle ex t" "c did" "\<forall>m. sha256 E m \<noteq> []" "check_scopes scopes = Inr ss"
  shows "effective_scopes E [JObj obj] subject (Some c) t = Inr (set ss)"
  using assms by (intro capability_verifies) auto

lemma ref_grant:
  obtains obj where "create_capability ref_env (ref_seed (CHR ''i'')) (ref_did (CHR ''n'')) (JList [JStr ''physical.click''])
     None None None (Fin 100) = Inr obj"
proof -
  have s: "check_scopes (JList [JStr ''physical.click'']) = Inr [''physical.click'']"
    by (simp add: check_scopes_def GRANTABLE_SCOPES_def sorted_set_def)
  have "\<exists>obj. create_capability ref_env (ref_seed (CHR ''i'')) (ref_did (CHR ''n'')) (JList [JStr ''physical.click''])
     None None None (Fin 100) = Inr obj"
    by (simp add: create_capability_def s make_window_def Let_def sign_payload_def has_envelope_def dkeys_def)
  with that show ?thesis by blast
qed

lemma ref_check: "check_scopes (JList [JStr ''physical.click'']) = Inr [''physical.click'']"
  by (simp add: check_scopes_def GRANTABLE_SCOPES_def sorted_set_def)

theorem capability_round_trip_witness:
  "\<exists>obj. effective_scopes ref_env [JObj obj] (ref_did (CHR ''n'')) (Some allow_any) (Fin 200) = Inr {''physical.click''}"
proof -
  obtain obj where obj: "create_capability ref_env (ref_seed (CHR ''i'')) (ref_did (CHR ''n'')) (JList [JStr ''physical.click''])
     None None None (Fin 100) = Inr obj" by (rule ref_grant)
  from capability_round_trip [OF ref_env_crypto length_ref_seed ref_did_identity obj, of "Fin 100" "Fin 86500" "Fin 200" allow_any]
  show ?thesis by (auto simp: make_window_def allow_any_def ref_check)
qed

theorem effective_scopes_exact_witness:
  "\<exists>obj. effective_scopes ref_env [JObj obj] (ref_did (CHR ''n'')) (Some allow_any) (Fin 200) = Inr {''physical.click''} \<and>
     {''physical.click''} \<subseteq> set GRANTABLE_SCOPES"
proof -
  obtain obj where obj: "create_capability ref_env (ref_seed (CHR ''i'')) (ref_did (CHR ''n'')) (JList [JStr ''physical.click''])
     None None None (Fin 100) = Inr obj" by (rule ref_grant)
  have "effective_scopes ref_env [JObj obj] (ref_did (CHR ''n'')) (Some allow_any) (Fin 200) = Inr (set [''physical.click''])"
    by (rule capability_verifies [OF ref_env_crypto length_ref_seed ref_did_identity obj, of "Fin 100" "Fin 86500"])
      (simp_all add: make_window_def allow_any_def ref_check)
  with effective_scopes_exact [OF this] show ?thesis by auto
qed

end
