(* ===== verification/Authz.thy ===== *)
theory Authz
  imports Statements
begin

text \<open>
  \<^verbatim>\<open>citadel/authz.py\<close>, Gate 2: an operator's one-shot, signed approval of one concrete action on
  one node. The token commits to a digest of the fields that say what the action does
  (\<open>action_hash\<close>); with a digest free of collisions a token accepted for an action approves exactly
  that action (\<open>authorization_binds_action\<close>). The records of actions are here because the digest is
  taken of them; they are declared in \<^verbatim>\<open>citadel/action_gate.py\<close>.
\<close>

record intent_contract =
  i_purpose :: string
  i_rollback :: string
  i_irreversible :: bool
  i_requires_present :: "string list"

record planned_action =
  a_kind :: string
  a_target_id :: string
  a_target_role :: string
  a_target_name :: string
  a_text :: string
  a_high_risk :: bool
  a_generation :: int
  a_expected_observation :: string
  a_estimated_cost :: pyfloat
  a_intent :: intent_contract

definition AUTHORIZATION_TYPE :: string where
  "AUTHORIZATION_TYPE = ''secdogie/action-authorization/v1''"

text \<open>The body over \<^verbatim>\<open>_AUTHORIZED_FIELDS\<close>.\<close>

definition action_body :: "planned_action \<Rightarrow> obj" where
  "action_body a =
     [(''kind'', JStr (a_kind a)),
      (''target_id'', JStr (a_target_id a)),
      (''target_role'', JStr (a_target_role a)),
      (''target_name'', JStr (a_target_name a)),
      (''text'', JStr (a_text a)),
      (''high_risk'', JBool (a_high_risk a))]"

definition action_hash :: "env \<Rightarrow> planned_action \<Rightarrow> string" where
  "action_hash E a = hexdigest E (canonical E (JObj (action_body a)))"

definition create_authorization ::
  "env \<Rightarrow> identity \<Rightarrow> planned_action \<Rightarrow> did \<Rightarrow> pyfloat option \<Rightarrow> pyfloat option \<Rightarrow> pyfloat option \<Rightarrow> pyfloat \<Rightarrow> obj res" where
  "create_authorization E operator action subject_did valid_from expires_at ttl now =
     rbind (make_window (Fin 300) valid_from expires_at ttl now) (\<lambda>(vf, ex).
       sign_payload E operator
         [(''type'', JStr AUTHORIZATION_TYPE),
          (''action_hash'', JStr (action_hash E action)),
          (''subject'', JStr subject_did),
          (''valid_from'', JFloat vf),
          (''expires_at'', JFloat ex)])"

record authz_result =
  z_ok :: bool
  z_reason :: "string option"
  z_signer :: "did option"
  z_action_hash :: "string option"

definition authz_fail :: "string \<Rightarrow> did option \<Rightarrow> string option \<Rightarrow> authz_result" where
  "authz_fail reason signer h = \<lparr>z_ok = False, z_reason = Some reason, z_signer = signer, z_action_hash = h\<rparr>"

definition verify_authorization ::
  "env \<Rightarrow> json \<Rightarrow> planned_action \<Rightarrow> trust option \<Rightarrow> string \<Rightarrow> pyfloat \<Rightarrow> authz_result res" where
  "verify_authorization E token action operators subject t = finish (\<lambda>(reason, signer, h). authz_fail reason signer h) (
     rbind (some_or (as_obj token) (''not an authorization object'', None, None)) (\<lambda>d.
     rbind (need (pget d ''type'' = JStr AUTHORIZATION_TYPE) (''wrong or missing type (domain separation)'', None, None)) (\<lambda>_.
     rbind (some_or operators (''no trusted operators configured'', None, None)) (\<lambda>trusted.
     let (ok, signer) = verify_payload E token (Some trusted) in
     rbind (need ok (if signer \<noteq> None then ''operator not trusted or revoked'' else ''invalid or missing signature'', signer, None)) (\<lambda>_.
     let expected = action_hash E action in
     rbind (need (pget d ''action_hash'' = JStr expected) (''token authorizes a different action'', signer, Some expected)) (\<lambda>_.
     rbind (need (pget d ''subject'' = JStr subject) (''token is for a different node'', signer, Some expected)) (\<lambda>_.
     rbind (raises (read_window E d t)) (\<lambda>w.
     rbind (some_or w (''invalid validity window'', signer, Some expected)) (\<lambda>(early, late).
     rbind (need (\<not> early) (''authorization not yet valid'', signer, Some expected)) (\<lambda>_.
     rbind (need (\<not> late) (''authorization expired'', signer, Some expected)) (\<lambda>_.
       Inr \<lparr>z_ok = True, z_reason = None, z_signer = signer, z_action_hash = Some expected\<rparr>)))))))))))"

section \<open>The contract\<close>

definition authorization_accepts :: "env \<Rightarrow> trust \<Rightarrow> pyfloat \<Rightarrow> json \<Rightarrow> bool" where
  "authorization_accepts E c t v \<longleftrightarrow>
     (\<exists>action subject r. verify_authorization E v action (Some c) subject t = Inr r \<and> z_ok r)"

lemma authz_fail_not_ok [simp]: "\<not> z_ok (authz_fail reason signer h)"
  by (simp add: authz_fail_def)

lemma verify_authorization_okD:
  assumes "verify_authorization E v action operators subject t = Inr r" "z_ok r"
  obtains d c did where "v = JObj d" "operators = Some c" "map_of d ''type'' = Some (JStr AUTHORIZATION_TYPE)"
    "verify_payload E v (Some c) = (True, Some did)" "c did" "in_window E d t" "z_signer r = Some did"
    "map_of d ''action_hash'' = Some (JStr (action_hash E action))" "map_of d ''subject'' = Some (JStr subject)"
proof -
  note chain = finish_okD [OF assms(1) [unfolded verify_authorization_def], of z_ok, OF assms(2)]
  from chain obtain d c where dc: "v = JObj d" "operators = Some c" by (auto simp: chain_iffs)
  obtain ok signer where vp: "verify_payload E v (Some c) = (ok, signer)"
    by (cases "verify_payload E v (Some c)")
  from chain vp dc have d: "pget d ''type'' = JStr AUTHORIZATION_TYPE" ok
    "pget d ''action_hash'' = JStr (action_hash E action)" "pget d ''subject'' = JStr subject"
    "in_window E d t" "z_signer r = signer"
    by (auto simp: chain_iffs in_window_def Let_def)
  from vp \<open>ok\<close> obtain did where did: "signer = Some did" by (auto elim: verify_payload_True)
  with vp \<open>ok\<close> dc have "c did" by (auto simp: verify_payload_True_iff)
  with d dc vp did show ?thesis
    by (intro that [of d c did]) (auto simp: pget_eq_JStr)
qed

interpretation authorization: signed_statement authorization_accepts AUTHORIZATION_TYPE
proof unfold_locales
  fix E c t v
  assume "authorization_accepts E c t v"
  then obtain action subject r where "verify_authorization E v action (Some c) subject t = Inr r" "z_ok r"
    by (auto simp: authorization_accepts_def)
  then show "\<exists>d did. v = JObj d \<and> map_of d ''type'' = Some (JStr AUTHORIZATION_TYPE) \<and>
      verify_payload E v (Some c) = (True, Some did) \<and> in_window E d t"
    by (rule verify_authorization_okD) auto
qed

section \<open>One token, one action\<close>

lemma action_body_inject:
  assumes "float_repr_ok E" "canonical E (JObj (action_body a)) = canonical E (JObj (action_body b))"
  shows "action_body a = action_body b"
proof -
  have "map_option sort_keys (map_of (action_body a) k) = map_option sort_keys (map_of (action_body b) k)" for k
    using assms by (intro canonical_fields) (simp_all add: action_body_def)
  from this [of "''kind''"] this [of "''target_id''"] this [of "''target_role''"] this [of "''target_name''"]
    this [of "''text''"] this [of "''high_risk''"] show ?thesis
    by (simp add: action_body_def)
qed

lemma action_hash_inject:
  assumes "float_repr_ok E" "action_hash E a = action_hash E b"
    "inj_on (sha256 E) {canonical E (JObj (action_body a)), canonical E (JObj (action_body b))}"
  shows "action_body a = action_body b"
proof (rule action_body_inject [OF assms(1)])
  have "sha256 E (canonical E (JObj (action_body a))) = sha256 E (canonical E (JObj (action_body b)))"
    using assms(2) unfolding action_hash_def hexdigest_def hex_inject .
  then show "canonical E (JObj (action_body a)) = canonical E (JObj (action_body b))"
    by (rule inj_onD [OF assms(3)]) blast+
qed

text \<open>C13 An accepted token approves exactly one action on exactly one node: when the same token is accepted
  for two actions (at any times, for any subjects and under any operators), the two actions agree in
  every field that says what they do, and the node is the same. The digest is assumed free of
  collisions on the two actions.\<close>

theorem authorization_binds_action:
  assumes "float_repr_ok E"
    and "inj_on (sha256 E) {canonical E (JObj (action_body a)), canonical E (JObj (action_body b))}"
    and "verify_authorization E token a ops subject t = Inr r" "z_ok r"
    and "verify_authorization E token b ops' subject' t' = Inr r'" "z_ok r'"
  shows "action_body a = action_body b \<and> subject = subject' \<and> z_signer r = z_signer r'"
proof -
  obtain d c did where 1: "token = JObj d" "map_of d ''action_hash'' = Some (JStr (action_hash E a))"
    "map_of d ''subject'' = Some (JStr subject)" "verify_payload E token (Some c) = (True, Some did)" "z_signer r = Some did"
    using assms(3,4) by (rule verify_authorization_okD)
  obtain d' c' did' where 2: "token = JObj d'" "map_of d' ''action_hash'' = Some (JStr (action_hash E b))"
    "map_of d' ''subject'' = Some (JStr subject')" "verify_payload E token (Some c') = (True, Some did')" "z_signer r' = Some did'"
    using assms(5,6) by (rule verify_authorization_okD)
  from 1 2 have "action_hash E a = action_hash E b" "subject = subject'" "did = did'"
    by (auto simp: verify_payload_True_iff)
  with action_hash_inject [OF assms(1) _ assms(2)] 1 2 show ?thesis by simp
qed

lemma authorization_verifies:
  assumes "crypto_ok E" "length seed = 32" "identity_did E seed = Inr did"
    and "create_authorization E seed action subject valid_from expires_at ttl now = Inr obj"
    and "make_window (Fin 300) valid_from expires_at ttl now = Inr (vf, ex)" "\<not> flt t vf" "\<not> fle ex t" "c did"
  shows "\<exists>r. verify_authorization E (JObj obj) action (Some c) subject t = Inr r \<and> z_ok r"
proof -
  from assms(4,5) have obj: "sign_payload E seed [(''type'', JStr AUTHORIZATION_TYPE),
      (''action_hash'', JStr (action_hash E action)), (''subject'', JStr subject),
      (''valid_from'', JFloat vf), (''expires_at'', JFloat ex)] = Inr obj"
    by (simp add: create_authorization_def)
  note f = sign_payload_fields [OF obj]
  have fields: "pget obj ''type'' = JStr AUTHORIZATION_TYPE" "pget obj ''action_hash'' = JStr (action_hash E action)"
    "pget obj ''subject'' = JStr subject" "pget obj ''valid_from'' = JFloat vf" "pget obj ''expires_at'' = JFloat ex"
    by (simp_all add: f pget_def)
  have "verify_payload E (JObj obj) (Some c) = (True, Some did)"
    using verify_payload_signed [OF assms(1,2) obj assms(3), of "Some c"] assms(8) by simp
  moreover have "read_window E obj t = Inr (Some (False, False))"
    using assms(6,7) fields by (simp add: read_window_def)
  ultimately show ?thesis by (simp add: verify_authorization_def fields Let_def)
qed

text \<open>C31 A signed authorization whose \<^verbatim>\<open>expires_at\<close> is NaN never lapses: NaN passes the number check and
  every comparison with it is false, so the token is accepted at every time from
  \<^verbatim>\<open>valid_from\<close> on, however late.\<close>

theorem NaN_authorization_never_expires:
  assumes "crypto_ok E" "length seed = 32" "identity_did E seed = Inr did" "c did"
    and "create_authorization E seed action subject (Some (Fin vf)) (Some NaN) ttl now = Inr obj" "vf \<le> t"
  shows "\<exists>r. verify_authorization E (JObj obj) action (Some c) subject (Fin t) = Inr r \<and> z_ok r"
  using assms by (intro authorization_verifies [of E seed did]) (auto simp: make_window_def)

definition ref_intent :: intent_contract where
  "ref_intent = \<lparr>i_purpose = [], i_rollback = [], i_irreversible = False, i_requires_present = []\<rparr>"

definition ref_action :: "string \<Rightarrow> bool \<Rightarrow> planned_action" where
  "ref_action kind risky =
     \<lparr>a_kind = kind, a_target_id = ''t'', a_target_role = [], a_target_name = [], a_text = ''x'',
      a_high_risk = risky, a_generation = 0, a_expected_observation = [], a_estimated_cost = Fin 1,
      a_intent = ref_intent\<rparr>"

lemma ref_token:
  assumes "make_window (Fin 300) vf ex None (Fin 0) = Inr w"
  shows "\<exists>obj. create_authorization ref_env (ref_seed (CHR ''o'')) action subject vf ex None (Fin 0) = Inr obj"
  using assms by (cases w) (simp add: create_authorization_def sign_payload_def has_envelope_def dkeys_def Let_def)

theorem NaN_authorization_never_expires_witness:
  "\<exists>obj r. verify_authorization ref_env (JObj obj) (ref_action ''delete'' True) (Some allow_any) ''n'' (Fin (10 ^ 100)) = Inr r \<and> z_ok r"
proof -
  obtain obj where obj: "create_authorization ref_env (ref_seed (CHR ''o'')) (ref_action ''delete'' True) ''n'' (Some (Fin 0)) (Some NaN) None (Fin 0) = Inr obj"
    using ref_token [of "Some (Fin 0)" "Some NaN" "(Fin 0, NaN)"] by (force simp: make_window_def)
  from NaN_authorization_never_expires [OF ref_env_crypto length_ref_seed ref_did_identity _ obj, of allow_any "10 ^ 100"]
  show ?thesis by (auto simp: allow_any_def)
qed

lemma ref_authorized:
  obtains obj r where "verify_authorization ref_env (JObj obj) (ref_action ''delete'' True) (Some allow_any) ''n'' (Fin 5) = Inr r" "z_ok r"
proof -
  obtain obj where obj: "create_authorization ref_env (ref_seed (CHR ''o'')) (ref_action ''delete'' True) ''n'' None None None (Fin 0) = Inr obj"
    using ref_token [of None None "(Fin 0, Fin 300)"] by (force simp: make_window_def)
  have "\<exists>r. verify_authorization ref_env (JObj obj) (ref_action ''delete'' True) (Some allow_any) ''n'' (Fin 5) = Inr r \<and> z_ok r"
    by (rule authorization_verifies [OF ref_env_crypto length_ref_seed ref_did_identity obj, of "Fin 0" "Fin 300"])
      (simp_all add: make_window_def allow_any_def)
  with that show ?thesis by blast
qed

theorem authorization_binds_action_witness:
  "\<exists>token r. verify_authorization ref_env token (ref_action ''delete'' True) (Some allow_any) ''n'' (Fin 5) = Inr r \<and> z_ok r \<and>
     (\<forall>r'. verify_authorization ref_env token (ref_action ''run'' True) (Some allow_any) ''n'' (Fin 5) = Inr r' \<longrightarrow> \<not> z_ok r')"
proof -
  obtain obj r where r: "verify_authorization ref_env (JObj obj) (ref_action ''delete'' True) (Some allow_any) ''n'' (Fin 5) = Inr r" "z_ok r"
    by (rule ref_authorized)
  have "action_body (ref_action ''delete'' True) \<noteq> action_body (ref_action ''run'' True)"
    by (simp add: action_body_def ref_action_def)
  with authorization_binds_action [OF ref_env_float ref_env_sha(1) r] r show ?thesis by blast
qed

end
