(* ===== verification/Socratic.thy ===== *)
theory Socratic
  imports Json
begin

text \<open>
  \<^verbatim>\<open>citadel/socratic.py\<close>: the review of an instruction's wording. What the regular expressions
  find in a text is a parameter (\<open>lexicon\<close>: one field per compiled pattern, the interval pattern
  with its number and unit groups, the step pattern with its count); how the checks combine what is
  found is modelled as written.
\<close>

record lexicon =
  lx_mutating :: "string \<Rightarrow> bool"
  lx_read_only :: "string \<Rightarrow> bool"
  lx_tight_interval :: "string \<Rightarrow> (string option \<times> string) option"
  lx_busy_loop :: "string \<Rightarrow> bool"
  lx_publish_verb :: "string \<Rightarrow> bool"
  lx_unattended :: "string \<Rightarrow> bool"
  lx_steps :: "string \<Rightarrow> nat"

record review =
  v_verdict :: string
  v_reasons :: "string list"
  v_suggestion :: string

datatype opinion = NoOpinion | Reason string | Suggest string string

fun contains_sub :: "string \<Rightarrow> string \<Rightarrow> bool" where
  "contains_sub [] p = (p = [])"
| "contains_sub (c # cs) p = (starts_with (c # cs) p \<or> contains_sub cs p)"

definition char_second :: string where
  "char_second = [CHR 0xE7, CHR 0xA7, CHR 0x92]"

definition char_millisecond :: string where
  "char_millisecond = [CHR 0xE6, CHR 0xAF, CHR 0xAB] @ char_second"

definition check_empty :: "string \<Rightarrow> opinion" where
  "check_empty t =
     (if strip t = [] then Suggest ''empty instruction: nothing actionable'' ''State a concrete goal.''
      else NoOpinion)"

definition check_contradiction :: "lexicon \<Rightarrow> string \<Rightarrow> opinion" where
  "check_contradiction X t =
     (if lx_read_only X t \<and> lx_mutating X t then
        Suggest ''self-contradiction: asserts read-only yet asks for a state change''
          ''Split it: keep the read-only inspection separate from any change, and confirm the change explicitly.''
      else NoOpinion)"

definition tight_interval :: "lexicon \<Rightarrow> string \<Rightarrow> bool" where
  "tight_interval X t =
     (case lx_tight_interval X t of
        None \<Rightarrow> False
      | Some (None, unit) \<Rightarrow> False
      | Some (Some num, unit) \<Rightarrow>
          let n = dec_val num;
              is_ms = contains_sub unit ''ms'' \<or> contains_sub unit char_millisecond;
              is_seconds = contains_sub unit char_second \<or> unit \<in> {''second'', ''sec'', ''s''}
          in is_ms \<or> (is_seconds \<and> n \<le> 5))"

definition check_polling :: "lexicon \<Rightarrow> string \<Rightarrow> opinion" where
  "check_polling X t =
     (if tight_interval X t \<or> lx_busy_loop X t then
        Suggest ''inefficient polling: a tight/endless poll wastes cycles''
          ''Prefer an event-driven trigger, or exponential backoff, over a fixed short interval.''
      else NoOpinion)"

definition unattended_reason :: string where
  "unattended_reason =
     ''unattended posting/sending: publishing or sending content on the user's behalf without a human in the loop''"

definition check_unattended_posting :: "lexicon \<Rightarrow> string \<Rightarrow> opinion" where
  "check_unattended_posting X t =
     (if lx_publish_verb X t \<and> lx_unattended X t then
        Suggest unattended_reason
          ''Real-world posting/sending should go through explicit human confirmation, not run unattended.''
      else NoOpinion)"

definition check_overlong :: "lexicon \<Rightarrow> string \<Rightarrow> opinion" where
  "check_overlong X t =
     (if 600 < str_len t \<or> 6 < lx_steps X t then
        Suggest ''overlong / unstructured: many steps in one instruction''
          ''Decompose into a few named sub-goals with dependencies (a goal DAG).''
      else NoOpinion)"

fun normalize :: "opinion \<Rightarrow> (string \<times> string) option" where
  "normalize NoOpinion = None"
| "normalize (Reason r) = Some (r, '''')"
| "normalize (Suggest r s) = Some (r, s)"

fun review_loop :: "(string \<Rightarrow> opinion) list \<Rightarrow> string \<Rightarrow> string list \<Rightarrow> string list \<Rightarrow> string list \<times> string list" where
  "review_loop [] t reasons suggestions = (reasons, suggestions)"
| "review_loop (check # checks) t reasons suggestions =
     (case normalize (check t) of
        None \<Rightarrow> review_loop checks t reasons suggestions
      | Some (reason, suggestion) \<Rightarrow>
          review_loop checks t (reasons @ [reason])
            (if suggestion \<noteq> [] then suggestions @ [suggestion] else suggestions))"

definition review_checks :: "lexicon \<Rightarrow> (string \<Rightarrow> opinion) list \<Rightarrow> (string \<Rightarrow> opinion) list" where
  "review_checks X extra_checks =
     [check_empty, check_contradiction X, check_unattended_posting X, check_polling X, check_overlong X] @ extra_checks"

definition review_instruction :: "lexicon \<Rightarrow> (string \<Rightarrow> opinion) list \<Rightarrow> string \<Rightarrow> review" where
  "review_instruction X extra_checks instruction =
     (let (reasons, suggestions) = review_loop (review_checks X extra_checks) instruction [] []
      in if reasons \<noteq> []
         then \<lparr>v_verdict = ''revise'', v_reasons = reasons, v_suggestion = join '' '' suggestions\<rparr>
         else \<lparr>v_verdict = ''accept'', v_reasons = [], v_suggestion = ''''\<rparr>)"

section \<open>What a review says\<close>

lemma review_loop_reasons:
  "fst (review_loop checks t rs ss) = rs @ map fst (List.map_filter (\<lambda>c. normalize (c t)) checks)"
  by (induction checks arbitrary: rs ss) (auto simp: List.map_filter_def split: option.splits)

lemma review_reasons:
  "v_reasons (review_instruction X extra t) = map fst (List.map_filter (\<lambda>c. normalize (c t)) (review_checks X extra))"
  using review_loop_reasons [of "review_checks X extra" t "[]" "[]"]
  by (auto simp: review_instruction_def Let_def split: prod.splits)

lemma review_flags_unattended:
  "unattended_reason \<in> set (v_reasons (review_instruction X [] t)) \<longleftrightarrow> lx_publish_verb X t \<and> lx_unattended X t"
  by (simp add: review_reasons review_checks_def List.map_filter_def check_unattended_posting_def check_empty_def
      check_contradiction_def check_polling_def check_overlong_def unattended_reason_def)

text \<open>C32 An instruction to poll every \<open>n\<close> \<^verbatim>\<open>millisecond\<close> is not flagged as a tight poll for any \<open>n\<close>: the
  interval pattern finds the word, but the unit test asks for the letters \<^verbatim>\<open>ms\<close> in a row.\<close>

theorem millisecond_poll_not_flagged:
  assumes "lx_tight_interval X t = Some (Some num, ''millisecond'')" "\<not> lx_busy_loop X t"
  shows "check_polling X t = NoOpinion"
  using assms by (simp add: check_polling_def tight_interval_def char_second_def char_millisecond_def)

definition ref_lexicon :: lexicon where
  "ref_lexicon = \<lparr>lx_mutating = (\<lambda>_. False), lx_read_only = (\<lambda>_. False),
     lx_tight_interval = (\<lambda>t. if t = ''every 1 millisecond'' then Some (Some ''1'', ''millisecond'') else None),
     lx_busy_loop = (\<lambda>_. False), lx_publish_verb = (\<lambda>t. contains_sub t ''post''),
     lx_unattended = (\<lambda>t. contains_sub t ''silently''), lx_steps = (\<lambda>_. 0)\<rparr>"

theorem millisecond_poll_not_flagged_witness:
  "check_polling ref_lexicon ''every 1 millisecond'' = NoOpinion"
  by (rule millisecond_poll_not_flagged [of _ _ "''1''"]) (simp_all add: ref_lexicon_def)

end
