(* ===== verification/Action_Gate.thy ===== *)
theory Action_Gate
  imports Authz Capability Socratic
begin

text \<open>
  \<^verbatim>\<open>citadel/action_gate.py\<close>: the fifteen checks a proposed action passes, each one as written,
  and \<^verbatim>\<open>gate\<close>, which collects their findings and answers with the strictest verdict.

  The safety results: an allowed destructive action carries a valid operator token when the gate
  enforces them, an allowed action is within the granted scopes when it enforces those, a rewrite
  never changes what the action does, and memory only ever makes the verdict stricter.
\<close>

section \<open>Data\<close>

datatype verdict = ALLOW | REWRITE | REJECT | REQUEST_REOBSERVE

fun verdict_str :: "verdict \<Rightarrow> string" where
  "verdict_str ALLOW = ''allow''"
| "verdict_str REJECT = ''reject''"
| "verdict_str REWRITE = ''rewrite''"
| "verdict_str REQUEST_REOBSERVE = ''request_reobserve''"

datatype finding_kind =
    STALE_TARGET | TARGET_MISMATCH | NO_OP | REPEATED | POLLING | DESTRUCTIVE_CHAIN
  | MISSING_VERIFICATION | EXCESSIVE_COST | OUT_OF_CAPABILITY | UNATTENDED_POSTING
  | UNAUTHORIZED_ACTION | INTENT_UNPROVEN | INTENT_CONTRADICTION | PRECONDITION_FAILED | KNOWN_FAILURE

definition read_kinds :: "string list" where
  "read_kinds = [''read'', ''observe'', ''get'', ''inspect'', ''screenshot'', ''wait'', ''poll'']"

definition posting_kinds :: "string list" where
  "posting_kinds = [''post'', ''publish'', ''submit'', ''send'', ''reply'', ''comment'', ''tweet'', ''dm'']"

definition destructive_kinds :: "string list" where
  "destructive_kinds = [''delete'', ''overwrite'', ''format'', ''drop'', ''uninstall'', ''run_elevated'']"

definition capability_for :: "(string, string) dict" where
  "capability_for =
     [(''click'', ''physical.click''), (''press'', ''physical.click''), (''type'', ''physical.type''),
      (''key'', ''physical.key''), (''scroll'', ''physical.scroll''), (''drag'', ''physical.drag''),
      (''open'', ''system.open''), (''run'', ''process.run''), (''run_elevated'', ''process.run_elevated''),
      (''post'', ''network.post''), (''publish'', ''network.post''), (''submit'', ''network.post''),
      (''send'', ''network.send''), (''reply'', ''network.send''), (''comment'', ''network.post''),
      (''read'', ''observe.read''), (''observe'', ''observe.read'')]"

definition mutating :: "planned_action \<Rightarrow> bool" where
  "mutating a \<longleftrightarrow> a_kind a \<notin> set read_kinds"

definition destructive :: "planned_action \<Rightarrow> bool" where
  "destructive a \<longleftrightarrow> a_high_risk a \<or> a_kind a \<in> set destructive_kinds"

definition signature :: "planned_action \<Rightarrow> string \<times> string \<times> string" where
  "signature a = (a_kind a, a_target_id a, a_text a)"

text \<open>\<open>g_now\<close> is the time the token is checked at: \<^verbatim>\<open>ctx.now\<close>, or the clock when that is None.\<close>

record gate_context =
  g_current_generation :: int
  g_target_present_ids :: "string set"
  g_recent_actions :: "planned_action list"
  g_capabilities :: "string set"
  g_enforce_capabilities :: bool
  g_cost_budget :: pyfloat
  g_requires_verification :: bool
  g_instruction :: string
  g_poll_window :: int
  g_repeat_threshold :: int
  g_require_authorization :: bool
  g_authorization :: json
  g_operators :: "trust option"
  g_subject_did :: string
  g_now :: pyfloat
  g_require_intent :: bool
  g_active_goal_ids :: "string set"
  g_known_failures :: "string set"

record finding =
  f_kind :: finding_kind
  f_detail :: string
  f_verdict :: verdict
  f_risk :: rat

record gate_decision =
  d_verdict :: verdict
  d_reason :: string
  d_findings :: "finding_kind list"
  d_replacement :: "planned_action option"
  d_risk :: rat
  d_estimated_cost :: pyfloat
  d_expected_observation :: string

definition mk_finding :: "finding_kind \<Rightarrow> string \<Rightarrow> verdict \<Rightarrow> rat \<Rightarrow> finding option" where
  "mk_finding k detail v risk = Some \<lparr>f_kind = k, f_detail = detail, f_verdict = v, f_risk = risk\<rparr>"

section \<open>The checks\<close>

definition check_stale_target :: "planned_action \<Rightarrow> gate_context \<Rightarrow> finding option" where
  "check_stale_target a ctx =
     (if a_generation a \<noteq> 0 \<and> g_current_generation ctx \<noteq> 0 \<and> a_generation a \<noteq> g_current_generation ctx
      then mk_finding STALE_TARGET
        (''decided at generation '' @ int_str (a_generation a) @ '', current is '' @ int_str (g_current_generation ctx))
        REQUEST_REOBSERVE (6 / 10)
      else None)"

definition check_target_present :: "env \<Rightarrow> planned_action \<Rightarrow> gate_context \<Rightarrow> finding option" where
  "check_target_present E a ctx =
     (if a_target_id a \<noteq> [] \<and> g_target_present_ids ctx \<noteq> {} \<and> a_target_id a \<notin> g_target_present_ids ctx
      then mk_finding TARGET_MISMATCH
        (''target '' @ str_repr E (a_target_id a) @ '' is not in the current observation'')
        REQUEST_REOBSERVE (6 / 10)
      else None)"

definition check_no_op :: "planned_action \<Rightarrow> gate_context \<Rightarrow> finding option" where
  "check_no_op a ctx =
     (if g_recent_actions ctx \<noteq> [] \<and> signature (last (g_recent_actions ctx)) = signature a \<and> mutating a
      then mk_finding NO_OP ''identical to the action just taken -- likely a no-op repeat'' REJECT (2 / 10)
      else None)"

definition check_repeated :: "planned_action \<Rightarrow> gate_context \<Rightarrow> finding option" where
  "check_repeated a ctx =
     (let same = int (length (filter (\<lambda>r. signature r = signature a) (g_recent_actions ctx)))
      in if g_repeat_threshold ctx \<le> same
         then mk_finding REPEATED
           (''the same action has already run '' @ int_str same @ ''x -- fix the cause, don't loop'')
           REJECT (4 / 10)
         else None)"

definition check_gate_polling :: "planned_action \<Rightarrow> gate_context \<Rightarrow> finding option" where
  "check_gate_polling a ctx =
     (if a_kind a \<notin> set read_kinds then None
      else let rs = g_recent_actions ctx;
               n = nat (g_poll_window ctx - 1);
               window = (if 1 < g_poll_window ctx then drop (length rs - n) rs else [])
           in if g_poll_window ctx - 1 \<le> int (length window) \<and> window \<noteq> [] \<and>
                 list_all (\<lambda>r. a_kind r \<in> set read_kinds) window
              then mk_finding POLLING
                (int_str (g_poll_window ctx) @ '' observe-only actions in a row with no change between -- busy-poll'')
                REJECT (3 / 10)
              else None)"

definition check_destructive_chain :: "planned_action \<Rightarrow> gate_context \<Rightarrow> finding option" where
  "check_destructive_chain a ctx =
     (if destructive a \<and> g_recent_actions ctx \<noteq> [] \<and> destructive (last (g_recent_actions ctx))
      then mk_finding DESTRUCTIVE_CHAIN
        ''a destructive action chained onto another with no verification between'' REJECT (9 / 10)
      else None)"

definition check_missing_verification :: "planned_action \<Rightarrow> gate_context \<Rightarrow> finding option" where
  "check_missing_verification a ctx =
     (if g_requires_verification ctx \<and> mutating a \<and> strip (a_expected_observation a) = []
      then mk_finding MISSING_VERIFICATION
        ''a mutating action with no declared expected observation to verify against'' REWRITE (3 / 10)
      else None)"

definition check_excessive_cost :: "env \<Rightarrow> planned_action \<Rightarrow> gate_context \<Rightarrow> finding option" where
  "check_excessive_cost E a ctx =
     (if flt (Fin 0) (g_cost_budget ctx) \<and> flt (g_cost_budget ctx) (a_estimated_cost a)
      then mk_finding EXCESSIVE_COST
        (''estimated cost '' @ py_str E (JFloat (a_estimated_cost a)) @ '' exceeds budget '' @
         py_str E (JFloat (g_cost_budget ctx))) REJECT (3 / 10)
      else None)"

definition check_capability :: "env \<Rightarrow> planned_action \<Rightarrow> gate_context \<Rightarrow> finding option" where
  "check_capability E a ctx =
     (if \<not> (g_enforce_capabilities ctx \<or> g_capabilities ctx \<noteq> {}) then None
      else case map_of capability_for (a_kind a) of
        None \<Rightarrow>
          if \<not> mutating a then None
          else mk_finding OUT_OF_CAPABILITY
            (''action '' @ str_repr E (a_kind a) @ '' has no capability scope; it is refused while capabilities are enforced'')
            REJECT (7 / 10)
      | Some required \<Rightarrow>
          if \<not> allows (g_capabilities ctx) required
          then mk_finding OUT_OF_CAPABILITY
            (''action '' @ str_repr E (a_kind a) @ '' needs capability '' @ str_repr E required @ '', which was not granted'')
            REJECT (7 / 10)
          else None)"

definition check_gate_unattended_posting :: "lexicon \<Rightarrow> planned_action \<Rightarrow> gate_context \<Rightarrow> finding option" where
  "check_gate_unattended_posting X a ctx =
     (if a_kind a \<notin> set posting_kinds \<or> strip (g_instruction ctx) = [] then None
      else if list_ex (\<lambda>r. starts_with r ''unattended posting'') (v_reasons (review_instruction X [] (g_instruction ctx)))
      then mk_finding UNATTENDED_POSTING
        ''the instruction asks to post/send unattended -- real-world posting needs a human'' REJECT (9 / 10)
      else None)"

definition check_intent_unproven :: "planned_action \<Rightarrow> gate_context \<Rightarrow> finding option" where
  "check_intent_unproven a ctx =
     (if \<not> g_require_intent ctx \<or> \<not> mutating a then None
      else let missing =
             (if strip (i_purpose (a_intent a)) = [] then [''its purpose (which goal it serves)''] else []) @
             (if destructive a \<and> strip (i_rollback (a_intent a)) = [] \<and> \<not> i_irreversible (a_intent a)
              then [''a rollback path, or an explicit irreversible acknowledgment''] else [])
           in if missing = [] then None
              else mk_finding INTENT_UNPROVEN (''intent not stated: '' @ join ''; '' missing) REJECT (5 / 10))"

definition check_intent_contradiction :: "env \<Rightarrow> planned_action \<Rightarrow> gate_context \<Rightarrow> finding option" where
  "check_intent_contradiction E a ctx =
     (let purpose = strip (i_purpose (a_intent a));
          problems =
            (if i_irreversible (a_intent a) \<and> strip (i_rollback (a_intent a)) \<noteq> []
             then [''declared irreversible yet claims a rollback''] else []) @
            (if purpose \<noteq> [] \<and> g_active_goal_ids ctx \<noteq> {} \<and> purpose \<notin> g_active_goal_ids ctx
             then [''serves '' @ str_repr E purpose @ '', which is not an active goal''] else [])
      in if problems = [] then None
         else mk_finding INTENT_CONTRADICTION (''intent contradicts itself: '' @ join ''; '' problems) REJECT (6 / 10))"

definition check_preconditions :: "env \<Rightarrow> planned_action \<Rightarrow> gate_context \<Rightarrow> finding option" where
  "check_preconditions E a ctx =
     (if i_requires_present (a_intent a) = [] \<or> g_target_present_ids ctx = {} then None
      else let missing = filter (\<lambda>t. t \<notin> g_target_present_ids ctx) (i_requires_present (a_intent a))
           in if missing = [] then None
              else mk_finding PRECONDITION_FAILED
                (''precondition not met: ['' @ join '', '' (map (str_repr E) missing) @ ''] not in the current observation'')
                REQUEST_REOBSERVE (5 / 10))"

definition check_known_failure :: "env \<Rightarrow> planned_action \<Rightarrow> gate_context \<Rightarrow> finding option" where
  "check_known_failure E a ctx =
     (if g_known_failures ctx = {} \<or> action_hash E a \<notin> g_known_failures ctx then None
      else mk_finding KNOWN_FAILURE
        ''this exact action failed repeatedly in earlier runs -- fix the cause, don't retry it'' REJECT (6 / 10))"

definition check_authorization :: "env \<Rightarrow> planned_action \<Rightarrow> gate_context \<Rightarrow> finding option res" where
  "check_authorization E a ctx =
     (if \<not> g_require_authorization ctx \<or> \<not> destructive a then Inr None
      else rbind (verify_authorization E (g_authorization ctx) a (g_operators ctx) (g_subject_did ctx) (g_now ctx)) (\<lambda>res.
        if z_ok res then Inr None
        else Inr (mk_finding UNAUTHORIZED_ACTION
          (''destructive action needs an operator-signed authorization: '' @
           (case z_reason res of Some r \<Rightarrow> r | None \<Rightarrow> ''None'')) REJECT 1)))"

section \<open>The gate\<close>

fun precedence :: "verdict \<Rightarrow> nat" where
  "precedence REQUEST_REOBSERVE = 3"
| "precedence REJECT = 2"
| "precedence REWRITE = 1"
| "precedence ALLOW = 0"

text \<open>\<^verbatim>\<open>max(..., key=...)\<close>: the first element of the largest key.\<close>

fun max_verdict :: "verdict list \<Rightarrow> verdict" where
  "max_verdict [] = ALLOW"
| "max_verdict [v] = v"
| "max_verdict (v # w # vs) = (if precedence v < precedence w then max_verdict (w # vs) else max_verdict (v # vs))"

fun max_rat :: "rat list \<Rightarrow> rat" where
  "max_rat [] = 0"
| "max_rat [q] = q"
| "max_rat (p # q # qs) = max_rat (max p q # qs)"

definition pure_checks :: "env \<Rightarrow> lexicon \<Rightarrow> planned_action \<Rightarrow> gate_context \<Rightarrow> finding option list" where
  "pure_checks E X a ctx =
     [check_stale_target a ctx, check_target_present E a ctx, check_no_op a ctx, check_repeated a ctx,
      check_gate_polling a ctx, check_destructive_chain a ctx, check_missing_verification a ctx,
      check_excessive_cost E a ctx, check_capability E a ctx, check_gate_unattended_posting X a ctx,
      check_intent_unproven a ctx, check_intent_contradiction E a ctx, check_preconditions E a ctx,
      check_known_failure E a ctx]"

definition gate_findings :: "env \<Rightarrow> lexicon \<Rightarrow> planned_action \<Rightarrow> gate_context \<Rightarrow> finding list res" where
  "gate_findings E X a ctx =
     rbind (check_authorization E a ctx) (\<lambda>z. Inr (List.map_filter id (pure_checks E X a ctx @ [z])))"

definition verification_text :: string where
  "verification_text =
     ''the targeted UI visibly changes; verify by re-observation / pixel-diff before treating this action as done''"

definition gate :: "env \<Rightarrow> lexicon \<Rightarrow> planned_action \<Rightarrow> gate_context \<Rightarrow> gate_decision res" where
  "gate E X action ctx =
     rbind (gate_findings E X action ctx) (\<lambda>findings.
       if findings = [] then
         Inr \<lparr>d_verdict = ALLOW, d_reason = '''', d_findings = [], d_replacement = None, d_risk = 0,
              d_estimated_cost = a_estimated_cost action, d_expected_observation = a_expected_observation action\<rparr>
       else
         let verdict = max_verdict (map f_verdict findings);
             rewrite = (verdict = REWRITE \<and> list_ex (\<lambda>f. f_kind f = MISSING_VERIFICATION) findings \<and>
                        strip (a_expected_observation action) = []);
             expected = (if rewrite then verification_text else a_expected_observation action)
         in Inr \<lparr>d_verdict = verdict, d_reason = join ''; '' (map f_detail findings),
                 d_findings = map f_kind findings,
                 d_replacement = (if rewrite then Some (action\<lparr>a_expected_observation := expected\<rparr>) else None),
                 d_risk = max_rat (map f_risk findings),
                 d_estimated_cost = a_estimated_cost action, d_expected_observation = expected\<rparr>)"

text \<open>The body \<^verbatim>\<open>record_gate_decision\<close> appends to the journal under the kind \<^verbatim>\<open>action-gate\<close>.\<close>

fun kind_str :: "finding_kind \<Rightarrow> string" where
  "kind_str STALE_TARGET = ''stale-target''"
| "kind_str TARGET_MISMATCH = ''target-mismatch''"
| "kind_str NO_OP = ''no-op''"
| "kind_str REPEATED = ''repeated''"
| "kind_str POLLING = ''polling''"
| "kind_str DESTRUCTIVE_CHAIN = ''destructive-chain''"
| "kind_str MISSING_VERIFICATION = ''missing-verification''"
| "kind_str EXCESSIVE_COST = ''excessive-cost''"
| "kind_str OUT_OF_CAPABILITY = ''out-of-capability''"
| "kind_str UNATTENDED_POSTING = ''unattended-posting''"
| "kind_str UNAUTHORIZED_ACTION = ''unauthorized-action''"
| "kind_str INTENT_UNPROVEN = ''intent-unproven''"
| "kind_str INTENT_CONTRADICTION = ''intent-contradiction''"
| "kind_str PRECONDITION_FAILED = ''precondition-failed''"
| "kind_str KNOWN_FAILURE = ''known-failure''"

definition gate_decision_body :: "planned_action \<Rightarrow> gate_decision \<Rightarrow> json" where
  "gate_decision_body a d =
     JObj [(''action'', JObj [(''kind'', JStr (a_kind a)), (''target_id'', JStr (a_target_id a)),
              (''text'', JStr (a_text a)), (''high_risk'', JBool (a_high_risk a)), (''generation'', JInt (a_generation a))]),
           (''verdict'', JStr (verdict_str (d_verdict d))),
           (''findings'', JList (map (JStr \<circ> kind_str) (d_findings d))),
           (''reason'', JStr (d_reason d)),
           (''risk'', JFloat (Fin (d_risk d)))]"

section \<open>The verdict\<close>

lemmas check_defs =
  check_stale_target_def check_target_present_def check_no_op_def check_repeated_def check_gate_polling_def
  check_destructive_chain_def check_excessive_cost_def check_gate_unattended_posting_def
  check_intent_unproven_def check_intent_contradiction_def check_preconditions_def check_known_failure_def
  mk_finding_def Let_def

lemma finding_Some [simp]:
  "mk_finding k t v q \<noteq> None" "mk_finding k t v q = Some f \<longleftrightarrow> f = \<lparr>f_kind = k, f_detail = t, f_verdict = v, f_risk = q\<rparr>"
  by (auto simp: mk_finding_def)

text \<open>Every check but one asks for a rejection or a new observation; the missing verification asks for a
  rewrite; none allows.\<close>

lemma pure_check_verdicts:
  assumes "Some f \<in> set (pure_checks E X a ctx)"
  shows "f_verdict f = REJECT \<or> f_verdict f = REQUEST_REOBSERVE \<or>
    (f_kind f = MISSING_VERIFICATION \<and> f_verdict f = REWRITE)"
proof -
  have 1: "check_capability E a ctx = Some f \<Longrightarrow> f_verdict f = REJECT" for f
    by (auto simp: check_capability_def split: if_splits option.splits)
  have 2: "check_missing_verification a ctx = Some f \<Longrightarrow> f_kind f = MISSING_VERIFICATION \<and> f_verdict f = REWRITE" for f
    by (auto simp: check_missing_verification_def split: if_splits)
  have 3: "Some f \<in> {check_stale_target a ctx, check_target_present E a ctx, check_no_op a ctx, check_repeated a ctx,
      check_gate_polling a ctx, check_destructive_chain a ctx, check_excessive_cost E a ctx,
      check_gate_unattended_posting X a ctx, check_intent_unproven a ctx, check_intent_contradiction E a ctx,
      check_preconditions E a ctx, check_known_failure E a ctx} \<Longrightarrow> f_verdict f = REJECT \<or> f_verdict f = REQUEST_REOBSERVE" for f
    unfolding insert_iff empty_iff
    by (elim disjE) (simp_all add: check_defs split: if_splits)
  from assms have "check_capability E a ctx = Some f \<or> check_missing_verification a ctx = Some f \<or>
    Some f \<in> {check_stale_target a ctx, check_target_present E a ctx, check_no_op a ctx, check_repeated a ctx,
      check_gate_polling a ctx, check_destructive_chain a ctx, check_excessive_cost E a ctx,
      check_gate_unattended_posting X a ctx, check_intent_unproven a ctx, check_intent_contradiction E a ctx,
      check_preconditions E a ctx, check_known_failure E a ctx}"
    unfolding pure_checks_def list.set insert_iff empty_iff by metis
  then show ?thesis using 1 2 3 by metis
qed

lemma set_map_filter_id: "set (List.map_filter id xs) = {f. Some f \<in> set xs}"
  by (induction xs) (auto simp: List.map_filter_def split: option.splits)

lemma set_findings:
  assumes "gate_findings E X a ctx = Inr fs"
  shows "\<exists>z. check_authorization E a ctx = Inr z \<and> set fs = {f. Some f \<in> set (pure_checks E X a ctx) \<or> z = Some f}"
proof -
  from assms obtain z where z: "check_authorization E a ctx = Inr z"
    "fs = List.map_filter id (pure_checks E X a ctx @ [z])"
    by (auto simp: gate_findings_def rbind_Inr_iff)
  have "set fs = {f. Some f \<in> set (pure_checks E X a ctx) \<or> z = Some f}"
    unfolding z(2) set_map_filter_id by auto
  with z(1) show ?thesis by blast
qed

lemma check_authorization_reject: "check_authorization E a ctx = Inr (Some f) \<Longrightarrow> f_verdict f = REJECT"
  by (auto simp: check_authorization_def rbind_Inr_iff split: if_splits)

lemma finding_verdicts:
  assumes "gate_findings E X a ctx = Inr fs" "f \<in> set fs"
  shows "f_verdict f = REJECT \<or> f_verdict f = REQUEST_REOBSERVE \<or> (f_kind f = MISSING_VERIFICATION \<and> f_verdict f = REWRITE)"
  using set_findings [OF assms(1)] assms(2) pure_check_verdicts check_authorization_reject by blast

lemma max_verdict_in: "vs \<noteq> [] \<Longrightarrow> max_verdict vs \<in> set vs"
  by (induction vs rule: max_verdict.induct) auto

lemma max_verdict_ge: "v \<in> set vs \<Longrightarrow> precedence v \<le> precedence (max_verdict vs)"
  by (induction vs arbitrary: v rule: max_verdict.induct) (auto, fastforce+)

lemma max_verdict_mono: "set vs \<subseteq> set ws \<Longrightarrow> precedence (max_verdict vs) \<le> precedence (max_verdict ws)"
  using max_verdict_in [of vs] max_verdict_ge [of "max_verdict vs" ws] by (cases "vs = []") auto

lemma gate_verdict:
  assumes "gate E X a ctx = Inr d"
  obtains fs where "gate_findings E X a ctx = Inr fs" "d_verdict d = max_verdict (map f_verdict fs)"
    "d_findings d = map f_kind fs"
  using assms by (auto simp: gate_def rbind_Inr_iff Let_def split: if_splits)

lemma gate_passes:
  assumes "gate E X a ctx = Inr d" "d_verdict d = ALLOW \<or> d_verdict d = REWRITE"
  shows "check_authorization E a ctx = Inr None" "check_capability E a ctx = None" "check_known_failure E a ctx = None"
    "check_destructive_chain a ctx = None" "check_gate_unattended_posting X a ctx = None" "check_intent_unproven a ctx = None"
proof -
  obtain fs where fs: "gate_findings E X a ctx = Inr fs" "d_verdict d = max_verdict (map f_verdict fs)"
    by (rule gate_verdict [OF assms(1)])
  have no: "f_verdict f \<noteq> REJECT \<and> f_verdict f \<noteq> REQUEST_REOBSERVE" if "f \<in> set fs" for f
    using max_verdict_ge [of "f_verdict f" "map f_verdict fs"] that assms(2) fs(2) by auto
  obtain z where z: "check_authorization E a ctx = Inr z"
    "set fs = {f. Some f \<in> set (pure_checks E X a ctx) \<or> z = Some f}"
    using set_findings [OF fs(1)] by blast
  with no check_authorization_reject [of E a ctx] show "check_authorization E a ctx = Inr None"
    by (cases z) auto
  have none: "c = None" if "c \<in> set (pure_checks E X a ctx)" "\<And>f. c = Some f \<Longrightarrow> f_verdict f = REJECT" for c
  proof (cases c)
    case (Some f)
    with that(1) have "f \<in> set fs" unfolding z(2) by simp
    from no [OF this] that(2) [OF Some] show ?thesis by simp
  qed
  have m: "check_capability E a ctx \<in> set (pure_checks E X a ctx)" "check_known_failure E a ctx \<in> set (pure_checks E X a ctx)"
    "check_destructive_chain a ctx \<in> set (pure_checks E X a ctx)"
    "check_gate_unattended_posting X a ctx \<in> set (pure_checks E X a ctx)" "check_intent_unproven a ctx \<in> set (pure_checks E X a ctx)"
    by (simp_all add: pure_checks_def)
  show "check_capability E a ctx = None"
    using m(1) by (rule none) (auto simp: check_capability_def split: if_splits option.splits)
  show "check_known_failure E a ctx = None"
    using m(2) by (rule none) (auto simp: check_known_failure_def split: if_splits)
  show "check_destructive_chain a ctx = None"
    using m(3) by (rule none) (auto simp: check_destructive_chain_def split: if_splits)
  show "check_gate_unattended_posting X a ctx = None"
    using m(4) by (rule none) (auto simp: check_gate_unattended_posting_def split: if_splits)
  show "check_intent_unproven a ctx = None"
    using m(5) by (rule none) (auto simp: check_intent_unproven_def Let_def split: if_splits)
qed

section \<open>Properties\<close>

text \<open>C11 Gate 2 cannot be passed without the operator: when authorization is required, a destructive action
  that the gate allows (or only rewrites) carries a token that verifies now, for this very action and
  this node, signed by a DID the operator trust object contains.\<close>

theorem gate_needs_operator:
  assumes "gate E X a ctx = Inr d" "d_verdict d = ALLOW \<or> d_verdict d = REWRITE"
    and "g_require_authorization ctx" "destructive a"
  shows "\<exists>t c did. g_authorization ctx = JObj t \<and> g_operators ctx = Some c \<and> c did \<and>
    verify_payload E (JObj t) (Some c) = (True, Some did) \<and> in_window E t (g_now ctx) \<and>
    map_of t ''type'' = Some (JStr AUTHORIZATION_TYPE) \<and>
    map_of t ''action_hash'' = Some (JStr (action_hash E a)) \<and> map_of t ''subject'' = Some (JStr (g_subject_did ctx))"
proof -
  from gate_passes(1) [OF assms(1,2)] assms(3,4) obtain r where
    "verify_authorization E (g_authorization ctx) a (g_operators ctx) (g_subject_did ctx) (g_now ctx) = Inr r" "z_ok r"
    by (auto simp: check_authorization_def rbind_Inr_iff split: if_splits)
  then show ?thesis by (rule verify_authorization_okD) auto
qed

text \<open>C12 While capabilities are enforced, an action that passes the gate needs a grantable scope that was
  granted, or only observes; an elevated launch never passes, whatever was granted.\<close>

theorem gate_within_capabilities:
  assumes "gate E X a ctx = Inr d" "d_verdict d = ALLOW \<or> d_verdict d = REWRITE"
    and "g_enforce_capabilities ctx \<or> g_capabilities ctx \<noteq> {}"
  shows "((\<exists>scope. map_of capability_for (a_kind a) = Some scope \<and> scope \<in> set GRANTABLE_SCOPES \<and> scope \<in> g_capabilities ctx) \<or>
      (map_of capability_for (a_kind a) = None \<and> \<not> mutating a)) \<and> a_kind a \<noteq> ''run_elevated''"
proof -
  have c: "check_capability E a ctx = None" by (rule gate_passes(2) [OF assms(1,2)])
  then have "(\<exists>scope. map_of capability_for (a_kind a) = Some scope \<and> allows (g_capabilities ctx) scope) \<or>
      (map_of capability_for (a_kind a) = None \<and> \<not> mutating a)"
    using assms(3) by (auto simp: check_capability_def split: if_splits option.splits)
  moreover have "map_of capability_for ''run_elevated'' = Some ''process.run_elevated''"
    "''process.run_elevated'' \<notin> set GRANTABLE_SCOPES" by (simp_all add: capability_for_def GRANTABLE_SCOPES_def)
  ultimately show ?thesis by (auto simp: allows_def)
qed

text \<open>Memory only adds caution: with more known failures the verdict is at least as strict.\<close>

theorem memory_only_adds_caution:
  assumes "gate E X a ctx = Inr d" "gate E X a (ctx\<lparr>g_known_failures := K\<rparr>) = Inr d'" "g_known_failures ctx \<subseteq> K"
  shows "precedence (d_verdict d) \<le> precedence (d_verdict d')"
proof -
  let ?ctx = "ctx\<lparr>g_known_failures := K\<rparr>"
  obtain fs where fs: "gate_findings E X a ctx = Inr fs" "d_verdict d = max_verdict (map f_verdict fs)"
    by (rule gate_verdict [OF assms(1)])
  obtain fs' where fs': "gate_findings E X a ?ctx = Inr fs'" "d_verdict d' = max_verdict (map f_verdict fs')"
    by (rule gate_verdict [OF assms(2)])
  have "check_authorization E a ?ctx = check_authorization E a ctx" by (simp add: check_authorization_def)
  moreover have "Some f \<in> set (pure_checks E X a ?ctx)" if "Some f \<in> set (pure_checks E X a ctx)" for f
  proof -
    have same: "check_stale_target a ?ctx = check_stale_target a ctx" "check_target_present E a ?ctx = check_target_present E a ctx"
      "check_no_op a ?ctx = check_no_op a ctx" "check_repeated a ?ctx = check_repeated a ctx"
      "check_gate_polling a ?ctx = check_gate_polling a ctx" "check_destructive_chain a ?ctx = check_destructive_chain a ctx"
      "check_missing_verification a ?ctx = check_missing_verification a ctx" "check_excessive_cost E a ?ctx = check_excessive_cost E a ctx"
      "check_capability E a ?ctx = check_capability E a ctx" "check_gate_unattended_posting X a ?ctx = check_gate_unattended_posting X a ctx"
      "check_intent_unproven a ?ctx = check_intent_unproven a ctx" "check_intent_contradiction E a ?ctx = check_intent_contradiction E a ctx"
      "check_preconditions E a ?ctx = check_preconditions E a ctx"
      by (simp_all add: check_defs check_missing_verification_def check_capability_def split: option.split)
    have "check_known_failure E a ctx = Some f \<Longrightarrow> check_known_failure E a ?ctx = Some f"
      using assms(3) by (auto simp: check_known_failure_def split: if_splits)
    with that show ?thesis unfolding pure_checks_def same by auto
  qed
  ultimately have "set fs \<subseteq> set fs'"
    using set_findings [OF fs(1)] set_findings [OF fs'(1)] by auto
  then show ?thesis
    unfolding fs(2) fs'(2) by (intro max_verdict_mono) auto
qed

text \<open>A rewrite is only ever more cautious: the replacement does exactly what the original does (kind,
  target, text, risk, intent and cost are untouched, so a token for one is a token for the other), states
  what to verify afterwards, and passes the same gate.\<close>

theorem rewrite_only_adds_verification:
  assumes "gate E X a ctx = Inr d" "d_replacement d = Some a'"
  shows "a' = a\<lparr>a_expected_observation := verification_text\<rparr> \<and> action_hash E a' = action_hash E a \<and>
    d_verdict d = REWRITE \<and> (\<exists>d'. gate E X a' ctx = Inr d' \<and> d_verdict d' = ALLOW)"
proof -
  obtain fs where f0: "gate_findings E X a ctx = Inr fs" "d_verdict d = max_verdict (map f_verdict fs)"
    by (rule gate_verdict [OF assms(1)])
  have "fs \<noteq> []" using assms f0(1) by (auto simp: gate_def)
  with assms f0(1) have a': "a' = a\<lparr>a_expected_observation := verification_text\<rparr>" and "max_verdict (map f_verdict fs) = REWRITE"
    by (simp_all add: gate_def Let_def split: if_splits) auto
  with f0 have fs: "gate_findings E X a ctx = Inr fs" "max_verdict (map f_verdict fs) = REWRITE" "d_verdict d = REWRITE"
    by simp_all
  have pass: "d_verdict d = ALLOW \<or> d_verdict d = REWRITE" using fs(3) by simp
  have hash: "action_hash E a' = action_hash E a" by (simp add: a' action_hash_def action_body_def)
  have vt: "strip verification_text \<noteq> []" by (simp add: verification_text_def strip_def is_space_def)
  have only: "f_verdict f = REWRITE \<and> f_kind f = MISSING_VERIFICATION" if "f \<in> set fs" for f
    using finding_verdicts [OF fs(1) that] max_verdict_ge [of "f_verdict f" "map f_verdict fs"] that fs(2) by auto
  have z: "check_authorization E a ctx = Inr None" by (rule gate_passes(1) [OF assms(1) pass])
  then have "set fs = {f. Some f \<in> set (pure_checks E X a ctx)}" using set_findings [OF fs(1)] by auto
  with only have rej: "f_verdict f = REWRITE" if "Some f \<in> set (pure_checks E X a ctx)" for f using that by auto
  have same: "check_stale_target a' ctx = check_stale_target a ctx" "check_target_present E a' ctx = check_target_present E a ctx"
    "check_no_op a' ctx = check_no_op a ctx" "check_repeated a' ctx = check_repeated a ctx"
    "check_gate_polling a' ctx = check_gate_polling a ctx" "check_destructive_chain a' ctx = check_destructive_chain a ctx"
    "check_excessive_cost E a' ctx = check_excessive_cost E a ctx" "check_capability E a' ctx = check_capability E a ctx"
    "check_gate_unattended_posting X a' ctx = check_gate_unattended_posting X a ctx"
    "check_intent_unproven a' ctx = check_intent_unproven a ctx" "check_intent_contradiction E a' ctx = check_intent_contradiction E a ctx"
    "check_preconditions E a' ctx = check_preconditions E a ctx" "check_known_failure E a' ctx = check_known_failure E a ctx"
    "check_missing_verification a' ctx = None" "destructive a' = destructive a"
    using vt hash by (simp_all add: a' check_defs check_missing_verification_def check_capability_def signature_def
        mutating_def destructive_def split: option.split)
  have "verify_authorization E tok a' ops s t = verify_authorization E tok a ops s t" for tok ops s t
    by (simp add: verify_authorization_def hash)
  with same(15) have "check_authorization E a' ctx = check_authorization E a ctx"
    by (simp add: check_authorization_def)
  with z have z': "check_authorization E a' ctx = Inr None" by simp
  have "c = None" if c: "c \<in> set (pure_checks E X a' ctx)" for c
  proof (rule ccontr)
    assume "c \<noteq> None"
    then obtain f where f: "c = Some f" by blast
    with c same(14) have "Some f \<in> set (pure_checks E X a ctx)" unfolding pure_checks_def same by auto
    from rej [OF this] pure_check_verdicts [OF c [unfolded f]] have "f_kind f = MISSING_VERIFICATION" by auto
    with c f show False
      by (auto simp: pure_checks_def same(14), simp_all add: check_defs check_capability_def split: if_splits option.splits)
  qed
  then have "gate_findings E X a' ctx = Inr []"
    using z' by (simp add: gate_findings_def List.map_filter_def filter_empty_conv)
  then have "\<exists>d'. gate E X a' ctx = Inr d' \<and> d_verdict d' = ALLOW" by (simp add: gate_def)
  with a' hash fs(3) show ?thesis by blast
qed

subsection \<open>Witnesses\<close>

definition ref_ctx :: "json \<Rightarrow> gate_context" where
  "ref_ctx token =
     \<lparr>g_current_generation = 0, g_target_present_ids = {}, g_recent_actions = [], g_capabilities = {},
      g_enforce_capabilities = False, g_cost_budget = Fin 0, g_requires_verification = False, g_instruction = [],
      g_poll_window = 3, g_repeat_threshold = 2, g_require_authorization = True, g_authorization = token,
      g_operators = Some allow_any, g_subject_did = ''n'', g_now = Fin 5, g_require_intent = False,
      g_active_goal_ids = {}, g_known_failures = {}\<rparr>"

lemmas ref_gate_simps = gate_def gate_findings_def pure_checks_def check_defs check_missing_verification_def
  check_capability_def ref_ctx_def ref_action_def ref_intent_def mutating_def read_kinds_def destructive_def
  destructive_kinds_def signature_def List.map_filter_def

theorem gate_needs_operator_witness:
  "\<exists>t d. gate ref_env ref_lexicon (ref_action ''delete'' True) (ref_ctx t) = Inr d \<and> d_verdict d = ALLOW \<and>
     (\<exists>o' did. t = JObj o' \<and> map_of o' ''signer'' = Some (JStr did))"
proof -
  obtain obj r where r: "verify_authorization ref_env (JObj obj) (ref_action ''delete'' True) (Some allow_any) ''n'' (Fin 5) = Inr r" "z_ok r"
    by (rule ref_authorized)
  have "check_authorization ref_env (ref_action ''delete'' True) (ref_ctx (JObj obj)) = Inr None"
    using r by (simp add: check_authorization_def ref_ctx_def)
  then obtain d where d: "gate ref_env ref_lexicon (ref_action ''delete'' True) (ref_ctx (JObj obj)) = Inr d" "d_verdict d = ALLOW"
    by (simp add: ref_gate_simps posting_kinds_def)
  have "g_require_authorization (ref_ctx (JObj obj))" "destructive (ref_action ''delete'' True)"
    by (simp_all add: ref_ctx_def destructive_def ref_action_def)
  from gate_needs_operator [OF d(1) _ this] d show ?thesis by (auto simp: verify_payload_True_iff ref_ctx_def)
qed

definition ref_ctx_caps :: gate_context where
  "ref_ctx_caps = (ref_ctx JNull)\<lparr>g_require_authorization := False, g_capabilities := {''physical.click''}, g_requires_verification := True\<rparr>"

lemma ref_click: "\<exists>d. gate ref_env ref_lexicon (ref_action ''click'' False) ref_ctx_caps = Inr d \<and> d_verdict d = REWRITE \<and>
    d_replacement d = Some ((ref_action ''click'' False)\<lparr>a_expected_observation := verification_text\<rparr>)"
  by (simp add: ref_gate_simps ref_ctx_caps_def check_authorization_def posting_kinds_def capability_for_def allows_def GRANTABLE_SCOPES_def strip_def)

theorem gate_within_capabilities_witness:
  "\<exists>d. gate ref_env ref_lexicon (ref_action ''click'' False) ref_ctx_caps = Inr d \<and>
     (\<exists>scope. map_of capability_for ''click'' = Some scope \<and> scope \<in> set GRANTABLE_SCOPES)"
proof -
  obtain d where d: "gate ref_env ref_lexicon (ref_action ''click'' False) ref_ctx_caps = Inr d" "d_verdict d = REWRITE"
    using ref_click by blast
  have "g_enforce_capabilities ref_ctx_caps \<or> g_capabilities ref_ctx_caps \<noteq> {}" by (simp add: ref_ctx_caps_def ref_ctx_def)
  from gate_within_capabilities [OF d(1) _ this] d show ?thesis
    by (auto simp: ref_action_def mutating_def read_kinds_def)
qed

theorem rewrite_only_adds_verification_witness:
  "\<exists>a' d'. a' = (ref_action ''click'' False)\<lparr>a_expected_observation := verification_text\<rparr> \<and>
     gate ref_env ref_lexicon a' ref_ctx_caps = Inr d' \<and> d_verdict d' = ALLOW"
proof -
  obtain d where "gate ref_env ref_lexicon (ref_action ''click'' False) ref_ctx_caps = Inr d"
    "d_replacement d = Some ((ref_action ''click'' False)\<lparr>a_expected_observation := verification_text\<rparr>)"
    using ref_click by blast
  from rewrite_only_adds_verification [OF this] show ?thesis by blast
qed

theorem memory_only_adds_caution_witness:
  "\<exists>d d'. gate ref_env ref_lexicon (ref_action ''click'' False) ref_ctx_caps = Inr d \<and>
     gate ref_env ref_lexicon (ref_action ''click'' False)
       (ref_ctx_caps\<lparr>g_known_failures := {action_hash ref_env (ref_action ''click'' False)}\<rparr>) = Inr d' \<and>
     precedence (d_verdict d) \<le> precedence (d_verdict d')"
proof -
  obtain d where d: "gate ref_env ref_lexicon (ref_action ''click'' False) ref_ctx_caps = Inr d" using ref_click by blast
  have "\<exists>d'. gate ref_env ref_lexicon (ref_action ''click'' False)
       (ref_ctx_caps\<lparr>g_known_failures := {action_hash ref_env (ref_action ''click'' False)}\<rparr>) = Inr d'"
    by (simp add: gate_def gate_findings_def check_authorization_def ref_ctx_caps_def Let_def)
  then obtain d' where d': "gate ref_env ref_lexicon (ref_action ''click'' False)
       (ref_ctx_caps\<lparr>g_known_failures := {action_hash ref_env (ref_action ''click'' False)}\<rparr>) = Inr d'" by blast
  have "g_known_failures ref_ctx_caps \<subseteq> {action_hash ref_env (ref_action ''click'' False)}"
    by (simp add: ref_ctx_caps_def ref_ctx_def)
  from memory_only_adds_caution [OF d d' this] d d' show ?thesis by blast
qed

end
