(* ===== verification/Loop_Gate.thy ===== *)
theory Loop_Gate
  imports Action_Gate
begin

text \<open>
  \<^verbatim>\<open>citadel/loop_gate.py\<close>: the hook that puts the action gate into the agent loop. It reads the
  loop's plain-data view of an action, collects an operator token where one is needed, and blocks
  on the authorization, memory and intent findings only.
\<close>

definition kind_map :: "(string, string) dict" where
  "kind_map =
     [(''left_click'', ''click''), (''right_click'', ''click''), (''double_click'', ''click''),
      (''click_element'', ''click''), (''track_click'', ''click''), (''move'', ''click''),
      (''drag'', ''drag''), (''type'', ''type''), (''key'', ''key''), (''hold_key'', ''key''),
      (''scroll'', ''scroll''), (''open'', ''open''), (''run_elevated'', ''run_elevated''),
      (''wait'', ''wait''), (''screenshot'', ''screenshot''), (''look'', ''observe'')]"

definition BLOCKING :: "finding_kind list" where
  "BLOCKING = [OUT_OF_CAPABILITY, UNATTENDED_POSTING, KNOWN_FAILURE, INTENT_CONTRADICTION,
     INTENT_UNPROVEN, UNAUTHORIZED_ACTION]"

text \<open>\<^verbatim>\<open>str(v or "")\<close>\<close>

definition str_or_empty :: "env \<Rightarrow> json \<Rightarrow> string" where
  "str_or_empty E v = (if truthy v then py_str E v else '''')"

text \<open>\<^verbatim>\<open>"+".join(str(k) for k in keys)\<close> for a truthy \<^verbatim>\<open>keys\<close>.\<close>

definition keys_text :: "env \<Rightarrow> json \<Rightarrow> string res" where
  "keys_text E v =
     (case v of
        JList ks \<Rightarrow> Inr (join ''+'' (map (py_str E) ks))
      | JStr s \<Rightarrow> Inr (join ''+'' (utf8_chars s))
      | JObj d \<Rightarrow> Inr (join ''+'' (dkeys d))
      | _ \<Rightarrow> Inl (TypeError ''object is not iterable''))"

definition view_target :: "env \<Rightarrow> obj \<Rightarrow> string" where
  "view_target E view =
     (if truthy (pget view ''element'') then ''element:'' @ py_str E (pget view ''element'')
      else if pget view ''x'' \<noteq> JNull \<and> pget view ''y'' \<noteq> JNull
      then ''xy:'' @ py_str E (pget view ''x'') @ '','' @ py_str E (pget view ''y'')
      else '''')"

definition view_text :: "env \<Rightarrow> obj \<Rightarrow> string res" where
  "view_text E view =
     (let t0 = str_or_empty E (pget view ''text'') in
      rbind (if t0 = [] \<and> truthy (pget view ''keys'') then keys_text E (pget view ''keys'') else Inr t0) (\<lambda>t1.
        Inr (if t1 = [] \<and> truthy (pget view ''path'') then py_str E (pget view ''path'') else t1)))"

definition to_planned :: "env \<Rightarrow> obj \<Rightarrow> string \<Rightarrow> planned_action res" where
  "to_planned E view purpose =
     rbind (view_text E view) (\<lambda>t.
       let raw_kind = str_or_empty E (pget view ''kind'')
       in Inr \<lparr>a_kind = dget kind_map raw_kind raw_kind, a_target_id = view_target E view,
               a_target_role = '''', a_target_name = '''', a_text = t,
               a_high_risk = truthy (pget view ''high_risk''), a_generation = 0, a_expected_observation = '''',
               a_estimated_cost = Fin 1,
               a_intent = \<lparr>i_purpose = purpose, i_rollback = str_or_empty E (pget view ''rollback''),
                           i_irreversible = (pget view ''irreversible'' = JBool True), i_requires_present = []\<rparr>\<rparr>)"

fun to_planned_all :: "env \<Rightarrow> obj list \<Rightarrow> planned_action list res" where
  "to_planned_all E [] = Inr []"
| "to_planned_all E (v # vs) =
     rbind (to_planned E v '''') (\<lambda>a. rbind (to_planned_all E vs) (\<lambda>as. Inr (a # as)))"

text \<open>The arguments of \<^verbatim>\<open>make_plan_gate\<close>; \<open>authorize\<close> returns a token, \<open>JNull\<close> for None, or raises.
  The clock the gate reads is \<open>pg_now\<close>.\<close>

record plan_gate_config =
  pg_capabilities :: "string set"
  pg_enforce :: bool
  pg_instruction :: string
  pg_known_failures :: "string set"
  pg_active_goal_ids :: "string set"
  pg_purpose :: string
  pg_require_intent :: bool
  pg_authorize :: "(planned_action \<Rightarrow> json res) option"
  pg_operators :: "trust option"
  pg_subject_did :: string
  pg_now :: pyfloat

definition collect_token :: "plan_gate_config \<Rightarrow> planned_action \<Rightarrow> json" where
  "collect_token cfg planned =
     (case pg_authorize cfg of
        None \<Rightarrow> JNull
      | Some authorize \<Rightarrow>
          if destructive planned then (case authorize planned of Inl _ \<Rightarrow> JNull | Inr tok \<Rightarrow> tok) else JNull)"

definition plan_gate_context :: "plan_gate_config \<Rightarrow> planned_action \<Rightarrow> planned_action list \<Rightarrow> gate_context" where
  "plan_gate_context cfg planned recent =
     \<lparr>g_current_generation = 0, g_target_present_ids = {}, g_recent_actions = recent,
      g_capabilities = pg_capabilities cfg, g_enforce_capabilities = pg_enforce cfg, g_cost_budget = Fin 0,
      g_requires_verification = False, g_instruction = pg_instruction cfg, g_poll_window = 3, g_repeat_threshold = 2,
      g_require_authorization = (pg_authorize cfg \<noteq> None), g_authorization = collect_token cfg planned,
      g_operators = pg_operators cfg, g_subject_did = pg_subject_did cfg, g_now = pg_now cfg,
      g_require_intent = pg_require_intent cfg, g_active_goal_ids = pg_active_goal_ids cfg,
      g_known_failures = pg_known_failures cfg\<rparr>"

definition plan_gate :: "env \<Rightarrow> lexicon \<Rightarrow> plan_gate_config \<Rightarrow> obj \<Rightarrow> obj list \<Rightarrow> (bool \<times> string) res" where
  "plan_gate E X cfg view recent =
     rbind (to_planned E view (pg_purpose cfg)) (\<lambda>planned.
     rbind (to_planned_all E recent) (\<lambda>rs.
     rbind (gate E X planned (plan_gate_context cfg planned rs)) (\<lambda>decision.
       if list_ex (\<lambda>k. k \<in> set BLOCKING) (d_findings decision) then Inr (False, d_reason decision)
       else Inr (True, d_reason decision))))"

section \<open>What the hook lets through\<close>

lemma plan_gate_True:
  assumes "plan_gate E X cfg view recent = Inr (True, msg)"
  obtains planned rs fs where "to_planned E view (pg_purpose cfg) = Inr planned" "to_planned_all E recent = Inr rs"
    "gate_findings E X planned (plan_gate_context cfg planned rs) = Inr fs"
    "\<forall>f\<in>set fs. f_kind f \<notin> set BLOCKING"
proof -
  from assms obtain planned rs d where p: "to_planned E view (pg_purpose cfg) = Inr planned" "to_planned_all E recent = Inr rs"
    "gate E X planned (plan_gate_context cfg planned rs) = Inr d" "\<not> list_ex (\<lambda>k. k \<in> set BLOCKING) (d_findings d)"
    by (auto simp: plan_gate_def rbind_Inr_iff split: if_splits)
  obtain fs where "gate_findings E X planned (plan_gate_context cfg planned rs) = Inr fs" "d_findings d = map f_kind fs"
    by (rule gate_verdict [OF p(3)])
  with p that show ?thesis by (auto simp: list_ex_iff)
qed

lemma unblocked_checks:
  assumes "gate_findings E X a ctx = Inr fs" "\<forall>f\<in>set fs. f_kind f \<notin> set BLOCKING"
  shows "check_authorization E a ctx = Inr None" "check_capability E a ctx = None" "check_known_failure E a ctx = None"
    "check_intent_unproven a ctx = None" "check_gate_unattended_posting X a ctx = None"
proof -
  obtain z where z: "check_authorization E a ctx = Inr z"
    "set fs = {f. Some f \<in> set (pure_checks E X a ctx) \<or> z = Some f}"
    using set_findings [OF assms(1)] by blast
  have none: "c = None" if "c \<in> set (pure_checks E X a ctx) \<or> c = z" "\<And>f. c = Some f \<Longrightarrow> f_kind f \<in> set BLOCKING" for c
  proof (cases c)
    case (Some f)
    with that(1) have "f \<in> set fs" unfolding z(2) by auto
    with assms(2) that(2) [OF Some] show ?thesis by blast
  qed
  have "z = None"
    by (rule none) (use z(1) in \<open>auto simp: check_authorization_def rbind_Inr_iff BLOCKING_def split: if_splits\<close>)
  with z(1) show "check_authorization E a ctx = Inr None" by simp
  show "check_capability E a ctx = None"
    by (rule none) (auto simp: pure_checks_def, auto simp: check_capability_def BLOCKING_def split: if_splits option.splits)
  show "check_known_failure E a ctx = None"
    by (rule none) (auto simp: pure_checks_def, auto simp: check_known_failure_def BLOCKING_def split: if_splits)
  show "check_intent_unproven a ctx = None"
    by (rule none) (auto simp: pure_checks_def, auto simp: check_intent_unproven_def Let_def BLOCKING_def split: if_splits)
  show "check_gate_unattended_posting X a ctx = None"
    by (rule none) (auto simp: pure_checks_def, auto simp: check_gate_unattended_posting_def BLOCKING_def split: if_splits)
qed

text \<open>The loop's hook keeps both gates although it ignores the heuristic findings: with a way to the
  operator configured, a destructive step goes through only with a token the operator signed for this
  very step, and never when asking for the token raised; and with capabilities enforced no elevated
  launch goes through at all.\<close>

theorem plan_gate_keeps_gates:
  assumes "plan_gate E X cfg view recent = Inr (True, msg)" "to_planned E view (pg_purpose cfg) = Inr planned"
  shows "(pg_enforce cfg \<longrightarrow> a_kind planned \<noteq> ''run_elevated'') \<and>
    (\<forall>authorize. pg_authorize cfg = Some authorize \<longrightarrow> destructive planned \<longrightarrow>
       (\<exists>t c did. authorize planned = Inr (JObj t) \<and> pg_operators cfg = Some c \<and> c did \<and>
          verify_payload E (JObj t) (Some c) = (True, Some did) \<and> in_window E t (pg_now cfg) \<and>
          map_of t ''action_hash'' = Some (JStr (action_hash E planned)) \<and>
          map_of t ''subject'' = Some (JStr (pg_subject_did cfg))))"
proof -
  obtain rs fs where fs: "gate_findings E X planned (plan_gate_context cfg planned rs) = Inr fs"
    "\<forall>f\<in>set fs. f_kind f \<notin> set BLOCKING"
    using plan_gate_True [OF assms(1)] assms(2) by (metis sum.inject(2))
  let ?ctx = "plan_gate_context cfg planned rs"
  note pass = unblocked_checks [OF fs]
  have "a_kind planned \<noteq> ''run_elevated''" if "pg_enforce cfg"
  proof
    assume "a_kind planned = ''run_elevated''"
    with pass(2) that show False
      by (simp add: check_capability_def plan_gate_context_def capability_for_def allows_def GRANTABLE_SCOPES_def)
  qed
  moreover have "\<exists>t c did. authorize planned = Inr (JObj t) \<and> pg_operators cfg = Some c \<and> c did \<and>
      verify_payload E (JObj t) (Some c) = (True, Some did) \<and> in_window E t (pg_now cfg) \<and>
      map_of t ''action_hash'' = Some (JStr (action_hash E planned)) \<and> map_of t ''subject'' = Some (JStr (pg_subject_did cfg))"
    if au: "pg_authorize cfg = Some authorize" "destructive planned" for authorize
  proof -
    from pass(1) au obtain r where
      "verify_authorization E (collect_token cfg planned) planned (pg_operators cfg) (pg_subject_did cfg) (pg_now cfg) = Inr r" "z_ok r"
      by (auto simp: check_authorization_def plan_gate_context_def rbind_Inr_iff split: if_splits)
    then show ?thesis
    proof (rule verify_authorization_okD)
      fix d c did
      assume "collect_token cfg planned = JObj d" "pg_operators cfg = Some c" "c did" "in_window E d (pg_now cfg)"
        "verify_payload E (collect_token cfg planned) (Some c) = (True, Some did)"
        "map_of d ''action_hash'' = Some (JStr (action_hash E planned))" "map_of d ''subject'' = Some (JStr (pg_subject_did cfg))"
      moreover from this au have "authorize planned = Inr (JObj d)"
        by (auto simp: collect_token_def split: sum.splits)
      ultimately show ?thesis by auto
    qed
  qed
  ultimately show ?thesis by blast
qed

definition ref_config :: plan_gate_config where
  "ref_config = \<lparr>pg_capabilities = {''physical.click''}, pg_enforce = True, pg_instruction = [], pg_known_failures = {},
     pg_active_goal_ids = {}, pg_purpose = [], pg_require_intent = False, pg_authorize = None, pg_operators = None,
     pg_subject_did = ''n'', pg_now = Fin 0\<rparr>"

definition ref_view :: obj where
  "ref_view = [(''kind'', JStr ''left_click''), (''element'', JStr ''b'')]"

theorem plan_gate_keeps_gates_witness:
  "\<exists>msg planned. plan_gate ref_env ref_lexicon ref_config ref_view [] = Inr (True, msg) \<and>
     to_planned ref_env ref_view [] = Inr planned \<and> a_kind planned \<noteq> ''run_elevated''"
proof -
  have "\<exists>planned. to_planned ref_env ref_view (pg_purpose ref_config) = Inr planned"
    by (simp add: to_planned_def view_text_def str_or_empty_def ref_view_def pget_def Let_def)
  then obtain planned where p: "to_planned ref_env ref_view (pg_purpose ref_config) = Inr planned" by blast
  have g: "\<exists>msg. plan_gate ref_env ref_lexicon ref_config ref_view [] = Inr (True, msg)"
    by (simp add: plan_gate_def to_planned_def view_text_def str_or_empty_def ref_view_def pget_def Let_def view_target_def
        dget_def kind_map_def ref_config_def gate_def gate_findings_def check_authorization_def plan_gate_context_def
        pure_checks_def check_defs check_missing_verification_def check_capability_def capability_for_def allows_def
        GRANTABLE_SCOPES_def posting_kinds_def read_kinds_def mutating_def List.map_filter_def strip_def)
  then obtain msg where "plan_gate ref_env ref_lexicon ref_config ref_view [] = Inr (True, msg)" by blast
  with plan_gate_keeps_gates [OF this p] p show ?thesis by (auto simp: ref_config_def)
qed

end
