(* ===== verification/Goals.thy ===== *)
theory Goals
  imports Signing
begin

text \<open>
  \<^verbatim>\<open>citadel/goals.py\<close>: the goal DAG folded from journal events, and Kahn's algorithm over it.

  \<open>topo_order\<close> is the loop of the source with a bound of one round per goal, which is enough
  (\<open>topo_loop_total\<close>). An order it returns lists every goal once, dependencies first, and for goals
  whose dependency lists do not repeat an entry it raises exactly on a cycle.
\<close>

section \<open>The tree\<close>

record goal =
  goal_id :: string
  goal_title :: string
  goal_status :: string
  goal_deps :: "string list"

type_synonym goal_tree = "(string, goal) dict"

definition norm_status :: "env \<Rightarrow> json \<Rightarrow> string" where
  "norm_status E v =
     (let s = py_str E v in if s \<in> {''pending'', ''active'', ''done'', ''failed''} then s else ''pending'')"

definition norm_deps :: "json \<Rightarrow> string list" where
  "norm_deps v = (case v of JList vs \<Rightarrow> filter (\<lambda>s. s \<noteq> []) (List.map_filter as_str vs) | _ \<Rightarrow> [])"

definition goal_update :: "env \<Rightarrow> (string, json) dict \<Rightarrow> goal \<Rightarrow> goal" where
  "goal_update E body node =
     (let n1 = (case map_of body ''title'' of Some t \<Rightarrow> node\<lparr>goal_title := py_str E t\<rparr> | None \<Rightarrow> node);
          n2 = (case map_of body ''status'' of Some s \<Rightarrow> n1\<lparr>goal_status := norm_status E s\<rparr> | None \<Rightarrow> n1)
      in case map_of body ''deps'' of Some d \<Rightarrow> n2\<lparr>goal_deps := norm_deps d\<rparr> | None \<Rightarrow> n2)"

definition goal_apply :: "env \<Rightarrow> json \<Rightarrow> goal_tree \<Rightarrow> goal_tree" where
  "goal_apply E v tree =
     (case v of
        JObj body \<Rightarrow>
          (case pget body ''id'' of
             JStr gid \<Rightarrow>
               if gid = [] then tree
               else if pget body ''op'' = JStr ''add'' then
                 dset gid \<lparr>goal_id = gid, goal_title = py_str E (dget body ''title'' (JStr '''')),
                           goal_status = norm_status E (dget body ''status'' (JStr ''pending'')),
                           goal_deps = norm_deps (pget body ''deps'')\<rparr> tree
               else if pget body ''op'' = JStr ''update'' then
                 (case map_of tree gid of
                    None \<Rightarrow> tree
                  | Some node \<Rightarrow> dset gid (goal_update E body node) tree)
               else if pget body ''op'' = JStr ''complete'' then
                 (case map_of tree gid of
                    None \<Rightarrow> tree
                  | Some node \<Rightarrow> dset gid (node\<lparr>goal_status := ''done''\<rparr>) tree)
               else if pget body ''op'' = JStr ''remove'' then dpop gid tree
               else tree
           | _ \<Rightarrow> tree)
      | _ \<Rightarrow> tree)"

definition build_goal_tree :: "env \<Rightarrow> (string, json) dict list \<Rightarrow> goal_tree" where
  "build_goal_tree E events =
     fold (\<lambda>e tree. if pget e ''kind'' = JStr ''goal''
                    then goal_apply E (if truthy (pget e ''body'') then pget e ''body'' else JObj []) tree
                    else tree) events []"

definition goal_ready :: "goal_tree \<Rightarrow> string list" where
  "goal_ready tree =
     map fst (filter (\<lambda>(gid, node). goal_status node = ''pending'' \<and>
       list_all (\<lambda>d. case map_of tree d of None \<Rightarrow> False | Some n \<Rightarrow> goal_status n = ''done'') (goal_deps node)) tree)"

section \<open>Kahn's algorithm\<close>

definition indeg_init :: "goal_tree \<Rightarrow> string \<Rightarrow> int" where
  "indeg_init tree gid =
     (case map_of tree gid of
        None \<Rightarrow> 0
      | Some node \<Rightarrow> int (length (filter (\<lambda>d. d \<in> set (dkeys tree)) (goal_deps node))))"

fun relax :: "string \<Rightarrow> goal_tree \<Rightarrow> (string \<Rightarrow> int) \<times> string list \<Rightarrow> (string \<Rightarrow> int) \<times> string list" where
  "relax gid [] st = st"
| "relax gid ((other, node) # rest) (indeg, queue) =
     relax gid rest
       (if gid \<in> set (goal_deps node)
        then (indeg(other := indeg other - 1),
              if indeg other - 1 = 0 then queue @ [other] else queue)
        else (indeg, queue))"

fun topo_loop :: "nat \<Rightarrow> goal_tree \<Rightarrow> (string \<Rightarrow> int) \<Rightarrow> string list \<Rightarrow> string list \<Rightarrow> string list option" where
  "topo_loop fuel tree indeg [] order = Some order"
| "topo_loop 0 tree indeg (gid # queue) order = None"
| "topo_loop (Suc fuel) tree indeg (gid # queue) order =
     (let (indeg', queue') = relax gid tree (indeg, queue)
      in topo_loop fuel tree indeg' (sort queue') (order @ [gid]))"

definition topo_order :: "goal_tree \<Rightarrow> string list res" where
  "topo_order tree =
     (let queue = sort (filter (\<lambda>g. indeg_init tree g = 0) (dkeys tree))
      in case topo_loop (length tree) tree (indeg_init tree) queue [] of
           None \<Rightarrow> Inl (RuntimeError ''topo_order: out of rounds'')
         | Some order \<Rightarrow> if length order \<noteq> length tree then Inl (ValueError ''goal graph has a cycle'') else Inr order)"

definition has_cycle :: "goal_tree \<Rightarrow> bool" where
  "has_cycle tree \<longleftrightarrow> (case topo_order tree of Inl _ \<Rightarrow> True | Inr _ \<Rightarrow> False)"

section \<open>Invariants\<close>

definition tree_wf :: "goal_tree \<Rightarrow> bool" where
  "tree_wf tree \<longleftrightarrow> distinct (map fst tree) \<and>
     (\<forall>(gid, node)\<in>set tree. gid \<noteq> [] \<and> goal_id node = gid \<and> goal_status node \<in> {''pending'', ''active'', ''done'', ''failed''})"

lemma norm_status_ok [simp]: "norm_status E v \<in> {''pending'', ''active'', ''done'', ''failed''}"
  by (simp add: norm_status_def Let_def)

lemma set_dpop: "p \<in> set (dpop k d) \<Longrightarrow> p \<in> set d"
  by (induction d) (auto split: if_splits)

lemma tree_wf_dset:
  "tree_wf tree \<Longrightarrow> gid \<noteq> [] \<Longrightarrow> goal_id node = gid \<Longrightarrow> goal_status node \<in> {''pending'', ''active'', ''done'', ''failed''} \<Longrightarrow>
   tree_wf (dset gid node tree)"
  by (auto simp: tree_wf_def dest!: set_dset)

lemma goal_update_frame:
  "goal_id (goal_update E body node) = goal_id node"
  "goal_status node \<in> {''pending'', ''active'', ''done'', ''failed''} \<Longrightarrow>
   goal_status (goal_update E body node) \<in> {''pending'', ''active'', ''done'', ''failed''}"
proof -
  have "goal_status (goal_update E body node) =
      (case map_of body ''status'' of Some s \<Rightarrow> norm_status E s | None \<Rightarrow> goal_status node)"
    by (simp add: goal_update_def Let_def split: option.splits)
  then show "goal_status node \<in> {''pending'', ''active'', ''done'', ''failed''} \<Longrightarrow>
   goal_status (goal_update E body node) \<in> {''pending'', ''active'', ''done'', ''failed''}"
    using norm_status_ok [of E] by (cases "map_of body ''status''") simp_all
qed (simp add: goal_update_def Let_def split: option.splits)

lemma goal_apply_wf [inv_intros]:
  assumes "tree_wf tree"
  shows "tree_wf (goal_apply E v tree)"
proof -
  have held: "goal_id node = gid \<and> gid \<noteq> [] \<and> goal_status node \<in> {''pending'', ''active'', ''done'', ''failed''}"
    if "map_of tree gid = Some node" for gid node
    using assms map_of_SomeD [OF that] by (auto simp: tree_wf_def)
  have pop: "tree_wf (dpop gid tree)" for gid
    using assms by (auto simp: tree_wf_def dest: set_dpop)
  have upd: "tree_wf (dset gid (goal_update E body node) tree)" "tree_wf (dset gid (node\<lparr>goal_status := ''done''\<rparr>) tree)"
    if "map_of tree gid = Some node" for gid node body
    using held [OF that] goal_update_frame [where E = E and body = body and node = node] assms
    by (auto intro!: tree_wf_dset)
  have add: "tree_wf (dset gid \<lparr>goal_id = gid, goal_title = t, goal_status = norm_status E s, goal_deps = ds\<rparr> tree)"
    if "gid \<noteq> []" for gid t s ds
    using assms that norm_status_ok [of E s] by (intro tree_wf_dset) auto
  show ?thesis
    unfolding goal_apply_def using assms
    by (auto split: json.splits option.splits intro: pop upd add)
qed

lemma build_goal_tree_wf: "tree_wf (build_goal_tree E events)"
proof -
  have "tree_wf t \<Longrightarrow> tree_wf (fold (\<lambda>e tree. if pget e ''kind'' = JStr ''goal''
                    then goal_apply E (if truthy (pget e ''body'') then pget e ''body'' else JObj []) tree
                    else tree) events t)" for t
    by (induction events arbitrary: t) (auto intro: goal_apply_wf)
  moreover have "tree_wf []" by (simp add: tree_wf_def)
  ultimately show ?thesis by (simp add: build_goal_tree_def)
qed

lemma relax_eq:
  assumes "distinct (map fst tree)"
  shows "relax gid tree (indeg, queue) =
    (\<lambda>o'. if \<exists>n. map_of tree o' = Some n \<and> gid \<in> set (goal_deps n) then indeg o' - 1 else indeg o',
     queue @ map fst (filter (\<lambda>(o', n). gid \<in> set (goal_deps n) \<and> indeg o' = 1) tree))"
  using assms
proof (induction tree arbitrary: indeg queue)
  case Nil
  then show ?case by simp
next
  case (Cons p tree)
  obtain o1 n1 where p: "p = (o1, n1)" by (cases p)
  have notin: "map_of tree o1 = None" "\<And>n. (o1, n) \<notin> set tree" using Cons.prems by (force simp: p map_of_eq_None_iff)+
  have dist: "distinct (map fst tree)" using Cons.prems by simp
  have filt: "filter (\<lambda>(o', n). gid \<in> set (goal_deps n) \<and> (if o' = o1 then x else indeg o') = 1) tree =
      filter (\<lambda>(o', n). gid \<in> set (goal_deps n) \<and> indeg o' = 1) tree" for x
    using notin(2) by (intro filter_cong) (auto split: if_splits)
  show ?case
    using notin(1) by (auto simp: p Cons.IH [OF dist] filt intro!: ext)
qed

definition live_deps :: "goal_tree \<Rightarrow> string \<Rightarrow> string list" where
  "live_deps tree gid = (case map_of tree gid of None \<Rightarrow> [] | Some n \<Rightarrow> filter (\<lambda>d. d \<in> set (dkeys tree)) (goal_deps n))"

lemma indeg_init_live: "indeg_init tree gid = int (length (live_deps tree gid))"
  by (simp add: indeg_init_def live_deps_def split: option.splits)

text \<open>The state of the loop: a goal's count is its dependency entries less the distinct dependencies
  already ordered, and it is queued or ordered exactly when that count is zero.\<close>

definition topo_inv :: "goal_tree \<Rightarrow> (string \<Rightarrow> int) \<Rightarrow> string list \<Rightarrow> string list \<Rightarrow> bool" where
  "topo_inv tree indeg queue order \<longleftrightarrow>
     distinct (order @ queue) \<and> set (order @ queue) \<subseteq> set (dkeys tree) \<and>
     (\<forall>g\<in>set (dkeys tree). indeg g = int (length (live_deps tree g)) - int (card (set (live_deps tree g) \<inter> set order)) \<and>
        (indeg g = 0 \<longleftrightarrow> g \<in> set (order @ queue))) \<and>
     (\<forall>i<length order. set (live_deps tree (order ! i)) \<subseteq> set (take i order))"

lemma indeg_nonneg: "int (card (set (live_deps tree g) \<inter> set order)) \<le> int (length (live_deps tree g))"
  by (metis Int_lower1 List.finite_set card_length card_mono le_trans of_nat_le_iff)

lemma indeg_zero_deps:
  assumes "int (length (live_deps tree g)) - int (card (set (live_deps tree g) \<inter> set order)) = 0"
  shows "set (live_deps tree g) \<subseteq> set order"
proof -
  from assms have "length (live_deps tree g) = card (set (live_deps tree g) \<inter> set order)" by simp
  moreover have "card (set (live_deps tree g) \<inter> set order) \<le> card (set (live_deps tree g))" by (simp add: card_mono)
  moreover have "card (set (live_deps tree g)) \<le> length (live_deps tree g)" by (rule card_length)
  ultimately have "card (set (live_deps tree g) \<inter> set order) = card (set (live_deps tree g))" by simp
  then have "set (live_deps tree g) \<inter> set order = set (live_deps tree g)"
    by (intro card_subset_eq) auto
  then show ?thesis by blast
qed

lemma topo_inv_init:
  assumes "distinct (map fst tree)"
  shows "topo_inv tree (indeg_init tree) (sort (filter (\<lambda>g. indeg_init tree g = 0) (dkeys tree))) []"
  using assms by (auto simp: topo_inv_def indeg_init_live dkeys_def)

lemma live_deps_mem:
  "map_of tree g = Some n \<Longrightarrow> gid \<in> set (dkeys tree) \<Longrightarrow> gid \<in> set (goal_deps n) \<longleftrightarrow> gid \<in> set (live_deps tree g)"
  by (auto simp: live_deps_def)

lemma live_deps_card:
  assumes "gid \<notin> set order"
  shows "card (set (live_deps tree g) \<inter> set (order @ [gid])) =
    card (set (live_deps tree g) \<inter> set order) + (if gid \<in> set (live_deps tree g) then 1 else 0)"
proof (cases "gid \<in> set (live_deps tree g)")
  case True
  then have "set (live_deps tree g) \<inter> set (order @ [gid]) = insert gid (set (live_deps tree g) \<inter> set order)" by auto
  with True assms show ?thesis by simp
next
  case False
  then have "set (live_deps tree g) \<inter> set (order @ [gid]) = set (live_deps tree g) \<inter> set order" by auto
  with False show ?thesis by simp
qed

lemma topo_inv_step:
  assumes dist: "distinct (map fst tree)" and inv: "topo_inv tree indeg (gid # queue) order"
    and rel: "relax gid tree (indeg, queue) = (indeg', queue')"
  shows "topo_inv tree indeg' (sort queue') (order @ [gid])"
proof -
  have mem: "gid \<in> set (dkeys tree)" "gid \<notin> set order" "gid \<notin> set queue" "distinct (order @ queue)"
    "set order \<subseteq> set (dkeys tree)" "set queue \<subseteq> set (dkeys tree)"
    using inv by (auto simp: topo_inv_def)
  have deg: "\<And>g. g \<in> set (dkeys tree) \<Longrightarrow>
      indeg g = int (length (live_deps tree g)) - int (card (set (live_deps tree g) \<inter> set order))"
    and zero: "\<And>g. g \<in> set (dkeys tree) \<Longrightarrow> indeg g = 0 \<longleftrightarrow> g \<in> set (order @ gid # queue)"
    using inv by (auto simp: topo_inv_def)
  have held: "\<exists>n. map_of tree g = Some n" if "g \<in> set (dkeys tree)" for g
    using that by (auto simp: dkeys_def) (metis image_eqI fst_conv weak_map_of_SomeI)
  have indeg': "indeg' g = (if gid \<in> set (live_deps tree g) then indeg g - 1 else indeg g)" if "g \<in> set (dkeys tree)" for g
    using rel held [OF that] live_deps_mem [OF _ mem(1)] by (auto simp: relax_eq [OF dist])
  have deg': "indeg' g = int (length (live_deps tree g)) - int (card (set (live_deps tree g) \<inter> set (order @ [gid])))"
    if "g \<in> set (dkeys tree)" for g
    using indeg' [OF that] deg [OF that] live_deps_card [OF mem(2), of tree g] by simp
  define new where "new = map fst (filter (\<lambda>(o', n). gid \<in> set (goal_deps n) \<and> indeg o' = 1) tree)"
  have queue': "queue' = queue @ new" using rel by (auto simp: relax_eq [OF dist] new_def)
  have new: "g \<in> set new \<longleftrightarrow> g \<in> set (dkeys tree) \<and> gid \<in> set (live_deps tree g) \<and> indeg g = 1" for g
  proof -
    have "g \<in> set new \<longleftrightarrow> (\<exists>n. map_of tree g = Some n \<and> gid \<in> set (goal_deps n) \<and> indeg g = 1)"
      using dist by (force simp: new_def)
    with held [of g] live_deps_mem [OF _ mem(1)] show ?thesis
      by (auto simp: dkeys_def) (metis fst_conv image_eqI map_of_SomeD)
  qed
  have "distinct new" using dist by (auto simp: new_def distinct_map intro: inj_on_subset)
  moreover have "set new \<inter> set (order @ gid # queue) = {}" using new zero by fastforce
  ultimately have "distinct ((order @ [gid]) @ sort queue')"
    using mem by (auto simp: queue')
  moreover have "indeg' g = 0 \<longleftrightarrow> g \<in> set ((order @ [gid]) @ sort queue')" if g: "g \<in> set (dkeys tree)" for g
  proof (cases "gid \<in> set (live_deps tree g)")
    case True
    have "0 \<le> indeg' g" using deg' [OF g] indeg_nonneg [of tree g "order @ [gid]"] by simp
    with indeg' [OF g] True have "indeg g \<noteq> 0" by simp
    with zero [OF g] new [of g] True indeg' [OF g] g show ?thesis by (auto simp: queue')
  next
    case False
    with indeg' [OF g] zero [OF g] new [of g] show ?thesis by (auto simp: queue')
  qed
  moreover have "\<forall>i<length (order @ [gid]). set (live_deps tree ((order @ [gid]) ! i)) \<subseteq> set (take i (order @ [gid]))"
  proof -
    have "set (live_deps tree gid) \<subseteq> set order"
      using zero [OF mem(1)] deg [OF mem(1)] by (intro indeg_zero_deps) auto
    with inv show ?thesis by (auto simp: topo_inv_def nth_append less_Suc_eq)
  qed
  ultimately show ?thesis
    using mem deg' new by (auto simp: topo_inv_def queue')
qed

lemma topo_loop_total:
  assumes "distinct (map fst tree)" "topo_inv tree indeg queue order" "length tree \<le> fuel + length order"
  shows "\<exists>order' indeg'. topo_loop fuel tree indeg queue order = Some order' \<and> topo_inv tree indeg' [] order'"
  using assms(2,3)
proof (induction fuel arbitrary: indeg queue order)
  case 0
  have "queue = []"
  proof (rule ccontr)
    assume "queue \<noteq> []"
    then have "length order < length (order @ queue)" by simp
    also have "length (order @ queue) = card (set (order @ queue))"
      using 0(1) by (intro distinct_card [symmetric]) (simp add: topo_inv_def)
    also have "card (set (order @ queue)) \<le> card (set (dkeys tree))"
      using 0(1) by (intro card_mono) (auto simp: topo_inv_def)
    also have "card (set (dkeys tree)) \<le> length tree" by (metis card_length dkeys_def length_map)
    finally show False using 0(2) by simp
  qed
  with 0 show ?case by auto
next
  case (Suc fuel)
  show ?case
  proof (cases queue)
    case Nil
    with Suc.prems show ?thesis by auto
  next
    case (Cons gid q)
    obtain i' q' where r: "relax gid tree (indeg, q) = (i', q')" by fastforce
    from topo_inv_step [OF assms(1) Suc.prems(1) [unfolded Cons] r]
    have "topo_inv tree i' (sort q') (order @ [gid])" .
    from Suc.IH [OF this] Suc.prems(2) show ?thesis by (simp add: Cons r)
  qed
qed

lemma topo_order_cases:
  assumes "distinct (map fst tree)"
  obtains order indeg where "topo_inv tree indeg [] order"
    "topo_order tree = (if length order \<noteq> length tree then Inl (ValueError ''goal graph has a cycle'') else Inr order)"
proof -
  obtain order indeg where o1: "topo_loop (length tree) tree (indeg_init tree)
      (sort (filter (\<lambda>g. indeg_init tree g = 0) (dkeys tree))) [] = Some order" "topo_inv tree indeg [] order"
    using topo_loop_total [OF assms topo_inv_init [OF assms], of "length tree"] by auto
  then show ?thesis by (intro that [of indeg order]) (simp_all add: topo_order_def)
qed

definition dep_rel :: "goal_tree \<Rightarrow> (string \<times> string) set" where
  "dep_rel tree = {(d, g). g \<in> set (dkeys tree) \<and> d \<in> set (live_deps tree g)}"

lemma acyclic_index:
  assumes "distinct xs" "\<And>d g. (d, g) \<in> r \<Longrightarrow> \<exists>i j. j < i \<and> i < length xs \<and> xs ! i = g \<and> xs ! j = d"
  shows "acyclic r"
proof -
  define idx where "idx x = (THE i. i < length xs \<and> xs ! i = x)" for x
  have idx: "idx (xs ! i) = i" if "i < length xs" for i
    unfolding idx_def using that assms(1) by (intro the_equality) (auto simp: nth_eq_iff_index_eq)
  have "r \<subseteq> measure idx"
  proof (rule subrelI)
    fix d g
    assume "(d, g) \<in> r"
    then obtain i j where "j < i" "i < length xs" "xs ! i = g" "xs ! j = d" using assms(2) by blast
    with idx [of i] idx [of j] show "(d, g) \<in> measure idx" by auto
  qed
  then show ?thesis by (metis wf_acyclic wf_measure wf_subset)
qed

lemma no_minimal_cyclic:
  assumes "finite S" "S \<noteq> {}" "\<And>g. g \<in> S \<Longrightarrow> \<exists>d\<in>S. (d, g) \<in> r"
  shows "\<not> acyclic r"
proof
  assume "acyclic r"
  let ?r = "r \<inter> S \<times> S"
  have "acyclic ?r" using \<open>acyclic r\<close> by (rule acyclic_subset) auto
  moreover have "finite ?r" using assms(1) by auto
  ultimately have "wf ?r" by (simp add: finite_acyclic_wf)
  with assms(2) obtain g where "g \<in> S" "\<And>d. (d, g) \<in> ?r \<Longrightarrow> d \<notin> S"
    by (meson ex_in_conv wfE_min)
  with assms(3) show False by blast
qed

section \<open>Properties\<close>

lemma card_dkeys: "distinct (map fst tree) \<Longrightarrow> card (set (dkeys tree)) = length tree"
  using distinct_card [of "dkeys tree"] by (simp add: dkeys_def)

lemma complete_order:
  assumes "distinct (map fst tree)" "topo_inv tree indeg [] order" "length order = length tree"
  shows "set order = set (dkeys tree)"
proof (rule card_subset_eq)
  show "set order \<subseteq> set (dkeys tree)" using assms(2) by (auto simp: topo_inv_def)
  have "card (set order) = length order" using assms(2) by (intro distinct_card) (simp add: topo_inv_def)
  moreover have "card (set (dkeys tree)) = length tree" using assms(1) by (rule card_dkeys)
  ultimately show "card (set order) = card (set (dkeys tree))" using assms(3) by simp
qed simp

text \<open>An order returned by \<^verbatim>\<open>topo_order\<close> lists every goal exactly once, each after all the goals it
  depends on that exist.\<close>

theorem topo_order_sound:
  assumes "topo_order (build_goal_tree E events) = Inr order"
  shows "distinct order \<and> set order = set (dkeys (build_goal_tree E events)) \<and>
    (\<forall>i<length order. \<forall>d\<in>set (live_deps (build_goal_tree E events) (order ! i)). d \<in> set (take i order))"
proof -
  let ?tree = "build_goal_tree E events"
  have dist: "distinct (map fst ?tree)" using build_goal_tree_wf [of E events] by (simp add: tree_wf_def)
  obtain order' indeg where o': "topo_inv ?tree indeg [] order'"
    "topo_order ?tree = (if length order' \<noteq> length ?tree then Inl (ValueError ''goal graph has a cycle'') else Inr order')"
    by (rule topo_order_cases [OF dist])
  with assms have "order' = order" "length order = length ?tree" by (auto split: if_splits)
  with complete_order [OF dist] o'(1) show ?thesis by (auto simp: topo_inv_def)
qed

text \<open>C14 When no goal lists the same dependency twice, \<^verbatim>\<open>topo_order\<close> raises exactly on cycles: it returns
  an order if and only if the dependency relation between existing goals is acyclic.\<close>

theorem topo_order_iff_acyclic:
  assumes "tree = build_goal_tree E events" "\<forall>(g, n)\<in>set tree. distinct (goal_deps n)"
  shows "(\<exists>order. topo_order tree = Inr order) \<longleftrightarrow> acyclic (dep_rel tree)"
proof -
  have dist: "distinct (map fst tree)" using build_goal_tree_wf [of E events] by (simp add: tree_wf_def assms(1))
  obtain order indeg where o': "topo_inv tree indeg [] order"
    "topo_order tree = (if length order \<noteq> length tree then Inl (ValueError ''goal graph has a cycle'') else Inr order)"
    by (rule topo_order_cases [OF dist])
  have uniq: "distinct (live_deps tree g)" for g
    using assms(2) by (auto simp: live_deps_def split: option.splits dest!: map_of_SomeD)
  have sub: "set order \<subseteq> set (dkeys tree)" using o'(1) by (auto simp: topo_inv_def)
  show ?thesis
  proof (cases "length order = length tree")
    case True
    have before: "d \<in> set (take i order)" if "i < length order" "d \<in> set (live_deps tree (order ! i))" for d i
      using o'(1) that by (auto simp: topo_inv_def)
    have "acyclic (dep_rel tree)"
    proof (rule acyclic_index [of "order"])
      show "distinct order" using o'(1) by (simp add: topo_inv_def)
      fix d g
      assume "(d, g) \<in> dep_rel tree"
      then have "g \<in> set order" "d \<in> set (live_deps tree g)"
        using complete_order [OF dist o'(1) True] by (auto simp: dep_rel_def)
      then obtain i where "i < length order" "order ! i = g" by (auto simp: in_set_conv_nth)
      with before [of i d] \<open>d \<in> set (live_deps tree g)\<close> have "d \<in> set (take i order)" by simp
      then obtain j where "j < i" "order ! j = d" by (auto simp: in_set_conv_nth)
      with \<open>i < length order\<close> \<open>order ! i = g\<close>
      show "\<exists>i j. j < i \<and> i < length order \<and> order ! i = g \<and> order ! j = d" by blast
    qed
    with True o'(2) show ?thesis by simp
  next
    case False
    have "\<exists>g. g \<in> set (dkeys tree) - set order"
    proof (rule ccontr)
      assume "\<not> ?thesis"
      with sub have "set order = set (dkeys tree)" by blast
      moreover have "card (set order) = length order" using o'(1) by (intro distinct_card) (simp add: topo_inv_def)
      moreover have "card (set (dkeys tree)) = length tree" using dist by (rule card_dkeys)
      ultimately show False using False by simp
    qed
    moreover have "\<exists>d\<in>set (dkeys tree) - set order. (d, g) \<in> dep_rel tree" if g: "g \<in> set (dkeys tree) - set order" for g
    proof -
      have "indeg g \<noteq> 0" "indeg g = int (length (live_deps tree g)) - int (card (set (live_deps tree g) \<inter> set order))"
        using o'(1) g by (auto simp: topo_inv_def)
      then have "card (set (live_deps tree g) \<inter> set order) \<noteq> card (set (live_deps tree g))"
        using distinct_card [OF uniq, of g] by simp
      then obtain d where "d \<in> set (live_deps tree g)" "d \<notin> set order" by (metis inf.absorb_iff1 subsetI)
      moreover from this(1) have "d \<in> set (dkeys tree)" by (auto simp: live_deps_def split: option.splits)
      ultimately show ?thesis using g by (auto simp: dep_rel_def)
    qed
    ultimately have "\<not> acyclic (dep_rel tree)"
      by (intro no_minimal_cyclic [of "set (dkeys tree) - set order"]) auto
    with False o'(2) show ?thesis by simp
  qed
qed

text \<open>C30 A goal that lists an existing goal twice among its dependencies makes \<^verbatim>\<open>topo_order\<close> report a cycle,
  whether there is one or not: the entry is counted twice and discounted once.\<close>

theorem repeated_dependency_reported_as_cycle:
  assumes "tree = build_goal_tree E events" "(g, n) \<in> set tree" "goal_deps n = us @ d # vs @ d # ws" "d \<in> set (dkeys tree)"
  shows "topo_order tree = Inl (ValueError ''goal graph has a cycle'')"
proof -
  have dist: "distinct (map fst tree)" using build_goal_tree_wf [of E events] by (simp add: tree_wf_def assms(1))
  obtain order indeg where o': "topo_inv tree indeg [] order"
    "topo_order tree = (if length order \<noteq> length tree then Inl (ValueError ''goal graph has a cycle'') else Inr order)"
    by (rule topo_order_cases [OF dist])
  have g: "g \<in> set (dkeys tree)" "map_of tree g = Some n" using assms(2) dist by (force simp: dkeys_def)+
  have "\<not> distinct (live_deps tree g)" using assms(3,4) g(2) by (simp add: live_deps_def)
  then have "card (set (live_deps tree g)) < length (live_deps tree g)"
    using card_length [of "live_deps tree g"] card_distinct [of "live_deps tree g"] by linarith
  moreover have "card (set (live_deps tree g) \<inter> set order) \<le> card (set (live_deps tree g))" by (simp add: card_mono)
  ultimately have "g \<notin> set order" using o'(1) g(1) by (auto simp: topo_inv_def)
  with complete_order [OF dist o'(1)] g(1) o'(2) show ?thesis by auto
qed

subsection \<open>Witnesses\<close>

definition goal_event :: "string \<Rightarrow> string list \<Rightarrow> (string, json) dict" where
  "goal_event gid deps = [(''kind'', JStr ''goal''),
     (''body'', JObj [(''op'', JStr ''add''), (''id'', JStr gid), (''deps'', JList (map JStr deps))])]"

lemma ref_goals: "build_goal_tree ref_env [goal_event ''b'' ds, goal_event ''a'' []] =
    [(''b'', \<lparr>goal_id = ''b'', goal_title = [], goal_status = ''pending'', goal_deps = filter (\<lambda>s. s \<noteq> []) ds\<rparr>),
     (''a'', \<lparr>goal_id = ''a'', goal_title = [], goal_status = ''pending'', goal_deps = []\<rparr>)]"
proof -
  have "List.map_filter as_str (map JStr xs) = xs" for xs
    by (induction xs) (simp_all add: List.map_filter_def)
  then show ?thesis
    by (simp add: build_goal_tree_def goal_event_def pget_def goal_apply_def dget_def norm_status_def norm_deps_def)
qed

lemmas ref_topo_simps = topo_order_def ref_goals indeg_init_def dkeys_def insort_key.simps sort_key_def

theorem topo_order_sound_witness:
  "\<exists>order. topo_order (build_goal_tree ref_env [goal_event ''b'' [''a''], goal_event ''a'' []]) = Inr order \<and>
     distinct order \<and> set order = {''a'', ''b''}"
proof -
  have "topo_order (build_goal_tree ref_env [goal_event ''b'' [''a''], goal_event ''a'' []]) = Inr [''a'', ''b'']"
    by (simp add: ref_topo_simps)
  from topo_order_sound [OF this] this show ?thesis by (auto simp: ref_goals dkeys_def)
qed

theorem topo_order_iff_acyclic_witness:
  "acyclic (dep_rel (build_goal_tree ref_env [goal_event ''b'' [''a''], goal_event ''a'' []]))"
proof -
  have "topo_order (build_goal_tree ref_env [goal_event ''b'' [''a''], goal_event ''a'' []]) = Inr [''a'', ''b'']"
    by (simp add: ref_topo_simps)
  with topo_order_iff_acyclic [OF refl, of ref_env "[goal_event ''b'' [''a''], goal_event ''a'' []]"]
  show ?thesis by (simp add: ref_goals)
qed

theorem repeated_dependency_reported_as_cycle_witness:
  "topo_order (build_goal_tree ref_env [goal_event ''b'' [''a'', ''a''], goal_event ''a'' []]) =
     Inl (ValueError ''goal graph has a cycle'')"
  by (rule repeated_dependency_reported_as_cycle
      [OF refl, where g = "''b''" and us = "[]" and vs = "[]" and ws = "[]" and d = "''a''"
         and n = "\<lparr>goal_id = ''b'', goal_title = [], goal_status = ''pending'', goal_deps = [''a'', ''a'']\<rparr>"])
    (simp_all add: ref_goals dkeys_def)

end
