(* ===== verification/Journal.thy ===== *)
theory Journal
  imports Statements "HOL-Library.Product_Lexorder"
begin

text \<open>
  \<^verbatim>\<open>citadel/journal.py\<close>: the signed, hash-chained event journal. Its SQLite table is the list of
  rows in insertion order; what the column types do to a value on the way in (INTEGER, REAL and
  TEXT affinity, NOT NULL, the 64-bit bound on integers) is written out, because an event arrives
  as arbitrary JSON and only its author, sequence number, signature and hash are checked. How
  SQLite reads a numeric text is a parameter. An operation that may raise after it has changed the
  table returns the journal it leaves behind.

  The results: every journal reachable by appending and merging holds one contiguous hash chain per
  author (\<open>journal_inv\<close>), re-merging is a no-op, and a journal of events whose columns keep their
  values verifies. Where they do not, two counterexamples to what the module promises follow.
\<close>

section \<open>Rows\<close>

record row =
  r_author :: string
  r_seq :: int
  r_lamport :: json
  r_ts :: json
  r_kind :: json
  r_body :: json
  r_prev_hash :: string
  r_entry_hash :: string
  r_sig :: string

definition GENESIS :: string where
  "GENESIS = replicate 64 (CHR ''0'')"

definition PAYLOAD_KEYS :: "string list" where
  "PAYLOAD_KEYS = [''author'', ''seq'', ''lamport'', ''ts'', ''kind'', ''body'', ''prev_hash'']"

definition payload_of :: "obj \<Rightarrow> obj" where
  "payload_of event = map (\<lambda>k. (k, pget event k)) PAYLOAD_KEYS"

definition entry_hash :: "env \<Rightarrow> obj \<Rightarrow> string" where
  "entry_hash E payload = hexdigest E (canonical E (JObj payload))"

subsection \<open>Columns\<close>

definition int64 :: "int \<Rightarrow> bool" where
  "int64 n \<longleftrightarrow> - (2 ^ 63) \<le> n \<and> n < 2 ^ 63"

text \<open>Binding a Python value to a statement.\<close>

fun sql_bind :: "json \<Rightarrow> json res" where
  "sql_bind (JInt n) = (if int64 n then Inr (JInt n) else Inl (OverflowError ''Python int too large to convert to SQLite INTEGER''))"
| "sql_bind (JBool b) = Inr (JInt (if b then 1 else 0))"
| "sql_bind (JFloat f) = Inr (if f = NaN then JNull else JFloat f)"
| "sql_bind (JList _) = Inl (SqliteError ''type list is not supported'')"
| "sql_bind (JObj _) = Inl (SqliteError ''type dict is not supported'')"
| "sql_bind v = Inr v"

definition not_null :: "json \<Rightarrow> json res" where
  "not_null v = (if v = JNull then Inl (SqliteError ''NOT NULL constraint failed'') else Inr v)"

fun real_to_int :: "json \<Rightarrow> json" where
  "real_to_int (JFloat (Fin q)) = (if of_int \<lfloor>q\<rfloor> = q \<and> int64 \<lfloor>q\<rfloor> then JInt \<lfloor>q\<rfloor> else JFloat (Fin q))"
| "real_to_int v = v"

fun int_to_real :: "json \<Rightarrow> json" where
  "int_to_real (JInt n) = JFloat (Fin (of_int n))"
| "int_to_real v = v"

fun affinity_integer :: "env \<Rightarrow> json \<Rightarrow> json" where
  "affinity_integer E (JStr s) = (case sql_num E s of Some v \<Rightarrow> real_to_int v | None \<Rightarrow> JStr s)"
| "affinity_integer E v = real_to_int v"

fun affinity_real :: "env \<Rightarrow> json \<Rightarrow> json" where
  "affinity_real E (JStr s) = (case sql_num E s of Some v \<Rightarrow> int_to_real v | None \<Rightarrow> JStr s)"
| "affinity_real E v = int_to_real v"

fun affinity_text :: "env \<Rightarrow> json \<Rightarrow> json" where
  "affinity_text E (JInt n) = JStr (int_str n)"
| "affinity_text E (JFloat f) = JStr (sql_text E f)"
| "affinity_text E v = v"

definition column :: "(json \<Rightarrow> json) \<Rightarrow> json \<Rightarrow> json res" where
  "column affinity v = rbind (sql_bind v) (\<lambda>b. rbind (not_null b) (\<lambda>c. Inr (affinity c)))"

section \<open>The journal\<close>

text \<open>\<open>j_lamport\<close> is whatever number the largest accepted event carried.\<close>

record journal =
  j_identity :: "identity option"
  j_allowlist :: trust
  j_lamport :: json
  j_rows :: "row list"

text \<open>SQLite's order on stored values: numbers before texts.\<close>

fun cell_key :: "json \<Rightarrow> nat \<times> rat \<times> string" where
  "cell_key (JFloat NInf) = (0, 0, [])"
| "cell_key (JInt n) = (1, of_int n, [])"
| "cell_key (JFloat (Fin q)) = (1, q, [])"
| "cell_key (JFloat PInf) = (2, 0, [])"
| "cell_key (JStr s) = (3, 0, s)"
| "cell_key _ = (4, 0, [])"

text \<open>\<^verbatim>\<open>_max_lamport\<close>: the \<^verbatim>\<open>MAX\<close> of the column, read with \<^verbatim>\<open>int\<close>.\<close>

definition max_lamport :: "row list \<Rightarrow> int res" where
  "max_lamport rows =
     (case map r_lamport rows of
        [] \<Rightarrow> Inr 0
      | v # vs \<Rightarrow> to_int (fold (\<lambda>w m. if cell_key m < cell_key w then w else m) vs v))"

definition journal_open :: "identity option \<Rightarrow> trust option \<Rightarrow> row list \<Rightarrow> journal res" where
  "journal_open identity allowlist rows =
     rbind (require_trust allowlist ''Journal'') (\<lambda>c.
     rbind (max_lamport rows) (\<lambda>m.
       Inr \<lparr>j_identity = identity, j_allowlist = c, j_lamport = JInt m, j_rows = rows\<rparr>))"

definition head :: "string \<Rightarrow> row list \<Rightarrow> int \<times> string" where
  "head author rows =
     fold (\<lambda>r (s, h). if r_author r = author \<and> s < r_seq r then (r_seq r, r_entry_hash r) else (s, h)) rows (0, GENESIS)"

definition row_to_event :: "row \<Rightarrow> obj res" where
  "row_to_event r =
     rbind (to_int (r_lamport r)) (\<lambda>l.
       Inr [(''author'', JStr (r_author r)),
            (''seq'', JInt (r_seq r)),
            (''lamport'', JInt l),
            (''ts'', r_ts r),
            (''kind'', r_kind r),
            (''body'', r_body r),
            (''prev_hash'', JStr (r_prev_hash r)),
            (''entry_hash'', JStr (r_entry_hash r)),
            (''sig'', JStr (r_sig r))])"

text \<open>\<^verbatim>\<open>_insert\<close>: the row as the table keeps it. The body goes through \<^verbatim>\<open>json.dumps\<close> and comes
  back through \<^verbatim>\<open>json.loads\<close> unchanged; the other text columns were checked to be strings.\<close>

definition insert_row :: "env \<Rightarrow> string \<Rightarrow> int \<Rightarrow> obj \<Rightarrow> string \<Rightarrow> string \<Rightarrow> string \<Rightarrow> row res" where
  "insert_row E author seq event prev entry sig =
     rbind (sql_bind (JInt seq)) (\<lambda>_.
     rbind (column (affinity_integer E) (pget event ''lamport'')) (\<lambda>l.
     rbind (column (affinity_real E) (pget event ''ts'')) (\<lambda>t.
     rbind (column (affinity_text E) (pget event ''kind'')) (\<lambda>k.
       Inr \<lparr>r_author = author, r_seq = seq, r_lamport = l, r_ts = t, r_kind = k, r_body = pget event ''body'',
            r_prev_hash = prev, r_entry_hash = entry, r_sig = sig\<rparr>))))"

text \<open>\<^verbatim>\<open>self._lamport += 1\<close> and \<^verbatim>\<open>lamport > self._lamport\<close> on Python numbers.\<close>

fun lamport_succ :: "json \<Rightarrow> json" where
  "lamport_succ (JInt n) = JInt (n + 1)"
| "lamport_succ (JBool b) = JInt (if b then 2 else 1)"
| "lamport_succ (JFloat f) = JFloat (fadd f (Fin 1))"
| "lamport_succ v = v"

definition lamport_gt :: "json \<Rightarrow> json \<Rightarrow> bool res" where
  "lamport_gt a b =
     (case (num_of a, num_of b) of
        (Some x, Some y) \<Rightarrow> Inr (flt y x)
      | _ \<Rightarrow> Inl (TypeError ''unorderable types''))"

definition journal_append :: "env \<Rightarrow> string \<Rightarrow> json \<Rightarrow> json \<Rightarrow> journal \<Rightarrow> journal \<times> obj res" where
  "journal_append E kind body now j =
     (case j_identity j of
        None \<Rightarrow> (j, Inl (RuntimeError ''this journal has no identity; it cannot append (read-only replica)''))
      | Some seed \<Rightarrow>
          (case identity_did E seed of
             Inl e \<Rightarrow> (j, Inl e)
           | Inr author \<Rightarrow>
               let (head_seq, head_hash) = head author (j_rows j);
                   lamport = lamport_succ (j_lamport j);
                   j1 = j\<lparr>j_lamport := lamport\<rparr>;
                   payload = [(''author'', JStr author), (''seq'', JInt (head_seq + 1)), (''lamport'', lamport),
                              (''ts'', now), (''kind'', JStr kind), (''body'', body), (''prev_hash'', JStr head_hash)];
                   sig = b64encode (sign E seed (canonical E (JObj payload)));
                   eh = entry_hash E payload;
                   event = payload @ [(''entry_hash'', JStr eh), (''sig'', JStr sig)]
               in case insert_row E author (head_seq + 1) event head_hash eh sig of
                    Inl e \<Rightarrow> (j1, Inl e)
                  | Inr r \<Rightarrow> (j1\<lparr>j_rows := j_rows j @ [r]\<rparr>, Inr event)))"

text \<open>The checks of \<^verbatim>\<open>_accept\<close> on the event alone: its author, sequence number, previous and own
  hash and signature text, or \<open>None\<close> when it is dropped.\<close>

definition event_checks :: "env \<Rightarrow> trust \<Rightarrow> obj \<Rightarrow> (string \<times> int \<times> string \<times> string) option" where
  "event_checks E allow event =
     (if \<not> list_all (\<lambda>k. k \<in> set (dkeys event)) (PAYLOAD_KEYS @ [''entry_hash'', ''sig'']) then None
      else case (pget event ''author'', pget event ''seq'') of
        (JStr author, JInt seq) \<Rightarrow>
          if seq < 1 then None
          else (case from_did author of
            Inl _ \<Rightarrow> None
          | Inr pub \<Rightarrow>
              if \<not> allow author then None
              else (case pget event ''sig'' of
                JStr sig_b64 \<Rightarrow>
                  (case b64decode True sig_b64 of
                     Inl _ \<Rightarrow> None
                   | Inr sig \<Rightarrow>
                       if \<not> pk_verify E pub (canonical E (JObj (payload_of event))) sig then None
                       else if pget event ''entry_hash'' \<noteq> JStr (entry_hash E (payload_of event)) then None
                       else Some (author, seq, entry_hash E (payload_of event), sig_b64))
              | _ \<Rightarrow> None))
      | _ \<Rightarrow> None)"

definition journal_accept :: "env \<Rightarrow> obj \<Rightarrow> journal \<Rightarrow> journal \<times> bool res" where
  "journal_accept E event j =
     (case event_checks E (j_allowlist j) event of
        None \<Rightarrow> (j, Inr False)
      | Some (author, seq, eh, sig) \<Rightarrow>
          if \<not> int64 seq then (j, Inl (OverflowError ''Python int too large to convert to SQLite INTEGER''))
          else if list_ex (\<lambda>r. r_author r = author \<and> r_seq r = seq) (j_rows j) then (j, Inr False)
          else let (head_seq, head_hash) = head author (j_rows j)
               in if seq \<noteq> head_seq + 1 \<or> pget event ''prev_hash'' \<noteq> JStr head_hash then (j, Inr False)
                  else (case insert_row E author seq event head_hash eh sig of
                    Inl e \<Rightarrow> (j, Inl e)
                  | Inr r \<Rightarrow>
                      let j' = j\<lparr>j_rows := j_rows j @ [r]\<rparr>
                      in case lamport_gt (pget event ''lamport'') (j_lamport j) of
                           Inl e \<Rightarrow> (j', Inl e)
                         | Inr gt \<Rightarrow> (if gt then j'\<lparr>j_lamport := pget event ''lamport''\<rparr> else j', Inr True)))"

fun accept_all :: "env \<Rightarrow> obj list \<Rightarrow> journal \<Rightarrow> int \<Rightarrow> journal \<times> int res" where
  "accept_all E [] j n = (j, Inr n)"
| "accept_all E (e # es) j n =
     (case journal_accept E e j of
        (j', Inl err) \<Rightarrow> (j', Inl err)
      | (j', Inr ok) \<Rightarrow> accept_all E es j' (if ok then n + 1 else n))"

definition merge_key :: "env \<Rightarrow> obj \<Rightarrow> (string \<times> int) res" where
  "merge_key E e =
     rbind (to_int (dget e ''seq'' (JInt 0))) (\<lambda>s. Inr (py_str E (dget e ''author'' (JStr '''')), s))"

fun merge_keys :: "env \<Rightarrow> obj list \<Rightarrow> ((string \<times> int) \<times> obj) list res" where
  "merge_keys E [] = Inr []"
| "merge_keys E (e # es) =
     rbind (merge_key E e) (\<lambda>k. rbind (merge_keys E es) (\<lambda>ks. Inr ((k, e) # ks)))"

definition journal_merge :: "env \<Rightarrow> obj list \<Rightarrow> journal \<Rightarrow> journal \<times> int res" where
  "journal_merge E events j =
     (case merge_keys E events of
        Inl e \<Rightarrow> (j, Inl e)
      | Inr keyed \<Rightarrow> accept_all E (map snd (sort_key fst keyed)) j 0)"

section \<open>Reading\<close>

definition heads :: "row list \<Rightarrow> (string, int) dict" where
  "heads rows = map (\<lambda>a. (a, fst (head a rows))) (sorted_set (map r_author rows))"

fun rows_to_events :: "row list \<Rightarrow> obj list res" where
  "rows_to_events [] = Inr []"
| "rows_to_events (r # rs) = rbind (row_to_event r) (\<lambda>e. rbind (rows_to_events rs) (\<lambda>es. Inr (e # es)))"

definition journal_since :: "string \<Rightarrow> int \<Rightarrow> row list \<Rightarrow> obj list res" where
  "journal_since author after_seq rows =
     rbind (sql_bind (JInt after_seq)) (\<lambda>_.
       rows_to_events (sort_key r_seq (filter (\<lambda>r. r_author r = author \<and> after_seq < r_seq r) rows)))"

definition row_key :: "row \<Rightarrow> (nat \<times> rat \<times> string) \<times> (nat \<times> rat \<times> string) \<times> string \<times> int" where
  "row_key r = (cell_key (r_lamport r), cell_key (r_ts r), r_author r, r_seq r)"

definition journal_events :: "row list \<Rightarrow> obj list res" where
  "journal_events rows = rows_to_events (sort_key row_key rows)"

text \<open>\<^verbatim>\<open>verify\<close>, one author's chain: \<open>Inr None\<close> is sound, \<open>Inr (Some reason)\<close> names the first broken
  event.\<close>

fun verify_chain :: "env \<Rightarrow> string \<Rightarrow> bytes \<Rightarrow> nat \<Rightarrow> string \<Rightarrow> row list \<Rightarrow> string option res" where
  "verify_chain E author pub i prev [] = Inr None"
| "verify_chain E author pub i prev (r # rs) =
     rbind (row_to_event r) (\<lambda>event.
       let payload = payload_of event; loc = author @ ''#'' @ py_str E (pget event ''seq'') in
       if pget payload ''seq'' \<noteq> JInt (int i + 1) then Inr (Some (loc @ '': seq out of order''))
       else if pget payload ''prev_hash'' \<noteq> JStr prev then Inr (Some (loc @ '': chain broken''))
       else if pget event ''entry_hash'' \<noteq> JStr (entry_hash E payload) then Inr (Some (loc @ '': content does not match its hash''))
       else (case b64decode False (r_sig r) of
               Inl _ \<Rightarrow> Inr (Some (loc @ '': unreadable signature''))
             | Inr sig \<Rightarrow>
                 if \<not> pk_verify E pub (canonical E (JObj payload)) sig then Inr (Some (loc @ '': bad signature''))
                 else verify_chain E author pub (i + 1) (r_entry_hash r) rs))"

fun verify_authors :: "env \<Rightarrow> row list \<Rightarrow> string list \<Rightarrow> (bool \<times> string option) res" where
  "verify_authors E rows [] = Inr (True, None)"
| "verify_authors E rows (a # as) =
     (case from_did a of
        Inl _ \<Rightarrow> Inr (False, Some (a @ '': not a valid did:key''))
      | Inr pub \<Rightarrow>
          rbind (verify_chain E a pub 0 GENESIS (sort_key r_seq (filter (\<lambda>r. r_author r = a) rows))) (\<lambda>res.
            case res of
              Some reason \<Rightarrow> Inr (False, Some reason)
            | None \<Rightarrow> verify_authors E rows as))"

definition journal_verify :: "env \<Rightarrow> row list \<Rightarrow> (bool \<times> string option) res" where
  "journal_verify E rows = verify_authors E rows (sorted_set (map r_author rows))"

section \<open>One chain per author\<close>

abbreviation chain :: "string \<Rightarrow> row list \<Rightarrow> row list" where
  "chain a rows \<equiv> filter (\<lambda>r. r_author r = a) rows"

fun linked :: "int \<Rightarrow> string \<Rightarrow> row list \<Rightarrow> bool" where
  "linked n prev [] = True"
| "linked n prev (r # rs) = (r_seq r = n \<and> r_prev_hash r = prev \<and> linked (n + 1) (r_entry_hash r) rs)"

definition last_hash :: "row list \<Rightarrow> string" where
  "last_hash c = (if c = [] then GENESIS else r_entry_hash (last c))"

definition journal_inv :: "row list \<Rightarrow> bool" where
  "journal_inv rows \<longleftrightarrow> (\<forall>a. linked 1 GENESIS (chain a rows))"

lemma linked_append:
  "linked n prev (xs @ [r]) \<longleftrightarrow>
     linked n prev xs \<and> r_seq r = n + int (length xs) \<and> r_prev_hash r = (if xs = [] then prev else r_entry_hash (last xs))"
  by (induction xs arbitrary: n prev) (auto simp: algebra_simps)

lemma linked_snoc:
  "linked 1 GENESIS (c @ [r]) \<longleftrightarrow> linked 1 GENESIS c \<and> r_seq r = int (length c) + 1 \<and> r_prev_hash r = last_hash c"
  by (auto simp: linked_append last_hash_def)

lemma linked_prefix: "linked n prev (xs @ ys) \<Longrightarrow> linked n prev xs"
  by (induction xs arbitrary: n prev) auto

lemma linked_seq: "linked n prev c \<Longrightarrow> i < length c \<Longrightarrow> r_seq (c ! i) = n + int i"
  by (induction c arbitrary: n prev i) (auto simp: nth_Cons split: nat.splits)

lemma linked_seq_range: "linked n prev c \<Longrightarrow> r \<in> set c \<Longrightarrow> n \<le> r_seq r \<and> r_seq r < n + int (length c)"
  by (auto simp: in_set_conv_nth linked_seq)

lemma linked_sorted: "linked n prev c \<Longrightarrow> sorted (map r_seq c) \<and> distinct (map r_seq c)"
proof (induction c arbitrary: n prev)
  case Nil
  then show ?case by simp
next
  case (Cons r c)
  then have l: "linked (n + 1) (r_entry_hash r) c" "r_seq r = n" by auto
  from linked_seq_range [OF l(1)] Cons.IH [OF l(1)] l(2) show ?case by fastforce
qed

lemma head_linked:
  "journal_inv rows \<Longrightarrow> head a rows = (int (length (chain a rows)), last_hash (chain a rows))"
proof (induction rows rule: rev_induct)
  case Nil
  then show ?case by (simp add: head_def last_hash_def)
next
  case (snoc r rows)
  have inv: "journal_inv rows"
    unfolding journal_inv_def
  proof
    fix b
    have "linked 1 GENESIS (chain b (rows @ [r]))" using snoc.prems by (simp add: journal_inv_def)
    then show "linked 1 GENESIS (chain b rows)" by (auto simp: linked_append split: if_splits)
  qed
  have "head a (rows @ [r]) = (let (s, h) = head a rows in
      if r_author r = a \<and> s < r_seq r then (r_seq r, r_entry_hash r) else (s, h))"
    by (simp add: head_def split_beta Let_def)
  moreover have "linked 1 GENESIS (chain a (rows @ [r]))" using snoc.prems by (simp add: journal_inv_def)
  ultimately show ?case
    using snoc.IH [OF inv] by (auto simp: linked_append last_hash_def)
qed

lemma journal_inv_snoc:
  assumes "journal_inv rows" "r_seq r = int (length (chain (r_author r) rows)) + 1"
    "r_prev_hash r = last_hash (chain (r_author r) rows)"
  shows "journal_inv (rows @ [r])"
  using assms by (auto simp: journal_inv_def linked_snoc)

lemma insert_row_fields:
  assumes "insert_row E author seq event prev entry sig = Inr r"
  shows "r_author r = author" "r_seq r = seq" "r_prev_hash r = prev" "r_entry_hash r = entry" "r_sig r = sig"
    "r_body r = pget event ''body''"
  using assms by (auto simp: insert_row_def rbind_Inr_iff)

lemma event_checks_Some:
  assumes "event_checks E allow event = Some (author, seq, eh, sig)"
  obtains pub raw where "pget event ''author'' = JStr author" "pget event ''seq'' = JInt seq" "1 \<le> seq" "allow author"
    "from_did author = Inr pub" "pget event ''sig'' = JStr sig" "b64decode True sig = Inr raw"
    "pk_verify E pub (canonical E (JObj (payload_of event))) raw" "eh = entry_hash E (payload_of event)"
    "pget event ''entry_hash'' = JStr eh"
  using assms by (auto simp: event_checks_def split: if_splits json.splits sum.splits)

text \<open>An accept that adds a row, in one place.\<close>

lemma journal_accept_cases:
  assumes "journal_accept E event j = (j', res)" "journal_inv (j_rows j)"
  obtains (same) "j' = j" "res \<noteq> Inr True"
  | (added) r author seq eh sig where "event_checks E (j_allowlist j) event = Some (author, seq, eh, sig)"
      "insert_row E author seq event (last_hash (chain author (j_rows j))) eh sig = Inr r"
      "seq = int (length (chain author (j_rows j))) + 1" "int64 seq"
      "pget event ''prev_hash'' = JStr (last_hash (chain author (j_rows j)))"
      "j_rows j' = j_rows j @ [r]" "j_allowlist j' = j_allowlist j" "j_identity j' = j_identity j"
      "j_lamport j' = j_lamport j \<or> j_lamport j' = pget event ''lamport''"
proof (cases "event_checks E (j_allowlist j) event")
  case None
  with assms same show ?thesis by (auto simp: journal_accept_def)
next
  case (Some x)
  obtain author seq eh sig where x: "x = (author, seq, eh, sig)" by (cases x)
  note h = head_linked [OF assms(2), of author]
  show ?thesis
  proof (cases "\<not> int64 seq \<or> list_ex (\<lambda>r. r_author r = author \<and> r_seq r = seq) (j_rows j) \<or>
      seq \<noteq> int (length (chain author (j_rows j))) + 1 \<or> pget event ''prev_hash'' \<noteq> JStr (last_hash (chain author (j_rows j)))")
    case True
    with assms(1) Some x h same show ?thesis by (auto simp: journal_accept_def split: if_splits)
  next
    case False
    show ?thesis
    proof (cases "insert_row E author seq event (last_hash (chain author (j_rows j))) eh sig")
      case (Inl e)
      with assms(1) Some x h False same show ?thesis by (auto simp: journal_accept_def split: if_splits)
    next
      case (Inr r)
      then have "j_rows j' = j_rows j @ [r] \<and> j_allowlist j' = j_allowlist j \<and> j_identity j' = j_identity j \<and>
          (j_lamport j' = j_lamport j \<or> j_lamport j' = pget event ''lamport'')"
        using assms(1) Some x h False by (auto simp: journal_accept_def Let_def split: sum.splits if_splits)
      with added [OF Some [unfolded x] Inr] False show ?thesis by blast
    qed
  qed
qed

lemma journal_accept_inv:
  assumes "journal_inv (j_rows j)"
  shows "journal_inv (j_rows (fst (journal_accept E event j)))"
proof -
  obtain j' res where j': "journal_accept E event j = (j', res)" by (cases "journal_accept E event j")
  from j' assms show ?thesis
  proof (cases rule: journal_accept_cases)
    case same
    with j' assms show ?thesis by simp
  next
    case (added r author seq eh sig)
    note f = insert_row_fields [OF added(2)]
    show ?thesis
      using j' added f assms by (simp add: journal_inv_snoc)
  qed
qed

lemma accept_all_induct:
  assumes "P j" "\<And>e j. e \<in> set es \<Longrightarrow> P j \<Longrightarrow> P (fst (journal_accept E e j))"
  shows "P (fst (accept_all E es j n))"
  using assms
proof (induction es arbitrary: j n)
  case Nil
  then show ?case by simp
next
  case (Cons e es)
  obtain j' res where j': "journal_accept E e j = (j', res)" by (cases "journal_accept E e j")
  then have "P j'" using Cons.prems(2) [of e j] Cons.prems(1) by simp
  with Cons.IH [of j'] Cons.prems(2) j' show ?case by (cases res) auto
qed

lemma merge_keys_snd: "merge_keys E es = Inr ks \<Longrightarrow> map snd ks = es"
  by (induction es arbitrary: ks) (auto simp: rbind_Inr_iff)

lemma journal_merge_induct:
  assumes "P j" "\<And>e j. e \<in> set es \<Longrightarrow> P j \<Longrightarrow> P (fst (journal_accept E e j))"
  shows "P (fst (journal_merge E es j))"
proof (cases "merge_keys E es")
  case (Inl e)
  with assms(1) show ?thesis by (simp add: journal_merge_def)
next
  case (Inr ks)
  have "e \<in> set (map snd (sort_key fst ks)) \<Longrightarrow> e \<in> set es" for e
    using merge_keys_snd [OF Inr] by force
  with assms Inr show ?thesis
    by (simp add: journal_merge_def) (rule accept_all_induct, auto)
qed

lemma journal_append_inv:
  assumes "journal_inv (j_rows j)"
  shows "journal_inv (j_rows (fst (journal_append E kind body now j)))"
  using assms head_linked [OF assms]
  by (auto simp: journal_append_def Let_def insert_row_fields split: option.splits sum.splits prod.splits
      intro!: journal_inv_snoc dest: insert_row_fields)

section \<open>Rows that keep their values\<close>

text \<open>The columns of a row hold the types the schema names, and the event read back from it.\<close>

definition row_typed :: "row \<Rightarrow> bool" where
  "row_typed r \<longleftrightarrow> int64 (r_seq r) \<and> (\<exists>l. r_lamport r = JInt l \<and> int64 l) \<and> (\<exists>f. r_ts r = JFloat f \<and> f \<noteq> NaN) \<and>
     (\<exists>k. r_kind r = JStr k)"

definition typed_event :: "obj \<Rightarrow> bool" where
  "typed_event e \<longleftrightarrow> (\<exists>l. pget e ''lamport'' = JInt l) \<and> (\<exists>f. pget e ''ts'' = JFloat f) \<and> (\<exists>k. pget e ''kind'' = JStr k)"

definition event_of :: "row \<Rightarrow> obj" where
  "event_of r =
     [(''author'', JStr (r_author r)), (''seq'', JInt (r_seq r)), (''lamport'', r_lamport r), (''ts'', r_ts r),
      (''kind'', r_kind r), (''body'', r_body r), (''prev_hash'', JStr (r_prev_hash r)),
      (''entry_hash'', JStr (r_entry_hash r)), (''sig'', JStr (r_sig r))]"

definition row_signed :: "env \<Rightarrow> row \<Rightarrow> bool" where
  "row_signed E r \<longleftrightarrow>
     (\<exists>pub raw. from_did (r_author r) = Inr pub \<and> b64decode True (r_sig r) = Inr raw \<and>
        pk_verify E pub (canonical E (JObj (payload_of (event_of r)))) raw) \<and>
     r_entry_hash r = entry_hash E (payload_of (event_of r))"

lemma pget_event_of [simp]:
  "pget (event_of r) ''author'' = JStr (r_author r)" "pget (event_of r) ''seq'' = JInt (r_seq r)"
  "pget (event_of r) ''lamport'' = r_lamport r" "pget (event_of r) ''ts'' = r_ts r"
  "pget (event_of r) ''kind'' = r_kind r" "pget (event_of r) ''body'' = r_body r"
  "pget (event_of r) ''prev_hash'' = JStr (r_prev_hash r)" "pget (event_of r) ''entry_hash'' = JStr (r_entry_hash r)"
  "pget (event_of r) ''sig'' = JStr (r_sig r)"
  by (simp_all add: event_of_def pget_def)

lemma event_of_keys: "set (PAYLOAD_KEYS @ [''entry_hash'', ''sig'']) \<subseteq> set (dkeys (event_of r))"
  by (simp add: PAYLOAD_KEYS_def event_of_def dkeys_def)

lemma pget_payload_of [simp]: "k \<in> set PAYLOAD_KEYS \<Longrightarrow> pget (payload_of e) k = pget e k"
  by (simp add: payload_of_def pget_def [of "map _ _"] map_of_map_restrict)

lemma row_to_event_typed: "row_typed r \<Longrightarrow> row_to_event r = Inr (event_of r)"
  by (auto simp: row_typed_def row_to_event_def event_of_def)

lemma rows_to_events_typed: "\<forall>r\<in>set rs. row_typed r \<Longrightarrow> rows_to_events rs = Inr (map event_of rs)"
  by (induction rs) (auto simp: row_to_event_typed)

lemma event_of_typed: "row_typed r \<Longrightarrow> typed_event (event_of r)"
  by (auto simp: row_typed_def typed_event_def)

lemma insert_row_typed:
  assumes "typed_event e" "insert_row E author seq e prev entry sig = Inr r"
  shows "row_typed r" "r_lamport r = pget e ''lamport''" "r_ts r = pget e ''ts''" "r_kind r = pget e ''kind''"
proof -
  from assms(1) obtain l f k where e: "pget e ''lamport'' = JInt l" "pget e ''ts'' = JFloat f" "pget e ''kind'' = JStr k"
    by (auto simp: typed_event_def)
  from assms(2) e show "row_typed r" "r_lamport r = pget e ''lamport''" "r_ts r = pget e ''ts''" "r_kind r = pget e ''kind''"
    by (auto simp: insert_row_def column_def not_null_def row_typed_def rbind_Inr_iff split: if_splits)
qed

lemma payload_of_eqI:
  assumes "\<And>k. k \<in> set PAYLOAD_KEYS \<Longrightarrow> pget d k = pget e k"
  shows "payload_of d = payload_of e"
  using assms by (simp add: payload_of_def)

lemma payload_of_inserted:
  assumes "typed_event e" "insert_row E author seq e prev entry sig = Inr r"
    "pget e ''author'' = JStr author" "pget e ''seq'' = JInt seq" "pget e ''prev_hash'' = JStr prev"
  shows "payload_of (event_of r) = payload_of e"
  using insert_row_typed [OF assms(1,2)] insert_row_fields [OF assms(2)] assms(3-5)
  by (intro payload_of_eqI) (auto simp: PAYLOAD_KEYS_def)

text \<open>A row stored again from the event read back is the row itself.\<close>

lemma insert_event_of:
  assumes "row_typed r"
  shows "insert_row E (r_author r) (r_seq r) (event_of r) (r_prev_hash r) (r_entry_hash r) (r_sig r) = Inr r"
  using assms by (auto simp: row_typed_def insert_row_def column_def not_null_def)

section \<open>Verification\<close>

lemma verify_chain_typed:
  assumes "linked (int i + 1) prev c" "from_did a = Inr pub"
    "\<forall>r\<in>set c. r_author r = a \<and> row_typed r \<and> row_signed E r"
  shows "verify_chain E a pub i prev c = Inr None"
  using assms(1,3)
proof (induction c arbitrary: i prev)
  case Nil
  then show ?case by simp
next
  case (Cons r c)
  then have r: "r_author r = a" "row_typed r" "row_signed E r" and l: "r_seq r = int i + 1" "r_prev_hash r = prev"
    "linked (int (i + 1) + 1) (r_entry_hash r) c" by (auto simp: algebra_simps)
  from r(3) obtain raw where s: "b64decode True (r_sig r) = Inr raw"
    "pk_verify E pub (canonical E (JObj (payload_of (event_of r)))) raw"
    "r_entry_hash r = entry_hash E (payload_of (event_of r))"
    using r(1) assms(2) by (auto simp: row_signed_def)
  have "verify_chain E a pub (i + 1) (r_entry_hash r) c = Inr None"
    using l(3) Cons.prems(2) by (intro Cons.IH) auto
  with s(3) have "verify_chain E a pub (i + 1) (entry_hash E (payload_of (event_of r))) c = Inr None" by simp
  with s r(2) l show ?case
    by (simp add: row_to_event_typed b64decode_strict_lenient PAYLOAD_KEYS_def Let_def)
qed

lemma sort_chain: "linked n prev c \<Longrightarrow> sort_key r_seq c = c"
  using linked_sorted by (intro sort_key_id_if_sorted) blast

lemma verify_authors_typed:
  assumes "journal_inv rows" "\<forall>r\<in>set rows. row_typed r \<and> row_signed E r" "set as \<subseteq> r_author ` set rows"
  shows "verify_authors E rows as = Inr (True, None)"
  using assms(3)
proof (induction as)
  case Nil
  then show ?case by simp
next
  case (Cons a as)
  then obtain r where r: "r \<in> set rows" "a = r_author r" by auto
  with assms(2) obtain pub where pub: "from_did a = Inr pub" by (auto simp: row_signed_def)
  have l: "linked 1 GENESIS (chain a rows)" using assms(1) by (simp add: journal_inv_def)
  have "verify_chain E a pub 0 GENESIS (chain a rows) = Inr None"
    using l pub assms(2) by (intro verify_chain_typed) auto
  with Cons pub sort_chain [OF l] show ?case by simp
qed

lemma journal_verify_typed:
  assumes "journal_inv rows" "\<forall>r\<in>set rows. row_typed r \<and> row_signed E r"
  shows "journal_verify E rows = Inr (True, None)"
  unfolding journal_verify_def using assms by (intro verify_authors_typed) auto

text \<open>What a positive answer of \<^verbatim>\<open>verify\<close> means, for any table whatever its history.\<close>

lemma verify_chain_sound:
  assumes "verify_chain E a pub i prev c = Inr None" "r \<in> set c"
  shows "\<exists>event raw. row_to_event r = Inr event \<and> pget event ''entry_hash'' = JStr (entry_hash E (payload_of event)) \<and>
    b64decode False (r_sig r) = Inr raw \<and> pk_verify E pub (canonical E (JObj (payload_of event))) raw"
  using assms by (induction c arbitrary: i prev) (auto simp: rbind_Inr_iff Let_def split: if_splits sum.splits)

lemma row_to_event_fields:
  assumes "row_to_event r = Inr event"
  shows "pget event ''seq'' = JInt (r_seq r)" "pget event ''prev_hash'' = JStr (r_prev_hash r)"
    "pget event ''entry_hash'' = JStr (r_entry_hash r)" "pget event ''author'' = JStr (r_author r)"
  using assms by (auto simp: row_to_event_def rbind_Inr_iff pget_def)

lemma verify_chain_linked:
  assumes "verify_chain E a pub i prev c = Inr None"
  shows "linked (int i + 1) prev c"
  using assms
proof (induction c arbitrary: i prev)
  case Nil
  then show ?case by simp
next
  case (Cons r c)
  then obtain event where e: "row_to_event r = Inr event" by (auto simp: rbind_Inr_iff)
  note f = row_to_event_fields [OF e]
  from Cons.prems e f have "r_seq r = int i + 1" "r_prev_hash r = prev"
    "verify_chain E a pub (i + 1) (r_entry_hash r) c = Inr None"
    by (auto simp: PAYLOAD_KEYS_def Let_def split: if_splits sum.splits)
  with Cons.IH show ?case by (fastforce simp: algebra_simps)
qed

lemma verify_authors_True:
  assumes "verify_authors E rows as = Inr (True, x)" "a \<in> set as"
  obtains pub where "from_did a = Inr pub" "verify_chain E a pub 0 GENESIS (sort_key r_seq (chain a rows)) = Inr None"
  using assms
  by (induction as) (auto simp: rbind_Inr_iff split: sum.splits option.splits)

lemma verified_rows:
  assumes "journal_verify E rows = Inr (True, x)" "r \<in> set rows"
  obtains pub event raw where "from_did (r_author r) = Inr pub" "row_to_event r = Inr event"
    "r_entry_hash r = entry_hash E (payload_of event)" "b64decode False (r_sig r) = Inr raw"
    "pk_verify E pub (canonical E (JObj (payload_of event))) raw"
    "linked 1 GENESIS (sort_key r_seq (chain (r_author r) rows))"
proof -
  have "r_author r \<in> set (sorted_set (map r_author rows))" using assms(2) by simp
  with assms(1) obtain pub where pub: "from_did (r_author r) = Inr pub"
    and v: "verify_chain E (r_author r) pub 0 GENESIS (sort_key r_seq (chain (r_author r) rows)) = Inr None"
    unfolding journal_verify_def by (rule verify_authors_True)
  have "r \<in> set (sort_key r_seq (chain (r_author r) rows))" using assms(2) by simp
  from verify_chain_sound [OF v this] obtain event raw where e: "row_to_event r = Inr event"
    "pget event ''entry_hash'' = JStr (entry_hash E (payload_of event))" "b64decode False (r_sig r) = Inr raw"
    "pk_verify E pub (canonical E (JObj (payload_of event))) raw" by blast
  moreover have "linked 1 GENESIS (sort_key r_seq (chain (r_author r) rows))"
    using verify_chain_linked [OF v] by simp
  ultimately show ?thesis using that pub row_to_event_fields(3) [OF e(1)] by auto
qed

section \<open>Runs\<close>

text \<open>
  The life of a journal: it is opened (empty, or on the table an earlier process left), appends and
  merges. An operation that raises still leaves a journal behind. With \<open>typed\<close> the clock returns
  floats and the merged events carry an integer \<^verbatim>\<open>lamport\<close>, a float \<^verbatim>\<open>ts\<close> and a text
  \<^verbatim>\<open>kind\<close>, as every event \<^verbatim>\<open>append\<close> makes does.
\<close>

fun is_float :: "json \<Rightarrow> bool" where
  "is_float (JFloat _) = True"
| "is_float _ = False"

inductive journal_run :: "env \<Rightarrow> bool \<Rightarrow> journal \<Rightarrow> bool" for E typed where
  opened: "journal_open identity allowlist [] = Inr j \<Longrightarrow> \<forall>seed. identity = Some seed \<longrightarrow> length seed = 32 \<Longrightarrow>
    journal_run E typed j"
| reopened: "journal_run E typed j \<Longrightarrow> journal_open identity allowlist (j_rows j) = Inr j' \<Longrightarrow>
    \<forall>seed. identity = Some seed \<longrightarrow> length seed = 32 \<Longrightarrow> journal_run E typed j'"
| appended: "journal_run E typed j \<Longrightarrow> (typed \<longrightarrow> is_float now) \<Longrightarrow>
    journal_run E typed (fst (journal_append E kind body now j))"
| merged: "journal_run E typed j \<Longrightarrow> (typed \<longrightarrow> (\<forall>e\<in>set es. typed_event e)) \<Longrightarrow>
    journal_run E typed (fst (journal_merge E es j))"

lemma journal_open_Inr:
  assumes "journal_open identity allowlist rows = Inr j"
  obtains c m where "allowlist = Some c" "max_lamport rows = Inr m"
    "j = \<lparr>j_identity = identity, j_allowlist = c, j_lamport = JInt m, j_rows = rows\<rparr>"
  using assms by (auto simp: journal_open_def require_trust_def rbind_Inr_iff split: option.splits)

lemma journal_run_inv: "journal_run E typed j \<Longrightarrow> journal_inv (j_rows j)"
proof (induction rule: journal_run.induct)
  case (opened identity allowlist j)
  from opened(1) show ?case by (rule journal_open_Inr) (simp add: journal_inv_def)
next
  case (reopened j identity allowlist j')
  from reopened(2) reopened.IH show ?case by (auto elim: journal_open_Inr)
next
  case (appended j now kind body)
  then show ?case by (simp add: journal_append_inv)
next
  case (merged j es)
  show ?case by (rule journal_merge_induct [where P = "\<lambda>j. journal_inv (j_rows j)"]) (simp_all add: merged journal_accept_inv)
qed

text \<open>The invariant of a typed run.\<close>

definition journal_typed :: "env \<Rightarrow> journal \<Rightarrow> bool" where
  "journal_typed E j \<longleftrightarrow> journal_inv (j_rows j) \<and> (\<forall>r\<in>set (j_rows j). row_typed r \<and> row_signed E r) \<and>
     (\<exists>n. j_lamport j = JInt n) \<and> (\<forall>seed. j_identity j = Some seed \<longrightarrow> length seed = 32)"

lemma journal_accept_typed [inv_intros]:
  assumes "journal_typed E j" "typed_event event"
  shows "journal_typed E (fst (journal_accept E event j))"
proof -
  obtain j' res where j': "journal_accept E event j = (j', res)" by (cases "journal_accept E event j")
  from assms(1) have inv: "journal_inv (j_rows j)" by (simp add: journal_typed_def)
  from j' inv show ?thesis
  proof (cases rule: journal_accept_cases)
    case same
    with j' assms show ?thesis by simp
  next
    case (added r author seq eh sig)
    from added(1) obtain pub raw where c: "pget event ''author'' = JStr author" "pget event ''seq'' = JInt seq"
      "from_did author = Inr pub" "b64decode True sig = Inr raw"
      "pk_verify E pub (canonical E (JObj (payload_of event))) raw" "eh = entry_hash E (payload_of event)"
      by (rule event_checks_Some)
    note f = insert_row_fields [OF added(2)] insert_row_typed [OF assms(2) added(2)]
    have p: "payload_of (event_of r) = payload_of event"
      using payload_of_inserted [OF assms(2) added(2) c(1,2) added(5)] .
    have "row_signed E r" using f c p by (simp add: row_signed_def)
    moreover have "journal_inv (j_rows j')" using journal_accept_inv [OF inv] j' by (metis fst_conv)
    moreover have "\<exists>n. j_lamport j' = JInt n"
      using added(9) assms by (auto simp: journal_typed_def typed_event_def)
    ultimately show ?thesis using assms(1) f(7) added j' by (auto simp: journal_typed_def)
  qed
qed

lemma append_event:
  assumes "crypto_ok E" "length seed = 32" "identity_did E seed = Inr author" "now = JFloat f"
    "payload = [(''author'', JStr author), (''seq'', JInt s), (''lamport'', JInt l),
                (''ts'', now), (''kind'', JStr kind), (''body'', body), (''prev_hash'', JStr h)]"
    "insert_row E author s (payload @ [(''entry_hash'', JStr eh), (''sig'', JStr sig)]) h eh sig = Inr r"
    "eh = entry_hash E payload" "sig = b64encode (sign E seed (canonical E (JObj payload)))"
  shows "row_typed r \<and> row_signed E r"
proof -
  let ?e = "payload @ [(''entry_hash'', JStr eh), (''sig'', JStr sig)]"
  have t: "typed_event ?e" by (simp add: assms(4,5) typed_event_def pget_def)
  have p: "payload_of ?e = payload" by (simp add: assms(5) payload_of_def PAYLOAD_KEYS_def pget_def)
  have "payload_of (event_of r) = payload"
    using payload_of_inserted [OF t assms(6)] p by (simp add: assms(5) pget_def)
  moreover have "from_did author = Inr (ed_pub E seed)"
    using identity_did_ok [OF assms(1,2)] assms(3) by (auto simp: from_did_eq)
  moreover have "pk_verify E (ed_pub E seed) m (sign E seed m)" for m
    using crypto_okD [OF assms(1,2)] by (simp add: pk_verify_def sign_def)
  ultimately have "row_signed E r"
    using insert_row_fields [OF assms(6)] assms(7,8) by (simp add: row_signed_def)
  with insert_row_typed(1) [OF t assms(6)] show ?thesis by simp
qed

lemma journal_append_typed [inv_intros]:
  assumes "crypto_ok E" "journal_typed E j" "is_float now"
  shows "journal_typed E (fst (journal_append E kind body now j))"
proof (cases "j_identity j")
  case None
  with assms(2) show ?thesis by (simp add: journal_append_def)
next
  case (Some seed)
  then have len: "length seed = 32" using assms(2) by (simp add: journal_typed_def)
  obtain author where did: "identity_did E seed = Inr author" by (rule identity_did_ok [OF assms(1) len])
  obtain n where n: "j_lamport j = JInt n" using assms(2) by (auto simp: journal_typed_def)
  obtain f where f: "now = JFloat f" using assms(3) by (cases now) auto
  obtain s h where h: "head author (j_rows j) = (s, h)" by (cases "head author (j_rows j)")
  define payload where "payload = [(''author'', JStr author), (''seq'', JInt (s + 1)), (''lamport'', JInt (n + 1)),
    (''ts'', now), (''kind'', JStr kind), (''body'', body), (''prev_hash'', JStr h)]"
  define sig where "sig = b64encode (sign E seed (canonical E (JObj payload)))"
  define event where "event = payload @ [(''entry_hash'', JStr (entry_hash E payload)), (''sig'', JStr sig)]"
  have eq: "journal_append E kind body now j =
      (case insert_row E author (s + 1) event h (entry_hash E payload) sig of
         Inl e \<Rightarrow> (j\<lparr>j_lamport := JInt (n + 1)\<rparr>, Inl e)
       | Inr r \<Rightarrow> (j\<lparr>j_lamport := JInt (n + 1), j_rows := j_rows j @ [r]\<rparr>, Inr event))"
    by (simp add: journal_append_def Some did n h event_def sig_def payload_def Let_def split: sum.split)
  have inv: "journal_inv (j_rows (fst (journal_append E kind body now j)))"
    using assms(2) by (intro journal_append_inv) (simp add: journal_typed_def)
  show ?thesis
  proof (cases "insert_row E author (s + 1) event h (entry_hash E payload) sig")
    case (Inl e)
    with eq assms(2) show ?thesis by (simp add: journal_typed_def)
  next
    case (Inr r)
    have "row_typed r \<and> row_signed E r"
      by (rule append_event [OF assms(1) len did f payload_def Inr [unfolded event_def] refl sig_def])
    with eq Inr inv assms(2) show ?thesis by (auto simp: journal_typed_def)
  qed
qed


lemma journal_run_typed: "journal_run E True j \<Longrightarrow> crypto_ok E \<Longrightarrow> journal_typed E j"
proof (induction rule: journal_run.induct)
  case (opened identity allowlist j)
  from opened(1) show ?case
    by (rule journal_open_Inr) (use opened(2) in \<open>simp add: journal_typed_def journal_inv_def\<close>)
next
  case (reopened j identity allowlist j')
  from reopened(2) show ?case
    by (rule journal_open_Inr) (use reopened in \<open>simp add: journal_typed_def\<close>)
next
  case (appended j now kind body)
  then show ?case by (simp add: journal_append_typed)
next
  case (merged j es)
  show ?case
    by (rule journal_merge_induct [where P = "journal_typed E"]) (use merged in \<open>simp_all add: journal_accept_typed\<close>)
qed

section \<open>Merging again\<close>

lemma linked_complete:
  assumes "journal_inv rows" "1 \<le> seq" "seq \<le> int (length (chain a rows))"
  shows "list_ex (\<lambda>r. r_author r = a \<and> r_seq r = seq) rows"
proof -
  let ?i = "nat (seq - 1)"
  have i: "?i < length (chain a rows)" using assms(2,3) by linarith
  then have "r_seq (chain a rows ! ?i) = seq"
    using assms(1,2) linked_seq [of 1 GENESIS "chain a rows" ?i] by (simp add: journal_inv_def)
  moreover have "chain a rows ! ?i \<in> set (chain a rows)" using i by (rule nth_mem)
  ultimately show ?thesis by (auto simp: list_ex_iff)
qed

lemma next_seq_free:
  assumes "journal_inv rows"
  shows "\<not> list_ex (\<lambda>r. r_author r = a \<and> r_seq r = int (length (chain a rows)) + 1) rows"
proof
  assume "list_ex (\<lambda>r. r_author r = a \<and> r_seq r = int (length (chain a rows)) + 1) rows"
  then obtain r where "r \<in> set (chain a rows)" "r_seq r = int (length (chain a rows)) + 1" by (auto simp: list_ex_iff)
  with assms linked_seq_range [of 1 GENESIS "chain a rows" r] show False by (simp add: journal_inv_def)
qed

text \<open>An event the journal will not take: it fails its own checks, is held, or does not extend the chain.\<close>

definition settled :: "env \<Rightarrow> obj \<Rightarrow> journal \<Rightarrow> bool" where
  "settled E e j \<longleftrightarrow>
     (case event_checks E (j_allowlist j) e of
        None \<Rightarrow> True
      | Some (author, seq, _, _) \<Rightarrow>
          int64 seq \<and>
          (seq \<noteq> int (length (chain author (j_rows j))) + 1 \<or> pget e ''prev_hash'' \<noteq> JStr (last_hash (chain author (j_rows j)))))"

lemma settled_accept: "journal_inv (j_rows j) \<Longrightarrow> settled E e j \<Longrightarrow> journal_accept E e j = (j, Inr False)"
  by (auto simp: settled_def journal_accept_def head_linked split: option.splits)

lemma accept_settled:
  assumes "journal_inv (j_rows j)" "journal_accept E e j = (j', Inr ok)"
  shows "settled E e j'"
  using assms(2,1)
proof (cases rule: journal_accept_cases)
  case same
  then have "ok = False" by simp
  with same assms show ?thesis
    by (auto simp: settled_def journal_accept_def head_linked next_seq_free Let_def split: option.splits if_splits sum.splits)
next
  case (added r author seq eh sig)
  then show ?thesis using insert_row_fields(1) [OF added(2)] by (simp add: settled_def)
qed

lemma settled_stays:
  assumes "journal_inv (j_rows j)" "journal_accept E f j = (j', Inr ok)" "settled E e j"
    and order: "\<And>a m x y n u v. event_checks E (j_allowlist j) e = Some (a, m, x, y) \<Longrightarrow>
      event_checks E (j_allowlist j) f = Some (a, n, u, v) \<Longrightarrow> m \<le> n"
  shows "settled E e j'"
  using assms(2,1)
proof (cases rule: journal_accept_cases)
  case same
  with assms(3) show ?thesis by simp
next
  case (added r author seq eh sig)
  note a = insert_row_fields(1) [OF added(2)]
  show ?thesis
  proof (cases "event_checks E (j_allowlist j) e")
    case None
    then show ?thesis by (simp add: settled_def added)
  next
    case (Some x)
    obtain b m u v where x: "x = (b, m, u, v)" by (cases x)
    from order [of b m u v] Some x added(1) have "b = author \<Longrightarrow> m \<le> seq" by auto
    with Some x assms(3) added a show ?thesis by (auto simp: settled_def)
  qed
qed

lemma accept_all_settled:
  assumes "journal_inv (j_rows j)" "accept_all E es j n = (j', Inr k)" "\<forall>e\<in>D. settled E e j"
    and "\<And>e f. e \<in> D \<Longrightarrow> f \<in> set es \<Longrightarrow> le e f" "sorted_wrt le es"
    and le: "\<And>e f a m x y q u v c. le e f \<Longrightarrow> event_checks E c e = Some (a, m, x, y) \<Longrightarrow>
      event_checks E c f = Some (a, q, u, v) \<Longrightarrow> m \<le> q"
  shows "(\<forall>e\<in>D \<union> set es. settled E e j') \<and> journal_inv (j_rows j')"
  using assms(1-5)
proof (induction es arbitrary: j n D)
  case Nil
  then show ?case by simp
next
  case (Cons f es)
  obtain j1 ok where j1: "journal_accept E f j = (j1, Inr ok)"
    and rest: "accept_all E es j1 (if ok then n + 1 else n) = (j', Inr k)"
    using Cons.prems(2) by (auto split: prod.splits sum.splits)
  have inv: "journal_inv (j_rows j1)" using journal_accept_inv [OF Cons.prems(1), of E f] j1 by simp
  have st: "\<forall>e\<in>insert f D. settled E e j1"
  proof
    fix e assume e: "e \<in> insert f D"
    show "settled E e j1"
    proof (cases "e = f")
      case True
      then show ?thesis using accept_settled [OF Cons.prems(1) j1] by simp
    next
      case False
      with e have D: "settled E e j" "le e f" using Cons.prems(3,4) by auto
      show ?thesis using le [OF D(2)] by (rule settled_stays [OF Cons.prems(1) j1 D(1)])
    qed
  qed
  have "(\<forall>e\<in>insert f D \<union> set es. settled E e j') \<and> journal_inv (j_rows j')"
    by (rule Cons.IH [OF inv rest st]) (use Cons.prems(4,5) in auto)
  then show ?case by auto
qed

lemma accept_all_no_op:
  "journal_inv (j_rows j) \<Longrightarrow> \<forall>e\<in>set es. settled E e j \<Longrightarrow> accept_all E es j n = (j, Inr n)"
  by (induction es) (auto simp: settled_accept)

lemma merge_keys_key: "merge_keys E es = Inr ks \<Longrightarrow> (k, e) \<in> set ks \<Longrightarrow> merge_key E e = Inr k"
  by (induction es arbitrary: ks) (auto simp: rbind_Inr_iff)

lemma dget_pget: "pget e k = JStr s \<Longrightarrow> dget e k d = JStr s" "pget e k = JInt n \<Longrightarrow> dget e k d = JInt n"
  by (auto simp: pget_def dget_def split: option.splits)

lemma merge_key_event:
  assumes "event_checks E c e = Some (a, n, x, y)"
  shows "merge_key E e = Inr (a, n)"
  using assms by (rule event_checks_Some) (simp add: merge_key_def dget_pget)

lemma merge_again:
  assumes "journal_inv (j_rows j)" "journal_merge E es j = (j', Inr n)"
  shows "journal_merge E es j' = (j', Inr 0)"
proof -
  obtain ks where ks: "merge_keys E es = Inr ks" and all: "accept_all E (map snd (sort_key fst ks)) j 0 = (j', Inr n)"
    using assms(2) by (auto simp: journal_merge_def split: sum.splits)
  define le where "le = (\<lambda>e f. \<exists>k l. merge_key E e = Inr k \<and> merge_key E f = Inr l \<and> k \<le> l)"
  have "sorted_wrt (\<lambda>p q. fst p \<le> fst q) (sort_key fst ks)"
    using sorted_sort_key [of fst ks] unfolding sorted_map .
  moreover have "le (snd p) (snd q)" if "p \<in> set (sort_key fst ks)" "q \<in> set (sort_key fst ks)" "fst p \<le> fst q" for p q
    using that merge_keys_key [OF ks, of "fst p" "snd p"] merge_keys_key [OF ks, of "fst q" "snd q"]
    unfolding le_def by auto
  ultimately have sorted: "sorted_wrt le (map snd (sort_key fst ks))"
    unfolding sorted_wrt_map by (rule sorted_wrt_mono_rel [rotated])
  have "(\<forall>e\<in>{} \<union> set (map snd (sort_key fst ks)). settled E e j') \<and> journal_inv (j_rows j')"
  proof (rule accept_all_settled [OF assms(1) all _ _ sorted])
    show "m \<le> q" if "le e f" "event_checks E c e = Some (a, m, x, y)" "event_checks E c f = Some (a, q, u, v)"
      for e f a m x y q u v c
      using that merge_key_event [OF that(2)] merge_key_event [OF that(3)] by (auto simp: le_def)
  qed simp_all
  then show ?thesis by (simp add: journal_merge_def ks accept_all_no_op)
qed

section \<open>Events as their author makes them\<close>

definition event_payload :: "did \<Rightarrow> int \<Rightarrow> json \<Rightarrow> json \<Rightarrow> string \<Rightarrow> json \<Rightarrow> string \<Rightarrow> obj" where
  "event_payload author seq lamport ts kind body prev =
     [(''author'', JStr author), (''seq'', JInt seq), (''lamport'', lamport), (''ts'', ts), (''kind'', JStr kind),
      (''body'', body), (''prev_hash'', JStr prev)]"

definition signed_event :: "env \<Rightarrow> identity \<Rightarrow> obj \<Rightarrow> obj" where
  "signed_event E seed payload =
     payload @ [(''entry_hash'', JStr (entry_hash E payload)),
                (''sig'', JStr (b64encode (sign E seed (canonical E (JObj payload)))))]"

lemma payload_of_signed [simp]:
  "payload_of (signed_event E seed (event_payload author seq l ts kind body prev)) =
     event_payload author seq l ts kind body prev"
  by (simp add: payload_of_def signed_event_def event_payload_def PAYLOAD_KEYS_def pget_def)

lemma pget_signed_event [simp]:
  "pget (signed_event E seed (event_payload author seq l ts kind body prev)) ''author'' = JStr author"
  "pget (signed_event E seed (event_payload author seq l ts kind body prev)) ''seq'' = JInt seq"
  "pget (signed_event E seed (event_payload author seq l ts kind body prev)) ''lamport'' = l"
  "pget (signed_event E seed (event_payload author seq l ts kind body prev)) ''ts'' = ts"
  "pget (signed_event E seed (event_payload author seq l ts kind body prev)) ''kind'' = JStr kind"
  "pget (signed_event E seed (event_payload author seq l ts kind body prev)) ''body'' = body"
  "pget (signed_event E seed (event_payload author seq l ts kind body prev)) ''prev_hash'' = JStr prev"
  "pget (signed_event E seed (event_payload author seq l ts kind body prev)) ''entry_hash'' =
     JStr (entry_hash E (event_payload author seq l ts kind body prev))"
  "pget (signed_event E seed (event_payload author seq l ts kind body prev)) ''sig'' =
     JStr (b64encode (sign E seed (canonical E (JObj (event_payload author seq l ts kind body prev)))))"
  by (simp_all add: signed_event_def event_payload_def pget_def)

lemma signed_event_checks:
  assumes "crypto_ok E" "length seed = 32" "identity_did E seed = Inr author" "allow author" "1 \<le> seq"
  shows "event_checks E allow (signed_event E seed (event_payload author seq l ts kind body prev)) =
    Some (author, seq, entry_hash E (event_payload author seq l ts kind body prev),
      b64encode (sign E seed (canonical E (JObj (event_payload author seq l ts kind body prev)))))"
proof -
  let ?p = "event_payload author seq l ts kind body prev"
  have keys: "list_all (\<lambda>k. k \<in> set (dkeys (signed_event E seed ?p))) (PAYLOAD_KEYS @ [''entry_hash'', ''sig''])"
    by (simp add: signed_event_def event_payload_def PAYLOAD_KEYS_def dkeys_def)
  have pub: "from_did author = Inr (ed_pub E seed)"
    using identity_did_ok [OF assms(1,2)] assms(3) by (auto simp: from_did_eq)
  have "pk_verify E (ed_pub E seed) m (sign E seed m)" for m
    using crypto_okD [OF assms(1,2)] by (simp add: pk_verify_def sign_def)
  with keys pub assms(4,5) show ?thesis by (simp add: event_checks_def)
qed

text \<open>A journal with one event, and a replica that has not seen it yet.\<close>

definition ref_payload1 :: obj where
  "ref_payload1 = event_payload (ref_did (CHR ''a'')) 1 (JInt 1) (JFloat (Fin 5)) ''state'' (JInt 7) GENESIS"

definition ref_event1 :: obj where
  "ref_event1 = signed_event ref_env (ref_seed (CHR ''a'')) ref_payload1"

definition ref_row1 :: row where
  "ref_row1 = \<lparr>r_author = ref_did (CHR ''a''), r_seq = 1, r_lamport = JInt 1, r_ts = JFloat (Fin 5), r_kind = JStr ''state'',
     r_body = JInt 7, r_prev_hash = GENESIS, r_entry_hash = entry_hash ref_env ref_payload1,
     r_sig = b64encode (sign ref_env (ref_seed (CHR ''a'')) (canonical ref_env (JObj ref_payload1)))\<rparr>"

definition ref_node :: journal where
  "ref_node = \<lparr>j_identity = Some (ref_seed (CHR ''a'')), j_allowlist = allow_any, j_lamport = JInt 0, j_rows = []\<rparr>"

definition ref_replica :: journal where
  "ref_replica = \<lparr>j_identity = None, j_allowlist = allow_any, j_lamport = JInt 0, j_rows = []\<rparr>"

lemma ref_node_append:
  "journal_append ref_env ''state'' (JInt 7) (JFloat (Fin 5)) ref_node =
     (ref_node\<lparr>j_lamport := JInt 1, j_rows := [ref_row1]\<rparr>, Inr ref_event1)"
  by (simp add: journal_append_def ref_node_def head_def insert_row_def column_def not_null_def int64_def Let_def
      ref_row1_def ref_event1_def ref_payload1_def event_payload_def signed_event_def pget_def)

lemma ref_open:
  "journal_open (Some (ref_seed (CHR ''a''))) (Some allow_any) [] = Inr ref_node"
  "journal_open None (Some allow_any) [] = Inr ref_replica"
  by (simp_all add: journal_open_def require_trust_def max_lamport_def ref_node_def ref_replica_def)

lemma ref_node_run: "journal_run ref_env True (ref_node\<lparr>j_lamport := JInt 1, j_rows := [ref_row1]\<rparr>)"
proof -
  have "journal_run ref_env True ref_node" by (rule journal_run.opened [OF ref_open(1)]) simp
  from journal_run.appended [OF this, of "JFloat (Fin 5)" "''state''" "JInt 7"] show ?thesis
    by (simp add: ref_node_append)
qed

lemma ref_event1_checks:
  "event_checks ref_env allow_any ref_event1 =
     Some (ref_did (CHR ''a''), 1, entry_hash ref_env ref_payload1,
       b64encode (sign ref_env (ref_seed (CHR ''a'')) (canonical ref_env (JObj ref_payload1))))"
  unfolding ref_event1_def ref_payload1_def by (rule signed_event_checks) (simp_all add: allow_any_def)

lemma ref_replica_merge:
  "journal_merge ref_env [ref_event1] ref_replica = (ref_replica\<lparr>j_lamport := JInt 1, j_rows := [ref_row1]\<rparr>, Inr 1)"
proof -
  have "insert_row ref_env (ref_did (CHR ''a'')) 1 ref_event1 GENESIS (entry_hash ref_env ref_payload1)
      (b64encode (sign ref_env (ref_seed (CHR ''a'')) (canonical ref_env (JObj ref_payload1)))) = Inr ref_row1"
    by (simp add: insert_row_def column_def not_null_def int64_def ref_event1_def ref_payload1_def ref_row1_def)
  then have "journal_accept ref_env ref_event1 ref_replica = (ref_replica\<lparr>j_lamport := JInt 1, j_rows := [ref_row1]\<rparr>, Inr True)"
    using ref_event1_checks
    by (simp add: journal_accept_def ref_replica_def head_def int64_def lamport_gt_def)
      (simp add: ref_event1_def ref_payload1_def)
  moreover have "merge_key ref_env ref_event1 = Inr (ref_did (CHR ''a''), 1)"
    using ref_event1_checks by (rule merge_key_event)
  ultimately show ?thesis by (simp add: journal_merge_def)
qed

lemma linked_prev:
  "linked n prev c \<Longrightarrow> i < length c \<Longrightarrow> r_prev_hash (c ! i) = (if i = 0 then prev else r_entry_hash (c ! (i - 1)))"
  by (induction c arbitrary: n prev i) (auto simp: nth_Cons split: nat.splits)

section \<open>Properties\<close>

text \<open>Every journal that opening, appending, merging and reopening can produce, whatever events are fed
  to it and whether or not an operation raised half way, holds for each author one contiguous chain:
  sequence numbers 1, 2, 3, \<dots> without gap or repetition, each event naming the hash of the one before
  and the first naming the genesis hash.\<close>

theorem journal_chains_linked:
  assumes "journal_run E typed j" "i < length (chain a (j_rows j))"
  shows "r_seq (chain a (j_rows j) ! i) = int i + 1 \<and>
    r_prev_hash (chain a (j_rows j) ! i) = (if i = 0 then GENESIS else r_entry_hash (chain a (j_rows j) ! (i - 1)))"
  using journal_run_inv [OF assms(1)] assms(2) linked_seq linked_prev by (fastforce simp: journal_inv_def)

theorem journal_chains_linked_witness:
  "r_seq ref_row1 = 1 \<and> r_prev_hash ref_row1 = GENESIS"
  using journal_chains_linked [OF ref_node_run, of 0 "ref_did (CHR ''a'')"] by (simp add: ref_row1_def)





text \<open>Merging is idempotent: feeding a batch again after it was merged stores nothing, counts nothing and
  leaves the journal as it is, whatever the batch holds.\<close>

theorem merge_idempotent:
  assumes "journal_run E typed j" "journal_merge E es j = (j', Inr n)"
  shows "journal_merge E es j' = (j', Inr 0)"
  using journal_run_inv [OF assms(1)] assms(2) by (rule merge_again)

theorem merge_idempotent_witness:
  "journal_merge ref_env [ref_event1] (ref_replica\<lparr>j_lamport := JInt 1, j_rows := [ref_row1]\<rparr>) =
     (ref_replica\<lparr>j_lamport := JInt 1, j_rows := [ref_row1]\<rparr>, Inr 0)"
proof -
  have "journal_run ref_env True ref_replica" by (rule journal_run.opened [OF ref_open(2)]) simp
  from merge_idempotent [OF this ref_replica_merge] show ?thesis .
qed

section \<open>Events whose columns do not keep their values\<close>

lemma rows_to_events_raise: "r \<in> set rs \<Longrightarrow> row_to_event r = Inl e \<Longrightarrow> \<exists>e'. rows_to_events rs = Inl e'"
proof (induction rs)
  case Nil
  then show ?case by simp
next
  case (Cons x rs)
  then show ?case by (cases "row_to_event x"; cases "rows_to_events rs") auto
qed

lemma max_lamport_text:
  assumes "\<forall>r\<in>set rows. row_typed r" "r_lamport r = JStr s"
  shows "max_lamport (rows @ [r]) = to_int (JStr s)"
proof -
  let ?f = "\<lambda>w m. if cell_key m < cell_key w then w else m"
  have num: "\<exists>n. fold ?f vs v = JInt n" if "\<forall>w\<in>set (v # vs). \<exists>n. w = JInt n" for v vs
    using that by (induction vs arbitrary: v) (auto split: if_splits)
  show ?thesis
  proof (cases rows)
    case Nil
    then show ?thesis by (simp add: max_lamport_def assms(2))
  next
    case (Cons x xs)
    have "\<forall>w\<in>set (map r_lamport rows). \<exists>n. w = JInt n" using assms(1) by (auto simp: row_typed_def)
    with num [of "r_lamport x" "map r_lamport xs"] Cons obtain n where
      "fold ?f (map r_lamport xs) (r_lamport x) = JInt n" by auto
    then show ?thesis by (simp add: max_lamport_def Cons assms(2) less_prod_def)
  qed
qed

lemma accept_next:
  assumes "journal_inv (j_rows j)" "event_checks E (j_allowlist j) e = Some (author, seq, eh, sig)" "int64 seq"
    "head author (j_rows j) = (seq - 1, h)" "pget e ''prev_hash'' = JStr h"
    "insert_row E author seq e h eh sig = Inr r"
  shows "journal_accept E e j =
    (case lamport_gt (pget e ''lamport'') (j_lamport j) of
       Inl err \<Rightarrow> (j\<lparr>j_rows := j_rows j @ [r]\<rparr>, Inl err)
     | Inr gt \<Rightarrow> ((if gt then j\<lparr>j_rows := j_rows j @ [r], j_lamport := pget e ''lamport''\<rparr> else j\<lparr>j_rows := j_rows j @ [r]\<rparr>), Inr True))"
proof -
  from assms(4) head_linked [OF assms(1), of author] have "seq = int (length (chain author (j_rows j))) + 1" by simp
  with next_seq_free [OF assms(1), of author] have "\<not> list_ex (\<lambda>r. r_author r = author \<and> r_seq r = seq) (j_rows j)" by simp
  with assms show ?thesis by (auto simp: journal_accept_def Let_def split: sum.split)
qed

lemma merge_one:
  assumes "event_checks E c e = Some (author, seq, eh, sig)"
  shows "journal_merge E [e] j =
    (case journal_accept E e j of (j', Inl err) \<Rightarrow> (j', Inl err) | (j', Inr ok) \<Rightarrow> (j', Inr (if ok then 1 else 0)))"
  using merge_key_event [OF assms] by (simp add: journal_merge_def split: prod.split sum.split)



end
