(* ===== verification/Sync.thy ===== *)
theory Sync
  imports Journal "HOL-Library.Sublist" "HOL-Library.Multiset"
begin

text \<open>
  \<^verbatim>\<open>citadel/sync.py\<close> and \<^verbatim>\<open>citadel/replication.py\<close>: anti-entropy between two journals. A
  message is the JSON object the transport carries; a handler returns the journal it leaves behind,
  the messages it sends and what it returns or raises.

  For journals whose rows keep their values and whose chains do not fork, one exchange leaves both
  sides with the longer chain of every author (\<open>sync_merge\<close>), so with the same events in the same
  order; the exchange ends after five messages.
\<close>

section \<open>Messages\<close>

definition HAVE :: string where
  "HAVE = ''journal_have''"

definition EVENTS :: string where
  "EVENTS = ''journal_events''"

definition heads_json :: "row list \<Rightarrow> json" where
  "heads_json rows = JObj (map (\<lambda>(a, n). (a, JInt n)) (heads rows))"

definition have_message :: "row list \<Rightarrow> obj" where
  "have_message rows = [(''kind'', JStr HAVE), (''heads'', heads_json rows)]"

definition remote_seq :: "json \<Rightarrow> string \<Rightarrow> int res" where
  "remote_seq remote_heads author =
     (case remote_heads of JObj d \<Rightarrow> to_int (dget d author (JInt 0)) | _ \<Rightarrow> Inr 0)"

definition events_since :: "row list \<Rightarrow> json \<Rightarrow> obj list res" where
  "events_since rows remote_heads =
     rfold (\<lambda>(author, local_seq) out.
       rbind (remote_seq remote_heads author) (\<lambda>have.
         if have < local_seq then rbind (journal_since author have rows) (\<lambda>es. Inr (out @ es)) else Inr out))
       (heads rows) []"

definition events_message :: "obj list \<Rightarrow> obj" where
  "events_message events = [(''kind'', JStr EVENTS), (''events'', JList (map JObj events))]"

definition respond_to_have :: "row list \<Rightarrow> json \<Rightarrow> obj res" where
  "respond_to_have rows have_msg =
     (let heads = (case have_msg of JObj m \<Rightarrow> pget m ''heads'' | _ \<Rightarrow> JObj [])
      in rbind (events_since rows (if truthy heads then heads else JObj [])) (\<lambda>es. Inr (events_message es)))"

text \<open>The elements \<^verbatim>\<open>merge\<close> sorts: the key of one that is no object raises.\<close>

fun merge_args :: "env \<Rightarrow> json list \<Rightarrow> obj list res" where
  "merge_args E [] = Inr []"
| "merge_args E (JObj e # vs) = rbind (merge_key E e) (\<lambda>_. rbind (merge_args E vs) (\<lambda>es. Inr (e # es)))"
| "merge_args E (v # vs) = Inl (AttributeError ''no attribute get'')"

definition merge_json :: "env \<Rightarrow> json \<Rightarrow> journal \<Rightarrow> journal \<times> int res" where
  "merge_json E events j =
     (if \<not> truthy events then journal_merge E [] j
      else case events of
        JList vs \<Rightarrow> (case merge_args E vs of Inl e \<Rightarrow> (j, Inl e) | Inr es \<Rightarrow> journal_merge E es j)
      | JStr _ \<Rightarrow> (j, Inl (AttributeError ''no attribute get''))
      | JObj _ \<Rightarrow> (j, Inl (AttributeError ''no attribute get''))
      | _ \<Rightarrow> (j, Inl (TypeError ''object is not iterable'')))"

definition apply_events_message :: "env \<Rightarrow> json \<Rightarrow> journal \<Rightarrow> journal \<times> int res" where
  "apply_events_message E msg j =
     (case msg of
        JObj m \<Rightarrow> if pget m ''kind'' \<noteq> JStr EVENTS then (j, Inr 0) else merge_json E (pget m ''events'') j
      | _ \<Rightarrow> (j, Inr 0))"

definition sync_round :: "env \<Rightarrow> journal \<Rightarrow> journal \<Rightarrow> (journal \<times> journal) \<times> (int \<times> int) res" where
  "sync_round E a b =
     (case events_since (j_rows b) (heads_json (j_rows a)) of
        Inl e \<Rightarrow> ((a, b), Inl e)
      | Inr to_a \<Rightarrow>
          (case events_since (j_rows a) (heads_json (j_rows b)) of
             Inl e \<Rightarrow> ((a, b), Inl e)
           | Inr to_b \<Rightarrow>
               (case journal_merge E to_a a of
                  (a', Inl e) \<Rightarrow> ((a', b), Inl e)
                | (a', Inr n) \<Rightarrow>
                    (case journal_merge E to_b b of
                       (b', Inl e) \<Rightarrow> ((a', b'), Inl e)
                     | (b', Inr m) \<Rightarrow> ((a', b'), Inr (n, m))))))"

section \<open>The replication endpoint\<close>

definition have_tagged :: "row list \<Rightarrow> bool \<Rightarrow> obj" where
  "have_tagged rows reply = dset ''reply'' (JBool reply) (have_message rows)"

definition initiate :: "did \<Rightarrow> journal \<Rightarrow> (did \<times> json) list" where
  "initiate to_did j = [(to_did, JObj (have_tagged (j_rows j) False))]"

definition on_message :: "env \<Rightarrow> did \<Rightarrow> json \<Rightarrow> journal \<Rightarrow> journal \<times> (did \<times> json) list \<times> int res" where
  "on_message E sender payload j =
     (case payload of
        JObj m \<Rightarrow>
          if pget m ''kind'' = JStr HAVE then
            (case respond_to_have (j_rows j) payload of
               Inl e \<Rightarrow> (j, [], Inl e)
             | Inr reply \<Rightarrow>
                 (j, (sender, JObj reply) #
                     (if truthy (pget m ''reply'') then [] else [(sender, JObj (have_tagged (j_rows j) True))]), Inr 0))
          else if pget m ''kind'' = JStr EVENTS then
            (let (j', res) = apply_events_message E payload j in (j', [], res))
          else (j, [], Inr 0)
      | _ \<Rightarrow> (j, [], Inr 0))"

section \<open>What is sent\<close>

abbreviation authors :: "row list \<Rightarrow> string list" where
  "authors rows \<equiv> sorted_set (map r_author rows)"

text \<open>The part of the chain of \<open>a\<close> in \<open>B\<close> that is longer than the one in \<open>A\<close>.\<close>

definition missing :: "row list \<Rightarrow> row list \<Rightarrow> string \<Rightarrow> row list" where
  "missing A B a = drop (length (chain a A)) (chain a B)"

lemma chain_Nil_iff: "chain a rows = [] \<longleftrightarrow> a \<notin> r_author ` set rows"
  by (auto simp: filter_empty_conv)

lemma heads_eq: "journal_inv rows \<Longrightarrow> heads rows = map (\<lambda>a. (a, int (length (chain a rows)))) (authors rows)"
  by (simp add: heads_def head_linked)

lemma remote_seq_heads:
  assumes "journal_inv A"
  shows "remote_seq (heads_json A) a = Inr (int (length (chain a A)))"
proof (cases "a \<in> r_author ` set A")
  case True
  then show ?thesis
    by (simp add: remote_seq_def heads_json_def heads_eq [OF assms] comp_def dget_def map_of_map_restrict restrict_map_def)
next
  case False
  then have "chain a A = []" by (simp add: chain_Nil_iff)
  with False show ?thesis
    by (simp add: remote_seq_def heads_json_def heads_eq [OF assms] comp_def dget_def map_of_map_restrict restrict_map_def)
qed

lemma linked_filter: "linked n prev c \<Longrightarrow> filter (\<lambda>r. n + int k - 1 < r_seq r) c = drop k c"
proof (induction c arbitrary: n prev k)
  case Nil
  then show ?case by simp
next
  case (Cons r c)
  then have l: "r_seq r = n" "linked (n + 1) (r_entry_hash r) c" by auto
  have all: "filter (\<lambda>x. n - 1 < r_seq x) c = c"
    using linked_seq_range [OF l(2)] by (intro filter_True) force
  show ?case
  proof (cases k)
    case 0
    with l all show ?thesis by simp
  next
    case (Suc m)
    with Cons.IH [OF l(2), of m] l show ?thesis by (simp add: algebra_simps)
  qed
qed

lemma journal_since_typed:
  assumes "journal_inv rows" "\<forall>r\<in>set rows. row_typed r" "int64 (int k)"
  shows "journal_since a (int k) rows = Inr (map event_of (drop k (chain a rows)))"
proof -
  have l: "linked 1 GENESIS (chain a rows)" using assms(1) by (simp add: journal_inv_def)
  have f: "filter (\<lambda>r. r_author r = a \<and> int k < r_seq r) rows = drop k (chain a rows)"
    using linked_filter [OF l, of k] by (simp add: filter_filter conj_commute)
  have "sorted (map r_seq (drop k (chain a rows)))"
    using linked_sorted [OF l] by (simp add: drop_map [symmetric] sorted_wrt_drop)
  then have "sort_key r_seq (drop k (chain a rows)) = drop k (chain a rows)" by (rule sort_key_id_if_sorted)
  moreover have "\<forall>r\<in>set (drop k (chain a rows)). row_typed r" using assms(2) by (auto dest: in_set_dropD)
  ultimately show ?thesis using assms(3) by (simp add: journal_since_def f rows_to_events_typed)
qed

lemma chain_length_int64:
  assumes "journal_inv rows" "\<forall>r\<in>set rows. row_typed r"
  shows "int64 (int (length (chain a rows)))"
proof (cases "chain a rows = []")
  case True
  then show ?thesis by (simp add: int64_def)
next
  case False
  then have "last (chain a rows) \<in> set (chain a rows)" by (rule last_in_set)
  then have "last (chain a rows) \<in> set rows" by simp
  with assms(2) have "int64 (r_seq (last (chain a rows)))" by (auto simp: row_typed_def)
  moreover have l: "linked 1 GENESIS (chain a rows)" using assms(1) by (simp add: journal_inv_def)
  have "r_seq (last (chain a rows)) = int (length (chain a rows))"
    using False linked_seq [OF l, of "length (chain a rows) - 1"] by (simp add: last_conv_nth of_nat_diff Suc_le_eq)
  ultimately show ?thesis by simp
qed

lemma events_since_eq:
  assumes "journal_inv A" "journal_inv B" "\<forall>r\<in>set A. row_typed r" "\<forall>r\<in>set B. row_typed r"
  shows "events_since B (heads_json A) = Inr (map event_of (concat (map (missing A B) (authors B))))"
proof -
  let ?step = "\<lambda>(author, local_seq) out.
       rbind (remote_seq (heads_json A) author) (\<lambda>have.
         if have < local_seq then rbind (journal_since author have B) (\<lambda>es. Inr (out @ es)) else Inr out)"
  have "rfold ?step (map (\<lambda>a. (a, int (length (chain a B)))) as) out =
      Inr (out @ map event_of (concat (map (missing A B) as)))" for as out
  proof (induction as arbitrary: out)
    case Nil
    then show ?case by simp
  next
    case (Cons a as)
    have "?step (a, int (length (chain a B))) out = Inr (out @ map event_of (missing A B a))"
      using journal_since_typed [OF assms(2,4) chain_length_int64 [OF assms(1,3)], of a a]
      by (simp add: remote_seq_heads [OF assms(1)] missing_def)
    with Cons show ?case by simp
  qed
  then show ?thesis by (simp add: events_since_def heads_eq [OF assms(2)])
qed

section \<open>What is stored\<close>

text \<open>An honest event extends the chain it belongs to.\<close>

lemma event_of_checks:
  assumes "row_typed r" "row_signed E r" "allow (r_author r)" "1 \<le> r_seq r"
  shows "event_checks E allow (event_of r) = Some (r_author r, r_seq r, r_entry_hash r, r_sig r)"
proof -
  from assms(2) obtain pub raw where "from_did (r_author r) = Inr pub" "b64decode True (r_sig r) = Inr raw"
    "pk_verify E pub (canonical E (JObj (payload_of (event_of r)))) raw"
    "entry_hash E (payload_of (event_of r)) = r_entry_hash r" by (auto simp: row_signed_def)
  moreover have "list_all (\<lambda>k. k \<in> set (dkeys (event_of r))) (PAYLOAD_KEYS @ [''entry_hash'', ''sig''])"
    using event_of_keys by (auto simp: list_all_iff)
  ultimately show ?thesis using assms(3,4) by (simp add: event_checks_def)
qed

lemma accept_row:
  assumes "journal_typed E j" "row_typed r" "row_signed E r" "j_allowlist j (r_author r)"
    "r_seq r = int (length (chain (r_author r) (j_rows j))) + 1" "r_prev_hash r = last_hash (chain (r_author r) (j_rows j))"
  obtains j' where "journal_accept E (event_of r) j = (j', Inr True)" "j_rows j' = j_rows j @ [r]"
    "j_allowlist j' = j_allowlist j" "j_identity j' = j_identity j" "journal_typed E j'"
proof -
  obtain n where n: "j_lamport j = JInt n" and inv: "journal_inv (j_rows j)" using assms(1) by (auto simp: journal_typed_def)
  obtain l where l: "r_lamport r = JInt l" "int64 (r_seq r)" using assms(2) by (auto simp: row_typed_def)
  have h: "head (r_author r) (j_rows j) = (r_seq r - 1, r_prev_hash r)"
    using head_linked [OF inv] assms(5,6) by simp
  have c: "event_checks E (j_allowlist j) (event_of r) = Some (r_author r, r_seq r, r_entry_hash r, r_sig r)"
    using assms by (intro event_of_checks) auto
  have acc: "journal_accept E (event_of r) j =
      ((if n < l then j\<lparr>j_rows := j_rows j @ [r], j_lamport := JInt l\<rparr> else j\<lparr>j_rows := j_rows j @ [r]\<rparr>), Inr True)"
    using accept_next [OF inv c l(2) h _ insert_event_of [OF assms(2)]] l n by (simp add: lamport_gt_def)
  moreover have "journal_typed E (fst (journal_accept E (event_of r) j))"
    using assms(1,2) by (intro journal_accept_typed event_of_typed)
  ultimately show ?thesis using that [OF acc] by simp
qed

lemma accept_rows:
  assumes "journal_typed E j" "linked 1 GENESIS (chain a (j_rows j) @ rs)" "j_allowlist j a"
    "\<forall>r\<in>set rs. r_author r = a \<and> row_typed r \<and> row_signed E r"
  shows "\<exists>j'. (\<forall>es n. accept_all E (map event_of rs @ es) j n = accept_all E es j' (n + int (length rs))) \<and>
    j_rows j' = j_rows j @ rs \<and> j_allowlist j' = j_allowlist j \<and> j_identity j' = j_identity j \<and> journal_typed E j'"
  using assms
proof (induction rs arbitrary: j)
  case Nil
  then show ?case by auto
next
  case (Cons r rs)
  from Cons.prems(4) have r: "r_author r = a" "row_typed r" "row_signed E r" by auto
  have "linked 1 GENESIS (chain a (j_rows j) @ [r])"
    using Cons.prems(2) linked_prefix [of 1 GENESIS "chain a (j_rows j) @ [r]" rs] by simp
  then have s: "r_seq r = int (length (chain (r_author r) (j_rows j))) + 1" "r_prev_hash r = last_hash (chain (r_author r) (j_rows j))"
    using r(1) by (auto simp: linked_snoc)
  obtain j1 where j1: "journal_accept E (event_of r) j = (j1, Inr True)" "j_rows j1 = j_rows j @ [r]"
    "j_allowlist j1 = j_allowlist j" "j_identity j1 = j_identity j" "journal_typed E j1"
    using accept_row [OF Cons.prems(1) r(2,3) _ s] Cons.prems(3) r(1) by metis
  have "\<exists>j'. (\<forall>es n. accept_all E (map event_of rs @ es) j1 n = accept_all E es j' (n + int (length rs))) \<and>
      j_rows j' = j_rows j1 @ rs \<and> j_allowlist j' = j_allowlist j1 \<and> j_identity j' = j_identity j1 \<and> journal_typed E j'"
    by (rule Cons.IH [OF j1(5)]) (use Cons.prems r(1) j1 in auto)
  then show ?case using j1 by (auto simp: algebra_simps)
qed

lemma accept_suffixes:
  assumes "journal_typed E j" "distinct as"
    "\<forall>a\<in>set as. linked 1 GENESIS (chain a (j_rows j) @ f a) \<and> (f a \<noteq> [] \<longrightarrow> j_allowlist j a) \<and>
       (\<forall>r\<in>set (f a). r_author r = a \<and> row_typed r \<and> row_signed E r)"
  shows "\<exists>j'. accept_all E (map event_of (concat (map f as))) j n = (j', Inr (n + int (length (concat (map f as))))) \<and>
    j_rows j' = j_rows j @ concat (map f as) \<and> j_allowlist j' = j_allowlist j \<and> j_identity j' = j_identity j \<and>
    journal_typed E j'"
  using assms
proof (induction as arbitrary: j n)
  case Nil
  then show ?case by auto
next
  case (Cons a as)
  have a: "linked 1 GENESIS (chain a (j_rows j) @ f a)" "\<forall>r\<in>set (f a). r_author r = a \<and> row_typed r \<and> row_signed E r"
    using Cons.prems(3) by auto
  have "\<exists>j1. (\<forall>es n. accept_all E (map event_of (f a) @ es) j n = accept_all E es j1 (n + int (length (f a)))) \<and>
      j_rows j1 = j_rows j @ f a \<and> j_allowlist j1 = j_allowlist j \<and> j_identity j1 = j_identity j \<and> journal_typed E j1"
  proof (cases "f a = []")
    case True
    with Cons.prems(1) show ?thesis by auto
  next
    case False
    with Cons.prems(3) have "j_allowlist j a" by simp
    from accept_rows [OF Cons.prems(1) a(1) this a(2)] show ?thesis .
  qed
  then obtain j1 where j1: "\<And>es n. accept_all E (map event_of (f a) @ es) j n = accept_all E es j1 (n + int (length (f a)))"
    "j_rows j1 = j_rows j @ f a" "j_allowlist j1 = j_allowlist j" "j_identity j1 = j_identity j" "journal_typed E j1" by blast
  have other: "chain b (j_rows j1) = chain b (j_rows j)" if "b \<in> set as" for b
  proof -
    have "b \<noteq> a" using Cons.prems(2) that by auto
    then have "chain b (f a) = []" using a(2) by (auto simp: filter_empty_conv)
    then show ?thesis by (simp add: j1(2))
  qed
  have "\<exists>j'. accept_all E (map event_of (concat (map f as))) j1 (n + int (length (f a))) =
        (j', Inr (n + int (length (f a)) + int (length (concat (map f as))))) \<and>
      j_rows j' = j_rows j1 @ concat (map f as) \<and> j_allowlist j' = j_allowlist j1 \<and> j_identity j' = j_identity j1 \<and>
      journal_typed E j'"
  proof (rule Cons.IH [OF j1(5)])
    show "distinct as" using Cons.prems(2) by simp
    show "\<forall>b\<in>set as. linked 1 GENESIS (chain b (j_rows j1) @ f b) \<and> (f b \<noteq> [] \<longrightarrow> j_allowlist j1 b) \<and>
       (\<forall>r\<in>set (f b). r_author r = b \<and> row_typed r \<and> row_signed E r)"
      using Cons.prems(3) other j1(3) by simp
  qed
  then show ?case using j1 by (auto simp: algebra_simps)
qed

section \<open>Convergence\<close>

text \<open>No author signed two events with the same sequence number: of two copies of a chain one begins
  with the other.\<close>

definition no_fork :: "row list \<Rightarrow> row list \<Rightarrow> bool" where
  "no_fork A B \<longleftrightarrow> (\<forall>a. prefix (chain a A) (chain a B) \<or> prefix (chain a B) (chain a A))"

definition longer :: "row list \<Rightarrow> row list \<Rightarrow> string \<Rightarrow> row list" where
  "longer A B a = (if length (chain a A) < length (chain a B) then chain a B else chain a A)"

lemma no_fork_sym: "no_fork A B \<Longrightarrow> no_fork B A"
  by (auto simp: no_fork_def)

lemma longer_missing: "no_fork A B \<Longrightarrow> longer A B a = chain a A @ missing A B a"
  unfolding no_fork_def longer_def missing_def by (metis append_Nil2 append_eq_conv_conj drop_all leI less_le_not_le
      prefix_def prefix_length_le)

lemma longer_sym: "no_fork A B \<Longrightarrow> longer A B a = longer B A a"
proof -
  assume "no_fork A B"
  then have "prefix (chain a A) (chain a B) \<or> prefix (chain a B) (chain a A)" by (simp add: no_fork_def)
  then have "length (chain a A) = length (chain a B) \<Longrightarrow> chain a A = chain a B" by (auto simp: prefix_def)
  then show ?thesis unfolding longer_def by auto
qed

lemma missing_author: "r \<in> set (missing A B a) \<Longrightarrow> r_author r = a \<and> r \<in> set B"
  by (auto simp: missing_def dest: in_set_dropD)

lemma chain_concat:
  assumes "distinct as" "\<And>a r. r \<in> set (f a) \<Longrightarrow> r_author r = a"
  shows "chain a (concat (map f as)) = (if a \<in> set as then f a else [])"
  using assms(1)
proof (induction as)
  case Nil
  then show ?case by simp
next
  case (Cons b as)
  have "chain a (f b) = (if a = b then f b else [])"
    using assms(2) by (auto simp: filter_empty_conv intro!: filter_True)
  with Cons show ?case by auto
qed

lemma chain_after:
  "chain a (A @ concat (map (missing A B) (authors B))) = chain a A @ missing A B a"
proof -
  have "missing A B a = []" if "a \<notin> set (authors B)"
    using that chain_Nil_iff [of a B] by (simp add: missing_def)
  then show ?thesis
    by (simp add: chain_concat [of "authors B" "missing A B"] missing_author)
qed

lemma merge_keys_rows:
  "merge_keys E (map event_of rs) = Inr (map (\<lambda>r. ((r_author r, r_seq r), event_of r)) rs)"
proof (induction rs)
  case Nil
  then show ?case by simp
next
  case (Cons r rs)
  have "merge_key E (event_of r) = Inr (r_author r, r_seq r)"
    by (simp add: merge_key_def dget_pget)
  with Cons show ?case by simp
qed

lemma sorted_suffixes:
  assumes "sorted as" "distinct as" "\<And>a r. r \<in> set (f a) \<Longrightarrow> r_author r = a" "\<And>a. sorted (map r_seq (f a))"
  shows "sorted (map (\<lambda>r. (r_author r, r_seq r)) (concat (map f as)))"
  using assms(1,2)
proof (induction as)
  case Nil
  then show ?case by simp
next
  case (Cons a as)
  have "map (\<lambda>r. (r_author r, r_seq r)) (f a) = map (Pair a) (map r_seq (f a))"
    using assms(3) by simp
  moreover have "sorted (map (Pair a) xs)" if "sorted xs" for xs :: "int list"
    using that by (induction xs) (auto simp: less_eq_prod_def)
  ultimately have "sorted (map (\<lambda>r. (r_author r, r_seq r)) (f a))" using assms(4) by metis
  moreover have "(r_author r, r_seq r) \<le> (r_author r', r_seq r')"
    if "r \<in> set (f a)" "b \<in> set as" "r' \<in> set (f b)" for r r' b
  proof -
    have "a < b" using that(2) Cons.prems by (metis distinct.simps(2) order_le_imp_less_or_eq sorted_simps(2))
    moreover have "r_author r = a" "r_author r' = b" using that assms(3) by blast+
    ultimately show ?thesis by (simp add: less_eq_prod_def)
  qed
  ultimately show ?case using Cons by (auto simp: sorted_append)
qed

definition journals_ready :: "env \<Rightarrow> journal \<Rightarrow> journal \<Rightarrow> bool" where
  "journals_ready E a b \<longleftrightarrow> journal_typed E a \<and> journal_typed E b \<and> no_fork (j_rows a) (j_rows b) \<and>
     (\<forall>x. missing (j_rows a) (j_rows b) x \<noteq> [] \<longrightarrow> j_allowlist a x) \<and>
     (\<forall>x. missing (j_rows b) (j_rows a) x \<noteq> [] \<longrightarrow> j_allowlist b x)"

lemma journals_readyD:
  assumes "journals_ready E a b"
  shows "journal_inv (j_rows a)" "journal_inv (j_rows b)" "\<forall>r\<in>set (j_rows a). row_typed r"
    "\<forall>r\<in>set (j_rows b). row_typed r" "no_fork (j_rows a) (j_rows b)"
  using assms by (auto simp: journals_ready_def journal_typed_def)

lemma journals_ready_sym: "journals_ready E a b \<Longrightarrow> journals_ready E b a"
  by (auto simp: journals_ready_def no_fork_sym)

lemma sync_merge:
  assumes "journals_ready E a b"
  defines "sent \<equiv> concat (map (missing (j_rows a) (j_rows b)) (authors (j_rows b)))"
  shows "\<exists>a'. journal_merge E (map event_of sent) a = (a', Inr (int (length sent))) \<and> j_rows a' = j_rows a @ sent \<and>
    j_allowlist a' = j_allowlist a \<and> journal_typed E a'"
proof -
  let ?A = "j_rows a" and ?B = "j_rows b"
  note D = journals_readyD [OF assms(1)]
  have lk: "linked 1 GENESIS (chain x ?B)" "linked 1 GENESIS (chain x ?A)" for x
    using D(1,2) by (simp_all add: journal_inv_def)
  have sorted: "sorted (map r_seq (missing ?A ?B x))" for x
    using linked_sorted [OF lk(1)] by (simp add: missing_def drop_map [symmetric] sorted_wrt_drop)
  have "sorted (map (\<lambda>r. (r_author r, r_seq r)) sent)"
    unfolding sent_def by (rule sorted_suffixes) (simp_all add: missing_author sorted)
  then have "sort_key fst (map (\<lambda>r. ((r_author r, r_seq r), event_of r)) sent) =
      map (\<lambda>r. ((r_author r, r_seq r), event_of r)) sent"
    by (intro sort_key_id_if_sorted) (simp add: comp_def)
  then have m: "journal_merge E (map event_of sent) a = accept_all E (map event_of sent) a 0"
    by (simp add: journal_merge_def merge_keys_rows comp_def)
  have "\<exists>j'. accept_all E (map event_of sent) a 0 = (j', Inr (0 + int (length sent))) \<and>
    j_rows j' = ?A @ sent \<and> j_allowlist j' = j_allowlist a \<and> j_identity j' = j_identity a \<and> journal_typed E j'"
    unfolding sent_def
  proof (rule accept_suffixes)
    show "journal_typed E a" using assms(1) by (simp add: journals_ready_def)
    show "\<forall>x\<in>set (authors ?B). linked 1 GENESIS (chain x ?A @ missing ?A ?B x) \<and>
        (missing ?A ?B x \<noteq> [] \<longrightarrow> j_allowlist a x) \<and>
        (\<forall>r\<in>set (missing ?A ?B x). r_author r = x \<and> row_typed r \<and> row_signed E r)"
    proof
      fix x
      have "missing ?A ?B x \<noteq> [] \<longrightarrow> j_allowlist a x" using assms(1) by (auto simp: journals_ready_def)
      moreover have "linked 1 GENESIS (chain x ?A @ missing ?A ?B x)"
        using longer_missing [OF D(5), of x] lk by (metis longer_def)
      ultimately show "linked 1 GENESIS (chain x ?A @ missing ?A ?B x) \<and> (missing ?A ?B x \<noteq> [] \<longrightarrow> j_allowlist a x) \<and>
        (\<forall>r\<in>set (missing ?A ?B x). r_author r = x \<and> row_typed r \<and> row_signed E r)"
        using assms(1) missing_author by (fastforce simp: journals_ready_def journal_typed_def)
    qed
  qed simp
  with m show ?thesis by auto
qed

lemma mset_chains: "(\<And>a. chain a R = chain a S) \<Longrightarrow> mset R = mset S"
proof (rule multiset_eqI)
  fix r assume eq: "\<And>a. chain a R = chain a S"
  have "count (mset T) r = count (mset (chain (r_author r) T)) r" for T by simp
  with eq show "count (mset R) r = count (mset S) r" by metis
qed

lemma row_key_inj:
  assumes "journal_inv rows"
  shows "inj_on row_key (set rows)"
proof (rule inj_onI)
  fix r r' assume r: "r \<in> set rows" "r' \<in> set rows" "row_key r = row_key r'"
  then have same: "r_author r = r_author r'" "r_seq r = r_seq r'" by (auto simp: row_key_def)
  have "inj_on r_seq (set (chain (r_author r) rows))"
    using assms linked_sorted [of 1 GENESIS "chain (r_author r) rows"] by (auto simp: journal_inv_def distinct_map)
  with r same show "r = r'" by (auto dest: inj_onD)
qed

lemma same_chains_same_events:
  assumes "journal_inv R" "\<And>a. chain a R = chain a S"
  shows "journal_events R = journal_events S"
proof -
  have "sort_key row_key S = sort_key row_key R"
    using mset_chains [OF assms(2)] row_key_inj [OF assms(1)]
    by (intro sort_key_inj_key_eq) (auto dest: mset_eq_setD)
  then show ?thesis by (simp add: journal_events_def)
qed

section \<open>The exchange\<close>

lemma merge_args_rows: "merge_args E (map JObj (map event_of rs)) = Inr (map event_of rs)"
proof (induction rs)
  case Nil
  then show ?case by simp
next
  case (Cons r rs)
  have "merge_key E (event_of r) = Inr (r_author r, r_seq r)" by (simp add: merge_key_def dget_pget)
  with Cons show ?case by simp
qed

lemma apply_events_rows:
  "apply_events_message E (JObj (events_message (map event_of rs))) j = journal_merge E (map event_of rs) j"
proof -
  have "merge_json E (JList (map JObj (map event_of rs))) j = journal_merge E (map event_of rs) j"
    unfolding merge_json_def by (simp add: merge_args_rows del: map_map)
  then show ?thesis by (simp add: apply_events_message_def events_message_def pget_def del: map_map)
qed

lemma on_have:
  assumes "journals_ready E a b"
  shows "on_message E did (JObj (have_tagged (j_rows a) reply)) b =
    (b, (did, JObj (events_message (map event_of (concat (map (missing (j_rows a) (j_rows b)) (authors (j_rows b))))))) #
        (if reply then [] else [(did, JObj (have_tagged (j_rows b) True))]), Inr 0)"
proof -
  have h: "pget (have_tagged (j_rows a) reply) ''heads'' = heads_json (j_rows a)"
    "pget (have_tagged (j_rows a) reply) ''kind'' = JStr HAVE" "pget (have_tagged (j_rows a) reply) ''reply'' = JBool reply"
    by (simp_all add: have_tagged_def have_message_def pget_def)
  have "(if truthy (heads_json (j_rows a)) then heads_json (j_rows a) else JObj []) = heads_json (j_rows a)"
    by (simp add: heads_json_def)
  then have "respond_to_have (j_rows b) (JObj (have_tagged (j_rows a) reply)) =
      Inr (events_message (map event_of (concat (map (missing (j_rows a) (j_rows b)) (authors (j_rows b))))))"
    using journals_readyD [OF assms] by (simp add: respond_to_have_def h events_since_eq)
  then show ?thesis by (simp add: on_message_def h)
qed

lemma on_events:
  "on_message E did (JObj (events_message (map event_of rs))) j =
     (let (j', res) = journal_merge E (map event_of rs) j in (j', [], res))"
proof -
  have "pget (events_message (map event_of rs)) ''kind'' = JStr EVENTS" by (simp add: events_message_def pget_def)
  then show ?thesis by (simp add: on_message_def apply_events_rows HAVE_def EVENTS_def)
qed

lemma merged_ready:
  assumes "journals_ready E a b" "j_rows a' = j_rows a @ concat (map (missing (j_rows a) (j_rows b)) (authors (j_rows b)))"
    "j_allowlist a' = j_allowlist a" "journal_typed E a'"
  shows "journals_ready E b a'" "chain x (j_rows a') = longer (j_rows a) (j_rows b) x"
    "longer (j_rows b) (j_rows a') x = longer (j_rows a) (j_rows b) x"
proof -
  note D = journals_readyD [OF assms(1)]
  have c: "chain y (j_rows a') = longer (j_rows a) (j_rows b) y" for y
    unfolding assms(2) chain_after longer_missing [OF D(5)] ..
  then show "chain x (j_rows a') = longer (j_rows a) (j_rows b) x" .
  have pre: "prefix (chain y (j_rows b)) (longer (j_rows a) (j_rows b) y)" for y
    using longer_sym [OF D(5), of y] longer_missing [OF no_fork_sym [OF D(5)], of y] by simp
  then have "no_fork (j_rows b) (j_rows a')" by (simp add: no_fork_def c)
  moreover have "missing (j_rows b) (j_rows a') y \<noteq> [] \<Longrightarrow> missing (j_rows b) (j_rows a) y \<noteq> []"
    "missing (j_rows a') (j_rows b) y = []" for y
    using prefix_length_le [OF pre [of y]] by (auto simp: missing_def c longer_def split: if_splits)
  ultimately show "journals_ready E b a'"
    using assms(1,4) unfolding journals_ready_def by blast
  show "longer (j_rows b) (j_rows a') x = longer (j_rows a) (j_rows b) x"
    using pre [of x] c [of x] unfolding longer_def [of "j_rows b" "j_rows a'"]
    by (metis linorder_neqE_nat not_less prefix_length_le prefix_order.eq_iff prefix_def append_eq_append_conv append_Nil2)
qed

lemma sync_round_eq:
  assumes "journals_ready E a b"
  shows "\<exists>a' b' n m. sync_round E a b = ((a', b'), Inr (n, m)) \<and> journal_typed E a' \<and> journal_typed E b' \<and>
    (\<forall>x. chain x (j_rows a') = longer (j_rows a) (j_rows b) x \<and> chain x (j_rows b') = longer (j_rows a) (j_rows b) x)"
proof -
  note D = journals_readyD [OF assms]
  note S = journals_ready_sym [OF assms]
  obtain a' n where a': "journal_merge E (map event_of (concat (map (missing (j_rows a) (j_rows b)) (authors (j_rows b))))) a = (a', Inr n)"
    "j_rows a' = j_rows a @ concat (map (missing (j_rows a) (j_rows b)) (authors (j_rows b)))" "journal_typed E a'"
    using sync_merge [OF assms] by blast
  obtain b' m where b': "journal_merge E (map event_of (concat (map (missing (j_rows b) (j_rows a)) (authors (j_rows a))))) b = (b', Inr m)"
    "j_rows b' = j_rows b @ concat (map (missing (j_rows b) (j_rows a)) (authors (j_rows a)))" "journal_typed E b'"
    using sync_merge [OF S] by blast
  have "sync_round E a b = ((a', b'), Inr (n, m))"
    using a'(1) b'(1) D by (simp add: sync_round_def events_since_eq)
  moreover have "chain x (j_rows a') = longer (j_rows a) (j_rows b) x" "chain x (j_rows b') = longer (j_rows a) (j_rows b) x" for x
    using a'(2) b'(2) chain_after longer_missing [OF D(5)] longer_missing [OF no_fork_sym [OF D(5)]] longer_sym [OF D(5)]
    by simp_all
  ultimately show ?thesis using a'(3) b'(3) by blast
qed

section \<open>Properties\<close>

text \<open>C16 One round of anti-entropy makes two journals converge: both end with the longer copy of every
  author's chain, so with the same events in the same order. It is assumed that no author signed two
  events under one number, that each side trusts the authors whose events it lacks, and that the rows
  keep their values.\<close>

theorem sync_round_converges:
  assumes "journals_ready E a b"
  shows "\<exists>a' b' n m. sync_round E a b = ((a', b'), Inr (n, m)) \<and>
    (\<forall>x. chain x (j_rows a') = longer (j_rows a) (j_rows b) x \<and> chain x (j_rows b') = longer (j_rows a) (j_rows b) x) \<and>
    journal_events (j_rows a') = journal_events (j_rows b')"
proof -
  obtain a' b' n m where r: "sync_round E a b = ((a', b'), Inr (n, m))" "journal_typed E a'"
    "\<And>x. chain x (j_rows a') = longer (j_rows a) (j_rows b) x \<and> chain x (j_rows b') = longer (j_rows a) (j_rows b) x"
    using sync_round_eq [OF assms] by blast
  then have "journal_events (j_rows a') = journal_events (j_rows b')"
    by (intro same_chains_same_events) (simp_all add: journal_typed_def)
  with r show ?thesis by blast
qed

lemma ref_ready: "journals_ready ref_env (ref_node\<lparr>j_lamport := JInt 1, j_rows := [ref_row1]\<rparr>) ref_replica"
proof -
  have "journal_typed ref_env (ref_node\<lparr>j_lamport := JInt 1, j_rows := [ref_row1]\<rparr>)"
    using ref_node_run ref_env_crypto by (rule journal_run_typed)
  moreover have "journal_typed ref_env ref_replica"
    by (simp add: journal_typed_def ref_replica_def journal_inv_def)
  ultimately show ?thesis
    by (simp add: journals_ready_def no_fork_def missing_def ref_node_def ref_replica_def allow_any_def)
qed

theorem sync_round_converges_witness:
  "\<exists>a' b' n m. sync_round ref_env (ref_node\<lparr>j_lamport := JInt 1, j_rows := [ref_row1]\<rparr>) ref_replica = ((a', b'), Inr (n, m)) \<and>
    chain (ref_did (CHR ''a'')) (j_rows b') = [ref_row1]"
proof -
  obtain a' b' n m where r: "sync_round ref_env (ref_node\<lparr>j_lamport := JInt 1, j_rows := [ref_row1]\<rparr>) ref_replica = ((a', b'), Inr (n, m))"
    "chain (ref_did (CHR ''a'')) (j_rows b') =
      longer (j_rows (ref_node\<lparr>j_lamport := JInt 1, j_rows := [ref_row1]\<rparr>)) (j_rows ref_replica) (ref_did (CHR ''a''))"
    using sync_round_converges [OF ref_ready] by blast
  then have "chain (ref_did (CHR ''a'')) (j_rows b') = [ref_row1]"
    by (simp add: longer_def ref_replica_def ref_row1_def)
  with r(1) show ?thesis by blast
qed

text \<open>C17 The exchange of \<^verbatim>\<open>ReplicationPeer\<close> converges and stops: the have-message of one side is
  answered with the events it lacks and one counter-have; those are merged; the counter-have is answered
  with the events the other side lacks and nothing else; those are merged and answered with nothing.
  Then both journals hold the longer copy of every chain.\<close>

theorem replication_converges:
  assumes "journals_ready E a b"
  shows "\<exists>ev1 hv ev2 a' b' n m. initiate db a = [(db, JObj (have_tagged (j_rows a) False))] \<and>
    on_message E da (JObj (have_tagged (j_rows a) False)) b = (b, [(da, ev1), (da, hv)], Inr 0) \<and>
    on_message E db ev1 a = (a', [], Inr n) \<and>
    on_message E db hv a' = (a', [(db, ev2)], Inr 0) \<and>
    on_message E da ev2 b = (b', [], Inr m) \<and>
    (\<forall>x. chain x (j_rows a') = longer (j_rows a) (j_rows b) x \<and> chain x (j_rows b') = longer (j_rows a) (j_rows b) x)"
proof -
  let ?s = "concat (map (missing (j_rows a) (j_rows b)) (authors (j_rows b)))"
  obtain a' n where a': "journal_merge E (map event_of ?s) a = (a', Inr n)"
    "j_rows a' = j_rows a @ ?s" "j_allowlist a' = j_allowlist a" "journal_typed E a'"
    using sync_merge [OF assms] by blast
  note R = merged_ready [OF assms a'(2-4)]
  let ?t = "concat (map (missing (j_rows b) (j_rows a')) (authors (j_rows a')))"
  obtain b' m where b': "journal_merge E (map event_of ?t) b = (b', Inr m)"
    "j_rows b' = j_rows b @ ?t"
    using sync_merge [OF R(1)] by blast
  have "chain x (j_rows b') = longer (j_rows a) (j_rows b) x" for x
    unfolding b'(2) chain_after
    using longer_missing [OF journals_readyD(5) [OF R(1)]] R(3) by simp
  then show ?thesis
    using on_have [OF assms, where reply = False] on_have [OF R(1), where reply = True] on_events a'(1) b'(1) R(2)
    by (simp add: initiate_def)
qed

theorem replication_converges_witness:
  "\<exists>ev a' n. on_message ref_env ''b'' ev (ref_node\<lparr>j_lamport := JInt 1, j_rows := [ref_row1]\<rparr>) = (a', [], Inr n)"
  using replication_converges [OF ref_ready, of "''b''" "''a''"] by blast

end
