(* ===== verification/State_Store.thy ===== *)
theory State_Store
  imports Journal Gossip "HOL-Library.Multiset"
begin

text \<open>
  \<^verbatim>\<open>citadel/state.py\<close>: entities folded from the \<^verbatim>\<open>state\<close> events of a journal.

  A payload is kept as far as its string keys go: \<^verbatim>\<open>dict(...)\<close> of a list of pairs may also make keys
  that are no strings, which nothing in the program looks up. The store is a \<open>gossip_set\<close> of deltas, and
  what it materialises is a function of that set alone (\<open>materialize_view\<close>); one entity is the fold of
  its own deltas in the order \<^verbatim>\<open>(lamport, author, seq)\<close> (\<open>materialize_entity\<close>).
\<close>

section \<open>Deltas\<close>

record state_delta =
  sd_author :: string
  sd_seq :: int
  sd_lamport :: int
  sd_entity_type :: string
  sd_entity_id :: string
  sd_operation :: string
  sd_payload :: obj

definition OPS :: "string list" where
  "OPS = [''delete'', ''patch'', ''set'']"

definition STATE_EVENT_KIND :: string where
  "STATE_EVENT_KIND = ''state''"

text \<open>\<^verbatim>\<open>__post_init__\<close>\<close>

definition delta_init :: "state_delta \<Rightarrow> state_delta res" where
  "delta_init d =
     (if sd_operation d \<notin> set OPS then Inl (ValueError ''unknown operation'')
      else if sd_entity_type d = [] \<or> sd_entity_id d = [] then Inl (ValueError ''entity_type and entity_id are required'')
      else Inr d)"

definition delta_key :: "state_delta \<Rightarrow> string \<times> int" where
  "delta_key d = (sd_author d, sd_seq d)"

definition delta_order :: "state_delta \<Rightarrow> int \<times> string \<times> int" where
  "delta_order d = (sd_lamport d, sd_author d, sd_seq d)"

definition to_body :: "state_delta \<Rightarrow> obj" where
  "to_body d =
     [(''author'', JStr (sd_author d)), (''seq'', JInt (sd_seq d)), (''lamport'', JInt (sd_lamport d)),
      (''entity_type'', JStr (sd_entity_type d)), (''entity_id'', JStr (sd_entity_id d)),
      (''operation'', JStr (sd_operation d)), (''payload'', JObj (sd_payload d))]"

definition record_state ::
  "env \<Rightarrow> string \<Rightarrow> string \<Rightarrow> string \<Rightarrow> obj \<Rightarrow> json \<Rightarrow> journal \<Rightarrow> journal \<times> obj res" where
  "record_state E entity_type entity_id operation payload now j =
     (if operation \<notin> set OPS then (j, Inl (ValueError ''unknown operation''))
      else if entity_type = [] \<or> entity_id = [] then (j, Inl (ValueError ''entity_type and entity_id are required''))
      else journal_append E STATE_EVENT_KIND
             (JObj [(''entity_type'', JStr entity_type), (''entity_id'', JStr entity_id),
                    (''operation'', JStr operation), (''payload'', JObj payload)]) now j)"

text \<open>\<^verbatim>\<open>d[k]\<close>, and \<^verbatim>\<open>dict(v)\<close> of a JSON value.\<close>

definition item :: "json \<Rightarrow> string \<Rightarrow> json res" where
  "item v k =
     (case v of
        JObj d \<Rightarrow> (case map_of d k of None \<Rightarrow> Inl (KeyError k) | Some w \<Rightarrow> Inr w)
      | _ \<Rightarrow> Inl (TypeError ''indices must be integers''))"

fun pair_of :: "json \<Rightarrow> (json \<times> json) res" where
  "pair_of (JList [k, v]) = Inr (k, v)"
| "pair_of (JList _) = Inl (ValueError ''dictionary update sequence element'')"
| "pair_of (JObj d) =
     (case map (JStr \<circ> fst) d of [k, v] \<Rightarrow> Inr (k, v) | _ \<Rightarrow> Inl (ValueError ''dictionary update sequence element''))"
| "pair_of (JStr s) =
     (case map JStr (utf8_chars s) of [k, v] \<Rightarrow> Inr (k, v) | _ \<Rightarrow> Inl (ValueError ''dictionary update sequence element''))"
| "pair_of _ = Inl (TypeError ''cannot convert dictionary update sequence element'')"

definition add_pair :: "json \<Rightarrow> obj \<Rightarrow> obj res" where
  "add_pair p d =
     rbind (pair_of p) (\<lambda>(k, v).
       case k of
         JStr s \<Rightarrow> Inr (dset s v d)
       | JList _ \<Rightarrow> Inl (TypeError ''unhashable type'')
       | JObj _ \<Rightarrow> Inl (TypeError ''unhashable type'')
       | _ \<Rightarrow> Inr d)"

fun to_dict :: "json \<Rightarrow> obj res" where
  "to_dict (JObj d) = Inr d"
| "to_dict (JList ps) = rfold add_pair ps []"
| "to_dict (JStr s) = (if s = [] then Inr [] else Inl (ValueError ''dictionary update sequence element''))"
| "to_dict _ = Inl (TypeError ''object is not iterable'')"

definition delta_of_body :: "env \<Rightarrow> obj \<Rightarrow> json \<Rightarrow> state_delta res" where
  "delta_of_body E event body =
     rbind (item (JObj event) ''author'') (\<lambda>author.
     rbind (rbind (item (JObj event) ''seq'') to_int) (\<lambda>seq.
     rbind (rbind (item (JObj event) ''lamport'') to_int) (\<lambda>lamport.
     rbind (item body ''entity_type'') (\<lambda>entity_type.
     rbind (item body ''entity_id'') (\<lambda>entity_id.
     rbind (item body ''operation'') (\<lambda>operation.
     rbind (case body of
              JObj b \<Rightarrow> (let p = pget b ''payload'' in to_dict (if truthy p then p else JObj []))
            | _ \<Rightarrow> Inl (AttributeError ''no attribute get'')) (\<lambda>payload.
       delta_init \<lparr>sd_author = py_str E author, sd_seq = seq, sd_lamport = lamport,
         sd_entity_type = py_str E entity_type, sd_entity_id = py_str E entity_id,
         sd_operation = py_str E operation, sd_payload = payload\<rparr>)))))))"

definition delta_from_event :: "env \<Rightarrow> obj \<Rightarrow> state_delta option res" where
  "delta_from_event E event =
     (if pget event ''kind'' \<noteq> JStr STATE_EVENT_KIND then Inr None
      else let b = pget event ''body''
           in case delta_of_body E event (if truthy b then b else JObj []) of
                Inr d \<Rightarrow> Inr (Some d)
              | Inl (KeyError _) \<Rightarrow> Inr None
              | Inl (ValueError _) \<Rightarrow> Inr None
              | Inl (TypeError _) \<Rightarrow> Inr None
              | Inl e \<Rightarrow> Inl e)"

section \<open>The store\<close>

type_synonym state_store = "(string \<times> int, state_delta) dict"
type_synonym entities = "(string, obj) dict"

definition state_apply :: "state_delta \<Rightarrow> state_store \<Rightarrow> state_store \<times> bool" where
  "state_apply d s =
     (if delta_key d \<in> set (dkeys s) then (s, False) else (dset (delta_key d) d s, True))"

fun state_merge :: "state_delta list \<Rightarrow> state_store \<Rightarrow> nat \<Rightarrow> state_store \<times> nat" where
  "state_merge [] s n = (s, n)"
| "state_merge (d # ds) s n = (case state_apply d s of (s', ok) \<Rightarrow> state_merge ds s' (if ok then n + 1 else n))"

text \<open>\<^verbatim>\<open>merge_events\<close> draws from a generator: a raise leaves what was applied before it.\<close>

fun merge_events :: "env \<Rightarrow> obj list \<Rightarrow> state_store \<Rightarrow> nat \<Rightarrow> state_store \<times> nat res" where
  "merge_events E [] s n = (s, Inr n)"
| "merge_events E (e # es) s n =
     (case delta_from_event E e of
        Inl err \<Rightarrow> (s, Inl err)
      | Inr None \<Rightarrow> merge_events E es s n
      | Inr (Some d) \<Rightarrow> (case state_apply d s of (s', ok) \<Rightarrow> merge_events E es s' (if ok then n + 1 else n)))"

definition materialize_step :: "state_delta \<Rightarrow> (string, entities) dict \<Rightarrow> (string, entities) dict" where
  "materialize_step d state =
     (let ent = dget state (sd_entity_type d) [];
          ent' = (if sd_operation d = ''set'' then dset (sd_entity_id d) (sd_payload d) ent
                  else if sd_operation d = ''patch''
                    then dset (sd_entity_id d) (dmerge (dget ent (sd_entity_id d) []) (sd_payload d)) ent
                  else dpop (sd_entity_id d) ent)
      in dset (sd_entity_type d) ent' state)"

definition materialize :: "state_store \<Rightarrow> (string, entities) dict" where
  "materialize s =
     filter (\<lambda>(etype, ents). ents \<noteq> []) (fold materialize_step (sort_key delta_order (map snd s)) [])"

definition state_entities :: "string \<Rightarrow> state_store \<Rightarrow> entities" where
  "state_entities entity_type s = dget (materialize s) entity_type []"

definition state_get :: "string \<Rightarrow> string \<Rightarrow> state_store \<Rightarrow> obj option" where
  "state_get entity_type entity_id s = map_of (state_entities entity_type s) entity_id"

section \<open>A store is a set of deltas\<close>

definition keyed :: "state_delta set \<Rightarrow> bool" where
  "keyed D \<longleftrightarrow> inj_on delta_key D"

definition store_inv :: "state_delta set \<Rightarrow> state_store \<Rightarrow> bool" where
  "store_inv D s \<longleftrightarrow> keyed D \<and> distinct (map fst s) \<and> (\<forall>(k, d)\<in>set s. k = delta_key d \<and> d \<in> D)"

lemma store_inv_apply: "store_inv D s \<Longrightarrow> d \<in> D \<Longrightarrow> store_inv D (fst (state_apply d s))"
  by (auto simp: store_inv_def state_apply_def dset_new) (force simp: dkeys_def)

lemma store_view_apply:
  assumes "store_inv D s" "d \<in> D"
  shows "snd ` set (fst (state_apply d s)) = snd ` set s \<union> {d}"
proof (cases "delta_key d \<in> set (dkeys s)")
  case True
  then obtain d' where d': "(delta_key d, d') \<in> set s" by (auto simp: dkeys_def)
  with assms have "delta_key d = delta_key d'" "d' \<in> D" "inj_on delta_key D" by (auto simp: store_inv_def keyed_def)
  with assms(2) have "d' = d" by (metis inj_onD)
  with d' True show ?thesis by (force simp: state_apply_def)
next
  case False
  then show ?thesis by (simp add: state_apply_def dset_new)
qed

interpretation deltas: gossip_set "\<lambda>d s. fst (state_apply d s)" "store_inv D" "\<lambda>d. d \<in> D"
  "\<lambda>s. snd ` set s" "\<lambda>d. {d}" for D
  by unfold_locales (simp_all add: store_inv_apply store_view_apply)

lemma delta_order_inj: "inj_on delta_key D \<Longrightarrow> inj_on delta_order D"
  by (auto simp: inj_on_def delta_key_def delta_order_def)

lemma store_values:
  assumes "store_inv D s"
  shows "distinct (map snd s)" "inj_on delta_order (set (map snd s))"
proof -
  have "set (map snd s) \<subseteq> D" using assms by (auto simp: store_inv_def)
  with assms have "inj_on delta_key (set (map snd s))" by (auto simp: store_inv_def keyed_def intro: inj_on_subset)
  then show "inj_on delta_order (set (map snd s))" by (rule delta_order_inj)
  have "map fst s = map delta_key (map snd s)" using assms by (auto simp: store_inv_def)
  with assms show "distinct (map snd s)" by (metis distinct_map store_inv_def)
qed

lemma materialize_view:
  assumes "store_inv D s" "store_inv D t" "snd ` set s = snd ` set t"
  shows "materialize s = materialize t"
proof -
  have "mset (map snd s) = mset (map snd t)"
    using assms store_values by (metis set_eq_iff_mset_eq_distinct set_map)
  then have "sort_key delta_order (map snd s) = sort_key delta_order (map snd t)"
    using store_values(2) [OF assms(1)]
    by (intro sort_key_inj_key_eq) auto
  then show ?thesis by (simp add: materialize_def)
qed

section \<open>One entity\<close>

text \<open>What a delta does to the entity it names.\<close>

definition delta_effect :: "state_delta \<Rightarrow> obj option \<Rightarrow> obj option" where
  "delta_effect d cur =
     (if sd_operation d = ''set'' then Some (sd_payload d)
      else if sd_operation d = ''patch'' then Some (dmerge (case cur of None \<Rightarrow> [] | Some p \<Rightarrow> p) (sd_payload d))
      else None)"

definition names :: "string \<Rightarrow> string \<Rightarrow> state_delta \<Rightarrow> bool" where
  "names etype eid d \<longleftrightarrow> sd_entity_type d = etype \<and> sd_entity_id d = eid"

lemma materialize_step_look:
  "map_of (dget (materialize_step d st) etype []) eid =
     (if names etype eid d then delta_effect d (map_of (dget st etype []) eid) else map_of (dget st etype []) eid)"
  by (auto simp: materialize_step_def Let_def names_def delta_effect_def dget_def split: option.splits)

lemma materialize_fold_look:
  "map_of (dget (fold materialize_step ds st) etype []) eid =
     fold delta_effect (filter (names etype eid) ds) (map_of (dget st etype []) eid)"
  by (induction ds arbitrary: st) (simp_all add: materialize_step_look)

lemma materialize_fold_distinct:
  "distinct (map fst st) \<Longrightarrow> distinct (map fst (fold materialize_step ds st))"
  by (induction ds arbitrary: st) (simp_all add: materialize_step_def Let_def)

lemma materialize_entity:
  "state_get etype eid s = fold delta_effect (filter (names etype eid) (sort_key delta_order (map snd s))) None"
proof -
  let ?st = "fold materialize_step (sort_key delta_order (map snd s)) []"
  have "distinct (map fst ?st)" by (rule materialize_fold_distinct) simp
  then have "dget (materialize s) etype [] = dget ?st etype []"
    by (simp add: materialize_def dget_def map_of_filter_in split: option.split)
  then show ?thesis using materialize_fold_look [of _ "[]"] by (simp add: state_get_def state_entities_def dget_def)
qed

section \<open>Reading back what was recorded\<close>

lemma delta_of_recorded:
  assumes "entity_type \<noteq> []" "entity_id \<noteq> []" "operation \<in> set OPS"
    "pget event ''kind'' = JStr STATE_EVENT_KIND" "map_of event ''author'' = Some (JStr author)"
    "map_of event ''seq'' = Some (JInt seq)" "map_of event ''lamport'' = Some (JInt lamport)"
    "pget event ''body'' = JObj [(''entity_type'', JStr entity_type), (''entity_id'', JStr entity_id),
       (''operation'', JStr operation), (''payload'', JObj payload)]"
  shows "delta_from_event E event = Inr (Some \<lparr>sd_author = author, sd_seq = seq, sd_lamport = lamport,
    sd_entity_type = entity_type, sd_entity_id = entity_id, sd_operation = operation, sd_payload = payload\<rparr>)"
  using assms by (simp add: delta_from_event_def delta_of_body_def item_def delta_init_def Let_def pget_def)

section \<open>Properties\<close>

text \<open>C18 Replicas of the state converge: with at most one delta per author and sequence number, two stores
  that were fed the same deltas, in any order and with any repetitions, materialise the same entities.\<close>

theorem state_converges:
  assumes "inj_on delta_key D" "set ds \<subseteq> D" "set ds = set es"
  shows "materialize (fold (\<lambda>d s. fst (state_apply d s)) ds []) = materialize (fold (\<lambda>d s. fst (state_apply d s)) es [])"
proof -
  have inv: "store_inv D []" using assms(1) by (simp add: store_inv_def keyed_def)
  have ok: "list_all (\<lambda>d. d \<in> D) ds" "list_all (\<lambda>d. d \<in> D) es" using assms(2,3) by (auto simp: list_all_iff)
  show ?thesis
    using deltas.converge [OF inv inv refl ok assms(3)] deltas.fold_inv [OF inv ok(1)] deltas.fold_inv [OF inv ok(2)]
    by (rule materialize_view [rotated -1])
qed

text \<open>Every entity is its own last-writer-wins register: what \<^verbatim>\<open>get\<close> returns is the fold, in the order
  (lamport, author, seq), of the deltas that name this very entity, a set replacing, a patch overlaying and
  a delete removing it; deltas of other entities do not matter.\<close>

theorem state_get_exact:
  "state_get etype eid s = fold delta_effect (filter (names etype eid) (sort_key delta_order (map snd s))) None"
  by (rule materialize_entity)

definition ref_delta :: "int \<Rightarrow> string \<Rightarrow> state_delta" where
  "ref_delta n op = \<lparr>sd_author = ''a'', sd_seq = n, sd_lamport = n, sd_entity_type = ''run'', sd_entity_id = ''r'',
     sd_operation = op, sd_payload = [(''state'', JStr op)]\<rparr>"

theorem state_converges_witness:
  "materialize (fold (\<lambda>d s. fst (state_apply d s)) [ref_delta 1 ''set'', ref_delta 2 ''delete''] []) =
   materialize (fold (\<lambda>d s. fst (state_apply d s)) [ref_delta 2 ''delete'', ref_delta 1 ''set'', ref_delta 2 ''delete''] [])"
  by (rule state_converges [of "{ref_delta 1 ''set'', ref_delta 2 ''delete''}"])
    (auto simp: inj_on_def delta_key_def ref_delta_def)

end
