(* ===== verification/Run.thy ===== *)
theory Run
  imports State_Store
begin

text \<open>
  \<^verbatim>\<open>citadel/run.py\<close>, \<^verbatim>\<open>citadel/recovery.py\<close> and \<^verbatim>\<open>citadel/episodes.py\<close>: supervised runs
  recorded step by step as signed state, the check of a run's hash chain, crash recovery and episodes.

  The recorder threads its own memory and the journal; every append takes the time the clock returns.
  The results: the steps a recorder writes pass \<open>check_chain\<close> in whatever order the store returns them,
  two runs that pass it under one head hash did the same steps, and a run that crashed while executing
  is never simply resumed.
\<close>

section \<open>States and outcomes\<close>

definition RUN_STATES :: "string list" where
  "RUN_STATES = [''created'', ''planning'', ''observing'', ''proposing'', ''awaiting_gate'', ''awaiting_human'',
     ''executing'', ''verifying'', ''recovering'', ''completed'', ''failed'', ''stopped'']"

definition TERMINAL_STATES :: "string list" where
  "TERMINAL_STATES = [''completed'', ''failed'', ''stopped'']"

definition OUTCOMES :: "string list" where
  "OUTCOMES = [''ok'', ''failed'', ''no_change'', ''rejected'', ''unknown'']"

text \<open>An observation or action handed to the recorder: nothing, an id, an object with a content hash, or
  a JSON value.\<close>

datatype content = NoContent | ContentId string | ContentHash string | ContentJson json

fun content_id :: "env \<Rightarrow> content \<Rightarrow> string res" where
  "content_id E NoContent = Inr ''''"
| "content_id E (ContentId s) = Inr s"
| "content_id E (ContentHash h) =
     (if h \<noteq> [] then Inr h else Inl (TypeError ''object is not JSON serializable''))"
| "content_id E (ContentJson v) =
     (if v = JNull \<or> v = JStr '''' then Inr ''''
      else case v of JStr s \<Rightarrow> Inr s | _ \<Rightarrow> Inr (hexdigest E (canonical E v)))"

definition short :: "env \<Rightarrow> obj \<Rightarrow> string" where
  "short E material = take 16 (hexdigest E (canonical E (JObj material)))"

definition step_body :: "string \<Rightarrow> string \<Rightarrow> int \<Rightarrow> json \<Rightarrow> json \<Rightarrow> string \<Rightarrow> obj" where
  "step_body prev run_id seq observation_id action_id result =
     [(''prev'', JStr prev), (''run_id'', JStr run_id), (''seq'', JInt seq),
      (''observation_id'', observation_id), (''action_id'', action_id), (''result'', JStr result)]"

definition step_state_hash :: "env \<Rightarrow> string \<Rightarrow> string \<Rightarrow> int \<Rightarrow> json \<Rightarrow> json \<Rightarrow> string \<Rightarrow> string" where
  "step_state_hash E prev run_id seq observation_id action_id result =
     hexdigest E (canonical E (JObj (step_body prev run_id seq observation_id action_id result)))"

section \<open>The recorder\<close>

record recorder =
  rr_run_seq :: int
  rr_runs :: "(string, string \<times> int) dict"

definition recorder_init :: recorder where
  "recorder_init = \<lparr>rr_run_seq = 0, rr_runs = []\<rparr>"

definition recorder_author :: "env \<Rightarrow> journal \<Rightarrow> did res" where
  "recorder_author E j = (case j_identity j of None \<Rightarrow> Inr '''' | Some seed \<Rightarrow> identity_did E seed)"

definition start_run ::
  "env \<Rightarrow> string \<Rightarrow> string \<Rightarrow> pyfloat \<Rightarrow> json \<Rightarrow> recorder \<Rightarrow> journal \<Rightarrow> recorder \<times> journal \<times> string res" where
  "start_run E goal_id state ts now rr j =
     (let rr1 = rr\<lparr>rr_run_seq := rr_run_seq rr + 1\<rparr>
      in case recorder_author E j of
           Inl e \<Rightarrow> (rr1, j, Inl e)
         | Inr author \<Rightarrow>
             let run_id = short E [(''author'', JStr author), (''goal_id'', JStr goal_id),
                                   (''run_seq'', JInt (rr_run_seq rr1)), (''ts'', JFloat ts)];
                 rr2 = rr1\<lparr>rr_runs := dset run_id (GENESIS, 0) (rr_runs rr1)\<rparr>
             in case record_state E ''run'' run_id ''set''
                       [(''goal_id'', JStr goal_id), (''state'', JStr state), (''started_at'', JFloat ts),
                        (''steps'', JInt 0), (''head_state_hash'', JStr GENESIS)] now j of
                  (j', Inl e) \<Rightarrow> (rr2, j', Inl e)
                | (j', Inr _) \<Rightarrow> (rr2, j', Inr run_id))"

record step_input =
  si_observation :: content
  si_action :: content
  si_result :: string
  si_verdict :: string
  si_state :: string
  si_action_key :: string
  si_outcome :: string
  si_findings :: "string list"

definition step_payload :: "env \<Rightarrow> string \<Rightarrow> string \<Rightarrow> int \<Rightarrow> string \<Rightarrow> string \<Rightarrow> step_input \<Rightarrow> obj" where
  "step_payload E run_head run_id seq oid aid i =
     [(''run_id'', JStr run_id), (''seq'', JInt seq), (''observation_id'', JStr oid), (''action_id'', JStr aid),
      (''result'', JStr (si_result i)), (''verdict'', JStr (si_verdict i)), (''state'', JStr (si_state i)),
      (''state_hash'', JStr (step_state_hash E run_head run_id seq (JStr oid) (JStr aid) (si_result i)))] @
     (if si_action_key i \<noteq> [] then [(''action_key'', JStr (si_action_key i))] else []) @
     (if si_outcome i \<noteq> [] then [(''outcome'', JStr (si_outcome i))] else []) @
     (if si_findings i \<noteq> [] then [(''findings'', JList (map JStr (si_findings i)))] else [])"

definition record_step ::
  "env \<Rightarrow> string \<Rightarrow> step_input \<Rightarrow> json \<Rightarrow> json \<Rightarrow> recorder \<Rightarrow> journal \<Rightarrow> recorder \<times> journal \<times> string res" where
  "record_step E run_id i now now' rr j =
     (if si_outcome i \<noteq> [] \<and> si_outcome i \<notin> set OUTCOMES then (rr, j, Inl (ValueError ''unknown outcome''))
      else
        let (run_head, steps) = dget (rr_runs rr) run_id (GENESIS, 0);
            rr1 = rr\<lparr>rr_runs := dset run_id (run_head, steps) (rr_runs rr)\<rparr>;
            seq = steps + 1
        in case content_id E (si_observation i) of
             Inl e \<Rightarrow> (rr1, j, Inl e)
           | Inr oid \<Rightarrow>
               (case content_id E (si_action i) of
                  Inl e \<Rightarrow> (rr1, j, Inl e)
                | Inr aid \<Rightarrow>
                    let sh = step_state_hash E run_head run_id seq (JStr oid) (JStr aid) (si_result i);
                        step_id = short E [(''run_id'', JStr run_id), (''seq'', JInt seq)]
                    in (case record_state E ''step'' step_id ''set'' (step_payload E run_head run_id seq oid aid i) now j of
                          (j1, Inl e) \<Rightarrow> (rr1, j1, Inl e)
                        | (j1, Inr _) \<Rightarrow>
                            let rr2 = rr1\<lparr>rr_runs := dset run_id (sh, seq) (rr_runs rr1)\<rparr>
                            in (case record_state E ''run'' run_id ''patch''
                                       [(''steps'', JInt seq), (''head_state_hash'', JStr sh), (''state'', JStr (si_state i))] now' j1 of
                                  (j2, Inl e) \<Rightarrow> (rr2, j2, Inl e)
                                | (j2, Inr _) \<Rightarrow> (rr2, j2, Inr step_id)))))"

definition transition :: "env \<Rightarrow> string \<Rightarrow> string \<Rightarrow> json \<Rightarrow> journal \<Rightarrow> journal \<times> unit res" where
  "transition E run_id state now j =
     (if state \<notin> set RUN_STATES then (j, Inl (ValueError ''unknown run state''))
      else let (j', res) = record_state E ''run'' run_id ''patch'' [(''state'', JStr state)] now j
           in (j', rbind res (\<lambda>_. Inr ())))"

definition record_recovery :: "env \<Rightarrow> string \<Rightarrow> string \<Rightarrow> string \<Rightarrow> json \<Rightarrow> journal \<Rightarrow> journal \<times> unit res" where
  "record_recovery E run_id action from_state now j =
     (let (j', res) = record_state E ''run'' run_id ''patch''
            [(''state'', JStr ''recovering''), (''recovery'', JStr action), (''recovered_from'', JStr from_state)] now j
      in (j', rbind res (\<lambda>_. Inr ())))"

definition code_state :: "int \<Rightarrow> string" where
  "code_state code = (if code = 0 then ''completed'' else if code = 5 then ''stopped'' else ''failed'')"

definition finish_run ::
  "env \<Rightarrow> string \<Rightarrow> int \<Rightarrow> string \<Rightarrow> pyfloat \<Rightarrow> json \<Rightarrow> journal \<Rightarrow> journal \<times> string res" where
  "finish_run E run_id code summary ts now j =
     (let (j', res) = record_state E ''run'' run_id ''patch''
            [(''state'', JStr (code_state code)), (''code'', JInt code), (''summary'', JStr summary),
             (''finished_at'', JFloat ts)] now j
      in (j', rbind res (\<lambda>_. Inr (code_state code))))"

section \<open>The chain check\<close>

text \<open>\<^verbatim>\<open>sorted(steps, key=lambda s: int(s.get("seq", 0)))\<close>: the keys are computed first.\<close>

fun seq_keys :: "obj list \<Rightarrow> (int \<times> obj) list res" where
  "seq_keys [] = Inr []"
| "seq_keys (s # ss) =
     rbind (to_int (dget s ''seq'' (JInt 0))) (\<lambda>k. rbind (seq_keys ss) (\<lambda>ks. Inr ((k, s) # ks)))"

text \<open>The loop: \<open>Inr (Inl reason)\<close> is an early return, \<open>Inr (Inr prev)\<close> the hash of the last step.\<close>

fun chain_loop :: "env \<Rightarrow> string \<Rightarrow> int \<Rightarrow> string \<Rightarrow> obj list \<Rightarrow> (string + string) res" where
  "chain_loop E run_id i prev [] = Inr (Inr prev)"
| "chain_loop E run_id i prev (s # ss) =
     rbind (to_int (dget s ''seq'' (JInt 0))) (\<lambda>k.
       if k \<noteq> i + 1 then Inr (Inl (''step '' @ int_str (i + 1) @ '': seq out of order''))
       else rbind (rbind (item (JObj s) ''seq'') to_int) (\<lambda>seq.
         let want = step_state_hash E prev run_id seq (dget s ''observation_id'' (JStr '''')) (dget s ''action_id'' (JStr ''''))
                      (py_str E (dget s ''result'' (JStr '''')))
         in if pget s ''state_hash'' \<noteq> JStr want
            then Inr (Inl (''step '' @ py_str E (pget s ''seq'') @ '': state_hash mismatch (chain broken)''))
            else chain_loop E run_id (i + 1) want ss))"

definition check_chain :: "env \<Rightarrow> string \<Rightarrow> obj option \<Rightarrow> obj list \<Rightarrow> (bool \<times> string option) res" where
  "check_chain E run_id run steps =
     (case rbind (seq_keys steps) (\<lambda>ks. chain_loop E run_id 0 GENESIS (map snd (sort_key fst ks))) of
        Inl (TypeError _) \<Rightarrow> Inr (False, Some ''malformed step'')
      | Inl (ValueError _) \<Rightarrow> Inr (False, Some ''malformed step'')
      | Inl (KeyError _) \<Rightarrow> Inr (False, Some ''malformed step'')
      | Inl e \<Rightarrow> Inl e
      | Inr (Inl reason) \<Rightarrow> Inr (False, Some reason)
      | Inr (Inr prev) \<Rightarrow>
          (case run of
             Some r \<Rightarrow>
               if truthy (pget r ''steps'') \<and> pget r ''head_state_hash'' \<noteq> JStr prev
               then Inr (False, Some ''run head_state_hash does not match its last step'') else Inr (True, None)
           | None \<Rightarrow> Inr (True, None)))"

definition verify_run :: "env \<Rightarrow> string \<Rightarrow> state_store \<Rightarrow> (bool \<times> string option) res" where
  "verify_run E run_id store =
     check_chain E run_id (state_get ''run'' run_id store)
       (filter (\<lambda>s. pget s ''run_id'' = JStr run_id) (map snd (state_entities ''step'' store)))"

section \<open>Recovery\<close>

datatype recovery_action = COMPLETE | RESUME_STEP | REOBSERVE_BEFORE_RETRY | REVERIFY

record recovery_decision =
  rd_run_id :: string
  rd_action :: recovery_action
  rd_reason :: string
  rd_from_state :: json
  rd_last_step_id :: string
  rd_verify_observation_id :: json
  rd_verify_action_id :: json

text \<open>\<^verbatim>\<open>x not in TERMINAL_STATES\<close> hashes \<open>x\<close>: a list or an object raises.\<close>

definition in_terminal :: "json \<Rightarrow> bool res" where
  "in_terminal state =
     (case state of
        JList _ \<Rightarrow> Inl (TypeError ''unhashable type'')
      | JObj _ \<Rightarrow> Inl (TypeError ''unhashable type'')
      | _ \<Rightarrow> Inr (list_ex (\<lambda>s. state = JStr s) TERMINAL_STATES))"

fun in_flight_loop :: "entities \<Rightarrow> string list res" where
  "in_flight_loop [] = Inr []"
| "in_flight_loop ((rid, r) # rs) =
     rbind (in_terminal (pget r ''state'')) (\<lambda>t. rbind (in_flight_loop rs) (\<lambda>out. Inr (if t then out else rid # out)))"

definition in_flight_runs :: "state_store \<Rightarrow> string list res" where
  "in_flight_runs store = rbind (in_flight_loop (state_entities ''run'' store)) (\<lambda>ids. Inr (sort ids))"

text \<open>\<^verbatim>\<open>max(steps, key=...)\<close>: the first of the steps with the largest sequence number.\<close>

fun max_step :: "(string \<times> obj) \<times> int \<Rightarrow> entities \<Rightarrow> (string \<times> obj) res" where
  "max_step (best, k) [] = Inr best"
| "max_step (best, k) (s # ss) =
     rbind (to_int (dget (snd s) ''seq'' (JInt 0))) (\<lambda>n. max_step (if k < n then (s, n) else (best, k)) ss)"

definition last_step :: "state_store \<Rightarrow> string \<Rightarrow> (string \<times> obj) option res" where
  "last_step store run_id =
     (case filter (\<lambda>(sid, s). pget s ''run_id'' = JStr run_id) (state_entities ''step'' store) of
        [] \<Rightarrow> Inr None
      | s # ss \<Rightarrow>
          rbind (to_int (dget (snd s) ''seq'' (JInt 0))) (\<lambda>k. rbind (max_step (s, k) ss) (\<lambda>m. Inr (Some m))))"

text \<open>The decision for a run in flight, from its last step.\<close>

definition recovery_step :: "env \<Rightarrow> recovery_decision \<Rightarrow> (string \<times> obj) option \<Rightarrow> recovery_decision" where
  "recovery_step E d last_one =
     (case last_one of
        None \<Rightarrow> d\<lparr>rd_action := RESUME_STEP, rd_reason := ''no step executed yet''\<rparr>
      | Some (step_id, step) \<Rightarrow>
          let step_state = dget step ''state'' (JStr '''')
          in if step_state = JStr ''executing'' then
               d\<lparr>rd_action := REOBSERVE_BEFORE_RETRY,
                 rd_reason := ''crashed mid-execute; re-observe to check the action already happened'',
                 rd_last_step_id := step_id,
                 rd_verify_observation_id := dget step ''observation_id'' (JStr ''''),
                 rd_verify_action_id := dget step ''action_id'' (JStr '''')\<rparr>
             else if step_state = JStr ''verifying'' then
               d\<lparr>rd_action := REVERIFY, rd_reason := ''crashed during verification; re-run the check'',
                 rd_last_step_id := step_id\<rparr>
             else
               d\<lparr>rd_action := RESUME_STEP,
                 rd_reason := ''crashed before a side effect (step state '' @
                   (case step_state of JStr s \<Rightarrow> str_repr E s | v \<Rightarrow> py_str E v) @ '')'',
                 rd_last_step_id := step_id\<rparr>)"

definition recovery_for :: "env \<Rightarrow> state_store \<Rightarrow> string \<Rightarrow> recovery_decision option res" where
  "recovery_for E store run_id =
     (case state_get ''run'' run_id store of
        None \<Rightarrow> Inr None
      | Some run \<Rightarrow>
          let run_state = dget run ''state'' (JStr '''');
              d = \<lparr>rd_run_id = run_id, rd_action = COMPLETE, rd_reason = ''run already terminal'', rd_from_state = run_state,
                   rd_last_step_id = '''', rd_verify_observation_id = JStr '''', rd_verify_action_id = JStr ''''\<rparr>
          in rbind (in_terminal run_state) (\<lambda>t.
               if t then Inr (Some d)
               else rbind (last_step store run_id) (\<lambda>l. Inr (Some (recovery_step E d l)))))"

definition plan_recovery :: "env \<Rightarrow> state_store \<Rightarrow> recovery_decision list res" where
  "plan_recovery E store =
     rbind (in_flight_runs store) (\<lambda>rids.
       rfold (\<lambda>rid out.
         rbind (recovery_for E store rid) (\<lambda>r.
           case r of
             Some d \<Rightarrow> Inr (if rd_action d \<noteq> COMPLETE then out @ [d] else out)
           | None \<Rightarrow> Inr out)) rids [])"

definition recovery_preamble :: "recovery_decision \<Rightarrow> string" where
  "recovery_preamble d =
     (if rd_action d \<noteq> REOBSERVE_BEFORE_RETRY then ''''
      else ''[Resuming after an interruption] The previous attempt at this task stopped while '' @
           ''an action was being executed. Before doing anything else, look at the current '' @
           ''screen and check whether that action already took effect. If it did, do not '' @
           ''repeat it; continue from the new state.'' @ [CHR 0x0A, CHR 0x0A])"

section \<open>Episodes\<close>

record step_record =
  sr_run_id :: string
  sr_seq :: int
  sr_action_key :: string
  sr_verdict :: string
  sr_findings :: "string list"
  sr_outcome :: string
  sr_result :: string

record episode =
  ep_run_id :: string
  ep_goal_id :: string
  ep_state :: string
  ep_code :: "int option"
  ep_steps :: "step_record list"
  ep_verified :: bool
  ep_problem :: "string option"

definition finished :: "episode \<Rightarrow> bool" where
  "finished e \<longleftrightarrow> ep_state e \<in> set TERMINAL_STATES"

definition usable :: "episode \<Rightarrow> bool" where
  "usable e \<longleftrightarrow> finished e \<and> ep_verified e"

definition str_or :: "env \<Rightarrow> json \<Rightarrow> string" where
  "str_or E v = (if truthy v then py_str E v else '''')"

definition step_record_of :: "env \<Rightarrow> string \<Rightarrow> obj \<Rightarrow> step_record res" where
  "step_record_of E run_id s =
     rbind (case to_int (dget s ''seq'' (JInt 0)) of
              Inr n \<Rightarrow> Inr n
            | Inl (TypeError _) \<Rightarrow> Inr 0
            | Inl (ValueError _) \<Rightarrow> Inr 0
            | Inl e \<Rightarrow> Inl e) (\<lambda>seq.
       Inr \<lparr>sr_run_id = run_id, sr_seq = seq,
            sr_action_key = str_or E (pget s ''action_key''),
            sr_verdict = str_or E (pget s ''verdict''),
            sr_findings = (case pget s ''findings'' of JList fs \<Rightarrow> map (py_str E) fs | _ \<Rightarrow> []),
            sr_outcome = (case pget s ''outcome'' of JStr x \<Rightarrow> if x \<in> set OUTCOMES then x else ''unknown'' | _ \<Rightarrow> ''unknown''),
            sr_result = str_or E (pget s ''result'')\<rparr>)"

fun step_records :: "env \<Rightarrow> string \<Rightarrow> obj list \<Rightarrow> step_record list res" where
  "step_records E run_id [] = Inr []"
| "step_records E run_id (s # ss) =
     rbind (step_record_of E run_id s) (\<lambda>r. rbind (step_records E run_id ss) (\<lambda>rs. Inr (r # rs)))"

definition build_episode :: "env \<Rightarrow> state_store \<Rightarrow> string \<Rightarrow> obj \<Rightarrow> episode res" where
  "build_episode E store run_id run =
     (let raw_steps = filter (\<lambda>s. py_str E (dget s ''run_id'' (JStr '''')) = run_id) (map snd (state_entities ''step'' store))
      in rbind (check_chain E run_id (Some run) raw_steps) (\<lambda>(ok, problem).
         rbind (step_records E run_id raw_steps) (\<lambda>steps.
           Inr \<lparr>ep_run_id = run_id, ep_goal_id = py_str E (dget run ''goal_id'' (JStr '''')),
                ep_state = py_str E (dget run ''state'' (JStr '''')),
                ep_code = as_int (pget run ''code''),
                ep_steps = sort_key sr_seq steps, ep_verified = ok, ep_problem = problem\<rparr>)))"

definition build_episodes :: "env \<Rightarrow> state_store \<Rightarrow> (string, episode) dict res" where
  "build_episodes E store =
     rfold (\<lambda>(run_id, run) out. rbind (build_episode E store run_id run) (\<lambda>e. Inr (dset run_id e out)))
       (state_entities ''run'' store) []"

definition episodes_from_events :: "env \<Rightarrow> obj list \<Rightarrow> (string, episode) dict res" where
  "episodes_from_events E events =
     (case merge_events E events [] 0 of (store, Inl e) \<Rightarrow> Inl e | (store, Inr _) \<Rightarrow> build_episodes E store)"

section \<open>The chain a recorder writes\<close>

text \<open>The payloads \<^verbatim>\<open>record_step\<close> writes for a sequence of steps whose ids it computed, and the head
  hash it keeps.\<close>

fun recorded :: "env \<Rightarrow> string \<Rightarrow> string \<Rightarrow> int \<Rightarrow> (string \<times> string \<times> step_input) list \<Rightarrow> obj list" where
  "recorded E run_id prev n [] = []"
| "recorded E run_id prev n ((oid, aid, i) # is) =
     step_payload E prev run_id (n + 1) oid aid i #
     recorded E run_id (step_state_hash E prev run_id (n + 1) (JStr oid) (JStr aid) (si_result i)) (n + 1) is"

fun recorded_head :: "env \<Rightarrow> string \<Rightarrow> string \<Rightarrow> int \<Rightarrow> (string \<times> string \<times> step_input) list \<Rightarrow> string" where
  "recorded_head E run_id prev n [] = prev"
| "recorded_head E run_id prev n ((oid, aid, i) # is) =
     recorded_head E run_id (step_state_hash E prev run_id (n + 1) (JStr oid) (JStr aid) (si_result i)) (n + 1) is"

lemma step_payload_fields [simp]:
  "map_of (step_payload E prev run_id n oid aid i) ''seq'' = Some (JInt n)"
  "map_of (step_payload E prev run_id n oid aid i) ''observation_id'' = Some (JStr oid)"
  "map_of (step_payload E prev run_id n oid aid i) ''action_id'' = Some (JStr aid)"
  "map_of (step_payload E prev run_id n oid aid i) ''result'' = Some (JStr (si_result i))"
  "map_of (step_payload E prev run_id n oid aid i) ''state_hash'' =
     Some (JStr (step_state_hash E prev run_id n (JStr oid) (JStr aid) (si_result i)))"
  by (simp_all add: step_payload_def)

lemma recorded_chain_loop:
  "chain_loop E run_id n prev (recorded E run_id prev n is) = Inr (Inr (recorded_head E run_id prev n is))"
  by (induction E run_id prev n "is" rule: recorded.induct) (simp_all add: dget_def pget_def item_def)

lemma recorded_seqs: "s \<in> set (recorded E run_id prev n is) \<Longrightarrow> \<exists>k>n. map_of s ''seq'' = Some (JInt k)"
proof (induction E run_id prev n "is" rule: recorded.induct)
  case (1 E run_id prev n)
  then show ?case by simp
next
  case (2 E run_id prev n oid aid i "is")
  from "2.prems" consider "s = step_payload E prev run_id (n + 1) oid aid i"
    | "s \<in> set (recorded E run_id (step_state_hash E prev run_id (n + 1) (JStr oid) (JStr aid) (si_result i)) (n + 1) is)"
    by auto
  then show ?case
  proof cases
    case 1
    then show ?thesis by (intro exI [of _ "n + 1"]) simp
  next
    case 2
    with "2.IH" obtain k where "n + 1 < k" "map_of s ''seq'' = Some (JInt k)" by blast
    then show ?thesis by (intro exI [of _ k]) simp
  qed
qed

definition seq_of :: "obj \<Rightarrow> int" where
  "seq_of s = (case to_int (dget s ''seq'' (JInt 0)) of Inr k \<Rightarrow> k | Inl _ \<Rightarrow> 0)"

lemma recorded_sorted: "sorted (map seq_of (recorded E run_id prev n is)) \<and> distinct (map seq_of (recorded E run_id prev n is))"
proof (induction E run_id prev n "is" rule: recorded.induct)
  case (1 E run_id prev n)
  then show ?case by simp
next
  case (2 E run_id prev n oid aid i "is")
  let ?h = "step_state_hash E prev run_id (n + 1) (JStr oid) (JStr aid) (si_result i)"
  have "n + 1 < seq_of s" if "s \<in> set (recorded E run_id ?h (n + 1) is)" for s
    using recorded_seqs [OF that] by (auto simp: seq_of_def dget_def)
  moreover have "seq_of (step_payload E prev run_id (n + 1) oid aid i) = n + 1" by (simp add: seq_of_def dget_def)
  ultimately show ?case using 2 by fastforce
qed

lemma seq_keys_recorded:
  assumes "\<forall>s\<in>set ss. \<exists>k. map_of s ''seq'' = Some (JInt k)"
  shows "seq_keys ss = Inr (map (\<lambda>s. (seq_of s, s)) ss)"
  using assms by (induction ss) (auto simp: seq_of_def dget_def)

lemma check_chain_recorded:
  assumes "mset ss = mset (recorded E run_id GENESIS 0 is)"
    "\<And>r. run = Some r \<Longrightarrow> truthy (pget r ''steps'') \<Longrightarrow> pget r ''head_state_hash'' = JStr (recorded_head E run_id GENESIS 0 is)"
  shows "check_chain E run_id run ss = Inr (True, None)"
proof -
  let ?r = "recorded E run_id GENESIS 0 is"
  have set: "set ss = set ?r" using assms(1) by (rule mset_eq_setD)
  then have k: "seq_keys ss = Inr (map (\<lambda>s. (seq_of s, s)) ss)"
    using recorded_seqs by (intro seq_keys_recorded) blast
  have inj: "inj_on seq_of (set ss)" using recorded_sorted set by (metis distinct_map)
  have "sort_key fst (map (\<lambda>s. (seq_of s, s)) ss) = map (\<lambda>s. (seq_of s, s)) ?r"
  proof (rule sort_key_inj_key_eq)
    show "mset (map (\<lambda>s. (seq_of s, s)) ss) = mset (map (\<lambda>s. (seq_of s, s)) ?r)" using assms(1) by simp
    show "inj_on fst (set (map (\<lambda>s. (seq_of s, s)) ss))" using inj by (auto simp: inj_on_def)
    show "sorted (map fst (map (\<lambda>s. (seq_of s, s)) ?r))" using recorded_sorted by (simp add: comp_def)
  qed
  then have "map snd (sort_key fst (map (\<lambda>s. (seq_of s, s)) ss)) = ?r" by (simp add: comp_def)
  with k recorded_chain_loop [of E run_id 0 GENESIS "is"] assms(2) show ?thesis
    by (auto simp: check_chain_def split: option.splits)
qed

section \<open>What the journal holds of a run\<close>

fun record_steps :: "env \<Rightarrow> string \<Rightarrow> (step_input \<times> json \<times> json) list \<Rightarrow> recorder \<Rightarrow> journal \<Rightarrow> recorder \<times> journal \<times> unit res" where
  "record_steps E run_id [] rr j = (rr, j, Inr ())"
| "record_steps E run_id ((i, now, now') # is) rr j =
     (case record_step E run_id i now now' rr j of
        (rr', j', Inl e) \<Rightarrow> (rr', j', Inl e)
      | (rr', j', Inr _) \<Rightarrow> record_steps E run_id is rr' j')"

text \<open>The payload of a row that records a step.\<close>

definition step_of_row :: "row \<Rightarrow> obj option" where
  "step_of_row r =
     (case r_body r of
        JObj b \<Rightarrow> if pget b ''entity_type'' = JStr ''step'' then as_obj (pget b ''payload'') else None
      | _ \<Rightarrow> None)"

definition steps_of_rows :: "row list \<Rightarrow> obj list" where
  "steps_of_rows rows = List.map_filter step_of_row rows"

lemma steps_of_rows_simps [simp]:
  "steps_of_rows [] = []" "steps_of_rows (xs @ ys) = steps_of_rows xs @ steps_of_rows ys"
  "steps_of_rows [r] = (case step_of_row r of None \<Rightarrow> [] | Some p \<Rightarrow> [p])"
  by (simp_all add: steps_of_rows_def List.map_filter_def split: option.splits)

lemma journal_append_row:
  assumes "journal_append E kind body now j = (j', Inr e)"
  obtains r where "j_rows j' = j_rows j @ [r]" "r_body r = body"
proof -
  obtain seed author where "j_identity j = Some seed" "identity_did E seed = Inr author"
    using assms by (auto simp: journal_append_def split: option.splits sum.splits)
  with assms that show ?thesis
    by (auto simp: journal_append_def Let_def pget_def dest!: insert_row_fields(6) split: sum.splits prod.splits)
qed

lemma record_state_row:
  assumes "record_state E etype eid op payload now j = (j', Inr e)"
  obtains r where "j_rows j' = j_rows j @ [r]"
    "r_body r = JObj [(''entity_type'', JStr etype), (''entity_id'', JStr eid), (''operation'', JStr op), (''payload'', JObj payload)]"
proof -
  have "journal_append E STATE_EVENT_KIND
      (JObj [(''entity_type'', JStr etype), (''entity_id'', JStr eid), (''operation'', JStr op), (''payload'', JObj payload)]) now j =
      (j', Inr e)"
    using assms by (simp add: record_state_def split: if_splits)
  then show ?thesis by (rule journal_append_row) (rule that)
qed

lemma record_state_step:
  assumes "record_state E etype eid op payload now j = (j', Inr e)"
  shows "\<exists>r. j_rows j' = j_rows j @ [r] \<and> step_of_row r = (if etype = ''step'' then Some payload else None)"
  using assms by (rule record_state_row) (auto simp: step_of_row_def pget_def)

lemma record_step_writes:
  assumes "record_step E run_id i now now' rr j = (rr', j', Inr sid)" "dget (rr_runs rr) run_id (GENESIS, 0) = (h, n)"
  obtains oid aid rows where "content_id E (si_observation i) = Inr oid" "content_id E (si_action i) = Inr aid"
    "j_rows j' = j_rows j @ rows" "steps_of_rows rows = [step_payload E h run_id (n + 1) oid aid i]"
    "map_of (rr_runs rr') run_id = Some (step_state_hash E h run_id (n + 1) (JStr oid) (JStr aid) (si_result i), n + 1)"
proof -
  obtain oid where oid: "content_id E (si_observation i) = Inr oid"
    using assms by (auto simp: record_step_def Let_def split: sum.splits if_splits)
  obtain aid where aid: "content_id E (si_action i) = Inr aid"
    using assms oid by (auto simp: record_step_def Let_def split: sum.splits if_splits)
  define step_id where "step_id = short E [(''run_id'', JStr run_id), (''seq'', JInt (n + 1))]"
  define sh where "sh = step_state_hash E h run_id (n + 1) (JStr oid) (JStr aid) (si_result i)"
  obtain j1 e1 where j1: "record_state E ''step'' step_id ''set'' (step_payload E h run_id (n + 1) oid aid i) now j = (j1, Inr e1)"
    using assms oid aid by (auto simp: record_step_def Let_def step_id_def split: sum.splits if_splits prod.splits)
  obtain e2 where j2: "record_state E ''run'' run_id ''patch''
      [(''steps'', JInt (n + 1)), (''head_state_hash'', JStr sh), (''state'', JStr (si_state i))] now' j1 = (j', Inr e2)"
    and rr': "rr' = rr\<lparr>rr_runs := dset run_id (sh, n + 1) (dset run_id (h, n) (rr_runs rr))\<rparr>"
    using assms oid aid j1 by (auto simp: record_step_def Let_def step_id_def sh_def split: sum.splits if_splits prod.splits)
  obtain r1 where r1: "j_rows j1 = j_rows j @ [r1]" "step_of_row r1 = Some (step_payload E h run_id (n + 1) oid aid i)"
    using record_state_step [OF j1] by auto
  obtain r2 where r2: "j_rows j' = j_rows j1 @ [r2]" "step_of_row r2 = None"
    using record_state_step [OF j2] by auto
  have "steps_of_rows [r1, r2] = steps_of_rows ([r1] @ [r2])" by simp
  also have "\<dots> = [step_payload E h run_id (n + 1) oid aid i]" unfolding steps_of_rows_simps(2) by (simp add: r1 r2)
  finally show ?thesis using that [OF oid aid, of "[r1, r2]"] r1(1) r2(1) rr' by (simp add: sh_def)
qed

lemma record_steps_recorded:
  assumes "record_steps E run_id is rr j = (rr', j', Inr ())" "dget (rr_runs rr) run_id (GENESIS, 0) = (h, n)"
  shows "\<exists>rows ids. j_rows j' = j_rows j @ rows \<and> map (snd \<circ> snd) ids = map fst is \<and>
    steps_of_rows rows = recorded E run_id h n ids \<and>
    dget (rr_runs rr') run_id (GENESIS, 0) = (recorded_head E run_id h n ids, n + int (length is))"
  using assms
proof (induction "is" arbitrary: rr j h n)
  case Nil
  then show ?case by (intro exI [of _ "[]"]) simp
next
  case (Cons x "is")
  obtain i now now' where x: "x = (i, now, now')" by (cases x)
  obtain rr1 j1 sid where s: "record_step E run_id i now now' rr j = (rr1, j1, Inr sid)"
    and rest: "record_steps E run_id is rr1 j1 = (rr', j', Inr ())"
    using Cons.prems(1) by (auto simp: x split: prod.splits sum.splits)
  obtain oid aid rows where w: "j_rows j1 = j_rows j @ rows" "steps_of_rows rows = [step_payload E h run_id (n + 1) oid aid i]"
    "map_of (rr_runs rr1) run_id = Some (step_state_hash E h run_id (n + 1) (JStr oid) (JStr aid) (si_result i), n + 1)"
    by (rule record_step_writes [OF s Cons.prems(2)])
  from w(3) have d: "dget (rr_runs rr1) run_id (GENESIS, 0) =
      (step_state_hash E h run_id (n + 1) (JStr oid) (JStr aid) (si_result i), n + 1)" by (simp add: dget_def)
  from Cons.IH [OF rest d] obtain rows' ids where "j_rows j' = j_rows j1 @ rows'" "map (snd \<circ> snd) ids = map fst is"
    "steps_of_rows rows' = recorded E run_id (step_state_hash E h run_id (n + 1) (JStr oid) (JStr aid) (si_result i)) (n + 1) ids"
    "dget (rr_runs rr') run_id (GENESIS, 0) =
      (recorded_head E run_id (step_state_hash E h run_id (n + 1) (JStr oid) (JStr aid) (si_result i)) (n + 1) ids,
       n + 1 + int (length is))" by blast
  with w show ?case by (intro exI [of _ "rows @ rows'"] exI [of _ "(oid, aid, i) # ids"]) (simp add: x comp_def)
qed

section \<open>Equal heads, equal steps\<close>

text \<open>What a step commits to, and the bytes hashed for it.\<close>

definition step_facts :: "env \<Rightarrow> obj \<Rightarrow> json \<times> json \<times> string" where
  "step_facts E s = (sort_keys (dget s ''observation_id'' (JStr '''')), sort_keys (dget s ''action_id'' (JStr '''')),
     py_str E (dget s ''result'' (JStr '''')))"

definition step_message :: "env \<Rightarrow> string \<Rightarrow> string \<Rightarrow> obj \<Rightarrow> bytes" where
  "step_message E run_id prev s =
     canonical E (JObj (step_body prev run_id (seq_of s) (dget s ''observation_id'' (JStr '''')) (dget s ''action_id'' (JStr ''''))
       (py_str E (dget s ''result'' (JStr '''')))))"

fun chain_messages :: "env \<Rightarrow> string \<Rightarrow> string \<Rightarrow> obj list \<Rightarrow> bytes list" where
  "chain_messages E run_id prev [] = []"
| "chain_messages E run_id prev (s # ss) =
     step_message E run_id prev s # chain_messages E run_id (hexdigest E (step_message E run_id prev s)) ss"

lemma chain_loop_Cons:
  "chain_loop E run_id i prev (s # ss) = Inr (Inr h) \<longleftrightarrow>
     to_int (dget s ''seq'' (JInt 0)) = Inr (i + 1) \<and> map_of s ''seq'' \<noteq> None \<and>
     pget s ''state_hash'' = JStr (hexdigest E (step_message E run_id prev s)) \<and>
     chain_loop E run_id (i + 1) (hexdigest E (step_message E run_id prev s)) ss = Inr (Inr h)"
proof (cases "map_of s ''seq''")
  case None
  then show ?thesis by (simp add: item_def dget_def [of s "''seq''"])
next
  case (Some v)
  show ?thesis
  proof (cases "to_int v")
    case (Inl e)
    with Some show ?thesis by (simp add: dget_def)
  next
    case (Inr k)
    have d: "dget s ''seq'' (JInt 0) = v" using Some by (simp add: dget_def)
    have k: "seq_of s = k" by (simp add: seq_of_def d Inr)
    have h: "step_state_hash E prev run_id k (dget s ''observation_id'' (JStr '''')) (dget s ''action_id'' (JStr ''''))
        (py_str E (dget s ''result'' (JStr ''''))) = hexdigest E (step_message E run_id prev s)"
      by (simp only: step_state_hash_def step_message_def k)
    show ?thesis
    proof (cases "k = i + 1")
      case True
      show ?thesis unfolding chain_loop.simps d Inr rbind_simps item_def json.simps Some option.simps h Let_def using True by simp
    next
      case False
      then show ?thesis unfolding chain_loop.simps d Inr by simp
    qed
  qed
qed

lemma chain_loop_snoc:
  "chain_loop E run_id i prev (ss @ [s]) = Inr (Inr h) \<Longrightarrow>
     \<exists>p. chain_loop E run_id i prev ss = Inr (Inr p) \<and> seq_of s = i + int (length ss) + 1 \<and>
       h = hexdigest E (step_message E run_id p s) \<and>
       chain_messages E run_id prev (ss @ [s]) = chain_messages E run_id prev ss @ [step_message E run_id p s]"
proof (induction ss arbitrary: i prev)
  case Nil
  then show ?case by (auto simp: chain_loop_Cons seq_of_def simp del: chain_loop.simps(2))
next
  case (Cons x ss)
  then have "chain_loop E run_id (i + 1) (hexdigest E (step_message E run_id prev x)) (ss @ [s]) = Inr (Inr h)"
    by (simp add: chain_loop_Cons del: chain_loop.simps(2))
  from Cons.IH [OF this] Cons.prems show ?case
    by (auto simp: chain_loop_Cons simp del: chain_loop.simps(2))
qed

lemma step_message_inject:
  assumes "float_repr_ok E" "step_message E run_id p s = step_message E run_id q t"
  shows "p = q" "seq_of s = seq_of t" "step_facts E s = step_facts E t"
proof -
  have F: "map_option sort_keys (map_of (step_body p run_id a b c d) k) = map_option sort_keys (map_of (step_body q run_id a' b' c' d') k)"
    if "canonical E (JObj (step_body p run_id a b c d)) = canonical E (JObj (step_body q run_id a' b' c' d'))"
    for k a b c d a' b' c' d'
    using that by (intro canonical_fields [OF assms(1)]) (simp_all add: step_body_def)
  note eq = F [OF assms(2) [unfolded step_message_def]]
  show "p = q" using eq [of "''prev''"] by (simp add: step_body_def)
  show "seq_of s = seq_of t" using eq [of "''seq''"] by (simp add: step_body_def)
  show "step_facts E s = step_facts E t"
    using eq [of "''observation_id''"] eq [of "''action_id''"] eq [of "''result''"] by (simp add: step_body_def step_facts_def)
qed

lemma hexdigest_inject: "inj_on (sha256 E) S \<Longrightarrow> a \<in> S \<Longrightarrow> b \<in> S \<Longrightarrow> hexdigest E a = hexdigest E b \<Longrightarrow> a = b"
  by (auto simp: hexdigest_def hex_inject dest: inj_onD)

lemma equal_head_equal_steps:
  assumes "float_repr_ok E" "inj_on (sha256 E) S" "length xs = length ys"
    "chain_loop E run_id 0 GENESIS xs = Inr (Inr h)" "chain_loop E run_id 0 GENESIS ys = Inr (Inr h)"
    "set (chain_messages E run_id GENESIS xs) \<subseteq> S" "set (chain_messages E run_id GENESIS ys) \<subseteq> S"
  shows "map (step_facts E) xs = map (step_facts E) ys"
  using assms(3-7)
proof (induction xs arbitrary: ys h rule: rev_induct)
  case Nil
  then show ?case by simp
next
  case (snoc s xs)
  from snoc.prems(1) obtain t zs where ys: "ys = zs @ [t]" "length xs = length zs" by (cases ys rule: rev_cases) auto
  obtain p where p: "chain_loop E run_id 0 GENESIS xs = Inr (Inr p)" "h = hexdigest E (step_message E run_id p s)"
    "chain_messages E run_id GENESIS (xs @ [s]) = chain_messages E run_id GENESIS xs @ [step_message E run_id p s]"
    using chain_loop_snoc [OF snoc.prems(2)] by blast
  obtain q where q: "chain_loop E run_id 0 GENESIS zs = Inr (Inr q)" "h = hexdigest E (step_message E run_id q t)"
    "chain_messages E run_id GENESIS (zs @ [t]) = chain_messages E run_id GENESIS zs @ [step_message E run_id q t]"
    using chain_loop_snoc [OF snoc.prems(3) [unfolded ys]] by blast
  have "step_message E run_id p s = step_message E run_id q t"
    using hexdigest_inject [OF assms(2)] p q snoc.prems(4,5) ys(1) by auto
  note eq = step_message_inject [OF assms(1) this]
  have "map (step_facts E) xs = map (step_facts E) zs"
    using snoc.IH [OF ys(2) p(1)] q(1) eq(1) p(3) q(3) snoc.prems(4,5) ys(1) by auto
  with eq(3) ys show ?case by simp
qed

lemma equal_head_equal_length:
  assumes "float_repr_ok E" "inj_on (sha256 E) S" "xs \<noteq> []" "ys \<noteq> []"
    "chain_loop E run_id 0 GENESIS xs = Inr (Inr h)" "chain_loop E run_id 0 GENESIS ys = Inr (Inr h)"
    "set (chain_messages E run_id GENESIS xs) \<subseteq> S" "set (chain_messages E run_id GENESIS ys) \<subseteq> S"
  shows "length xs = length ys"
proof -
  obtain s xs' t ys' where e: "xs = xs' @ [s]" "ys = ys' @ [t]" using assms(3,4) by (metis rev_exhaust)
  obtain p where p: "seq_of s = int (length xs') + 1" "h = hexdigest E (step_message E run_id p s)"
    "step_message E run_id p s \<in> S"
    using chain_loop_snoc [OF assms(5) [unfolded e]] assms(7) e by auto
  obtain q where q: "seq_of t = int (length ys') + 1" "h = hexdigest E (step_message E run_id q t)"
    "step_message E run_id q t \<in> S"
    using chain_loop_snoc [OF assms(6) [unfolded e]] assms(8) e by auto
  have "step_message E run_id p s = step_message E run_id q t"
    using hexdigest_inject [OF assms(2) p(3) q(3)] p(2) q(2) by simp
  from step_message_inject(2) [OF assms(1) this] p(1) q(1) e show ?thesis by simp
qed

section \<open>Recovery never skips an interrupted action\<close>

abbreviation run_steps :: "state_store \<Rightarrow> string \<Rightarrow> entities" where
  "run_steps store run_id \<equiv> filter (\<lambda>(sid, s). pget s ''run_id'' = JStr run_id) (state_entities ''step'' store)"

lemma max_step_max:
  assumes "max_step (best, k) ss = Inr m" "to_int (dget (snd best) ''seq'' (JInt 0)) = Inr k"
  shows "m \<in> set (best # ss) \<and> (\<forall>s\<in>set (best # ss). seq_of (snd s) \<le> seq_of (snd m))"
  using assms
proof (induction ss arbitrary: best k)
  case Nil
  then show ?case by simp
next
  case (Cons s ss)
  then obtain n where n: "to_int (dget (snd s) ''seq'' (JInt 0)) = Inr n"
    "max_step (if k < n then (s, n) else (best, k)) ss = Inr m" by (auto simp: rbind_Inr_iff)
  have k: "seq_of (snd best) = k" "seq_of (snd s) = n" using Cons.prems(2) n(1) by (simp_all add: seq_of_def)
  show ?case
  proof (cases "k < n")
    case True
    with Cons.IH [of s n] n k show ?thesis by force
  next
    case False
    with Cons.IH [of best k] Cons.prems(2) n k show ?thesis by force
  qed
qed

lemma last_step_max:
  assumes "last_step store run_id = Inr (Some m)"
  shows "m \<in> set (run_steps store run_id) \<and> (\<forall>s\<in>set (run_steps store run_id). seq_of (snd s) \<le> seq_of (snd m))"
proof (cases "run_steps store run_id")
  case Nil
  with assms show ?thesis by (simp add: last_step_def)
next
  case (Cons s ss)
  with assms obtain k where "to_int (dget (snd s) ''seq'' (JInt 0)) = Inr k" "max_step (s, k) ss = Inr m"
    by (auto simp: last_step_def rbind_Inr_iff)
  then show ?thesis unfolding Cons using max_step_max by blast
qed

lemma last_step_None: "last_step store run_id = Inr None \<Longrightarrow> run_steps store run_id = []"
  by (auto simp: last_step_def rbind_Inr_iff split: list.splits)

lemma recovery_step_simps [simp]:
  "rd_run_id (recovery_step E d l) = rd_run_id d" "rd_action (recovery_step E d l) \<noteq> COMPLETE"
  by (simp_all add: recovery_step_def Let_def split: option.split)

lemma recovery_step_resume:
  "rd_action (recovery_step E d (Some (sid, s))) = RESUME_STEP \<Longrightarrow> dget s ''state'' (JStr '''') \<noteq> JStr ''executing''"
  by (auto simp: recovery_step_def Let_def split: if_splits)

lemma recovery_for_cases:
  assumes "recovery_for E store run_id = Inr (Some d)"
  obtains (terminal) "rd_action d = COMPLETE" "rd_run_id d = run_id"
  | (flight) l d' where "last_step store run_id = Inr l" "d = recovery_step E d' l" "rd_run_id d' = run_id"
  using assms by (auto simp: recovery_for_def Let_def rbind_Inr_iff split: option.splits if_splits)

lemma recovery_resume:
  assumes "recovery_for E store run_id = Inr (Some d)" "rd_action d = RESUME_STEP"
    "(sid, s) \<in> set (run_steps store run_id)" "dget s ''state'' (JStr '''') = JStr ''executing''"
  shows "\<exists>(sid', s')\<in>set (run_steps store run_id). seq_of s \<le> seq_of s' \<and> dget s' ''state'' (JStr '''') \<noteq> JStr ''executing''"
  using assms(1)
proof (cases rule: recovery_for_cases)
  case terminal
  with assms(2) show ?thesis by simp
next
  case (flight l d')
  from assms(3) last_step_None flight(1) obtain m where m: "l = Some m" by (cases l) auto
  obtain sid' s' where m': "m = (sid', s')" by (cases m)
  have "dget s' ''state'' (JStr '''') \<noteq> JStr ''executing''"
    using assms(2) flight(2) m m' by (auto dest: recovery_step_resume)
  with last_step_max [of store run_id m] flight(1) m m' assms(3) show ?thesis by fastforce
qed

lemma recovery_run_id: "recovery_for E store run_id = Inr (Some d) \<Longrightarrow> rd_run_id d = run_id"
  by (erule recovery_for_cases) simp_all

lemma materialize_inner_distinct:
  "(\<forall>(t, ents)\<in>set st. distinct (map fst ents)) \<Longrightarrow> (t, ents) \<in> set (fold materialize_step ds st) \<Longrightarrow> distinct (map fst ents)"
proof (induction ds arbitrary: st)
  case Nil
  then show ?case by auto
next
  case (Cons d ds)
  have "distinct (map fst (dget st (sd_entity_type d) []))"
    using Cons.prems(1) map_of_SomeD [of st "sd_entity_type d"] by (fastforce simp: dget_def split: option.splits)
  then have "\<forall>(t, ents)\<in>set (materialize_step d st). distinct (map fst ents)"
    using Cons.prems(1) by (auto simp: materialize_step_def Let_def dest!: set_dset)
  with Cons show ?case by simp
qed

lemma state_entities_distinct: "distinct (map fst (state_entities t s))"
proof (cases "map_of (materialize s) t")
  case None
  then show ?thesis by (simp add: state_entities_def dget_def)
next
  case (Some ents)
  then have "(t, ents) \<in> set (fold materialize_step (sort_key delta_order (map snd s)) [])"
    by (auto simp: materialize_def dest!: map_of_SomeD)
  then have "distinct (map fst ents)" by (rule materialize_inner_distinct [rotated]) simp
  with Some show ?thesis by (simp add: state_entities_def dget_def)
qed

lemma in_flight_loop_set:
  "in_flight_loop rs = Inr ids \<Longrightarrow> rid \<in> set ids \<Longrightarrow> \<exists>r. (rid, r) \<in> set rs \<and> in_terminal (pget r ''state'') = Inr False"
  by (induction rs arbitrary: ids) (auto simp: rbind_Inr_iff split: if_splits, blast+)

lemma in_flight_decided:
  assumes "in_flight_runs store = Inr ids" "rid \<in> set ids" "recovery_for E store rid = Inr x"
  shows "\<exists>d. x = Some d \<and> rd_action d \<noteq> COMPLETE"
proof -
  from assms(1,2) obtain r where r: "(rid, r) \<in> set (state_entities ''run'' store)" "in_terminal (pget r ''state'') = Inr False"
    using in_flight_loop_set by (force simp: in_flight_runs_def rbind_Inr_iff)
  have "state_get ''run'' rid store = Some r"
    using r(1) state_entities_distinct by (simp add: state_get_def)
  moreover have "in_terminal (dget r ''state'' (JStr '''')) = Inr False"
    using r(2) by (auto simp: in_terminal_def pget_def dget_def TERMINAL_STATES_def split: option.splits json.splits)
  ultimately show ?thesis
    using assms(3) by (auto simp: recovery_for_def Let_def rbind_Inr_iff)
qed

lemma plan_loop:
  assumes "rfold (\<lambda>rid out. rbind (recovery_for E store rid) (\<lambda>r.
      case r of Some d \<Rightarrow> Inr (if rd_action d \<noteq> COMPLETE then out @ [d] else out) | None \<Rightarrow> Inr out)) ids out = Inr ds"
    "\<And>rid x. rid \<in> set ids \<Longrightarrow> recovery_for E store rid = Inr x \<Longrightarrow> \<exists>d. x = Some d \<and> rd_action d \<noteq> COMPLETE"
  shows "\<exists>new. ds = out @ new \<and> map rd_run_id new = ids \<and> (\<forall>d\<in>set new. recovery_for E store (rd_run_id d) = Inr (Some d))"
  using assms
proof (induction ids arbitrary: out)
  case Nil
  then show ?case by simp
next
  case (Cons rid ids)
  obtain x where x: "recovery_for E store rid = Inr x" using Cons.prems(1) by (auto simp: rbind_Inr_iff)
  with Cons.prems(2) obtain d where d: "x = Some d" "rd_action d \<noteq> COMPLETE" by (meson list.set_intros(1))
  from Cons.prems(1) x d have rest: "rfold (\<lambda>rid out. rbind (recovery_for E store rid) (\<lambda>r.
      case r of Some d \<Rightarrow> Inr (if rd_action d \<noteq> COMPLETE then out @ [d] else out) | None \<Rightarrow> Inr out)) ids (out @ [d]) = Inr ds"
    by simp
  from Cons.IH [OF rest] Cons.prems(2) obtain new where "ds = (out @ [d]) @ new" "map rd_run_id new = ids"
    "\<forall>d\<in>set new. recovery_for E store (rd_run_id d) = Inr (Some d)" by auto
  moreover have "rd_run_id d = rid" using x d(1) recovery_run_id by simp
  ultimately show ?case using x d(1) by (intro exI [of _ "d # new"]) simp
qed

section \<open>Properties\<close>

text \<open>What a recorder wrote for a run verifies: after \<^verbatim>\<open>start_run\<close> and any number of
  \<^verbatim>\<open>record_step\<close> calls that returned, the step payloads the journal gained, in whatever order a
  store returns them, pass \<^verbatim>\<open>check_chain\<close> together with the head hash the recorder holds.\<close>

theorem recorded_run_verifies:
  assumes "start_run E goal_id state ts now rr j = (rr1, j1, Inr run_id)"
    "record_steps E run_id is rr1 j1 = (rr2, j2, Inr ())"
    "mset steps = mset (steps_of_rows (drop (length (j_rows j1)) (j_rows j2)))"
    "pget run ''head_state_hash'' = JStr (fst (dget (rr_runs rr2) run_id (GENESIS, 0)))"
  shows "check_chain E run_id (Some run) steps = Inr (True, None)"
proof -
  have "dget (rr_runs rr1) run_id (GENESIS, 0) = (GENESIS, 0)"
    using assms(1) by (auto simp: start_run_def Let_def dget_def split: sum.splits prod.splits)
  from record_steps_recorded [OF assms(2) this] obtain rows ids where "j_rows j2 = j_rows j1 @ rows"
    "steps_of_rows rows = recorded E run_id GENESIS 0 ids"
    "dget (rr_runs rr2) run_id (GENESIS, 0) = (recorded_head E run_id GENESIS 0 ids, 0 + int (length is))" by blast
  with assms(3,4) show ?thesis by (intro check_chain_recorded [of _ E run_id ids]) auto
qed


text \<open>C20 Crash recovery is complete and never repeats blindly: \<^verbatim>\<open>plan_recovery\<close> decides every run left in
  flight, in order, and tells to redo a step only when no step left in \<^verbatim>\<open>executing\<close> is the last one:
  one at least as late is in another state.\<close>

theorem plan_recovery_safe:
  assumes "plan_recovery E store = Inr ds"
  shows "in_flight_runs store = Inr (map rd_run_id ds) \<and>
    (\<forall>d\<in>set ds. rd_action d = RESUME_STEP \<longrightarrow>
      (\<forall>(sid, s)\<in>set (run_steps store (rd_run_id d)). dget s ''state'' (JStr '''') = JStr ''executing'' \<longrightarrow>
        (\<exists>(sid', s')\<in>set (run_steps store (rd_run_id d)). seq_of s \<le> seq_of s' \<and>
           dget s' ''state'' (JStr '''') \<noteq> JStr ''executing'')))"
proof -
  from assms obtain ids where ids: "in_flight_runs store = Inr ids" and fold: "rfold (\<lambda>rid out. rbind (recovery_for E store rid) (\<lambda>r.
      case r of Some d \<Rightarrow> Inr (if rd_action d \<noteq> COMPLETE then out @ [d] else out) | None \<Rightarrow> Inr out)) ids [] = Inr ds"
    by (auto simp: plan_recovery_def rbind_Inr_iff)
  from plan_loop [OF fold in_flight_decided [OF ids]]
  have ds: "map rd_run_id ds = ids" "\<forall>d\<in>set ds. recovery_for E store (rd_run_id d) = Inr (Some d)" by auto
  show ?thesis using ids ds recovery_resume by (auto simp del: set_filter)
qed

subsection \<open>Witnesses\<close>

lemma journal_append_ok:
  assumes "crypto_ok E" "length seed = 32" "j_identity j = Some seed" "journal_inv (j_rows j)" "j_lamport j = JInt n"
    "int64 (n + 1)" "int (length (j_rows j)) + 1 < 2 ^ 63"
  shows "\<exists>j' e. journal_append E kind body (JFloat (Fin q)) j = (j', Inr e) \<and> j_identity j' = Some seed \<and>
    j_lamport j' = JInt (n + 1) \<and> length (j_rows j') = length (j_rows j) + 1 \<and> journal_inv (j_rows j')"
proof -
  obtain author where did: "identity_did E seed = Inr author" by (rule identity_did_ok [OF assms(1,2)])
  have "length (chain author (j_rows j)) \<le> length (j_rows j)" by (rule length_filter_le)
  with assms(7) have "int64 (int (length (chain author (j_rows j))) + 1)" unfolding int64_def by linarith
  then have "\<exists>j' e. journal_append E kind body (JFloat (Fin q)) j = (j', Inr e) \<and> j_identity j' = Some seed \<and>
      j_lamport j' = JInt (n + 1) \<and> length (j_rows j') = length (j_rows j) + 1"
    using assms(3,5,6) did
    by (simp add: journal_append_def head_linked [OF assms(4)] Let_def insert_row_def column_def not_null_def pget_def)
  then obtain j' e where j': "journal_append E kind body (JFloat (Fin q)) j = (j', Inr e)" "j_identity j' = Some seed"
    "j_lamport j' = JInt (n + 1)" "length (j_rows j') = length (j_rows j) + 1" by blast
  with journal_append_inv [OF assms(4), of E kind body "JFloat (Fin q)"] show ?thesis by auto
qed

lemma record_state_ok:
  assumes "crypto_ok E" "length seed = 32" "j_identity j = Some seed" "journal_inv (j_rows j)" "j_lamport j = JInt n"
    "int64 (n + 1)" "int (length (j_rows j)) + 1 < 2 ^ 63" "op \<in> set OPS" "etype \<noteq> []" "eid \<noteq> []"
  shows "\<exists>j' e. record_state E etype eid op payload (JFloat (Fin q)) j = (j', Inr e) \<and> j_identity j' = Some seed \<and>
    j_lamport j' = JInt (n + 1) \<and> length (j_rows j') = length (j_rows j) + 1 \<and> journal_inv (j_rows j')"
  using journal_append_ok [OF assms(1-7)] assms(8-10) by (simp add: record_state_def)

lemma short_nonempty: "sha256 E (canonical E (JObj m)) \<noteq> [] \<Longrightarrow> short E m \<noteq> []"
  by (cases "sha256 E (canonical E (JObj m))") (simp_all add: short_def hexdigest_def hex_def)

definition ref_input :: "string \<Rightarrow> step_input" where
  "ref_input verdict = \<lparr>si_observation = ContentId ''o'', si_action = NoContent, si_result = ''ok'', si_verdict = verdict,
     si_state = ''executing'', si_action_key = '''', si_outcome = ''ok'', si_findings = []\<rparr>"

theorem recorded_run_verifies_witness:
  "\<exists>rr1 j1 run_id rr2 j2 steps run. start_run ref_env ''g'' ''created'' (Fin 1) (JFloat (Fin 5)) recorder_init ref_node = (rr1, j1, Inr run_id) \<and>
     record_steps ref_env run_id [(ref_input ''allow'', JFloat (Fin 6), JFloat (Fin 7))] rr1 j1 = (rr2, j2, Inr ()) \<and>
     length steps = 1 \<and> check_chain ref_env run_id (Some run) steps = Inr (True, None)"
proof -
  note sha = short_nonempty [OF ref_env_sha(2)]
  have n: "j_identity ref_node = Some (ref_seed (CHR ''a''))" "journal_inv (j_rows ref_node)" "j_lamport ref_node = JInt 0"
    "length (j_rows ref_node) = 0"
    by (simp_all add: ref_node_def journal_inv_def)
  define run_id where "run_id = short ref_env [(''author'', JStr (ref_did (CHR ''a''))), (''goal_id'', JStr ''g''),
      (''run_seq'', JInt 1), (''ts'', JFloat (Fin 1))]"
  obtain j1 e1 where j1: "record_state ref_env ''run'' run_id ''set''
      [(''goal_id'', JStr ''g''), (''state'', JStr ''created''), (''started_at'', JFloat (Fin 1)), (''steps'', JInt 0),
       (''head_state_hash'', JStr GENESIS)] (JFloat (Fin 5)) ref_node = (j1, Inr e1)"
    "j_identity j1 = Some (ref_seed (CHR ''a''))" "j_lamport j1 = JInt 1" "length (j_rows j1) = 1" "journal_inv (j_rows j1)"
    using record_state_ok [OF ref_env_crypto length_ref_seed n(1-3), where op = "''set''" and etype = "''run''" and eid = run_id] n(4) sha
    by (simp add: int64_def OPS_def run_id_def) blast
  define rr1 where "rr1 = recorder_init\<lparr>rr_run_seq := 1, rr_runs := [(run_id, (GENESIS, 0))]\<rparr>"
  have start: "start_run ref_env ''g'' ''created'' (Fin 1) (JFloat (Fin 5)) recorder_init ref_node = (rr1, j1, Inr run_id)"
    using j1(1) n(1) by (simp add: start_run_def recorder_init_def recorder_author_def Let_def run_id_def rr1_def)
  define i where "i = ref_input ''allow''"
  obtain j2 e2 where j2: "record_state ref_env ''step'' (short ref_env [(''run_id'', JStr run_id), (''seq'', JInt 1)]) ''set''
      (step_payload ref_env GENESIS run_id 1 ''o'' '''' i) (JFloat (Fin 6)) j1 = (j2, Inr e2)"
    "j_identity j2 = Some (ref_seed (CHR ''a''))" "j_lamport j2 = JInt 2" "length (j_rows j2) = Suc (Suc 0)" "journal_inv (j_rows j2)"
    using record_state_ok [OF ref_env_crypto length_ref_seed j1(2,5,3), where op = "''set''" and etype = "''step''"
        and eid = "short ref_env [(''run_id'', JStr run_id), (''seq'', JInt 1)]"] j1(4) sha
    by (simp add: int64_def OPS_def) blast
  define sh where "sh = step_state_hash ref_env GENESIS run_id 1 (JStr ''o'') (JStr '''') ''ok''"
  obtain j3 e3 where j3: "record_state ref_env ''run'' run_id ''patch''
      [(''steps'', JInt 1), (''head_state_hash'', JStr sh), (''state'', JStr ''executing'')] (JFloat (Fin 7)) j2 = (j3, Inr e3)"
    using record_state_ok [OF ref_env_crypto length_ref_seed j2(2,5,3), where op = "''patch''" and etype = "''run''" and eid = run_id] j2(4) sha
    by (simp add: int64_def OPS_def run_id_def) blast
  obtain rr2 where steps: "record_steps ref_env run_id [(ref_input ''allow'', JFloat (Fin 6), JFloat (Fin 7))] rr1 j1 = (rr2, j3, Inr ())"
    using j2(1) j3 by (simp add: record_step_def ref_input_def OUTCOMES_def rr1_def dget_def Let_def i_def sh_def)
  define new where "new = steps_of_rows (drop (length (j_rows j1)) (j_rows j3))"
  have "new = [step_payload ref_env GENESIS run_id 1 ''o'' '''' i]"
    using record_state_step [OF j2(1)] record_state_step [OF j3] steps_of_rows_simps(2) [of "[_]" "[_]"] by (auto simp: new_def)
  moreover have "check_chain ref_env run_id (Some [(''head_state_hash'', JStr (fst (dget (rr_runs rr2) run_id (GENESIS, 0))))]) new = Inr (True, None)"
    by (rule recorded_run_verifies [OF start steps]) (simp_all add: new_def pget_def)
  ultimately show ?thesis using start steps by (metis length_Cons list.size(3) One_nat_def)
qed


definition ref_crash :: state_store where
  "ref_crash =
     [((''a'', 1), \<lparr>sd_author = ''a'', sd_seq = 1, sd_lamport = 1, sd_entity_type = ''run'', sd_entity_id = ''r'',
        sd_operation = ''set'', sd_payload = [(''state'', JStr ''executing'')]\<rparr>),
      ((''a'', 2), \<lparr>sd_author = ''a'', sd_seq = 2, sd_lamport = 2, sd_entity_type = ''step'', sd_entity_id = ''s'',
        sd_operation = ''set'', sd_payload = [(''run_id'', JStr ''r''), (''seq'', JInt 1), (''state'', JStr ''verifying'')]\<rparr>)]"

theorem plan_recovery_safe_witness:
  "\<exists>ds. plan_recovery ref_env ref_crash = Inr ds \<and> in_flight_runs ref_crash = Inr (map rd_run_id ds)"
proof -
  have "sort_key delta_order (map snd ref_crash) = map snd ref_crash"
    by (rule sort_key_id_if_sorted) (simp add: ref_crash_def delta_order_def less_eq_prod_def)
  then have "state_entities ''run'' ref_crash = [(''r'', [(''state'', JStr ''executing'')])]"
    "state_entities ''step'' ref_crash = [(''s'', [(''run_id'', JStr ''r''), (''seq'', JInt 1), (''state'', JStr ''verifying'')])]"
    by (simp_all add: state_entities_def materialize_def materialize_step_def dget_def ref_crash_def)
  then have "\<exists>ds. plan_recovery ref_env ref_crash = Inr ds"
    by (simp add: plan_recovery_def in_flight_runs_def in_terminal_def pget_def TERMINAL_STATES_def recovery_for_def state_get_def
        dget_def last_step_def)
  with plan_recovery_safe show ?thesis by blast
qed

section \<open>A restarted recorder\<close>

text \<open>
  The memory of a recorder does not survive a restart: for a run it does not know, \<^verbatim>\<open>record_step\<close> begins
  again at sequence number 1 from the genesis hash, under the entity id of the first step the run already
  has. The set replaces that step, and unless the new step reports exactly what the replaced one did the run
  no longer verifies.
\<close>

theorem restarted_recorder_breaks_chain:
  assumes "map_of (rr_runs rr) run_id = None" "record_step E run_id i now now' rr j = (rr', j', Inr sid)"
    "float_repr_ok E" "inj_on (sha256 E) S"
  shows "sid = short E [(''run_id'', JStr run_id), (''seq'', JInt 1)] \<and>
    (\<exists>p. steps_of_rows (drop (length (j_rows j)) (j_rows j')) = [p] \<and>
      (\<forall>old s t rest run. chain_loop E run_id 0 GENESIS (s # t # rest) = Inr (Inr old) \<longrightarrow>
        step_facts E s \<noteq> step_facts E p \<longrightarrow>
        {step_message E run_id GENESIS s, step_message E run_id GENESIS p,
         step_message E run_id (hexdigest E (step_message E run_id GENESIS s)) t,
         step_message E run_id (hexdigest E (step_message E run_id GENESIS p)) t} \<subseteq> S \<longrightarrow>
        (\<forall>h. chain_loop E run_id 0 GENESIS (p # t # rest) \<noteq> Inr (Inr h))))"
proof -
  have d: "dget (rr_runs rr) run_id (GENESIS, 0) = (GENESIS, 0)" using assms(1) by (simp add: dget_def)
  obtain oid aid rows where w: "j_rows j' = j_rows j @ rows" "steps_of_rows rows = [step_payload E GENESIS run_id (0 + 1) oid aid i]"
    by (rule record_step_writes [OF assms(2) d])
  have sid: "sid = short E [(''run_id'', JStr run_id), (''seq'', JInt 1)]"
    using assms(2) d by (auto simp: record_step_def Let_def split: if_splits sum.splits prod.splits)
  let ?p = "step_payload E GENESIS run_id 1 oid aid i"
  have "chain_loop E run_id 0 GENESIS (?p # t # rest) \<noteq> Inr (Inr h)"
    if c: "chain_loop E run_id 0 GENESIS (s # t # rest) = Inr (Inr old)" and f: "step_facts E s \<noteq> step_facts E ?p"
      and S: "{step_message E run_id GENESIS s, step_message E run_id GENESIS ?p,
         step_message E run_id (hexdigest E (step_message E run_id GENESIS s)) t,
         step_message E run_id (hexdigest E (step_message E run_id GENESIS ?p)) t} \<subseteq> S" for old s t rest h
  proof
    assume "chain_loop E run_id 0 GENESIS (?p # t # rest) = Inr (Inr h)"
    with c have "hexdigest E (step_message E run_id (hexdigest E (step_message E run_id GENESIS s)) t) =
        hexdigest E (step_message E run_id (hexdigest E (step_message E run_id GENESIS ?p)) t)"
      by (simp only: chain_loop_Cons) simp
    then have "step_message E run_id (hexdigest E (step_message E run_id GENESIS s)) t =
        step_message E run_id (hexdigest E (step_message E run_id GENESIS ?p)) t"
      using hexdigest_inject [OF assms(4)] S by simp
    then have "hexdigest E (step_message E run_id GENESIS s) = hexdigest E (step_message E run_id GENESIS ?p)"
      by (rule step_message_inject(1) [OF assms(3)])
    then have "step_message E run_id GENESIS s = step_message E run_id GENESIS ?p"
      using hexdigest_inject [OF assms(4)] S by simp
    with step_message_inject(3) [OF assms(3)] f show False by blast
  qed
  with sid w show ?thesis by auto
qed

end
