(* ===== verification/Py_Text.thy ===== *)
theory Py_Text
  imports Prelude
begin

text \<open>
  The operations of Python strings several components use on text of the operator or a model:
  white space, slices by characters, lower case, substrings.
\<close>

text \<open>The characters \<^verbatim>\<open>str.strip\<close> and \<^verbatim>\<open>\s\<close> take for white space, by their UTF-8 bytes.\<close>

definition wide_spaces :: "string list" where
  "wide_spaces =
     [[CHR 0xC2, CHR 0x85], [CHR 0xC2, CHR 0xA0], [CHR 0xE1, CHR 0x9A, CHR 0x80], [CHR 0xE2, CHR 0x80, CHR 0xA8],
      [CHR 0xE2, CHR 0x80, CHR 0xA9], [CHR 0xE2, CHR 0x80, CHR 0xAF], [CHR 0xE2, CHR 0x81, CHR 0x9F],
      [CHR 0xE3, CHR 0x80, CHR 0x80]] @
     map (\<lambda>n. [CHR 0xE2, CHR 0x80, char_of n]) [128..<139 :: nat]"

definition py_space :: "string \<Rightarrow> bool" where
  "py_space c \<longleftrightarrow> (case c of [b] \<Rightarrow> is_space b | _ \<Rightarrow> c \<in> set wide_spaces)"

definition py_rstrip :: "string \<Rightarrow> string" where
  "py_rstrip s = concat (rev (dropWhile py_space (rev (utf8_chars s))))"

definition py_strip :: "string \<Rightarrow> string" where
  "py_strip s = concat (rev (dropWhile py_space (rev (dropWhile py_space (utf8_chars s)))))"

definition str_take :: "nat \<Rightarrow> string \<Rightarrow> string" where
  "str_take n s = concat (take n (utf8_chars s))"

text \<open>\<^verbatim>\<open>str.lower\<close> as far as ASCII text can appear in the result: besides the capital letters only the
  Kelvin sign and the dotted capital I have a lower case that contains an ASCII letter.\<close>

definition lower_char :: "string \<Rightarrow> string" where
  "lower_char c =
     (case c of
        [b] \<Rightarrow> if 65 \<le> (of_char b :: nat) \<and> (of_char b :: nat) \<le> 90 then [char_of ((of_char b :: nat) + 32)] else [b]
      | _ \<Rightarrow> if c = [CHR 0xE2, CHR 0x84, CHR 0xAA] then ''k''
            else if c = [CHR 0xC4, CHR 0xB0] then [CHR ''i'', CHR 0xCC, CHR 0x87] else c)"

definition lower_ascii :: "string \<Rightarrow> string" where
  "lower_ascii s = concat (map lower_char (utf8_chars s))"

fun contains :: "string \<Rightarrow> string \<Rightarrow> bool" where
  "contains [] p = (p = [])"
| "contains (c # cs) p = (starts_with (c # cs) p \<or> contains cs p)"

end
