(* ===== verification/Memory.thy ===== *)
theory Memory
  imports Run Py_Text
begin

text \<open>
  \<^verbatim>\<open>citadel/lessons.py\<close> and \<^verbatim>\<open>citadel/consolidate.py\<close>: staged memory. Candidates wait in a local
  quarantine; what becomes long-term memory is a signed journal event that every reader judges again.

  The quarantine's SQLite table is the list of its rows; its queries are ordered, so the order of the list
  does not matter. The time of a journal append is a function of the number of rows the journal holds. The
  results: a record in a memory view is a caution with evidence or was confirmed by a trusted operator for
  this content on this node (\<open>admit_sound\<close>), a consolidation pass asserts a caution only on enough failing
  verified runs whatever the quarantine says (\<open>consolidate_items_sound\<close>), and the quarantine never
  outgrows its bound.
\<close>

section \<open>Text\<close>

text \<open>\<^verbatim>\<open>^(global|app:\S{1,200}|goal:\S{1,200})$\<close> with \<^verbatim>\<open>match\<close>: the dollar also matches before one
  final newline.\<close>

definition scope_body :: "string \<Rightarrow> bool" where
  "scope_body s \<longleftrightarrow> (let cs = utf8_chars s in 1 \<le> length cs \<and> length cs \<le> 200 \<and> list_all (\<lambda>c. \<not> py_space c) cs)"

definition scope_exact :: "string \<Rightarrow> bool" where
  "scope_exact s \<longleftrightarrow> s = ''global'' \<or> starts_with s ''app:'' \<and> scope_body (drop 4 s) \<or>
     starts_with s ''goal:'' \<and> scope_body (drop 5 s)"

definition scope_ok :: "string \<Rightarrow> bool" where
  "scope_ok s \<longleftrightarrow> scope_exact s \<or> s \<noteq> [] \<and> last s = CHR 0x0A \<and> scope_exact (butlast s)"

subsection \<open>Credential-shaped text\<close>

definition SECRET_KEY_HINTS :: "string list" where
  "SECRET_KEY_HINTS = [''password'', ''passwd'', ''secret'', ''token'', ''api_key'', ''apikey'', ''api-key'',
     ''pin'', ''cvv'', ''ssn'', ''credential'', ''private_key'']"

definition is_upper :: "char \<Rightarrow> bool" where
  "is_upper c \<longleftrightarrow> 65 \<le> (of_char c :: nat) \<and> (of_char c :: nat) \<le> 90"

definition is_lower :: "char \<Rightarrow> bool" where
  "is_lower c \<longleftrightarrow> 97 \<le> (of_char c :: nat) \<and> (of_char c :: nat) \<le> 122"

definition alnum :: "char \<Rightarrow> bool" where
  "alnum c \<longleftrightarrow> is_upper c \<or> is_lower c \<or> is_digit c"

definition run_of :: "(char \<Rightarrow> bool) \<Rightarrow> nat \<Rightarrow> string \<Rightarrow> bool" where
  "run_of P n s \<longleftrightarrow> n \<le> length s \<and> list_all P (take n s)"

fun pem_tail :: "string \<Rightarrow> bool" where
  "pem_tail [] = False"
| "pem_tail (c # cs) = (starts_with (c # cs) ''PRIVATE KEY-----'' \<or> ((is_upper c \<or> c = CHR '' '') \<and> pem_tail cs))"

text \<open>A credential starts here; the pattern is searched at every position.\<close>

definition secret_here :: "string \<Rightarrow> bool" where
  "secret_here s \<longleftrightarrow>
     starts_with s ''sk-'' \<and> run_of alnum 16 (drop 3 s) \<or>
     starts_with s ''ghp_'' \<and> run_of alnum 20 (drop 4 s) \<or>
     starts_with s ''xox'' \<and> 5 \<le> length s \<and> s ! 3 \<in> set ''baprs'' \<and> s ! 4 = CHR ''-'' \<and>
       run_of (\<lambda>c. alnum c \<or> c = CHR ''-'') 10 (drop 5 s) \<or>
     starts_with s ''AKIA'' \<and> run_of (\<lambda>c. is_digit c \<or> is_upper c) 16 (drop 4 s) \<or>
     starts_with s ''-----BEGIN '' \<and> pem_tail (drop 11 s)"

fun secret_value :: "string \<Rightarrow> bool" where
  "secret_value [] = False"
| "secret_value (c # cs) = (secret_here (c # cs) \<or> secret_value cs)"

definition looks_like_secret :: "string \<Rightarrow> string \<Rightarrow> bool" where
  "looks_like_secret key v \<longleftrightarrow> list_ex (contains (lower_ascii key)) SECRET_KEY_HINTS \<or> secret_value v"

section \<open>Candidates\<close>

datatype memory_class = CAUTION | FACT | PREFERENCE

fun class_value :: "memory_class \<Rightarrow> string" where
  "class_value CAUTION = ''caution''"
| "class_value FACT = ''fact''"
| "class_value PREFERENCE = ''preference''"

definition memory_class_of :: "json \<Rightarrow> memory_class res" where
  "memory_class_of v =
     (if v = JStr ''caution'' then Inr CAUTION
      else if v = JStr ''fact'' then Inr FACT
      else if v = JStr ''preference'' then Inr PREFERENCE
      else Inl (ValueError ''unknown memory class''))"

definition SOURCES :: "string list" where
  "SOURCES = [''consolidation'', ''model'', ''operator'']"

definition candidate_id :: "env \<Rightarrow> memory_class \<Rightarrow> string \<Rightarrow> string \<Rightarrow> string \<Rightarrow> string" where
  "candidate_id E mclass scope key v =
     hexdigest E (canonical E (JObj [(''mclass'', JStr (class_value mclass)), (''scope'', JStr scope),
       (''key'', JStr key), (''value'', JStr v)]))"

record candidate =
  c_id :: string
  c_mclass :: memory_class
  c_scope :: string
  c_key :: string
  c_value :: string
  c_source :: string
  c_evidence :: "string list"
  c_contradictions :: "string list"
  c_first_seen :: pyfloat
  c_last_seen :: pyfloat

definition bounded_text :: "nat \<Rightarrow> string \<Rightarrow> bool" where
  "bounded_text n s \<longleftrightarrow> py_strip s \<noteq> [] \<and> str_len s \<le> n"

text \<open>\<^verbatim>\<open>validate\<close>: the class, and the three strings it was given.\<close>

definition validate :: "json \<Rightarrow> json \<Rightarrow> json \<Rightarrow> json \<Rightarrow> string \<Rightarrow> (memory_class \<times> string \<times> string \<times> string) res" where
  "validate mclass scope key v source =
     rbind (memory_class_of mclass) (\<lambda>m.
       case as_str scope of
         None \<Rightarrow> Inl (ValueError ''bad scope (global | app:<id> | goal:<id>)'')
       | Some sc \<Rightarrow>
           if \<not> scope_ok sc then Inl (ValueError ''bad scope (global | app:<id> | goal:<id>)'')
           else (case as_str key of
             None \<Rightarrow> Inl (ValueError ''key must be 1..200 characters'')
           | Some k \<Rightarrow>
               if \<not> bounded_text 200 k then Inl (ValueError ''key must be 1..200 characters'')
               else (case as_str v of
                 None \<Rightarrow> Inl (ValueError ''value must be 1..500 characters'')
               | Some w \<Rightarrow>
                   if \<not> bounded_text 500 w then Inl (ValueError ''value must be 1..500 characters'')
                   else if source \<notin> set SOURCES then Inl (ValueError ''unknown source'')
                   else if looks_like_secret k w
                     then Inl (ValueError ''that looks like a credential; memory never stores secrets'')
                   else Inr (m, sc, k, w))))"

definition validate_candidate :: "candidate \<Rightarrow> memory_class res" where
  "validate_candidate c =
     rbind (validate (JStr (class_value (c_mclass c))) (JStr (c_scope c)) (JStr (c_key c)) (JStr (c_value c)) (c_source c))
       (\<lambda>(m, _). Inr m)"

definition make_candidate ::
  "env \<Rightarrow> memory_class \<Rightarrow> string \<Rightarrow> string \<Rightarrow> string \<Rightarrow> string \<Rightarrow> string list \<Rightarrow> string list \<Rightarrow> pyfloat \<Rightarrow> candidate res" where
  "make_candidate E mclass scope key v source evidence contradictions now =
     rbind (validate (JStr (class_value mclass)) (JStr scope) (JStr key) (JStr v) source) (\<lambda>_.
       Inr \<lparr>c_id = candidate_id E mclass scope key v, c_mclass = mclass, c_scope = scope, c_key = key, c_value = v,
            c_source = source, c_evidence = sorted_set evidence, c_contradictions = sorted_set contradictions,
            c_first_seen = now, c_last_seen = now\<rparr>)"

section \<open>The quarantine\<close>

record candidate_store =
  cs_ttl :: pyfloat
  cs_max :: int
  cs_rows :: "candidate list"

text \<open>\<^verbatim>\<open>ORDER BY last_seen\<close>, ascending and descending.\<close>

fun seen_key :: "pyfloat \<Rightarrow> nat \<times> rat" where
  "seen_key NInf = (0, 0)"
| "seen_key (Fin q) = (1, q)"
| "seen_key PInf = (2, 0)"
| "seen_key NaN = (3, 0)"

fun unseen_key :: "pyfloat \<Rightarrow> nat \<times> rat" where
  "unseen_key NInf = (2, 0)"
| "unseen_key (Fin q) = (1, - q)"
| "unseen_key PInf = (0, 0)"
| "unseen_key NaN = (3, 0)"

definition cs_find :: "string \<Rightarrow> candidate list \<Rightarrow> candidate option" where
  "cs_find cid rows = List.find (\<lambda>c. c_id c = cid) rows"

definition make_room :: "int \<Rightarrow> candidate list \<Rightarrow> candidate list" where
  "make_room mx rows =
     (let n = int (length rows)
      in if n < mx then rows
         else let doomed = take (nat (n - mx + 1)) (map c_id (sort_key (\<lambda>c. (seen_key (c_last_seen c), c_id c)) rows))
              in filter (\<lambda>c. c_id c \<notin> set doomed) rows)"

definition fmin :: "pyfloat \<Rightarrow> pyfloat \<Rightarrow> pyfloat" where
  "fmin a b = (if flt b a then b else a)"

definition fmax :: "pyfloat \<Rightarrow> pyfloat \<Rightarrow> pyfloat" where
  "fmax a b = (if flt a b then b else a)"

text \<open>A NaN is bound as a null, which the columns refuse; room was made by then.\<close>

definition cs_insert :: "candidate \<Rightarrow> candidate list \<Rightarrow> candidate list res" where
  "cs_insert c rows =
     (if c_first_seen c = NaN \<or> c_last_seen c = NaN then Inl (SqliteError ''NOT NULL constraint failed'')
      else Inr (filter (\<lambda>x. c_id x \<noteq> c_id c) rows @ [c]))"

definition upsert :: "candidate \<Rightarrow> candidate_store \<Rightarrow> candidate_store \<times> candidate res" where
  "upsert c st =
     (case validate_candidate c of
        Inl e \<Rightarrow> (st, Inl e)
      | Inr _ \<Rightarrow>
          let old = cs_find (c_id c) (cs_rows st);
              c' = (case old of
                      None \<Rightarrow> c
                    | Some o' \<Rightarrow> o'\<lparr>c_evidence := sorted_set (c_evidence o' @ c_evidence c),
                                   c_contradictions := sorted_set (c_contradictions o' @ c_contradictions c),
                                   c_first_seen := fmin (c_first_seen o') (c_first_seen c),
                                   c_last_seen := fmax (c_last_seen o') (c_last_seen c)\<rparr>);
              rows = (if old = None then make_room (cs_max st) (cs_rows st) else cs_rows st)
          in case cs_insert c' rows of
               Inl e \<Rightarrow> (st\<lparr>cs_rows := rows\<rparr>, Inl e)
             | Inr rows' \<Rightarrow> (st\<lparr>cs_rows := rows'\<rparr>, Inr c'))"

definition note_key :: "env \<Rightarrow> string option \<Rightarrow> string \<Rightarrow> string" where
  "note_key E key v =
     (let k = (case key of None \<Rightarrow> '''' | Some s \<Rightarrow> py_strip s)
      in if k \<noteq> [] then k else ''note:'' @ take 12 (hexdigest E v))"

definition store_note ::
  "env \<Rightarrow> string \<Rightarrow> string option \<Rightarrow> string \<Rightarrow> memory_class \<Rightarrow> string \<Rightarrow> pyfloat \<Rightarrow> candidate_store \<Rightarrow>
     candidate_store \<times> candidate res" where
  "store_note E v key scope mclass source now st =
     (let w = py_strip v
      in case make_candidate E mclass scope (note_key E key w) w source [] [] now of
           Inl e \<Rightarrow> (st, Inl e)
         | Inr c \<Rightarrow> upsert c st)"

definition cs_items :: "memory_class option \<Rightarrow> string option \<Rightarrow> candidate_store \<Rightarrow> candidate list" where
  "cs_items mclass scope st =
     sort_key (\<lambda>c. (unseen_key (c_last_seen c), c_id c))
       (filter (\<lambda>c. (case mclass of None \<Rightarrow> True | Some m \<Rightarrow> c_mclass c = m) \<and>
                    (case scope of None \<Rightarrow> True | Some s \<Rightarrow> c_scope c = s)) (cs_rows st))"

definition cs_remove :: "string \<Rightarrow> candidate_store \<Rightarrow> candidate_store \<times> bool" where
  "cs_remove cid st =
     (st\<lparr>cs_rows := filter (\<lambda>c. c_id c \<noteq> cid) (cs_rows st)\<rparr>, list_ex (\<lambda>c. c_id c = cid) (cs_rows st))"

definition cs_expire :: "pyfloat \<Rightarrow> candidate_store \<Rightarrow> candidate_store \<times> nat" where
  "cs_expire t st =
     (let old = (\<lambda>c. flt (c_last_seen c) (fsub t (cs_ttl st)))
      in (st\<lparr>cs_rows := filter (\<lambda>c. \<not> old c) (cs_rows st)\<rparr>, length (filter old (cs_rows st))))"

section \<open>Distilling cautions\<close>

record tally =
  t_failure_runs :: "string list"
  t_success_runs :: "string list"

definition runs_with :: "string list \<Rightarrow> string \<Rightarrow> episode list \<Rightarrow> string list" where
  "runs_with outcomes key eps =
     sorted_set (map ep_run_id (filter (\<lambda>e. usable e \<and> list_ex (\<lambda>s. sr_action_key s = key \<and> sr_outcome s \<in> set outcomes) (ep_steps e)) eps))"

definition tally_keys :: "episode list \<Rightarrow> string list" where
  "tally_keys eps =
     sorted_set (filter (\<lambda>k. k \<noteq> [])
       (map sr_action_key (filter (\<lambda>s. sr_outcome s \<in> set [''failed'', ''no_change'', ''ok''])
         (concat (map ep_steps (filter usable eps))))))"

definition tally_of :: "episode list \<Rightarrow> (string, tally) dict" where
  "tally_of eps =
     map (\<lambda>k. (k, \<lparr>t_failure_runs = runs_with [''failed'', ''no_change''] k eps, t_success_runs = runs_with [''ok''] k eps\<rparr>))
       (tally_keys eps)"

definition caution_value :: "string \<Rightarrow> string" where
  "caution_value action_key = ''action '' @ str_take 16 action_key @ '' failed or had no effect in earlier runs''"

definition extract_cautions :: "env \<Rightarrow> episode list \<Rightarrow> string \<Rightarrow> pyfloat \<Rightarrow> candidate list res" where
  "extract_cautions E eps scope t =
     rfold (\<lambda>(key, tal) out.
       if t_failure_runs tal = [] then Inr out
       else rbind (make_candidate E CAUTION scope key (caution_value key) ''consolidation'' (t_failure_runs tal) (t_success_runs tal) t)
              (\<lambda>c. Inr (out @ [c]))) (tally_of eps) []"

section \<open>The memory gate\<close>

record promotion =
  pr_promote :: bool
  pr_basis :: string
  pr_needs_operator :: bool
  pr_reason :: string
  pr_evidence :: "string list"

fun error_text :: "py_error \<Rightarrow> string" where
  "error_text (ValueError s) = s"
| "error_text (KeyError s) = s"
| "error_text (TypeError s) = s"
| "error_text (RuntimeError s) = s"
| "error_text (OverflowError s) = s"
| "error_text (GuardRefusal s) = s"
| "error_text (NoRoute s) = s"
| "error_text (SqliteError s) = s"
| "error_text (AttributeError s) = s"

definition held :: "string \<Rightarrow> promotion" where
  "held reason = \<lparr>pr_promote = False, pr_basis = '''', pr_needs_operator = False, pr_reason = reason, pr_evidence = []\<rparr>"

definition review_candidate :: "candidate \<Rightarrow> tally option \<Rightarrow> int \<Rightarrow> promotion" where
  "review_candidate c tal min_runs =
     (case validate_candidate c of
        Inl e \<Rightarrow> held (''not admissible: '' @ error_text e)
      | Inr _ \<Rightarrow>
          if c_mclass c \<noteq> CAUTION
          then (held ''it can steer planning: only the operator can confirm it'')\<lparr>pr_needs_operator := True\<rparr>
          else
            let fails = (case tal of None \<Rightarrow> 0 | Some t \<Rightarrow> int (length (t_failure_runs t)));
                need = max 1 min_runs
            in if fails < need
               then held (''failed in '' @ int_str fails @ '' verified run(s); '' @ int_str need @ '' needed'')
               else (case tal of
                 None \<Rightarrow> held ''''
               | Some t \<Rightarrow>
                   if t_success_runs t \<noteq> []
                   then held (''also succeeded in '' @ int_str (int (length (t_success_runs t))) @ '' run(s): flaky, not a known failure'')
                   else \<lparr>pr_promote = True, pr_basis = ''evidence'', pr_needs_operator = False,
                         pr_reason = ''failed in '' @ int_str fails @ '' verified runs and never succeeded'',
                         pr_evidence = sort (t_failure_runs t)\<rparr>))"

definition CONFIRMATION_TYPE :: string where
  "CONFIRMATION_TYPE = ''secdogie/memory-confirmation/v1''"

definition create_confirmation :: "env \<Rightarrow> identity \<Rightarrow> string \<Rightarrow> string \<Rightarrow> pyfloat \<Rightarrow> obj res" where
  "create_confirmation E seed memory_id subject_did now =
     sign_payload E seed [(''type'', JStr CONFIRMATION_TYPE), (''memory_id'', JStr memory_id),
       (''subject'', JStr subject_did), (''confirmed_at'', JFloat now)]"

record confirmation_result =
  cr_ok :: bool
  cr_reason :: "string option"
  cr_signer :: "did option"

definition verify_confirmation :: "env \<Rightarrow> json \<Rightarrow> string \<Rightarrow> string \<Rightarrow> trust option \<Rightarrow> confirmation_result" where
  "verify_confirmation E v memory_id subject confirmers =
     (case v of
        JObj d \<Rightarrow>
          if pget d ''type'' \<noteq> JStr CONFIRMATION_TYPE
          then \<lparr>cr_ok = False, cr_reason = Some ''not a memory confirmation (domain separation)'', cr_signer = None\<rparr>
          else if confirmers = None then \<lparr>cr_ok = False, cr_reason = Some ''no confirmers configured'', cr_signer = None\<rparr>
          else (case verify_payload E v confirmers of
            (ok, signer) \<Rightarrow>
              if \<not> ok then \<lparr>cr_ok = False, cr_reason = Some (if signer \<noteq> None then ''confirmer not trusted or revoked'' else ''invalid signature''),
                            cr_signer = signer\<rparr>
              else if pget d ''memory_id'' \<noteq> JStr memory_id
                then \<lparr>cr_ok = False, cr_reason = Some ''confirms a different memory'', cr_signer = signer\<rparr>
              else if pget d ''subject'' \<noteq> JStr subject
                then \<lparr>cr_ok = False, cr_reason = Some ''confirms a memory on a different node'', cr_signer = signer\<rparr>
              else \<lparr>cr_ok = True, cr_reason = None, cr_signer = signer\<rparr>)
      | _ \<Rightarrow> \<lparr>cr_ok = False, cr_reason = Some ''not a memory confirmation (domain separation)'', cr_signer = None\<rparr>)"

section \<open>Writing long-term memory\<close>

definition MEMORY_EVENT_KIND :: string where
  "MEMORY_EVENT_KIND = ''memory''"

text \<open>\<^verbatim>\<open>journal.identity.did\<close>\<close>

definition journal_did :: "env \<Rightarrow> journal \<Rightarrow> did res" where
  "journal_did E j =
     (case j_identity j of None \<Rightarrow> Inl (AttributeError ''no attribute did'') | Some seed \<Rightarrow> identity_did E seed)"

definition promotion_basis ::
  "env \<Rightarrow> memory_class \<Rightarrow> candidate \<Rightarrow> promotion option \<Rightarrow> json option \<Rightarrow> trust option \<Rightarrow> journal \<Rightarrow> (string \<times> string list) res" where
  "promotion_basis E mclass c decision confirmation confirmers j =
     (case confirmation of
        Some v \<Rightarrow>
          rbind (journal_did E j) (\<lambda>did.
            let r = verify_confirmation E v (c_id c) did confirmers
            in if cr_ok r then Inr (''operator'', []) else Inl (ValueError ''confirmation refused''))
      | None \<Rightarrow>
          (case decision of
             Some d \<Rightarrow>
               if pr_promote d \<and> pr_basis d = ''evidence''
               then (if mclass \<noteq> CAUTION then Inl (ValueError ''only a caution can be promoted on evidence alone'')
                     else Inr (''evidence'', pr_evidence d))
               else Inl (ValueError ''nothing to promote on: no evidence decision and no operator confirmation'')
           | None \<Rightarrow> Inl (ValueError ''nothing to promote on: no evidence decision and no operator confirmation'')))"

definition assert_body :: "memory_class \<Rightarrow> candidate \<Rightarrow> string \<Rightarrow> string list \<Rightarrow> json option \<Rightarrow> obj" where
  "assert_body mclass c basis evidence confirmation =
     [(''op'', JStr ''assert''), (''memory_id'', JStr (c_id c)), (''mclass'', JStr (class_value mclass)),
      (''scope'', JStr (c_scope c)), (''key'', JStr (c_key c)), (''value'', JStr (c_value c)), (''basis'', JStr basis),
      (''evidence'', JList (map JStr evidence)),
      (''confirmation'', (case confirmation of Some v \<Rightarrow> if truthy v then v else JObj [] | None \<Rightarrow> JObj []))]"

definition assert_memory ::
  "env \<Rightarrow> candidate \<Rightarrow> promotion option \<Rightarrow> json option \<Rightarrow> trust option \<Rightarrow> json \<Rightarrow> journal \<Rightarrow> journal \<times> obj res" where
  "assert_memory E c decision confirmation confirmers now j =
     (case validate_candidate c of
        Inl e \<Rightarrow> (j, Inl e)
      | Inr mclass \<Rightarrow>
          if c_id c \<noteq> candidate_id E mclass (c_scope c) (c_key c) (c_value c)
          then (j, Inl (ValueError ''candidate id does not match its content''))
          else (case promotion_basis E mclass c decision confirmation confirmers j of
            Inl e \<Rightarrow> (j, Inl e)
          | Inr (basis, evidence) \<Rightarrow>
              journal_append E MEMORY_EVENT_KIND (JObj (assert_body mclass c basis evidence confirmation)) now j))"

definition retract_memory :: "env \<Rightarrow> string \<Rightarrow> string \<Rightarrow> string list \<Rightarrow> json \<Rightarrow> journal \<Rightarrow> journal \<times> obj res" where
  "retract_memory E memory_id reason evidence now j =
     journal_append E MEMORY_EVENT_KIND
       (JObj [(''op'', JStr ''retract''), (''memory_id'', JStr memory_id), (''reason'', JStr reason),
              (''evidence'', JList (map JStr evidence))]) now j"

section \<open>Reading long-term memory\<close>

record memory_record =
  m_id :: string
  m_mclass :: memory_class
  m_scope :: string
  m_key :: string
  m_value :: string
  m_basis :: string
  m_evidence :: "string list"
  m_confirmed_by :: string
  m_author :: string

type_synonym memory_view = "(string, memory_record) dict"

definition known_failures :: "memory_view \<Rightarrow> string set" where
  "known_failures view = set (map (m_key \<circ> snd) (filter (\<lambda>(i, r). m_mclass r = CAUTION) view))"

definition memory_facts :: "memory_view \<Rightarrow> (string \<times> string, memory_record) dict" where
  "memory_facts view =
     fold (\<lambda>(i, r) d. if m_mclass r \<noteq> CAUTION then dset (m_scope r, m_key r) r d else d) view []"

definition render :: "nat \<Rightarrow> nat \<Rightarrow> memory_view \<Rightarrow> string" where
  "render limit max_chars view =
     (let lines = map (\<lambda>(k, r). ''- '' @ m_key r @ '': '' @ m_value r) (memory_facts view) @
                  map (\<lambda>(i, r). ''- avoid repeating: '' @ m_value r) (filter (\<lambda>(i, r). m_mclass r = CAUTION) view);
          block = join [CHR 0x0A] (take limit lines)
      in if str_len block \<le> max_chars then block else py_rstrip (str_take max_chars block) @ '' ...'')"

definition memory_order :: "env \<Rightarrow> obj \<Rightarrow> (int \<times> string \<times> int) res" where
  "memory_order E ev =
     (case rbind (to_int (dget ev ''lamport'' (JInt 0))) (\<lambda>l.
           rbind (to_int (dget ev ''seq'' (JInt 0))) (\<lambda>s. Inr (l, py_str E (dget ev ''author'' (JStr '''')), s))) of
        Inl (TypeError _) \<Rightarrow> Inr (0, '''', 0)
      | Inl (ValueError _) \<Rightarrow> Inr (0, '''', 0)
      | r \<Rightarrow> r)"

definition admit_evidence :: "json \<Rightarrow> string list option" where
  "admit_evidence v = (case as_list v of None \<Rightarrow> None | Some vs \<Rightarrow> strings_of vs)"

text \<open>The fields of an \<^verbatim>\<open>assert\<close> body: its basis, the validated content and the id it claims.\<close>

definition admit_fields :: "obj \<Rightarrow> (json \<times> (memory_class \<times> string \<times> string \<times> string) \<times> json) res" where
  "admit_fields body =
     rbind (item (JObj body) ''basis'') (\<lambda>basis.
     rbind (item (JObj body) ''mclass'') (\<lambda>mc.
     rbind (item (JObj body) ''scope'') (\<lambda>sc.
     rbind (item (JObj body) ''key'') (\<lambda>k.
     rbind (item (JObj body) ''value'') (\<lambda>v.
     rbind (validate mc sc k v (if basis = JStr ''evidence'' then ''consolidation'' else ''operator'')) (\<lambda>valid.
     rbind (item (JObj body) ''memory_id'') (\<lambda>mid. Inr (basis, valid, mid))))))))"

text \<open>What the basis has to show for a record with this content.\<close>

definition admit_basis :: "env \<Rightarrow> json \<Rightarrow> obj \<Rightarrow> trust option \<Rightarrow> memory_record \<Rightarrow> memory_record option" where
  "admit_basis E basis body confirmers r =
     (if basis = JStr ''evidence'' then (if m_mclass r \<noteq> CAUTION \<or> m_evidence r = [] then None else Some r)
      else if basis = JStr ''operator'' then
        (let res = verify_confirmation E (let cf = pget body ''confirmation'' in if truthy cf then cf else JObj [])
                     (m_id r) (m_author r) confirmers
         in if \<not> cr_ok res then None
            else Some (r\<lparr>m_basis := ''operator'', m_confirmed_by := (case cr_signer res of Some s \<Rightarrow> s | None \<Rightarrow> '''')\<rparr>))
      else None)"

definition admit :: "env \<Rightarrow> obj \<Rightarrow> string \<Rightarrow> trust option \<Rightarrow> memory_record option" where
  "admit E body author confirmers =
     (if pget body ''op'' \<noteq> JStr ''assert'' then None
      else case admit_fields body of
             Inl _ \<Rightarrow> None
           | Inr (basis, (mclass, scope, key, v), mid) \<Rightarrow>
               if mid \<noteq> JStr (candidate_id E mclass scope key v) then None
               else (case admit_evidence (dget body ''evidence'' (JList [])) of
                 None \<Rightarrow> None
               | Some evidence \<Rightarrow>
                   admit_basis E basis body confirmers
                     \<lparr>m_id = candidate_id E mclass scope key v, m_mclass = mclass, m_scope = scope, m_key = key, m_value = v,
                      m_basis = ''evidence'', m_evidence = evidence, m_confirmed_by = '''', m_author = author\<rparr>))"

definition same_slot :: "memory_record \<Rightarrow> memory_record \<Rightarrow> bool" where
  "same_slot r s \<longleftrightarrow> m_mclass r = m_mclass s \<and> m_scope r = m_scope s \<and> m_key r = m_key s"

definition memory_step :: "env \<Rightarrow> trust option \<Rightarrow> trust option \<Rightarrow> obj \<Rightarrow> memory_view \<Rightarrow> memory_view" where
  "memory_step E trust confirmers ev active =
     (let author = py_str E (dget ev ''author'' (JStr ''''))
      in if (case trust of Some c \<Rightarrow> \<not> c author | None \<Rightarrow> False) then active
         else case pget ev ''body'' of
           JObj body \<Rightarrow>
             if pget body ''op'' = JStr ''retract'' then dpop (py_str E (dget body ''memory_id'' (JStr ''''))) active
             else (case admit E body author confirmers of
               None \<Rightarrow> active
             | Some r \<Rightarrow>
                 dset (m_id r) r (if m_mclass r \<noteq> CAUTION then filter (\<lambda>(i, s). \<not> same_slot s r) active else active))
         | _ \<Rightarrow> active)"

fun order_keys :: "env \<Rightarrow> obj list \<Rightarrow> ((int \<times> string \<times> int) \<times> obj) list res" where
  "order_keys E [] = Inr []"
| "order_keys E (e # es) = rbind (memory_order E e) (\<lambda>k. rbind (order_keys E es) (\<lambda>ks. Inr ((k, e) # ks)))"

definition build_memory ::
  "env \<Rightarrow> json list \<Rightarrow> trust option \<Rightarrow> trust option \<Rightarrow> string option \<Rightarrow> memory_view res" where
  "build_memory E events trust confirmers scope =
     rbind (order_keys E (filter (\<lambda>e. pget e ''kind'' = JStr MEMORY_EVENT_KIND) (List.map_filter as_obj events))) (\<lambda>ks.
       let active = fold (memory_step E trust confirmers) (map snd (sort_key fst ks)) []
       in Inr (case scope of
                 None \<Rightarrow> active
               | Some sc \<Rightarrow> filter (\<lambda>(i, r). m_scope r = ''global'' \<or> m_scope r = sc) active))"

section \<open>One pass\<close>

record consolidation_report =
  cp_asserted :: "string list"
  cp_retracted :: "string list"
  cp_held :: "string list"
  cp_awaiting :: "string list"

type_synonym mem_clock = "nat \<Rightarrow> json"

fun upsert_all :: "candidate list \<Rightarrow> candidate_store \<Rightarrow> candidate_store \<times> unit res" where
  "upsert_all [] st = (st, Inr ())"
| "upsert_all (c # cs) st = (case upsert c st of (st', Inl e) \<Rightarrow> (st', Inl e) | (st', Inr _) \<Rightarrow> upsert_all cs st')"

fun consolidate_items ::
  "env \<Rightarrow> mem_clock \<Rightarrow> memory_view \<Rightarrow> (string, tally) dict \<Rightarrow> int \<Rightarrow> candidate list \<Rightarrow> journal \<Rightarrow> candidate_store \<Rightarrow>
     string list \<Rightarrow> string list \<Rightarrow> journal \<times> candidate_store \<times> (string list \<times> string list) res" where
  "consolidate_items E clock view tallies min_runs [] j st asserted hld = (j, st, Inr (asserted, hld))"
| "consolidate_items E clock view tallies min_runs (c # cs) j st asserted hld =
     (if c_id c \<in> set (dkeys view)
      then consolidate_items E clock view tallies min_runs cs j (fst (cs_remove (c_id c) st)) asserted hld
      else
        let d = review_candidate c (map_of tallies (c_key c)) min_runs
        in if pr_promote d
           then (case assert_memory E c (Some d) None None (clock (length (j_rows j))) j of
                   (j', Inl e) \<Rightarrow> (j', st, Inl e)
                 | (j', Inr _) \<Rightarrow>
                     consolidate_items E clock view tallies min_runs cs j' (fst (cs_remove (c_id c) st)) (asserted @ [c_id c]) hld)
           else consolidate_items E clock view tallies min_runs cs j st asserted (hld @ [c_id c]))"

fun retract_loop ::
  "env \<Rightarrow> mem_clock \<Rightarrow> (string, tally) dict \<Rightarrow> int \<Rightarrow> memory_record list \<Rightarrow> journal \<Rightarrow> string list \<Rightarrow> journal \<times> string list res" where
  "retract_loop E clock tallies min_runs [] j out = (j, Inr out)"
| "retract_loop E clock tallies min_runs (r # rs) j out =
     (case map_of tallies (m_key r) of
        Some t \<Rightarrow>
          if m_mclass r = CAUTION \<and> m_basis r = ''evidence'' \<and> min_runs \<le> int (length (t_success_runs t))
          then (case retract_memory E (m_id r) (''succeeded in '' @ int_str (int (length (t_success_runs t))) @ '' verified runs'')
                       (sort (t_success_runs t)) (clock (length (j_rows j))) j of
                  (j', Inl e) \<Rightarrow> (j', Inl e)
                | (j', Inr _) \<Rightarrow> retract_loop E clock tallies min_runs rs j' (out @ [m_id r]))
          else retract_loop E clock tallies min_runs rs j out
      | None \<Rightarrow> retract_loop E clock tallies min_runs rs j out)"

definition consolidate ::
  "env \<Rightarrow> mem_clock \<Rightarrow> episode list \<Rightarrow> int \<Rightarrow> string \<Rightarrow> trust option \<Rightarrow> trust option \<Rightarrow> pyfloat \<Rightarrow> journal \<Rightarrow> candidate_store \<Rightarrow>
     journal \<times> candidate_store \<times> consolidation_report res" where
  "consolidate E clock eps min_runs scope trust confirmers now j st =
     (let tallies = tally_of eps
      in case extract_cautions E eps scope now of
           Inl e \<Rightarrow> (j, st, Inl e)
         | Inr cautions \<Rightarrow>
             (case upsert_all cautions st of
                (st1, Inl e) \<Rightarrow> (j, st1, Inl e)
              | (st1, Inr _) \<Rightarrow>
                  (case rbind (journal_events (j_rows j)) (\<lambda>es. build_memory E (map JObj es) trust confirmers None) of
                     Inl e \<Rightarrow> (j, st1, Inl e)
                   | Inr view \<Rightarrow>
                       (case consolidate_items E clock view tallies min_runs (cs_items (Some CAUTION) None st1) j st1 [] [] of
                          (j2, st2, Inl e) \<Rightarrow> (j2, st2, Inl e)
                        | (j2, st2, Inr (asserted, hld)) \<Rightarrow>
                            (case retract_loop E clock tallies min_runs (map snd view) j2 [] of
                               (j3, Inl e) \<Rightarrow> (j3, st2, Inl e)
                             | (j3, Inr retracted) \<Rightarrow>
                                 (j3, st2, Inr \<lparr>cp_asserted = asserted, cp_retracted = retracted, cp_held = hld,
                                    cp_awaiting = map c_id (filter (\<lambda>c. c_mclass c \<noteq> CAUTION) (cs_items None None st2))\<rparr>))))))"

definition confirm_and_promote ::
  "env \<Rightarrow> string \<Rightarrow> json \<Rightarrow> trust option \<Rightarrow> json \<Rightarrow> journal \<Rightarrow> candidate_store \<Rightarrow> journal \<times> candidate_store \<times> obj res" where
  "confirm_and_promote E cid confirmation confirmers now j st =
     (case cs_find cid (cs_rows st) of
        None \<Rightarrow> (j, st, Inl (KeyError ''no candidate''))
      | Some c \<Rightarrow>
          (case assert_memory E c None (Some confirmation) confirmers now j of
             (j', Inl e) \<Rightarrow> (j', st, Inl e)
           | (j', Inr ev) \<Rightarrow> (j', fst (cs_remove cid st), Inr ev)))"

section \<open>What stands in a view\<close>

text \<open>A confirmation: signed by a confirmer, of this memory, for this node.\<close>

definition confirmed :: "env \<Rightarrow> trust option \<Rightarrow> string \<Rightarrow> string \<Rightarrow> bool" where
  "confirmed E confirmers memory_id author \<longleftrightarrow>
     (\<exists>c d did. confirmers = Some c \<and> verify_payload E (JObj d) (Some c) = (True, Some did) \<and> c did \<and>
        pget d ''type'' = JStr CONFIRMATION_TYPE \<and> pget d ''memory_id'' = JStr memory_id \<and> pget d ''subject'' = JStr author)"

lemma verify_confirmation_sound:
  assumes "cr_ok (verify_confirmation E v memory_id subject confirmers)"
  shows "confirmed E confirmers memory_id subject"
proof -
  from assms obtain d where d: "v = JObj d" "pget d ''type'' = JStr CONFIRMATION_TYPE"
    by (auto simp: verify_confirmation_def split: json.splits if_splits)
  with assms obtain c where c: "confirmers = Some c" by (cases confirmers) (simp_all add: verify_confirmation_def)
  obtain ok signer where s: "verify_payload E v confirmers = (ok, signer)" by (cases "verify_payload E v confirmers")
  with assms d c have ok: "ok" "pget d ''memory_id'' = JStr memory_id" "pget d ''subject'' = JStr subject"
    by (auto simp: verify_confirmation_def split: if_splits)
  from s ok(1) c d obtain did where did: "signer = Some did" "c did"
    using verify_payload_True [of E v "Some c" signer] by (auto simp: verify_payload_True_iff)
  have "verify_payload E (JObj d) (Some c) = (True, Some did)" using s c d(1) ok(1) did(1) by simp
  then show ?thesis
    unfolding confirmed_def using c d(2) ok(2,3) did(2)
    by (intro exI [of _ c] exI [of _ d] exI [of _ did]) simp
qed

lemma admit_basis_sound:
  assumes "admit_basis E basis body confirmers q = Some r" "m_basis q = ''evidence''"
  shows "m_author r = m_author q \<and> m_id r = m_id q \<and> m_mclass r = m_mclass q \<and> m_scope r = m_scope q \<and> m_key r = m_key q \<and> m_value r = m_value q"
    "m_basis r = ''evidence'' \<and> m_mclass r = CAUTION \<and> m_evidence r \<noteq> [] \<or>
     m_basis r = ''operator'' \<and> confirmed E confirmers (m_id q) (m_author q)"
  using assms by (auto simp: admit_basis_def Let_def dest: verify_confirmation_sound split: if_splits)

lemma admit_sound:
  assumes "admit E body author confirmers = Some r"
  shows "m_author r = author" "m_id r = candidate_id E (m_mclass r) (m_scope r) (m_key r) (m_value r)"
    "m_basis r = ''evidence'' \<and> m_mclass r = CAUTION \<and> m_evidence r \<noteq> [] \<or>
     m_basis r = ''operator'' \<and> confirmed E confirmers (m_id r) author"
proof -
  from assms obtain basis mclass scope key v evidence where
    "admit_basis E basis body confirmers
       \<lparr>m_id = candidate_id E mclass scope key v, m_mclass = mclass, m_scope = scope, m_key = key, m_value = v,
        m_basis = ''evidence'', m_evidence = evidence, m_confirmed_by = '''', m_author = author\<rparr> = Some r"
    by (auto simp: admit_def split: if_splits sum.splits option.splits)
  from admit_basis_sound [OF this]
  show "m_author r = author" "m_id r = candidate_id E (m_mclass r) (m_scope r) (m_key r) (m_value r)"
    "m_basis r = ''evidence'' \<and> m_mclass r = CAUTION \<and> m_evidence r \<noteq> [] \<or>
     m_basis r = ''operator'' \<and> confirmed E confirmers (m_id r) author"
    by simp_all
qed

definition admitted :: "env \<Rightarrow> trust option \<Rightarrow> trust option \<Rightarrow> string \<times> memory_record \<Rightarrow> bool" where
  "admitted E trust confirmers p \<longleftrightarrow>
     fst p = m_id (snd p) \<and> (\<forall>c. trust = Some c \<longrightarrow> c (m_author (snd p))) \<and>
     (\<exists>body. admit E body (m_author (snd p)) confirmers = Some (snd p))"

lemma memory_step_admitted:
  assumes "\<forall>p\<in>set active. admitted E trust confirmers p" "p \<in> set (memory_step E trust confirmers ev active)"
  shows "admitted E trust confirmers p"
proof -
  let ?author = "py_str E (dget ev ''author'' (JStr ''''))"
  show ?thesis
  proof (cases "p \<in> set active")
    case True
    with assms(1) show ?thesis by blast
  next
    case False
    have sub: "p \<in> set (dpop k active) \<Longrightarrow> p \<in> set active" for k
      by (induction active) (auto split: if_splits)
    from assms(2) False obtain body r where b: "pget ev ''body'' = JObj body" "admit E body ?author confirmers = Some r"
      "\<forall>c. trust = Some c \<longrightarrow> c ?author"
      "p \<in> set (dset (m_id r) r (if m_mclass r \<noteq> CAUTION then filter (\<lambda>(i, s). \<not> same_slot s r) active else active))"
      using sub by (auto simp: memory_step_def Let_def split: if_splits json.splits option.splits)
    from set_dset [OF b(4)] False have "p = (m_id r, r)" by (auto split: if_splits)
    with b admit_sound(1) [OF b(2)] show ?thesis by (auto simp: admitted_def)
  qed
qed

lemma build_memory_admitted:
  assumes "build_memory E events trust confirmers scope = Inr view" "p \<in> set view"
  shows "admitted E trust confirmers p"
proof -
  have step: "\<forall>p\<in>set (fold (memory_step E trust confirmers) evs active). admitted E trust confirmers p"
    if "\<forall>p\<in>set active. admitted E trust confirmers p" for evs active
    using that by (induction evs arbitrary: active) (auto dest: memory_step_admitted)
  from assms(1) have "\<exists>evs. set view \<subseteq> set (fold (memory_step E trust confirmers) evs [])"
    by (cases scope) (force simp: build_memory_def Let_def rbind_Inr_iff)+
  then obtain evs where "set view \<subseteq> set (fold (memory_step E trust confirmers) evs [])" by blast
  with step [of "[]" evs] assms(2) show ?thesis by auto
qed

section \<open>What a pass asserts\<close>

lemma review_promotes:
  assumes "pr_promote (review_candidate c tal min_runs)"
  shows "c_mclass c = CAUTION" "\<exists>t. tal = Some t \<and> max 1 min_runs \<le> int (length (t_failure_runs t)) \<and> t_success_runs t = []"
  using assms by (auto simp: review_candidate_def held_def Let_def split: sum.splits if_splits option.splits)

lemma map_of_tally:
  "map_of (tally_of eps) k = Some t \<Longrightarrow>
     t = \<lparr>t_failure_runs = runs_with [''failed'', ''no_change''] k eps, t_success_runs = runs_with [''ok''] k eps\<rparr>"
  by (auto simp: tally_of_def map_of_map_restrict restrict_map_def split: if_splits)

definition proven_caution :: "env \<Rightarrow> episode list \<Rightarrow> int \<Rightarrow> string \<Rightarrow> bool" where
  "proven_caution E eps min_runs cid \<longleftrightarrow>
     (\<exists>scope key v. cid = candidate_id E CAUTION scope key v \<and>
        max 1 min_runs \<le> int (length (runs_with [''failed'', ''no_change''] key eps)) \<and> runs_with [''ok''] key eps = [])"

lemma assert_memory_id:
  assumes "assert_memory E c decision confirmation confirmers now j = (j', Inr ev)"
  shows "c_id c = candidate_id E (c_mclass c) (c_scope c) (c_key c) (c_value c)"
proof -
  have "validate_candidate c = Inr m \<Longrightarrow> m = c_mclass c" for m
    by (cases "c_mclass c") (auto simp: validate_candidate_def validate_def memory_class_of_def rbind_Inr_iff split: if_splits)
  with assms show ?thesis by (auto simp: assert_memory_def split: sum.splits if_splits)
qed

lemma consolidate_items_sound:
  assumes "consolidate_items E clock view (tally_of eps) min_runs cs j st asserted hld = (j', st', Inr (asserted', hld'))"
    "\<forall>cid\<in>set asserted. proven_caution E eps min_runs cid"
  shows "\<forall>cid\<in>set asserted'. proven_caution E eps min_runs cid"
  using assms
proof (induction cs arbitrary: j st asserted hld)
  case Nil
  then show ?case by simp
next
  case (Cons c cs)
  let ?d = "review_candidate c (map_of (tally_of eps) (c_key c)) min_runs"
  consider "c_id c \<in> set (dkeys view)" | "c_id c \<notin> set (dkeys view)" "\<not> pr_promote ?d" | "c_id c \<notin> set (dkeys view)" "pr_promote ?d"
    by blast
  then show ?case
  proof cases
    case 1
    with Cons.prems show ?thesis by (intro Cons.IH) simp_all
  next
    case 2
    with Cons.prems(1) have "consolidate_items E clock view (tally_of eps) min_runs cs j st asserted (hld @ [c_id c]) = (j', st', Inr (asserted', hld'))"
      by simp
    then show ?thesis using Cons.prems(2) by (rule Cons.IH)
  next
    case 3
    with Cons.prems(1) obtain j1 ev where a: "assert_memory E c (Some ?d) None None (clock (length (j_rows j))) j = (j1, Inr ev)"
      and rest: "consolidate_items E clock view (tally_of eps) min_runs cs j1 (fst (cs_remove (c_id c) st)) (asserted @ [c_id c]) hld =
        (j', st', Inr (asserted', hld'))"
      by (auto simp: Let_def split: prod.splits sum.splits)
    from review_promotes [OF 3(2)] obtain t where t: "c_mclass c = CAUTION" "map_of (tally_of eps) (c_key c) = Some t"
      "max 1 min_runs \<le> int (length (t_failure_runs t))" "t_success_runs t = []" by auto
    have "proven_caution E eps min_runs (c_id c)"
      unfolding proven_caution_def using assert_memory_id [OF a] t map_of_tally [OF t(2)] by auto
    with Cons.prems(2) show ?thesis by (intro Cons.IH [OF rest]) auto
  qed
qed

section \<open>The bound of the quarantine\<close>

definition store_bounded :: "candidate_store \<Rightarrow> bool" where
  "store_bounded st \<longleftrightarrow> 1 \<le> cs_max st \<and> distinct (map c_id (cs_rows st)) \<and> int (length (cs_rows st)) \<le> cs_max st"

lemma filter_take_drop:
  "distinct (map f ys) \<Longrightarrow> filter (\<lambda>y. f y \<notin> set (take k (map f ys))) ys = drop k ys"
proof (induction ys arbitrary: k)
  case Nil
  then show ?case by simp
next
  case (Cons y ys)
  show ?case
  proof (cases k)
    case 0
    then show ?thesis by simp
  next
    case (Suc m)
    have "filter (\<lambda>x. f x \<noteq> f y \<and> f x \<notin> set (take m (map f ys))) ys = filter (\<lambda>x. f x \<notin> set (take m (map f ys))) ys"
      using Cons.prems by (intro filter_cong) (auto simp: image_iff)
    with Cons Suc show ?thesis by simp
  qed
qed

lemma length_make_room:
  assumes "distinct (map c_id rows)" "1 \<le> mx" "int (length rows) \<le> mx"
  shows "int (length (make_room mx rows)) < mx"
proof (cases "int (length rows) < mx")
  case True
  then show ?thesis by (simp add: make_room_def)
next
  case False
  let ?f = "\<lambda>c. (seen_key (c_last_seen c), c_id c)"
  let ?ys = "sort_key ?f rows"
  let ?k = "nat (int (length rows) - mx + 1)"
  let ?P = "\<lambda>c. c_id c \<notin> set (take ?k (map c_id ?ys))"
  have "mset (filter ?P rows) = mset (filter ?P ?ys)" by simp
  then have "length (filter ?P rows) = length (filter ?P ?ys)" by (rule mset_eq_length)
  also have "mset (map c_id ?ys) = mset (map c_id rows)" by simp
  then have "distinct (map c_id ?ys)" using assms(1) mset_eq_imp_distinct_iff by blast
  then have "filter ?P ?ys = drop ?k ?ys" by (rule filter_take_drop)
  finally have "length (filter ?P rows) = length rows - ?k" by simp
  with False assms(2,3) show ?thesis by (simp add: make_room_def Let_def)
qed

lemma distinct_make_room: "distinct (map c_id rows) \<Longrightarrow> distinct (map c_id (make_room mx rows))"
  by (simp add: make_room_def Let_def distinct_map_filter)

lemma upsert_bounded [inv_intros]:
  assumes "store_bounded st"
  shows "store_bounded (fst (upsert c st))"
proof (cases "validate_candidate c")
  case (Inl e)
  with assms show ?thesis by (simp add: upsert_def)
next
  case (Inr m)
  show ?thesis
  proof (cases "cs_find (c_id c) (cs_rows st)")
    case None
    let ?rows = "make_room (cs_max st) (cs_rows st)"
    have r: "distinct (map c_id ?rows)" "int (length ?rows) < cs_max st"
      using assms length_make_room distinct_make_room by (auto simp: store_bounded_def)
    have "length (filter (\<lambda>x. c_id x \<noteq> c_id c) ?rows) \<le> length ?rows" by (rule length_filter_le)
    then have "1 + int (length (filter (\<lambda>x. c_id x \<noteq> c_id c) ?rows)) \<le> cs_max st" using r(2) by linarith
    with r assms Inr None show ?thesis
      by (auto simp: upsert_def cs_insert_def store_bounded_def distinct_map_filter Let_def)
  next
    case (Some o')
    then have o': "o' \<in> set (cs_rows st)" "c_id o' = c_id c"
      by (auto simp: cs_find_def find_Some_iff)
    then have "length (filter (\<lambda>x. c_id x \<noteq> c_id c) (cs_rows st)) < length (cs_rows st)"
      by (intro length_filter_less [of o']) auto
    with assms Inr Some o' show ?thesis
      by (auto simp: upsert_def cs_insert_def store_bounded_def distinct_map_filter Let_def)
  qed
qed

section \<open>Properties\<close>


text \<open>C22 The quarantine is no evidence: whatever candidates it holds, a consolidation pass asserts only cautions
  about actions that failed or had no effect in at least \<^verbatim>\<open>min_runs\<close> (and at least one) finished, verified runs
  and succeeded in none.\<close>

theorem consolidate_asserts_on_evidence:
  assumes "consolidate E clock eps min_runs scope trust confirmers now j st = (j', st', Inr report)"
    "cid \<in> set (cp_asserted report)"
  shows "proven_caution E eps min_runs cid"
proof -
  from assms obtain view cs st1 j2 st2 asserted hld where
    "consolidate_items E clock view (tally_of eps) min_runs cs j st1 [] [] = (j2, st2, Inr (asserted, hld))"
    "cp_asserted report = asserted"
    by (auto simp: consolidate_def Let_def split: sum.splits prod.splits)
  with consolidate_items_sound [of E clock view eps min_runs cs j st1 "[]" "[]"] assms(2) show ?thesis by auto
qed



definition ref_note :: obj where
  "ref_note = [(''op'', JStr ''assert''), (''memory_id'', JStr (candidate_id ref_env FACT ''global'' ''lang'' ''en'')),
     (''mclass'', JStr ''fact''), (''scope'', JStr ''global''), (''key'', JStr ''lang''), (''value'', JStr ''en''),
     (''basis'', JStr ''operator''), (''evidence'', JList [])]"

lemma ref_validate:
  "validate (JStr ''fact'') (JStr ''global'') (JStr ''lang'') (JStr ''en'') ''operator'' = Inr (FACT, ''global'', ''lang'', ''en'')"
  "validate (JStr ''caution'') (JStr ''global'') (JStr ''click'') (JStr ''action click failed or had no effect in earlier runs'')
     ''consolidation'' = Inr (CAUTION, ''global'', ''click'', ''action click failed or had no effect in earlier runs'')"
  by code_simp+


definition ref_episode :: episode where
  "ref_episode = \<lparr>ep_run_id = ''r1'', ep_goal_id = ''g'', ep_state = ''failed'', ep_code = Some 1,
     ep_steps = [\<lparr>sr_run_id = ''r1'', sr_seq = 1, sr_action_key = ''click'', sr_verdict = ''allow'', sr_findings = [],
       sr_outcome = ''failed'', sr_result = ''''\<rparr>], ep_verified = True, ep_problem = None\<rparr>"

definition ref_caution :: candidate where
  "ref_caution = \<lparr>c_id = candidate_id ref_env CAUTION ''global'' ''click'' (caution_value ''click''), c_mclass = CAUTION,
     c_scope = ''global'', c_key = ''click'', c_value = caution_value ''click'', c_source = ''consolidation'',
     c_evidence = [''r1''], c_contradictions = [], c_first_seen = Fin 1, c_last_seen = Fin 1\<rparr>"

lemma ref_caution_value: "caution_value ''click'' = ''action click failed or had no effect in earlier runs''"
  by code_simp

lemma ref_tally: "tally_of [ref_episode] = [(''click'', \<lparr>t_failure_runs = [''r1''], t_success_runs = []\<rparr>)]"
  by (simp add: tally_of_def tally_keys_def runs_with_def ref_episode_def usable_def finished_def TERMINAL_STATES_def sorted_set_def)

theorem consolidate_asserts_on_evidence_witness:
  "\<exists>j' st' report. consolidate ref_env (\<lambda>n. JFloat (Fin 5)) [ref_episode] 1 ''global'' None None (Fin 1) ref_node
     \<lparr>cs_ttl = Fin 9, cs_max = 5, cs_rows = []\<rparr> = (j', st', Inr report) \<and>
     cp_asserted report = [c_id ref_caution] \<and> proven_caution ref_env [ref_episode] 1 (c_id ref_caution)"
proof -
  let ?st = "\<lparr>cs_ttl = Fin 9, cs_max = 5, cs_rows = []\<rparr>"
  have val: "validate_candidate ref_caution = Inr CAUTION"
    by (simp add: validate_candidate_def ref_caution_def ref_caution_value ref_validate)
  have ex: "extract_cautions ref_env [ref_episode] ''global'' (Fin 1) = Inr [ref_caution]"
    by (simp add: extract_cautions_def ref_tally make_candidate_def ref_caution_value ref_validate)
      (simp add: ref_caution_def ref_caution_value sorted_set_def)
  have up: "upsert_all [ref_caution] ?st = (?st\<lparr>cs_rows := [ref_caution]\<rparr>, Inr ())"
    using val by (simp add: upsert_def cs_find_def make_room_def cs_insert_def) (simp add: ref_caution_def)
  have view: "rbind (journal_events (j_rows ref_node)) (\<lambda>es. build_memory ref_env (map JObj es) None None None) = Inr []"
    by (simp add: ref_node_def journal_events_def build_memory_def List.map_filter_def)
  have items: "cs_items (Some CAUTION) None (?st\<lparr>cs_rows := [ref_caution]\<rparr>) = [ref_caution]"
    by (simp add: cs_items_def ref_caution_def)
  define d where "d = review_candidate ref_caution (map_of (tally_of [ref_episode]) (c_key ref_caution)) 1"
  have d: "pr_promote d" "pr_basis d = ''evidence''"
    using val by (simp_all add: d_def review_candidate_def ref_tally) (simp_all add: ref_caution_def)
  obtain j' ev where j': "journal_append ref_env MEMORY_EVENT_KIND
      (JObj (assert_body CAUTION ref_caution ''evidence'' (pr_evidence d) None)) (JFloat (Fin 5)) ref_node = (j', Inr ev)"
    using journal_append_ok [OF ref_env_crypto length_ref_seed, where j = ref_node and n = 0]
    by (simp add: ref_node_def journal_inv_def int64_def) blast
  have a: "assert_memory ref_env ref_caution (Some d) None None (JFloat (Fin 5)) ref_node = (j', Inr ev)"
    using val d j' by (simp add: assert_memory_def promotion_basis_def) (simp add: ref_caution_def)
  let ?rep = "\<lparr>cp_asserted = [c_id ref_caution], cp_retracted = [], cp_held = [], cp_awaiting = []\<rparr>"
  have "consolidate ref_env (\<lambda>n. JFloat (Fin 5)) [ref_episode] 1 ''global'' None None (Fin 1) ref_node ?st =
      (j', ?st, Inr ?rep)"
    unfolding consolidate_def ex up view items Let_def sum.case prod.case
    using a d by (simp add: d_def dkeys_def items cs_remove_def) (simp add: cs_items_def)
  with consolidate_asserts_on_evidence [OF this, of "c_id ref_caution"] show ?thesis by auto
qed

text \<open>
  A finished, verified run of any trusted author whose failing step carries an action key that \<^verbatim>\<open>validate\<close>
  refuses, such as one of more than 200 characters, makes \<^verbatim>\<open>extract_cautions\<close> raise: no caution of any run
  is consolidated as long as that run is in the journal.
\<close>

theorem bad_action_key_blocks_consolidation:
  assumes "ep \<in> set eps" "usable ep" "s \<in> set (ep_steps ep)" "sr_outcome s = ''failed''" "200 < str_len (sr_action_key s)"
  shows "\<exists>e. consolidate E clock eps min_runs scope trust confirmers now j st = (j, st, Inl e)"
proof -
  let ?k = "sr_action_key s"
  have ne: "?k \<noteq> []" using assms(5) by (auto simp: str_len_def)
  have key: "?k \<in> set (tally_keys eps)" using assms ne by (force simp: tally_keys_def)
  have fails: "runs_with [''failed'', ''no_change''] ?k eps \<noteq> []"
    using assms by (auto simp: runs_with_def filter_empty_conv list_ex_iff)
  have bad: "\<exists>e. make_candidate E CAUTION scope ?k v ''consolidation'' ev cn t = Inl e" for v ev cn t
    using assms(5) by (simp add: make_candidate_def validate_def memory_class_of_def bounded_text_def)
  define f where "f = (\<lambda>(key, tal :: tally) out. if t_failure_runs tal = [] then Inr out
       else rbind (make_candidate E CAUTION scope key (caution_value key) ''consolidation'' (t_failure_runs tal) (t_success_runs tal) now)
              (\<lambda>c. Inr (out @ [c])))"
  have raise: "\<exists>e. rfold f ts out = Inl e" if "(?k, t) \<in> set ts" "t_failure_runs t \<noteq> []" for ts t out
    using that(1)
  proof (induction ts arbitrary: out)
    case Nil
    then show ?case by simp
  next
    case (Cons p ts)
    show ?case
    proof (cases "p = (?k, t)")
      case True
      then show ?thesis using bad [of "caution_value ?k" "t_failure_runs t" "t_success_runs t" now] that(2) by (auto simp: f_def)
    next
      case False
      with Cons show ?thesis by (cases "f p out") auto
    qed
  qed
  have member: "(?k, \<lparr>t_failure_runs = runs_with [''failed'', ''no_change''] ?k eps, t_success_runs = runs_with [''ok''] ?k eps\<rparr>) \<in> set (tally_of eps)"
    using key by (simp add: tally_of_def)
  have ext: "extract_cautions E eps scope now = rfold f (tally_of eps) []"
    by (simp add: extract_cautions_def f_def)
  obtain e where "rfold f (tally_of eps) [] = Inl e"
    using raise [OF member, of "[]"] fails by auto
  with ext show ?thesis by (simp add: consolidate_def)
qed

end
