(* ===== verification/Membership.thy ===== *)
theory Membership
  imports Statements Gossip "HOL-Library.Product_Lexorder"
begin

text \<open>
  \<^verbatim>\<open>transport/endpoint.py\<close> and \<^verbatim>\<open>transport/membership.py\<close>: endpoint candidates, self-signed
  membership records, and the view of the mesh that gossip keeps convergent.

  An \<^verbatim>\<open>EndpointSet\<close> is its dictionary by (host, port), a \<^verbatim>\<open>MembershipView\<close> its trust object and its
  dictionary of records. \<^verbatim>\<open>providers\<close> sorts by freshness; with a NaN among the times the order Python
  leaves is unspecified, and the model puts NaN last.
\<close>

section \<open>Endpoints\<close>

record endpoint =
  ep_kind :: string
  ep_host :: string
  ep_port :: int

definition kind_priority :: "(string, nat) dict" where
  "kind_priority = [(''public'', 0), (''observed'', 1), (''local'', 2), (''candidate'', 3)]"

definition KINDS :: "string set" where
  "KINDS = set (dkeys kind_priority)"

definition make_endpoint :: "string \<Rightarrow> string \<Rightarrow> int \<Rightarrow> endpoint res" where
  "make_endpoint kind host port =
     (if kind \<notin> KINDS then Inl (ValueError ''unknown endpoint kind'')
      else if \<not> (0 < port \<and> port < 65536) then Inl (ValueError ''port out of range'')
      else Inr \<lparr>ep_kind = kind, ep_host = host, ep_port = port\<rparr>)"

definition ep_key :: "endpoint \<Rightarrow> string \<times> int" where
  "ep_key e = (ep_host e, ep_port e)"

definition priority :: "endpoint \<Rightarrow> nat" where
  "priority e = dget kind_priority (ep_kind e) 4"

type_synonym endpoint_set = "(string \<times> int, endpoint) dict"

definition es_add :: "endpoint \<Rightarrow> endpoint_set \<Rightarrow> endpoint_set" where
  "es_add e es =
     (case map_of es (ep_key e) of
        None \<Rightarrow> dset (ep_key e) e es
      | Some existing \<Rightarrow> if priority e < priority existing then dset (ep_key e) e es else es)"

definition endpoint_set_of :: "endpoint list \<Rightarrow> endpoint_set" where
  "endpoint_set_of endpoints = fold es_add endpoints []"

definition es_observe :: "string \<Rightarrow> int \<Rightarrow> endpoint_set \<Rightarrow> (endpoint_set \<times> endpoint) res" where
  "es_observe host port es = rbind (make_endpoint ''observed'' host port) (\<lambda>e. Inr (es_add e es, e))"

definition es_all :: "endpoint_set \<Rightarrow> endpoint list" where
  "es_all es = sort_key (\<lambda>e. (priority e, ep_host e, ep_port e)) (map snd es)"

definition es_best :: "endpoint_set \<Rightarrow> endpoint option" where
  "es_best es = (case es_all es of [] \<Rightarrow> None | e # _ \<Rightarrow> Some e)"

section \<open>Records\<close>

definition RECORD_TYPE :: string where
  "RECORD_TYPE = ''secdogie/membership/record/v1''"

definition ROLES :: "string list" where
  "ROLES = [''relay'', ''rendezvous'']"

definition MAX_ADVERTISED_RELAYS :: nat where
  "MAX_ADVERTISED_RELAYS = 4"

definition endpoint_json :: "endpoint \<Rightarrow> json" where
  "endpoint_json e = JObj [(''kind'', JStr (ep_kind e)), (''host'', JStr (ep_host e)), (''port'', JInt (ep_port e))]"

definition check_relays :: "did \<Rightarrow> string list \<Rightarrow> unit res" where
  "check_relays me relays =
     rfold (\<lambda>relay _. rbind (pubkey_from_did relay) (\<lambda>_.
        if relay = me then Inl (ValueError ''a node cannot advertise itself as its own relay'') else Inr ())) relays ()"

definition record_payload :: "did \<Rightarrow> endpoint_set \<Rightarrow> pyfloat \<Rightarrow> string list \<Rightarrow> string list \<Rightarrow> obj" where
  "record_payload did es last_seen roles relays =
     [(''type'', JStr RECORD_TYPE), (''did'', JStr did), (''endpoints'', JList (map endpoint_json (es_all es))),
      (''last_seen'', JFloat last_seen)] @
     (if roles = [] then [] else [(''roles'', JList (map JStr (sorted_set roles)))]) @
     (if relays = [] then [] else [(''relays'', JList (map JStr relays))])"

definition sign_record ::
  "env \<Rightarrow> identity \<Rightarrow> endpoint_set \<Rightarrow> pyfloat \<Rightarrow> string list \<Rightarrow> string list \<Rightarrow> obj res" where
  "sign_record E seed es last_seen roles relays =
     rbind (identity_did E seed) (\<lambda>did.
       if \<not> set roles \<subseteq> set ROLES then Inl (ValueError ''unknown role(s)'')
       else let rs = from_keys relays
            in if MAX_ADVERTISED_RELAYS < length rs then Inl (ValueError ''at most 4 relays can be advertised'')
               else rbind (check_relays did rs) (\<lambda>_.
                 sign_payload E seed (record_payload did es last_seen roles rs)))"

record peer_record =
  pr_did :: did
  pr_last_seen :: pyfloat
  pr_endpoints :: endpoint_set
  pr_signed :: obj
  pr_roles :: "string list"
  pr_relays :: "string list"

text \<open>\<^verbatim>\<open>try: m except (KeyError, TypeError, ValueError): return x\<close>: any other exception propagates.\<close>

fun is_caught :: "py_error \<Rightarrow> bool" where
  "is_caught (KeyError _) = True"
| "is_caught (TypeError _) = True"
| "is_caught (ValueError _) = True"
| "is_caught _ = False"

definition or_caught :: "'a res \<Rightarrow> 'r \<Rightarrow> 'r exit + 'a" where
  "or_caught m x = (case m of Inl e \<Rightarrow> Inl (if is_caught e then Return x else Raise e) | Inr a \<Rightarrow> Inr a)"

lemma or_caught_simps [simp]: "or_caught (Inr a) x = Inr a" "or_caught m x = Inr b \<longleftrightarrow> m = Inr b"
  by (auto simp: or_caught_def split: sum.splits)

definition oget :: "obj \<Rightarrow> string \<Rightarrow> json res" where
  "oget d k = (case map_of d k of None \<Rightarrow> Inl (KeyError k) | Some v \<Rightarrow> Inr v)"

definition endpoint_of_item :: "env \<Rightarrow> obj \<Rightarrow> endpoint res" where
  "endpoint_of_item E d =
     rbind (oget d ''kind'') (\<lambda>kind. rbind (oget d ''host'') (\<lambda>host.
     rbind (oget d ''port'') (\<lambda>p. rbind (to_int p) (\<lambda>port.
       make_endpoint (py_str E kind) (py_str E host) port))))"

definition add_item :: "env \<Rightarrow> json \<Rightarrow> endpoint_set \<Rightarrow> endpoint_set res" where
  "add_item E v es =
     (case v of
        JObj d \<Rightarrow> (case endpoint_of_item E d of
                     Inr e \<Rightarrow> Inr (es_add e es)
                   | Inl e \<Rightarrow> if is_caught e then Inr es else Inl e)
      | _ \<Rightarrow> Inr es)"

text \<open>What \<^verbatim>\<open>for item in obj.get("endpoints") or []\<close> iterates over.\<close>

definition items_of :: "json \<Rightarrow> json list res" where
  "items_of v =
     (if \<not> truthy v then Inr []
      else case v of
        JList vs \<Rightarrow> Inr vs
      | JStr s \<Rightarrow> Inr (map JStr (utf8_chars s))
      | JObj d \<Rightarrow> Inr (map (\<lambda>(k, _). JStr k) d)
      | _ \<Rightarrow> Inl (TypeError ''object is not iterable''))"

definition strings :: "json \<Rightarrow> string list" where
  "strings v = (case v of JList vs \<Rightarrow> concat (map (\<lambda>w. case w of JStr s \<Rightarrow> [s] | _ \<Rightarrow> []) vs) | _ \<Rightarrow> [])"

definition verify_record ::
  "env \<Rightarrow> json \<Rightarrow> trust option \<Rightarrow> pyfloat option \<Rightarrow> pyfloat \<Rightarrow> peer_record option res" where
  "verify_record E v allowlist now max_future_skew = finish (\<lambda>_::unit. None) (
     rbind (some_or (as_obj v) ()) (\<lambda>d.
     rbind (need (pget d ''type'' = JStr RECORD_TYPE) ()) (\<lambda>_.
     let (ok, signer) = verify_payload E v allowlist in
     rbind (need (ok \<and> pget d ''did'' = JStr (the signer)) ()) (\<lambda>_.
     rbind (or_caught (rbind (oget d ''last_seen'') (to_float E)) ()) (\<lambda>last_seen.
     rbind (need (case now of None \<Rightarrow> True | Some t \<Rightarrow> \<not> flt (fadd t max_future_skew) last_seen) ()) (\<lambda>_.
     rbind (raises (items_of (pget d ''endpoints''))) (\<lambda>items.
     rbind (raises (rfold (add_item E) items [])) (\<lambda>es.
       Inr (Some \<lparr>pr_did = the signer, pr_last_seen = last_seen, pr_endpoints = es, pr_signed = d,
         pr_roles = sorted_set (filter (\<lambda>r. r \<in> set ROLES) (strings (pget d ''roles''))),
         pr_relays = take MAX_ADVERTISED_RELAYS (from_keys (filter (\<lambda>r. r \<noteq> the signer) (strings (pget d ''relays''))))\<rparr>)
     ))))))))"

section \<open>The view\<close>

record membership_view =
  mv_allowlist :: trust
  mv_records :: "(did, peer_record) dict"

definition membership_view_init :: "trust option \<Rightarrow> membership_view res" where
  "membership_view_init allowlist =
     rbind (require_trust allowlist ''MembershipView'') (\<lambda>c. Inr \<lparr>mv_allowlist = c, mv_records = []\<rparr>)"

abbreviation default_skew :: pyfloat where
  "default_skew \<equiv> Fin 300"

definition merge_record :: "env \<Rightarrow> pyfloat option \<Rightarrow> json \<Rightarrow> membership_view \<Rightarrow> membership_view \<times> bool res" where
  "merge_record E now v view =
     (case verify_record E v (Some (mv_allowlist view)) now default_skew of
        Inl e \<Rightarrow> (view, Inl e)
      | Inr None \<Rightarrow> (view, Inr False)
      | Inr (Some rec) \<Rightarrow>
          if (case map_of (mv_records view) (pr_did rec) of
                None \<Rightarrow> False | Some cur \<Rightarrow> fle (pr_last_seen rec) (pr_last_seen cur))
          then (view, Inr False)
          else (view\<lparr>mv_records := dset (pr_did rec) rec (mv_records view)\<rparr>, Inr True))"

definition mv_get :: "membership_view \<Rightarrow> did \<Rightarrow> peer_record option" where
  "mv_get view did = map_of (mv_records view) did"

definition endpoints_for :: "membership_view \<Rightarrow> did \<Rightarrow> endpoint_set option" where
  "endpoints_for view did = map_option pr_endpoints (mv_get view did)"

definition mv_known :: "membership_view \<Rightarrow> did list" where
  "mv_known view = sort (dkeys (mv_records view))"

fun fresh_key :: "pyfloat \<Rightarrow> nat \<times> rat" where
  "fresh_key PInf = (0, 0)"
| "fresh_key (Fin q) = (1, - q)"
| "fresh_key NInf = (2, 0)"
| "fresh_key NaN = (3, 0)"

definition providers :: "string \<Rightarrow> membership_view \<Rightarrow> did list" where
  "providers role view =
     map pr_did (sort_key (\<lambda>r. (fresh_key (pr_last_seen r), pr_did r))
       (filter (\<lambda>r. role \<in> set (pr_roles r)) (map snd (mv_records view))))"

definition mv_digest :: "membership_view \<Rightarrow> obj" where
  "mv_digest view = map (\<lambda>(did, rec). (did, JFloat (pr_last_seen rec))) (mv_records view)"

definition records_for_step :: "env \<Rightarrow> obj \<Rightarrow> did \<times> peer_record \<Rightarrow> obj list \<Rightarrow> obj list res" where
  "records_for_step E remote_digest p out =
     (case pget remote_digest (fst p) of
        JNull \<Rightarrow> Inr (out @ [pr_signed (snd p)])
      | theirs \<Rightarrow> rbind (to_float E theirs) (\<lambda>f.
          if flt f (pr_last_seen (snd p)) then Inr (out @ [pr_signed (snd p)]) else Inr out))"

definition records_for :: "env \<Rightarrow> obj \<Rightarrow> membership_view \<Rightarrow> obj list res" where
  "records_for E remote_digest view = rfold (records_for_step E remote_digest) (mv_records view) []"

fun apply_records :: "env \<Rightarrow> pyfloat option \<Rightarrow> json list \<Rightarrow> nat \<Rightarrow> membership_view \<Rightarrow> membership_view \<times> nat res" where
  "apply_records E now [] n view = (view, Inr n)"
| "apply_records E now (r # rs) n view =
     (case merge_record E now r view of
        (view', Inl e) \<Rightarrow> (view', Inl e)
      | (view', Inr b) \<Rightarrow> apply_records E now rs (if b then Suc n else n) view')"

definition announce ::
  "env \<Rightarrow> identity \<Rightarrow> endpoint_set \<Rightarrow> pyfloat \<Rightarrow> pyfloat option \<Rightarrow> string list \<Rightarrow> string list \<Rightarrow> membership_view \<Rightarrow>
   membership_view \<times> obj res" where
  "announce E seed es last_seen now roles relays view =
     (case sign_record E seed es last_seen roles relays of
        Inl e \<Rightarrow> (view, Inl e)
      | Inr signed \<Rightarrow>
          (case merge_record E now (JObj signed) view of
             (view', Inl e) \<Rightarrow> (view', Inl e)
           | (view', Inr _) \<Rightarrow> (view', Inr signed)))"

definition gossip_round ::
  "env \<Rightarrow> pyfloat option \<Rightarrow> membership_view \<Rightarrow> membership_view \<Rightarrow>
   (membership_view \<times> membership_view) \<times> (nat \<times> nat) res" where
  "gossip_round E now a b =
     (let da = mv_digest a; db = mv_digest b in
      case rbind (records_for E da b) (\<lambda>to_a. rbind (records_for E db a) (\<lambda>to_b. Inr (to_a, to_b))) of
        Inl e \<Rightarrow> ((a, b), Inl e)
      | Inr (to_a, to_b) \<Rightarrow>
          (case apply_records E now (map JObj to_a) 0 a of
             (a', Inl e) \<Rightarrow> ((a', b), Inl e)
           | (a', Inr m) \<Rightarrow>
               (case apply_records E now (map JObj to_b) 0 b of
                  (b', Inl e) \<Rightarrow> ((a', b'), Inl e)
                | (b', Inr n) \<Rightarrow> ((a', b'), Inr (m, n)))))"

section \<open>What a record is\<close>

definition valid_endpoint :: "endpoint \<Rightarrow> bool" where
  "valid_endpoint e \<longleftrightarrow> ep_kind e \<in> KINDS \<and> 0 < ep_port e \<and> ep_port e < 65536"

definition es_inv :: "endpoint_set \<Rightarrow> bool" where
  "es_inv es \<longleftrightarrow> distinct (map fst es) \<and> (\<forall>(k, e)\<in>set es. k = ep_key e \<and> valid_endpoint e)"

lemma make_endpoint_valid: "make_endpoint k h p = Inr e \<Longrightarrow> valid_endpoint e"
  by (auto simp: make_endpoint_def valid_endpoint_def split: if_splits)

lemma es_inv_Nil [simp]: "es_inv []"
  by (simp add: es_inv_def)

lemma es_add_inv [inv_intros]:
  assumes "es_inv es" "valid_endpoint e"
  shows "es_inv (es_add e es)"
proof -
  have "es_inv (dset (ep_key e) e es)"
    using assms by (auto simp: es_inv_def dest!: set_dset)
  with assms(1) show ?thesis by (auto simp: es_add_def split: option.splits)
qed

lemma add_item_inv [inv_intros]:
  assumes "add_item E v es = Inr es'" "es_inv es"
  shows "es_inv es'"
proof (cases v)
  case (JObj d)
  with assms show ?thesis
    by (auto simp: add_item_def endpoint_of_item_def rbind_Inr_iff
        intro: es_add_inv make_endpoint_valid split: sum.splits if_splits)
qed (use assms in \<open>simp_all add: add_item_def\<close>)

lemma verify_record_SomeD:
  assumes "verify_record E v allowlist now skew = Inr (Some r)"
  shows "v = JObj (pr_signed r)" "verify_payload E v allowlist = (True, Some (pr_did r))"
    "map_of (pr_signed r) ''type'' = Some (JStr RECORD_TYPE)" "map_of (pr_signed r) ''did'' = Some (JStr (pr_did r))"
    "es_inv (pr_endpoints r)" "set (pr_roles r) \<subseteq> set ROLES" "length (pr_relays r) \<le> MAX_ADVERTISED_RELAYS"
    "pr_did r \<notin> set (pr_relays r)" "distinct (pr_relays r)"
proof -
  obtain ok signer where vp: "verify_payload E v allowlist = (ok, signer)"
    by (cases "verify_payload E v allowlist")
  note chain = finish_okD [OF assms [unfolded verify_record_def], of "\<lambda>r. r \<noteq> None"]
  from chain vp obtain d items es where d: "v = JObj d" "pget d ''type'' = JStr RECORD_TYPE" ok
    "pget d ''did'' = JStr (the signer)" "rfold (add_item E) items [] = Inr es"
    and r: "pr_did r = the signer" "pr_endpoints r = es" "pr_signed r = d"
      "pr_roles r = sorted_set (filter (\<lambda>r. r \<in> set ROLES) (strings (pget d ''roles'')))"
      "pr_relays r = take MAX_ADVERTISED_RELAYS (from_keys (filter (\<lambda>r. r \<noteq> the signer) (strings (pget d ''relays''))))"
    by (auto simp: chain_iffs)
  from vp \<open>ok\<close> obtain did where did: "signer = Some did" by (auto elim: verify_payload_True)
  from d r vp did show "v = JObj (pr_signed r)" "verify_payload E v allowlist = (True, Some (pr_did r))"
    "map_of (pr_signed r) ''type'' = Some (JStr RECORD_TYPE)" "map_of (pr_signed r) ''did'' = Some (JStr (pr_did r))"
    by (simp_all add: pget_eq_JStr)
  show "es_inv (pr_endpoints r)"
    unfolding r(2) using d(5) by (rule rfold_invariant) (auto intro: add_item_inv)
  show "set (pr_roles r) \<subseteq> set ROLES" by (auto simp: r(4))
  show "length (pr_relays r) \<le> MAX_ADVERTISED_RELAYS" "distinct (pr_relays r)" by (simp_all add: r(5))
  show "pr_did r \<notin> set (pr_relays r)" unfolding r(1,5) by (auto dest: in_set_takeD)
qed

text \<open>The record a message carries for a view that trusts \<open>c\<close>, if it carries one.\<close>

definition record_of :: "env \<Rightarrow> trust \<Rightarrow> pyfloat option \<Rightarrow> json \<Rightarrow> peer_record option" where
  "record_of E c now v =
     (case verify_record E v (Some c) now default_skew of Inr (Some r) \<Rightarrow> Some r | _ \<Rightarrow> None)"

lemma record_of_iff: "record_of E c now v = Some r \<longleftrightarrow> verify_record E v (Some c) now default_skew = Inr (Some r)"
  by (auto simp: record_of_def split: sum.splits option.splits)

lemma merge_record_None:
  "record_of E (mv_allowlist view) now v = None \<Longrightarrow> fst (merge_record E now v view) = view"
  by (auto simp: record_of_def merge_record_def split: sum.splits option.splits)

lemma merge_record_Some:
  assumes "record_of E (mv_allowlist view) now v = Some r"
  shows "merge_record E now v view =
    (if (case map_of (mv_records view) (pr_did r) of None \<Rightarrow> False | Some cur \<Rightarrow> fle (pr_last_seen r) (pr_last_seen cur))
     then (view, Inr False) else (view\<lparr>mv_records := dset (pr_did r) r (mv_records view)\<rparr>, Inr True))"
  using assms by (simp add: record_of_iff merge_record_def)

lemma merge_record_allowlist [simp]: "mv_allowlist (fst (merge_record E now v view)) = mv_allowlist view"
  by (auto simp: merge_record_def split: sum.split option.split)

section \<open>A view is a last-writer-wins table\<close>

definition empty_view :: "trust \<Rightarrow> membership_view" where
  "empty_view c = \<lparr>mv_allowlist = c, mv_records = []\<rparr>"

definition view_inv :: "trust \<Rightarrow> membership_view \<Rightarrow> bool" where
  "view_inv c view \<longleftrightarrow> mv_allowlist view = c \<and> (\<forall>did r. mv_get view did = Some r \<longrightarrow> pr_last_seen r \<noteq> NaN)"

text \<open>Honest traffic: no time is NaN, and one node never signs two records for the same time.\<close>

definition honest :: "env \<Rightarrow> trust \<Rightarrow> pyfloat option \<Rightarrow> json set \<Rightarrow> bool" where
  "honest E c now M \<longleftrightarrow>
     (\<forall>m\<in>M. \<forall>r. record_of E c now m = Some r \<longrightarrow> pr_last_seen r \<noteq> NaN) \<and>
     (\<forall>m\<in>M. \<forall>n\<in>M. \<forall>r s. record_of E c now m = Some r \<longrightarrow> record_of E c now n = Some s \<longrightarrow>
        pr_did r = pr_did s \<longrightarrow> pr_last_seen r = pr_last_seen s \<longrightarrow> r = s)"

definition ok_message :: "env \<Rightarrow> trust \<Rightarrow> pyfloat option \<Rightarrow> json set \<Rightarrow> json \<Rightarrow> bool" where
  "ok_message E c now M m \<longleftrightarrow> honest E c now M \<and> m \<in> M \<and> record_of E c now m \<noteq> None"

lemma flt_total: "a \<noteq> NaN \<Longrightarrow> b \<noteq> NaN \<Longrightarrow> flt a b \<or> flt b a \<or> a = b"
  by (cases a; cases b) auto

interpretation members: lww_table "\<lambda>m view. fst (merge_record E now m view)" "view_inv c" "ok_message E c now M"
  mv_get "\<lambda>m. pr_did (the (record_of E c now m))" "\<lambda>m. the (record_of E c now m)"
  "\<lambda>r s. flt (pr_last_seen s) (pr_last_seen r)" for E c now M
proof unfold_locales
  fix view m
  assume inv: "view_inv c view" and ok: "ok_message E c now M m"
  from ok obtain r where r: "record_of E c now m = Some r" "pr_last_seen r \<noteq> NaN"
    by (auto simp: ok_message_def honest_def)
  from inv have c: "mv_allowlist view = c" by (simp add: view_inv_def)
  note m = merge_record_Some [of E view now m r, unfolded c, OF r(1)]
  show "view_inv c (fst (merge_record E now m view))"
    using inv r by (auto simp: m view_inv_def mv_get_def split: if_splits option.splits)
  have old: "fle (pr_last_seen r) (pr_last_seen s) \<longleftrightarrow> \<not> flt (pr_last_seen s) (pr_last_seen r)"
    if "map_of (mv_records view) (pr_did r) = Some s" for s
    using that inv r(2) by (simp add: view_inv_def mv_get_def not_flt_fle)
  show "mv_get (fst (merge_record E now m view)) k =
      (if k = pr_did (the (record_of E c now m)) \<and>
          (case mv_get view k of None \<Rightarrow> True | Some v \<Rightarrow> flt (pr_last_seen v) (pr_last_seen (the (record_of E c now m))))
       then Some (the (record_of E c now m)) else mv_get view k)" for k
    by (auto simp: m r(1) mv_get_def old split: option.split)
next
  fix m n
  assume "ok_message E c now M m" "ok_message E c now M n"
    "pr_did (the (record_of E c now m)) = pr_did (the (record_of E c now n))"
  then show "flt (pr_last_seen (the (record_of E c now n))) (pr_last_seen (the (record_of E c now m))) \<or>
      flt (pr_last_seen (the (record_of E c now m))) (pr_last_seen (the (record_of E c now n))) \<or>
      the (record_of E c now m) = the (record_of E c now n)"
    unfolding ok_message_def honest_def by (metis flt_total option.exhaust_sel)
qed (auto intro: flt_trans)

lemma fold_ignored:
  assumes "mv_allowlist view = c"
  shows "fold (\<lambda>m view. fst (merge_record E now m view)) ms view =
    fold (\<lambda>m view. fst (merge_record E now m view)) (filter (\<lambda>m. record_of E c now m \<noteq> None) ms) view"
  using assms
proof (induction ms arbitrary: view)
  case (Cons m ms)
  then show ?case
    using merge_record_None [of E view now m] by (cases "record_of E c now m") simp_all
qed simp

section \<open>One gossip round\<close>

text \<open>A view whose records are what the objects they carry say, all of them still acceptable.\<close>

definition view_ok :: "env \<Rightarrow> trust \<Rightarrow> pyfloat option \<Rightarrow> membership_view \<Rightarrow> bool" where
  "view_ok E c now view \<longleftrightarrow> mv_allowlist view = c \<and> distinct (map fst (mv_records view)) \<and>
     (\<forall>(did, r)\<in>set (mv_records view). pr_did r = did \<and> record_of E c now (JObj (pr_signed r)) = Some r \<and>
        pr_last_seen r \<noteq> NaN)"

definition wanted :: "membership_view \<Rightarrow> did \<times> peer_record \<Rightarrow> bool" where
  "wanted view p \<longleftrightarrow> (case mv_get view (fst p) of None \<Rightarrow> True | Some s \<Rightarrow> flt (pr_last_seen s) (pr_last_seen (snd p)))"

definition fresher :: "peer_record option \<Rightarrow> peer_record option \<Rightarrow> peer_record option" where
  "fresher x y = (case x of None \<Rightarrow> y | Some r \<Rightarrow>
     (case y of None \<Rightarrow> x | Some s \<Rightarrow> if flt (pr_last_seen r) (pr_last_seen s) then y else x))"

lemma mv_digest_get:
  "pget (mv_digest view) did = (case mv_get view did of None \<Rightarrow> JNull | Some r \<Rightarrow> JFloat (pr_last_seen r))"
proof -
  have "map_of (map (\<lambda>(did, r). (did, JFloat (pr_last_seen r))) d) did =
      map_option (\<lambda>r. JFloat (pr_last_seen r)) (map_of d did)" for d :: "(did, peer_record) dict"
    by (induction d) auto
  then show ?thesis by (simp add: pget_def mv_digest_def mv_get_def split: option.split)
qed

lemma records_for_eq:
  "records_for E (mv_digest a) b = Inr (map (pr_signed \<circ> snd) (filter (wanted a) (mv_records b)))"
proof -
  have step: "records_for_step E (mv_digest a) p out = Inr (if wanted a p then out @ [pr_signed (snd p)] else out)" for p out
    by (simp add: records_for_step_def mv_digest_get wanted_def split: option.split)
  have "rfold (records_for_step E (mv_digest a)) ps out = Inr (out @ map (pr_signed \<circ> snd) (filter (wanted a) ps))" for ps out
    by (induction ps arbitrary: out) (auto simp: step)
  then show ?thesis by (simp add: records_for_def)
qed

lemma apply_wanted:
  assumes "mv_allowlist view = c" "distinct (map fst ps)"
    "\<forall>p\<in>set ps. pr_did (snd p) = fst p \<and> record_of E c now (JObj (pr_signed (snd p))) = Some (snd p) \<and> wanted view p"
  shows "apply_records E now (map JObj (map (pr_signed \<circ> snd) ps)) n view =
    (view\<lparr>mv_records := dmerge (mv_records view) ps\<rparr>, Inr (n + length ps))"
  using assms
proof (induction ps arbitrary: n view)
  case Nil
  then show ?case by (simp add: dmerge_def)
next
  case (Cons p ps)
  let ?view = "view\<lparr>mv_records := dset (fst p) (snd p) (mv_records view)\<rparr>"
  have p: "pr_did (snd p) = fst p" "record_of E c now (JObj (pr_signed (snd p))) = Some (snd p)" "wanted view p"
    using Cons.prems(3) by simp_all
  have "\<not> fle (pr_last_seen (snd p)) (pr_last_seen s)" if "map_of (mv_records view) (fst p) = Some s" for s
    using that p(3) by (auto simp: wanted_def mv_get_def dest: flt_fle_trans)
  then have m: "merge_record E now (JObj (pr_signed (snd p))) view = (?view, Inr True)"
    using merge_record_Some [of E view now _ "snd p"] p Cons.prems(1) by (auto split: option.split)
  have "wanted ?view q" if "q \<in> set ps" for q
  proof -
    have "fst q \<noteq> fst p" using Cons.prems(2) that by (metis distinct.simps(2) image_eqI list.set_map list.simps(9))
    moreover have "wanted view q" using Cons.prems(3) that by simp
    ultimately show ?thesis by (simp add: wanted_def mv_get_def)
  qed
  with Cons.prems have "apply_records E now (map JObj (map (pr_signed \<circ> snd) ps)) (Suc n) ?view =
      (?view\<lparr>mv_records := dmerge (mv_records ?view) ps\<rparr>, Inr (Suc n + length ps))"
    by (intro Cons.IH) auto
  with m show ?case by (simp add: dmerge_def case_prod_beta comp_def)
qed

lemma map_of_wanted:
  assumes "distinct (map fst ps)"
  shows "map_of (filter (wanted view) ps) did =
    (case map_of ps did of None \<Rightarrow> None | Some r \<Rightarrow> if wanted view (did, r) then Some r else None)"
  using map_of_filter_in [OF assms, of "\<lambda>k r. wanted view (k, r)" did] by (simp add: case_prod_beta)

lemma merged_get:
  assumes "view_ok E c now a" "view_ok E c now b"
  shows "mv_get (a\<lparr>mv_records := dmerge (mv_records a) (filter (wanted a) (mv_records b))\<rparr>) did =
    fresher (mv_get a did) (mv_get b did)"
proof -
  have d: "distinct (map fst (mv_records b))" using assms(2) by (simp add: view_ok_def)
  then have d': "distinct (dkeys (filter (wanted a) (mv_records b)))" by (simp add: dkeys_def)
  show ?thesis
    unfolding mv_get_def
    using map_of_dmerge [OF d', of "mv_records a" did] map_of_wanted [OF d, of a did]
    by (simp add: fresher_def wanted_def mv_get_def split: option.split)
qed

lemma set_dmerge: "set (dmerge d e) \<subseteq> set d \<union> set e"
proof (induction e arbitrary: d)
  case (Cons p e)
  have "set (dmerge d (p # e)) = set (dmerge (dset (fst p) (snd p) d) e)" by (simp add: dmerge_def case_prod_beta)
  with Cons.IH [of "dset (fst p) (snd p) d"] show ?case by (auto dest!: set_dset)
qed (simp add: dmerge_def)

lemma distinct_dmerge: "distinct (map fst d) \<Longrightarrow> distinct (map fst (dmerge d e))"
  by (induction e arbitrary: d) (simp_all add: dmerge_def case_prod_beta)

lemma merged_ok:
  assumes "view_ok E c now a" "view_ok E c now b"
  shows "view_ok E c now (a\<lparr>mv_records := dmerge (mv_records a) (filter P (mv_records b))\<rparr>)"
proof -
  have "set (dmerge (mv_records a) (filter P (mv_records b))) \<subseteq> set (mv_records a) \<union> set (mv_records b)"
    using set_dmerge [of "mv_records a" "filter P (mv_records b)"] by auto
  with assms show ?thesis by (auto simp: view_ok_def distinct_dmerge)
qed

lemma gossip_round_eq:
  assumes "view_ok E c now a" "view_ok E c now b"
  shows "gossip_round E now a b =
    ((a\<lparr>mv_records := dmerge (mv_records a) (filter (wanted a) (mv_records b))\<rparr>,
      b\<lparr>mv_records := dmerge (mv_records b) (filter (wanted b) (mv_records a))\<rparr>),
     Inr (length (filter (wanted a) (mv_records b)), length (filter (wanted b) (mv_records a))))"
proof -
  have "apply_records E now (map JObj (map (pr_signed \<circ> snd) (filter (wanted x) (mv_records y)))) 0 x =
      (x\<lparr>mv_records := dmerge (mv_records x) (filter (wanted x) (mv_records y))\<rparr>,
       Inr (0 + length (filter (wanted x) (mv_records y))))"
    if "view_ok E c now x" "view_ok E c now y" for x y
    using that by (intro apply_wanted) (auto simp: view_ok_def)
  with assms show ?thesis by (simp add: gossip_round_def records_for_eq)
qed

lemma sort_keys_Some_JStr [simp]: "Some (JStr s) = map_option sort_keys x \<longleftrightarrow> x = Some (JStr s)"
  using sort_keys_eq_JStr [of _ s] by (cases x) (auto simp: eq_commute [of "JStr s"])

lemma merge_record_get:
  assumes "mv_get (fst (merge_record E now m view)) did = Some r"
  shows "mv_get view did = Some r \<or> record_of E (mv_allowlist view) now m = Some r \<and> pr_did r = did"
proof (cases "record_of E (mv_allowlist view) now m")
  case None
  with assms show ?thesis by (simp add: merge_record_None)
next
  case (Some s)
  with assms show ?thesis by (simp add: merge_record_Some mv_get_def split: if_splits)
qed

lemma reachable_record:
  assumes "mv_get (fold (\<lambda>(now, m) view. fst (merge_record E now m view)) ms (empty_view c)) did = Some r"
  obtains now m where "(now, m) \<in> set ms" "record_of E c now m = Some r" "pr_did r = did"
proof -
  let ?f = "\<lambda>(now, m) view. fst (merge_record E now m view)"
  have "mv_allowlist (fold ?f ms (empty_view c)) = c \<and>
      (\<forall>did r. mv_get (fold ?f ms (empty_view c)) did = Some r \<longrightarrow>
         (\<exists>(now, m)\<in>set ms. record_of E c now m = Some r \<and> pr_did r = did))"
  proof (induction ms rule: rev_induct)
    case Nil
    then show ?case by (simp add: empty_view_def mv_get_def)
  next
    case (snoc x ms)
    obtain now m where x: "x = (now, m)" by (cases x)
    let ?v = "fold ?f ms (empty_view c)"
    from snoc have c: "mv_allowlist ?v = c" by blast
    have "\<exists>(now, m)\<in>set (ms @ [x]). record_of E c now m = Some r \<and> pr_did r = did"
      if "mv_get (fst (merge_record E now m ?v)) did = Some r" for did r
      using merge_record_get [OF that] snoc x c by auto
    with c show ?case by (simp add: x)
  qed
  with assms that show ?thesis by fastforce
qed

section \<open>What a node signs, a view admits\<close>

lemma endpoint_of_json:
  "valid_endpoint e \<Longrightarrow> add_item E (endpoint_json e) es = Inr (es_add e es)"
  by (cases e) (simp add: add_item_def endpoint_json_def endpoint_of_item_def oget_def make_endpoint_def valid_endpoint_def)

lemma add_endpoints:
  assumes "\<forall>e\<in>set es. valid_endpoint e" "distinct (map ep_key es)" "fst ` set done \<inter> ep_key ` set es = {}"
  shows "rfold (add_item E) (map endpoint_json es) done = Inr (done @ map (\<lambda>e. (ep_key e, e)) es)"
  using assms
proof (induction es arbitrary: "done")
  case (Cons e es)
  then have "map_of done (ep_key e) = None" "ep_key e \<notin> set (dkeys done)"
    by (auto simp: map_of_eq_None_iff dkeys_def)
  then have "es_add e done = done @ [(ep_key e, e)]" by (simp add: es_add_def dset_new)
  moreover have "rfold (add_item E) (map endpoint_json es) (done @ [(ep_key e, e)]) =
      Inr ((done @ [(ep_key e, e)]) @ map (\<lambda>e. (ep_key e, e)) es)"
    using Cons.prems by (intro Cons.IH) auto
  ultimately show ?case using Cons.prems(1) by (simp add: endpoint_of_json)
qed simp

lemma es_all_facts:
  assumes "es_inv es"
  shows "\<forall>e\<in>set (es_all es). valid_endpoint e" "distinct (map ep_key (es_all es))"
proof -
  show "\<forall>e\<in>set (es_all es). valid_endpoint e" using assms by (auto simp: es_all_def es_inv_def)
  have k: "map fst es = map ep_key (map snd es)" using assms by (auto simp: es_inv_def)
  have "distinct (map fst es)" using assms by (simp add: es_inv_def)
  then have "distinct (map ep_key (map snd es))" using k by simp
  then have "distinct (map snd es)" "inj_on ep_key (set (map snd es))" by (metis distinct_map)+
  then show "distinct (map ep_key (es_all es))" by (simp add: es_all_def distinct_map)
qed

lemma check_relays_notin: "check_relays me rs = Inr () \<Longrightarrow> me \<notin> set rs"
  unfolding check_relays_def by (induction rs) (auto simp: rbind_Inr_iff split: if_splits)

lemma strings_map [simp]: "strings (JList (map JStr ss)) = ss"
  by (induction ss) (simp_all add: strings_def)

lemma from_keys_distinct: "distinct xs \<Longrightarrow> from_keys xs = xs"
  by (induction xs) (auto intro: filter_True)

lemma verified_record_of:
  assumes vp: "verify_payload E (JObj obj) (Some c) = (True, Some did)"
    and "identity_did E seed = Inr did" "es_inv es"
    and "sign_record E seed es last_seen roles relays = Inr obj"
    and "\<forall>t. now = Some t \<longrightarrow> \<not> flt (fadd t default_skew) last_seen"
  shows "record_of E c now (JObj obj) = Some \<lparr>pr_did = did, pr_last_seen = last_seen,
    pr_endpoints = map (\<lambda>e. (ep_key e, e)) (es_all es), pr_signed = obj, pr_roles = sorted_set roles,
    pr_relays = from_keys relays\<rparr>"
proof -
  let ?rs = "from_keys relays"
  from assms(2,4) have roles: "set roles \<subseteq> set ROLES" and len: "length ?rs \<le> MAX_ADVERTISED_RELAYS"
    and rel: "check_relays did ?rs = Inr ()"
    and obj: "sign_payload E seed (record_payload did es last_seen roles ?rs) = Inr obj"
    by (auto simp: sign_record_def Let_def rbind_Inr_iff split: if_splits)
  note f = sign_payload_fields [OF obj]
  have fields: "pget obj ''type'' = JStr RECORD_TYPE" "pget obj ''did'' = JStr did"
    "map_of obj ''last_seen'' = Some (JFloat last_seen)" "pget obj ''endpoints'' = JList (map endpoint_json (es_all es))"
    "strings (pget obj ''roles'') = sorted_set roles" "strings (pget obj ''relays'') = ?rs"
    by (simp_all add: f record_payload_def pget_def) (simp_all add: strings_def sorted_set_def)
  have items: "items_of (JList (map endpoint_json (es_all es))) = Inr (map endpoint_json (es_all es))"
    by (simp add: items_of_def)
  have eps: "rfold (add_item E) (map endpoint_json (es_all es)) [] = Inr (map (\<lambda>e. (ep_key e, e)) (es_all es))"
    using add_endpoints [of "es_all es" "[]"] es_all_facts [OF assms(3)] by simp
  have "filter (\<lambda>r. r \<in> set ROLES) (sorted_set roles) = sorted_set roles"
    using roles by (auto intro!: filter_True)
  moreover have "filter (\<lambda>r. r \<noteq> did) ?rs = ?rs" using check_relays_notin [OF rel] by (auto intro!: filter_True)
  moreover have "(case now of None \<Rightarrow> True | Some t \<Rightarrow> \<not> flt (fadd t default_skew) last_seen)"
    using assms(5) by (auto split: option.split)
  ultimately show ?thesis
    using len by (simp add: record_of_iff verify_record_def vp fields items eps oget_def from_keys_distinct)
qed

lemma signed_record_of:
  assumes "crypto_ok E" "length seed = 32" "identity_did E seed = Inr did" "c did" "es_inv es"
    "sign_record E seed es last_seen roles relays = Inr obj"
    "\<forall>t. now = Some t \<longrightarrow> \<not> flt (fadd t default_skew) last_seen"
  shows "record_of E c now (JObj obj) = Some \<lparr>pr_did = did, pr_last_seen = last_seen,
    pr_endpoints = map (\<lambda>e. (ep_key e, e)) (es_all es), pr_signed = obj, pr_roles = sorted_set roles,
    pr_relays = from_keys relays\<rparr>"
proof (rule verified_record_of [OF _ assms(3,5,6,7)])
  obtain payload where "sign_payload E seed payload = Inr obj"
    using assms(3,6) by (auto simp: sign_record_def Let_def rbind_Inr_iff split: if_splits)
  then show "verify_payload E (JObj obj) (Some c) = (True, Some did)"
    using verify_payload_signed [OF assms(1,2) _ assms(3), of payload obj "Some c"] assms(4) by simp
qed

section \<open>Properties\<close>


text \<open>Membership converges: two views that were fed the same honest messages (no NaN time, one record per
  node and time) in any order and with any repetitions, junk and forgeries among them, hold the same
  record for every node.\<close>

theorem membership_converges:
  assumes "honest E c now (set ms)" "set ms = set ns"
  shows "mv_get (fold (\<lambda>m view. fst (merge_record E now m view)) ms (empty_view c)) did =
    mv_get (fold (\<lambda>m view. fst (merge_record E now m view)) ns (empty_view c)) did"
proof -
  let ?p = "\<lambda>m. record_of E c now m \<noteq> None"
  have inv: "view_inv c (empty_view c)" and none: "\<And>k. mv_get (empty_view c) k = None"
    by (simp_all add: view_inv_def empty_view_def mv_get_def)
  have ok: "list_all (ok_message E c now (set ms)) (filter ?p ms)" "list_all (ok_message E c now (set ms)) (filter ?p ns)"
    using assms by (auto simp: list_all_iff ok_message_def)
  have "set (filter ?p ms) = set (filter ?p ns)" using assms(2) by auto
  from members.converge [OF inv inv none none ok this, of did]
  show ?thesis
    using fold_ignored [of "empty_view c" c E now ms] fold_ignored [of "empty_view c" c E now ns]
    by (simp add: empty_view_def)
qed

text \<open>C27 One gossip round is enough: when the records of two views are acceptable to both and agree wherever
  their times do, a round ends without an error, afterwards both views hold the fresher record of every
  node either of them knew, and a second round merges nothing.\<close>

theorem gossip_round_converges:
  assumes "view_ok E c now a" "view_ok E c now b"
    "\<And>did r s. mv_get a did = Some r \<Longrightarrow> mv_get b did = Some s \<Longrightarrow> pr_last_seen r = pr_last_seen s \<Longrightarrow> r = s"
  shows "\<exists>a' b' m n. gossip_round E now a b = ((a', b'), Inr (m, n)) \<and>
    (\<forall>did. mv_get a' did = fresher (mv_get a did) (mv_get b did) \<and> mv_get b' did = mv_get a' did) \<and>
    gossip_round E now a' b' = ((a', b'), Inr (0, 0))"
proof -
  let ?a = "a\<lparr>mv_records := dmerge (mv_records a) (filter (wanted a) (mv_records b))\<rparr>"
  let ?b = "b\<lparr>mv_records := dmerge (mv_records b) (filter (wanted b) (mv_records a))\<rparr>"
  have no_NaN: "pr_last_seen r \<noteq> NaN" if "view_ok E c now v" "mv_get v did = Some r" for v did r
    using that by (auto simp: view_ok_def mv_get_def dest: map_of_SomeD)
  have get: "mv_get ?a did = fresher (mv_get a did) (mv_get b did)" "mv_get ?b did = fresher (mv_get b did) (mv_get a did)" for did
    using merged_get [OF assms(1,2)] merged_get [OF assms(2,1)] by simp_all
  have "fresher (mv_get a did) (mv_get b did) = fresher (mv_get b did) (mv_get a did)" for did
  proof (cases "mv_get a did"; cases "mv_get b did")
    fix r s
    assume "mv_get a did = Some r" "mv_get b did = Some s"
    then show ?thesis
      using assms(3) flt_total [OF no_NaN [OF assms(1)] no_NaN [OF assms(2)], of did r did s]
      by (auto simp: fresher_def dest: flt_trans)
  qed (simp_all add: fresher_def)
  with get have eq: "mv_get ?a = mv_get ?b" by auto
  have ok: "view_ok E c now ?a" "view_ok E c now ?b" using assms(1,2) by (simp_all add: merged_ok)
  have same: "filter (wanted x) (mv_records y) = []" if "view_ok E c now y" "mv_get x = mv_get y" for x y
  proof -
    have "\<not> wanted x (did, r)" if "(did, r) \<in> set (mv_records y)" for did r
      using that \<open>mv_get x = mv_get y\<close> \<open>view_ok E c now y\<close> by (simp add: wanted_def mv_get_def view_ok_def)
    then show ?thesis by (auto simp: filter_empty_conv)
  qed
  have "gossip_round E now ?a ?b = ((?a, ?b), Inr (0, 0))"
    unfolding gossip_round_eq [OF ok] same [OF ok(2) eq] same [OF ok(1) eq [symmetric]] by (simp add: dmerge_def)
  with get eq gossip_round_eq [OF assms(1,2)] show ?thesis by (intro exI conjI allI) auto
qed

text \<open>A node that signs a NaN time for itself escapes both the future-skew guard and the last-writer-wins
  order: the records of that node then depend on the order in which they arrive.\<close>

theorem NaN_last_seen_diverges:
  assumes "record_of E c now m = Some r" "record_of E c now n = Some s" "pr_did r = pr_did s" "pr_last_seen r = NaN"
  shows "mv_get (fold (\<lambda>m view. fst (merge_record E now m view)) [m, n] (empty_view c)) (pr_did r) = Some s"
    "mv_get (fold (\<lambda>m view. fst (merge_record E now m view)) [n, m] (empty_view c)) (pr_did r) = Some r"
  using assms by (simp_all add: empty_view_def merge_record_Some mv_get_def)

section \<open>Concrete meshes\<close>

definition ref_record :: "char \<Rightarrow> rat \<Rightarrow> obj" where
  "ref_record a q = projr (sign_record ref_env (ref_seed a) [] (Fin q) [] [])"

lemma ref_record_of:
  "record_of ref_env c None (JObj (ref_record a q)) = (if c (ref_did a) then
     Some \<lparr>pr_did = ref_did a, pr_last_seen = Fin q, pr_endpoints = [], pr_signed = ref_record a q, pr_roles = [], pr_relays = []\<rparr>
   else None)"
proof -
  have "\<not> has_envelope (record_payload (ref_did a) [] (Fin q) [] [])"
    by (simp add: record_payload_def has_envelope_def dkeys_def)
  then obtain obj where obj: "sign_payload ref_env (ref_seed a) (record_payload (ref_did a) [] (Fin q) [] []) = Inr obj"
    by (rule sign_payload_total [OF ref_env_crypto length_ref_seed])
  then have s: "sign_record ref_env (ref_seed a) [] (Fin q) [] [] = Inr obj"
    by (simp add: sign_record_def check_relays_def)
  show ?thesis
  proof (cases "c (ref_did a)")
    case True
    from signed_record_of [where c = c and now = None, OF ref_env_crypto length_ref_seed ref_did_identity True es_inv_Nil s] True
    show ?thesis by (simp add: ref_record_def s es_all_def sorted_set_def)
  next
    case False
    have "verify_payload ref_env (JObj obj) (Some c) = (False, Some (ref_did a))"
      using verify_payload_signed [OF ref_env_crypto length_ref_seed obj ref_did_identity, of "Some c"] False by simp
    with False show ?thesis
      by (auto simp: ref_record_def s record_of_def verify_record_def chain_iffs split: sum.splits option.splits
          dest!: finish_okD [of _ _ _ "\<lambda>r. r \<noteq> None"])
  qed
qed

theorem membership_converges_witness:
  "mv_get (fold (\<lambda>m view. fst (merge_record ref_env None m view))
      [JObj (ref_record (CHR ''a'') 1), JNull, JObj (ref_record (CHR ''a'') 2)] (empty_view (\<lambda>_. True))) (ref_did (CHR ''a'')) =
   mv_get (fold (\<lambda>m view. fst (merge_record ref_env None m view))
      [JObj (ref_record (CHR ''a'') 2), JObj (ref_record (CHR ''a'') 1), JNull, JObj (ref_record (CHR ''a'') 1)] (empty_view (\<lambda>_. True)))
     (ref_did (CHR ''a''))"
proof -
  have "record_of ref_env c None JNull = None" for c by (simp add: record_of_def verify_record_def)
  then have "honest ref_env (\<lambda>_. True) None (set [JObj (ref_record (CHR ''a'') 1), JNull, JObj (ref_record (CHR ''a'') 2)])"
    by (simp add: honest_def ref_record_of)
  then show ?thesis by (rule membership_converges) auto
qed

theorem gossip_round_converges_witness:
  "\<exists>a' b' m n. gossip_round ref_env None
     (fst (merge_record ref_env None (JObj (ref_record (CHR ''a'') 1)) (empty_view (\<lambda>_. True))))
     (fst (merge_record ref_env None (JObj (ref_record (CHR ''a'') 2)) (empty_view (\<lambda>_. True)))) = ((a', b'), Inr (m, n)) \<and>
   map_option pr_last_seen (mv_get a' (ref_did (CHR ''a''))) = Some (Fin 2) \<and>
   mv_get b' (ref_did (CHR ''a'')) = mv_get a' (ref_did (CHR ''a''))"
proof -
  let ?v = "\<lambda>q. fst (merge_record ref_env None (JObj (ref_record (CHR ''a'') q)) (empty_view (\<lambda>_. True)))"
  have e: "mv_allowlist (empty_view (\<lambda>_. True)) = (\<lambda>_. True)" by (simp add: empty_view_def)
  have v: "mv_records (?v q) = [(ref_did (CHR ''a''), the (record_of ref_env (\<lambda>_. True) None (JObj (ref_record (CHR ''a'') q))))]"
    "mv_allowlist (?v q) = (\<lambda>_. True)" for q
    by (simp_all add: merge_record_Some [of _ _ _ _ "the (record_of ref_env (\<lambda>_. True) None (JObj (ref_record (CHR ''a'') q)))"]
        ref_record_of e) (simp_all add: empty_view_def)
  have ok: "view_ok ref_env (\<lambda>_. True) None (?v q)" for q
    by (simp add: view_ok_def v e ref_record_of)
  have tie: "r = s" if "mv_get (?v 1) did = Some r" "mv_get (?v 2) did = Some s" "pr_last_seen r = pr_last_seen s" for did r s
    using that by (simp add: mv_get_def v ref_record_of split: if_splits) auto
  obtain a' b' m n where g: "gossip_round ref_env None (?v 1) (?v 2) = ((a', b'), Inr (m, n))"
    "\<forall>did. mv_get a' did = fresher (mv_get (?v 1) did) (mv_get (?v 2) did) \<and> mv_get b' did = mv_get a' did"
    using gossip_round_converges [OF ok [of 1] ok [of 2]] tie by blast
  moreover have "map_option pr_last_seen (fresher (mv_get (?v 1) (ref_did (CHR ''a''))) (mv_get (?v 2) (ref_did (CHR ''a'')))) = Some (Fin 2)"
    by (simp add: fresher_def mv_get_def v ref_record_of)
  ultimately show ?thesis by auto
qed

definition ref_record_payload :: obj where
  "ref_record_payload = record_payload (ref_did (CHR ''a'')) [] (Fin 1) [] []"


end
