(* ===== verification/Health.thy ===== *)
theory Health
  imports Signing
begin

text \<open>
  \<^verbatim>\<open>inference/breaker.py\<close> and \<^verbatim>\<open>inference/health.py\<close>: the circuit breaker of a model node or model,
  the suspicion score each decider keeps, and the coordinator's fault tracker. Times are floats passed in
  by the caller. A cooldown is doubled by multiplying it with a Python integer power of two, which raises
  \<^verbatim>\<open>OverflowError\<close> once that integer is too large for a float, before \<^verbatim>\<open>min\<close> could cap it.
\<close>

fun fmul :: "pyfloat \<Rightarrow> pyfloat \<Rightarrow> pyfloat" where
  "fmul (Fin a) (Fin b) = Fin (a * b)"
| "fmul NaN _ = NaN"
| "fmul _ NaN = NaN"
| "fmul PInf (Fin b) = (if b = 0 then NaN else if 0 < b then PInf else NInf)"
| "fmul NInf (Fin b) = (if b = 0 then NaN else if 0 < b then NInf else PInf)"
| "fmul (Fin a) PInf = (if a = 0 then NaN else if 0 < a then PInf else NInf)"
| "fmul (Fin a) NInf = (if a = 0 then NaN else if 0 < a then NInf else PInf)"
| "fmul PInf PInf = PInf"
| "fmul PInf NInf = NInf"
| "fmul NInf PInf = NInf"
| "fmul NInf NInf = PInf"

text \<open>\<^verbatim>\<open>min(x * 2 ** k, cap)\<close>\<close>

definition backoff :: "env \<Rightarrow> pyfloat \<Rightarrow> nat \<Rightarrow> pyfloat \<Rightarrow> pyfloat res" where
  "backoff E x k cap = rbind (to_float E (JInt (2 ^ k))) (\<lambda>f. Inr (if flt cap (fmul x f) then cap else fmul x f))"

section \<open>The circuit breaker\<close>

datatype breaker_state = CLOSED | OPEN | HALF_OPEN

record breaker_entry =
  be_failures :: int
  be_trips :: nat
  be_until :: pyfloat
  be_open :: bool

definition fresh_entry :: breaker_entry where
  "fresh_entry = \<lparr>be_failures = 0, be_trips = 0, be_until = Fin 0, be_open = False\<rparr>"

record circuit_breaker =
  cb_threshold :: int
  cb_cooldown :: pyfloat
  cb_max_cooldown :: pyfloat
  cb_states :: "(string, breaker_entry) dict"

definition circuit_breaker_init :: "int \<Rightarrow> pyfloat \<Rightarrow> pyfloat \<Rightarrow> circuit_breaker res" where
  "circuit_breaker_init threshold cooldown max_cooldown =
     (if threshold < 1 then Inl (ValueError ''threshold must be at least 1'')
      else Inr \<lparr>cb_threshold = threshold, cb_cooldown = cooldown, cb_max_cooldown = max_cooldown, cb_states = []\<rparr>)"

definition cb_state :: "circuit_breaker \<Rightarrow> string \<Rightarrow> pyfloat \<Rightarrow> breaker_state" where
  "cb_state cb key now =
     (case map_of (cb_states cb) key of
        None \<Rightarrow> CLOSED
      | Some st \<Rightarrow> if \<not> be_open st then CLOSED else if flt now (be_until st) then OPEN else HALF_OPEN)"

definition cb_available :: "circuit_breaker \<Rightarrow> string \<Rightarrow> pyfloat \<Rightarrow> bool" where
  "cb_available cb key now \<longleftrightarrow> cb_state cb key now \<noteq> OPEN"

definition cb_success :: "string \<Rightarrow> circuit_breaker \<Rightarrow> circuit_breaker" where
  "cb_success key cb = cb\<lparr>cb_states := dpop key (cb_states cb)\<rparr>"

definition put_entry :: "string \<Rightarrow> breaker_entry \<Rightarrow> circuit_breaker \<Rightarrow> circuit_breaker" where
  "put_entry key st cb = cb\<lparr>cb_states := dset key st (cb_states cb)\<rparr>"

definition cb_failure :: "env \<Rightarrow> string \<Rightarrow> pyfloat \<Rightarrow> circuit_breaker \<Rightarrow> circuit_breaker \<times> bool res" where
  "cb_failure E key now cb =
     (let st = (case map_of (cb_states cb) key of None \<Rightarrow> fresh_entry | Some st \<Rightarrow> st)
      in if be_open st then
           if flt now (be_until st) then (put_entry key st cb, Inr False)
           else let st1 = st\<lparr>be_trips := Suc (be_trips st)\<rparr>
                in (case backoff E (cb_cooldown cb) (be_trips st1) (cb_max_cooldown cb) of
                      Inl e \<Rightarrow> (put_entry key st1 cb, Inl e)
                    | Inr w \<Rightarrow> (put_entry key (st1\<lparr>be_until := fadd now w\<rparr>) cb, Inr True))
         else
           let st1 = st\<lparr>be_failures := be_failures st + 1\<rparr>
           in if be_failures st1 < cb_threshold cb then (put_entry key st1 cb, Inr False)
              else (put_entry key (st1\<lparr>be_open := True, be_failures := 0, be_until := fadd now (cb_cooldown cb)\<rparr>) cb, Inr True))"

section \<open>Suspicion\<close>

record suspicion =
  su_threshold :: int
  su_cooldown :: pyfloat
  su_score :: "(did, int) dict"
  su_until :: "(did, pyfloat) dict"

definition suspicion_init :: "int \<Rightarrow> pyfloat \<Rightarrow> suspicion" where
  "suspicion_init threshold cooldown = \<lparr>su_threshold = threshold, su_cooldown = cooldown, su_score = [], su_until = []\<rparr>"

fun timed_out :: "did list \<Rightarrow> pyfloat \<Rightarrow> suspicion \<Rightarrow> suspicion \<times> did list" where
  "timed_out [] now s = (s, [])"
| "timed_out (d # ds) now s =
     (let n = dget (su_score s) d 0 + 1; s1 = s\<lparr>su_score := dset d n (su_score s)\<rparr>
      in if su_threshold s \<le> n \<and> fle (dget (su_until s) d (Fin 0)) now
         then let (s2, newly) = timed_out ds now
                (s1\<lparr>su_until := dset d (fadd now (su_cooldown s)) (su_until s), su_score := dset d 0 (su_score s1)\<rparr>)
              in (s2, d # newly)
         else timed_out ds now s1)"

fun delivered :: "did list \<Rightarrow> suspicion \<Rightarrow> suspicion" where
  "delivered [] s = s"
| "delivered (d # ds) s =
     delivered ds (if 0 < dget (su_score s) d 0 then s\<lparr>su_score := dset d (dget (su_score s) d 0 - 1) (su_score s)\<rparr> else s)"

definition suspects :: "pyfloat \<Rightarrow> suspicion \<Rightarrow> did set" where
  "suspects now s = fst ` set (filter (\<lambda>(d, until). flt now until) (su_until s))"

section \<open>The fault tracker\<close>

datatype health_status = QUARANTINED | PROBATION | HEALTHY

record fault_record =
  fr_reports :: "(did, pyfloat) dict"
  fr_strikes :: nat
  fr_until :: pyfloat
  fr_probation_until :: pyfloat

definition fresh_record :: fault_record where
  "fresh_record = \<lparr>fr_reports = [], fr_strikes = 0, fr_until = Fin 0, fr_probation_until = Fin 0\<rparr>"

record fault_tracker =
  ft_threshold :: int
  ft_window :: pyfloat
  ft_cooldown :: pyfloat
  ft_max_cooldown :: pyfloat
  ft_probation :: pyfloat
  ft_records :: "(did, fault_record) dict"

definition fault_tracker_init :: "int \<Rightarrow> pyfloat \<Rightarrow> pyfloat \<Rightarrow> pyfloat \<Rightarrow> pyfloat \<Rightarrow> fault_tracker res" where
  "fault_tracker_init threshold window cooldown max_cooldown probation =
     (if threshold < 1 then Inl (ValueError ''threshold must be at least 1'')
      else Inr \<lparr>ft_threshold = threshold, ft_window = window, ft_cooldown = cooldown,
        ft_max_cooldown = max_cooldown, ft_probation = probation, ft_records = []\<rparr>)"

definition put_record :: "did \<Rightarrow> fault_record \<Rightarrow> fault_tracker \<Rightarrow> fault_tracker" where
  "put_record d rec ft = ft\<lparr>ft_records := dset d rec (ft_records ft)\<rparr>"

text \<open>The record after the report is counted, before it is decided whether it quarantines.\<close>

definition count_report :: "did \<Rightarrow> pyfloat \<Rightarrow> fault_tracker \<Rightarrow> fault_record \<Rightarrow> fault_record" where
  "count_report reporter now ft rec =
     (let rec1 = (if fr_strikes rec \<noteq> 0 \<and> flt (fadd (fr_probation_until rec) (fmul (Fin 10) (ft_cooldown ft))) now
                  then rec\<lparr>fr_strikes := 0\<rparr> else rec)
      in rec1\<lparr>fr_reports := dset reporter now (filter (\<lambda>(r, t). fle (fsub now t) (ft_window ft)) (fr_reports rec1))\<rparr>)"

definition ft_report :: "env \<Rightarrow> did \<Rightarrow> did \<Rightarrow> pyfloat \<Rightarrow> fault_tracker \<Rightarrow> fault_tracker \<times> bool res" where
  "ft_report E accused reporter now ft =
     (if accused = reporter then (ft, Inr False)
      else let rec = (case map_of (ft_records ft) accused of None \<Rightarrow> fresh_record | Some rec \<Rightarrow> rec)
           in if flt now (fr_until rec) then (put_record accused rec ft, Inr False)
              else let rec1 = count_report reporter now ft rec;
                       needed = (if flt now (fr_probation_until rec1) then 1 else ft_threshold ft)
                   in if int (length (fr_reports rec1)) < needed then (put_record accused rec1 ft, Inr False)
                      else let rec2 = rec1\<lparr>fr_strikes := Suc (fr_strikes rec1)\<rparr>
                           in (case backoff E (ft_cooldown ft) (fr_strikes rec2 - 1) (ft_max_cooldown ft) of
                                 Inl e \<Rightarrow> (put_record accused rec2 ft, Inl e)
                               | Inr w \<Rightarrow>
                                   (put_record accused (rec2\<lparr>fr_until := fadd now w,
                                      fr_probation_until := fadd (fadd now w) (ft_probation ft), fr_reports := []\<rparr>) ft, Inr True)))"

definition ft_status :: "fault_tracker \<Rightarrow> did \<Rightarrow> pyfloat \<Rightarrow> health_status" where
  "ft_status ft d now =
     (case map_of (ft_records ft) d of
        None \<Rightarrow> HEALTHY
      | Some rec \<Rightarrow>
          if flt now (fr_until rec) then QUARANTINED
          else if flt now (fr_probation_until rec) then PROBATION else HEALTHY)"

definition ft_quarantined :: "fault_tracker \<Rightarrow> pyfloat \<Rightarrow> did set" where
  "ft_quarantined ft now = fst ` set (filter (\<lambda>(d, rec). flt now (fr_until rec)) (ft_records ft))"

section \<open>The breaker counts consecutive failures\<close>

datatype breaker_op = Succeeded string | Failed string pyfloat

fun breaker_step :: "env \<Rightarrow> breaker_op \<Rightarrow> circuit_breaker \<Rightarrow> circuit_breaker" where
  "breaker_step E (Succeeded key) cb = cb_success key cb"
| "breaker_step E (Failed key now) cb = fst (cb_failure E key now cb)"

text \<open>The times of the failures of \<open>key\<close> since its last success, latest first; the history is given
  latest first too.\<close>

fun streak :: "string \<Rightarrow> breaker_op list \<Rightarrow> pyfloat list" where
  "streak key [] = []"
| "streak key (Succeeded k # ops) = (if k = key then [] else streak key ops)"
| "streak key (Failed k t # ops) = (if k = key then t # streak key ops else streak key ops)"

text \<open>The entry of a key, as its streak determines it.\<close>

definition entry_of_streak :: "circuit_breaker \<Rightarrow> pyfloat list \<Rightarrow> breaker_entry option \<Rightarrow> bool" where
  "entry_of_streak cb ts entry \<longleftrightarrow>
     (case entry of
        None \<Rightarrow> ts = []
      | Some st \<Rightarrow>
          if be_open st
          then cb_threshold cb \<le> int (length ts) \<and>
            (int (length ts) = cb_threshold cb \<longrightarrow> be_until st = fadd (hd ts) (cb_cooldown cb))
          else be_failures st = int (length ts) \<and> int (length ts) < cb_threshold cb)"

lemma failure_config [simp]:
  "cb_threshold (fst (cb_failure E key t cb)) = cb_threshold cb" "cb_cooldown (fst (cb_failure E key t cb)) = cb_cooldown cb"
  by (auto simp: cb_failure_def put_entry_def Let_def split: sum.split)

lemma breaker_step_config [simp]:
  "cb_threshold (breaker_step E op cb) = cb_threshold cb" "cb_cooldown (breaker_step E op cb) = cb_cooldown cb"
  by (cases op; simp add: cb_success_def)+

lemma entry_of_streak_config:
  "cb_threshold cb' = cb_threshold cb \<Longrightarrow> cb_cooldown cb' = cb_cooldown cb \<Longrightarrow>
   entry_of_streak cb' = entry_of_streak cb"
  by (simp add: entry_of_streak_def fun_eq_iff split: option.split)

lemma failure_other: "k \<noteq> key \<Longrightarrow> map_of (cb_states (fst (cb_failure E k now cb))) key = map_of (cb_states cb) key"
  by (auto simp: cb_failure_def put_entry_def Let_def split: sum.split)

lemma failure_entry:
  assumes "1 \<le> cb_threshold cb" "entry_of_streak cb ts (map_of (cb_states cb) key)"
  shows "entry_of_streak cb (now # ts) (map_of (cb_states (fst (cb_failure E key now cb))) key)"
proof (cases "map_of (cb_states cb) key")
  case None
  with assms show ?thesis
    by (auto simp: entry_of_streak_def cb_failure_def put_entry_def Let_def fresh_entry_def)
next
  case (Some st)
  show ?thesis
  proof (cases "be_open st")
    case True
    with Some assms have "cb_threshold cb \<le> int (length ts)" by (simp add: entry_of_streak_def)
    with True Some show ?thesis
      by (auto simp: entry_of_streak_def cb_failure_def put_entry_def Let_def split: sum.split)
  next
    case False
    with Some assms show ?thesis
      by (auto simp: entry_of_streak_def cb_failure_def put_entry_def Let_def)
  qed
qed

lemma breaker_history:
  assumes "circuit_breaker_init threshold cooldown cap = Inr cb"
  shows "cb_threshold (foldr (breaker_step E) ops cb) = threshold \<and> cb_cooldown (foldr (breaker_step E) ops cb) = cooldown \<and>
    1 \<le> threshold \<and> entry_of_streak cb (streak key ops) (map_of (cb_states (foldr (breaker_step E) ops cb)) key)"
proof (induction ops)
  case Nil
  from assms show ?case by (auto simp: circuit_breaker_init_def entry_of_streak_def split: if_splits)
next
  case (Cons op ops)
  let ?cb = "foldr (breaker_step E) ops cb"
  from assms have "cb_threshold cb = threshold" "cb_cooldown cb = cooldown"
    by (auto simp: circuit_breaker_init_def split: if_splits)
  with Cons have cfg: "entry_of_streak ?cb = entry_of_streak cb" by (intro entry_of_streak_config) simp_all
  show ?case
  proof (cases op)
    case (Succeeded k)
    with Cons show ?thesis by (auto simp: cb_success_def entry_of_streak_def)
  next
    case (Failed k t)
    show ?thesis
    proof (cases "k = key")
      case True
      with Cons Failed cfg failure_entry [of ?cb "streak key ops" key t E] show ?thesis by simp
    next
      case False
      with Cons Failed show ?thesis by (simp add: failure_other)
    qed
  qed
qed

section \<open>Quarantine takes several reporters\<close>

definition untouched :: "did set \<Rightarrow> fault_record option \<Rightarrow> bool" where
  "untouched R entry \<longleftrightarrow> (case entry of None \<Rightarrow> True | Some rec \<Rightarrow> fr_until rec = Fin 0 \<and> fr_probation_until rec = Fin 0 \<and>
     fr_strikes rec = 0 \<and> distinct (map fst (fr_reports rec)) \<and> fst ` set (fr_reports rec) \<subseteq> R)"

lemma ft_report_config [simp]: "ft_threshold (fst (ft_report E a r t ft)) = ft_threshold ft"
  by (auto simp: ft_report_def put_record_def Let_def split: sum.split)

lemma ft_report_other: "a \<noteq> d \<Longrightarrow> map_of (ft_records (fst (ft_report E a r t ft))) d = map_of (ft_records ft) d"
  by (auto simp: ft_report_def put_record_def Let_def split: sum.split)

lemma not_before_zero: "fle (Fin 0) t \<Longrightarrow> \<not> flt t (Fin 0)"
  by (cases t) auto

lemma ft_report_untouched:
  assumes "untouched R (map_of (ft_records ft) d)" "finite R" "int (card R) < ft_threshold ft" "r \<in> R" "fle (Fin 0) t"
  shows "untouched R (map_of (ft_records (fst (ft_report E d r t ft))) d)"
proof (cases "d = r")
  case True
  with assms(1) show ?thesis by (simp add: ft_report_def)
next
  case False
  define rec where "rec = (case map_of (ft_records ft) d of None \<Rightarrow> fresh_record | Some rec \<Rightarrow> rec)"
  define rec1 where "rec1 = count_report r t ft rec"
  from assms(1) have rec: "untouched R (Some rec)"
    by (auto simp: untouched_def rec_def fresh_record_def split: option.splits)
  then have rec1: "untouched R (Some rec1)"
  proof -
    let ?kept = "filter (\<lambda>(r, t'). fle (fsub t t') (ft_window ft)) (fr_reports rec)"
    have "fst ` set (dset r t ?kept) \<subseteq> R" using rec assms(4) by (auto simp: untouched_def dom_update)
    with rec show ?thesis by (auto simp: rec1_def count_report_def untouched_def Let_def)
  qed
  have now: "\<not> flt t (fr_until rec)" "\<not> flt t (fr_probation_until rec1)"
    using rec rec1 assms(5) by (simp_all add: untouched_def not_before_zero)
  have "length (fr_reports rec1) = card (fst ` set (fr_reports rec1))"
    using rec1 by (simp add: untouched_def distinct_card flip: set_map)
  also have "\<dots> \<le> card R" using rec1 assms(2) by (intro card_mono) (simp_all add: untouched_def)
  finally have "int (length (fr_reports rec1)) < ft_threshold ft" using assms(3) by simp
  with False now rec1 show ?thesis
    by (simp add: ft_report_def put_record_def Let_def flip: rec_def rec1_def)
qed

section \<open>Properties\<close>

text \<open>The breaker of a key opens on the \<open>threshold\<close>-th consecutive failure and on nothing else: after any
  history of successes and failures of any keys, it is closed exactly when the key has failed fewer than
  \<open>threshold\<close> times since its last success; the failure that opens it keeps traffic away for exactly the
  cooldown, after which probes are admitted.\<close>

theorem breaker_opens_exactly:
  assumes "circuit_breaker_init threshold cooldown cap = Inr cb"
  shows "(cb_state (foldr (breaker_step E) ops cb) key now = CLOSED \<longleftrightarrow> int (length (streak key ops)) < threshold) \<and>
    (int (length (streak key ops)) = threshold \<longrightarrow>
       cb_available (foldr (breaker_step E) ops cb) key now = (\<not> flt now (fadd (hd (streak key ops)) cooldown)))"
proof -
  from assms have "cb_threshold cb = threshold" "cb_cooldown cb = cooldown"
    by (auto simp: circuit_breaker_init_def split: if_splits)
  with breaker_history [OF assms, of E ops key] show ?thesis
    by (auto simp: entry_of_streak_def cb_available_def cb_state_def split: option.splits if_splits)
qed

theorem breaker_opens_exactly_witness:
  "\<exists>cb. circuit_breaker_init 2 (Fin 30) (Fin 600) = Inr cb \<and>
     \<not> cb_available (foldr (breaker_step ref_env) [Failed ''k'' (Fin 5), Failed ''k'' (Fin 1), Succeeded ''k'', Failed ''k'' (Fin 0)] cb) ''k'' (Fin 34) \<and>
     cb_available (foldr (breaker_step ref_env) [Failed ''k'' (Fin 5), Failed ''k'' (Fin 1), Succeeded ''k'', Failed ''k'' (Fin 0)] cb) ''k'' (Fin 35)"
proof -
  let ?ops = "[Failed ''k'' (Fin 5), Failed ''k'' (Fin 1), Succeeded ''k'', Failed ''k'' (Fin 0)]"
  obtain cb where cb: "circuit_breaker_init 2 (Fin 30) (Fin 600) = Inr cb" by (simp add: circuit_breaker_init_def)
  have s: "streak ''k'' ?ops = [Fin 5, Fin 1]" by simp
  from breaker_opens_exactly [OF cb, of ref_env ?ops "''k''", unfolded s] cb show ?thesis by auto
qed

text \<open>A reporter alone never quarantines a node, nor do too few together: from an empty tracker, while the
  distinct reporters that accuse a node are fewer than the threshold, the node stays healthy, whatever
  they report, however often, and whatever is reported about others.\<close>

theorem quarantine_needs_reporters:
  assumes "fault_tracker_init threshold window cooldown cap probation = Inr ft"
    "list_all (\<lambda>(a, r, t). fle (Fin 0) t) rs" "fle (Fin 0) now"
    "int (card {r. \<exists>t. (d, r, t) \<in> set rs}) < threshold"
  shows "ft_status (fold (\<lambda>(a, r, t) ft. fst (ft_report E a r t ft)) rs ft) d now = HEALTHY"
proof -
  let ?R = "{r. \<exists>t. (d, r, t) \<in> set rs}"
  let ?f = "\<lambda>(a, r, t) ft. fst (ft_report E a r t ft)"
  have fin: "finite ?R"
  proof (rule finite_subset)
    show "?R \<subseteq> (fst \<circ> snd) ` set rs" by force
  qed simp
  have "ft_threshold (fold ?f qs ft) = threshold \<and> untouched ?R (map_of (ft_records (fold ?f qs ft)) d)"
    if "set qs \<subseteq> set rs" for qs
    using that
  proof (induction qs rule: rev_induct)
    case Nil
    from assms(1) show ?case by (auto simp: fault_tracker_init_def untouched_def split: if_splits)
  next
    case (snoc q qs)
    obtain a r t where q: "q = (a, r, t)" by (cases q)
    show ?case
    proof (cases "a = d")
      case True
      have "r \<in> ?R" "fle (Fin 0) t" using snoc.prems assms(2) q True by (auto simp: list_all_iff)
      with ft_report_untouched [of ?R "fold ?f qs ft" d r t E] snoc fin assms(4) q True show ?thesis by simp
    next
      case False
      with snoc q show ?thesis by (simp add: ft_report_other)
    qed
  qed
  then have "untouched ?R (map_of (ft_records (fold ?f rs ft)) d)" by simp
  with assms(3) show ?thesis by (auto simp: ft_status_def untouched_def not_before_zero split: option.splits)
qed

theorem quarantine_needs_reporters_witness:
  "\<exists>ft. fault_tracker_init 2 (Fin 60) (Fin 60) (Fin 3600) (Fin 30) = Inr ft \<and>
     ft_status (fold (\<lambda>(a, r, t) ft. fst (ft_report ref_env a r t ft))
       [(''d'', ''r'', Fin 1), (''e'', ''d'', Fin 2), (''d'', ''r'', Fin 3)] ft) ''d'' (Fin 4) = HEALTHY"
proof -
  let ?rs = "[(''d'', ''r'', Fin 1), (''e'', ''d'', Fin 2), (''d'', ''r'', Fin 3)]"
  obtain ft where ft: "fault_tracker_init 2 (Fin 60) (Fin 60) (Fin 3600) (Fin 30) = Inr ft" by (simp add: fault_tracker_init_def)
  have "{r. \<exists>t. (''d'', r, t) \<in> set ?rs} = {''r''}" by auto
  then have "ft_status (fold (\<lambda>(a, r, t) ft. fst (ft_report ref_env a r t ft)) ?rs ft) ''d'' (Fin 4) = HEALTHY"
    by (intro quarantine_needs_reporters [OF ft]) simp_all
  with ft show ?thesis by blast
qed

text \<open>The doubling of the cooldown is not capped where it is computed: once a breaker has tripped 1023
  times in a row, the next failed probe, and every later one, raises \<^verbatim>\<open>OverflowError\<close> instead of
  re-opening it, so the breaker stays half-open and traffic keeps flowing to the failed target.\<close>

theorem breaker_overflow:
  assumes "map_of (cb_states cb) key = Some st" "be_open st" "1023 \<le> be_trips st" "\<not> flt now (be_until st)"
  shows "\<exists>msg. snd (cb_failure E key now cb) = Inl (OverflowError msg) \<and>
    cb_available (fst (cb_failure E key now cb)) key now \<and>
    (\<exists>st'. map_of (cb_states (fst (cb_failure E key now cb))) key = Some st' \<and> be_open st' \<and>
       1023 \<le> be_trips st' \<and> be_until st' = be_until st)"
proof -
  have "(2::int) ^ 1024 \<le> 2 ^ Suc (be_trips st)" using assms(3) by (intro power_increasing) simp_all
  then have "\<not> \<bar>(2::int) ^ Suc (be_trips st)\<bar> < float_limit" by (simp add: float_limit_def)
  then have "backoff E c (Suc (be_trips st)) cap = Inl (OverflowError ''int too large to convert to float'')" for c cap
    by (simp add: backoff_def del: power_Suc)
  with assms show ?thesis
    by (simp add: cb_failure_def put_entry_def cb_available_def cb_state_def)
qed

definition tripped_breaker :: circuit_breaker where
  "tripped_breaker = \<lparr>cb_threshold = 3, cb_cooldown = Fin 30, cb_max_cooldown = Fin 600,
     cb_states = [(''node:x'', \<lparr>be_failures = 0, be_trips = 1023, be_until = Fin 100, be_open = True\<rparr>)]\<rparr>"

theorem breaker_overflow_witness:
  "\<exists>msg. snd (cb_failure ref_env ''node:x'' (Fin 100) tripped_breaker) = Inl (OverflowError msg)"
proof -
  have "map_of (cb_states tripped_breaker) ''node:x'' =
      Some \<lparr>be_failures = 0, be_trips = 1023, be_until = Fin 100, be_open = True\<rparr>"
    by (simp add: tripped_breaker_def)
  from breaker_overflow [OF this, of "Fin 100" ref_env] show ?thesis by auto
qed

end
