(* ===== verification/Mesh_Protocol.thy ===== *)
theory Mesh_Protocol
  imports Capability Py_Text
begin

text \<open>
  \<^verbatim>\<open>inference/protocol.py\<close>: the signed objects of the inference mesh (request, decision, response,
  heartbeat, advisory, fault report), how they are made and how they are checked.

  A check returns None or the reason it refuses, and may raise: \<^verbatim>\<open>math.isfinite\<close> raises
  \<^verbatim>\<open>OverflowError\<close> on an integer too large for a float, and membership of an unhashable value in a
  \<^verbatim>\<open>frozenset\<close> raises \<^verbatim>\<open>TypeError\<close>. Reasons that quote a bound are shortened. The regular
  expressions end in \<^verbatim>\<open>$\<close>, which also matches before a final newline, and so does the model. Frames are
  not modelled (they are JSON text); a random request id is an argument of \<^verbatim>\<open>make_request\<close>, the clock an
  argument everywhere.
\<close>

section \<open>Constants and trust roots\<close>

definition REQUEST :: string where "REQUEST = ''secdogie/inference/request/v1''"
definition DECISION :: string where "DECISION = ''secdogie/inference/decision/v1''"
definition RESPONSE :: string where "RESPONSE = ''secdogie/inference/response/v1''"
definition HEARTBEAT :: string where "HEARTBEAT = ''secdogie/inference/heartbeat/v1''"
definition ADVISORY :: string where "ADVISORY = ''secdogie/inference/advisory/v1''"
definition FAULT :: string where "FAULT = ''secdogie/inference/fault/v1''"

definition MESH_ROLES :: "string list" where
  "MESH_ROLES = [''serve'', ''forward'', ''model'', ''coordinator'', ''broker'']"

definition TRANSIT_ROLES :: "string list" where
  "TRANSIT_ROLES = [''serve'', ''forward'']"

definition MODES :: "string list" where
  "MODES = [''normal'', ''degraded'', ''lockdown'']"

abbreviation MODE_LOCKDOWN :: string where "MODE_LOCKDOWN \<equiv> ''lockdown''"
abbreviation VIA_MESH :: string where "VIA_MESH \<equiv> ''mesh''"
abbreviation VIA_CENTRAL :: string where "VIA_CENTRAL \<equiv> ''central''"
abbreviation STATUS_OK :: string where "STATUS_OK \<equiv> ''ok''"
abbreviation STATUS_REFUSED :: string where "STATUS_REFUSED \<equiv> ''refused''"

definition FAULT_REASONS :: "string list" where
  "FAULT_REASONS = [''timeout'', ''invalid'', ''divergent'']"

definition MAX_INPUT :: nat where "MAX_INPUT = 8000"
definition MAX_OUTPUT :: nat where "MAX_OUTPUT = 8000"
definition MAX_REASON :: nat where "MAX_REASON = 200"
definition MAX_MODELS :: nat where "MAX_MODELS = 4"
definition MAX_QUORUM :: nat where "MAX_QUORUM = 3"
definition LOCKDOWN_QUORUM :: int where "LOCKDOWN_QUORUM = 2"
definition MAX_HOPS :: nat where "MAX_HOPS = 8"
definition MAX_ATTEMPTS :: int where "MAX_ATTEMPTS = 3"
definition MAX_TTL :: pyfloat where "MAX_TTL = Fin 300"
definition MAX_SKEW :: pyfloat where "MAX_SKEW = Fin 120"
definition MAX_NEIGHBORS :: nat where "MAX_NEIGHBORS = 32"
definition MAX_LEASES :: nat where "MAX_LEASES = 4"
definition MAX_LISTED :: nat where "MAX_LISTED = 64"

definition any_of :: "trust list \<Rightarrow> trust" where
  "any_of sets did \<longleftrightarrow> list_ex (\<lambda>s. s did) sets"

record trust_roots =
  tr_mesh :: trust
  tr_users :: trust
  tr_deciders :: trust
  tr_coordinators :: trust
  tr_brokers :: trust
  tr_operators :: trust

definition trust_roots_new ::
  "trust option \<Rightarrow> trust option \<Rightarrow> trust option \<Rightarrow> trust option \<Rightarrow> trust option \<Rightarrow> trust option \<Rightarrow> trust_roots res" where
  "trust_roots_new mesh users deciders coordinators brokers operators =
     rbind (require_trust mesh ''TrustRoots.mesh'') (\<lambda>m.
     rbind (require_trust users ''TrustRoots.users'') (\<lambda>u.
     rbind (require_trust deciders ''TrustRoots.deciders'') (\<lambda>d.
     rbind (require_trust coordinators ''TrustRoots.coordinators'') (\<lambda>c.
     rbind (require_trust brokers ''TrustRoots.brokers'') (\<lambda>b.
     rbind (require_trust operators ''TrustRoots.operators'') (\<lambda>op.
       Inr \<lparr>tr_mesh = m, tr_users = u, tr_deciders = d, tr_coordinators = c, tr_brokers = b, tr_operators = op\<rparr>))))))"

definition tr_peers :: "trust_roots \<Rightarrow> trust" where
  "tr_peers tr = any_of [tr_mesh tr, tr_users tr]"

section \<open>Helpers\<close>

definition digest :: "env \<Rightarrow> json \<Rightarrow> string" where
  "digest E v = hexdigest E (canonical E v)"

definition text_hash :: "env \<Rightarrow> string \<Rightarrow> string" where
  "text_hash E s = hexdigest E s"

fun fin_num :: "json \<Rightarrow> bool res" where
  "fin_num (JInt n) =
     (if \<bar>n\<bar> < float_limit then Inr True else Inl (OverflowError ''int too large to convert to float''))"
| "fin_num (JFloat f) = Inr (is_finite f)"
| "fin_num _ = Inr False"

text \<open>The value of a number.\<close>

definition numv :: "json \<Rightarrow> pyfloat" where
  "numv v = (case num_of v of Some f \<Rightarrow> f | None \<Rightarrow> NaN)"

definition is_did :: "json \<Rightarrow> bool" where
  "is_did v = (case v of JStr s \<Rightarrow> (case pubkey_from_did s of Inr _ \<Rightarrow> True | Inl _ \<Rightarrow> False) | _ \<Rightarrow> False)"

text \<open>\<^verbatim>\<open>re.match("^[...]{lo,hi}$", s)\<close>\<close>

definition re_class :: "(char \<Rightarrow> bool) \<Rightarrow> nat \<Rightarrow> nat \<Rightarrow> string \<Rightarrow> bool" where
  "re_class P lo hi s \<longleftrightarrow>
     (let exact = (\<lambda>t. lo \<le> length t \<and> length t \<le> hi \<and> list_all P t)
      in exact s \<or> s \<noteq> [] \<and> last s = CHR 0x0A \<and> exact (butlast s))"

definition model_char :: "char \<Rightarrow> bool" where
  "model_char c \<longleftrightarrow> is_digit c \<or> 65 \<le> (of_char c :: nat) \<and> (of_char c :: nat) \<le> 90 \<or>
     97 \<le> (of_char c :: nat) \<and> (of_char c :: nat) \<le> 122 \<or> c \<in> set ''._:/@+-''"

definition hex_char :: "char \<Rightarrow> bool" where
  "hex_char c \<longleftrightarrow> is_digit c \<or> 97 \<le> (of_char c :: nat) \<and> (of_char c :: nat) \<le> 102"

definition is_model :: "json \<Rightarrow> bool" where
  "is_model v = (case v of JStr s \<Rightarrow> re_class model_char 1 128 s | _ \<Rightarrow> False)"

definition is_hex64 :: "json \<Rightarrow> bool" where
  "is_hex64 v = (case v of JStr s \<Rightarrow> re_class hex_char 64 64 s | _ \<Rightarrow> False)"

definition is_hex32 :: "json \<Rightarrow> bool" where
  "is_hex32 v = (case v of JStr s \<Rightarrow> re_class hex_char 32 32 s | _ \<Rightarrow> False)"

text \<open>A list of strings with \<^verbatim>\<open>sorted(set(v)) == v\<close>.\<close>

definition sorted_strings :: "json list \<Rightarrow> bool" where
  "sorted_strings vs = (case strings_of vs of Some ss \<Rightarrow> sorted_set ss = ss | None \<Rightarrow> False)"

text \<open>\<^verbatim>\<open>sorted(set(v))\<close> of arbitrary values: it raises on an unhashable element and when elements of
  different kinds would have to be compared; otherwise it is the sorted strings, or a list of non-strings
  (None).\<close>

definition sort_hashable :: "json list \<Rightarrow> string list option res" where
  "sort_hashable vs =
     (if list_ex (\<lambda>v. as_list v \<noteq> None \<or> as_obj v \<noteq> None) vs then Inl (TypeError ''unhashable type'')
      else case strings_of vs of
        Some ss \<Rightarrow> Inr (Some (sorted_set ss))
      | None \<Rightarrow> if list_all (\<lambda>v. num_of v \<noteq> None) vs \<or> list_all (\<lambda>v. v = JNull) vs then Inr None
                else Inl (TypeError ''not supported between instances''))"

definition did_list :: "json \<Rightarrow> nat \<Rightarrow> bool" where
  "did_list v limit = (case v of JList vs \<Rightarrow> length vs \<le> limit \<and> list_all is_did vs \<and> sorted_strings vs | _ \<Rightarrow> False)"

fun did_pair :: "json \<Rightarrow> bool" where
  "did_pair (JList [a, b]) = (is_did a \<and> is_did b \<and> a \<noteq> b)"
| "did_pair _ = False"

definition pair_list :: "json \<Rightarrow> nat \<Rightarrow> bool" where
  "pair_list v limit = (case v of JList vs \<Rightarrow> length vs \<le> limit \<and> list_all did_pair vs | _ \<Rightarrow> False)"

text \<open>\<^verbatim>\<open>v in frozenset\<close> of strings.\<close>

fun in_frozenset :: "json \<Rightarrow> string list \<Rightarrow> bool res" where
  "in_frozenset (JStr s) S = Inr (s \<in> set S)"
| "in_frozenset (JList _) S = Inl (TypeError ''unhashable type'')"
| "in_frozenset (JObj _) S = Inl (TypeError ''unhashable type'')"
| "in_frozenset _ S = Inr False"

definition signed_by :: "env \<Rightarrow> json \<Rightarrow> string \<Rightarrow> string \<Rightarrow> trust \<Rightarrow> string option" where
  "signed_by E v ty field c =
     (case v of
        JObj d \<Rightarrow>
          if pget d ''type'' \<noteq> JStr ty then Some ''wrong or missing type''
          else (case verify_payload E v (Some c) of
                  (False, Some _) \<Rightarrow> Some ''signer not trusted''
                | (False, None) \<Rightarrow> Some ''invalid or missing signature''
                | (True, signer) \<Rightarrow>
                    if pget d field \<noteq> JStr (the signer) then Some (field @ '' is not the signer'') else None)
      | _ \<Rightarrow> Some ''wrong or missing type'')"

text \<open>A check as a chain of early returns, and \<^verbatim>\<open>signed_by(...) or shape(...)\<close>.\<close>

definition reasons :: "string exit + unit \<Rightarrow> string option res" where
  "reasons m = finish Some (rbind m (\<lambda>_. Inr None))"

definition or_reason :: "string option res \<Rightarrow> string option res \<Rightarrow> string option res" where
  "or_reason a b = rbind a (\<lambda>r. case r of None \<Rightarrow> b | Some x \<Rightarrow> Inr (Some x))"

definition obj_of :: "json \<Rightarrow> obj" where
  "obj_of v = (case v of JObj d \<Rightarrow> d | _ \<Rightarrow> [])"

definition need_num :: "json \<Rightarrow> string \<Rightarrow> string exit + unit" where
  "need_num v reason = rbind (raises (fin_num v)) (\<lambda>b. need b reason)"

section \<open>Requests\<close>

text \<open>The loop over the pins: each a provider and one of the request's models, no provider twice.\<close>

fun pins_shape :: "json list \<Rightarrow> json list \<Rightarrow> json list \<Rightarrow> string exit + unit" where
  "pins_shape models [] pinned = Inr ()"
| "pins_shape models (JList [p, m] # pins) pinned =
     (if \<not> (is_did p \<and> m \<in> set models) then Inl (Return ''a pin must be [provider DID, one of the models of the request]'')
      else if p \<in> set pinned then Inl (Return ''a provider is pinned twice'')
      else pins_shape models pins (p # pinned))"
| "pins_shape models (_ # pins) pinned = Inl (Return ''a pin must be [provider DID, one of the models of the request]'')"

definition request_shape :: "obj \<Rightarrow> string option res" where
  "request_shape d = reasons (
     rbind (need (is_hex32 (pget d ''req_id'')) ''bad req_id'') (\<lambda>_.
     rbind (some_or (as_list (pget d ''models'')) ''bad number of models'') (\<lambda>models.
     rbind (need (1 \<le> length models \<and> length models \<le> MAX_MODELS) ''bad number of models'') (\<lambda>_.
     rbind (need (list_all is_model models \<and> sorted_strings models) ''bad model list'') (\<lambda>_.
     rbind (need (case pget d ''input'' of JStr s \<Rightarrow> str_len s \<le> MAX_INPUT | _ \<Rightarrow> False) ''input missing or too long'') (\<lambda>_.
     rbind (some_or (as_list (pget d ''scopes'')) ''bad scopes'') (\<lambda>scopes.
     rbind (need (sorted_strings scopes) ''bad scopes'') (\<lambda>_.
     rbind (need (list_all (\<lambda>s. s \<in> JStr ` set GRANTABLE_SCOPES) scopes) ''a scope is not grantable'') (\<lambda>_.
     rbind (some_or (as_int (pget d ''quorum'')) ''bad quorum'') (\<lambda>quorum.
     rbind (need (1 \<le> quorum \<and> quorum \<le> int MAX_QUORUM) ''bad quorum'') (\<lambda>_.
     rbind (some_or (as_list (pget d ''pins'')) ''bad pins'') (\<lambda>pins.
     rbind (need (length pins \<le> MAX_QUORUM) ''bad pins'') (\<lambda>_.
     rbind (pins_shape models pins []) (\<lambda>_.
     rbind (need (pins = [] \<or> quorum \<le> int (length pins)) ''fewer pins than the quorum'') (\<lambda>_.
     let iss = pget d ''issued_at''; ex = pget d ''expires_at'' in
     rbind (need_num iss ''bad validity window'') (\<lambda>_.
     rbind (need_num ex ''bad validity window'') (\<lambda>_.
       need (flt (Fin 0) (fsub (numv ex) (numv iss)) \<and> fle (fsub (numv ex) (numv iss)) MAX_TTL) ''bad validity window'')))))))))))))))))"

definition request_evidence_ok :: "env \<Rightarrow> json \<Rightarrow> trust_roots \<Rightarrow> bool res" where
  "request_evidence_ok E v tr =
     rbind (or_reason (Inr (signed_by E v REQUEST ''user'' (tr_users tr))) (request_shape (obj_of v))) (\<lambda>r. Inr (r = None))"

definition check_request :: "env \<Rightarrow> json \<Rightarrow> trust_roots \<Rightarrow> pyfloat \<Rightarrow> string option res" where
  "check_request E v tr now =
     or_reason (or_reason (Inr (signed_by E v REQUEST ''user'' (tr_users tr))) (request_shape (obj_of v)))
       (Inr (if flt (fadd now MAX_SKEW) (numv (pget (obj_of v) ''issued_at'')) then Some ''issued in the future''
             else if fle (numv (pget (obj_of v) ''expires_at'')) now then Some ''expired'' else None))"

definition make_request ::
  "env \<Rightarrow> identity \<Rightarrow> string \<Rightarrow> string list \<Rightarrow> string \<Rightarrow> string list \<Rightarrow> int \<Rightarrow> (did \<times> string) list \<Rightarrow> pyfloat \<Rightarrow> pyfloat \<Rightarrow> obj res" where
  "make_request E seed req_id models txt_in scopes quorum pins ttl now =
     rbind (identity_did E seed) (\<lambda>did.
     let body = [(''type'', JStr REQUEST), (''req_id'', JStr req_id), (''user'', JStr did),
                 (''models'', JList (map JStr (sorted_set models))), (''input'', JStr txt_in),
                 (''scopes'', JList (map JStr (sorted_set scopes))), (''quorum'', JInt quorum),
                 (''pins'', JList (map (\<lambda>(p, m). JList [JStr p, JStr m]) pins)),
                 (''issued_at'', JFloat now), (''expires_at'', JFloat (fadd now ttl))]
     in rbind (request_shape body) (\<lambda>r.
          case r of Some reason \<Rightarrow> Inl (ValueError reason) | None \<Rightarrow> sign_payload E seed body))"

section \<open>Decisions\<close>

record leg =
  l_provider :: did
  l_model :: string
  l_path :: "did list"
  l_via :: string

definition to_wire :: "leg \<Rightarrow> json" where
  "to_wire l = JObj [(''provider'', JStr (l_provider l)), (''model'', JStr (l_model l)),
     (''path'', JList (map JStr (l_path l))), (''via'', JStr (l_via l))]"

definition from_wire :: "json \<Rightarrow> leg option" where
  "from_wire v =
     (case v of
        JObj d \<Rightarrow>
          (case (pget d ''provider'', pget d ''model'', pget d ''path'', pget d ''via'') of
             (JStr p, JStr m, JList ps, JStr via) \<Rightarrow>
               (case strings_of ps of
                  Some path \<Rightarrow> Some \<lparr>l_provider = p, l_model = m, l_path = path, l_via = via\<rparr>
                | None \<Rightarrow> None)
           | _ \<Rightarrow> None)
      | _ \<Rightarrow> None)"

lemma from_to_wire: "from_wire (to_wire l) = Some l"
  by (simp add: from_wire_def to_wire_def pget_def)

definition interior :: "leg \<Rightarrow> did list" where
  "interior l = butlast (tl (l_path l))"

definition make_decision :: "env \<Rightarrow> identity \<Rightarrow> obj \<Rightarrow> leg list \<Rightarrow> string \<Rightarrow> int \<Rightarrow> int \<Rightarrow> pyfloat \<Rightarrow> obj res" where
  "make_decision E seed request legs mode epoch attempt now =
     rbind (identity_did E seed) (\<lambda>did.
       sign_payload E seed
         [(''type'', JStr DECISION), (''request_hash'', JStr (digest E (JObj request))), (''decider'', JStr did),
          (''mode'', JStr mode), (''epoch'', JInt epoch), (''attempt'', JInt attempt),
          (''legs'', JList (map to_wire legs)), (''issued_at'', JFloat now)])"

definition leg_shape :: "trust_roots \<Rightarrow> json \<Rightarrow> json \<Rightarrow> did list \<Rightarrow> string exit + did" where
  "leg_shape tr decider v providers =
     rbind (some_or (as_obj v) ''bad leg'') (\<lambda>l.
     rbind (need (is_did (pget l ''provider'') \<and> is_model (pget l ''model'')) ''bad leg'') (\<lambda>_.
     rbind (some_or (as_str (pget l ''provider'')) ''bad leg'') (\<lambda>provider.
     rbind (some_or (case pget l ''path'' of JList ps \<Rightarrow> strings_of ps | _ \<Rightarrow> None) ''bad leg path'') (\<lambda>path.
     rbind (need (2 \<le> length path \<and> length path \<le> MAX_HOPS \<and> list_all (\<lambda>d. is_did (JStr d)) path) ''bad leg path'') (\<lambda>_.
     rbind (need (distinct path) ''a leg path visits a node twice'') (\<lambda>_.
     rbind (need (JStr (hd path) = decider \<and> last path = provider) ''a leg path must run from the decider to its provider'') (\<lambda>_.
     rbind (if pget l ''via'' = JStr VIA_CENTRAL
            then need (length path = 3 \<and> tr_coordinators tr (path ! 1)) ''a central leg is decider -> coordinator -> provider''
            else if pget l ''via'' = JStr VIA_MESH
            then need (\<not> list_ex (tr_coordinators tr) (butlast (tl path))) ''a mesh leg does not pass through the coordinator''
            else Inl (Return ''unknown via'')) (\<lambda>_.
     rbind (need (provider \<notin> set providers) ''a provider appears on two legs'') (\<lambda>_.
       Inr provider)))))))))"

fun legs_shape :: "trust_roots \<Rightarrow> json \<Rightarrow> json list \<Rightarrow> did list \<Rightarrow> string exit + unit" where
  "legs_shape tr decider [] providers = Inr ()"
| "legs_shape tr decider (v # vs) providers =
     rbind (leg_shape tr decider v providers) (\<lambda>p. legs_shape tr decider vs (p # providers))"

definition decision_shape :: "obj \<Rightarrow> trust_roots \<Rightarrow> string option res" where
  "decision_shape d tr = reasons (
     rbind (raises (in_frozenset (pget d ''mode'') MODES)) (\<lambda>known.
     rbind (need known ''unknown mode'') (\<lambda>_.
     rbind (need (is_hex64 (pget d ''request_hash'')) ''bad request_hash'') (\<lambda>_.
     rbind (some_or (as_int (pget d ''epoch'')) ''bad epoch'') (\<lambda>epoch.
     rbind (need (0 \<le> epoch) ''bad epoch'') (\<lambda>_.
     rbind (some_or (as_int (pget d ''attempt'')) ''bad attempt'') (\<lambda>attempt.
     rbind (need (0 \<le> attempt \<and> attempt < MAX_ATTEMPTS) ''bad attempt'') (\<lambda>_.
     rbind (need_num (pget d ''issued_at'') ''bad issued_at'') (\<lambda>_.
     rbind (some_or (as_list (pget d ''legs'')) ''bad number of legs'') (\<lambda>legs.
     rbind (need (1 \<le> length legs \<and> length legs \<le> MAX_QUORUM) ''bad number of legs'') (\<lambda>_.
       legs_shape tr (pget d ''decider'') legs [])))))))))))"

definition check_decision :: "env \<Rightarrow> json \<Rightarrow> trust_roots \<Rightarrow> obj option \<Rightarrow> string option res" where
  "check_decision E v tr request =
     (let mode = (case v of JObj d \<Rightarrow> pget d ''mode'' | _ \<Rightarrow> JNull);
          signers = (if mode = JStr MODE_LOCKDOWN then tr_mesh tr else tr_deciders tr)
      in or_reason (or_reason (Inr (signed_by E v DECISION ''decider'' signers)) (decision_shape (obj_of v) tr))
           (Inr (case request of
                   None \<Rightarrow> None
                 | Some req \<Rightarrow> if pget (obj_of v) ''request_hash'' \<noteq> JStr (digest E (JObj req))
                               then Some ''decision is for a different request'' else None)))"

text \<open>What a decision does against a request, over the fields the two shape checks have established: the
  mode and legs of the decision, the quorum, models and pins of the request.\<close>

definition violations :: "string \<Rightarrow> leg list \<Rightarrow> int \<Rightarrow> string list \<Rightarrow> (did \<times> string) list \<Rightarrow> string list" where
  "violations mode legs quorum models pins =
     (let needed = (if mode = MODE_LOCKDOWN then max quorum LOCKDOWN_QUORUM else quorum) in
      (if int (length legs) < needed then [''quorum-downgrade''] else []) @
      (if list_ex (\<lambda>l. l_model l \<notin> set models) legs then [''model-substitution''] else []) @
      (if pins \<noteq> [] \<and> (\<lambda>l. (l_provider l, l_model l)) ` set legs \<noteq> set pins then [''pin-violation''] else []) @
      (if mode = MODE_LOCKDOWN \<and> list_ex (\<lambda>l. l_via l \<noteq> VIA_MESH \<or> length (l_path l) \<noteq> 2) legs
       then [''lockdown-shape''] else []))"

text \<open>The typed fields of objects that passed their shape checks; on others the model raises.\<close>

fun pin_of :: "json \<Rightarrow> (did \<times> string) option" where
  "pin_of (JList [JStr p, JStr m]) = Some (p, m)"
| "pin_of _ = None"

definition request_fields :: "obj \<Rightarrow> (int \<times> string list \<times> (did \<times> string) list) option" where
  "request_fields d =
     (case (pget d ''quorum'', pget d ''models'', pget d ''pins'') of
        (JInt q, JList ms, JList ps) \<Rightarrow>
          (case (strings_of ms, those (map pin_of ps)) of (Some models, Some pins) \<Rightarrow> Some (q, models, pins) | _ \<Rightarrow> None)
      | _ \<Rightarrow> None)"

definition decision_fields :: "obj \<Rightarrow> (string \<times> leg list) option" where
  "decision_fields d =
     (case (pget d ''mode'', pget d ''legs'') of
        (JStr mode, JList ls) \<Rightarrow> (case those (map from_wire ls) of Some legs \<Rightarrow> Some (mode, legs) | None \<Rightarrow> None)
      | _ \<Rightarrow> None)"

definition decision_violations :: "obj \<Rightarrow> obj \<Rightarrow> string list res" where
  "decision_violations decision request =
     (case (decision_fields decision, request_fields request) of
        (Some (mode, legs), Some (q, models, pins)) \<Rightarrow> Inr (violations mode legs q models pins)
      | _ \<Rightarrow> Inl (TypeError ''malformed decision or request''))"

definition routed_through :: "obj \<Rightarrow> did list \<Rightarrow> did list res" where
  "routed_through decision dids =
     (case decision_fields decision of
        Some (_, legs) \<Rightarrow> Inr (sorted_set (filter (\<lambda>d. d \<in> set dids) (concat (map (\<lambda>l. tl (l_path l)) legs))))
      | None \<Rightarrow> Inl (TypeError ''malformed decision''))"

section \<open>Responses\<close>

definition response_shape :: "obj \<Rightarrow> string option res" where
  "response_shape d = reasons (
     rbind (need (is_hex64 (pget d ''request_hash'') \<and> is_hex64 (pget d ''decision_hash'')) ''bad hashes'') (\<lambda>_.
     rbind (need (is_model (pget d ''model'') \<and> as_obj (pget d ''lease'') \<noteq> None) ''bad model or lease'') (\<lambda>_.
     rbind (need (pget d ''status'' = JStr STATUS_OK \<or> pget d ''status'' = JStr STATUS_REFUSED) ''bad status'') (\<lambda>_.
     rbind (some_or (as_str (pget d ''output'')) ''output missing or too long'') (\<lambda>out.
     rbind (need (str_len out \<le> MAX_OUTPUT) ''output missing or too long'') (\<lambda>_.
     rbind (need (\<not> (pget d ''status'' = JStr STATUS_REFUSED \<and> out \<noteq> [])) ''a refusal carries no output'') (\<lambda>_.
     rbind (need (case pget d ''reason'' of JStr s \<Rightarrow> str_len s \<le> MAX_REASON | _ \<Rightarrow> False) ''bad reason'') (\<lambda>_.
       need_num (pget d ''issued_at'') ''bad issued_at''))))))))"

definition check_response :: "env \<Rightarrow> json \<Rightarrow> trust_roots \<Rightarrow> obj option \<Rightarrow> obj option \<Rightarrow> string option res" where
  "check_response E v tr request decision =
     or_reason (or_reason (Inr (signed_by E v RESPONSE ''provider'' (tr_mesh tr))) (response_shape (obj_of v)))
     (let d = obj_of v in
      if request \<noteq> None \<and> pget d ''request_hash'' \<noteq> JStr (digest E (JObj (the request)))
      then Inr (Some ''response is for a different request'')
      else case decision of
        None \<Rightarrow> Inr None
      | Some dec \<Rightarrow>
          if pget d ''decision_hash'' \<noteq> JStr (digest E (JObj dec)) \<or> pget d ''request_hash'' \<noteq> pget dec ''request_hash''
          then Inr (Some ''response is for a different decision'')
          else (case decision_fields dec of
                  None \<Rightarrow> Inl (TypeError ''malformed decision'')
                | Some (_, legs) \<Rightarrow>
                    if list_ex (\<lambda>l. JStr (l_provider l) = pget d ''provider'' \<and> JStr (l_model l) = pget d ''model'') legs
                    then Inr None else Inr (Some ''the decision gave this provider no leg for this model'')))"

definition make_response ::
  "env \<Rightarrow> identity \<Rightarrow> obj \<Rightarrow> obj \<Rightarrow> string \<Rightarrow> obj \<Rightarrow> string \<Rightarrow> string \<Rightarrow> string \<Rightarrow> pyfloat \<Rightarrow> obj res" where
  "make_response E seed request decision model lease output status reason now =
     rbind (identity_did E seed) (\<lambda>did.
     let body = [(''type'', JStr RESPONSE), (''request_hash'', JStr (digest E (JObj request))),
                 (''decision_hash'', JStr (digest E (JObj decision))), (''provider'', JStr did), (''model'', JStr model),
                 (''lease'', JObj lease), (''status'', JStr status),
                 (''output'', JStr (if status = STATUS_OK then output else [])), (''reason'', JStr (str_take MAX_REASON reason)),
                 (''issued_at'', JFloat now)]
     in rbind (response_shape body) (\<lambda>r.
          case r of Some shape \<Rightarrow> Inl (ValueError shape) | None \<Rightarrow> sign_payload E seed body))"

section \<open>Heartbeats, advisories, fault reports\<close>

definition make_heartbeat ::
  "env \<Rightarrow> identity \<Rightarrow> string list \<Rightarrow> int \<Rightarrow> did list \<Rightarrow> pyfloat \<Rightarrow> obj list \<Rightarrow> pyfloat \<Rightarrow> obj res" where
  "make_heartbeat E seed roles seqn neighbors load leases now =
     rbind (identity_did E seed) (\<lambda>did.
     let lo = (if flt load (Fin 0) then Fin 0 else load); bounded = (if flt (Fin 1) lo then Fin 1 else lo)
     in sign_payload E seed
          [(''type'', JStr HEARTBEAT), (''node'', JStr did), (''roles'', JList (map JStr (sorted_set roles))),
           (''seq'', JInt seqn),
           (''neighbors'', JList (map JStr (take MAX_NEIGHBORS (sorted_set (filter (\<lambda>d. d \<noteq> did) neighbors))))),
           (''load'', JFloat bounded), (''leases'', JList (map JObj (take MAX_LEASES leases))), (''issued_at'', JFloat now)])"

definition heartbeat_shape :: "obj \<Rightarrow> pyfloat option \<Rightarrow> string option res" where
  "heartbeat_shape d now = reasons (
     rbind (some_or (as_list (pget d ''roles'')) ''bad roles'') (\<lambda>roles.
     rbind (raises (sort_hashable roles)) (\<lambda>sorted_roles.
     rbind (need (sorted_roles \<noteq> None \<and> roles = map JStr (the sorted_roles) \<and> set (the sorted_roles) \<subseteq> set MESH_ROLES) ''bad roles'') (\<lambda>_.
     rbind (some_or (as_int (pget d ''seq'')) ''bad seq'') (\<lambda>seqn.
     rbind (need (0 \<le> seqn) ''bad seq'') (\<lambda>_.
     rbind (need (did_list (pget d ''neighbors'') MAX_NEIGHBORS) ''bad neighbours'') (\<lambda>_.
     rbind (some_or (as_list (pget d ''neighbors'')) ''bad neighbours'') (\<lambda>neighbors.
     rbind (need (pget d ''node'' \<notin> set neighbors) ''bad neighbours'') (\<lambda>_.
     rbind (need_num (pget d ''load'') ''bad load'') (\<lambda>_.
     rbind (need (fle (Fin 0) (numv (pget d ''load'')) \<and> fle (numv (pget d ''load'')) (Fin 1)) ''bad load'') (\<lambda>_.
     rbind (some_or (as_list (pget d ''leases'')) ''bad leases'') (\<lambda>leases.
     rbind (need (length leases \<le> MAX_LEASES \<and> list_all (\<lambda>x. as_obj x \<noteq> None) leases) ''bad leases'') (\<lambda>_.
     rbind (need_num (pget d ''issued_at'') ''bad issued_at'') (\<lambda>_.
       need (case now of None \<Rightarrow> True | Some t \<Rightarrow> \<not> flt (fadd t MAX_SKEW) (numv (pget d ''issued_at''))) ''issued in the future''))))))))))))))"

definition check_heartbeat :: "env \<Rightarrow> json \<Rightarrow> trust_roots \<Rightarrow> pyfloat option \<Rightarrow> string option res" where
  "check_heartbeat E v tr now =
     or_reason (Inr (signed_by E v HEARTBEAT ''node'' (tr_mesh tr))) (heartbeat_shape (obj_of v) now)"

definition make_advisory ::
  "env \<Rightarrow> identity \<Rightarrow> int \<Rightarrow> did list \<Rightarrow> did list \<Rightarrow> (did \<times> did) list \<Rightarrow> (did \<times> did) list \<Rightarrow> pyfloat \<Rightarrow> obj res" where
  "make_advisory E seed epoch failed quarantined bypass recruit now =
     rbind (identity_did E seed) (\<lambda>did.
       sign_payload E seed
         [(''type'', JStr ADVISORY), (''coordinator'', JStr did), (''epoch'', JInt epoch),
          (''failed'', JList (map JStr (take MAX_LISTED (sorted_set failed)))),
          (''quarantined'', JList (map JStr (take MAX_LISTED (sorted_set quarantined)))),
          (''bypass'', JList (take MAX_LISTED (map (\<lambda>(a, b). JList [JStr a, JStr b]) bypass))),
          (''recruit'', JList (take MAX_LISTED (map (\<lambda>(a, b). JList [JStr a, JStr b]) recruit))),
          (''issued_at'', JFloat now)])"

definition advisory_shape :: "obj \<Rightarrow> pyfloat option \<Rightarrow> string option res" where
  "advisory_shape d now = reasons (
     rbind (some_or (as_int (pget d ''epoch'')) ''bad epoch'') (\<lambda>epoch.
     rbind (need (0 \<le> epoch) ''bad epoch'') (\<lambda>_.
     rbind (need (did_list (pget d ''failed'') MAX_LISTED) ''bad failed list'') (\<lambda>_.
     rbind (need (did_list (pget d ''quarantined'') MAX_LISTED) ''bad quarantined list'') (\<lambda>_.
     rbind (need (pair_list (pget d ''bypass'') MAX_LISTED) ''bad bypass list'') (\<lambda>_.
     rbind (need (pair_list (pget d ''recruit'') MAX_LISTED) ''bad recruit list'') (\<lambda>_.
     rbind (need_num (pget d ''issued_at'') ''bad issued_at'') (\<lambda>_.
       need (case now of None \<Rightarrow> True | Some t \<Rightarrow> \<not> flt (fadd t MAX_SKEW) (numv (pget d ''issued_at''))) ''issued in the future''))))))))"

definition check_advisory :: "env \<Rightarrow> json \<Rightarrow> trust_roots \<Rightarrow> pyfloat option \<Rightarrow> string option res" where
  "check_advisory E v tr now =
     or_reason (Inr (signed_by E v ADVISORY ''coordinator'' (tr_coordinators tr))) (advisory_shape (obj_of v) now)"

definition make_fault :: "env \<Rightarrow> identity \<Rightarrow> did \<Rightarrow> string \<Rightarrow> string \<Rightarrow> pyfloat \<Rightarrow> obj res" where
  "make_fault E seed accused reason request_hash now =
     (if reason \<notin> set FAULT_REASONS then Inl (ValueError ''unknown fault reason'')
      else rbind (identity_did E seed) (\<lambda>did.
        sign_payload E seed
          [(''type'', JStr FAULT), (''reporter'', JStr did), (''accused'', JStr accused), (''reason'', JStr reason),
           (''request_hash'', JStr request_hash), (''issued_at'', JFloat now)]))"

definition fault_shape :: "obj \<Rightarrow> pyfloat \<Rightarrow> string option res" where
  "fault_shape d now = reasons (
     rbind (need (is_did (pget d ''accused'') \<and> pget d ''accused'' \<noteq> pget d ''reporter'') ''bad accused'') (\<lambda>_.
     rbind (raises (in_frozenset (pget d ''reason'') FAULT_REASONS)) (\<lambda>known.
     rbind (need known ''unknown reason'') (\<lambda>_.
     rbind (need (pget d ''request_hash'' = JStr [] \<or> is_hex64 (pget d ''request_hash'')) ''bad request_hash'') (\<lambda>_.
     rbind (need_num (pget d ''issued_at'') ''stale or future report'') (\<lambda>_.
     let age = fsub (numv (pget d ''issued_at'')) now
     in need (\<not> flt MAX_SKEW (if flt age (Fin 0) then fneg age else age)) ''stale or future report''))))))"

definition check_fault :: "env \<Rightarrow> json \<Rightarrow> trust_roots \<Rightarrow> pyfloat \<Rightarrow> string option res" where
  "check_fault E v tr now =
     or_reason (Inr (signed_by E v FAULT ''reporter'' (tr_mesh tr))) (fault_shape (obj_of v) now)"

section \<open>The contract of a check\<close>

lemma reasons_None: "reasons m = Inr None \<longleftrightarrow> m = Inr ()"
  by (auto simp: reasons_def finish_def rbind_def split: sum.splits exit.splits)

lemma or_reason_None [simp]: "or_reason a b = Inr None \<longleftrightarrow> a = Inr None \<and> b = Inr None"
  by (auto simp: or_reason_def rbind_Inr_iff split: option.splits)

lemma signed_by_None:
  "signed_by E v ty field c = None \<longleftrightarrow>
     (\<exists>d did. v = JObj d \<and> map_of d ''type'' = Some (JStr ty) \<and> map_of d field = Some (JStr did) \<and>
        verify_payload E v (Some c) = (True, Some did))"
proof (cases v)
  case (JObj d)
  obtain ok signer where vp: "verify_payload E v (Some c) = (ok, signer)" by (cases "verify_payload E v (Some c)")
  show ?thesis
  proof (cases ok)
    case True
    with vp obtain did where "signer = Some did" by (auto elim: verify_payload_True)
    with JObj vp True show ?thesis by (simp add: signed_by_def pget_eq_JStr split: option.split)
  next
    case False
    with JObj vp show ?thesis by (simp add: signed_by_def split: option.split)
  qed
qed (simp_all add: signed_by_def)

locale mesh_object =
  fixes check :: "env \<Rightarrow> trust_roots \<Rightarrow> json \<Rightarrow> string option res"
    and tag :: string and field :: string
    and who :: "trust_roots \<Rightarrow> trust"
  assumes check_signed: "check E tr v = Inr None \<Longrightarrow> signed_by E v tag field (who tr) = None"
begin

lemma signer:
  assumes "check E tr v = Inr None"
  obtains d did where "v = JObj d" "map_of d ''type'' = Some (JStr tag)" "map_of d field = Some (JStr did)"
    "verify_payload E v (Some (who tr)) = (True, Some did)" "who tr did"
  using check_signed [OF assms] by (auto simp: signed_by_None verify_payload_True_iff)

lemma authentic:
  assumes "float_repr_ok E" "check E tr (JObj d) = Inr None" "map_of d field = Some (JStr did)"
    "pubkey_from_did did = Inr pk" "unforgeable E pk ((\<lambda>p. canonical E (JObj p)) ` P)"
    "\<forall>p\<in>P. distinct (map fst p)" "distinct (map fst d)"
  shows "\<exists>p\<in>P. \<forall>k. k \<noteq> ''signer'' \<longrightarrow> k \<noteq> ''sig'' \<longrightarrow>
    map_option sort_keys (map_of d k) = map_option sort_keys (map_of p k)"
proof -
  from assms(2,3) have "verify_payload E (JObj d) (Some (who tr)) = (True, Some did)" by (auto elim: signer)
  from verified_fields [OF assms(1) this assms(4-7)] show ?thesis .
qed

end

interpretation request: mesh_object "\<lambda>E tr v. check_request E v tr now" REQUEST "''user''" tr_users for now
  by unfold_locales (simp add: check_request_def)

interpretation response: mesh_object "\<lambda>E tr v. check_response E v tr req dec" RESPONSE "''provider''" tr_mesh for req dec
  by unfold_locales (simp add: check_response_def)

interpretation heartbeat: mesh_object "\<lambda>E tr v. check_heartbeat E v tr now" HEARTBEAT "''node''" tr_mesh for now
  by unfold_locales (simp add: check_heartbeat_def)

interpretation advisory: mesh_object "\<lambda>E tr v. check_advisory E v tr now" ADVISORY "''coordinator''" tr_coordinators for now
  by unfold_locales (simp add: check_advisory_def)

interpretation fault: mesh_object "\<lambda>E tr v. check_fault E v tr now" FAULT "''reporter''" tr_mesh for now
  by unfold_locales (simp add: check_fault_def)

lemma check_decision_signed:
  assumes "check_decision E v tr req = Inr None"
  shows "signed_by E v DECISION ''decider''
    (if (case v of JObj d \<Rightarrow> pget d ''mode'' | _ \<Rightarrow> JNull) = JStr MODE_LOCKDOWN then tr_mesh tr else tr_deciders tr) = None"
    "decision_shape (obj_of v) tr = Inr None"
  using assms by (auto simp: check_decision_def Let_def)

interpretation decision: mesh_object "\<lambda>E tr v. check_decision E v tr req" DECISION "''decider''"
  "\<lambda>tr did. tr_mesh tr did \<or> tr_deciders tr did" for req
proof unfold_locales
  fix E tr v
  assume c: "check_decision E v tr req = Inr None"
  then show "signed_by E v DECISION ''decider'' (\<lambda>did. tr_mesh tr did \<or> tr_deciders tr did) = None"
    using check_decision_signed(1) [OF c] by (auto simp: signed_by_None verify_payload_True_iff split: if_splits)
qed

end
