(* ===== verification/Lease.thy ===== *)
theory Lease
  imports Mesh_Protocol "HOL-Library.Product_Lexorder"
begin

text \<open>
  \<^verbatim>\<open>inference/lease.py\<close>: public key leases, the opened grant, lease revocations, the book of leases a
  participant keeps, and the in-memory key source. PyNaCl's sealed box and the JSON text inside it are not
  modelled: \<open>open_inner\<close> is \<^verbatim>\<open>open_grant\<close> from the decrypted and parsed body on (None when either
  failed). Random canaries are arguments.
\<close>

definition LEASE :: string where "LEASE = ''secdogie/inference/lease/v1''"
definition LEASE_REVOCATION :: string where "LEASE_REVOCATION = ''secdogie/inference/lease-revocation/v1''"
definition CANARY_PREFIX :: string where "CANARY_PREFIX = ''sdgc_''"
definition MAX_REVOKED_LEASES :: nat where "MAX_REVOKED_LEASES = 64"

text \<open>A canary token at the head of a text: the prefix and 32 lower-case hexadecimal digits.\<close>

definition canary_at :: "string \<Rightarrow> bool" where
  "canary_at s \<longleftrightarrow> starts_with s CANARY_PREFIX \<and> length (take 32 (drop 5 s)) = 32 \<and> list_all hex_char (take 32 (drop 5 s))"

definition is_canary :: "string \<Rightarrow> bool" where
  "is_canary s \<longleftrightarrow> canary_at s \<and> length s = 37"

definition canary_hash :: "env \<Rightarrow> string \<Rightarrow> string" where
  "canary_hash E canary = hexdigest E canary"

record lease_secret =
  ls_lease :: obj
  ls_secret :: string
  ls_canary :: string

section \<open>The public lease\<close>

definition lease_body :: "obj \<Rightarrow> obj" where
  "lease_body d = filter (\<lambda>(k, v). k \<notin> {''lease_id'', ''signer'', ''sig''}) d"

definition lease_shape :: "env \<Rightarrow> obj \<Rightarrow> string option res" where
  "lease_shape E d = reasons (
     rbind (need (is_did (pget d ''subject'') \<and> is_model (pget d ''model'')) ''bad subject or model'') (\<lambda>_.
     rbind (some_or (as_int (pget d ''key_version'')) ''bad key_version'') (\<lambda>kv.
     rbind (need (0 \<le> kv) ''bad key_version'') (\<lambda>_.
     rbind (need_num (pget d ''valid_from'') ''bad validity window'') (\<lambda>_.
     rbind (need_num (pget d ''expires_at'') ''bad validity window'') (\<lambda>_.
     rbind (need (\<not> fle (numv (pget d ''expires_at'')) (numv (pget d ''valid_from''))) ''bad validity window'') (\<lambda>_.
     rbind (need (is_hex64 (pget d ''canary_hash'')) ''bad canary_hash'') (\<lambda>_.
       need (is_hex32 (pget d ''lease_id'') \<and> pget d ''lease_id'' = JStr (take 32 (digest E (JObj (lease_body d)))))
         ''lease_id does not commit to the lease''))))))))"

definition make_lease ::
  "env \<Rightarrow> identity \<Rightarrow> did \<Rightarrow> string \<Rightarrow> int \<Rightarrow> string \<Rightarrow> pyfloat \<Rightarrow> pyfloat \<Rightarrow> obj res" where
  "make_lease E broker subject model key_version canary ttl now =
     rbind (identity_did E broker) (\<lambda>did.
     let body = [(''type'', JStr LEASE), (''broker'', JStr did), (''subject'', JStr subject), (''model'', JStr model),
                 (''key_version'', JInt key_version), (''valid_from'', JFloat now), (''expires_at'', JFloat (fadd now ttl)),
                 (''canary_hash'', JStr (canary_hash E canary))];
         full = dset ''lease_id'' (JStr (take 32 (digest E (JObj body)))) body
     in rbind (lease_shape E full) (\<lambda>r.
          case r of Some reason \<Rightarrow> Inl (ValueError reason) | None \<Rightarrow> sign_payload E broker full))"

definition check_lease :: "env \<Rightarrow> json \<Rightarrow> trust_roots \<Rightarrow> string option res" where
  "check_lease E v tr =
     or_reason (or_reason (Inr (signed_by E v LEASE ''broker'' (tr_brokers tr))) (lease_shape E (obj_of v)))
       (Inr (case pget (obj_of v) ''subject'' of
               JStr s \<Rightarrow> if tr_mesh tr s then None else Some ''the lease is for a node outside the mesh''
             | _ \<Rightarrow> Some ''the lease is for a node outside the mesh''))"

section \<open>The grant\<close>

definition open_inner :: "env \<Rightarrow> obj \<Rightarrow> json option \<Rightarrow> lease_secret option" where
  "open_inner E lease inner =
     (case inner of
        Some (JObj d) \<Rightarrow>
          if \<not> py_eq (pget d ''lease_id'') (pget lease ''lease_id'') then None
          else (case (pget d ''secret'', pget d ''canary'') of
                  (JStr secret, JStr canary) \<Rightarrow>
                    if secret = [] then None
                    else if \<not> is_canary canary \<or> pget lease ''canary_hash'' \<noteq> JStr (canary_hash E canary) then None
                    else Some \<lparr>ls_lease = lease, ls_secret = secret, ls_canary = canary\<rparr>
                | _ \<Rightarrow> None)
      | _ \<Rightarrow> None)"

section \<open>Lease revocations\<close>

definition make_lease_revocation :: "env \<Rightarrow> identity \<Rightarrow> string list \<Rightarrow> string \<Rightarrow> pyfloat \<Rightarrow> obj res" where
  "make_lease_revocation E broker lease_ids reason now =
     (let ids = sorted_set lease_ids
      in if \<not> (1 \<le> length ids \<and> length ids \<le> MAX_REVOKED_LEASES) then Inl (ValueError ''a lease revocation names 1..64 leases'')
         else rbind (identity_did E broker) (\<lambda>did.
           sign_payload E broker
             [(''type'', JStr LEASE_REVOCATION), (''broker'', JStr did), (''lease_ids'', JList (map JStr ids)),
              (''reason'', JStr (str_take MAX_REASON reason)), (''issued_at'', JFloat now)]))"

definition revocation_shape :: "obj \<Rightarrow> string option res" where
  "revocation_shape d = reasons (
     rbind (some_or (as_list (pget d ''lease_ids'')) ''bad lease_ids'') (\<lambda>ids.
     rbind (need (1 \<le> length ids \<and> length ids \<le> MAX_REVOKED_LEASES) ''bad lease_ids'') (\<lambda>_.
     rbind (raises (sort_hashable ids)) (\<lambda>sorted_ids.
     rbind (need (sorted_ids \<noteq> None \<and> ids = map JStr (the sorted_ids) \<and> list_all is_hex32 ids) ''bad lease_ids'') (\<lambda>_.
     rbind (need (is_str (pget d ''reason'')) ''bad revocation'') (\<lambda>_.
       need_num (pget d ''issued_at'') ''bad revocation''))))))"

definition check_lease_revocation :: "env \<Rightarrow> json \<Rightarrow> trust_roots \<Rightarrow> string option res" where
  "check_lease_revocation E v tr =
     or_reason (Inr (signed_by E v LEASE_REVOCATION ''broker'' (tr_brokers tr))) (revocation_shape (obj_of v))"

section \<open>The book\<close>

record lease_book =
  lb_trust :: trust_roots
  lb_leases :: "(string, obj) dict"
  lb_revoked :: "string set"

definition lease_book_init :: "trust_roots \<Rightarrow> lease_book" where
  "lease_book_init tr = \<lparr>lb_trust = tr, lb_leases = [], lb_revoked = {}\<rparr>"

definition strv :: "json \<Rightarrow> string" where
  "strv v = (case v of JStr s \<Rightarrow> s | _ \<Rightarrow> [])"

definition lease_id :: "obj \<Rightarrow> string" where
  "lease_id lease = strv (pget lease ''lease_id'')"

definition lb_add :: "env \<Rightarrow> json \<Rightarrow> lease_book \<Rightarrow> lease_book \<times> bool res" where
  "lb_add E lease lb =
     (case check_lease E lease (lb_trust lb) of
        Inl e \<Rightarrow> (lb, Inl e)
      | Inr (Some _) \<Rightarrow> (lb, Inr False)
      | Inr None \<Rightarrow>
          let lid = lease_id (obj_of lease)
          in if lid \<in> lb_revoked lb \<or> lid \<in> set (dkeys (lb_leases lb)) then (lb, Inr False)
             else (lb\<lparr>lb_leases := dset lid (obj_of lease) (lb_leases lb)\<rparr>, Inr True))"

definition revoked_ids :: "obj \<Rightarrow> string list" where
  "revoked_ids d = (case pget d ''lease_ids'' of JList ids \<Rightarrow> map strv ids | _ \<Rightarrow> [])"

definition lb_revoke :: "env \<Rightarrow> json \<Rightarrow> lease_book \<Rightarrow> lease_book \<times> string set res" where
  "lb_revoke E v lb =
     (case check_lease_revocation E v (lb_trust lb) of
        Inl e \<Rightarrow> (lb, Inl e)
      | Inr (Some _) \<Rightarrow> (lb, Inr {})
      | Inr None \<Rightarrow>
          let newly = set (revoked_ids (obj_of v)) - lb_revoked lb
          in (lb\<lparr>lb_revoked := lb_revoked lb \<union> newly, lb_leases := filter (\<lambda>(k, x). k \<notin> newly) (lb_leases lb)\<rparr>, Inr newly))"

definition lb_is_revoked :: "lease_book \<Rightarrow> string \<Rightarrow> bool" where
  "lb_is_revoked lb lid \<longleftrightarrow> lid \<in> lb_revoked lb"

definition lb_check :: "env \<Rightarrow> lease_book \<Rightarrow> json \<Rightarrow> did \<Rightarrow> string \<Rightarrow> pyfloat \<Rightarrow> pyfloat \<Rightarrow> string option res" where
  "lb_check E lb lease provider model now skew =
     or_reason (check_lease E lease (lb_trust lb))
       (let d = obj_of lease
        in Inr (if pget d ''subject'' \<noteq> JStr provider then Some ''the lease is for another node''
                else if pget d ''model'' \<noteq> JStr model then Some ''the lease is for another model''
                else if lease_id d \<in> lb_revoked lb then Some ''the lease is revoked''
                else if \<not> (fle (fsub (numv (pget d ''valid_from'')) skew) now \<and> flt now (fadd (numv (pget d ''expires_at'')) skew))
                then Some ''the lease is outside its validity window''
                else None))"

definition in_force :: "pyfloat \<Rightarrow> obj \<Rightarrow> bool" where
  "in_force now d \<longleftrightarrow> fle (numv (pget d ''valid_from'')) now \<and> flt now (numv (pget d ''expires_at''))"

definition ratv :: "json \<Rightarrow> rat" where
  "ratv v = (case numv v of Fin q \<Rightarrow> q | _ \<Rightarrow> 0)"

text \<open>The first lease of every (subject, model) pair.\<close>

fun first_per_key :: "obj list \<Rightarrow> (did \<times> string) list \<Rightarrow> (did \<times> string \<times> obj) list" where
  "first_per_key [] seen = []"
| "first_per_key (x # xs) seen =
     (let key = (strv (pget x ''subject''), strv (pget x ''model''))
      in if key \<in> set seen then first_per_key xs seen
         else (fst key, snd key, x) # first_per_key xs (key # seen))"

definition lb_eligible :: "lease_book \<Rightarrow> string list \<Rightarrow> pyfloat \<Rightarrow> (did \<times> string \<times> obj) list" where
  "lb_eligible lb models now =
     first_per_key
       (sort_key (\<lambda>x. (- (case pget x ''key_version'' of JInt n \<Rightarrow> n | _ \<Rightarrow> 0), strv (pget x ''subject''),
                       strv (pget x ''model''), - ratv (pget x ''expires_at'')))
         (filter (\<lambda>x. pget x ''model'' \<in> JStr ` set models \<and> in_force now x) (map snd (lb_leases lb)))) []"

definition lb_live :: "lease_book \<Rightarrow> pyfloat \<Rightarrow> obj list" where
  "lb_live lb now = filter (in_force now) (map snd (lb_leases lb))"

definition lb_prune :: "pyfloat \<Rightarrow> lease_book \<Rightarrow> lease_book" where
  "lb_prune now lb = lb\<lparr>lb_leases := filter (\<lambda>(lid, x). \<not> fle (numv (pget x ''expires_at'')) now) (lb_leases lb)\<rparr>"

section \<open>Where secrets come from\<close>

type_synonym key_source = "(string, int \<times> string) dict"

definition key_source_init :: "(string \<times> string) list \<Rightarrow> key_source" where
  "key_source_init keys = map (\<lambda>(m, s). (m, (1, s))) keys"

definition ks_current :: "key_source \<Rightarrow> string \<Rightarrow> (int \<times> string) option" where
  "ks_current ks model = map_of ks model"

definition ks_set :: "string \<Rightarrow> string \<Rightarrow> key_source \<Rightarrow> key_source \<times> int" where
  "ks_set model secret ks =
     (let version = fst (dget ks model (0, [])) + 1 in (dset model (version, secret) ks, version))"

definition ks_rotate :: "(string \<Rightarrow> string) option \<Rightarrow> string \<Rightarrow> key_source \<Rightarrow> key_source \<times> int option" where
  "ks_rotate mint model ks =
     (case mint of
        None \<Rightarrow> (ks, None)
      | Some f \<Rightarrow> if model \<notin> set (dkeys ks) then (ks, None)
                  else let (ks', version) = ks_set model (f model) ks in (ks', Some version))"

section \<open>The contracts\<close>

interpretation lease: mesh_object "\<lambda>E tr v. check_lease E v tr" LEASE "''broker''" tr_brokers
  by unfold_locales (simp add: check_lease_def)

interpretation lease_revocation: mesh_object "\<lambda>E tr v. check_lease_revocation E v tr" LEASE_REVOCATION "''broker''" tr_brokers
  by unfold_locales (simp add: check_lease_revocation_def)

lemma check_lease_facts:
  assumes "check_lease E v tr = Inr None"
  obtains d subject model where "v = JObj d" "pget d ''subject'' = JStr subject" "tr_mesh tr subject"
    "pget d ''model'' = JStr model" "lease_id d = take 32 (digest E (JObj (lease_body d)))"
    "pget d ''lease_id'' = JStr (lease_id d)"
proof -
  obtain d where d: "v = JObj d" using assms by (auto elim: lease.signer)
  with assms have "lease_shape E d = Inr None" and "\<exists>s. pget d ''subject'' = JStr s \<and> tr_mesh tr s"
    by (auto simp: check_lease_def obj_of_def split: json.splits if_splits)
  moreover from this(1) have m: "is_model (pget d ''model'')" and "pget d ''lease_id'' = JStr (take 32 (digest E (JObj (lease_body d))))"
    by (auto simp: lease_shape_def reasons_None chain_iffs)
  moreover from m obtain model where "pget d ''model'' = JStr model"
    by (cases "pget d ''model''") (simp_all add: is_model_def)
  ultimately show ?thesis
    using d that [of d _ model] by (auto simp: lease_id_def strv_def)
qed

datatype book_op = Add json | Revoke json | Prune pyfloat

fun book_step :: "env \<Rightarrow> book_op \<Rightarrow> lease_book \<Rightarrow> lease_book" where
  "book_step E (Add v) lb = fst (lb_add E v lb)"
| "book_step E (Revoke v) lb = fst (lb_revoke E v lb)"
| "book_step E (Prune now) lb = lb_prune now lb"

text \<open>Every lease of a book passed its check, under its own id, and is not revoked.\<close>

definition book_inv :: "env \<Rightarrow> trust_roots \<Rightarrow> lease_book \<Rightarrow> bool" where
  "book_inv E tr lb \<longleftrightarrow> lb_trust lb = tr \<and>
     (\<forall>(lid, x)\<in>set (lb_leases lb). check_lease E (JObj x) tr = Inr None \<and> lid = lease_id x \<and> lid \<notin> lb_revoked lb)"

lemma book_inv_init: "book_inv E tr (lease_book_init tr)"
  by (simp add: book_inv_def lease_book_init_def)

lemma set_dset_new: "k \<notin> set (dkeys d) \<Longrightarrow> set (dset k v d) = insert (k, v) (set d)"
  by (simp add: dset_new)

lemma lb_add_step:
  "fst (lb_add E v lb) = lb \<or>
   (\<exists>d. v = JObj d \<and> check_lease E v (lb_trust lb) = Inr None \<and> lease_id d \<notin> lb_revoked lb \<and>
      lease_id d \<notin> set (dkeys (lb_leases lb)) \<and>
      fst (lb_add E v lb) = lb\<lparr>lb_leases := dset (lease_id d) d (lb_leases lb)\<rparr>)"
proof (cases "check_lease E v (lb_trust lb) = Inr None")
  case True
  then obtain d where "v = JObj d" by (rule check_lease_facts)
  with True show ?thesis by (simp add: lb_add_def obj_of_def Let_def)
next
  case False
  then show ?thesis by (auto simp: lb_add_def split: sum.split option.split)
qed

lemma book_step_inv [inv_intros]:
  assumes "book_inv E tr lb"
  shows "book_inv E tr (book_step E op lb)"
proof (cases op)
  case (Add v)
  with assms lb_add_step [of E v lb] show ?thesis by (auto simp: book_inv_def set_dset_new)
next
  case (Revoke v)
  with assms show ?thesis by (auto simp: book_inv_def lb_revoke_def Let_def split: sum.split option.split)
next
  case (Prune now)
  with assms show ?thesis by (auto simp: book_inv_def lb_prune_def)
qed

lemma book_step_revoked: "lb_revoked lb \<subseteq> lb_revoked (book_step E op lb)"
proof (cases op)
  case (Add v)
  with lb_add_step [of E v lb] show ?thesis by auto
qed (auto simp: lb_revoke_def lb_prune_def Let_def split: sum.split option.split)

lemma fold_book:
  assumes "book_inv E tr lb"
  shows "book_inv E tr (fold (book_step E) ops lb)" "lb_revoked lb \<subseteq> lb_revoked (fold (book_step E) ops lb)"
  using assms book_step_inv book_step_revoked by (induction ops arbitrary: lb) (auto, blast)

abbreviation pair_of_lease :: "obj \<Rightarrow> did \<times> string" where
  "pair_of_lease x \<equiv> (strv (pget x ''subject''), strv (pget x ''model''))"

lemma first_per_key_sound:
  "(p, m, x) \<in> set (first_per_key xs seen) \<Longrightarrow> x \<in> set xs \<and> (p, m) = pair_of_lease x \<and> (p, m) \<notin> set seen"
  by (induction xs seen rule: first_per_key.induct) (auto simp: Let_def split: if_splits)

lemma first_per_key_distinct: "distinct (map (\<lambda>(p, m, x). (p, m)) (first_per_key xs seen))"
proof (induction xs seen rule: first_per_key.induct)
  case (2 x xs seen)
  have new: "pair_of_lease x \<notin> set (map (\<lambda>(p, m, x). (p, m)) (first_per_key xs (pair_of_lease x # seen)))"
  proof
    assume "pair_of_lease x \<in> set (map (\<lambda>(p, m, x). (p, m)) (first_per_key xs (pair_of_lease x # seen)))"
    then obtain p m y where "(p, m, y) \<in> set (first_per_key xs (pair_of_lease x # seen))" "pair_of_lease x = (p, m)"
      by auto
    with first_per_key_sound [OF this(1)] show False by simp
  qed
  show ?case
  proof (cases "pair_of_lease x \<in> set seen")
    case True
    with 2(1) [OF refl True] show ?thesis by (simp add: Let_def)
  next
    case False
    with 2(2) [OF refl False] new show ?thesis by (simp add: Let_def)
  qed
qed simp

lemma first_per_key_complete:
  "x \<in> set xs \<Longrightarrow> pair_of_lease x \<notin> set seen \<Longrightarrow> pair_of_lease x \<in> set (map (\<lambda>(p, m, x). (p, m)) (first_per_key xs seen))"
proof (induction xs seen rule: first_per_key.induct)
  case (2 y ys seen)
  then show ?case by (cases "pair_of_lease y = pair_of_lease x") (auto simp: Let_def split: if_splits)
qed simp

lemma hex_chars: "list_all hex_char (hex bs)"
proof -
  have "hex_char (hexd n)" if "n < 16" for n
    using that by (auto simp: hex_char_def is_digit_def of_hexd)
  moreover have "(of_char b :: nat) div 16 < 16" for b :: char using of_char_lt_256 [of b] by linarith
  ultimately show ?thesis by (auto simp: hex_def list_all_iff)
qed

lemma re_class_hex:
  assumes "length (sha256 E m) = 32"
  shows "re_class hex_char 64 64 (hexdigest E m)" "re_class hex_char 32 32 (take 32 (hexdigest E m))"
  using assms hex_chars [of "sha256 E m"]
  by (auto simp: re_class_def hexdigest_def Let_def list_all_iff dest: in_set_takeD)

lemma f_zero [simp]: "fsub x (Fin 0) = x" "fadd x (Fin 0) = x"
  by (cases x; simp)+

lemma made_lease:
  assumes "crypto_ok E" "length broker = 32" "identity_did E broker = Inr did"
    "make_lease E broker subject model kv canary ttl now = Inr lease"
    "tr_brokers tr did" "tr_mesh tr subject"
  shows "check_lease E (JObj lease) tr = Inr None" "pget lease ''subject'' = JStr subject" "pget lease ''model'' = JStr model"
    "pget lease ''valid_from'' = JFloat now" "pget lease ''expires_at'' = JFloat (fadd now ttl)"
proof -
  let ?body = "[(''type'', JStr LEASE), (''broker'', JStr did), (''subject'', JStr subject), (''model'', JStr model),
                 (''key_version'', JInt kv), (''valid_from'', JFloat now), (''expires_at'', JFloat (fadd now ttl)),
                 (''canary_hash'', JStr (canary_hash E canary))]"
  let ?full = "?body @ [(''lease_id'', JStr (take 32 (digest E (JObj ?body))))]"
  from assms(3,4) have shape: "lease_shape E ?full = Inr None" and lease: "sign_payload E broker ?full = Inr lease"
    by (auto simp: make_lease_def Let_def rbind_Inr_iff split: option.splits)
  note f = sign_payload_fields [OF lease]
  have fields: "pget lease ''type'' = JStr LEASE" "pget lease ''broker'' = JStr did"
    "pget lease ''subject'' = JStr subject" "pget lease ''model'' = JStr model" "pget lease ''key_version'' = JInt kv"
    "pget lease ''valid_from'' = JFloat now" "pget lease ''expires_at'' = JFloat (fadd now ttl)"
    "pget lease ''canary_hash'' = JStr (canary_hash E canary)"
    "pget lease ''lease_id'' = JStr (take 32 (digest E (JObj ?body)))"
    by (simp_all add: f pget_def)
  have full: "pget ?full ''subject'' = JStr subject" "pget ?full ''model'' = JStr model" "pget ?full ''key_version'' = JInt kv"
    "pget ?full ''valid_from'' = JFloat now" "pget ?full ''expires_at'' = JFloat (fadd now ttl)"
    "pget ?full ''canary_hash'' = JStr (canary_hash E canary)"
    "pget ?full ''lease_id'' = JStr (take 32 (digest E (JObj ?body)))"
    by (simp_all add: pget_def)
  have body: "lease_body lease = lease_body ?full"
    using lease by (rule sign_payload_Inr) (simp add: lease_body_def)
  have "lease_shape E lease = lease_shape E ?full"
    unfolding lease_shape_def body fields full by (rule refl)
  with shape have shape': "lease_shape E lease = Inr None" by simp
  have "verify_payload E (JObj lease) (Some (tr_brokers tr)) = (True, Some did)"
    using verify_payload_signed [OF assms(1,2) lease assms(3), of "Some (tr_brokers tr)"] assms(5) by simp
  then have "signed_by E (JObj lease) LEASE ''broker'' (tr_brokers tr) = None"
    by (simp add: signed_by_def fields)
  with shape' assms(6) show "check_lease E (JObj lease) tr = Inr None"
    by (simp add: check_lease_def obj_of_def fields)
  show "pget lease ''subject'' = JStr subject" "pget lease ''model'' = JStr model"
    "pget lease ''valid_from'' = JFloat now" "pget lease ''expires_at'' = JFloat (fadd now ttl)"
    by (rule fields)+
qed

section \<open>Properties\<close>

text \<open>A lease the broker makes is a lease every participant that trusts the broker accepts, for exactly the
  node and the model it names, from its issue until it expires; the digest it is named by commits to
  its content.\<close>

theorem lease_round_trip:
  assumes "crypto_ok E" "length broker = 32" "identity_did E broker = Inr did"
    "make_lease E broker subject model kv canary ttl now = Inr lease"
    "tr_brokers tr did" "tr_mesh tr subject"
  shows "check_lease E (JObj lease) tr = Inr None \<and> lease_id lease = take 32 (digest E (JObj (lease_body lease))) \<and>
    (\<forall>t. fle now t \<longrightarrow> flt t (fadd now ttl) \<longrightarrow>
       lb_check E (lease_book_init tr) (JObj lease) subject model t (Fin 0) = Inr None)"
proof -
  note lease = made_lease [OF assms]
  have "lease_id lease = take 32 (digest E (JObj (lease_body lease)))"
    using lease(1) by (rule check_lease_facts) simp
  moreover have "lb_check E (lease_book_init tr) (JObj lease) subject model t (Fin 0) = Inr None"
    if "fle now t" "flt t (fadd now ttl)" for t
    using that lease by (simp add: lb_check_def lease_book_init_def or_reason_def obj_of_def numv_def)
  ultimately show ?thesis using lease(1) by blast
qed

text \<open>A lease revocation is final: once a revocation by a trusted broker is applied, whatever leases,
  revocations and prunings come before or after it, a lease with a revoked id is never in the book again,
  is never eligible, and no check of it passes.\<close>

theorem lease_revocation_final:
  assumes "check_lease_revocation E (JObj r) tr = Inr None" "lid \<in> set (revoked_ids r)"
    "lb = fold (book_step E) (before @ [Revoke (JObj r)] @ later) (lease_book_init tr)"
  shows "lid \<notin> set (dkeys (lb_leases lb)) \<and>
    (\<forall>lease provider model now skew. lease_id lease = lid \<longrightarrow> lb_check E lb (JObj lease) provider model now skew \<noteq> Inr None) \<and>
    (\<forall>models now. \<forall>(p, m, x)\<in>set (lb_eligible lb models now). lease_id x \<noteq> lid)"
proof -
  let ?l1 = "fold (book_step E) before (lease_book_init tr)"
  have inv1: "book_inv E tr ?l1" by (rule fold_book(1) [OF book_inv_init])
  then have "lb_trust ?l1 = tr" by (simp add: book_inv_def)
  then have "lid \<in> lb_revoked (book_step E (Revoke (JObj r)) ?l1)"
    using assms(1,2) by (simp add: lb_revoke_def obj_of_def)
  moreover have "book_inv E tr (book_step E (Revoke (JObj r)) ?l1)" using inv1 by (rule book_step_inv)
  ultimately have rev: "lid \<in> lb_revoked lb" and inv: "book_inv E tr lb"
    using fold_book [of E tr "book_step E (Revoke (JObj r)) ?l1" later] assms(3) by (auto simp del: book_step.simps)
  have out: "lease_id x \<noteq> lid \<and> k \<noteq> lid" if "(k, x) \<in> set (lb_leases lb)" for k x
    using inv rev that by (auto simp: book_inv_def)
  have "lease_id x \<noteq> lid" if "(p, m, x) \<in> set (lb_eligible lb models now)" for p m x models now
  proof -
    from first_per_key_sound [OF that [unfolded lb_eligible_def]] obtain k where "(k, x) \<in> set (lb_leases lb)" by auto
    with out show ?thesis by blast
  qed
  moreover have "lid \<notin> set (dkeys (lb_leases lb))" using out by (force simp: dkeys_def)
  moreover have "lb_check E lb (JObj lease) provider model now skew \<noteq> Inr None" if "lease_id lease = lid" for lease provider model now skew
    using that rev by (simp add: lb_check_def obj_of_def)
  ultimately show ?thesis by blast
qed

text \<open>What a book offers is what the broker granted: after any history, the eligible entries name each
  (provider, model) pair at most once, every entry is a lease in force that a trusted broker signed for
  that provider and model, asked for and not revoked; and every lease in force on a wanted model is
  represented by an entry of its pair.\<close>

theorem eligible_exact:
  assumes "lb = fold (book_step E) ops (lease_book_init tr)"
  shows "distinct (map (\<lambda>(p, m, x). (p, m)) (lb_eligible lb models now)) \<and>
    (\<forall>(p, m, x)\<in>set (lb_eligible lb models now). check_lease E (JObj x) tr = Inr None \<and> m \<in> set models \<and>
       lb_check E lb (JObj x) p m now (Fin 0) = Inr None) \<and>
    (\<forall>x\<in>set (lb_live lb now). pget x ''model'' \<in> JStr ` set models \<longrightarrow>
       pair_of_lease x \<in> set (map (\<lambda>(p, m, x). (p, m)) (lb_eligible lb models now)))"
proof -
  have inv: "book_inv E tr lb" unfolding assms by (rule fold_book(1) [OF book_inv_init])
  have "check_lease E (JObj x) tr = Inr None \<and> m \<in> set models \<and> lb_check E lb (JObj x) p m now (Fin 0) = Inr None"
    if e: "(p, m, x) \<in> set (lb_eligible lb models now)" for p m x
  proof -
    from first_per_key_sound [OF e [unfolded lb_eligible_def]] obtain k
      where x: "(k, x) \<in> set (lb_leases lb)" "pget x ''model'' \<in> JStr ` set models" "in_force now x" "(p, m) = pair_of_lease x"
      by auto
    with inv have check: "check_lease E (JObj x) tr = Inr None" and new: "lease_id x \<notin> lb_revoked lb" "lb_trust lb = tr"
      by (auto simp: book_inv_def)
    from check obtain subject model where f: "pget x ''subject'' = JStr subject" "pget x ''model'' = JStr model"
      by (auto elim: check_lease_facts)
    from x f check new show ?thesis
      by (auto simp: lb_check_def obj_of_def strv_def in_force_def)
  qed
  moreover have "pair_of_lease x \<in> set (map (\<lambda>(p, m, x). (p, m)) (lb_eligible lb models now))"
    if "x \<in> set (lb_live lb now)" "pget x ''model'' \<in> JStr ` set models" for x
    unfolding lb_eligible_def using that by (intro first_per_key_complete) (auto simp: lb_live_def)
  moreover have "distinct (map (\<lambda>(p, m, x). (p, m)) (lb_eligible lb models now))"
    unfolding lb_eligible_def by (rule first_per_key_distinct)
  ultimately show ?thesis by auto
qed

section \<open>A concrete book\<close>

definition ref_env32 :: env where
  "ref_env32 = ref_env\<lparr>sha256 := \<lambda>m. take 32 (m @ replicate 32 (CHR 0x00))\<rparr>"

lemma ref_env32_facts [simp]:
  "crypto_ok ref_env32" "length (sha256 ref_env32 m) = 32" "identity_did ref_env32 (ref_seed c) = Inr (ref_did c)"
  using ref_env_crypto ref_did_identity [of c] by (simp_all add: ref_env32_def crypto_ok_def identity_did_def)

lemma ref_signed:
  assumes "sign_payload ref_env32 (ref_seed c) body = Inr d" "pget d ''type'' = JStr ty" "pget d field = JStr (ref_did c)"
    "who (ref_did c)"
  shows "signed_by ref_env32 (JObj d) ty field who = None"
  using verify_payload_signed [OF ref_env32_facts(1) length_ref_seed assms(1) ref_env32_facts(3), of "Some who"] assms(2-4)
  by (simp add: signed_by_def)

definition ref_roots :: trust_roots where
  "ref_roots = \<lparr>tr_mesh = \<lambda>_. True, tr_users = \<lambda>_. True, tr_deciders = \<lambda>_. True, tr_coordinators = \<lambda>d. d = ref_did (CHR ''c''),
     tr_brokers = \<lambda>d. d = ref_did (CHR ''b''), tr_operators = \<lambda>d. d = ref_did (CHR ''o'')\<rparr>"

definition ref_lease :: "obj res" where
  "ref_lease = make_lease ref_env32 (ref_seed (CHR ''b'')) (ref_did (CHR ''n'')) ''gpt'' 1 ''c'' (Fin 600) (Fin 100)"

lemma ref_lease_made: obtains lease where "ref_lease = Inr lease"
proof -
  let ?body = "[(''type'', JStr LEASE), (''broker'', JStr (ref_did (CHR ''b''))), (''subject'', JStr (ref_did (CHR ''n''))),
     (''model'', JStr ''gpt''), (''key_version'', JInt 1), (''valid_from'', JFloat (Fin 100)), (''expires_at'', JFloat (Fin 700)),
     (''canary_hash'', JStr (canary_hash ref_env32 ''c''))]"
  let ?full = "?body @ [(''lease_id'', JStr (take 32 (digest ref_env32 (JObj ?body))))]"
  have h: "re_class hex_char 64 64 (canary_hash ref_env32 ''c'')" "re_class hex_char 32 32 (take 32 (digest ref_env32 (JObj ?body)))"
    by (simp_all add: canary_hash_def digest_def re_class_hex)
  have g: "re_class model_char 1 128 ''gpt''" by code_simp
  have "lease_body ?full = ?body" by (simp add: lease_body_def)
  with h g have shape: "lease_shape ref_env32 ?full = Inr None"
    by (simp add: lease_shape_def reasons_None chain_iffs pget_def is_did_def is_model_def is_hex64_def is_hex32_def need_num_def numv_def)
  have "\<not> has_envelope ?full" by (simp add: has_envelope_def dkeys_def)
  then obtain lease where "sign_payload ref_env32 (ref_seed (CHR ''b'')) ?full = Inr lease"
    using sign_payload_total [OF ref_env32_facts(1) length_ref_seed] by blast
  with shape have "ref_lease = Inr lease" by (simp add: ref_lease_def make_lease_def)
  then show thesis by (rule that)
qed

theorem lease_round_trip_witness:
  "\<exists>lease. ref_lease = Inr lease \<and> check_lease ref_env32 (JObj lease) ref_roots = Inr None \<and>
     lb_check ref_env32 (lease_book_init ref_roots) (JObj lease) (ref_did (CHR ''n'')) ''gpt'' (Fin 150) (Fin 0) = Inr None"
proof -
  obtain lease where l: "ref_lease = Inr lease" by (rule ref_lease_made)
  have "tr_brokers ref_roots (ref_did (CHR ''b''))" "tr_mesh ref_roots (ref_did (CHR ''n''))" by (simp_all add: ref_roots_def)
  from lease_round_trip [OF ref_env32_facts(1) length_ref_seed ref_env32_facts(3) l [unfolded ref_lease_def] this] l
  show ?thesis by auto
qed

lemma ref_lease_checks:
  assumes "ref_lease = Inr lease"
  shows "check_lease ref_env32 (JObj lease) ref_roots = Inr None" "pget lease ''subject'' = JStr (ref_did (CHR ''n''))"
    "pget lease ''model'' = JStr ''gpt''" "pget lease ''valid_from'' = JFloat (Fin 100)" "pget lease ''expires_at'' = JFloat (Fin 700)"
  using made_lease [OF ref_env32_facts(1) length_ref_seed ref_env32_facts(3) assms [unfolded ref_lease_def], of ref_roots]
  by (simp_all add: ref_roots_def)

theorem eligible_exact_witness:
  "\<exists>lease. ref_lease = Inr lease \<and>
     (ref_did (CHR ''n''), ''gpt'') \<in> set (map (\<lambda>(p, m, x). (p, m))
       (lb_eligible (fold (book_step ref_env32) [Add (JObj lease)] (lease_book_init ref_roots)) [''gpt''] (Fin 150)))"
proof -
  obtain lease where l: "ref_lease = Inr lease" by (rule ref_lease_made)
  note c = ref_lease_checks [OF l]
  let ?lb = "fold (book_step ref_env32) [Add (JObj lease)] (lease_book_init ref_roots)"
  have live: "lease \<in> set (lb_live ?lb (Fin 150))"
    using c by (simp add: lb_live_def lb_add_def lease_book_init_def obj_of_def dkeys_def in_force_def numv_def)
  have m: "pget lease ''model'' \<in> JStr ` set [''gpt'']" using c by simp
  have all: "\<forall>x\<in>set (lb_live ?lb (Fin 150)). pget x ''model'' \<in> JStr ` set [''gpt''] \<longrightarrow>
      pair_of_lease x \<in> set (map (\<lambda>(p, m, x). (p, m)) (lb_eligible ?lb [''gpt''] (Fin 150)))"
    by (rule eligible_exact [OF refl, THEN conjunct2, THEN conjunct2])
  have "pair_of_lease lease \<in> set (map (\<lambda>(p, m, x). (p, m)) (lb_eligible ?lb [''gpt''] (Fin 150)))"
    by (rule all [rule_format, OF live m])
  moreover have "pair_of_lease lease = (ref_did (CHR ''n''), ''gpt'')" using c by (simp add: strv_def)
  ultimately have "(ref_did (CHR ''n''), ''gpt'') \<in> set (map (\<lambda>(p, m, x). (p, m)) (lb_eligible ?lb [''gpt''] (Fin 150)))"
    by (simp only:)
  with l show ?thesis by blast
qed

definition ref_lease_revocation :: "string \<Rightarrow> obj res" where
  "ref_lease_revocation lid = make_lease_revocation ref_env32 (ref_seed (CHR ''b'')) [lid] [] (Fin 200)"

theorem lease_revocation_final_witness:
  "\<exists>lease r. ref_lease = Inr lease \<and> ref_lease_revocation (lease_id lease) = Inr r \<and>
     lease_id lease \<notin> set (dkeys (lb_leases (fold (book_step ref_env32)
       ([Add (JObj lease)] @ [Revoke (JObj r)] @ [Add (JObj lease)]) (lease_book_init ref_roots))))"
proof -
  obtain lease where l: "ref_lease = Inr lease" by (rule ref_lease_made)
  let ?lid = "lease_id lease"
  have "is_hex32 (JStr ?lid)"
    using ref_lease_checks(1) [OF l] by (rule check_lease_facts) (simp add: digest_def is_hex32_def re_class_hex)
  let ?body = "[(''type'', JStr LEASE_REVOCATION), (''broker'', JStr (ref_did (CHR ''b''))), (''lease_ids'', JList [JStr ?lid]),
     (''reason'', JStr []), (''issued_at'', JFloat (Fin 200))]"
  have "\<not> has_envelope ?body" by (simp add: has_envelope_def dkeys_def)
  then obtain r where r: "sign_payload ref_env32 (ref_seed (CHR ''b'')) ?body = Inr r"
    using sign_payload_total [OF ref_env32_facts(1) length_ref_seed] by blast
  then have made: "ref_lease_revocation ?lid = Inr r"
    by (simp add: ref_lease_revocation_def make_lease_revocation_def sorted_set_def MAX_REVOKED_LEASES_def str_take_def)
  have fields: "pget r ''type'' = JStr LEASE_REVOCATION" "pget r ''broker'' = JStr (ref_did (CHR ''b''))"
    "pget r ''lease_ids'' = JList [JStr ?lid]" "pget r ''reason'' = JStr []" "pget r ''issued_at'' = JFloat (Fin 200)"
    by (simp_all add: sign_payload_fields [OF r] pget_def)
  have "verify_payload ref_env32 (JObj r) (Some (tr_brokers ref_roots)) = (True, Some (ref_did (CHR ''b'')))"
    using verify_payload_signed [OF ref_env32_facts(1) length_ref_seed r ref_env32_facts(3), of "Some (tr_brokers ref_roots)"]
    by (simp add: ref_roots_def)
  then have "signed_by ref_env32 (JObj r) LEASE_REVOCATION ''broker'' (tr_brokers ref_roots) = None"
    by (simp add: signed_by_def fields)
  moreover have "revocation_shape r = Inr None"
    using \<open>is_hex32 (JStr ?lid)\<close>
    by (simp add: revocation_shape_def fields reasons_None chain_iffs MAX_REVOKED_LEASES_def sort_hashable_def sorted_set_def need_num_def)
  ultimately have check: "check_lease_revocation ref_env32 (JObj r) ref_roots = Inr None"
    by (simp add: check_lease_revocation_def obj_of_def)
  have "?lid \<in> set (revoked_ids r)" by (simp add: revoked_ids_def fields strv_def)
  from lease_revocation_final [OF check this refl] l made show ?thesis by blast
qed

end
