(* ===== verification/Paths.thy ===== *)
theory Paths
  imports Prelude "HOL-Library.Product_Lexorder"
begin

text \<open>
  \<^verbatim>\<open>inference/topology.py\<close>'s \<^verbatim>\<open>shortest_path\<close>: Dijkstra's algorithm over the confirmed links, with
  paths as heap entries. Node costs are finite floats, read as exact rationals. The heap of
  \<^verbatim>\<open>heapq\<close> is the list of its entries in increasing order: a push inserts, a pop takes the least
  entry (equal entries are the same tuple). A Python set of DIDs is the list of its elements.
\<close>

type_synonym adjacency = "(did, did list) dict"
type_synonym heap = "(rat \<times> did list) list"

definition neighbours :: "adjacency \<Rightarrow> did \<Rightarrow> did list" where
  "neighbours adj node = sorted_set (dget adj node [])"

definition may_enter :: "did \<Rightarrow> did list \<Rightarrow> did list \<Rightarrow> did \<Rightarrow> bool" where
  "may_enter dst transit avoid nxt \<longleftrightarrow> nxt = dst \<or> nxt \<in> set transit \<and> nxt \<notin> set avoid"

text \<open>The pushes of one settled node.\<close>

definition relax_step ::
  "did \<Rightarrow> did list \<Rightarrow> did list \<Rightarrow> (did \<Rightarrow> rat) \<Rightarrow> did list \<Rightarrow> rat \<Rightarrow> did list \<Rightarrow> did \<Rightarrow> heap \<Rightarrow> heap" where
  "relax_step dst transit avoid cost settled dis path nxt heap =
     (if nxt \<in> set settled \<or> nxt \<in> set path then heap
      else if \<not> may_enter dst transit avoid nxt then heap
      else insort (dis + cost nxt, path @ [nxt]) heap)"

definition relax_all ::
  "adjacency \<Rightarrow> did \<Rightarrow> did list \<Rightarrow> did list \<Rightarrow> (did \<Rightarrow> rat) \<Rightarrow> did list \<Rightarrow> rat \<Rightarrow> did list \<Rightarrow> heap \<Rightarrow> heap" where
  "relax_all adj dst transit avoid cost settled dis path heap =
     fold (relax_step dst transit avoid cost settled dis path) (neighbours adj (last path)) heap"

definition universe :: "adjacency \<Rightarrow> heap \<Rightarrow> did set" where
  "universe adj heap = (\<Union>(k, ns)\<in>set adj. set ns) \<union> (last \<circ> snd) ` set heap"

lemma set_fold_relax:
  "set (fold (relax_step dst transit avoid cost settled dis path) ns heap) =
     set heap \<union> {(dis + cost n, path @ [n]) | n. n \<in> set ns \<and> n \<notin> set settled \<and> n \<notin> set path \<and> may_enter dst transit avoid n}"
  by (induction ns arbitrary: heap) (auto simp: relax_step_def set_insort_key)

lemma set_relax_all:
  "set (relax_all adj dst transit avoid cost settled dis path heap) =
     set heap \<union> {(dis + cost n, path @ [n]) | n. n \<in> set (dget adj (last path) []) \<and> n \<notin> set settled \<and> n \<notin> set path \<and>
       may_enter dst transit avoid n}"
  by (simp add: relax_all_def set_fold_relax neighbours_def)

lemma sorted_relax_all: "sorted heap \<Longrightarrow> sorted (relax_all adj dst transit avoid cost settled dis path heap)"
proof -
  have "sorted heap \<Longrightarrow> sorted (fold (relax_step dst transit avoid cost settled dis path) ns heap)" for ns
    by (induction ns arbitrary: heap) (auto simp: relax_step_def sorted_insort)
  then show "sorted heap \<Longrightarrow> ?thesis" by (simp add: relax_all_def)
qed

lemma dget_subset_universe: "set (dget adj node []) \<subseteq> (\<Union>(k, ns)\<in>set adj. set ns)"
proof (cases "map_of adj node")
  case (Some ns)
  then have "(node, ns) \<in> set adj" by (rule map_of_SomeD)
  with Some show ?thesis by (force simp: dget_def)
qed (simp add: dget_def)

lemma finite_universe: "finite (universe adj heap)"
  by (auto simp: universe_def)

lemma universe_relax:
  "universe adj (relax_all adj dst transit avoid cost settled dis path heap) \<subseteq> universe adj heap"
  using dget_subset_universe [of adj "last path"]
  by (fastforce simp: universe_def set_relax_all)

text \<open>The main loop. A pop either returns, drops a settled node, or settles one more node of the finite
  universe, so the loop ends.\<close>

function shortest_loop ::
  "adjacency \<Rightarrow> did \<Rightarrow> did list \<Rightarrow> did list \<Rightarrow> (did \<Rightarrow> rat) \<Rightarrow> heap \<Rightarrow> did list \<Rightarrow> did list option" where
  "shortest_loop adj dst transit avoid cost [] settled = None"
| "shortest_loop adj dst transit avoid cost ((dis, path) # heap) settled =
     (let node = last path in
      if node = dst then Some path
      else if node \<in> set settled then shortest_loop adj dst transit avoid cost heap settled
      else shortest_loop adj dst transit avoid cost
             (relax_all adj dst transit avoid cost (node # settled) dis path heap) (node # settled))"
  by pat_completeness auto
termination
proof (relation "measures [\<lambda>(adj, dst, transit, avoid, cost, heap, settled). card (universe adj heap - set settled),
    \<lambda>(adj, dst, transit, avoid, cost, heap, settled). length heap]", goal_cases)
  case 1
  then show ?case by simp
next
  case (2 adj dst transit avoid cost dis path heap settled node)
  have "universe adj heap - set settled \<subseteq> universe adj ((dis, path) # heap) - set settled"
    by (auto simp: universe_def)
  then have "card (universe adj heap - set settled) \<le> card (universe adj ((dis, path) # heap) - set settled)"
    by (intro card_mono) (simp_all add: finite_universe)
  then show ?case by auto
next
  case (3 adj dst transit avoid cost dis path heap settled node)
  let ?new = "relax_all adj dst transit avoid cost (node # settled) dis path heap"
  have "universe adj ?new - set (node # settled) \<subset> universe adj ((dis, path) # heap) - set settled"
  proof (rule psubsetI)
    show "universe adj ?new - set (node # settled) \<subseteq> universe adj ((dis, path) # heap) - set settled"
      using universe_relax [of adj dst transit avoid cost "node # settled" dis path heap] by (auto simp: universe_def)
    have "node \<in> universe adj ((dis, path) # heap) - set settled" using 3 by (simp add: universe_def)
    then show "universe adj ?new - set (node # settled) \<noteq> universe adj ((dis, path) # heap) - set settled" by auto
  qed
  then have "card (universe adj ?new - set (node # settled)) < card (universe adj ((dis, path) # heap) - set settled)"
    by (intro psubset_card_mono) (simp_all add: finite_universe)
  then show ?case by simp
qed

definition shortest_path ::
  "adjacency \<Rightarrow> did \<Rightarrow> did \<Rightarrow> did list \<Rightarrow> did list \<Rightarrow> (did \<Rightarrow> rat) \<Rightarrow> did list option" where
  "shortest_path adj src dst transit avoid cost =
     (if src \<notin> set (dkeys adj) \<or> dst \<notin> set (dkeys adj) \<or> dst \<in> set avoid then None
      else shortest_loop adj dst transit avoid cost [(0, [src])] [])"

section \<open>What a cheapest path is\<close>

definition linked :: "adjacency \<Rightarrow> did \<Rightarrow> did \<Rightarrow> bool" where
  "linked adj a b \<longleftrightarrow> b \<in> set (dget adj a [])"

definition path_cost :: "(did \<Rightarrow> rat) \<Rightarrow> did list \<Rightarrow> rat" where
  "path_cost cost p = sum_list (map cost (tl p))"

text \<open>A route: from \<open>src\<close> to \<open>dst\<close> over links, no node twice, every interior node a transit node
  that is not avoided.\<close>

definition mesh_path :: "adjacency \<Rightarrow> did list \<Rightarrow> did list \<Rightarrow> did \<Rightarrow> did \<Rightarrow> did list \<Rightarrow> bool" where
  "mesh_path adj transit avoid src dst p \<longleftrightarrow>
     p \<noteq> [] \<and> hd p = src \<and> last p = dst \<and> distinct p \<and> successively (linked adj) p \<and>
     (\<forall>v\<in>set (butlast (tl p)). v \<in> set transit \<and> v \<notin> set avoid)"

text \<open>The walks the algorithm explores, repetitions allowed.\<close>

definition walk :: "adjacency \<Rightarrow> did \<Rightarrow> did list \<Rightarrow> did list \<Rightarrow> did \<Rightarrow> did list \<Rightarrow> bool" where
  "walk adj dst transit avoid src q \<longleftrightarrow>
     q \<noteq> [] \<and> hd q = src \<and> successively (linked adj) q \<and> (\<forall>v\<in>set (tl q). may_enter dst transit avoid v)"

lemma walk_prefix: "walk adj dst transit avoid src (a @ b) \<Longrightarrow> a \<noteq> [] \<Longrightarrow> walk adj dst transit avoid src a"
  by (auto simp: walk_def successively_append_iff)

lemma walk_snoc:
  "a \<noteq> [] \<Longrightarrow> walk adj dst transit avoid src (a @ [w]) \<longleftrightarrow>
     walk adj dst transit avoid src a \<and> linked adj (last a) w \<and> may_enter dst transit avoid w"
  by (auto simp: walk_def successively_append_iff)

lemma cost_nonneg: "(\<And>v. 0 \<le> cost v) \<Longrightarrow> 0 \<le> sum_list (map cost vs)" for cost :: "did \<Rightarrow> rat"
  by (induction vs) simp_all

lemma path_cost_append: "a \<noteq> [] \<Longrightarrow> path_cost cost (a @ b) = path_cost cost a + sum_list (map cost b)"
  by (cases a) (simp_all add: path_cost_def)

lemma path_cost_prefix:
  assumes "\<And>v. 0 \<le> cost v" "a \<noteq> []"
  shows "path_cost cost a \<le> path_cost cost (a @ b)"
  using assms cost_nonneg [of cost b] by (simp add: path_cost_append)

lemma mesh_path_walk: "mesh_path adj transit avoid src dst p \<Longrightarrow> walk adj dst transit avoid src p"
proof (cases p)
  case (Cons x xs)
  assume m: "mesh_path adj transit avoid src dst p"
  have "may_enter dst transit avoid v" if "v \<in> set xs" for v
  proof (cases "v = last xs")
    case True
    with m that Cons show ?thesis by (cases xs) (auto simp: mesh_path_def may_enter_def)
  next
    case False
    with that have "v \<in> set (butlast xs)" by (induction xs) (auto split: if_splits)
    with m Cons show ?thesis by (auto simp: mesh_path_def may_enter_def)
  qed
  with m Cons show ?thesis by (auto simp: mesh_path_def walk_def)
qed (simp add: mesh_path_def)

lemma walk_mesh_path:
  assumes "walk adj dst transit avoid src p" "distinct p" "last p = dst"
  shows "mesh_path adj transit avoid src dst p"
proof -
  obtain x xs where p: "p = x # xs" using assms(1) by (cases p) (auto simp: walk_def)
  have "v \<noteq> dst" if "v \<in> set (butlast xs)" for v
  proof -
    from that have "xs \<noteq> []" by auto
    with assms(3) p have "xs = butlast xs @ [dst]" by (metis append_butlast_last_id last_ConsR)
    with assms(2) p that show ?thesis by (metis distinct.simps(2) distinct_butlast not_distinct_conv_prefix)
  qed
  with assms p show ?thesis
    by (auto simp: mesh_path_def walk_def may_enter_def dest: in_set_butlastD)
qed

section \<open>The loop invariant\<close>

definition heap_ok :: "adjacency \<Rightarrow> did \<Rightarrow> did list \<Rightarrow> did list \<Rightarrow> (did \<Rightarrow> rat) \<Rightarrow> did \<Rightarrow> heap \<Rightarrow> did list \<Rightarrow> bool" where
  "heap_ok adj dst transit avoid cost src heap settled \<longleftrightarrow>
     sorted heap \<and>
     (\<forall>(d, p)\<in>set heap. walk adj dst transit avoid src p \<and> d = path_cost cost p \<and> distinct p \<and>
        set (butlast p) \<subseteq> set settled) \<and>
     dst \<notin> set settled \<and> (src \<in> set settled \<or> (0, [src]) \<in> set heap)"

text \<open>\<open>best\<close> is the cost at which a node was settled: no walk to it is cheaper, and every unsettled node
  next to it has an entry at least as good as going through it.\<close>

definition settled_ok ::
  "adjacency \<Rightarrow> did \<Rightarrow> did list \<Rightarrow> did list \<Rightarrow> (did \<Rightarrow> rat) \<Rightarrow> did \<Rightarrow> heap \<Rightarrow> did list \<Rightarrow> (did \<Rightarrow> rat) \<Rightarrow> bool" where
  "settled_ok adj dst transit avoid cost src heap settled best \<longleftrightarrow>
     (\<forall>s\<in>set settled. (\<forall>q. walk adj dst transit avoid src q \<and> last q = s \<longrightarrow> best s \<le> path_cost cost q) \<and>
        (\<forall>w. linked adj s w \<and> w \<notin> set settled \<and> may_enter dst transit avoid w \<longrightarrow>
           (\<exists>(d, p)\<in>set heap. last p = w \<and> d \<le> best s + cost w)))"

text \<open>Every walk that leaves the settled nodes passes an entry that is no dearer.\<close>

lemma frontier:
  assumes inv: "heap_ok adj dst transit avoid cost src heap settled"
    "settled_ok adj dst transit avoid cost src heap settled best"
    and nonneg: "\<And>v. 0 \<le> cost v" and q: "walk adj dst transit avoid src q" "last q \<notin> set settled"
  shows "\<exists>(d, p)\<in>set heap. last p \<notin> set settled \<and> d \<le> path_cost cost q"
proof -
  have "last q \<in> set q" using q(1) by (simp add: walk_def)
  with q(2) have "\<exists>x\<in>set q. x \<notin> set settled" by blast
  then obtain a w b where split: "q = a @ w # b" "w \<notin> set settled" "\<forall>x\<in>set a. x \<in> set settled"
    using split_list_first_prop [of q "\<lambda>x. x \<notin> set settled"] by blast
  show ?thesis
  proof (cases "a = []")
    case True
    with split q(1) have "w = src" by (simp add: walk_def)
    with split inv have "(0, [src]) \<in> set heap" by (auto simp: heap_ok_def)
    moreover have "0 \<le> path_cost cost q" using cost_nonneg [of cost "tl q"] nonneg by (simp add: path_cost_def)
    ultimately show ?thesis using split \<open>w = src\<close> by (intro bexI [of _ "(0, [src])"]) auto
  next
    case False
    have aw: "walk adj dst transit avoid src (a @ [w])" using q(1) split(1) by (intro walk_prefix [of _ _ _ _ _ "a @ [w]" b]) simp_all
    with False have a: "walk adj dst transit avoid src a" "linked adj (last a) w" "may_enter dst transit avoid w"
      by (simp_all add: walk_snoc)
    have "last a \<in> set settled" using False split(3) by simp
    with inv(2) a split(2) have "best (last a) \<le> path_cost cost a"
      "\<exists>(d, p)\<in>set heap. last p = w \<and> d \<le> best (last a) + cost w"
      unfolding settled_ok_def by blast+
    then obtain d p where e: "(d, p) \<in> set heap" "last p = w" "d \<le> best (last a) + cost w"
      and "best (last a) \<le> path_cost cost a" by blast
    then have "d \<le> path_cost cost (a @ [w])" using False by (simp add: path_cost_append)
    also have "\<dots> \<le> path_cost cost q" using path_cost_prefix [of cost "a @ [w]" b, OF nonneg] split(1) by simp
    finally show ?thesis using e split(2) by (intro bexI [of _ "(d, p)"]) auto
  qed
qed

lemma popped_cheapest:
  assumes "heap_ok adj dst transit avoid cost src ((dis, path) # heap) settled"
    "settled_ok adj dst transit avoid cost src ((dis, path) # heap) settled best"
    "\<And>v. 0 \<le> cost v" "walk adj dst transit avoid src q" "last q \<notin> set settled"
  shows "dis \<le> path_cost cost q"
proof -
  obtain d p where e: "(d, p) \<in> set ((dis, path) # heap)" "d \<le> path_cost cost q"
    using frontier [OF assms] by blast
  have "dis \<le> d" using assms(1) e(1) by (auto simp: heap_ok_def less_eq_prod_def)
  with e(2) show ?thesis by simp
qed

lemma drop_settled:
  assumes "heap_ok adj dst transit avoid cost src ((dis, path) # heap) settled"
    "settled_ok adj dst transit avoid cost src ((dis, path) # heap) settled best" "last path \<in> set settled"
  shows "heap_ok adj dst transit avoid cost src heap settled" "settled_ok adj dst transit avoid cost src heap settled best"
proof -
  show "heap_ok adj dst transit avoid cost src heap settled" using assms(1,3) by (auto simp: heap_ok_def)
  have "\<exists>(d, p)\<in>set heap. last p = w \<and> d \<le> best s + cost w"
    if "s \<in> set settled" "linked adj s w" "w \<notin> set settled" "may_enter dst transit avoid w" for s w
  proof -
    have "\<exists>(d, p)\<in>set ((dis, path) # heap). last p = w \<and> d \<le> best s + cost w"
      using assms(2) that unfolding settled_ok_def by blast
    with assms(3) that(3) show ?thesis by auto
  qed
  with assms(2) show "settled_ok adj dst transit avoid cost src heap settled best" unfolding settled_ok_def by blast
qed

lemma set_path_settled:
  assumes "set (butlast path) \<subseteq> set settled" "path \<noteq> []"
  shows "set path \<subseteq> set (last path # settled)"
proof -
  have "set path = set (butlast path @ [last path])" using assms(2) by simp
  also have "\<dots> \<subseteq> set (last path # settled)" using assms(1) by auto
  finally show ?thesis .
qed

lemma settle_heap:
  assumes inv: "heap_ok adj dst transit avoid cost src ((dis, path) # heap) settled"
    and new: "last path \<noteq> dst"
  shows "heap_ok adj dst transit avoid cost src
    (relax_all adj dst transit avoid cost (last path # settled) dis path heap) (last path # settled)"
    (is "heap_ok _ _ _ _ _ _ ?heap ?settled")
proof -
  from inv have path: "walk adj dst transit avoid src path" "dis = path_cost cost path" "distinct path"
    "set (butlast path) \<subseteq> set settled" "sorted heap" by (auto simp: heap_ok_def)
  have ne: "path \<noteq> []" using path(1) by (simp add: walk_def)
  have "walk adj dst transit avoid src p \<and> d = path_cost cost p \<and> distinct p \<and> set (butlast p) \<subseteq> set ?settled"
    if "(d, p) \<in> set ?heap" for d p
  proof (cases "(d, p) \<in> set heap")
    case True
    with inv show ?thesis by (auto simp: heap_ok_def)
  next
    case False
    with that obtain n where n: "d = dis + cost n" "p = path @ [n]" "n \<in> set (dget adj (last path) [])" "n \<notin> set path"
      "may_enter dst transit avoid n" by (auto simp: set_relax_all)
    moreover have "set path \<subseteq> set ?settled" using path(4) ne by (rule set_path_settled)
    ultimately show ?thesis using path ne by (simp add: walk_snoc linked_def path_cost_append)
  qed
  moreover have "sorted ?heap" using path(5) by (rule sorted_relax_all)
  moreover have "src \<in> set ?settled \<or> (0, [src]) \<in> set ?heap" using inv by (auto simp: heap_ok_def set_relax_all)
  ultimately show ?thesis using inv new by (auto simp: heap_ok_def)
qed

lemma settle_best:
  assumes inv: "heap_ok adj dst transit avoid cost src ((dis, path) # heap) settled"
    "settled_ok adj dst transit avoid cost src ((dis, path) # heap) settled best"
    and nonneg: "\<And>v. 0 \<le> cost v" and new: "last path \<notin> set settled"
  shows "settled_ok adj dst transit avoid cost src
    (relax_all adj dst transit avoid cost (last path # settled) dis path heap) (last path # settled) (best(last path := dis))"
    (is "settled_ok _ _ _ _ _ _ ?heap ?settled ?best")
proof -
  from inv have "set (butlast path) \<subseteq> set settled" "walk adj dst transit avoid src path" by (auto simp: heap_ok_def)
  then have sub: "set path \<subseteq> set ?settled" by (intro set_path_settled) (simp_all add: walk_def)
  have "?best s \<le> path_cost cost q" if "s \<in> set ?settled" "walk adj dst transit avoid src q" "last q = s" for s q
    using popped_cheapest [OF inv nonneg that(2)] that inv(2) new unfolding settled_ok_def by auto
  moreover have "\<exists>(d, p)\<in>set ?heap. last p = w \<and> d \<le> ?best s + cost w"
    if s: "s \<in> set ?settled" "linked adj s w" "w \<notin> set ?settled" "may_enter dst transit avoid w" for s w
  proof (cases "s = last path")
    case True
    then have "(dis + cost w, path @ [w]) \<in> set ?heap" using s sub by (auto simp: set_relax_all linked_def)
    with True show ?thesis by (intro bexI [of _ "(dis + cost w, path @ [w])"]) auto
  next
    case False
    with s have "s \<in> set settled" "w \<notin> set settled" by auto
    with s inv(2) have "\<exists>(d, p)\<in>set ((dis, path) # heap). last p = w \<and> d \<le> best s + cost w"
      unfolding settled_ok_def by blast
    then obtain d p where e: "(d, p) \<in> set ((dis, path) # heap)" "last p = w" "d \<le> best s + cost w" by blast
    with s(3) have "(d, p) \<in> set ?heap" by (auto simp: set_relax_all)
    with e False show ?thesis by (intro bexI [of _ "(d, p)"]) auto
  qed
  ultimately show ?thesis unfolding settled_ok_def by blast
qed

lemma shortest_loop_correct:
  assumes "\<forall>v. 0 \<le> cost v" "heap_ok adj dst transit avoid cost src heap settled"
    "settled_ok adj dst transit avoid cost src heap settled best"
  shows "case shortest_loop adj dst transit avoid cost heap settled of
      None \<Rightarrow> \<nexists>q. walk adj dst transit avoid src q \<and> last q = dst
    | Some p \<Rightarrow> walk adj dst transit avoid src p \<and> distinct p \<and> last p = dst \<and>
        (\<forall>q. walk adj dst transit avoid src q \<and> last q = dst \<longrightarrow> path_cost cost p \<le> path_cost cost q)"
  using assms
proof (induction adj dst transit avoid cost heap settled arbitrary: best rule: shortest_loop.induct)
  case (1 adj dst transit avoid cost settled)
  have dst: "dst \<notin> set settled" using 1(2) by (simp add: heap_ok_def)
  have "False" if "walk adj dst transit avoid src q" "last q = dst" for q
    using frontier [OF 1(2,3) _ that(1)] 1(1) that(2) dst by simp
  then show ?case by auto
next
  case (2 adj dst transit avoid cost dis path heap settled)
  have nonneg: "0 \<le> cost v" for v using 2(3) by simp
  have dst: "dst \<notin> set settled" using 2(4) by (simp add: heap_ok_def)
  consider "last path = dst" | "last path \<noteq> dst" "last path \<in> set settled" | "last path \<noteq> dst" "last path \<notin> set settled"
    by blast
  then show ?case
  proof cases
    case 1
    have "dis \<le> path_cost cost q" if "walk adj dst transit avoid src q" "last q = dst" for q
      using popped_cheapest [OF 2(4,5) nonneg that(1)] that(2) dst by simp
    with 1 2(4) show ?thesis by (simp add: heap_ok_def)
  next
    case 2
    then show ?thesis
      using "2.IH"(1) [OF refl 2 _ drop_settled [OF "2.prems"(2,3) 2(2)]] "2.prems"(1) by simp
  next
    case 3
    then show ?thesis
      using "2.IH"(2) [OF refl 3 _ settle_heap [OF "2.prems"(2) 3(1)] settle_best [OF "2.prems"(2,3) nonneg 3(2)]] "2.prems"(1)
      by (simp add: Let_def)
  qed
qed

lemma shortest_path_spec:
  assumes "\<forall>v. 0 \<le> cost v" "src \<in> set (dkeys adj)" "dst \<in> set (dkeys adj)" "dst \<notin> set avoid"
  shows "case shortest_path adj src dst transit avoid cost of
      None \<Rightarrow> \<nexists>q. mesh_path adj transit avoid src dst q
    | Some p \<Rightarrow> mesh_path adj transit avoid src dst p \<and>
        (\<forall>q. mesh_path adj transit avoid src dst q \<longrightarrow> path_cost cost p \<le> path_cost cost q)"
proof -
  have inv: "heap_ok adj dst transit avoid cost src [(0, [src])] []" "settled_ok adj dst transit avoid cost src [(0, [src])] [] (\<lambda>_. 0)"
    by (simp_all add: heap_ok_def settled_ok_def walk_def path_cost_def)
  have walk: "walk adj dst transit avoid src q \<and> last q = dst" if "mesh_path adj transit avoid src dst q" for q
    using mesh_path_walk [OF that] that by (simp add: mesh_path_def)
  have loop: "shortest_path adj src dst transit avoid cost = shortest_loop adj dst transit avoid cost [(0, [src])] []"
    using assms(2-4) by (simp add: shortest_path_def)
  note correct = shortest_loop_correct [OF assms(1) inv, folded loop]
  show ?thesis
  proof (cases "shortest_path adj src dst transit avoid cost")
    case None
    with correct have "\<nexists>q. walk adj dst transit avoid src q \<and> last q = dst" by simp
    with None walk show ?thesis by auto
  next
    case (Some p)
    with correct have p: "walk adj dst transit avoid src p" "distinct p" "last p = dst"
      "\<forall>q. walk adj dst transit avoid src q \<and> last q = dst \<longrightarrow> path_cost cost p \<le> path_cost cost q"
      by simp_all
    with Some walk walk_mesh_path [OF p(1-3)] show ?thesis by simp
  qed
qed

section \<open>Properties\<close>

text \<open>C24 \<^verbatim>\<open>shortest_path\<close> is exact: it always ends, and for known end points, a destination not to be avoided
  and costs that are not negative, it returns a route from \<open>src\<close> to \<open>dst\<close> over confirmed links whose
  interior nodes are all transit nodes and none avoided, no route being cheaper; it returns None only
  when there is no route at all.\<close>

theorem shortest_path_optimal:
  assumes "\<forall>v. 0 \<le> cost v" "src \<in> set (dkeys adj)" "dst \<in> set (dkeys adj)" "dst \<notin> set avoid"
  shows "case shortest_path adj src dst transit avoid cost of
      None \<Rightarrow> \<nexists>q. mesh_path adj transit avoid src dst q
    | Some p \<Rightarrow> mesh_path adj transit avoid src dst p \<and>
        (\<forall>q. mesh_path adj transit avoid src dst q \<longrightarrow> path_cost cost p \<le> path_cost cost q)"
  using assms by (rule shortest_path_spec)

definition ref_mesh :: adjacency where
  "ref_mesh = [(''a'', [''b'', ''c'']), (''b'', [''a'', ''d'']), (''c'', [''a'', ''d'']), (''d'', [''b'', ''c''])]"

theorem shortest_path_optimal_witness:
  "shortest_path ref_mesh ''a'' ''d'' [''b'', ''c''] [] (\<lambda>v. if v = ''b'' then 2 else 1) = Some [''a'', ''c'', ''d''] \<and>
   mesh_path ref_mesh [''b'', ''c''] [] ''a'' ''d'' [''a'', ''c'', ''d'']"
proof -
  have p: "shortest_path ref_mesh ''a'' ''d'' [''b'', ''c''] [] (\<lambda>v. if v = ''b'' then 2 else 1) = Some [''a'', ''c'', ''d'']"
    by code_simp
  have "\<forall>v. 0 \<le> (if v = ''b'' then 2 else 1 :: rat)" by simp
  from shortest_path_optimal [OF this, of "''a''" ref_mesh "''d''" "[]" "[''b'', ''c'']"] p show ?thesis
    by (simp add: ref_mesh_def dkeys_def)
qed

end
