(* ===== verification/Link_State.thy ===== *)
theory Link_State
  imports Lease Paths
begin

text \<open>
  \<^verbatim>\<open>inference/topology.py\<close>: the database of signed heartbeats (\<^verbatim>\<open>LinkStateDB\<close>), the confirmed links and
  transit nodes it derives, and the coordinator's repair plan. A set of DIDs is the list of its elements.
\<close>

definition ROLE_SERVE :: string where "ROLE_SERVE = ''serve''"
definition ROLE_FORWARD :: string where "ROLE_FORWARD = ''forward''"
definition ROLE_MODEL :: string where "ROLE_MODEL = ''model''"
definition ROLE_COORDINATOR :: string where "ROLE_COORDINATOR = ''coordinator''"
definition ROLE_BROKER :: string where "ROLE_BROKER = ''broker''"

lemmas role_defs = ROLE_SERVE_def ROLE_FORWARD_def ROLE_MODEL_def ROLE_COORDINATOR_def ROLE_BROKER_def

section \<open>The database\<close>

record node_state =
  ns_did :: did
  ns_roles :: "string list"
  ns_seq :: int
  ns_neighbors :: "did list"
  ns_load :: pyfloat
  ns_leases :: "json list"
  ns_heard_at :: pyfloat

record lsdb =
  ls_trust :: trust_roots
  ls_fail_after :: pyfloat
  ls_nodes :: "(did, node_state) dict"

definition lsdb_init :: "trust_roots \<Rightarrow> pyfloat \<Rightarrow> lsdb" where
  "lsdb_init tr fail_after = \<lparr>ls_trust = tr, ls_fail_after = fail_after, ls_nodes = []\<rparr>"

text \<open>Roles are claims; those of authority count only for DIDs on the matching trust list.\<close>

definition granted_roles :: "trust_roots \<Rightarrow> did \<Rightarrow> string list \<Rightarrow> string list" where
  "granted_roles tr did claimed =
     filter (\<lambda>r. if r = ROLE_SERVE then tr_deciders tr did
                 else if r = ROLE_COORDINATOR then tr_coordinators tr did
                 else if r = ROLE_BROKER then tr_brokers tr did else True) claimed"

definition list_of :: "json \<Rightarrow> json list" where
  "list_of v = (case v of JList vs \<Rightarrow> vs | _ \<Rightarrow> [])"

definition intv :: "json \<Rightarrow> int" where
  "intv v = (case v of JInt n \<Rightarrow> n | _ \<Rightarrow> 0)"

definition state_of :: "trust_roots \<Rightarrow> obj \<Rightarrow> pyfloat \<Rightarrow> node_state" where
  "state_of tr d now =
     (let did = strv (pget d ''node'')
      in \<lparr>ns_did = did, ns_roles = granted_roles tr did (map strv (list_of (pget d ''roles''))),
          ns_seq = intv (pget d ''seq''), ns_neighbors = map strv (list_of (pget d ''neighbors'')),
          ns_load = numv (pget d ''load''), ns_leases = list_of (pget d ''leases''), ns_heard_at = now\<rparr>)"

definition ls_merge :: "env \<Rightarrow> json \<Rightarrow> pyfloat \<Rightarrow> lsdb \<Rightarrow> lsdb \<times> bool res" where
  "ls_merge E heartbeat now db =
     (case check_heartbeat E heartbeat (ls_trust db) (Some now) of
        Inl e \<Rightarrow> (db, Inl e)
      | Inr (Some _) \<Rightarrow> (db, Inr False)
      | Inr None \<Rightarrow>
          let st = state_of (ls_trust db) (obj_of heartbeat) now
          in if (case map_of (ls_nodes db) (ns_did st) of Some cur \<Rightarrow> ns_seq st \<le> ns_seq cur | None \<Rightarrow> False) then (db, Inr False)
             else (db\<lparr>ls_nodes := dset (ns_did st) st (ls_nodes db)\<rparr>, Inr True))"

definition ls_get :: "lsdb \<Rightarrow> did \<Rightarrow> node_state option" where
  "ls_get db did = map_of (ls_nodes db) did"

definition ls_known :: "lsdb \<Rightarrow> did list" where
  "ls_known db = sort (dkeys (ls_nodes db))"

definition ls_alive :: "lsdb \<Rightarrow> did \<Rightarrow> pyfloat \<Rightarrow> bool" where
  "ls_alive db did now = (case ls_get db did of None \<Rightarrow> False | Some st \<Rightarrow> fle (fsub now (ns_heard_at st)) (ls_fail_after db))"

definition ls_roles :: "lsdb \<Rightarrow> did \<Rightarrow> string list" where
  "ls_roles db did = (case ls_get db did of None \<Rightarrow> [] | Some st \<Rightarrow> ns_roles st)"

definition with_role :: "lsdb \<Rightarrow> string \<Rightarrow> pyfloat \<Rightarrow> did list" where
  "with_role db role now = sort (filter (\<lambda>d. role \<in> set (ls_roles db d) \<and> ls_alive db d now) (dkeys (ls_nodes db)))"

definition last_neighbors :: "lsdb \<Rightarrow> did \<Rightarrow> did list" where
  "last_neighbors db did = (case ls_get db did of None \<Rightarrow> [] | Some st \<Rightarrow> ns_neighbors st)"

definition live_nodes :: "lsdb \<Rightarrow> pyfloat \<Rightarrow> did list \<Rightarrow> did list" where
  "live_nodes db now exclude = filter (\<lambda>d. d \<notin> set exclude \<and> ls_alive db d now) (dkeys (ls_nodes db))"

text \<open>A link exists only when both ends say so.\<close>

definition ls_adjacency :: "lsdb \<Rightarrow> pyfloat \<Rightarrow> did list \<Rightarrow> adjacency" where
  "ls_adjacency db now exclude =
     (let live = live_nodes db now exclude
      in map (\<lambda>a. (a, filter (\<lambda>b. b \<in> set live \<and> a \<in> set (last_neighbors db b)) (last_neighbors db a))) live)"

definition ls_transit :: "lsdb \<Rightarrow> pyfloat \<Rightarrow> did list \<Rightarrow> did list" where
  "ls_transit db now exclude =
     filter (\<lambda>d. list_ex (\<lambda>r. r \<in> set TRANSIT_ROLES) (ls_roles db d) \<and> ROLE_COORDINATOR \<notin> set (ls_roles db d) \<and>
                 d \<notin> set exclude \<and> ls_alive db d now) (dkeys (ls_nodes db))"

section \<open>Repairs\<close>

definition attachable :: "lsdb \<Rightarrow> did list \<Rightarrow> did \<Rightarrow> bool" where
  "attachable db transit d \<longleftrightarrow> d \<in> set transit \<or> ROLE_MODEL \<in> set (ls_roles db d)"

text \<open>The pairs of the neighbours a down node leaves behind that are not yet linked.\<close>

fun bypass_pairs :: "adjacency \<Rightarrow> did list \<Rightarrow> did list \<Rightarrow> (did \<times> did) list" where
  "bypass_pairs adj transit [] = []"
| "bypass_pairs adj transit (a # around) =
     map (\<lambda>b. (a, b)) (filter (\<lambda>b. b \<notin> set (dget adj a []) \<and> (a \<in> set transit \<or> b \<in> set transit)) around) @
     bypass_pairs adj transit around"

definition bypass_around :: "lsdb \<Rightarrow> adjacency \<Rightarrow> did list \<Rightarrow> did \<Rightarrow> (did \<times> did) list" where
  "bypass_around db adj transit gone =
     bypass_pairs adj transit
       (sorted_set (filter (\<lambda>n. n \<in> set (dkeys adj) \<and> attachable db transit n) (last_neighbors db gone)))"

text \<open>\<^verbatim>\<open>min(live_deciders, key=lambda d: (len(adj.get(d, ())), d), default=None)\<close>\<close>

fun least_linked :: "adjacency \<Rightarrow> did list \<Rightarrow> did option" where
  "least_linked adj [] = None"
| "least_linked adj (d # ds) =
     (case least_linked adj ds of
        None \<Rightarrow> Some d
      | Some e \<Rightarrow> if (length (dget adj d []), d) \<le> (length (dget adj e []), e) then Some d else Some e)"

text \<open>The loop over the model nodes without a live transit link, with the standby forwarders used so far.\<close>

fun recruit_loop ::
  "adjacency \<Rightarrow> did list \<Rightarrow> did list \<Rightarrow> did option \<Rightarrow> did list \<Rightarrow> did list \<Rightarrow> (did \<times> did) list \<Rightarrow> did list \<Rightarrow>
   (did \<times> did) list \<times> did list" where
  "recruit_loop adj transit pool anchor [] used recruit orphans = (recruit, orphans)"
| "recruit_loop adj transit pool anchor (p # ps) used recruit orphans =
     (if list_ex (\<lambda>n. n \<in> set transit) (dget adj p []) then recruit_loop adj transit pool anchor ps used recruit orphans
      else case find (\<lambda>r. r \<notin> set used \<and> r \<notin> set (dget adj p [])) pool of
             None \<Rightarrow> recruit_loop adj transit pool anchor ps used recruit (orphans @ [p])
           | Some helper \<Rightarrow>
               recruit_loop adj transit pool anchor ps (helper # used)
                 (recruit @ [(helper, p)] @
                  (case anchor of Some a \<Rightarrow> if a \<notin> set (dget adj helper []) then [(helper, a)] else [] | None \<Rightarrow> []))
                 (orphans @ [p]))"

definition plan_repairs ::
  "lsdb \<Rightarrow> pyfloat \<Rightarrow> did list \<Rightarrow> did list \<Rightarrow> did list \<Rightarrow> (did \<times> did) list \<times> (did \<times> did) list \<times> did list" where
  "plan_repairs db now down standby deciders =
     (let adj = ls_adjacency db now down; transit = ls_transit db now down;
          bypass = concat (map (bypass_around db adj transit) (sorted_set down));
          live_deciders = sort (filter (\<lambda>d. d \<in> set transit) deciders);
          pool = filter (\<lambda>d. d \<in> set transit \<and> ROLE_FORWARD \<in> set (ls_roles db d) \<and> ROLE_SERVE \<notin> set (ls_roles db d)) standby;
          models = sort (filter (\<lambda>d. ROLE_MODEL \<in> set (ls_roles db d)) (dkeys adj));
          (recruit, orphans) = recruit_loop adj transit pool (least_linked adj live_deciders) models [] [] []
      in (take MAX_LISTED bypass, take MAX_LISTED recruit, orphans))"


section \<open>The database holds the newest heartbeat of every node\<close>

definition heard :: "env \<Rightarrow> trust_roots \<Rightarrow> json \<Rightarrow> pyfloat \<Rightarrow> did \<Rightarrow> bool" where
  "heard E tr hb t d \<longleftrightarrow> check_heartbeat E hb tr (Some t) = Inr None \<and> pget (obj_of hb) ''node'' = JStr d"

definition hb_seq :: "json \<Rightarrow> int" where
  "hb_seq hb = intv (pget (obj_of hb) ''seq'')"

lemma heard_signed: "heard E tr hb t d \<Longrightarrow> verify_payload E hb (Some (tr_mesh tr)) = (True, Some d)"
  unfolding heard_def by (elim conjE heartbeat.signer) (auto simp: obj_of_def pget_def)

lemma heard_unique: "heard E tr hb t d \<Longrightarrow> heard E tr hb t' d' \<Longrightarrow> d = d'"
  by (simp add: heard_def)

lemma heard_exists:
  assumes "check_heartbeat E hb tr (Some t) = Inr None"
  obtains d where "heard E tr hb t d"
  using assms by (auto elim!: heartbeat.signer simp: heard_def obj_of_def pget_def)

lemma state_of_simps [simp]:
  "heard E tr hb t d \<Longrightarrow> ns_did (state_of tr (obj_of hb) t) = d"
  "ns_seq (state_of tr (obj_of hb) t) = hb_seq hb" "ns_heard_at (state_of tr v t) = t"
  by (simp_all add: state_of_def heard_def hb_seq_def strv_def Let_def)

text \<open>\<open>latest E tr ms d\<close>: what the database should hold for \<open>d\<close> after the heartbeats \<open>ms\<close>.\<close>

definition newest_of :: "env \<Rightarrow> trust_roots \<Rightarrow> (json \<times> pyfloat) set \<Rightarrow> did \<Rightarrow> node_state \<Rightarrow> bool" where
  "newest_of E tr M d st \<longleftrightarrow>
     (\<exists>(hb, t)\<in>M. heard E tr hb t d \<and> st = state_of tr (obj_of hb) t) \<and>
     (\<forall>(hb, t)\<in>M. heard E tr hb t d \<longrightarrow> hb_seq hb \<le> ns_seq st)"

definition expected :: "env \<Rightarrow> trust_roots \<Rightarrow> (json \<times> pyfloat) set \<Rightarrow> did \<Rightarrow> node_state option \<Rightarrow> bool" where
  "expected E tr M d r \<longleftrightarrow>
     (case r of None \<Rightarrow> (\<forall>(hb, t)\<in>M. \<not> heard E tr hb t d) | Some st \<Rightarrow> newest_of E tr M d st)"

definition lsdb_inv :: "env \<Rightarrow> trust_roots \<Rightarrow> (json \<times> pyfloat) set \<Rightarrow> lsdb \<Rightarrow> bool" where
  "lsdb_inv E tr M db \<longleftrightarrow> ls_trust db = tr \<and> distinct (dkeys (ls_nodes db)) \<and>
     (\<forall>d. expected E tr M d (ls_get db d))"

lemma newest_insert:
  "newest_of E tr M d st \<Longrightarrow> \<not> heard E tr hb t d \<or> hb_seq hb \<le> ns_seq st \<Longrightarrow> newest_of E tr (insert (hb, t) M) d st"
  unfolding newest_of_def by blast

lemma expected_skip: "expected E tr M d r \<Longrightarrow> \<not> heard E tr hb t d \<Longrightarrow> expected E tr (insert (hb, t) M) d r"
  by (cases r) (simp_all add: expected_def newest_insert)

lemma newest_new:
  assumes "heard E tr hb t d" "\<forall>(hb', t')\<in>M. heard E tr hb' t' d \<longrightarrow> hb_seq hb' \<le> hb_seq hb"
  shows "newest_of E tr (insert (hb, t) M) d (state_of tr (obj_of hb) t)"
  using assms unfolding newest_of_def by auto

lemma ls_merge_inv:
  assumes inv: "lsdb_inv E tr M db"
  shows "lsdb_inv E tr (insert (hb, t) M) (fst (ls_merge E hb t db))"
proof (cases "check_heartbeat E hb tr (Some t) = Inr None")
  case False
  then have n: "\<not> heard E tr hb t d" for d by (simp add: heard_def)
  have "fst (ls_merge E hb t db) = db"
    using False inv by (simp add: ls_merge_def lsdb_inv_def split: sum.split option.split)
  moreover have "expected E tr (insert (hb, t) M) d (ls_get db d)" for d
    using inv n by (simp add: lsdb_inv_def expected_skip)
  ultimately show ?thesis using inv by (simp add: lsdb_inv_def)
next
  case True
  then obtain d where h: "heard E tr hb t d" by (rule heard_exists)
  let ?st = "state_of tr (obj_of hb) t"
  have tr: "ls_trust db = tr" and look: "\<And>x. expected E tr M x (ls_get db x)" and dist: "distinct (dkeys (ls_nodes db))"
    using inv by (simp_all add: lsdb_inv_def)
  let ?old = "case ls_get db d of Some cur \<Rightarrow> hb_seq hb \<le> ns_seq cur | None \<Rightarrow> False"
  have m: "fst (ls_merge E hb t db) = (if ?old then db else db\<lparr>ls_nodes := dset d ?st (ls_nodes db)\<rparr>)"
    using True h by (simp add: ls_merge_def tr ls_get_def Let_def split: option.split)
  have other: "expected E tr (insert (hb, t) M) x (ls_get db x)" if "x \<noteq> d" for x
    using that look heard_unique [OF h] by (intro expected_skip) auto
  show ?thesis
  proof (cases ?old)
    case True
    then obtain cur where cur: "ls_get db d = Some cur" "hb_seq hb \<le> ns_seq cur" by (auto split: option.splits)
    with look [of d] have "newest_of E tr (insert (hb, t) M) d cur" by (intro newest_insert) (simp_all add: expected_def)
    with other cur(1) have "expected E tr (insert (hb, t) M) x (ls_get db x)" for x by (cases "x = d") (simp_all add: expected_def)
    with True tr dist show ?thesis by (simp add: lsdb_inv_def m)
  next
    case False
    have "\<forall>(hb', t')\<in>M. heard E tr hb' t' d \<longrightarrow> hb_seq hb' \<le> hb_seq hb"
    proof (cases "ls_get db d")
      case None
      with look [of d] show ?thesis by (auto simp: expected_def)
    next
      case (Some cur)
      with look [of d] False show ?thesis by (fastforce simp: expected_def newest_of_def)
    qed
    then have "newest_of E tr (insert (hb, t) M) d ?st" by (rule newest_new [OF h])
    with other have "expected E tr (insert (hb, t) M) x (if x = d then Some ?st else ls_get db x)" for x
      by (simp add: expected_def)
    moreover have "ls_get (db\<lparr>ls_nodes := dset d ?st (ls_nodes db)\<rparr>) x = (if x = d then Some ?st else ls_get db x)" for x
      by (simp add: ls_get_def)
    ultimately have "expected E tr (insert (hb, t) M) x (ls_get (db\<lparr>ls_nodes := dset d ?st (ls_nodes db)\<rparr>) x)" for x
      by (simp only:)
    moreover have "distinct (dkeys (dset d ?st (ls_nodes db)))" using dist by (simp add: dkeys_def distinct_update)
    ultimately show ?thesis using False tr by (simp add: lsdb_inv_def m)
  qed
qed

lemma lsdb_init_inv: "lsdb_inv E tr {} (lsdb_init tr fail_after)"
  by (simp add: lsdb_inv_def lsdb_init_def ls_get_def dkeys_def expected_def)

lemma lsdb_run_inv:
  "lsdb_inv E tr (set ms) (fold (\<lambda>(hb, t) db. fst (ls_merge E hb t db)) ms (lsdb_init tr fail_after))"
  by (induction ms rule: rev_induct) (auto simp: lsdb_init_inv ls_merge_inv split: prod.split)

lemma ls_fail_after_run [simp]:
  "ls_fail_after (fold (\<lambda>(hb, t) db. fst (ls_merge E hb t db)) ms db) = ls_fail_after db"
proof -
  have "ls_fail_after (fst (ls_merge E hb t db)) = ls_fail_after db" for hb t db
    by (simp add: ls_merge_def Let_def split: sum.split option.split)
  then show ?thesis by (induction ms arbitrary: db) (auto split: prod.split)
qed


section \<open>Confirmed links\<close>

lemma set_live_nodes [simp]: "d \<in> set (live_nodes db now exclude) \<longleftrightarrow> d \<notin> set exclude \<and> ls_alive db d now"
  by (auto simp: live_nodes_def ls_alive_def ls_get_def dkeys_def dest: map_of_SomeD split: option.splits intro: rev_image_eqI)

lemma dkeys_adjacency [simp]: "dkeys (ls_adjacency db now exclude) = live_nodes db now exclude"
  by (simp add: ls_adjacency_def dkeys_def Let_def comp_def)

lemma map_of_tagged: "map_of (map (\<lambda>a. (a, f a)) xs) k = (if k \<in> set xs then Some (f k) else None)"
  by (induction xs) auto

definition link :: "lsdb \<Rightarrow> pyfloat \<Rightarrow> did list \<Rightarrow> did \<Rightarrow> did \<Rightarrow> bool" where
  "link db now exclude a b \<longleftrightarrow> ls_alive db a now \<and> ls_alive db b now \<and> a \<notin> set exclude \<and> b \<notin> set exclude \<and>
     a \<in> set (last_neighbors db b) \<and> b \<in> set (last_neighbors db a)"

lemma adjacency_link: "b \<in> set (dget (ls_adjacency db now exclude) a []) \<longleftrightarrow> link db now exclude a b"
  by (auto simp: ls_adjacency_def Let_def dget_def map_of_tagged link_def)

lemma link_sym: "link db now exclude a b \<Longrightarrow> link db now exclude b a"
  by (auto simp: link_def)

lemma alive_newest:
  assumes "lsdb_inv E tr M db" "ls_alive db d now"
  obtains st where "ls_get db d = Some st" "newest_of E tr M d st" "fle (fsub now (ns_heard_at st)) (ls_fail_after db)"
  using assms by (auto simp: ls_alive_def lsdb_inv_def expected_def split: option.splits)

section \<open>Repairs\<close>

lemma bypass_pairs_sound:
  "(a, b) \<in> set (bypass_pairs adj transit around) \<Longrightarrow>
     a \<in> set around \<and> b \<in> set around \<and> b \<notin> set (dget adj a []) \<and> (a \<in> set transit \<or> b \<in> set transit) \<and> (distinct around \<longrightarrow> a \<noteq> b)"
  by (induction around) auto

lemma least_linked_mem: "least_linked adj ds = Some d \<Longrightarrow> d \<in> set ds"
  by (induction ds arbitrary: d) (auto split: option.splits if_splits)

definition orphan :: "adjacency \<Rightarrow> did list \<Rightarrow> did \<Rightarrow> bool" where
  "orphan adj transit p \<longleftrightarrow> \<not> list_ex (\<lambda>n. n \<in> set transit) (dget adj p [])"

lemma recruit_loop_orphans:
  "snd (recruit_loop adj transit pool anchor ps used recruit orphans) = orphans @ filter (orphan adj transit) ps"
  by (induction adj transit pool anchor ps used recruit orphans rule: recruit_loop.induct)
     (auto simp: orphan_def split: option.split)

definition recruit_ok :: "adjacency \<Rightarrow> did list \<Rightarrow> did list \<Rightarrow> did option \<Rightarrow> did set \<Rightarrow> did \<times> did \<Rightarrow> bool" where
  "recruit_ok adj transit pool anchor X hx \<longleftrightarrow>
     (case hx of (h, x) \<Rightarrow> h \<in> set pool \<and> (x \<in> X \<and> orphan adj transit x \<and> h \<notin> set (dget adj x []) \<or> anchor = Some x \<and> x \<notin> set (dget adj h [])))"

lemma recruit_loop_ok:
  "list_all (recruit_ok adj transit pool anchor X) recruit \<Longrightarrow> set ps \<subseteq> X \<Longrightarrow>
   list_all (recruit_ok adj transit pool anchor X) (fst (recruit_loop adj transit pool anchor ps used recruit orphans))"
proof (induction adj transit pool anchor ps used recruit orphans rule: recruit_loop.induct)
  case (2 adj transit pool anchor p ps used recruit orphans)
  show ?case
  proof (cases "list_ex (\<lambda>n. n \<in> set transit) (dget adj p [])")
    case True
    with 2 show ?thesis by simp
  next
    case False
    show ?thesis
    proof (cases "find (\<lambda>r. r \<notin> set used \<and> r \<notin> set (dget adj p [])) pool")
      case None
      with 2 False show ?thesis by simp
    next
      case (Some helper)
      then have "helper \<in> set pool" "helper \<notin> set (dget adj p [])" by (auto simp: find_Some_iff)
      with False 2(5) have "recruit_ok adj transit pool anchor X (helper, p)" by (simp add: recruit_ok_def orphan_def)
      moreover have "list_all (recruit_ok adj transit pool anchor X)
          (case anchor of Some a \<Rightarrow> if a \<notin> set (dget adj helper []) then [(helper, a)] else [] | None \<Rightarrow> [])"
        using \<open>helper \<in> set pool\<close> by (simp add: recruit_ok_def split: option.split)
      ultimately show ?thesis using 2(3) [OF False Some] 2(4,5) False Some by simp
    qed
  qed
qed simp


text \<open>The neighbours of a state are those its heartbeat lists, all of them DIDs.\<close>

lemma heard_neighbors:
  assumes "heard E tr hb t d"
  shows "list_all is_did (list_of (pget (obj_of hb) ''neighbors''))" "sorted_strings (list_of (pget (obj_of hb) ''neighbors''))"
proof -
  from assms have "heartbeat_shape (obj_of hb) (Some t) = Inr None" by (simp add: heard_def check_heartbeat_def)
  then have "did_list (pget (obj_of hb) ''neighbors'') MAX_NEIGHBORS" by (auto simp: heartbeat_shape_def reasons_None chain_iffs)
  then show "list_all is_did (list_of (pget (obj_of hb) ''neighbors''))" "sorted_strings (list_of (pget (obj_of hb) ''neighbors''))"
    by (auto simp: did_list_def list_of_def split: json.splits)
qed

lemma neighbor_listed:
  assumes "heard E tr hb t d" "st = state_of tr (obj_of hb) t" "y \<in> set (ns_neighbors st)"
  shows "JStr y \<in> set (list_of (pget (obj_of hb) ''neighbors''))" "is_did (JStr y)"
proof -
  from assms(2,3) obtain v where v: "v \<in> set (list_of (pget (obj_of hb) ''neighbors''))" "y = strv v"
    by (auto simp: state_of_def Let_def)
  with heard_neighbors(1) [OF assms(1)] have "is_did v" by (simp add: list_all_iff)
  with v show "JStr y \<in> set (list_of (pget (obj_of hb) ''neighbors''))" "is_did (JStr y)"
    by (auto simp: is_did_def strv_def split: json.splits)
qed

section \<open>Properties\<close>

abbreviation lsdb_run :: "env \<Rightarrow> trust_roots \<Rightarrow> pyfloat \<Rightarrow> (json \<times> pyfloat) list \<Rightarrow> lsdb" where
  "lsdb_run E tr fail_after ms \<equiv> fold (\<lambda>(hb, t) db. fst (ls_merge E hb t db)) ms (lsdb_init tr fail_after)"


text \<open>The coordinator's repairs repair: a bypass joins two different live nodes that a node which is down
  listed as its neighbours, that are not linked yet and of which one may carry transit; the orphans are
  exactly the live model nodes without a transit link; and a recruited pair attaches a standby forwarder
  that is in transit and does not serve to an orphan, or to a live decider, it is not linked to. Both lists
  respect the bound of an advisory.\<close>

theorem repairs_sound:
  assumes "plan_repairs db now down standby deciders = (bypass, recruit, orphans)"
    "adj = ls_adjacency db now down" "transit = ls_transit db now down"
  shows "length bypass \<le> MAX_LISTED \<and> length recruit \<le> MAX_LISTED \<and>
    (\<forall>(a, b)\<in>set bypass. a \<noteq> b \<and> ls_alive db a now \<and> ls_alive db b now \<and> a \<notin> set down \<and> b \<notin> set down \<and> \<not> link db now down a b \<and>
       (a \<in> set transit \<or> b \<in> set transit) \<and> (\<exists>gone\<in>set down. {a, b} \<subseteq> set (last_neighbors db gone))) \<and>
    set orphans = {p. ls_alive db p now \<and> p \<notin> set down \<and> ROLE_MODEL \<in> set (ls_roles db p) \<and> (\<forall>n\<in>set transit. \<not> link db now down p n)} \<and>
    (\<forall>(h, x)\<in>set recruit. h \<in> set standby \<and> h \<in> set transit \<and> ROLE_SERVE \<notin> set (ls_roles db h) \<and> \<not> link db now down h x \<and>
       (x \<in> set orphans \<or> x \<in> set deciders \<and> x \<in> set transit))"
proof -
  let ?pool = "filter (\<lambda>d. d \<in> set transit \<and> ROLE_FORWARD \<in> set (ls_roles db d) \<and> ROLE_SERVE \<notin> set (ls_roles db d)) standby"
  let ?anchor = "least_linked adj (sort (filter (\<lambda>d. d \<in> set transit) deciders))"
  let ?models = "sort (filter (\<lambda>d. ROLE_MODEL \<in> set (ls_roles db d)) (dkeys adj))"
  let ?loop = "recruit_loop adj transit ?pool ?anchor ?models [] [] []"
  from assms have plan: "bypass = take MAX_LISTED (concat (map (bypass_around db adj transit) (sorted_set down)))"
    "recruit = take MAX_LISTED (fst ?loop)" "orphans = snd ?loop"
    by (auto simp: plan_repairs_def Let_def case_prod_unfold)
  have orph: "orphan adj transit p \<longleftrightarrow> (\<forall>n\<in>set transit. \<not> link db now down p n)" for p
    by (auto simp: orphan_def list_ex_iff assms(2) adjacency_link)
  have os: "set orphans = {p. ls_alive db p now \<and> p \<notin> set down \<and> ROLE_MODEL \<in> set (ls_roles db p) \<and> (\<forall>n\<in>set transit. \<not> link db now down p n)}"
    by (auto simp: plan(3) recruit_loop_orphans orph) (auto simp: assms(2))
  have bp: "a \<noteq> b \<and> ls_alive db a now \<and> ls_alive db b now \<and> a \<notin> set down \<and> b \<notin> set down \<and> \<not> link db now down a b \<and>
      (a \<in> set transit \<or> b \<in> set transit) \<and> (\<exists>gone\<in>set down. {a, b} \<subseteq> set (last_neighbors db gone))" if "(a, b) \<in> set bypass" for a b
  proof -
    from that obtain gone where g: "gone \<in> set down" "(a, b) \<in> set (bypass_around db adj transit gone)"
      by (auto simp: plan(1) dest!: in_set_takeD)
    from bypass_pairs_sound [OF g(2) [unfolded bypass_around_def]] g(1) show ?thesis
      by (auto simp: assms(2) adjacency_link sorted_set_def)
  qed
  have rc: "h \<in> set standby \<and> h \<in> set transit \<and> ROLE_SERVE \<notin> set (ls_roles db h) \<and> \<not> link db now down h x \<and>
      (x \<in> set orphans \<or> x \<in> set deciders \<and> x \<in> set transit)" if "(h, x) \<in> set recruit" for h x
  proof -
    have "list_all (recruit_ok adj transit ?pool ?anchor (set ?models)) (fst ?loop)" by (rule recruit_loop_ok) simp_all
    with that have ok: "recruit_ok adj transit ?pool ?anchor (set ?models) (h, x)"
      by (auto simp: plan(2) list_all_iff dest: in_set_takeD)
    then have h: "h \<in> set ?pool" by (simp add: recruit_ok_def)
    have "link db now down x h \<longleftrightarrow> link db now down h x" using link_sym by blast
    with ok have "\<not> link db now down h x" by (auto simp: recruit_ok_def assms(2) adjacency_link)
    moreover have "x \<in> set orphans \<or> x \<in> set deciders \<and> x \<in> set transit"
    proof (cases "x \<in> set ?models \<and> orphan adj transit x")
      case True
      then show ?thesis by (simp add: plan(3) recruit_loop_orphans)
    next
      case False
      with ok have "?anchor = Some x" by (auto simp: recruit_ok_def)
      then show ?thesis by (auto dest: least_linked_mem)
    qed
    ultimately show ?thesis using h by simp
  qed
  have "length bypass \<le> MAX_LISTED" "length recruit \<le> MAX_LISTED" by (simp_all add: plan(1,2))
  with os bp rc show ?thesis by (intro conjI) (assumption | clarify, assumption | blast)+
qed


section \<open>Concrete heartbeats\<close>

definition ref_heartbeat :: "char \<Rightarrow> string list \<Rightarrow> did list \<Rightarrow> obj res" where
  "ref_heartbeat c roles neighbors = make_heartbeat ref_env32 (ref_seed c) roles 1 neighbors (Fin 0) [] (Fin 100)"

lemma is_did_ref [simp]: "is_did (JStr (ref_did c))"
  by (simp add: is_did_def)

lemma ref_heartbeat_made:
  assumes "sorted_set roles = roles" "set roles \<subseteq> set MESH_ROLES" "sorted_set ns = ns" "length ns \<le> MAX_NEIGHBORS"
    "ref_did c \<notin> set ns" "list_all (\<lambda>d. is_did (JStr d)) ns"
  obtains hb where "ref_heartbeat c roles ns = Inr hb" "heard ref_env32 ref_roots (JObj hb) (Fin 100) (ref_did c)"
    "state_of ref_roots hb (Fin 100) = \<lparr>ns_did = ref_did c, ns_roles = granted_roles ref_roots (ref_did c) roles, ns_seq = 1,
       ns_neighbors = ns, ns_load = Fin 0, ns_leases = [], ns_heard_at = Fin 100\<rparr>"
proof -
  let ?body = "[(''type'', JStr HEARTBEAT), (''node'', JStr (ref_did c)), (''roles'', JList (map JStr roles)), (''seq'', JInt 1),
     (''neighbors'', JList (map JStr ns)), (''load'', JFloat (Fin 0)), (''leases'', JList []), (''issued_at'', JFloat (Fin 100))]"
  have "\<not> has_envelope ?body" by (simp add: has_envelope_def dkeys_def)
  then obtain r where r: "sign_payload ref_env32 (ref_seed c) ?body = Inr r"
    using sign_payload_total [OF ref_env32_facts(1) length_ref_seed] by blast
  have "filter (\<lambda>d. d \<noteq> ref_did c) ns = ns" using assms(5) by (intro filter_True) auto
  with r assms(1,3,4) have made: "ref_heartbeat c roles ns = Inr r"
    by (simp add: ref_heartbeat_def make_heartbeat_def Let_def)
  have fields: "pget r ''type'' = JStr HEARTBEAT" "pget r ''node'' = JStr (ref_did c)" "pget r ''roles'' = JList (map JStr roles)"
    "pget r ''seq'' = JInt 1" "pget r ''neighbors'' = JList (map JStr ns)" "pget r ''load'' = JFloat (Fin 0)"
    "pget r ''leases'' = JList []" "pget r ''issued_at'' = JFloat (Fin 100)"
    by (simp_all add: sign_payload_fields [OF r] pget_def)
  have hashable: "\<not> list_ex (\<lambda>v. as_list v \<noteq> None \<or> as_obj v \<noteq> None) (map JStr roles)" by (simp add: list_ex_iff)
  have "heartbeat_shape r (Some (Fin 100)) = Inr None"
    using assms hashable
    by (auto simp: heartbeat_shape_def reasons_None chain_iffs fields sort_hashable_def did_list_def sorted_strings_def need_num_def
        numv_def MAX_SKEW_def list_all_iff)
  moreover have "signed_by ref_env32 (JObj r) HEARTBEAT ''node'' (tr_mesh ref_roots) = None"
    using r fields(1,2) by (rule ref_signed) (simp add: ref_roots_def)
  ultimately have h: "heard ref_env32 ref_roots (JObj r) (Fin 100) (ref_did c)"
    by (simp add: heard_def check_heartbeat_def fields obj_of_def)
  show thesis
    by (rule that [OF made h]) (simp add: state_of_def fields strv_def list_of_def intv_def numv_def comp_def Let_def)
qed

lemma lsdb_heard:
  assumes "heard E (ls_trust db) hb t d" "ls_get db d = None"
  shows "fst (ls_merge E hb t db) = db\<lparr>ls_nodes := dset d (state_of (ls_trust db) (obj_of hb) t) (ls_nodes db)\<rparr>"
  using assms by (simp add: ls_merge_def Let_def heard_def [of E _ hb t d] ls_get_def state_of_simps(1) [OF assms(1)])


text \<open>A standby forwarder that is a model node as well is recruited to itself when it has lost its last transit
  link, and no participant accepts an advisory with such a pair.\<close>

theorem self_recruit_refused:
  "\<exists>hb. ref_heartbeat (CHR ''p'') [''forward'', ''model''] [] = Inr hb \<and>
     plan_repairs (lsdb_run ref_env32 ref_roots (Fin 7) [(JObj hb, Fin 100)]) (Fin 101) [] [ref_did (CHR ''p'')] [] =
       ([], [(ref_did (CHR ''p''), ref_did (CHR ''p''))], [ref_did (CHR ''p'')]) \<and>
     (\<forall>adv now epoch. make_advisory ref_env32 (ref_seed (CHR ''c'')) epoch [] [] [] [(ref_did (CHR ''p''), ref_did (CHR ''p''))] now = Inr adv \<longrightarrow>
        check_advisory ref_env32 (JObj adv) ref_roots None \<noteq> Inr None)"
proof -
  let ?p = "ref_did (CHR ''p'')"
  have ok: "sorted_set [''forward'', ''model''] = [''forward'', ''model'']" "sorted_set [] = ([] :: did list)" by code_simp (simp add: sorted_set_def)
  obtain hb where hb: "ref_heartbeat (CHR ''p'') [''forward'', ''model''] [] = Inr hb" "heard ref_env32 ref_roots (JObj hb) (Fin 100) ?p"
    "state_of ref_roots hb (Fin 100) = \<lparr>ns_did = ?p, ns_roles = granted_roles ref_roots ?p [''forward'', ''model''], ns_seq = 1,
       ns_neighbors = [], ns_load = Fin 0, ns_leases = [], ns_heard_at = Fin 100\<rparr>"
    by (rule ref_heartbeat_made [OF ok(1) _ ok(2), of "CHR ''p''"]) (simp_all add: MESH_ROLES_def)
  let ?db = "lsdb_run ref_env32 ref_roots (Fin 7) [(JObj hb, Fin 100)]"
  have db: "?db = \<lparr>ls_trust = ref_roots, ls_fail_after = Fin 7, ls_nodes = [(?p, state_of ref_roots hb (Fin 100))]\<rparr>"
    using hb(2) by (simp add: lsdb_heard ls_get_def lsdb_init_def obj_of_def)
  have roles: "granted_roles ref_roots ?p [''forward'', ''model''] = [''forward'', ''model'']"
    by (simp add: granted_roles_def role_defs)
  have view: "ls_roles ?db ?p = [''forward'', ''model'']" "ls_alive ?db ?p (Fin 101)" "last_neighbors ?db ?p = []"
    "dkeys (ls_nodes ?db) = [?p]"
    unfolding db by (simp_all add: ls_roles_def ls_alive_def last_neighbors_def ls_get_def hb(3) roles dkeys_def)
  then have "ls_adjacency ?db (Fin 101) [] = [(?p, [])]" "ls_transit ?db (Fin 101) [] = [?p]"
    by (simp_all add: ls_adjacency_def live_nodes_def ls_transit_def TRANSIT_ROLES_def role_defs del: fold_simps)
  with view have "plan_repairs ?db (Fin 101) [] [?p] [] = ([], [(?p, ?p)], [?p])"
    by (simp add: plan_repairs_def role_defs dkeys_def dget_def MAX_LISTED_def sorted_set_def del: fold_simps)
  moreover have "check_advisory ref_env32 (JObj adv) ref_roots None \<noteq> Inr None"
    if "make_advisory ref_env32 (ref_seed (CHR ''c'')) epoch [] [] [] [(?p, ?p)] now = Inr adv" for adv now epoch
  proof -
    from that obtain body where "sign_payload ref_env32 (ref_seed (CHR ''c'')) body = Inr adv"
      "map_of body ''recruit'' = Some (JList [JList [JStr ?p, JStr ?p]])"
      by (auto simp: make_advisory_def MAX_LISTED_def)
    then have "pget adv ''recruit'' = JList [JList [JStr ?p, JStr ?p]]" by (simp add: sign_payload_fields pget_def)
    then show ?thesis by (auto simp: check_advisory_def advisory_shape_def reasons_None chain_iffs obj_of_def pair_list_def)
  qed
  ultimately show ?thesis using hb(1) by blast
qed

theorem repairs_sound_witness:
  "\<exists>hb. ref_heartbeat (CHR ''p'') [''model''] [] = Inr hb \<and>
     (\<exists>bypass recruit orphans. plan_repairs (lsdb_run ref_env32 ref_roots (Fin 7) [(JObj hb, Fin 100)]) (Fin 101) [] [] [] = (bypass, recruit, orphans) \<and>
        ref_did (CHR ''p'') \<in> set orphans)"
proof -
  let ?p = "ref_did (CHR ''p'')"
  have ok: "sorted_set [''model''] = [''model'']" "sorted_set [] = ([] :: did list)" by (simp_all add: sorted_set_def)
  obtain hb where hb: "ref_heartbeat (CHR ''p'') [''model''] [] = Inr hb" "heard ref_env32 ref_roots (JObj hb) (Fin 100) ?p"
    "state_of ref_roots hb (Fin 100) = \<lparr>ns_did = ?p, ns_roles = granted_roles ref_roots ?p [''model''], ns_seq = 1,
       ns_neighbors = [], ns_load = Fin 0, ns_leases = [], ns_heard_at = Fin 100\<rparr>"
    by (rule ref_heartbeat_made [OF ok(1) _ ok(2), of "CHR ''p''"]) (simp_all add: MESH_ROLES_def)
  let ?db = "lsdb_run ref_env32 ref_roots (Fin 7) [(JObj hb, Fin 100)]"
  have db: "?db = \<lparr>ls_trust = ref_roots, ls_fail_after = Fin 7, ls_nodes = [(?p, state_of ref_roots hb (Fin 100))]\<rparr>"
    using hb(2) by (simp add: lsdb_heard ls_get_def lsdb_init_def obj_of_def)
  obtain bypass recruit orphans where plan: "plan_repairs ?db (Fin 101) [] [] [] = (bypass, recruit, orphans)"
    by (cases "plan_repairs ?db (Fin 101) [] [] []") auto
  from repairs_sound [OF plan refl refl, THEN conjunct2, THEN conjunct2, THEN conjunct2, THEN conjunct1]
  have "?p \<in> set orphans \<longleftrightarrow> ls_alive ?db ?p (Fin 101) \<and> ROLE_MODEL \<in> set (ls_roles ?db ?p) \<and>
      (\<forall>n\<in>set (ls_transit ?db (Fin 101) []). \<not> link ?db (Fin 101) [] ?p n)" by simp
  also have "\<dots>"
    unfolding db
    by (simp add: ls_alive_def ls_roles_def ls_get_def hb(3) granted_roles_def role_defs link_def last_neighbors_def)
  finally show ?thesis using hb(1) plan by blast
qed

end
