(* ===== verification/Router.thy ===== *)
theory Router
  imports Link_State
begin

text \<open>
  \<^verbatim>\<open>inference/router.py\<close>: the default decision policy of a serving node. A view is the node's snapshot of
  what it may route over; loads are finite floats, read as exact rationals. \<open>plan\<close> takes the models and
  pins of a request that passed its check.
\<close>

record view =
  v_me :: did
  v_mode :: string
  v_adjacency :: adjacency
  v_transit :: "did list"
  v_candidates :: "(did \<times> string) list"
  v_central :: "(did, did list) dict"
  v_load :: "(did, rat) dict"

definition load_of :: "view \<Rightarrow> did \<Rightarrow> rat" where
  "load_of view d = dget (v_load view) d 0"

definition node_cost :: "view \<Rightarrow> did \<Rightarrow> rat" where
  "node_cost view d = 1 + load_of view d"

definition path_to :: "view \<Rightarrow> did list \<Rightarrow> did \<Rightarrow> did list \<Rightarrow> did list option" where
  "path_to view avoid provider extra =
     shortest_path (v_adjacency view) (v_me view) provider (v_transit view) (avoid @ extra) (node_cost view)"

text \<open>An entry of the score list: cost, load, provider, model, path, compared in this order.\<close>

type_synonym entry = "rat \<times> rat \<times> did \<times> string \<times> did list"

definition scored_entries :: "view \<Rightarrow> did list \<Rightarrow> (did \<times> string) list \<Rightarrow> entry list" where
  "scored_entries view avoid candidates =
     sort (concat (map (\<lambda>(provider, model).
       case path_to view avoid provider [] of
         None \<Rightarrow> []
       | Some path \<Rightarrow> [(path_cost (node_cost view) path, load_of view provider, provider, model, path)]) candidates))"

section \<open>Picking\<close>

text \<open>One pass of \<^verbatim>\<open>_pick\<close>: what was taken so far, with the providers and models used.\<close>

type_synonym taken = "(did \<times> string \<times> did list) list \<times> did list \<times> string list"

fun pick_pass :: "bool \<Rightarrow> int \<Rightarrow> entry list \<Rightarrow> taken \<Rightarrow> taken" where
  "pick_pass different n [] t = t"
| "pick_pass different n ((c, l, provider, model, path) # es) (out, providers, models) =
     (if n \<le> int (length out) then (out, providers, models)
      else if provider \<in> set providers \<or> different \<and> model \<in> set models
      then pick_pass different n es (out, providers, models)
      else pick_pass different n es (out @ [(provider, model, path)], provider # providers, model # models))"

definition pick :: "bool \<Rightarrow> entry list \<Rightarrow> int \<Rightarrow> string list \<Rightarrow> (did \<times> string \<times> did list) list" where
  "pick diverse entries n taken_models =
     (let start = ([], [], taken_models);
          first = (if diverse \<and> (1 < n \<or> taken_models \<noteq> []) then pick_pass True n entries start else start)
      in fst (pick_pass False n entries first))"

section \<open>The plan\<close>

text \<open>The loop over the picked entries: beyond the first leg a path that shares no interior node with the legs
  already taken, when there is one.\<close>

fun add_legs :: "view \<Rightarrow> did list \<Rightarrow> (did \<times> string \<times> did list) list \<Rightarrow> leg list \<Rightarrow> leg list" where
  "add_legs view avoid [] legs = legs"
| "add_legs view avoid ((provider, model, path) # picked) legs =
     (let used = concat (map interior legs);
          path' = (if used = [] then path else case path_to view avoid provider used of Some q \<Rightarrow> q | None \<Rightarrow> path)
      in add_legs view avoid picked (legs @ [\<lparr>l_provider = provider, l_model = model, l_path = path', l_via = VIA_MESH\<rparr>]))"

definition coordinator_for :: "view \<Rightarrow> did list \<Rightarrow> did \<Rightarrow> did option" where
  "coordinator_for view avoid provider =
     find (\<lambda>c. c \<notin> set avoid \<and> provider \<in> set (dget (v_central view) c [])) (sort (dkeys (v_central view)))"

definition central_entries :: "view \<Rightarrow> did list \<Rightarrow> (did \<times> string) list \<Rightarrow> did list \<Rightarrow> entry list" where
  "central_entries view avoid candidates taken =
     concat (map (\<lambda>(load, provider, model).
       case coordinator_for view avoid provider of
         None \<Rightarrow> []
       | Some c \<Rightarrow> [(load, 0, provider, model, [v_me view, c, provider])])
       (sort (map (\<lambda>(p, m). (load_of view p, p, m)) (filter (\<lambda>(p, m). p \<notin> set taken) candidates))))"

definition central_leg :: "did \<times> string \<times> did list \<Rightarrow> leg" where
  "central_leg e = (case e of (provider, model, path) \<Rightarrow> \<lparr>l_provider = provider, l_model = model, l_path = path, l_via = VIA_CENTRAL\<rparr>)"

definition plan :: "bool \<Rightarrow> view \<Rightarrow> string list \<Rightarrow> (did \<times> string) list \<Rightarrow> int \<Rightarrow> did list \<Rightarrow> leg list res" where
  "plan diverse view models pins quorum avoid =
     (let wanted = filter (\<lambda>(p, m). m \<in> set models) (v_candidates view);
          candidates = (if pins = [] then wanted else filter (\<lambda>c. c \<in> set pins) wanted);
          missing = filter (\<lambda>p. p \<notin> set candidates) pins;
          needed = (if pins = [] then quorum else int (card (set pins)))
      in if missing \<noteq> [] then Inl (NoRoute (''pinned model node not eligible: '' @ fst (hd (sort missing))))
         else
           let legs = add_legs view avoid (pick diverse (scored_entries view avoid candidates) needed []) [];
               legs' =
                 (if int (length legs) < needed \<and> v_mode view \<noteq> MODE_LOCKDOWN
                  then legs @ map central_leg
                         (pick diverse (central_entries view avoid candidates (map l_provider legs)) (needed - int (length legs))
                            (map l_model legs))
                  else legs)
           in if int (length legs') < needed
              then Inl (NoRoute (int_str (int (length legs')) @ '' of '' @ int_str needed @ '' model nodes reachable''))
              else Inr legs')"


section \<open>Reachability\<close>

definition mesh_reachable :: "view \<Rightarrow> did list \<Rightarrow> did \<Rightarrow> bool" where
  "mesh_reachable view avoid p \<longleftrightarrow>
     v_me view \<in> set (dkeys (v_adjacency view)) \<and> p \<in> set (dkeys (v_adjacency view)) \<and> p \<notin> set avoid \<and>
     (\<exists>q. mesh_path (v_adjacency view) (v_transit view) avoid (v_me view) p q)"

definition nonneg_loads :: "view \<Rightarrow> bool" where
  "nonneg_loads view \<longleftrightarrow> (\<forall>d. 0 \<le> load_of view d)"

lemma mesh_path_mono: "mesh_path adj transit (avoid @ extra) src dst p \<Longrightarrow> mesh_path adj transit avoid src dst p"
  by (auto simp: mesh_path_def)

lemma path_to_spec:
  assumes "nonneg_loads view"
  shows "path_to view avoid p extra = Some q \<Longrightarrow> mesh_path (v_adjacency view) (v_transit view) avoid (v_me view) p q \<and> mesh_reachable view avoid p"
    and "path_to view avoid p [] = None \<Longrightarrow> \<not> mesh_reachable view avoid p"
proof -
  have cost: "\<forall>v. 0 \<le> node_cost view v" using assms by (simp add: nonneg_loads_def node_cost_def add_nonneg_nonneg)
  show "mesh_path (v_adjacency view) (v_transit view) avoid (v_me view) p q \<and> mesh_reachable view avoid p"
    if q: "path_to view avoid p extra = Some q"
  proof -
    from q have k: "v_me view \<in> set (dkeys (v_adjacency view))" "p \<in> set (dkeys (v_adjacency view))" "p \<notin> set (avoid @ extra)"
      by (auto simp: path_to_def shortest_path_def split: if_splits)
    with shortest_path_spec [OF cost k, of "v_transit view"] q
    have "mesh_path (v_adjacency view) (v_transit view) avoid (v_me view) p q"
      by (auto simp: path_to_def intro: mesh_path_mono)
    with k show ?thesis by (auto simp: mesh_reachable_def)
  qed
  show "\<not> mesh_reachable view avoid p" if "path_to view avoid p [] = None"
  proof
    assume r: "mesh_reachable view avoid p"
    then have k: "v_me view \<in> set (dkeys (v_adjacency view))" "p \<in> set (dkeys (v_adjacency view))" "p \<notin> set avoid"
      by (simp_all add: mesh_reachable_def)
    with shortest_path_spec [OF cost k, of "v_transit view"] that r show False
      by (simp add: path_to_def mesh_reachable_def)
  qed
qed

section \<open>Picking takes distinct providers, as many as there are\<close>

definition picked_of :: "entry \<Rightarrow> did \<times> string \<times> did list" where
  "picked_of e = (case e of (c, l, provider, model, path) \<Rightarrow> (provider, model, path))"

lemma picked_of_simp [simp]: "picked_of (c, l, provider, model, path) = (provider, model, path)"
  by (simp add: picked_of_def)

text \<open>What a pass keeps and reaches: the used providers are those of the list, each once; everything taken
  came from the entries; the list is full or every entry's provider is used (the last only for a pass that does
  not insist on new models).\<close>

definition pass_ok :: "entry set \<Rightarrow> (did \<times> string \<times> did list) list \<Rightarrow> did list \<Rightarrow> int \<Rightarrow> bool" where
  "pass_ok E out ps n \<longleftrightarrow> set ps = fst ` set out \<and> distinct (map fst out) \<and> set out \<subseteq> picked_of ` E \<and> int (length out) \<le> max n 0"

lemma pass_ok_snoc:
  assumes "pass_ok E out ps n" "\<not> n \<le> int (length out)" "e \<in> E" "picked_of e = (provider, model, path)" "provider \<notin> set ps"
  shows "pass_ok E (out @ [(provider, model, path)]) (provider # ps) n"
proof -
  have "(provider, model, path) \<in> picked_of ` E" using assms(3,4) by force
  with assms show ?thesis by (simp add: pass_ok_def)
qed

lemma pick_pass_ok:
  assumes "pass_ok E out ps n" "set es \<subseteq> E" "pick_pass different n es (out, ps, ms) = (out', ps', ms')"
  shows "pass_ok E out' ps' n"
  using assms
proof (induction es arbitrary: out ps ms)
  case (Cons e es)
  obtain c l provider model path where e: "e = (c, l, provider, model, path)" by (cases e)
  show ?case
  proof (cases "n \<le> int (length out) \<or> provider \<in> set ps \<or> different \<and> model \<in> set ms")
    case True
    then show ?thesis using Cons e by (auto split: if_splits)
  next
    case False
    with Cons.prems e have "pass_ok E (out @ [(provider, model, path)]) (provider # ps) n"
      by (intro pass_ok_snoc [of E out ps n e]) simp_all
    from Cons.IH [OF this, of "model # ms"] Cons.prems e False show ?thesis by (auto split: if_splits)
  qed
qed simp

lemma pick_pass_mono:
  "pick_pass different n es (out, ps, ms) = (out', ps', ms') \<Longrightarrow> set ps \<subseteq> set ps'"
proof (induction es arbitrary: out ps ms)
  case (Cons e es)
  obtain c l provider model path where e: "e = (c, l, provider, model, path)" by (cases e)
  show ?case
  proof (cases "n \<le> int (length out) \<or> provider \<in> set ps \<or> different \<and> model \<in> set ms")
    case True
    then show ?thesis using Cons e by (auto split: if_splits)
  next
    case False
    from Cons.IH [of "out @ [(provider, model, path)]" "provider # ps" "model # ms"] Cons.prems e False show ?thesis by (auto split: if_splits)
  qed
qed simp

lemma pick_pass_full:
  "pick_pass False n es (out, ps, ms) = (out', ps', ms') \<Longrightarrow>
     n \<le> int (length out') \<or> (\<forall>e\<in>set es. fst (picked_of e) \<in> set ps')"
proof (induction es arbitrary: out ps ms)
  case (Cons e es)
  obtain c l provider model path where e: "e = (c, l, provider, model, path)" by (cases e)
  show ?case
  proof (cases "n \<le> int (length out)")
    case True
    then show ?thesis using Cons.prems e by simp
  next
    case n: False
    show ?thesis
    proof (cases "provider \<in> set ps")
      case True
      with Cons.prems e n have "pick_pass False n es (out, ps, ms) = (out', ps', ms')" by simp
      with Cons.IH [OF this] pick_pass_mono [OF this] True e show ?thesis by auto
    next
      case False
      with Cons.prems e n
      have "pick_pass False n es (out @ [(provider, model, path)], provider # ps, model # ms) = (out', ps', ms')" by simp
      with Cons.IH [OF this] pick_pass_mono [OF this] e show ?thesis by auto
    qed
  qed
qed simp

lemma pick_spec:
  assumes "pick diverse es n models = out"
  shows "pass_ok (set es) out (map fst out) n"
    and "n \<le> int (length out) \<or> (\<forall>e\<in>set es. fst (picked_of e) \<in> fst ` set out)"
proof -
  define first where "first = (if diverse \<and> (1 < n \<or> models \<noteq> []) then pick_pass True n es ([], [], models) else ([], [], models))"
  obtain out1 ps1 ms1 where f: "first = (out1, ps1, ms1)" by (cases first)
  have start: "pass_ok (set es) [] [] n" by (simp add: pass_ok_def)
  have one: "pass_ok (set es) out1 ps1 n"
  proof (cases "diverse \<and> (1 < n \<or> models \<noteq> [])")
    case True
    with f have "pick_pass True n es ([], [], models) = (out1, ps1, ms1)" by (simp add: first_def)
    then show ?thesis by (rule pick_pass_ok [OF start order_refl])
  next
    case False
    with f start show ?thesis by (simp add: first_def split: if_splits)
  qed
  obtain ps' ms' where two: "pick_pass False n es (out1, ps1, ms1) = (out, ps', ms')"
    using assms f by (cases "pick_pass False n es (out1, ps1, ms1)") (simp add: pick_def first_def Let_def)
  have ok: "pass_ok (set es) out ps' n" by (rule pick_pass_ok [OF one order_refl two])
  then show "pass_ok (set es) out (map fst out) n" by (simp add: pass_ok_def)
  from ok have "set ps' = fst ` set out" by (simp add: pass_ok_def)
  with pick_pass_full [OF two] show "n \<le> int (length out) \<or> (\<forall>e\<in>set es. fst (picked_of e) \<in> fst ` set out)" by simp
qed

section \<open>Legs\<close>

definition mesh_leg :: "view \<Rightarrow> did list \<Rightarrow> leg \<Rightarrow> bool" where
  "mesh_leg view avoid l \<longleftrightarrow> l_via l = VIA_MESH \<and>
     mesh_path (v_adjacency view) (v_transit view) avoid (v_me view) (l_provider l) (l_path l)"

definition fallback_leg :: "view \<Rightarrow> did list \<Rightarrow> leg \<Rightarrow> bool" where
  "fallback_leg view avoid l \<longleftrightarrow> l_via l = VIA_CENTRAL \<and> v_mode view \<noteq> MODE_LOCKDOWN \<and>
     (\<exists>c. c \<notin> set avoid \<and> l_provider l \<in> set (dget (v_central view) c []) \<and> l_path l = [v_me view, c, l_provider l])"

lemma detour_path:
  assumes "nonneg_loads view" "mesh_path (v_adjacency view) (v_transit view) avoid (v_me view) p path"
  shows "mesh_path (v_adjacency view) (v_transit view) avoid (v_me view) p
     (if used = [] then path else case path_to view avoid p used of Some q \<Rightarrow> q | None \<Rightarrow> path)"
proof (cases "path_to view avoid p used")
  case None
  with assms(2) show ?thesis by simp
next
  case (Some q)
  with path_to_spec(1) [OF assms(1) Some] assms(2) show ?thesis by simp
qed

definition on_mesh :: "view \<Rightarrow> did list \<Rightarrow> did \<times> string \<times> did list \<Rightarrow> bool" where
  "on_mesh view avoid e \<longleftrightarrow> mesh_path (v_adjacency view) (v_transit view) avoid (v_me view) (fst e) (snd (snd e))"

lemma add_legs_spec:
  assumes "nonneg_loads view"
  shows "list_all (on_mesh view avoid) picked \<Longrightarrow> list_all (mesh_leg view avoid) legs \<Longrightarrow>
    list_all (mesh_leg view avoid) (add_legs view avoid picked legs) \<and>
    map (\<lambda>l. (l_provider l, l_model l)) (add_legs view avoid picked legs) =
      map (\<lambda>l. (l_provider l, l_model l)) legs @ map (\<lambda>e. (fst e, fst (snd e))) picked"
proof (induction picked arbitrary: legs)
  case (Cons e picked)
  obtain provider model path where e: "e = (provider, model, path)" by (cases e)
  let ?used = "concat (map interior legs)"
  let ?path = "if ?used = [] then path else case path_to view avoid provider ?used of Some q \<Rightarrow> q | None \<Rightarrow> path"
  let ?leg = "\<lparr>l_provider = provider, l_model = model, l_path = ?path, l_via = VIA_MESH\<rparr>"
  have "mesh_path (v_adjacency view) (v_transit view) avoid (v_me view) provider ?path"
    using Cons.prems(1) e by (intro detour_path assms) (simp add: on_mesh_def)
  then have "mesh_leg view avoid ?leg" by (simp add: mesh_leg_def)
  then have "list_all (mesh_leg view avoid) (legs @ [?leg])" using Cons.prems(2) by simp
  with Cons.IH [of "legs @ [?leg]"] Cons.prems(1) e show ?case by (simp add: Let_def)
qed simp

section \<open>The entries offered\<close>

definition pair_of :: "did \<times> string \<times> did list \<Rightarrow> did \<times> string" where
  "pair_of e = (fst e, fst (snd e))"

lemma scored_sound:
  assumes "nonneg_loads view" "e \<in> set (scored_entries view avoid cands)"
  shows "pair_of (picked_of e) \<in> set cands \<and> on_mesh view avoid (picked_of e)"
proof -
  from assms(2) obtain provider model path where c: "(provider, model) \<in> set cands"
    and p: "path_to view avoid provider [] = Some path"
    and e: "e = (path_cost (node_cost view) path, load_of view provider, provider, model, path)"
    by (auto simp: scored_entries_def split: option.splits)
  from path_to_spec(1) [OF assms(1) p] c e show ?thesis by (simp add: pair_of_def on_mesh_def)
qed

lemma scored_complete:
  assumes "nonneg_loads view" "(p, m) \<in> set cands" "mesh_reachable view avoid p"
  shows "\<exists>e\<in>set (scored_entries view avoid cands). fst (picked_of e) = p"
proof -
  from path_to_spec(2) [OF assms(1), of avoid p] assms(3) obtain path where "path_to view avoid p [] = Some path" by auto
  with assms(2) have "(path_cost (node_cost view) path, load_of view p, p, m, path) \<in> set (scored_entries view avoid cands)"
    by (force simp: scored_entries_def)
  then show ?thesis by (rule bexI [rotated]) simp
qed

lemma coordinator_for_spec:
  "coordinator_for view avoid p = Some c \<Longrightarrow> c \<notin> set avoid \<and> p \<in> set (dget (v_central view) c [])"
  by (auto simp: coordinator_for_def find_Some_iff)

lemma central_sound:
  assumes "e \<in> set (central_entries view avoid cands taken)"
  shows "pair_of (picked_of e) \<in> set cands" "fst (picked_of e) \<notin> set taken"
    "v_mode view \<noteq> MODE_LOCKDOWN \<Longrightarrow> fallback_leg view avoid (central_leg (picked_of e))"
proof -
  from assms obtain p m c where "(p, m) \<in> set cands" "p \<notin> set taken" "coordinator_for view avoid p = Some c"
    and e: "picked_of e = (p, m, [v_me view, c, p])"
    by (auto simp: central_entries_def split: option.splits)
  with coordinator_for_spec [of view avoid p c]
  show "pair_of (picked_of e) \<in> set cands" "fst (picked_of e) \<notin> set taken"
    "v_mode view \<noteq> MODE_LOCKDOWN \<Longrightarrow> fallback_leg view avoid (central_leg (picked_of e))"
    by (auto simp: pair_of_def fallback_leg_def central_leg_def)
qed

lemma central_complete:
  assumes "(p, m) \<in> set cands" "p \<notin> set taken" "coordinator_for view avoid p \<noteq> None"
  shows "\<exists>e\<in>set (central_entries view avoid cands taken). fst (picked_of e) = p"
proof -
  from assms(3) obtain c where c: "coordinator_for view avoid p = Some c" by auto
  have "(load_of view p, p, m) \<in> set (sort (map (\<lambda>(p, m). (load_of view p, p, m)) (filter (\<lambda>(p, m). p \<notin> set taken) cands)))"
    using assms(1,2) by (force simp: image_iff)
  with c have "(load_of view p, 0, p, m, [v_me view, c, p]) \<in> set (central_entries view avoid cands taken)"
    by (force simp: central_entries_def)
  then show ?thesis by (rule bexI [rotated]) simp
qed

section \<open>The plan is exact\<close>

definition eligible_pairs :: "view \<Rightarrow> string list \<Rightarrow> (did \<times> string) list \<Rightarrow> (did \<times> string) list" where
  "eligible_pairs view models pins =
     filter (\<lambda>(p, m). m \<in> set models \<and> (pins = [] \<or> (p, m) \<in> set pins)) (v_candidates view)"

definition servable :: "view \<Rightarrow> did list \<Rightarrow> did \<Rightarrow> bool" where
  "servable view avoid p \<longleftrightarrow> mesh_reachable view avoid p \<or>
     v_mode view \<noteq> MODE_LOCKDOWN \<and> (\<exists>c\<in>set (dkeys (v_central view)). c \<notin> set avoid \<and> p \<in> set (dget (v_central view) c []))"

definition legs_wanted :: "(did \<times> string) list \<Rightarrow> int \<Rightarrow> int" where
  "legs_wanted pins quorum = (if pins = [] then quorum else int (card (set pins)))"

text \<open>The legs a plan assembles before it counts them.\<close>

definition plan_legs :: "bool \<Rightarrow> view \<Rightarrow> did list \<Rightarrow> (did \<times> string) list \<Rightarrow> int \<Rightarrow> leg list" where
  "plan_legs diverse view avoid cands needed =
     (let legs = add_legs view avoid (pick diverse (scored_entries view avoid cands) needed []) []
      in if int (length legs) < needed \<and> v_mode view \<noteq> MODE_LOCKDOWN
         then legs @ map central_leg
                (pick diverse (central_entries view avoid cands (map l_provider legs)) (needed - int (length legs)) (map l_model legs))
         else legs)"

lemma coordinator_for_None:
  "coordinator_for view avoid p = None \<longleftrightarrow>
     (\<forall>c\<in>set (dkeys (v_central view)). c \<notin> set avoid \<longrightarrow> p \<notin> set (dget (v_central view) c []))"
  by (auto simp: coordinator_for_def find_None_iff)

lemma eligible_alt:
  "(if pins = [] then filter (\<lambda>(p, m). m \<in> set models) (v_candidates view)
    else filter (\<lambda>c. c \<in> set pins) (filter (\<lambda>(p, m). m \<in> set models) (v_candidates view))) = eligible_pairs view models pins"
  by (auto simp: eligible_pairs_def intro!: filter_cong)

lemma plan_alt:
  "plan diverse view models pins quorum avoid =
     (let cands = eligible_pairs view models pins; needed = legs_wanted pins quorum; legs = plan_legs diverse view avoid cands needed
      in if \<not> set pins \<subseteq> set cands
         then Inl (NoRoute (''pinned model node not eligible: '' @ fst (hd (sort (filter (\<lambda>p. p \<notin> set cands) pins)))))
         else if int (length legs) < needed
         then Inl (NoRoute (int_str (int (length legs)) @ '' of '' @ int_str needed @ '' model nodes reachable''))
         else Inr legs)"
proof -
  have "filter (\<lambda>p. p \<notin> set c) pins \<noteq> [] \<longleftrightarrow> \<not> set pins \<subseteq> set c" for c by (auto simp: filter_empty_conv)
  then show ?thesis unfolding plan_def Let_def eligible_alt plan_legs_def legs_wanted_def by (simp only: if_cancel)
qed

lemma mesh_legs_spec:
  assumes "nonneg_loads view" and legs: "legs = add_legs view avoid (pick diverse (scored_entries view avoid cands) n []) []"
  shows "list_all (mesh_leg view avoid) legs" "distinct (map l_provider legs)" "int (length legs) \<le> max n 0"
    "list_all (\<lambda>l. (l_provider l, l_model l) \<in> set cands) legs"
    "n \<le> int (length legs) \<or> (\<forall>(p, m)\<in>set cands. mesh_reachable view avoid p \<longrightarrow> p \<in> l_provider ` set legs)"
proof -
  define out where "out = pick diverse (scored_entries view avoid cands) n []"
  note picked = pick_spec [OF out_def [symmetric], unfolded pass_ok_def]
  have from_scored: "pair_of e \<in> set cands \<and> on_mesh view avoid e" if "e \<in> set out" for e
    using that picked(1) scored_sound [OF assms(1)] by blast
  then have "list_all (on_mesh view avoid) out" by (simp add: list_all_iff)
  from add_legs_spec [OF assms(1) this, of "[]"] legs
  have mesh: "list_all (mesh_leg view avoid) legs" and pairs: "map (\<lambda>l. (l_provider l, l_model l)) legs = map pair_of out"
    by (simp_all add: out_def pair_of_def [abs_def])
  from arg_cong [OF pairs, of "map fst"] have provs: "map l_provider legs = map fst out" by (simp add: comp_def pair_of_def)
  show "list_all (mesh_leg view avoid) legs" by (rule mesh)
  show "distinct (map l_provider legs)" using provs picked(1) by simp
  show "int (length legs) \<le> max n 0" using arg_cong [OF pairs, of length] picked(1) by simp
  have "set (map (\<lambda>l. (l_provider l, l_model l)) legs) \<subseteq> set cands" unfolding pairs using from_scored by (simp add: image_subset_iff)
  then show "list_all (\<lambda>l. (l_provider l, l_model l) \<in> set cands) legs" by (simp add: list_all_iff image_subset_iff)
  from picked(2) show "n \<le> int (length legs) \<or> (\<forall>(p, m)\<in>set cands. mesh_reachable view avoid p \<longrightarrow> p \<in> l_provider ` set legs)"
  proof
    assume "n \<le> int (length out)"
    then show ?thesis using arg_cong [OF pairs, of length] by simp
  next
    assume all: "\<forall>e\<in>set (scored_entries view avoid cands). fst (picked_of e) \<in> fst ` set out"
    have "p \<in> l_provider ` set legs" if "(p, m) \<in> set cands" "mesh_reachable view avoid p" for p m
    proof -
      from scored_complete [OF assms(1) that] all have "p \<in> set (map fst out)" by auto
      with provs show ?thesis by (metis list.set_map)
    qed
    then show ?thesis by blast
  qed
qed

lemma central_legs_spec:
  assumes "v_mode view \<noteq> MODE_LOCKDOWN" and legs: "legs = map central_leg (pick diverse (central_entries view avoid cands taken) n ms)"
  shows "list_all (fallback_leg view avoid) legs" "distinct (map l_provider legs)" "int (length legs) \<le> max n 0"
    "list_all (\<lambda>l. (l_provider l, l_model l) \<in> set cands) legs" "set (map l_provider legs) \<inter> set taken = {}"
    "n \<le> int (length legs) \<or>
       (\<forall>(p, m)\<in>set cands. p \<notin> set taken \<longrightarrow> coordinator_for view avoid p \<noteq> None \<longrightarrow> p \<in> l_provider ` set legs)"
proof -
  define out where "out = pick diverse (central_entries view avoid cands taken) n ms"
  note picked = pick_spec [OF out_def [symmetric], unfolded pass_ok_def]
  have legs_out: "legs = map central_leg out" by (simp add: legs out_def)
  have fields: "l_provider (central_leg e) = fst e" "(l_provider (central_leg e), l_model (central_leg e)) = pair_of e" for e
    by (simp_all add: central_leg_def pair_of_def split: prod.split)
  have from_entries: "pair_of e \<in> set cands" "fst e \<notin> set taken" "fallback_leg view avoid (central_leg e)" if "e \<in> set out" for e
  proof -
    from that picked(1) obtain x where "x \<in> set (central_entries view avoid cands taken)" "e = picked_of x" by blast
    with central_sound [of x view avoid cands taken] assms(1)
    show "pair_of e \<in> set cands" "fst e \<notin> set taken" "fallback_leg view avoid (central_leg e)" by simp_all
  qed
  have provs: "map l_provider legs = map fst out" by (simp add: legs_out fields(1))
  show "list_all (fallback_leg view avoid) legs" using from_entries(3) by (simp add: legs_out list_all_iff)
  show "distinct (map l_provider legs)" using provs picked(1) by simp
  show "int (length legs) \<le> max n 0" using picked(1) by (simp add: legs_out)
  show "list_all (\<lambda>l. (l_provider l, l_model l) \<in> set cands) legs"
    using from_entries(1) by (simp add: legs_out list_all_iff fields(2))
  show "set (map l_provider legs) \<inter> set taken = {}" unfolding provs using from_entries(2) by auto
  from picked(2) show "n \<le> int (length legs) \<or>
       (\<forall>(p, m)\<in>set cands. p \<notin> set taken \<longrightarrow> coordinator_for view avoid p \<noteq> None \<longrightarrow> p \<in> l_provider ` set legs)"
  proof
    assume "n \<le> int (length out)"
    then show ?thesis by (simp add: legs_out)
  next
    assume all: "\<forall>e\<in>set (central_entries view avoid cands taken). fst (picked_of e) \<in> fst ` set out"
    have "p \<in> l_provider ` set legs"
      if "(p, m) \<in> set cands" "p \<notin> set taken" "coordinator_for view avoid p \<noteq> None" for p m
    proof -
      from central_complete [OF that] all have "p \<in> set (map fst out)" by auto
      with provs show ?thesis by (metis list.set_map)
    qed
    then show ?thesis by blast
  qed
qed

definition leg_ok :: "view \<Rightarrow> did list \<Rightarrow> (did \<times> string) list \<Rightarrow> leg \<Rightarrow> bool" where
  "leg_ok view avoid cands l \<longleftrightarrow>
     (l_provider l, l_model l) \<in> set cands \<and> (mesh_leg view avoid l \<or> fallback_leg view avoid l)"

lemma plan_legs_spec:
  assumes "nonneg_loads view" "0 \<le> n" and legs: "legs = plan_legs diverse view avoid cands n"
  shows "list_all (leg_ok view avoid cands) legs \<and> distinct (map l_provider legs) \<and> int (length legs) \<le> n \<and>
    (n \<le> int (length legs) \<or> (\<forall>p\<in>fst ` set cands. servable view avoid p \<longrightarrow> p \<in> set (map l_provider legs)))"
proof -
  define mesh where "mesh = add_legs view avoid (pick diverse (scored_entries view avoid cands) n []) []"
  note m = mesh_legs_spec [OF assms(1) mesh_def]
  have mesh_ok: "list_all (leg_ok view avoid cands) mesh" using m(1,4) by (simp add: list_all_iff leg_ok_def)
  show ?thesis
  proof (cases "int (length mesh) < n \<and> v_mode view \<noteq> MODE_LOCKDOWN")
    case True
    define more where "more = map central_leg (pick diverse (central_entries view avoid cands (map l_provider mesh))
      (n - int (length mesh)) (map l_model mesh))"
    from True have "v_mode view \<noteq> MODE_LOCKDOWN" by simp
    note c = central_legs_spec [OF this more_def]
    have eq: "legs = mesh @ more" using True by (simp add: legs plan_legs_def Let_def mesh_def more_def)
    have "list_all (leg_ok view avoid cands) more" using c(1,4) by (simp add: list_all_iff leg_ok_def)
    moreover have "n \<le> int (length legs) \<or> (\<forall>p\<in>fst ` set cands. servable view avoid p \<longrightarrow> p \<in> set (map l_provider legs))"
    proof (cases "n - int (length mesh) \<le> int (length more)")
      case False
      with c(6) have "\<forall>(p, m)\<in>set cands. p \<notin> set (map l_provider mesh) \<longrightarrow> coordinator_for view avoid p \<noteq> None \<longrightarrow> p \<in> l_provider ` set more"
        by blast
      moreover have "\<forall>(p, m)\<in>set cands. mesh_reachable view avoid p \<longrightarrow> p \<in> l_provider ` set mesh" using m(5) True by auto
      moreover have "servable view avoid p \<longleftrightarrow> mesh_reachable view avoid p \<or> coordinator_for view avoid p \<noteq> None" for p
        using True by (auto simp: servable_def coordinator_for_None)
      ultimately show ?thesis unfolding eq by fastforce
    qed (simp add: eq)
    ultimately show ?thesis using mesh_ok m(2) c(2,3,5) True by (auto simp: eq)
  next
    case False
    then have eq: "legs = mesh" by (auto simp: legs plan_legs_def Let_def mesh_def)
    have "n \<le> int (length legs) \<or> (\<forall>p\<in>fst ` set cands. servable view avoid p \<longrightarrow> p \<in> set (map l_provider legs))"
    proof (cases "n \<le> int (length mesh)")
      case short: False
      with False have "v_mode view = MODE_LOCKDOWN" by simp
      with m(5) short show ?thesis unfolding eq servable_def by fastforce
    qed (simp add: eq)
    with mesh_ok m(2,3) assms(2) show ?thesis by (simp add: eq)
  qed
qed

lemma plan_exact_aux:
  assumes "nonneg_loads view" "0 \<le> quorum"
  shows "case plan diverse view models pins quorum avoid of
      Inr legs \<Rightarrow> set pins \<subseteq> set (eligible_pairs view models pins) \<and> int (length legs) = legs_wanted pins quorum \<and>
        distinct (map l_provider legs) \<and> list_all (leg_ok view avoid (eligible_pairs view models pins)) legs
    | Inl e \<Rightarrow> (\<exists>text. e = NoRoute text) \<and>
        (\<not> set pins \<subseteq> set (eligible_pairs view models pins) \<or>
         int (card {p \<in> fst ` set (eligible_pairs view models pins). servable view avoid p}) < legs_wanted pins quorum)"
proof -
  let ?cands = "eligible_pairs view models pins"
  let ?n = "legs_wanted pins quorum"
  define legs where "legs = plan_legs diverse view avoid ?cands ?n"
  have "0 \<le> ?n" using assms(2) by (simp add: legs_wanted_def)
  note spec = plan_legs_spec [OF assms(1) this legs_def]
  note planned = plan_alt [of "diverse" view models pins quorum avoid, unfolded Let_def, folded legs_def]
  show ?thesis
  proof (cases "set pins \<subseteq> set ?cands \<and> ?n \<le> int (length legs)")
    case True
    with spec show ?thesis by (simp add: planned)
  next
    case False
    have "int (card {p \<in> fst ` set ?cands. servable view avoid p}) < ?n" if short: "\<not> ?n \<le> int (length legs)"
    proof -
      from spec short have "{p \<in> fst ` set ?cands. servable view avoid p} \<subseteq> set (map l_provider legs)" by blast
      from card_mono [OF _ this] have "card {p \<in> fst ` set ?cands. servable view avoid p} \<le> card (set (map l_provider legs))" by simp
      with card_length [of "map l_provider legs"] short show ?thesis by simp
    qed
    with False show ?thesis by (auto simp: planned)
  qed
qed

text \<open>C31 The route decision is exact: a plan that comes back has one leg per wanted answer, to different
  providers, each leg for an eligible (pinned, when there are pins) pair and either a mesh route over transit
  nodes that avoids what is to be avoided or, outside lockdown, a hop through a coordinator linked to the
  provider; and the plan is refused only when a pin is not eligible or fewer providers than wanted can be
  served at all.\<close>

theorem plan_exact:
  assumes "nonneg_loads view" "0 \<le> quorum"
  shows "case plan diverse view models pins quorum avoid of
      Inr legs \<Rightarrow> set pins \<subseteq> set (eligible_pairs view models pins) \<and> int (length legs) = legs_wanted pins quorum \<and>
        distinct (map l_provider legs) \<and> list_all (leg_ok view avoid (eligible_pairs view models pins)) legs
    | Inl e \<Rightarrow> (\<exists>text. e = NoRoute text) \<and>
        (\<not> set pins \<subseteq> set (eligible_pairs view models pins) \<or>
         int (card {p \<in> fst ` set (eligible_pairs view models pins). servable view avoid p}) < legs_wanted pins quorum)"
  using assms by (rule plan_exact_aux)

text \<open>Outside lockdown a plan keeps everything the signed decision is checked for against its request.\<close>

lemma plan_keeps_request:
  assumes "nonneg_loads view" "0 \<le> quorum" "pins = [] \<or> quorum \<le> int (card (set pins))" "v_mode view \<noteq> MODE_LOCKDOWN"
    and plan: "plan diverse view models pins quorum avoid = Inr legs"
  shows "violations (v_mode view) legs quorum models pins = []"
proof -
  let ?pair = "\<lambda>l. (l_provider l, l_model l)"
  from plan_exact_aux [OF assms(1,2), where diverse = diverse and models = models and pins = pins and avoid = avoid] plan
  have pins: "set pins \<subseteq> set (eligible_pairs view models pins)" and len: "int (length legs) = legs_wanted pins quorum"
    and dist: "distinct (map l_provider legs)" and ok: "list_all (leg_ok view avoid (eligible_pairs view models pins)) legs"
    by simp_all
  from ok have pairs: "?pair l \<in> set (eligible_pairs view models pins)" if "l \<in> set legs" for l
    using that by (simp add: list_all_iff leg_ok_def)
  have "\<not> list_ex (\<lambda>l. l_model l \<notin> set models) legs"
    using pairs by (fastforce simp: list_ex_iff eligible_pairs_def)
  moreover have "quorum \<le> int (length legs)" using len assms(3) by (auto simp: legs_wanted_def)
  moreover have "?pair ` set legs = set pins" if "pins \<noteq> []"
  proof (rule card_subset_eq)
    show "?pair ` set legs \<subseteq> set pins" using pairs that by (fastforce simp: eligible_pairs_def)
    have "distinct (map fst (map ?pair legs))" using dist by (simp add: comp_def)
    then have "distinct (map ?pair legs)" unfolding distinct_map [of fst] by (rule conjunct1)
    then have "card (?pair ` set legs) = length legs" by (metis distinct_card length_map list.set_map)
    with len that show "card (?pair ` set legs) = card (set pins)" by (simp add: legs_wanted_def)
  qed simp
  ultimately show ?thesis using assms(4) by (auto simp: violations_def Let_def)
qed

text \<open>A mesh of four nodes, a model node on it and one only the coordinator \<open>k\<close> reaches.\<close>

definition ref_view :: view where
  "ref_view = \<lparr>v_me = ''a'', v_mode = ''normal'', v_adjacency = ref_mesh, v_transit = [''b'', ''c''],
     v_candidates = [(''d'', ''m1''), (''e'', ''m2'')], v_central = [(''k'', [''e''])], v_load = [(''b'', 1)]\<rparr>"

lemma ref_view_nonneg: "nonneg_loads ref_view"
  by (simp add: nonneg_loads_def load_of_def ref_view_def dget_def)

theorem plan_exact_witness:
  "\<exists>legs. plan True ref_view [''m1'', ''m2''] [] 2 [] = Inr legs \<and> distinct (map l_provider legs) \<and>
     map l_path legs = [[''a'', ''c'', ''d''], [''a'', ''k'', ''e'']]"
proof -
  have p: "plan True ref_view [''m1'', ''m2''] [] 2 [] =
      Inr [\<lparr>l_provider = ''d'', l_model = ''m1'', l_path = [''a'', ''c'', ''d''], l_via = VIA_MESH\<rparr>,
           \<lparr>l_provider = ''e'', l_model = ''m2'', l_path = [''a'', ''k'', ''e''], l_via = VIA_CENTRAL\<rparr>]"
    by code_simp
  have "(0 :: int) \<le> 2" by simp
  from plan_exact [OF ref_view_nonneg this, where diverse = True and models = "[''m1'', ''m2'']" and pins = "[]" and avoid = "[]"] p
  show ?thesis by simp
qed

end
