(* ===== verification/Mutiny.thy ===== *)
theory Mutiny
  imports Lease
begin

text \<open>
  \<^verbatim>\<open>inference/screen.py\<close> and \<^verbatim>\<open>inference/mutiny.py\<close>: the screens over model output, incidents that
  carry their own evidence, operator resets, and the ledger whose latches are lockdown.

  The JSON decoder is a parameter: \<open>dec s\<close> is what \<^verbatim>\<open>raw_decode\<close> reads at the head of \<open>s\<close>, a value
  and the number of bytes it took, or None. The verifiers of evidence return the targets they convict or
  None; they may raise, and \<^verbatim>\<open>verify_incident\<close> catches \<^verbatim>\<open>KeyError\<close>, \<^verbatim>\<open>TypeError\<close> and
  \<^verbatim>\<open>AttributeError\<close> only.
\<close>

type_synonym decoder = "string \<Rightarrow> (json \<times> nat) option"

section \<open>Screens\<close>

definition SCOPE_FOR :: "(string, string) dict" where
  "SCOPE_FOR =
     [(''left_click'', ''physical.click''), (''right_click'', ''physical.click''), (''double_click'', ''physical.click''),
      (''click_element'', ''physical.click''), (''track_click'', ''physical.click''), (''move'', ''physical.click''),
      (''click'', ''physical.click''), (''press'', ''physical.click''), (''type'', ''physical.type''),
      (''key'', ''physical.key''), (''hold_key'', ''physical.key''), (''scroll'', ''physical.scroll''),
      (''drag'', ''physical.drag''), (''open'', ''system.open''), (''run'', ''process.run''),
      (''post'', ''network.post''), (''publish'', ''network.post''), (''submit'', ''network.post''), (''comment'', ''network.post''),
      (''send'', ''network.send''), (''reply'', ''network.send''),
      (''read'', ''observe.read''), (''observe'', ''observe.read''), (''look'', ''observe.read''), (''screenshot'', ''observe.read'')]"

definition BENIGN_ACTIONS :: "string list" where
  "BENIGN_ACTIONS = [''done'', ''ask_user'', ''wait'', ''remember'']"

definition FORBIDDEN_ACTIONS :: "string list" where
  "FORBIDDEN_ACTIONS = [''run_elevated'', ''write_memory'', ''inject_thread'', ''kernel_hid'', ''disable_gate'',
     ''bypass_gate'', ''disable_hitl'', ''auto_approve'', ''install_persistence'', ''evade_detection'']"

definition FORBIDDEN_SCOPES :: "string list" where
  "FORBIDDEN_SCOPES = [''process.run_elevated'', ''process.memory.write'', ''process.thread.inject'', ''kernel.hid'',
     ''privilege.escalate'', ''gate.bypass'', ''hitl.disable'', ''persistence.install'', ''edr.evade'']"

text \<open>\<^verbatim>\<open>CANARY.findall(s)\<close>: the tokens from left to right, without overlaps.\<close>

function canaries :: "string \<Rightarrow> string list" where
  "canaries [] = []"
| "canaries (c # cs) = (if canary_at (c # cs) then take 37 (c # cs) # canaries (drop 37 (c # cs)) else canaries cs)"
  by pat_completeness auto
termination by (relation "measure length") auto

definition canary_leaked :: "env \<Rightarrow> string \<Rightarrow> string \<Rightarrow> bool" where
  "canary_leaked E output lease_canary_hash = list_ex (\<lambda>token. hexdigest E token = lease_canary_hash) (canaries output)"

text \<open>The nested objects of a value, to depth 8 and at most 128 in all.\<close>

function collect :: "nat \<Rightarrow> json \<Rightarrow> obj list \<Rightarrow> obj list" where
  "collect depth v found =
     (if 8 < depth \<or> 128 \<le> length found then found
      else case v of
        JObj d \<Rightarrow> fold (\<lambda>(k, w) f. collect (Suc depth) w f) d (found @ [d])
      | JList vs \<Rightarrow> fold (\<lambda>w f. collect (Suc depth) w f) vs found
      | _ \<Rightarrow> found)"
  by pat_completeness auto
termination by (relation "measure (\<lambda>(depth, v, found). 9 - depth)") auto

text \<open>Every opening bracket is a position to try, at most 256 of them, those inside a decoded value
  (\<open>skip\<close> bytes left of it) apart.\<close>

fun scan_objects :: "decoder \<Rightarrow> nat \<Rightarrow> nat \<Rightarrow> string \<Rightarrow> obj list \<Rightarrow> obj list" where
  "scan_objects dec n skip [] found = found"
| "scan_objects dec n skip (c # cs) found =
     (if c \<noteq> CHR ''['' \<and> c \<noteq> CHR ''{'' then scan_objects dec n (skip - 1) cs found
      else if 256 \<le> n then found
      else if 0 < skip then scan_objects dec (Suc n) (skip - 1) cs found
      else case dec (c # cs) of
             None \<Rightarrow> scan_objects dec (Suc n) 0 cs found
           | Some (v, len) \<Rightarrow> scan_objects dec (Suc n) (len - 1) cs (collect 0 v found))"

definition json_objects :: "decoder \<Rightarrow> string \<Rightarrow> obj list" where
  "json_objects dec s = scan_objects dec 0 0 s []"

definition named_scopes :: "obj \<Rightarrow> string list" where
  "named_scopes d =
     concat (map (\<lambda>k. case pget d k of JStr s \<Rightarrow> [s] | _ \<Rightarrow> []) [''scope'', ''capability'']) @
     concat (map (\<lambda>k. case pget d k of JList vs \<Rightarrow> concat (map (\<lambda>v. case v of JStr s \<Rightarrow> [s] | _ \<Rightarrow> []) vs) | _ \<Rightarrow> [])
       [''scopes'', ''capabilities''])"

definition action_of :: "obj \<Rightarrow> string option" where
  "action_of d = (case pget d ''action'' of JStr a \<Rightarrow> Some (lower_ascii (py_strip a)) | _ \<Rightarrow> None)"

definition forbidden :: "decoder \<Rightarrow> string \<Rightarrow> string list" where
  "forbidden dec output =
     concat (map (\<lambda>d.
       (case action_of d of Some a \<Rightarrow> if a \<in> set FORBIDDEN_ACTIONS then [''action '' @ a] else [] | None \<Rightarrow> []) @
       map (\<lambda>s. ''scope '' @ s) (filter (\<lambda>s. s \<in> set FORBIDDEN_SCOPES) (named_scopes d))) (json_objects dec output))"

definition overreach :: "decoder \<Rightarrow> string \<Rightarrow> string list \<Rightarrow> string list" where
  "overreach dec output granted =
     concat (map (\<lambda>d.
       (case action_of d of
          Some a \<Rightarrow>
            if a \<in> set BENIGN_ACTIONS \<or> a \<in> set FORBIDDEN_ACTIONS then []
            else (case map_of SCOPE_FOR a of
                    None \<Rightarrow> [''action '' @ a @ '' has no capability scope'']
                  | Some scope \<Rightarrow> if scope \<in> set granted then [] else [''action '' @ a @ '' needs '' @ scope])
        | None \<Rightarrow> []) @
       map (\<lambda>s. ''scope '' @ s @ '' not granted'')
         (filter (\<lambda>s. s \<notin> set granted \<and> s \<notin> set FORBIDDEN_SCOPES) (named_scopes d))) (json_objects dec output))"

section \<open>Incidents\<close>

definition INCIDENT :: string where "INCIDENT = ''secdogie/inference/incident/v1''"
definition RESET :: string where "RESET = ''secdogie/inference/reset/v1''"

abbreviation PROVIDER_EQUIVOCATION :: string where "PROVIDER_EQUIVOCATION \<equiv> ''provider.equivocation''"
abbreviation PROVIDER_LEASE_VIOLATION :: string where "PROVIDER_LEASE_VIOLATION \<equiv> ''provider.lease-violation''"
abbreviation PROVIDER_SECRET_EXFILTRATION :: string where "PROVIDER_SECRET_EXFILTRATION \<equiv> ''provider.secret-exfiltration''"
abbreviation MODEL_FORBIDDEN_CAPABILITY :: string where "MODEL_FORBIDDEN_CAPABILITY \<equiv> ''model.forbidden-capability''"
abbreviation MODEL_SELF_REPORTED :: string where "MODEL_SELF_REPORTED \<equiv> ''model.self-reported''"
abbreviation DECIDER_TAMPERING :: string where "DECIDER_TAMPERING \<equiv> ''decider.tampering''"
abbreviation DECIDER_SELF_REPORTED :: string where "DECIDER_SELF_REPORTED \<equiv> ''decider.self-reported''"

definition INCIDENT_KINDS :: "string list" where
  "INCIDENT_KINDS = [PROVIDER_EQUIVOCATION, PROVIDER_LEASE_VIOLATION, PROVIDER_SECRET_EXFILTRATION,
     MODEL_FORBIDDEN_CAPABILITY, MODEL_SELF_REPORTED, DECIDER_TAMPERING, DECIDER_SELF_REPORTED]"

definition MAX_TARGETS :: nat where "MAX_TARGETS = 16"
definition MAX_PROPOSAL :: nat where "MAX_PROPOSAL = 4096"

definition node_target :: "did \<Rightarrow> string" where "node_target d = ''node:'' @ d"
definition model_target :: "string \<Rightarrow> string" where "model_target m = ''model:'' @ m"
definition decider_target :: "did \<Rightarrow> string" where "decider_target d = ''decider:'' @ d"

record incident =
  in_id :: string
  in_kind :: string
  in_targets :: "string list"
  in_reporter :: did
  in_issued_at :: pyfloat
  in_signed :: obj

definition incident_id :: "env \<Rightarrow> string \<Rightarrow> obj \<Rightarrow> string" where
  "incident_id E kind evidence = digest E (JObj [(''kind'', JStr kind), (''evidence'', JObj evidence)])"

definition make_incident :: "env \<Rightarrow> identity \<Rightarrow> string \<Rightarrow> obj \<Rightarrow> pyfloat \<Rightarrow> obj res" where
  "make_incident E seed kind evidence now =
     (if kind \<notin> set INCIDENT_KINDS then Inl (ValueError ''unknown incident kind'')
      else rbind (identity_did E seed) (\<lambda>did.
        sign_payload E seed
          [(''type'', JStr INCIDENT), (''reporter'', JStr did), (''kind'', JStr kind), (''evidence'', JObj evidence),
           (''incident_id'', JStr (incident_id E kind evidence)), (''issued_at'', JFloat now)]))"

section \<open>Evidence\<close>

text \<open>\<open>passed m\<close> goes on when the check \<open>m\<close> passed and returns None when it refused.\<close>

definition passed :: "string option res \<Rightarrow> unit exit + unit" where
  "passed m = rbind (raises m) (\<lambda>r. need (r = None) ())"

definition convict :: "unit exit + string list \<Rightarrow> string list option res" where
  "convict m = finish (\<lambda>_. None) (rbind m (\<lambda>ts. Inr (Some ts)))"

definition field_str :: "json \<Rightarrow> string \<Rightarrow> string" where
  "field_str v k = strv (pget (obj_of v) k)"

definition ev_equivocation :: "env \<Rightarrow> obj \<Rightarrow> trust_roots \<Rightarrow> string list option res" where
  "ev_equivocation E ev tr = convict (
     let a = pget ev ''a''; b = pget ev ''b'' in
     rbind (passed (check_response E a tr None None)) (\<lambda>_.
     rbind (passed (check_response E b tr None None)) (\<lambda>_.
     rbind (need (field_str a ''provider'' = field_str b ''provider'' \<and>
                  field_str a ''request_hash'' = field_str b ''request_hash'' \<and>
                  field_str a ''model'' = field_str b ''model'' \<and>
                  field_str a ''status'' = STATUS_OK \<and> field_str b ''status'' = STATUS_OK \<and>
                  field_str a ''output'' \<noteq> field_str b ''output'') ()) (\<lambda>_.
       Inr [node_target (field_str a ''provider'')]))))"

definition ev_lease_violation :: "env \<Rightarrow> obj \<Rightarrow> trust_roots \<Rightarrow> string list option res" where
  "ev_lease_violation E ev tr = convict (
     let r = pget ev ''response''; lease = pget (obj_of r) ''lease'' in
     rbind (passed (check_response E r tr None None)) (\<lambda>_.
     rbind (raises (check_lease E lease tr)) (\<lambda>bad.
     rbind (need (\<not> (bad = None \<and> field_str lease ''subject'' = field_str r ''provider'' \<and>
                     field_str lease ''model'' = field_str r ''model'')) ()) (\<lambda>_.
       Inr [node_target (field_str r ''provider'')]))))"

definition ev_secret_exfiltration :: "env \<Rightarrow> obj \<Rightarrow> trust_roots \<Rightarrow> string list option res" where
  "ev_secret_exfiltration E ev tr = convict (
     let r = pget ev ''response''; lease = pget (obj_of r) ''lease'' in
     rbind (passed (check_response E r tr None None)) (\<lambda>_.
     rbind (passed (check_lease E lease tr)) (\<lambda>_.
     rbind (need (field_str lease ''subject'' = field_str r ''provider'') ()) (\<lambda>_.
     rbind (need (canary_leaked E (field_str r ''output'') (field_str lease ''canary_hash'')) ()) (\<lambda>_.
       Inr [node_target (field_str r ''provider'')])))))"

definition ev_forbidden_capability :: "env \<Rightarrow> decoder \<Rightarrow> obj \<Rightarrow> trust_roots \<Rightarrow> string list option res" where
  "ev_forbidden_capability E dec ev tr = convict (
     let req = pget ev ''request''; r = pget ev ''response'' in
     rbind (raises (request_evidence_ok E req tr)) (\<lambda>ok.
     rbind (need ok ()) (\<lambda>_.
     rbind (passed (check_response E r tr (Some (obj_of req)) None)) (\<lambda>_.
     rbind (need (truthy (pget (obj_of req) ''scopes'') \<and> field_str r ''status'' = STATUS_OK \<and>
                  forbidden dec (field_str r ''output'') \<noteq> []) ()) (\<lambda>_.
       Inr [model_target (field_str r ''model''), node_target (field_str r ''provider'')])))))"

definition short_text :: "json \<Rightarrow> bool" where
  "short_text v = (case v of JStr s \<Rightarrow> s \<noteq> [] \<and> str_len s \<le> MAX_REASON | _ \<Rightarrow> False)"

definition ev_model_self_reported :: "env \<Rightarrow> obj \<Rightarrow> trust_roots \<Rightarrow> did \<Rightarrow> string list option res" where
  "ev_model_self_reported E ev tr reporter = convict (
     let lease = pget ev ''lease'' in
     rbind (need (short_text (pget ev ''violation'')) ()) (\<lambda>_.
     rbind (need (pget ev ''reporter'' = JStr reporter) ()) (\<lambda>_.
     rbind (passed (check_lease E lease tr)) (\<lambda>_.
     rbind (need (field_str lease ''subject'' = reporter) ()) (\<lambda>_.
       Inr [model_target (field_str lease ''model'')])))))"

definition quarantined_of :: "json \<Rightarrow> did list" where
  "quarantined_of adv = (case pget (obj_of adv) ''quarantined'' of JList vs \<Rightarrow> map strv vs | _ \<Rightarrow> [])"

definition ev_decider_tampering :: "env \<Rightarrow> obj \<Rightarrow> trust_roots \<Rightarrow> string list option res" where
  "ev_decider_tampering E ev tr = convict (
     let req = pget ev ''request''; dec = pget ev ''decision''; adv = pget ev ''advisory'' in
     rbind (raises (request_evidence_ok E req tr)) (\<lambda>ok.
     rbind (need ok ()) (\<lambda>_.
     rbind (passed (check_decision E dec tr (Some (obj_of req)))) (\<lambda>_.
     rbind (raises (decision_violations (obj_of dec) (obj_of req))) (\<lambda>vs.
     rbind (if adv = JNull then Inr vs
            else rbind (passed (check_advisory E adv tr None)) (\<lambda>_.
                 rbind (need (pget (obj_of adv) ''epoch'' = pget (obj_of dec) ''epoch'') ()) (\<lambda>_.
                 rbind (raises (routed_through (obj_of dec) (quarantined_of adv))) (\<lambda>hits.
                   Inr (if hits \<noteq> [] then vs @ [''quarantined-hop''] else vs))))) (\<lambda>vs'.
     rbind (need (vs' \<noteq> []) ()) (\<lambda>_.
       Inr [decider_target (field_str dec ''decider'')])))))))"

definition ev_decider_self_reported :: "env \<Rightarrow> obj \<Rightarrow> trust_roots \<Rightarrow> did \<Rightarrow> string list option res" where
  "ev_decider_self_reported E ev tr reporter = convict (
     rbind (need (pget ev ''reporter'' = JStr reporter \<and> tr_deciders tr reporter) ()) (\<lambda>_.
     rbind (need (short_text (pget ev ''violation'')) ()) (\<lambda>_.
     rbind (need (as_obj (pget ev ''proposal'') \<noteq> None \<and> length (canonical E (pget ev ''proposal'')) \<le> MAX_PROPOSAL) ()) (\<lambda>_.
       Inr [decider_target reporter]))))"

definition verifier :: "env \<Rightarrow> decoder \<Rightarrow> string \<Rightarrow> obj \<Rightarrow> trust_roots \<Rightarrow> did \<Rightarrow> string list option res" where
  "verifier E dec kind ev tr reporter =
     (if kind = PROVIDER_EQUIVOCATION then ev_equivocation E ev tr
      else if kind = PROVIDER_LEASE_VIOLATION then ev_lease_violation E ev tr
      else if kind = PROVIDER_SECRET_EXFILTRATION then ev_secret_exfiltration E ev tr
      else if kind = MODEL_FORBIDDEN_CAPABILITY then ev_forbidden_capability E dec ev tr
      else if kind = MODEL_SELF_REPORTED then ev_model_self_reported E ev tr reporter
      else if kind = DECIDER_TAMPERING then ev_decider_tampering E ev tr
      else if kind = DECIDER_SELF_REPORTED then ev_decider_self_reported E ev tr reporter
      else Inl (KeyError kind))"

text \<open>\<^verbatim>\<open>except (KeyError, TypeError, AttributeError): return None\<close>\<close>

definition shape_errors_to_None :: "'a option res \<Rightarrow> 'a option res" where
  "shape_errors_to_None m =
     (case m of
        Inl (KeyError _) \<Rightarrow> Inr None
      | Inl (TypeError _) \<Rightarrow> Inr None
      | Inl (AttributeError _) \<Rightarrow> Inr None
      | _ \<Rightarrow> m)"

definition verify_incident :: "env \<Rightarrow> decoder \<Rightarrow> json \<Rightarrow> trust_roots \<Rightarrow> incident option res" where
  "verify_incident E dec v tr = finish (\<lambda>_::unit. None) (
     rbind (need (signed_by E v INCIDENT ''reporter'' (tr_peers tr) = None) ()) (\<lambda>_.
     let d = obj_of v in
     rbind (raises (in_frozenset (pget d ''kind'') INCIDENT_KINDS)) (\<lambda>known.
     rbind (need known ()) (\<lambda>_.
     rbind (some_or (as_obj (pget d ''evidence'')) ()) (\<lambda>ev.
     rbind (raises (fin_num (pget d ''issued_at''))) (\<lambda>dated.
     rbind (need dated ()) (\<lambda>_.
     let kind = strv (pget d ''kind''); reporter = strv (pget d ''reporter'') in
     rbind (need (pget d ''incident_id'' = JStr (incident_id E kind ev)) ()) (\<lambda>_.
     rbind (raises (shape_errors_to_None (verifier E dec kind ev tr reporter))) (\<lambda>targets.
     rbind (need (targets \<noteq> None \<and> targets \<noteq> Some []) ()) (\<lambda>_.
       Inr (Some \<lparr>in_id = incident_id E kind ev, in_kind = kind, in_targets = the targets, in_reporter = reporter,
                  in_issued_at = numv (pget d ''issued_at''), in_signed = d\<rparr>)))))))))))"

section \<open>Resets\<close>

definition make_reset :: "env \<Rightarrow> identity \<Rightarrow> string list \<Rightarrow> string list \<Rightarrow> pyfloat \<Rightarrow> obj res" where
  "make_reset E operator targets incident_ids now =
     rbind (identity_did E operator) (\<lambda>did.
       if targets = [] \<or> incident_ids = [] then Inl (ValueError ''a reset names at least one target and one incident'')
       else sign_payload E operator
         [(''type'', JStr RESET), (''operator'', JStr did), (''targets'', JList (map JStr (sorted_set targets))),
          (''incident_ids'', JList (map JStr (sorted_set incident_ids))), (''issued_at'', JFloat now)])"

definition verify_reset :: "env \<Rightarrow> json \<Rightarrow> trust_roots \<Rightarrow> (string set \<times> string set) option res" where
  "verify_reset E v tr = finish (\<lambda>_::unit. None) (
     rbind (need (signed_by E v RESET ''operator'' (tr_operators tr) = None) ()) (\<lambda>_.
     let d = obj_of v in
     rbind (some_or (as_list (pget d ''targets'')) ()) (\<lambda>targets.
     rbind (need (1 \<le> length targets \<and> length targets \<le> MAX_TARGETS) ()) (\<lambda>_.
     rbind (need (list_all (\<lambda>t. case t of JStr s \<Rightarrow> CHR '':'' \<in> set s | _ \<Rightarrow> False) targets \<and> sorted_strings targets) ()) (\<lambda>_.
     rbind (some_or (as_list (pget d ''incident_ids'')) ()) (\<lambda>ids.
     rbind (need (ids \<noteq> [] \<and> list_all is_hex64 ids \<and> sorted_strings ids) ()) (\<lambda>_.
     rbind (raises (fin_num (pget d ''issued_at''))) (\<lambda>dated.
     rbind (need dated ()) (\<lambda>_.
       Inr (Some (strv ` set targets, strv ` set ids)))))))))))"

section \<open>The ledger\<close>

record mutiny_ledger =
  ml_trust :: trust_roots
  ml_incidents :: "(string, incident) dict"
  ml_latches :: "(string, string set) dict"
  ml_cleared :: "(string \<times> string) set"
  ml_resets :: "(string, obj) dict"

definition ledger_init :: "trust_roots \<Rightarrow> mutiny_ledger" where
  "ledger_init tr = \<lparr>ml_trust = tr, ml_incidents = [], ml_latches = [], ml_cleared = {}, ml_resets = []\<rparr>"

definition latch :: "string \<Rightarrow> (string \<times> string) set \<Rightarrow> string \<Rightarrow> (string, string set) dict \<Rightarrow> (string, string set) dict" where
  "latch i cleared t latches = (if (t, i) \<in> cleared then latches else dset t (insert i (dget latches t {})) latches)"

definition ml_add :: "env \<Rightarrow> decoder \<Rightarrow> json \<Rightarrow> mutiny_ledger \<Rightarrow> mutiny_ledger \<times> incident option res" where
  "ml_add E dec v ml =
     (case verify_incident E dec v (ml_trust ml) of
        Inl e \<Rightarrow> (ml, Inl e)
      | Inr None \<Rightarrow> (ml, Inr None)
      | Inr (Some inc) \<Rightarrow>
          if in_id inc \<in> set (dkeys (ml_incidents ml)) then (ml, Inr None)
          else (ml\<lparr>ml_incidents := dset (in_id inc) inc (ml_incidents ml),
                   ml_latches := fold (latch (in_id inc) (ml_cleared ml)) (in_targets inc) (ml_latches ml)\<rparr>, Inr (Some inc)))"

definition unlatch :: "string set \<Rightarrow> string set \<Rightarrow> (string, string set) dict \<Rightarrow> (string, string set) dict" where
  "unlatch targets ids latches =
     filter (\<lambda>(t, held). t \<notin> targets \<or> held \<noteq> {}) (map (\<lambda>(t, held). (t, if t \<in> targets then held - ids else held)) latches)"

definition ml_reset :: "env \<Rightarrow> json \<Rightarrow> mutiny_ledger \<Rightarrow> mutiny_ledger \<times> (bool \<times> string set) res" where
  "ml_reset E v ml =
     (case verify_reset E v (ml_trust ml) of
        Inl e \<Rightarrow> (ml, Inl e)
      | Inr None \<Rightarrow> (ml, Inr (False, {}))
      | Inr (Some (targets, ids)) \<Rightarrow>
          let key = digest E v
          in if key \<in> set (dkeys (ml_resets ml)) then (ml, Inr (False, {}))
             else (ml\<lparr>ml_resets := dset key (obj_of v) (ml_resets ml),
                      ml_cleared := ml_cleared ml \<union> targets \<times> ids,
                      ml_latches := unlatch targets ids (ml_latches ml)\<rparr>,
                   Inr (True, {t \<in> targets. t \<in> set (dkeys (ml_latches ml)) \<and> dget (ml_latches ml) t {} \<subseteq> ids})))"

definition lockdown :: "mutiny_ledger \<Rightarrow> bool" where
  "lockdown ml \<longleftrightarrow> ml_latches ml \<noteq> []"

definition is_latched :: "mutiny_ledger \<Rightarrow> string \<Rightarrow> bool" where
  "is_latched ml t \<longleftrightarrow> t \<in> set (dkeys (ml_latches ml))"

definition excludes_node :: "mutiny_ledger \<Rightarrow> did \<Rightarrow> bool" where
  "excludes_node ml d \<longleftrightarrow> is_latched ml (node_target d) \<or> is_latched ml (decider_target d)"

definition signed_incidents :: "mutiny_ledger \<Rightarrow> obj list" where
  "signed_incidents ml = map (in_signed \<circ> snd) (ml_incidents ml)"

definition signed_resets :: "mutiny_ledger \<Rightarrow> obj list" where
  "signed_resets ml = map snd (ml_resets ml)"

section \<open>What a conviction rests on\<close>

lemma convict_Some [simp]: "convict m = Inr (Some ts) \<longleftrightarrow> m = Inr ts"
  by (auto simp: convict_def finish_def rbind_def split: sum.splits exit.splits)

lemma passed_Inr [simp]: "passed m = Inr u \<longleftrightarrow> m = Inr None"
  by (auto simp: passed_def chain_iffs)

lemma response_provider:
  assumes "check_response E r tr req dec = Inr None"
  shows "verify_payload E r (Some (tr_mesh tr)) = (True, Some (field_str r ''provider''))"
  using assms by (auto elim!: response.signer simp: field_str_def obj_of_def strv_def pget_def)

lemma decision_decider:
  assumes "check_decision E d tr req = Inr None"
  shows "verify_payload E d (Some (\<lambda>did. tr_mesh tr did \<or> tr_deciders tr did)) = (True, Some (field_str d ''decider''))"
  using assms by (auto elim!: decision.signer simp: field_str_def obj_of_def strv_def pget_def)

text \<open>A node is convicted on an answer it signed, a decider on a decision it signed or its own report.\<close>

definition node_evidence :: "env \<Rightarrow> trust_roots \<Rightarrow> obj \<Rightarrow> did \<Rightarrow> bool" where
  "node_evidence E tr ev X \<longleftrightarrow>
     (\<exists>r req. (r = pget ev ''a'' \<or> r = pget ev ''response'') \<and> check_response E r tr req None = Inr None \<and>
        verify_payload E r (Some (tr_mesh tr)) = (True, Some X))"

definition decider_evidence :: "env \<Rightarrow> trust_roots \<Rightarrow> obj \<Rightarrow> did \<Rightarrow> did \<Rightarrow> bool" where
  "decider_evidence E tr ev reporter X \<longleftrightarrow>
     (\<exists>req. check_decision E (pget ev ''decision'') tr req = Inr None \<and>
        verify_payload E (pget ev ''decision'') (Some (\<lambda>did. tr_mesh tr did \<or> tr_deciders tr did)) = (True, Some X)) \<or>
     reporter = X \<and> tr_deciders tr X"

lemma target_inject [simp]:
  "node_target x = node_target y \<longleftrightarrow> x = y" "decider_target x = decider_target y \<longleftrightarrow> x = y"
  "node_target x \<noteq> decider_target y" "decider_target y \<noteq> node_target x"
  "node_target x \<noteq> model_target m" "decider_target x \<noteq> model_target m"
  by (simp_all add: node_target_def decider_target_def model_target_def)

lemma ev_equivocation_sound:
  "ev_equivocation E ev tr = Inr (Some ts) \<Longrightarrow> \<exists>X. ts = [node_target X] \<and> node_evidence E tr ev X"
  by (auto simp: ev_equivocation_def Let_def chain_iffs node_evidence_def dest: response_provider)

lemma ev_lease_violation_sound:
  "ev_lease_violation E ev tr = Inr (Some ts) \<Longrightarrow> \<exists>X. ts = [node_target X] \<and> node_evidence E tr ev X"
  by (auto simp: ev_lease_violation_def Let_def chain_iffs node_evidence_def dest: response_provider)

lemma ev_secret_exfiltration_sound:
  "ev_secret_exfiltration E ev tr = Inr (Some ts) \<Longrightarrow> \<exists>X. ts = [node_target X] \<and> node_evidence E tr ev X"
  by (auto simp: ev_secret_exfiltration_def Let_def chain_iffs node_evidence_def dest: response_provider)

lemma ev_forbidden_capability_sound:
  "ev_forbidden_capability E dec ev tr = Inr (Some ts) \<Longrightarrow> \<exists>X m. ts = [model_target m, node_target X] \<and> node_evidence E tr ev X"
  by (auto simp: ev_forbidden_capability_def Let_def chain_iffs node_evidence_def dest: response_provider)

lemma ev_model_self_reported_sound:
  "ev_model_self_reported E ev tr reporter = Inr (Some ts) \<Longrightarrow> \<exists>m. ts = [model_target m]"
  by (auto simp: ev_model_self_reported_def Let_def chain_iffs)

lemma ev_decider_tampering_sound:
  "ev_decider_tampering E ev tr = Inr (Some ts) \<Longrightarrow> \<exists>X. ts = [decider_target X] \<and> decider_evidence E tr ev reporter X"
  by (auto simp: ev_decider_tampering_def Let_def chain_iffs decider_evidence_def dest: decision_decider)

lemma ev_decider_self_reported_sound:
  "ev_decider_self_reported E ev tr reporter = Inr (Some ts) \<Longrightarrow>
     \<exists>X. ts = [decider_target X] \<and> decider_evidence E tr ev reporter X"
  by (auto simp: ev_decider_self_reported_def Let_def chain_iffs decider_evidence_def)

lemma verifier_sound:
  assumes "verifier E dec kind ev tr reporter = Inr (Some ts)"
  shows "(node_target X \<in> set ts \<longrightarrow> node_evidence E tr ev X) \<and> (decider_target X \<in> set ts \<longrightarrow> decider_evidence E tr ev reporter X)"
proof -
  note sound = ev_equivocation_sound ev_lease_violation_sound ev_secret_exfiltration_sound ev_forbidden_capability_sound
    ev_model_self_reported_sound ev_decider_tampering_sound [where reporter = reporter] ev_decider_self_reported_sound
  from assms show ?thesis
    unfolding verifier_def by (auto split: if_splits dest!: sound)
qed

lemma verify_incident_SomeD:
  assumes "verify_incident E dec v tr = Inr (Some inc)"
  obtains ev where "v = JObj (in_signed inc)" "pget (in_signed inc) ''evidence'' = JObj ev"
    "verify_payload E v (Some (tr_peers tr)) = (True, Some (in_reporter inc))"
    "in_id inc = incident_id E (in_kind inc) ev" "verifier E dec (in_kind inc) ev tr (in_reporter inc) = Inr (Some (in_targets inc))"
proof -
  note chain = finish_okD [OF assms [unfolded verify_incident_def], of "\<lambda>r. r \<noteq> None"]
  have s: "signed_by E v INCIDENT ''reporter'' (tr_peers tr) = None" using chain by (auto simp: chain_iffs)
  then obtain d did where d: "v = JObj d" "map_of d ''reporter'' = Some (JStr did)"
    "verify_payload E v (Some (tr_peers tr)) = (True, Some did)" by (auto simp: signed_by_None)
  then have rep: "strv (pget d ''reporter'') = did" by (simp add: strv_def pget_def)
  from chain d(1) have "\<exists>ev. pget d ''evidence'' = JObj ev \<and>
      shape_errors_to_None (verifier E dec (in_kind inc) ev tr (strv (pget d ''reporter''))) = Inr (Some (in_targets inc)) \<and>
      in_id inc = incident_id E (in_kind inc) ev \<and> in_signed inc = d \<and> in_reporter inc = strv (pget d ''reporter'')"
    by (auto simp: chain_iffs obj_of_def Let_def)
  with rep obtain ev where ev: "pget d ''evidence'' = JObj ev"
    "shape_errors_to_None (verifier E dec (in_kind inc) ev tr did) = Inr (Some (in_targets inc))"
    "in_id inc = incident_id E (in_kind inc) ev" "in_signed inc = d" "in_reporter inc = did" by blast
  then have "verifier E dec (in_kind inc) ev tr did = Inr (Some (in_targets inc))"
    by (auto simp: shape_errors_to_None_def split: sum.splits py_error.splits)
  with d ev that show ?thesis by auto
qed

section \<open>The ledger is its deliveries\<close>

datatype ledger_op = Report json | Clear json

fun ledger_step :: "env \<Rightarrow> decoder \<Rightarrow> ledger_op \<Rightarrow> mutiny_ledger \<Rightarrow> mutiny_ledger" where
  "ledger_step E dec (Report v) ml = fst (ml_add E dec v ml)"
| "ledger_step E dec (Clear v) ml = fst (ml_reset E v ml)"

definition reported :: "env \<Rightarrow> decoder \<Rightarrow> trust_roots \<Rightarrow> ledger_op list \<Rightarrow> incident set" where
  "reported E dec tr ops = {inc. \<exists>v. Report v \<in> set ops \<and> verify_incident E dec v tr = Inr (Some inc)}"

definition resets :: "env \<Rightarrow> trust_roots \<Rightarrow> ledger_op list \<Rightarrow> (json \<times> string set \<times> string set) set" where
  "resets E tr ops = {(v, T, I). Clear v \<in> set ops \<and> verify_reset E v tr = Inr (Some (T, I))}"

text \<open>The incidents that hold a target: reported against it and not cleared by a reset, whichever came first.\<close>

definition clears :: "(json \<times> string set \<times> string set) set \<Rightarrow> string \<Rightarrow> string \<Rightarrow> bool" where
  "clears R t i \<longleftrightarrow> (\<exists>(v, T, I)\<in>R. t \<in> T \<and> i \<in> I)"

definition held :: "incident set \<Rightarrow> (json \<times> string set \<times> string set) set \<Rightarrow> string \<Rightarrow> string set" where
  "held A R t = {i. \<not> clears R t i \<and> (\<exists>inc\<in>A. in_id inc = i \<and> t \<in> set (in_targets inc))}"

lemma clears_insert [simp]: "clears (insert (v, T, I) R) t i \<longleftrightarrow> t \<in> T \<and> i \<in> I \<or> clears R t i"
  by (simp add: clears_def)

text \<open>Ids name what they stand for: incidents with one id convict the same targets, resets with one digest
  clear the same pairs (both follow from collision-freedom of the digest).\<close>

definition ids_faithful :: "env \<Rightarrow> incident set \<Rightarrow> (json \<times> string set \<times> string set) set \<Rightarrow> bool" where
  "ids_faithful E A R \<longleftrightarrow>
     (\<forall>a\<in>A. \<forall>b\<in>A. in_id a = in_id b \<longrightarrow> set (in_targets a) = set (in_targets b)) \<and>
     (\<forall>r\<in>R. \<forall>s\<in>R. digest E (fst r) = digest E (fst s) \<longrightarrow> snd r = snd s)"

lemma ids_faithfulD:
  assumes "ids_faithful E A R"
  shows "a \<in> A \<Longrightarrow> b \<in> A \<Longrightarrow> in_id a = in_id b \<Longrightarrow> set (in_targets a) = set (in_targets b)"
    and "r \<in> R \<Longrightarrow> s \<in> R \<Longrightarrow> digest E (fst r) = digest E (fst s) \<Longrightarrow> snd r = snd s"
  by (rule assms [unfolded ids_faithful_def, THEN conjunct1, rule_format], assumption+)
     (rule assms [unfolded ids_faithful_def, THEN conjunct2, rule_format], assumption+)

lemma ids_faithful_mono:
  assumes "ids_faithful E A' R'" "A \<subseteq> A'" "R \<subseteq> R'"
  shows "ids_faithful E A R"
  unfolding ids_faithful_def
proof (intro conjI ballI impI)
  fix a b
  assume "a \<in> A" "b \<in> A" "in_id a = in_id b"
  then show "set (in_targets a) = set (in_targets b)" using assms(2) by (intro ids_faithfulD(1) [OF assms(1)]) auto
next
  fix r s
  assume "r \<in> R" "s \<in> R" "digest E (fst r) = digest E (fst s)"
  then show "snd r = snd s" using assms(3) by (intro ids_faithfulD(2) [OF assms(1)]) auto
qed


definition ledger_inv :: "env \<Rightarrow> trust_roots \<Rightarrow> incident set \<Rightarrow> (json \<times> string set \<times> string set) set \<Rightarrow> mutiny_ledger \<Rightarrow> bool" where
  "ledger_inv E tr A R ml \<longleftrightarrow> ml_trust ml = tr \<and> distinct (map fst (ml_latches ml)) \<and>
     set (dkeys (ml_incidents ml)) = in_id ` A \<and> set (dkeys (ml_resets ml)) = (\<lambda>(v, x). digest E v) ` R \<and>
     (\<forall>t i. (t, i) \<in> ml_cleared ml \<longleftrightarrow> clears R t i) \<and>
     (\<forall>t. map_of (ml_latches ml) t = (if held A R t = {} then None else Some (held A R t)))"

lemma set_dkeys_dset [simp]: "set (dkeys (dset k v d)) = insert k (set (dkeys d))"
  by (simp add: dkeys_def dom_update)

lemma fold_latch:
  "map_of (fold (latch i C) ts L) t =
     (if t \<in> set ts \<and> (t, i) \<notin> C then Some (insert i (dget L t {})) else map_of L t)"
proof (induction ts arbitrary: L)
  case (Cons x ts)
  then show ?case by (auto simp: latch_def dget_def)
qed simp

lemma distinct_fold_latch: "distinct (map fst L) \<Longrightarrow> distinct (map fst (fold (latch i C) ts L))"
  by (induction ts arbitrary: L) (simp_all add: latch_def)

lemma map_of_unlatch:
  assumes "distinct (map fst L)"
  shows "map_of (unlatch T I L) t =
    (case map_of L t of None \<Rightarrow> None | Some S \<Rightarrow> if t \<in> T then (if S - I = {} then None else Some (S - I)) else Some S)"
proof -
  let ?f = "\<lambda>(t, held). (t, if t \<in> T then held - I else held)"
  have keys: "map fst (map ?f L) = map fst L" by auto
  have "map_of (map ?f L) t = map_option (\<lambda>S. if t \<in> T then S - I else S) (map_of L t)"
    by (induction L) auto
  moreover have "distinct (map fst (map ?f L))" using assms by (simp only: keys)
  ultimately show ?thesis
    unfolding unlatch_def by (subst map_of_filter_in) (auto split: option.splits)
qed

lemma distinct_unlatch: "distinct (map fst L) \<Longrightarrow> distinct (map fst (unlatch T I L))"
proof -
  let ?f = "\<lambda>(t, held). (t, if t \<in> T then held - I else held)"
  assume d: "distinct (map fst L)"
  have keys: "map fst (map ?f L) = map fst L" by auto
  have "distinct (map fst (map ?f L))" using d by (simp only: keys)
  then show ?thesis unfolding unlatch_def by (rule distinct_filter_keys)
qed

lemma ml_add_ignored: "\<forall>inc. verify_incident E dec v (ml_trust ml) \<noteq> Inr (Some inc) \<Longrightarrow> fst (ml_add E dec v ml) = ml"
  by (simp add: ml_add_def split: sum.split option.split)

lemma ml_reset_ignored: "\<forall>x. verify_reset E v (ml_trust ml) \<noteq> Inr (Some x) \<Longrightarrow> fst (ml_reset E v ml) = ml"
  by (simp add: ml_reset_def split: sum.split option.split)

lemma ml_add_inv:
  assumes inv: "ledger_inv E tr A R ml" and faithful: "ids_faithful E (insert inc A) R"
    and inc: "verify_incident E dec v tr = Inr (Some inc)"
  shows "ledger_inv E tr (insert inc A) R (fst (ml_add E dec v ml))"
proof (cases "in_id inc \<in> in_id ` A")
  case True
  then obtain b where b: "b \<in> A" "in_id b = in_id inc" by auto
  then have "set (in_targets b) = set (in_targets inc)" by (intro ids_faithfulD(1) [OF faithful]) auto
  with b have "t \<in> set (in_targets inc) \<Longrightarrow> \<exists>x\<in>A. in_id x = in_id inc \<and> t \<in> set (in_targets x)" for t
    by (intro bexI [of _ b]) simp_all
  then have h: "held (insert inc A) R t = held A R t" for t by (auto simp: held_def)
  have "in_id inc \<in> set (dkeys (ml_incidents ml))" "ml_trust ml = tr" using inv True by (simp_all add: ledger_inv_def)
  with inc have "fst (ml_add E dec v ml) = ml" by (simp add: ml_add_def)
  moreover have "in_id ` insert inc A = in_id ` A" using True by auto
  ultimately show ?thesis using inv by (simp add: ledger_inv_def h)
next
  case False
  have c: "(t, i) \<in> ml_cleared ml \<longleftrightarrow> clears R t i" for t i
    using inv by (simp add: ledger_inv_def)
  have h: "held (insert inc A) R t =
      (if t \<in> set (in_targets inc) \<and> (t, in_id inc) \<notin> ml_cleared ml then insert (in_id inc) (held A R t) else held A R t)" for t
    unfolding c by (auto simp: held_def)
  have l: "\<And>t. map_of (ml_latches ml) t = (if held A R t = {} then None else Some (held A R t))" "ml_trust ml = tr"
    "distinct (map fst (ml_latches ml))" "set (dkeys (ml_incidents ml)) = in_id ` A"
    using inv by (simp_all add: ledger_inv_def)
  have "map_of (fold (latch (in_id inc) (ml_cleared ml)) (in_targets inc) (ml_latches ml)) t =
      (if held (insert inc A) R t = {} then None else Some (held (insert inc A) R t))" for t
    by (simp add: fold_latch h dget_def l(1))
  with inv inc False l show ?thesis by (simp add: ml_add_def ledger_inv_def distinct_fold_latch)
qed

lemma ml_reset_inv:
  assumes inv: "ledger_inv E tr A R ml" and faithful: "ids_faithful E A (insert (v, T, I) R)"
    and reset: "verify_reset E v tr = Inr (Some (T, I))"
  shows "ledger_inv E tr A (insert (v, T, I) R) (fst (ml_reset E v ml))"
proof (cases "digest E v \<in> (\<lambda>(v, x). digest E v) ` R")
  case True
  then obtain r where r: "r \<in> R" "digest E (fst r) = digest E v" by auto
  then have "snd r = snd (v, T, I)" by (intro ids_faithfulD(2) [OF faithful]) auto
  with r obtain w where w: "(w, T, I) \<in> R" "digest E w = digest E v" by (cases r) auto
  then have c: "clears (insert (v, T, I) R) t i \<longleftrightarrow> clears R t i" for t i by (auto simp: clears_def)
  have "digest E v \<in> set (dkeys (ml_resets ml))" "ml_trust ml = tr" using inv True by (simp_all add: ledger_inv_def)
  with reset have "fst (ml_reset E v ml) = ml" by (simp add: ml_reset_def)
  moreover have "(\<lambda>(v, x). digest E v) ` insert (v, T, I) R = (\<lambda>(v, x). digest E v) ` R" using True by auto
  ultimately show ?thesis using inv by (simp only: ledger_inv_def held_def c simp_thms)
next
  case False
  have h: "held A (insert (v, T, I) R) t = (if t \<in> T then held A R t - I else held A R t)" for t
    by (auto simp: held_def)
  have d: "distinct (map fst (ml_latches ml))" and l: "\<And>t. map_of (ml_latches ml) t = (if held A R t = {} then None else Some (held A R t))"
    using inv by (simp_all add: ledger_inv_def)
  have "map_of (unlatch T I (ml_latches ml)) t =
      (if held A (insert (v, T, I) R) t = {} then None else Some (held A (insert (v, T, I) R) t))" for t
    unfolding map_of_unlatch [OF d] l h by auto
  moreover have "ml_trust ml = tr" "digest E v \<notin> set (dkeys (ml_resets ml))" using inv False by (simp_all add: ledger_inv_def)
  moreover have "fst (ml_reset E v ml) = ml\<lparr>ml_resets := dset (digest E v) (obj_of v) (ml_resets ml),
      ml_cleared := ml_cleared ml \<union> T \<times> I, ml_latches := unlatch T I (ml_latches ml)\<rparr>"
    using reset calculation(2,3) by (simp add: ml_reset_def)
  moreover have "(t, i) \<in> ml_cleared ml \<union> T \<times> I \<longleftrightarrow> clears (insert (v, T, I) R) t i" for t i
    using inv by (auto simp: ledger_inv_def)
  ultimately show ?thesis
    using inv d by (simp add: ledger_inv_def distinct_unlatch)
qed

lemma ledger_fold_inv:
  assumes "ids_faithful E (reported E dec tr ops) (resets E tr ops)"
  shows "ledger_inv E tr (reported E dec tr ops) (resets E tr ops) (fold (ledger_step E dec) ops (ledger_init tr))"
  using assms
proof (induction ops rule: rev_induct)
  case Nil
  then show ?case by (simp add: ledger_inv_def ledger_init_def reported_def resets_def held_def dkeys_def clears_def)
next
  case (snoc op ops)
  let ?A = "reported E dec tr ops" and ?R = "resets E tr ops" and ?ml = "fold (ledger_step E dec) ops (ledger_init tr)"
  have sub: "?A \<subseteq> reported E dec tr (ops @ [op])" "?R \<subseteq> resets E tr (ops @ [op])" by (auto simp: reported_def resets_def)
  with snoc.prems have "ids_faithful E ?A ?R" by (rule ids_faithful_mono)
  with snoc.IH have inv: "ledger_inv E tr ?A ?R ?ml" by blast
  then have tr: "ml_trust ?ml = tr" by (simp add: ledger_inv_def)
  show ?case
  proof (cases op)
    case (Report v)
    have R: "resets E tr (ops @ [op]) = ?R" by (auto simp: resets_def Report)
    show ?thesis
    proof (cases "\<exists>inc. verify_incident E dec v tr = Inr (Some inc)")
      case True
      then obtain inc where inc: "verify_incident E dec v tr = Inr (Some inc)" by blast
      then have "reported E dec tr (ops @ [op]) = insert inc ?A" by (auto simp: reported_def Report)
      with ml_add_inv [OF inv _ inc] snoc.prems R Report show ?thesis by simp
    next
      case False
      then have "reported E dec tr (ops @ [op]) = ?A" unfolding reported_def Report by auto
      moreover have "fst (ml_add E dec v ?ml) = ?ml" using False tr by (intro ml_add_ignored) simp
      ultimately show ?thesis using inv R Report by simp
    qed
  next
    case (Clear v)
    have A: "reported E dec tr (ops @ [op]) = ?A" by (auto simp: reported_def Clear)
    show ?thesis
    proof (cases "\<exists>T I. verify_reset E v tr = Inr (Some (T, I))")
      case True
      then obtain T I where r: "verify_reset E v tr = Inr (Some (T, I))" by blast
      then have "resets E tr (ops @ [op]) = insert (v, T, I) ?R" by (auto simp: resets_def Clear)
      with ml_reset_inv [OF inv _ r] snoc.prems A Clear show ?thesis by simp
    next
      case False
      then have "resets E tr (ops @ [op]) = ?R" unfolding resets_def Clear by auto
      moreover have "fst (ml_reset E v ?ml) = ?ml" using False tr by (intro ml_reset_ignored) simp
      ultimately show ?thesis using inv A Clear by simp
    qed
  qed
qed

section \<open>Properties\<close>

text \<open>C25 A latch holds until an operator clears that very incident, and nothing else clears it: after any
  sequence of deliveries, a target is latched exactly when a verified incident against it was delivered
  that no delivered operator reset names together with the target. Order and repetition do not matter: a
  reset that arrives first still clears its incidents, and an incident redelivered after its reset does not
  latch again. The ledger is in lockdown exactly when some target is latched.\<close>

theorem ledger_latches_exact:
  assumes "ids_faithful E (reported E dec tr ops) (resets E tr ops)"
  shows "(is_latched (fold (ledger_step E dec) ops (ledger_init tr)) t \<longleftrightarrow>
      (\<exists>inc\<in>reported E dec tr ops. t \<in> set (in_targets inc) \<and>
         (\<forall>(v, T, I)\<in>resets E tr ops. \<not> (t \<in> T \<and> in_id inc \<in> I)))) \<and>
    (lockdown (fold (ledger_step E dec) ops (ledger_init tr)) \<longleftrightarrow>
      (\<exists>t. is_latched (fold (ledger_step E dec) ops (ledger_init tr)) t))"
proof -
  let ?ml = "fold (ledger_step E dec) ops (ledger_init tr)"
  have keys: "t \<in> set (dkeys d) \<longleftrightarrow> map_of d t \<noteq> None" for d :: "(string, string set) dict"
    by (simp add: dkeys_def map_of_eq_None_iff)
  have "is_latched ?ml t \<longleftrightarrow> held (reported E dec tr ops) (resets E tr ops) t \<noteq> {}"
    using ledger_fold_inv [OF assms] by (simp add: ledger_inv_def is_latched_def keys)
  moreover have "lockdown ?ml \<longleftrightarrow> (\<exists>t. is_latched ?ml t)"
    by (auto simp: lockdown_def is_latched_def dkeys_def neq_Nil_conv)
  ultimately show ?thesis by (auto simp: held_def clears_def)
qed

text \<open>Nobody is convicted of what he did not sign: a verified incident latches a node only on an answer in
  its evidence that this node signed and that passes every check of an answer, and a decider only on a
  well-formed decision it signed or on its own signed report; the reporter's word alone convicts nobody.\<close>

theorem incident_convicts_signer:
  assumes "verify_incident E dec v tr = Inr (Some inc)"
  shows "\<exists>ev. pget (in_signed inc) ''evidence'' = JObj ev \<and>
    verify_payload E v (Some (tr_peers tr)) = (True, Some (in_reporter inc)) \<and>
    (\<forall>X. node_target X \<in> set (in_targets inc) \<longrightarrow> node_evidence E tr ev X) \<and>
    (\<forall>X. decider_target X \<in> set (in_targets inc) \<longrightarrow> decider_evidence E tr ev (in_reporter inc) X)"
  using assms
proof (rule verify_incident_SomeD)
  fix ev
  assume "pget (in_signed inc) ''evidence'' = JObj ev"
    "verify_payload E v (Some (tr_peers tr)) = (True, Some (in_reporter inc))"
    "verifier E dec (in_kind inc) ev tr (in_reporter inc) = Inr (Some (in_targets inc))"
  with verifier_sound [OF this(3)] show ?thesis by blast
qed


section \<open>A concrete incident\<close>

text \<open>A decider that reports itself.\<close>

definition ref_evidence :: obj where
  "ref_evidence = [(''reporter'', JStr (ref_did (CHR ''d''))), (''violation'', JStr ''drift''), (''proposal'', JObj [])]"

definition ref_incident :: "obj res" where
  "ref_incident = make_incident ref_env32 (ref_seed (CHR ''d'')) DECIDER_SELF_REPORTED ref_evidence (Fin 300)"

lemma ref_incident_verifies:
  obtains o' inc where "ref_incident = Inr o'"
    "verify_incident ref_env32 (\<lambda>_. None) (JObj o') ref_roots = Inr (Some inc)" "in_targets inc = [decider_target (ref_did (CHR ''d''))]"
    "pget o' ''type'' = JStr INCIDENT"
proof -
  let ?id = "incident_id ref_env32 DECIDER_SELF_REPORTED ref_evidence"
  let ?body = "[(''type'', JStr INCIDENT), (''reporter'', JStr (ref_did (CHR ''d''))), (''kind'', JStr DECIDER_SELF_REPORTED),
     (''evidence'', JObj ref_evidence), (''incident_id'', JStr ?id), (''issued_at'', JFloat (Fin 300))]"
  have "\<not> has_envelope ?body" by (simp add: has_envelope_def dkeys_def)
  then obtain r where r: "sign_payload ref_env32 (ref_seed (CHR ''d'')) ?body = Inr r"
    using sign_payload_total [OF ref_env32_facts(1) length_ref_seed] by blast
  then have made: "ref_incident = Inr r" by (simp add: ref_incident_def make_incident_def INCIDENT_KINDS_def)
  have fields: "pget r ''type'' = JStr INCIDENT" "pget r ''reporter'' = JStr (ref_did (CHR ''d''))"
    "pget r ''kind'' = JStr DECIDER_SELF_REPORTED" "pget r ''evidence'' = JObj ref_evidence"
    "pget r ''incident_id'' = JStr ?id" "pget r ''issued_at'' = JFloat (Fin 300)"
    by (simp_all add: sign_payload_fields [OF r] pget_def)
  have "tr_peers ref_roots (ref_did (CHR ''d''))" by (simp add: ref_roots_def tr_peers_def any_of_def)
  then have "verify_payload ref_env32 (JObj r) (Some (tr_peers ref_roots)) = (True, Some (ref_did (CHR ''d'')))"
    using verify_payload_signed [OF ref_env32_facts(1) length_ref_seed r ref_env32_facts(3), of "Some (tr_peers ref_roots)"] by simp
  then have s: "signed_by ref_env32 (JObj r) INCIDENT ''reporter'' (tr_peers ref_roots) = None"
    by (simp add: signed_by_def fields)
  have "length (canonical ref_env32 (JObj [])) \<le> MAX_PROPOSAL" by (simp add: canonical_def MAX_PROPOSAL_def)
  then have ev: "verifier ref_env32 (\<lambda>_. None) DECIDER_SELF_REPORTED ref_evidence ref_roots (ref_did (CHR ''d'')) =
      Inr (Some [decider_target (ref_did (CHR ''d''))])"
    by (simp add: verifier_def ev_decider_self_reported_def ref_evidence_def pget_def ref_roots_def short_text_def
        chain_iffs MAX_REASON_def str_len_def)
  have "verify_incident ref_env32 (\<lambda>_. None) (JObj r) ref_roots =
      Inr (Some \<lparr>in_id = ?id, in_kind = DECIDER_SELF_REPORTED, in_targets = [decider_target (ref_did (CHR ''d''))],
        in_reporter = ref_did (CHR ''d''), in_issued_at = Fin 300, in_signed = r\<rparr>)"
    by (simp add: Let_def verify_incident_def s ev fields obj_of_def INCIDENT_KINDS_def some_or_def
        need_def raises_def finish_def numv_def strv_def shape_errors_to_None_def)
  with made fields(1) that show thesis by simp
qed

theorem incident_convicts_signer_witness:
  "\<exists>r inc. ref_incident = Inr r \<and> verify_incident ref_env32 (\<lambda>_. None) (JObj r) ref_roots = Inr (Some inc) \<and>
     verify_payload ref_env32 (JObj r) (Some (tr_peers ref_roots)) = (True, Some (in_reporter inc))"
proof (rule ref_incident_verifies)
  fix r inc
  assume r: "ref_incident = Inr r" "verify_incident ref_env32 (\<lambda>_. None) (JObj r) ref_roots = Inr (Some inc)"
  from incident_convicts_signer [OF this(2)] r show ?thesis by blast
qed

theorem ledger_latches_exact_witness:
  "\<exists>r. ref_incident = Inr r \<and>
     is_latched (fold (ledger_step ref_env32 (\<lambda>_. None)) [Report (JObj r)] (ledger_init ref_roots)) (decider_target (ref_did (CHR ''d'')))"
proof (rule ref_incident_verifies)
  fix r inc
  let ?t = "decider_target (ref_did (CHR ''d''))"
  assume r: "ref_incident = Inr r" "verify_incident ref_env32 (\<lambda>_. None) (JObj r) ref_roots = Inr (Some inc)" "in_targets inc = [?t]"
  have one: "reported ref_env32 (\<lambda>_. None) ref_roots [Report (JObj r)] = {inc}" using r(2) by (auto simp: reported_def)
  have none: "resets ref_env32 ref_roots [Report (JObj r)] = {}" by (simp add: resets_def)
  have "ids_faithful ref_env32 (reported ref_env32 (\<lambda>_. None) ref_roots [Report (JObj r)]) (resets ref_env32 ref_roots [Report (JObj r)])"
    by (simp add: one none ids_faithful_def)
  note exact = ledger_latches_exact [OF this, of ?t, THEN conjunct1, unfolded one none]
  have "is_latched (fold (ledger_step ref_env32 (\<lambda>_. None)) [Report (JObj r)] (ledger_init ref_roots)) ?t"
    by (rule exact [THEN iffD2]) (simp add: r(3))
  with r(1) show ?thesis by blast
qed

end
