(* ===== verification/Safety.thy ===== *)
theory Safety
  imports Mutiny "HOL-Library.Multiset"
begin

text \<open>
  \<^verbatim>\<open>inference/safety.py\<close>: \<^verbatim>\<open>SafetyLayer.inspect\<close> judges one (decision, response) against the user's
  request, \<^verbatim>\<open>adjudicate\<close> decides the request.

  The book of leases and the ledger, which the layer shares with its node, are fields of its state. The
  comparator of answers is a parameter; \<open>default_agree\<close> is the one the code comes with, over a JSON parser
  and a case folding that are parameters. As in \<open>decision_violations\<close>, the model raises where a request of
  the wrong shape reaches it; the callers pass a request they made or checked.
\<close>

section \<open>The default comparator\<close>

fun split_words :: "string list \<Rightarrow> string \<Rightarrow> string list" where
  "split_words [] w = (if w = [] then [] else [w])"
| "split_words (c # cs) w =
     (if py_space c then (if w = [] then split_words cs [] else w # split_words cs []) else split_words cs (w @ c))"

definition sole_json :: "(string \<Rightarrow> json option) \<Rightarrow> string \<Rightarrow> json option" where
  "sole_json loads s = (case loads s of Some JNull \<Rightarrow> None | r \<Rightarrow> r)"

definition default_agree :: "env \<Rightarrow> (string \<Rightarrow> json option) \<Rightarrow> (string \<Rightarrow> string) \<Rightarrow> string \<Rightarrow> string \<Rightarrow> bool" where
  "default_agree E loads casefold a b =
     (case (sole_json loads a, sole_json loads b) of
        (Some ja, Some jb) \<Rightarrow> canonical E (JObj [(''v'', ja)]) = canonical E (JObj [(''v'', jb)])
      | _ \<Rightarrow> casefold (join '' '' (split_words (utf8_chars a) [])) = casefold (join '' '' (split_words (utf8_chars b) [])))"

section \<open>Inspection\<close>

record inspection =
  ins_ok :: bool
  ins_reason :: "string option"
  ins_evidence :: "(string \<times> obj) option"

type_synonym answer_key = "did \<times> string \<times> string"

record safety_layer =
  sl_trust :: trust_roots
  sl_leases :: lease_book
  sl_ledger :: mutiny_ledger
  sl_agree :: "string \<Rightarrow> string \<Rightarrow> bool"
  sl_skew :: pyfloat
  sl_memory :: int
  sl_seen :: "(answer_key, obj) dict"

definition safety_init ::
  "trust_roots \<Rightarrow> lease_book \<Rightarrow> mutiny_ledger \<Rightarrow> (string \<Rightarrow> string \<Rightarrow> bool) \<Rightarrow> pyfloat \<Rightarrow> int \<Rightarrow> safety_layer" where
  "safety_init tr leases ledger agree skew memory =
     \<lparr>sl_trust = tr, sl_leases = leases, sl_ledger = ledger, sl_agree = agree, sl_skew = skew, sl_memory = memory, sl_seen = []\<rparr>"

definition passes :: inspection where
  "passes = \<lparr>ins_ok = True, ins_reason = None, ins_evidence = None\<rparr>"

definition rejects :: "string \<Rightarrow> inspection" where
  "rejects reason = \<lparr>ins_ok = False, ins_reason = Some reason, ins_evidence = None\<rparr>"

definition accuses :: "string \<Rightarrow> string \<Rightarrow> obj \<Rightarrow> inspection" where
  "accuses reason kind evidence = \<lparr>ins_ok = False, ins_reason = Some reason, ins_evidence = Some (kind, evidence)\<rparr>"

text \<open>\<^verbatim>\<open>request["issued_at"]\<close> and \<^verbatim>\<open>request["scopes"]\<close> of a request of the right shape.\<close>

definition request_issued :: "obj \<Rightarrow> pyfloat res" where
  "request_issued d =
     (case num_of (pget d ''issued_at'') of Some f \<Rightarrow> Inr f | None \<Rightarrow> Inl (TypeError ''malformed request''))"

definition request_scopes :: "obj \<Rightarrow> string list res" where
  "request_scopes d =
     (case pget d ''scopes'' of
        JList vs \<Rightarrow> (case strings_of vs of Some ss \<Rightarrow> Inr ss | None \<Rightarrow> Inl (TypeError ''malformed request''))
      | _ \<Rightarrow> Inl (TypeError ''malformed request''))"

definition hop_quarantined :: "env \<Rightarrow> trust_roots \<Rightarrow> json \<Rightarrow> obj option \<Rightarrow> bool res" where
  "hop_quarantined E tr decision advisory =
     (case advisory of
        None \<Rightarrow> Inr False
      | Some adv \<Rightarrow>
          if pget adv ''epoch'' \<noteq> pget (obj_of decision) ''epoch'' then Inr False
          else rbind (check_advisory E (JObj adv) tr None) (\<lambda>r.
                 if r \<noteq> None then Inr False
                 else rbind (routed_through (obj_of decision) (quarantined_of (JObj adv))) (\<lambda>hits. Inr (hits \<noteq> []))))"

text \<open>The decision: it verifies, is for this request and does nothing against it; its decider is not latched.\<close>

definition inspect_decision ::
  "env \<Rightarrow> safety_layer \<Rightarrow> obj \<Rightarrow> json \<Rightarrow> obj option \<Rightarrow> inspection exit + unit" where
  "inspect_decision E sl request decision advisory =
     rbind (raises (check_decision E decision (sl_trust sl) (Some request))) (\<lambda>reason.
     rbind (need (reason = None) (rejects (''decision rejected: '' @ the reason))) (\<lambda>_.
     rbind (raises (decision_violations (obj_of decision) request)) (\<lambda>vs.
     rbind (raises (hop_quarantined E (sl_trust sl) decision advisory)) (\<lambda>hop.
     let violations = vs @ (if hop then [''quarantined-hop''] else []);
         evidence = [(''request'', JObj request), (''decision'', decision)] @ (if hop then [(''advisory'', JObj (the advisory))] else []) in
     rbind (need (violations = []) (accuses (''decision tampering: '' @ join '', '' violations) DECIDER_TAMPERING evidence)) (\<lambda>_.
       need (pget (obj_of decision) ''mode'' = JStr MODE_LOCKDOWN \<or>
             \<not> is_latched (sl_ledger sl) (decider_target (field_str decision ''decider'')))
         (rejects ''the decider is latched''))))))"

text \<open>The response up to the comparison with an earlier one: it verifies and answers the decision, its node
  and model are not latched, its lease is good, its date is sound, and it is an answer.\<close>

definition inspect_response ::
  "env \<Rightarrow> safety_layer \<Rightarrow> obj \<Rightarrow> json \<Rightarrow> json \<Rightarrow> pyfloat \<Rightarrow> inspection exit + unit" where
  "inspect_response E sl request decision response now =
     rbind (raises (check_response E response (sl_trust sl) (Some request) (Some (obj_of decision)))) (\<lambda>reason.
     rbind (need (reason = None) (rejects (''response rejected: '' @ the reason))) (\<lambda>_.
     let provider = field_str response ''provider''; model = field_str response ''model'';
         lease = pget (obj_of response) ''lease''; issued = numv (pget (obj_of response) ''issued_at'') in
     rbind (need (\<not> (excludes_node (sl_ledger sl) provider \<or> is_latched (sl_ledger sl) (model_target model)))
             (rejects ''the node or model is latched'')) (\<lambda>_.
     rbind (raises (check_lease E lease (sl_trust sl))) (\<lambda>bad.
     rbind (need (bad = None \<and> field_str lease ''subject'' = provider \<and> field_str lease ''model'' = model)
             (accuses ''lease violation'' PROVIDER_LEASE_VIOLATION [(''response'', response)])) (\<lambda>_.
     rbind (raises (lb_check E (sl_leases sl) lease provider model now (sl_skew sl))) (\<lambda>reason.
     rbind (need (reason = None) (rejects (the reason))) (\<lambda>_.
     rbind (raises (request_issued request)) (\<lambda>asked.
     rbind (need (fle (fsub asked (sl_skew sl)) issued \<and> fle issued (fadd now (sl_skew sl)))
             (rejects ''the response is dated outside the life of the request'')) (\<lambda>_.
       need (field_str response ''status'' = STATUS_OK)
         (rejects (''refused by the model node: '' @
            (if field_str response ''reason'' = [] then ''no reason given'' else field_str response ''reason''))))))))))))"

text \<open>The content of the answer: no lease material, nothing forbidden, nothing beyond the grant.\<close>

definition inspect_output :: "env \<Rightarrow> decoder \<Rightarrow> obj \<Rightarrow> json \<Rightarrow> inspection exit + unit" where
  "inspect_output E dec request response =
     (let output = field_str response ''output'' in
      rbind (need (\<not> canary_leaked E output (field_str (pget (obj_of response) ''lease'') ''canary_hash''))
              (accuses ''lease material in the answer'' PROVIDER_SECRET_EXFILTRATION [(''response'', response)])) (\<lambda>_.
      rbind (raises (request_scopes request)) (\<lambda>scopes.
      if scopes = [] then Inr ()
      else
        rbind (need (forbidden dec output = [])
                (accuses (''forbidden proposal: '' @ join '', '' (forbidden dec output)) MODEL_FORBIDDEN_CAPABILITY
                   [(''request'', JObj request), (''response'', response)])) (\<lambda>_.
          need (overreach dec output scopes = []) (rejects (''beyond the grant: '' @ join '', '' (overreach dec output scopes)))))))"

text \<open>\<^verbatim>\<open>_remember\<close>: the answer goes to the end of the ordered dictionary, and the oldest are dropped while
  there are more than \<open>memory\<close>.\<close>

fun evict :: "int \<Rightarrow> ('k, 'v) dict \<Rightarrow> ('k, 'v) dict \<times> unit res" where
  "evict memory [] = ([], if memory < 0 then Inl (KeyError ''dictionary is empty'') else Inr ())"
| "evict memory (p # d) = (if memory < int (length (p # d)) then evict memory d else (p # d, Inr ()))"

definition remember :: "answer_key \<Rightarrow> obj \<Rightarrow> safety_layer \<Rightarrow> safety_layer \<times> unit res" where
  "remember key response sl =
     (let (seen, r) = evict (sl_memory sl) (dpop key (sl_seen sl) @ [(key, response)]) in (sl\<lparr>sl_seen := seen\<rparr>, r))"

definition answer_key :: "json \<Rightarrow> answer_key" where
  "answer_key response = (field_str response ''provider'', field_str response ''request_hash'', field_str response ''model'')"

definition equivocates :: "safety_layer \<Rightarrow> json \<Rightarrow> obj option" where
  "equivocates sl response =
     (case map_of (sl_seen sl) (answer_key response) of
        Some earlier \<Rightarrow> if field_str (JObj earlier) ''output'' \<noteq> field_str response ''output'' then Some earlier else None
      | None \<Rightarrow> None)"

definition conclude :: "inspection exit + unit \<Rightarrow> inspection res" where
  "conclude m = finish id (rbind m (\<lambda>_. Inr passes))"

definition sl_inspect ::
  "env \<Rightarrow> decoder \<Rightarrow> obj \<Rightarrow> json \<Rightarrow> json \<Rightarrow> pyfloat \<Rightarrow> obj option \<Rightarrow> safety_layer \<Rightarrow> safety_layer \<times> inspection res" where
  "sl_inspect E dec request decision response now advisory sl =
     (let before = rbind (inspect_decision E sl request decision advisory) (\<lambda>_. inspect_response E sl request decision response now) in
      case before of
        Inl _ \<Rightarrow> (sl, conclude before)
      | Inr _ \<Rightarrow>
          (case equivocates sl response of
             Some earlier \<Rightarrow>
               (sl, Inr (accuses ''equivocation'' PROVIDER_EQUIVOCATION [(''a'', JObj earlier), (''b'', response)]))
           | None \<Rightarrow>
               (case remember (answer_key response) (obj_of response) sl of
                  (sl', Inl e) \<Rightarrow> (sl', Inl e)
                | (sl', Inr _) \<Rightarrow> (sl', conclude (inspect_output E dec request response)))))"

section \<open>Adjudication\<close>

datatype adjudication_status = ACCEPTED | INTERCEPTED | INSUFFICIENT

record adjudication =
  adj_status :: adjudication_status
  adj_output :: "string option"
  adj_providers :: "did list"
  adj_reasons :: "string list"
  adj_evidence :: "(string \<times> obj) list"
  adj_rejected :: "(json \<times> string) list"
  adj_dissent :: "did list"

record tally_state =
  ts_valid :: "(did, obj) dict"
  ts_reasons :: "string list"
  ts_evidence :: "(string \<times> obj) list"
  ts_rejected :: "(json \<times> string) list"

definition who_of :: "json \<Rightarrow> json" where
  "who_of response =
     (case response of JObj d \<Rightarrow> (case map_of d ''provider'' of Some v \<Rightarrow> v | None \<Rightarrow> JStr ''?'') | _ \<Rightarrow> JStr ''?'')"

definition count_inspection :: "json \<Rightarrow> inspection \<Rightarrow> tally_state \<Rightarrow> tally_state" where
  "count_inspection response f ts =
     (let who = who_of response;
          ts = ts\<lparr>ts_evidence := ts_evidence ts @ (case ins_evidence f of Some e \<Rightarrow> [e] | None \<Rightarrow> [])\<rparr>
      in if \<not> ins_ok f
         then ts\<lparr>ts_reasons := ts_reasons ts @ [the (ins_reason f)], ts_rejected := ts_rejected ts @ [(who, the (ins_reason f))]\<rparr>
         else if strv who \<in> set (dkeys (ts_valid ts)) then ts
         else ts\<lparr>ts_valid := ts_valid ts @ [(strv who, obj_of response)]\<rparr>)"

fun inspect_all ::
  "env \<Rightarrow> decoder \<Rightarrow> obj \<Rightarrow> pyfloat \<Rightarrow> obj option \<Rightarrow> (json \<times> json) list \<Rightarrow> tally_state \<Rightarrow> safety_layer \<Rightarrow>
   safety_layer \<times> tally_state res" where
  "inspect_all E dec request now advisory [] ts sl = (sl, Inr ts)"
| "inspect_all E dec request now advisory ((decision, response) # items) ts sl =
     (case sl_inspect E dec request decision response now advisory sl of
        (sl', Inl e) \<Rightarrow> (sl', Inl e)
      | (sl', Inr f) \<Rightarrow> inspect_all E dec request now advisory items (count_inspection response f ts) sl')"

definition output_of :: "obj \<Rightarrow> string" where
  "output_of r = field_str (JObj r) ''output''"

fun add_to_group :: "(string \<Rightarrow> string \<Rightarrow> bool) \<Rightarrow> obj \<Rightarrow> obj list list \<Rightarrow> obj list list" where
  "add_to_group agree r [] = [[r]]"
| "add_to_group agree r (g # gs) =
     (if agree (output_of (hd g)) (output_of r) then (g @ [r]) # gs else g # add_to_group agree r gs)"

definition agreement_groups :: "(string \<Rightarrow> string \<Rightarrow> bool) \<Rightarrow> obj list \<Rightarrow> obj list list" where
  "agreement_groups agree rs = fold (add_to_group agree) rs []"

text \<open>\<^verbatim>\<open>max(groups, key=len)\<close>: the first of the longest; it raises on an empty list.\<close>

definition first_longest :: "'a list list \<Rightarrow> 'a list res" where
  "first_longest gs =
     (case gs of
        [] \<Rightarrow> Inl (ValueError ''max() iterable argument is empty'')
      | g # gs \<Rightarrow> Inr (fold (\<lambda>h best. if length best < length h then h else best) gs g))"

definition provider_of :: "obj \<Rightarrow> did" where
  "provider_of r = field_str (JObj r) ''provider''"

definition settle :: "(string \<Rightarrow> string \<Rightarrow> bool) \<Rightarrow> int \<Rightarrow> tally_state \<Rightarrow> adjudication res" where
  "settle agree needed ts =
     (let valid = ts_valid ts;
          base = \<lparr>adj_status = INTERCEPTED, adj_output = None, adj_providers = [], adj_reasons = ts_reasons ts,
                  adj_evidence = [], adj_rejected = ts_rejected ts, adj_dissent = []\<rparr>
      in if ts_evidence ts \<noteq> [] then Inr (base\<lparr>adj_evidence := ts_evidence ts\<rparr>)
         else if int (length valid) < needed then Inr (base\<lparr>adj_status := INSUFFICIENT, adj_reasons := ts_reasons ts @ [int_str (int (length valid)) @ '' of '' @ int_str needed @ '' answers valid'']\<rparr>)
         else rbind (first_longest (agreement_groups agree (map snd valid))) (\<lambda>best.
           if int (length best) < needed
           then Inr (base\<lparr>adj_reasons := ts_reasons ts @ [''the model nodes disagree''], adj_dissent := sort (dkeys valid)\<rparr>)
           else let agreed = map provider_of best
                in Inr (base\<lparr>adj_status := ACCEPTED, adj_output := Some (output_of (hd best)), adj_providers := agreed,
                            adj_dissent := sort (filter (\<lambda>p. p \<notin> set agreed) (dkeys valid))\<rparr>)))"

definition needed_answers :: "obj \<Rightarrow> int option \<Rightarrow> int res" where
  "needed_answers request quorum =
     (case quorum of
        Some n \<Rightarrow> Inr n
      | None \<Rightarrow> (case pget request ''quorum'' of JInt n \<Rightarrow> Inr n | _ \<Rightarrow> Inl (TypeError ''malformed request'')))"

definition adjudicate ::
  "env \<Rightarrow> decoder \<Rightarrow> obj \<Rightarrow> (json \<times> json) list \<Rightarrow> pyfloat \<Rightarrow> int option \<Rightarrow> obj option \<Rightarrow> safety_layer \<Rightarrow>
   safety_layer \<times> adjudication res" where
  "adjudicate E dec request items now quorum advisory sl =
     (case needed_answers request quorum of
        Inl e \<Rightarrow> (sl, Inl e)
      | Inr needed \<Rightarrow>
          (case inspect_all E dec request now advisory items
                  \<lparr>ts_valid = [], ts_reasons = [], ts_evidence = [], ts_rejected = []\<rparr> sl of
             (sl', Inl e) \<Rightarrow> (sl', Inl e)
           | (sl', Inr ts) \<Rightarrow> (sl', settle (sl_agree sl') needed ts)))"


section \<open>What an inspection establishes\<close>

lemma exit_Return [simp]:
  "need b x = Inl (Return y) \<longleftrightarrow> \<not> b \<and> x = y" "raises m \<noteq> Inl (Return y)"
  by (auto simp: need_def raises_def split: sum.splits)

lemma verdict_simps [simp]:
  "ins_ok passes" "\<not> ins_ok (rejects reason)" "\<not> ins_ok (accuses reason k ev)"
  "ins_evidence passes = None" "ins_evidence (rejects reason) = None" "ins_evidence (accuses reason k ev) = Some (k, ev)"
  by (simp_all add: passes_def rejects_def accuses_def)

lemma conclude_Inr: "conclude m = Inr f \<longleftrightarrow> m = Inr () \<and> f = passes \<or> m = Inl (Return f)"
  by (auto simp: conclude_def finish_def rbind_def split: sum.splits exit.splits)

lemma inspect_decision_ok:
  assumes "inspect_decision E sl request decision advisory = Inr ()"
  shows "check_decision E decision (sl_trust sl) (Some request) = Inr None"
    "decision_violations (obj_of decision) request = Inr []"
    "hop_quarantined E (sl_trust sl) decision advisory = Inr False"
    "pget (obj_of decision) ''mode'' = JStr MODE_LOCKDOWN \<or> \<not> is_latched (sl_ledger sl) (decider_target (field_str decision ''decider''))"
  using assms unfolding inspect_decision_def by (auto simp: chain_iffs Let_def split: if_splits)

lemma inspect_decision_accuses:
  assumes "inspect_decision E sl request decision advisory = Inl (Return f)" "ins_evidence f = Some (k, ev)"
  obtains vs hop where "k = DECIDER_TAMPERING" "check_decision E decision (sl_trust sl) (Some request) = Inr None"
    "decision_violations (obj_of decision) request = Inr vs" "hop_quarantined E (sl_trust sl) decision advisory = Inr hop"
    "vs \<noteq> [] \<or> hop"
    "ev = [(''request'', JObj request), (''decision'', decision)] @ (if hop then [(''advisory'', JObj (the advisory))] else [])"
proof -
  obtain r where r: "check_decision E decision (sl_trust sl) (Some request) = Inr r"
    using assms(1) by (cases "check_decision E decision (sl_trust sl) (Some request)") (simp_all add: inspect_decision_def)
  have n: "r = None" using assms r by (cases r) (auto simp: inspect_decision_def)
  obtain vs where vs: "decision_violations (obj_of decision) request = Inr vs"
    using assms(1) r n by (cases "decision_violations (obj_of decision) request") (simp_all add: inspect_decision_def)
  obtain hop where hop: "hop_quarantined E (sl_trust sl) decision advisory = Inr hop"
    using assms(1) r n vs by (cases "hop_quarantined E (sl_trust sl) decision advisory") (simp_all add: inspect_decision_def)
  have "vs \<noteq> [] \<or> hop" "k = DECIDER_TAMPERING"
    "ev = [(''request'', JObj request), (''decision'', decision)] @ (if hop then [(''advisory'', JObj (the advisory))] else [])"
    using assms r n vs hop by (auto simp: inspect_decision_def Let_def rbind_Inl_iff chain_Inr_iff split: if_splits)
  with r n vs hop that show thesis by blast
qed

lemma inspect_response_ok:
  assumes "inspect_response E sl request decision response now = Inr ()"
  shows "check_response E response (sl_trust sl) (Some request) (Some (obj_of decision)) = Inr None"
    "\<not> excludes_node (sl_ledger sl) (field_str response ''provider'')"
    "\<not> is_latched (sl_ledger sl) (model_target (field_str response ''model''))"
    "lb_check E (sl_leases sl) (pget (obj_of response) ''lease'') (field_str response ''provider'') (field_str response ''model'')
       now (sl_skew sl) = Inr None"
    "check_lease E (pget (obj_of response) ''lease'') (sl_trust sl) = Inr None"
    "field_str (pget (obj_of response) ''lease'') ''subject'' = field_str response ''provider''"
    "field_str response ''status'' = STATUS_OK"
  using assms unfolding inspect_response_def chain_iffs Let_def by simp_all blast

lemma inspect_response_accuses:
  assumes "inspect_response E sl request decision response now = Inl (Return f)" "ins_evidence f = Some (k, ev)"
  shows "k = PROVIDER_LEASE_VIOLATION \<and> ev = [(''response'', response)] \<and>
    check_response E response (sl_trust sl) (Some request) (Some (obj_of decision)) = Inr None \<and>
    (\<exists>bad. check_lease E (pget (obj_of response) ''lease'') (sl_trust sl) = Inr bad \<and>
       \<not> (bad = None \<and> field_str (pget (obj_of response) ''lease'') ''subject'' = field_str response ''provider'' \<and>
          field_str (pget (obj_of response) ''lease'') ''model'' = field_str response ''model''))"
  using assms unfolding inspect_response_def
  by (auto simp: rbind_Inl_iff chain_Inr_iff Let_def)

lemma inspect_output_ok:
  assumes "inspect_output E dec request response = Inr ()"
  obtains scopes where "request_scopes request = Inr scopes"
    "\<not> canary_leaked E (field_str response ''output'') (field_str (pget (obj_of response) ''lease'') ''canary_hash'')"
    "scopes \<noteq> [] \<longrightarrow> forbidden dec (field_str response ''output'') = [] \<and> overreach dec (field_str response ''output'') scopes = []"
  using assms unfolding inspect_output_def by (auto simp: chain_iffs Let_def split: if_splits)

lemma inspect_output_accuses:
  assumes "inspect_output E dec request response = Inl (Return f)" "ins_evidence f = Some (k, ev)"
  shows "k = PROVIDER_SECRET_EXFILTRATION \<and> ev = [(''response'', response)] \<and>
      canary_leaked E (field_str response ''output'') (field_str (pget (obj_of response) ''lease'') ''canary_hash'') \<or>
    k = MODEL_FORBIDDEN_CAPABILITY \<and> ev = [(''request'', JObj request), (''response'', response)] \<and>
      (\<exists>scopes. request_scopes request = Inr scopes \<and> scopes \<noteq> []) \<and> forbidden dec (field_str response ''output'') \<noteq> []"
  using assms unfolding inspect_output_def by (auto simp: rbind_Inl_iff chain_Inr_iff Let_def split: if_splits)


section \<open>The memory of answers\<close>

lemma evict_bounds:
  "set (fst (evict m d)) \<subseteq> set d" "int (length (fst (evict m d))) \<le> max 0 m"
  "distinct (map fst d) \<Longrightarrow> distinct (map fst (fst (evict m d)))" "0 \<le> m \<Longrightarrow> snd (evict m d) = Inr ()"
  by (induction d) auto

lemma check_response_weaken:
  assumes "check_response E v tr req dec = Inr None"
  shows "check_response E v tr req None = Inr None" "check_response E v tr None None = Inr None"
  using assms by (auto simp: check_response_def Let_def split: if_splits)

lemma answer_obj:
  assumes "check_response E v tr req dec = Inr None"
  shows "JObj (obj_of v) = v"
  using assms by (auto elim!: response.signer simp: obj_of_def)

text \<open>Every remembered answer passed its check, under its own key, and there are at most \<open>memory\<close>.\<close>

definition seen_inv :: "env \<Rightarrow> safety_layer \<Rightarrow> bool" where
  "seen_inv E sl \<longleftrightarrow> distinct (map fst (sl_seen sl)) \<and> int (length (sl_seen sl)) \<le> max 0 (sl_memory sl) \<and>
     (\<forall>(k, r)\<in>set (sl_seen sl). k = answer_key (JObj r) \<and> check_response E (JObj r) (sl_trust sl) None None = Inr None \<and>
        field_str (JObj r) ''status'' = STATUS_OK)"

lemma remember_frame: "\<exists>seen. fst (remember k r sl) = sl\<lparr>sl_seen := seen\<rparr>"
  by (auto simp: remember_def split: prod.split)

lemma seen_inv_remember:
  assumes "seen_inv E sl" "inspect_response E sl request decision response now = Inr ()"
  shows "seen_inv E (fst (remember (answer_key response) (obj_of response) sl))"
proof -
  let ?d = "dpop (answer_key response) (sl_seen sl) @ [(answer_key response, obj_of response)]"
  note ok = inspect_response_ok [OF assms(2)]
  have "set (dpop (answer_key response) (sl_seen sl)) \<subseteq> set (sl_seen sl)" by (auto simp: AList.delete_eq)
  moreover have "answer_key response \<notin> fst ` set (dpop (answer_key response) (sl_seen sl))" by (auto simp: AList.delete_eq)
  then have "distinct (map fst ?d)" using assms(1) by (simp add: seen_inv_def distinct_delete)
  moreover have "seen_inv E (sl\<lparr>sl_seen := fst (evict (sl_memory sl) ?d)\<rparr>)" if "distinct (map fst ?d)"
    using that assms(1) evict_bounds(1) [of "sl_memory sl" ?d] evict_bounds(2,3) [where d = ?d and m = "sl_memory sl"]
      check_response_weaken(2) [OF ok(1)] ok(7) answer_obj [OF ok(1)]
    unfolding seen_inv_def by (auto simp: AList.delete_eq)
  ultimately show ?thesis by (simp add: remember_def case_prod_unfold Let_def)
qed

section \<open>Cases of an inspection\<close>

lemma sl_inspect_cases:
  assumes "sl_inspect E dec request decision response now advisory sl = (sl', r)"
  obtains
    (at_decision) x where "inspect_decision E sl request decision advisory = Inl x" "sl' = sl" "conclude (Inl x) = r"
  | (at_response) x where "inspect_decision E sl request decision advisory = Inr ()"
      "inspect_response E sl request decision response now = Inl x" "sl' = sl" "conclude (Inl x) = r"
  | (equivocation) earlier where "inspect_decision E sl request decision advisory = Inr ()"
      "inspect_response E sl request decision response now = Inr ()" "equivocates sl response = Some earlier" "sl' = sl"
      "r = Inr (accuses ''equivocation'' PROVIDER_EQUIVOCATION [(''a'', JObj earlier), (''b'', response)])"
  | (forgetful) e where "inspect_response E sl request decision response now = Inr ()"
      "sl' = fst (remember (answer_key response) (obj_of response) sl)" "r = Inl e"
  | (judged) "inspect_decision E sl request decision advisory = Inr ()"
      "inspect_response E sl request decision response now = Inr ()"
      "sl' = fst (remember (answer_key response) (obj_of response) sl)" "conclude (inspect_output E dec request response) = r"
proof (cases "inspect_decision E sl request decision advisory")
  case (Inl x)
  with assms have "sl' = sl" "conclude (Inl x) = r" by (auto simp: sl_inspect_def)
  with Inl show thesis by (rule at_decision)
next
  case (Inr u)
  note d = this
  show thesis
  proof (cases "inspect_response E sl request decision response now")
    case (Inl x)
    with assms d have "sl' = sl" "conclude (Inl x) = r" by (auto simp: sl_inspect_def)
    with d Inl show thesis by (intro at_response) simp_all
  next
    case (Inr u)
    note res = this
    show thesis
    proof (cases "equivocates sl response")
      case None
      obtain s m where m: "remember (answer_key response) (obj_of response) sl = (s, m)" by fastforce
      show thesis
      proof (cases m)
        case (Inl e)
        with assms d res None m have "sl' = s" "r = Inl e" by (auto simp: sl_inspect_def)
        with res m show thesis by (intro forgetful) simp_all
      next
        case (Inr u)
        with assms d res None m have "sl' = s" "conclude (inspect_output E dec request response) = r" by (auto simp: sl_inspect_def)
        with d res m show thesis by (intro judged) simp_all
      qed
    next
      case (Some earlier)
      with assms d res have "sl' = sl" "r = Inr (accuses ''equivocation'' PROVIDER_EQUIVOCATION [(''a'', JObj earlier), (''b'', response)])"
        by (auto simp: sl_inspect_def)
      with d res Some show thesis by (intro equivocation) simp_all
    qed
  qed
qed

lemma sl_inspect_frame:
  assumes "sl_inspect E dec request decision response now advisory sl = (sl', r)"
  shows "\<exists>seen. sl' = sl\<lparr>sl_seen := seen\<rparr>" "seen_inv E sl \<Longrightarrow> seen_inv E sl'"
proof -
  have id: "\<exists>seen. sl = sl\<lparr>sl_seen := seen\<rparr>" by (intro exI [of _ "sl_seen sl"]) simp
  from assms show "\<exists>seen. sl' = sl\<lparr>sl_seen := seen\<rparr>"
    by (cases rule: sl_inspect_cases) (use id remember_frame in auto)
  from assms show "seen_inv E sl'" if "seen_inv E sl"
    by (cases rule: sl_inspect_cases) (use that seen_inv_remember in auto)
qed


section \<open>Evidence convicts\<close>

lemma tampering_convicts:
  assumes "request_evidence_ok E (JObj request) tr = Inr True" "check_decision E decision tr (Some request) = Inr None"
    "decision_violations (obj_of decision) request = Inr vs" "hop_quarantined E tr decision advisory = Inr hop" "vs \<noteq> [] \<or> hop"
    "ev = [(''request'', JObj request), (''decision'', decision)] @ (if hop then [(''advisory'', JObj (the advisory))] else [])"
  shows "ev_decider_tampering E ev tr = Inr (Some [decider_target (field_str decision ''decider'')])"
proof -
  have ev: "pget ev ''request'' = JObj request" "pget ev ''decision'' = decision"
    "pget ev ''advisory'' = (if hop then JObj (the advisory) else JNull)"
    by (simp_all add: assms(6) pget_def)
  show ?thesis
  proof (cases hop)
    case True
    with assms(4) obtain adv hits where "advisory = Some adv" "pget adv ''epoch'' = pget (obj_of decision) ''epoch''"
      "check_advisory E (JObj adv) tr None = Inr None"
      "routed_through (obj_of decision) (quarantined_of (JObj adv)) = Inr hits" "hits \<noteq> []"
      by (auto simp: hop_quarantined_def rbind_Inr_iff split: option.splits if_splits)
    with assms(1-3) True show ?thesis
      by (simp add: ev_decider_tampering_def ev Let_def chain_iffs) (simp add: obj_of_def)
  next
    case False
    with assms(1-3,5) show ?thesis
      by (simp add: ev_decider_tampering_def ev Let_def chain_iffs) (simp add: obj_of_def)
  qed
qed

lemma truthy_scopes: "request_scopes d = Inr scopes \<Longrightarrow> scopes \<noteq> [] \<Longrightarrow> truthy (pget d ''scopes'')"
  by (auto simp: request_scopes_def split: json.splits option.splits)

lemma response_evidence:
  assumes "inspect_response E sl request decision response now = Inr ()"
  shows "canary_leaked E (field_str response ''output'') (field_str (pget (obj_of response) ''lease'') ''canary_hash'') \<Longrightarrow>
      ev_secret_exfiltration E [(''response'', response)] (sl_trust sl) = Inr (Some [node_target (field_str response ''provider'')])"
    and "request_evidence_ok E (JObj request) (sl_trust sl) = Inr True \<Longrightarrow> request_scopes request = Inr scopes \<Longrightarrow> scopes \<noteq> [] \<Longrightarrow>
      forbidden dec (field_str response ''output'') \<noteq> [] \<Longrightarrow>
      ev_forbidden_capability E dec [(''request'', JObj request), (''response'', response)] (sl_trust sl) =
        Inr (Some [model_target (field_str response ''model''), node_target (field_str response ''provider'')])"
    and "seen_inv E sl \<Longrightarrow> equivocates sl response = Some earlier \<Longrightarrow>
      ev_equivocation E [(''a'', JObj earlier), (''b'', response)] (sl_trust sl) =
        Inr (Some [node_target (field_str (JObj earlier) ''provider'')])"
proof -
  note ok = inspect_response_ok [OF assms] check_response_weaken [OF inspect_response_ok(1) [OF assms]]
  show "ev_secret_exfiltration E [(''response'', response)] (sl_trust sl) = Inr (Some [node_target (field_str response ''provider'')])"
    if "canary_leaked E (field_str response ''output'') (field_str (pget (obj_of response) ''lease'') ''canary_hash'')"
    using that ok by (simp add: ev_secret_exfiltration_def Let_def chain_iffs pget_def [of "[_]"])
  show "ev_forbidden_capability E dec [(''request'', JObj request), (''response'', response)] (sl_trust sl) =
      Inr (Some [model_target (field_str response ''model''), node_target (field_str response ''provider'')])"
    if "request_evidence_ok E (JObj request) (sl_trust sl) = Inr True" "request_scopes request = Inr scopes" "scopes \<noteq> []"
      "forbidden dec (field_str response ''output'') \<noteq> []"
    using that ok truthy_scopes [OF that(2,3)]
    by (simp add: ev_forbidden_capability_def Let_def chain_iffs pget_def [of "_ # _"]) (simp add: obj_of_def)
  show "ev_equivocation E [(''a'', JObj earlier), (''b'', response)] (sl_trust sl) =
      Inr (Some [node_target (field_str (JObj earlier) ''provider'')])"
    if inv: "seen_inv E sl" and eq: "equivocates sl response = Some earlier"
  proof -
    from eq have e: "map_of (sl_seen sl) (answer_key response) = Some earlier"
      "field_str (JObj earlier) ''output'' \<noteq> field_str response ''output''"
      by (auto simp: equivocates_def split: option.splits if_splits)
    have "(answer_key response, earlier) \<in> set (sl_seen sl)" using e(1) by (rule map_of_SomeD)
    with inv have "answer_key response = answer_key (JObj earlier)"
      "check_response E (JObj earlier) (sl_trust sl) None None = Inr None" "field_str (JObj earlier) ''status'' = STATUS_OK"
      by (auto simp: seen_inv_def)
    with e(2) ok show ?thesis by (simp add: ev_equivocation_def Let_def chain_iffs pget_def [of "_ # _"] answer_key_def)
  qed
qed

lemma verifier_kinds:
  "verifier E dec DECIDER_TAMPERING ev tr reporter = ev_decider_tampering E ev tr"
  "verifier E dec PROVIDER_LEASE_VIOLATION ev tr reporter = ev_lease_violation E ev tr"
  "verifier E dec PROVIDER_EQUIVOCATION ev tr reporter = ev_equivocation E ev tr"
  "verifier E dec PROVIDER_SECRET_EXFILTRATION ev tr reporter = ev_secret_exfiltration E ev tr"
  "verifier E dec MODEL_FORBIDDEN_CAPABILITY ev tr reporter = ev_forbidden_capability E dec ev tr"
  by (simp_all add: verifier_def)

lemma lease_violation_convicts:
  assumes "check_response E response tr (Some request) (Some (obj_of decision)) = Inr None"
    "check_lease E (pget (obj_of response) ''lease'') tr = Inr bad"
    "\<not> (bad = None \<and> field_str (pget (obj_of response) ''lease'') ''subject'' = field_str response ''provider'' \<and>
        field_str (pget (obj_of response) ''lease'') ''model'' = field_str response ''model'')"
  shows "ev_lease_violation E [(''response'', response)] tr = Inr (Some [node_target (field_str response ''provider'')])"
  using assms check_response_weaken [OF assms(1)]
  by (simp add: ev_lease_violation_def Let_def chain_iffs pget_def [of "[_]"])

lemma inspect_evidence:
  assumes "seen_inv E sl" "request_evidence_ok E (JObj request) (sl_trust sl) = Inr True"
    "sl_inspect E dec request decision response now advisory sl = (sl', Inr f)" "ins_evidence f = Some (kind, ev)"
  shows "\<exists>ts. ts \<noteq> [] \<and> verifier E dec kind ev (sl_trust sl) reporter = Inr (Some ts)"
  using assms(3)
proof (cases rule: sl_inspect_cases)
  case (at_decision x)
  then have "inspect_decision E sl request decision advisory = Inl (Return f)" by (simp add: conclude_Inr)
  then show ?thesis using assms(4)
    by (rule inspect_decision_accuses) (auto simp: verifier_kinds tampering_convicts [OF assms(2)])
next
  case (at_response x)
  then have "inspect_response E sl request decision response now = Inl (Return f)" by (simp add: conclude_Inr)
  from inspect_response_accuses [OF this assms(4)] show ?thesis
    by (auto simp: verifier_kinds dest: lease_violation_convicts)
next
  case (equivocation earlier)
  with assms(4) have "kind = PROVIDER_EQUIVOCATION" "ev = [(''a'', JObj earlier), (''b'', response)]" by auto
  with response_evidence(3) [OF equivocation(2) assms(1) equivocation(3)] show ?thesis by (simp add: verifier_kinds)
next
  case (forgetful e)
  then show ?thesis by simp
next
  case judged
  with assms(4) have "inspect_output E dec request response = Inl (Return f)" by (auto simp: conclude_Inr)
  from inspect_output_accuses [OF this assms(4)] show ?thesis
    using response_evidence(1,2) [OF judged(2)] assms(2) by (auto simp: verifier_kinds)
qed


section \<open>Adjudication is backed by inspections\<close>

text \<open>What an accepted answer rests on, besides its signature: the decision is for the request and does
  nothing against it, neither node nor model is latched, the lease is good, the content is clean.\<close>

definition vouched :: "env \<Rightarrow> decoder \<Rightarrow> safety_layer \<Rightarrow> obj \<Rightarrow> pyfloat \<Rightarrow> json \<Rightarrow> json \<Rightarrow> bool" where
  "vouched E dec sl request now decision response \<longleftrightarrow>
     check_decision E decision (sl_trust sl) (Some request) = Inr None \<and>
     decision_violations (obj_of decision) request = Inr [] \<and>
     check_response E response (sl_trust sl) (Some request) (Some (obj_of decision)) = Inr None \<and>
     \<not> excludes_node (sl_ledger sl) (field_str response ''provider'') \<and>
     \<not> is_latched (sl_ledger sl) (model_target (field_str response ''model'')) \<and>
     lb_check E (sl_leases sl) (pget (obj_of response) ''lease'') (field_str response ''provider'') (field_str response ''model'')
       now (sl_skew sl) = Inr None \<and>
     field_str response ''status'' = STATUS_OK \<and>
     \<not> canary_leaked E (field_str response ''output'') (field_str (pget (obj_of response) ''lease'') ''canary_hash'') \<and>
     (\<exists>scopes. request_scopes request = Inr scopes \<and>
        (scopes \<noteq> [] \<longrightarrow> forbidden dec (field_str response ''output'') = [] \<and> overreach dec (field_str response ''output'') scopes = []))"

lemma vouched_seen [simp]: "vouched E dec (sl\<lparr>sl_seen := s\<rparr>) request now decision response = vouched E dec sl request now decision response"
  by (simp add: vouched_def)

lemma inspect_ok_vouched:
  assumes "sl_inspect E dec request decision response now advisory sl = (sl', Inr f)" "ins_ok f"
  shows "vouched E dec sl request now decision response \<and> ins_evidence f = None"
  using assms(1)
proof (cases rule: sl_inspect_cases)
  case (at_decision x)
  then have "inspect_decision E sl request decision advisory = Inl (Return f)" by (simp add: conclude_Inr)
  then have False using assms(2)
    unfolding inspect_decision_def by (auto simp: rbind_Inl_iff chain_Inr_iff Let_def split: if_splits)
  then show ?thesis ..
next
  case (at_response x)
  then have "inspect_response E sl request decision response now = Inl (Return f)" by (simp add: conclude_Inr)
  then have False using assms(2) unfolding inspect_response_def by (auto simp: rbind_Inl_iff chain_Inr_iff Let_def)
  then show ?thesis ..
next
  case (equivocation earlier)
  with assms(2) show ?thesis by auto
next
  case (forgetful e)
  then show ?thesis by simp
next
  case judged
  have "inspect_output E dec request response \<noteq> Inl (Return f)"
    using assms(2) unfolding inspect_output_def by (auto simp: rbind_Inl_iff chain_Inr_iff Let_def split: if_splits)
  with judged(4) have out: "inspect_output E dec request response = Inr ()" "f = passes" by (auto simp: conclude_Inr)
  from out(1) show ?thesis
    by (rule inspect_output_ok)
      (use inspect_decision_ok [OF judged(1)] inspect_response_ok [OF judged(2)] out(2) in \<open>auto simp: vouched_def\<close>)
qed

text \<open>The invariant of the loop over the items.\<close>

definition tally_ok :: "env \<Rightarrow> decoder \<Rightarrow> safety_layer \<Rightarrow> obj \<Rightarrow> pyfloat \<Rightarrow> (json \<times> json) set \<Rightarrow> tally_state \<Rightarrow> bool" where
  "tally_ok E dec sl request now items ts \<longleftrightarrow> distinct (map fst (ts_valid ts)) \<and>
     (\<forall>(p, r)\<in>set (ts_valid ts). p = provider_of r \<and>
        (\<exists>decision. (decision, JObj r) \<in> items \<and> vouched E dec sl request now decision (JObj r)))"

lemma who_of_answer:
  assumes "check_response E response tr req dec = Inr None"
  shows "strv (who_of response) = field_str response ''provider''"
  using assms by (auto elim!: response.signer simp: who_of_def field_str_def obj_of_def pget_def)

lemma count_inspection_ok:
  assumes "tally_ok E dec sl request now items ts" "(decision, response) \<in> items"
    "ins_ok f \<Longrightarrow> vouched E dec sl request now decision response"
  shows "tally_ok E dec sl request now items (count_inspection response f ts)"
proof (cases "ins_ok f \<and> strv (who_of response) \<notin> set (dkeys (ts_valid ts))")
  case True
  with assms(3) have v: "vouched E dec sl request now decision response" by simp
  then have c: "check_response E response (sl_trust sl) (Some request) (Some (obj_of decision)) = Inr None" by (simp add: vouched_def)
  have o: "JObj (obj_of response) = response" by (rule answer_obj [OF c])
  have "provider_of (obj_of response) = strv (who_of response)" by (simp add: provider_of_def o who_of_answer [OF c])
  with assms(1,2) True v o show ?thesis by (auto simp: tally_ok_def count_inspection_def Let_def dkeys_def)
next
  case False
  with assms(1) show ?thesis by (auto simp: tally_ok_def count_inspection_def Let_def)
qed

lemma inspect_all_ok:
  assumes "inspect_all E dec request now advisory items ts sl = (sl', Inr ts')" "set items \<subseteq> I"
    "tally_ok E dec sl request now I ts"
  shows "(\<exists>seen. sl' = sl\<lparr>sl_seen := seen\<rparr>) \<and> tally_ok E dec sl request now I ts'"
  using assms
proof (induction items arbitrary: ts sl)
  case Nil
  then show ?case by (auto intro: exI [of _ "sl_seen sl"])
next
  case (Cons it items)
  obtain decision response where it: "it = (decision, response)" by (cases it)
  obtain sl1 f where i: "sl_inspect E dec request decision response now advisory sl = (sl1, Inr f)"
    and rest: "inspect_all E dec request now advisory items (count_inspection response f ts) sl1 = (sl', Inr ts')"
    using Cons.prems(1) by (auto simp: it split: prod.splits sum.splits)
  obtain seen where s: "sl1 = sl\<lparr>sl_seen := seen\<rparr>" using sl_inspect_frame(1) [OF i] by blast
  have "tally_ok E dec sl request now I (count_inspection response f ts)"
    using Cons.prems(2,3) inspect_ok_vouched [OF i] by (intro count_inspection_ok) (auto simp: it)
  then have "tally_ok E dec sl1 request now I (count_inspection response f ts)" by (simp add: tally_ok_def s)
  from Cons.IH [OF rest _ this] Cons.prems(2) show ?case by (auto simp: s tally_ok_def)
qed


section \<open>Groups of agreeing answers\<close>

definition agree_group :: "(string \<Rightarrow> string \<Rightarrow> bool) \<Rightarrow> obj list \<Rightarrow> bool" where
  "agree_group agree g \<longleftrightarrow> g \<noteq> [] \<and> (\<forall>r\<in>set g. r = hd g \<or> agree (output_of (hd g)) (output_of r))"

lemma add_to_group:
  "list_all (agree_group agree) gs \<Longrightarrow> list_all (agree_group agree) (add_to_group agree r gs)"
  "mset (concat (add_to_group agree r gs)) = add_mset r (mset (concat gs))"
  by (induction gs) (auto simp: agree_group_def)

lemma agreement_groups:
  "list_all (agree_group agree) (agreement_groups agree rs)"
  "mset (concat (agreement_groups agree rs)) = mset rs"
proof -
  have "list_all (agree_group agree) (fold (add_to_group agree) rs gs) \<and> mset (concat (fold (add_to_group agree) rs gs)) = mset rs + mset (concat gs)"
    if "list_all (agree_group agree) gs" for gs
    using that by (induction rs arbitrary: gs) (auto simp: add_to_group)
  from this [of "[]"] show "list_all (agree_group agree) (agreement_groups agree rs)"
    "mset (concat (agreement_groups agree rs)) = mset rs"
    by (simp_all add: agreement_groups_def)
qed

lemma first_longest_Inr:
  assumes "first_longest gs = Inr best"
  shows "best \<in> set gs" "g \<in> set gs \<Longrightarrow> length g \<le> length best"
proof -
  have fold: "fold (\<lambda>h best. if length best < length h then h else best) gs g \<in> insert g (set gs) \<and>
      (\<forall>h\<in>insert g (set gs). length h \<le> length (fold (\<lambda>h best. if length best < length h then h else best) gs g))" for g :: "'a list" and gs
    by (induction gs arbitrary: g) (auto, (force dest: meta_spec)+)
  from assms show "best \<in> set gs" "g \<in> set gs \<Longrightarrow> length g \<le> length best"
    using fold [of "tl gs" "hd gs"] by (auto simp: first_longest_def split: list.splits)
qed

lemma distinct_map_concat: "distinct (map f (concat gs)) \<Longrightarrow> g \<in> set gs \<Longrightarrow> distinct (map f g)"
  by (induction gs) auto

lemma settle_accepted:
  assumes "settle agree needed ts = Inr v" "adj_status v = ACCEPTED" "distinct (map provider_of (map snd (ts_valid ts)))"
  obtains best where "agree_group agree best" "set best \<subseteq> set (map snd (ts_valid ts))" "distinct (map provider_of best)"
    "needed \<le> int (length best)" "adj_providers v = map provider_of best" "adj_output v = Some (output_of (hd best))"
    "ts_evidence ts = []" "adj_evidence v = []"
proof -
  let ?gs = "agreement_groups agree (map snd (ts_valid ts))"
  from assms(1,2) obtain best where b: "first_longest ?gs = Inr best" "needed \<le> int (length best)" "ts_evidence ts = []"
    "adj_providers v = map provider_of best" "adj_output v = Some (output_of (hd best))" "adj_evidence v = []"
    unfolding settle_def Let_def by (auto simp: rbind_Inr_iff split: if_splits)
  have mem: "best \<in> set ?gs" using b(1) by (rule first_longest_Inr)
  have m: "mset (concat ?gs) = mset (map snd (ts_valid ts))" by (rule agreement_groups)
  then have "set (concat ?gs) = set (map snd (ts_valid ts))" by (rule mset_eq_setD)
  with mem have sub: "set best \<subseteq> set (map snd (ts_valid ts))" by auto
  have "mset (map provider_of (concat ?gs)) = mset (map provider_of (map snd (ts_valid ts)))" using m by (simp only: mset_map)
  with assms(3) have "distinct (map provider_of (concat ?gs))" by (metis mset_eq_imp_distinct_iff)
  then have "distinct (map provider_of best)" using mem by (rule distinct_map_concat)
  moreover have "agree_group agree best" using agreement_groups(1) mem by (auto simp: list_all_iff)
  ultimately show thesis using that sub b by blast
qed


section \<open>Properties\<close>

text \<open>Only accepted content reaches the user: every other verdict carries no output.\<close>

lemma withheld:
  assumes "adjudicate E dec request items now quorum advisory sl = (sl', Inr v)" "adj_status v \<noteq> ACCEPTED"
  shows "adj_output v = None"
proof -
  have "adj_output v = None" if "settle agree needed ts = Inr v" for agree needed ts
    using that assms(2) unfolding settle_def Let_def by (auto simp: rbind_Inr_iff split: if_splits)
  with assms(1) show ?thesis by (auto simp: adjudicate_def split: sum.splits prod.splits)
qed

lemma adjudicate_accepted:
  assumes "adjudicate E dec request items now quorum advisory sl = (sl', Inr v)" "adj_status v = ACCEPTED"
  shows "\<exists>needed out. needed_answers request quorum = Inr needed \<and> needed \<le> int (length (adj_providers v)) \<and>
    distinct (adj_providers v) \<and> adj_evidence v = [] \<and> adj_output v = Some out \<and>
    (\<forall>p\<in>set (adj_providers v). \<exists>decision response. (decision, response) \<in> set items \<and>
       vouched E dec sl request now decision response \<and>
       verify_payload E response (Some (tr_mesh (sl_trust sl))) = (True, Some p) \<and>
       (field_str response ''output'' = out \<or> sl_agree sl out (field_str response ''output'')))"
proof -
  let ?ts0 = "\<lparr>ts_valid = [], ts_reasons = [], ts_evidence = [], ts_rejected = []\<rparr>"
  obtain needed ts where n: "needed_answers request quorum = Inr needed"
    and all: "inspect_all E dec request now advisory items ?ts0 sl = (sl', Inr ts)"
    and s: "settle (sl_agree sl') needed ts = Inr v"
    using assms(1) by (auto simp: adjudicate_def split: sum.splits prod.splits)
  have "tally_ok E dec sl request now (set items) ?ts0" by (simp add: tally_ok_def)
  from inspect_all_ok [OF all subset_refl this] obtain seen
    where sl': "sl' = sl\<lparr>sl_seen := seen\<rparr>" and ok: "tally_ok E dec sl request now (set items) ts" by blast
  have "map fst (ts_valid ts) = map provider_of (map snd (ts_valid ts))" using ok by (auto simp: tally_ok_def)
  with ok have "distinct (map provider_of (map snd (ts_valid ts)))" by (simp only: tally_ok_def)
  from settle_accepted [OF s assms(2) this] obtain best where b: "agree_group (sl_agree sl') best"
    "set best \<subseteq> set (map snd (ts_valid ts))" "distinct (map provider_of best)" "needed \<le> int (length best)"
    "adj_providers v = map provider_of best" "adj_output v = Some (output_of (hd best))" "adj_evidence v = []" by blast
  have "\<exists>decision response. (decision, response) \<in> set items \<and> vouched E dec sl request now decision response \<and>
      verify_payload E response (Some (tr_mesh (sl_trust sl))) = (True, Some p) \<and>
      (field_str response ''output'' = output_of (hd best) \<or> sl_agree sl (output_of (hd best)) (field_str response ''output''))"
    if p: "p \<in> set (adj_providers v)" for p
  proof -
    from p b(5) obtain r where r: "r \<in> set best" "p = provider_of r" by auto
    have "r \<in> snd ` set (ts_valid ts)" using r(1) b(2) by auto
    with ok obtain decision where d: "(decision, JObj r) \<in> set items" "vouched E dec sl request now decision (JObj r)"
      unfolding tally_ok_def by auto
    then have "verify_payload E (JObj r) (Some (tr_mesh (sl_trust sl))) = (True, Some p)"
      using r(2) by (auto simp: vouched_def provider_of_def dest: response_provider)
    moreover have "r = hd best \<or> sl_agree sl (output_of (hd best)) (output_of r)"
      using b(1) r(1) by (auto simp: agree_group_def sl')
    ultimately show ?thesis using d by (auto simp: output_of_def)
  qed
  with n b show ?thesis by simp
qed


text \<open>The layer's life: requests are judged, and the shared book and ledger change in between.\<close>

datatype safety_op =
  Judge obj "(json \<times> json) list" pyfloat "int option" "obj option"
| Share lease_book mutiny_ledger

fun safety_step :: "env \<Rightarrow> decoder \<Rightarrow> safety_op \<Rightarrow> safety_layer \<Rightarrow> safety_layer" where
  "safety_step E dec (Judge request items now quorum advisory) sl = fst (adjudicate E dec request items now quorum advisory sl)"
| "safety_step E dec (Share leases ledger) sl = sl\<lparr>sl_leases := leases, sl_ledger := ledger\<rparr>"

lemma inspect_all_inv:
  "seen_inv E sl \<Longrightarrow> seen_inv E (fst (inspect_all E dec request now advisory items ts sl)) \<and>
     sl_trust (fst (inspect_all E dec request now advisory items ts sl)) = sl_trust sl"
proof (induction items arbitrary: ts sl)
  case (Cons it items)
  obtain decision response where it: "it = (decision, response)" by (cases it)
  obtain sl1 r where i: "sl_inspect E dec request decision response now advisory sl = (sl1, r)" by fastforce
  have "seen_inv E sl1" "sl_trust sl1 = sl_trust sl" using sl_inspect_frame [OF i] Cons.prems by auto
  with Cons.IH [of sl1] i show ?case by (cases r) (simp_all add: it)
qed simp

lemma safety_run_inv:
  "seen_inv E (fold (safety_step E dec) ops (safety_init tr leases ledger agree skew memory)) \<and>
   sl_trust (fold (safety_step E dec) ops (safety_init tr leases ledger agree skew memory)) = tr"
proof (induction ops rule: rev_induct)
  case Nil
  then show ?case by (simp add: safety_init_def seen_inv_def)
next
  case (snoc op ops)
  have "seen_inv E (safety_step E dec op sl) \<and> sl_trust (safety_step E dec op sl) = tr" if "seen_inv E sl" "sl_trust sl = tr" for sl
  proof (cases op)
    case (Judge request items now quorum advisory)
    then have "safety_step E dec op sl = sl \<or> safety_step E dec op sl = fst (inspect_all E dec request now advisory items
        \<lparr>ts_valid = [], ts_reasons = [], ts_evidence = [], ts_rejected = []\<rparr> sl)"
      by (simp add: adjudicate_def split: sum.split prod.split)
    with inspect_all_inv [OF that(1)] that show ?thesis by metis
  next
    case (Share leases ledger)
    with that show ?thesis by (simp add: seen_inv_def)
  qed
  with snoc show ?case by simp
qed

text \<open>C29 What the safety layer calls evidence convicts: whenever an inspection of a properly signed request
  returns evidence, in whatever state earlier verdicts and changes of the book and ledger have left the
  layer, the verifier of that kind of incident accepts the evidence and names a target, whoever reports it.
  So an incident made from it latches, on every ledger with the same trust roots.\<close>

theorem evidence_convicts:
  assumes "sl = fold (safety_step E dec) ops (safety_init tr leases ledger agree skew memory)"
    "request_evidence_ok E (JObj request) tr = Inr True"
    "sl_inspect E dec request decision response now advisory sl = (sl', Inr f)" "ins_evidence f = Some (kind, evidence)"
  shows "\<exists>targets. targets \<noteq> [] \<and> verifier E dec kind evidence tr reporter = Inr (Some targets)"
proof -
  have "seen_inv E sl" "sl_trust sl = tr" using safety_run_inv assms(1) by auto
  with inspect_evidence [OF _ _ assms(3,4)] assms(2) show ?thesis by auto
qed


section \<open>A concrete exchange\<close>

definition ref_request :: "int \<Rightarrow> obj res" where
  "ref_request q = make_request ref_env32 (ref_seed (CHR ''u'')) (replicate 32 (CHR ''0'')) [''gpt''] ''hi'' [] q [] (Fin 60) (Fin 120)"

definition ref_leg :: leg where
  "ref_leg = \<lparr>l_provider = ref_did (CHR ''n''), l_model = ''gpt'', l_path = [ref_did (CHR ''d''), ref_did (CHR ''n'')], l_via = VIA_MESH\<rparr>"

definition ref_decision :: "obj \<Rightarrow> obj res" where
  "ref_decision request = make_decision ref_env32 (ref_seed (CHR ''d'')) request [ref_leg] ''normal'' 0 0 (Fin 121)"

definition ref_response :: "obj \<Rightarrow> obj \<Rightarrow> obj \<Rightarrow> obj res" where
  "ref_response request decision lease =
     make_response ref_env32 (ref_seed (CHR ''n'')) request decision ''gpt'' lease ''hello'' STATUS_OK [] (Fin 122)"

lemma ref_request_shape:
  assumes "pget d ''req_id'' = JStr (replicate 32 (CHR ''0''))" "pget d ''models'' = JList [JStr ''gpt'']"
    "pget d ''input'' = JStr ''hi''" "pget d ''scopes'' = JList []" "pget d ''quorum'' = JInt q" "pget d ''pins'' = JList []"
    "pget d ''issued_at'' = JFloat (Fin 120)" "pget d ''expires_at'' = JFloat (Fin 180)" "1 \<le> q" "q \<le> 3"
  shows "request_shape d = Inr None"
proof -
  have g: "is_model (JStr ''gpt'')" "is_hex32 (JStr (replicate 32 (CHR ''0'')))" "str_len ''hi'' \<le> MAX_INPUT" "sorted_strings [JStr ''gpt'']"
    "sorted_strings []"
    by code_simp+
  show ?thesis
    using g assms(9,10)
    by (auto simp: request_shape_def reasons_None chain_iffs assms(1-8) need_num_def numv_def MAX_MODELS_def MAX_QUORUM_def
        MAX_TTL_def Let_def)
qed

lemma ref_request_made:
  assumes "1 \<le> q" "q \<le> 3"
  obtains request where "ref_request q = Inr request" "request_evidence_ok ref_env32 (JObj request) ref_roots = Inr True"
    "request_fields request = Some (q, [''gpt''], [])" "pget request ''quorum'' = JInt q"
    "request_scopes request = Inr []" "request_issued request = Inr (Fin 120)"
    "pget request ''issued_at'' = JFloat (Fin 120)" "pget request ''expires_at'' = JFloat (Fin 180)"
proof -
  let ?body = "[(''type'', JStr REQUEST), (''req_id'', JStr (replicate 32 (CHR ''0''))), (''user'', JStr (ref_did (CHR ''u''))),
     (''models'', JList [JStr ''gpt'']), (''input'', JStr ''hi''), (''scopes'', JList []), (''quorum'', JInt q), (''pins'', JList []),
     (''issued_at'', JFloat (Fin 120)), (''expires_at'', JFloat (Fin 180))]"
  have shape: "request_shape ?body = Inr None" by (rule ref_request_shape [OF _ _ _ _ _ _ _ _ assms]) (simp_all add: pget_def)
  have "\<not> has_envelope ?body" by (simp add: has_envelope_def dkeys_def)
  then obtain r where r: "sign_payload ref_env32 (ref_seed (CHR ''u'')) ?body = Inr r"
    using sign_payload_total [OF ref_env32_facts(1) length_ref_seed] by blast
  with shape have made: "ref_request q = Inr r" by (simp add: ref_request_def make_request_def sorted_set_def Let_def)
  have fields: "pget r ''type'' = JStr REQUEST" "pget r ''user'' = JStr (ref_did (CHR ''u''))"
    "pget r ''req_id'' = JStr (replicate 32 (CHR ''0''))" "pget r ''models'' = JList [JStr ''gpt'']"
    "pget r ''input'' = JStr ''hi''" "pget r ''scopes'' = JList []" "pget r ''quorum'' = JInt q" "pget r ''pins'' = JList []"
    "pget r ''issued_at'' = JFloat (Fin 120)" "pget r ''expires_at'' = JFloat (Fin 180)"
    by (simp_all add: sign_payload_fields [OF r] pget_def)
  have "request_shape r = Inr None" by (rule ref_request_shape [OF fields(3-10) assms])
  moreover have "signed_by ref_env32 (JObj r) REQUEST ''user'' (tr_users ref_roots) = None"
    using r fields(1,2) by (rule ref_signed) (simp add: ref_roots_def)
  ultimately have ok: "request_evidence_ok ref_env32 (JObj r) ref_roots = Inr True"
    by (simp add: request_evidence_ok_def or_reason_def obj_of_def)
  show thesis
    by (rule that [OF made ok])
      (simp_all add: request_fields_def request_scopes_def request_issued_def fields)
qed

lemma ref_decision_for:
  assumes "leg_shape tr (JStr (ref_did (CHR ''d''))) (to_wire leg) [] = Inr p" "tr_deciders tr (ref_did (CHR ''d''))"
  obtains decision where "make_decision ref_env32 (ref_seed (CHR ''d'')) request [leg] ''normal'' 0 0 (Fin 121) = Inr decision"
    "check_decision ref_env32 (JObj decision) tr (Some request) = Inr None"
    "decision_fields decision = Some (''normal'', [leg])" "field_str (JObj decision) ''decider'' = ref_did (CHR ''d'')"
    "pget decision ''request_hash'' = JStr (digest ref_env32 (JObj request))" "pget decision ''mode'' = JStr ''normal''"
proof -
  let ?body = "[(''type'', JStr DECISION), (''request_hash'', JStr (digest ref_env32 (JObj request))),
     (''decider'', JStr (ref_did (CHR ''d''))), (''mode'', JStr ''normal''), (''epoch'', JInt 0), (''attempt'', JInt 0),
     (''legs'', JList [to_wire leg]), (''issued_at'', JFloat (Fin 121))]"
  have "\<not> has_envelope ?body" by (simp add: has_envelope_def dkeys_def)
  then obtain r where r: "sign_payload ref_env32 (ref_seed (CHR ''d'')) ?body = Inr r"
    using sign_payload_total [OF ref_env32_facts(1) length_ref_seed] by blast
  then have made: "make_decision ref_env32 (ref_seed (CHR ''d'')) request [leg] ''normal'' 0 0 (Fin 121) = Inr r"
    by (simp add: make_decision_def)
  have fields: "pget r ''type'' = JStr DECISION" "pget r ''decider'' = JStr (ref_did (CHR ''d''))"
    "pget r ''request_hash'' = JStr (digest ref_env32 (JObj request))" "pget r ''mode'' = JStr ''normal''" "pget r ''epoch'' = JInt 0"
    "pget r ''attempt'' = JInt 0" "pget r ''legs'' = JList [to_wire leg]" "pget r ''issued_at'' = JFloat (Fin 121)"
    by (simp_all add: sign_payload_fields [OF r] pget_def)
  have g: "''normal'' \<in> set MODES" by code_simp
  have hash: "is_hex64 (JStr (digest ref_env32 (JObj request)))" by (simp add: digest_def is_hex64_def re_class_hex)
  have "decision_shape r tr = Inr None"
    using g hash assms(1)
    by (auto simp: decision_shape_def reasons_None chain_iffs fields need_num_def MAX_ATTEMPTS_def MAX_QUORUM_def)
  moreover have "signed_by ref_env32 (JObj r) DECISION ''decider'' (tr_deciders tr) = None"
    using r fields(1,2) by (rule ref_signed) (rule assms(2))
  ultimately have c: "check_decision ref_env32 (JObj r) tr (Some request) = Inr None"
    by (simp add: check_decision_def Let_def fields obj_of_def)
  show thesis
    by (rule that [OF made c])
      (simp_all add: decision_fields_def fields field_str_def obj_of_def strv_def from_to_wire)
qed

lemma ref_decision_made:
  obtains decision where "ref_decision request = Inr decision"
    "check_decision ref_env32 (JObj decision) ref_roots (Some request) = Inr None"
    "decision_fields decision = Some (''normal'', [ref_leg])" "field_str (JObj decision) ''decider'' = ref_did (CHR ''d'')"
    "pget decision ''request_hash'' = JStr (digest ref_env32 (JObj request))" "pget decision ''mode'' = JStr ''normal''"
proof -
  have "is_model (JStr ''gpt'')" by code_simp
  then have "leg_shape ref_roots (JStr (ref_did (CHR ''d''))) (to_wire ref_leg) [] = Inr (ref_did (CHR ''n''))"
    by (simp add: leg_shape_def to_wire_def ref_leg_def pget_def is_did_def MAX_HOPS_def)
  from ref_decision_for [OF this, of request] that show thesis
    by (auto simp: ref_decision_def ref_roots_def)
qed

lemma ref_decision_violations:
  assumes "decision_fields decision = Some (''normal'', [ref_leg])" "request_fields request = Some (q, [''gpt''], [])"
  shows "decision_violations decision request = Inr (if 1 < q then [''quorum-downgrade''] else [])"
  using assms by (simp add: decision_violations_def violations_def ref_leg_def)

lemma ref_response_made:
  assumes "ref_lease = Inr lease" "decision_fields decision = Some (mode, [l])" "l_provider l = ref_did (CHR ''n'')" "l_model l = ''gpt''"
    "pget decision ''request_hash'' = JStr (digest ref_env32 (JObj request))"
  obtains response where "ref_response request decision lease = Inr response"
    "check_response ref_env32 (JObj response) ref_roots (Some request) (Some decision) = Inr None"
    "provider_of response = ref_did (CHR ''n'')" "pget response ''lease'' = JObj lease" "output_of response = ''hello''"
    "pget response ''model'' = JStr ''gpt''" "pget response ''status'' = JStr STATUS_OK" "pget response ''issued_at'' = JFloat (Fin 122)"
    "pget response ''provider'' = JStr (ref_did (CHR ''n''))"
proof -
  let ?body = "[(''type'', JStr RESPONSE), (''request_hash'', JStr (digest ref_env32 (JObj request))),
     (''decision_hash'', JStr (digest ref_env32 (JObj decision))), (''provider'', JStr (ref_did (CHR ''n''))), (''model'', JStr ''gpt''),
     (''lease'', JObj lease), (''status'', JStr STATUS_OK), (''output'', JStr ''hello''), (''reason'', JStr []),
     (''issued_at'', JFloat (Fin 122))]"
  have hash: "is_hex64 (JStr (digest ref_env32 v))" for v by (simp add: digest_def is_hex64_def re_class_hex)
  have g: "is_model (JStr ''gpt'')" "str_len ''hello'' \<le> MAX_OUTPUT" "str_len [] \<le> MAX_REASON" by code_simp+
  have shape: "response_shape d = Inr None" if "pget d ''request_hash'' = JStr (digest ref_env32 (JObj request))"
    "pget d ''decision_hash'' = JStr (digest ref_env32 (JObj decision))" "pget d ''model'' = JStr ''gpt''" "pget d ''lease'' = JObj lease"
    "pget d ''status'' = JStr STATUS_OK" "pget d ''output'' = JStr ''hello''" "pget d ''reason'' = JStr []"
    "pget d ''issued_at'' = JFloat (Fin 122)" for d
    using hash g by (auto simp: response_shape_def reasons_None chain_iffs that need_num_def)
  have made_shape: "response_shape ?body = Inr None" by (rule shape) (simp_all add: pget_def)
  have "\<not> has_envelope ?body" by (simp add: has_envelope_def dkeys_def)
  then obtain r where r: "sign_payload ref_env32 (ref_seed (CHR ''n'')) ?body = Inr r"
    using sign_payload_total [OF ref_env32_facts(1) length_ref_seed] by blast
  with made_shape have made: "ref_response request decision lease = Inr r"
    by (simp add: ref_response_def make_response_def str_take_def)
  have fields: "pget r ''type'' = JStr RESPONSE" "pget r ''provider'' = JStr (ref_did (CHR ''n''))"
    "pget r ''request_hash'' = JStr (digest ref_env32 (JObj request))" "pget r ''decision_hash'' = JStr (digest ref_env32 (JObj decision))"
    "pget r ''model'' = JStr ''gpt''" "pget r ''lease'' = JObj lease" "pget r ''status'' = JStr STATUS_OK" "pget r ''output'' = JStr ''hello''"
    "pget r ''reason'' = JStr []" "pget r ''issued_at'' = JFloat (Fin 122)"
    by (simp_all add: sign_payload_fields [OF r] pget_def)
  have "response_shape r = Inr None" by (rule shape [OF fields(3-10)])
  moreover have "signed_by ref_env32 (JObj r) RESPONSE ''provider'' (tr_mesh ref_roots) = None"
    using r fields(1,2) by (rule ref_signed) (simp add: ref_roots_def)
  ultimately have c: "check_response ref_env32 (JObj r) ref_roots (Some request) (Some decision) = Inr None"
    using assms(2-5) by (simp add: check_response_def Let_def fields obj_of_def)
  show thesis
    by (rule that [OF made c]) (simp_all add: provider_of_def output_of_def field_str_def obj_of_def strv_def fields)
qed

definition ref_layer :: safety_layer where
  "ref_layer = safety_init ref_roots (lease_book_init ref_roots) (ledger_init ref_roots) (=) (Fin 120) 16"

lemma ref_latches [simp]: "\<not> is_latched (ledger_init tr) t" "\<not> excludes_node (ledger_init tr) d"
  by (simp_all add: is_latched_def excludes_node_def ledger_init_def dkeys_def)

text \<open>One honest answer to the reference request: it is accepted by any layer of the reference roots that has no reports.\<close>

lemma ref_adjudication:
  assumes "sl_trust sl = ref_roots" "sl_ledger sl = ledger_init ref_roots" "sl_agree sl = (=)" "sl_skew sl = Fin 120" "1 \<le> sl_memory sl"
    "sl_seen sl = []" "lb_trust (sl_leases sl) = ref_roots" "lb_revoked (sl_leases sl) = {}"
  obtains request decision response lease v where "ref_request 1 = Inr request" "ref_lease = Inr lease" "pget response ''lease'' = JObj lease"
    "adjudicate ref_env32 (\<lambda>_. None) request [(JObj decision, JObj response)] (Fin 130) (Some 1) None sl =
       (sl\<lparr>sl_seen := [(answer_key (JObj response), response)]\<rparr>, Inr v)"
    "adjudicate ref_env32 (\<lambda>_. None) request [(JObj decision, JObj response)] (Fin 130) None None sl =
       (sl\<lparr>sl_seen := [(answer_key (JObj response), response)]\<rparr>, Inr v)"
    "adj_status v = ACCEPTED" "adj_evidence v = []" "adj_output v = Some ''hello''" "adj_providers v = [ref_did (CHR ''n'')]"
    "field_str (JObj response) ''provider'' = ref_did (CHR ''n'')"
proof -
  obtain lease where l: "ref_lease = Inr lease" by (rule ref_lease_made)
  obtain request where q: "ref_request 1 = Inr request" "request_fields request = Some (1, [''gpt''], [])" "pget request ''quorum'' = JInt 1"
    "request_scopes request = Inr []" "request_issued request = Inr (Fin 120)"
    by (rule ref_request_made [of 1]) auto
  obtain decision where d: "check_decision ref_env32 (JObj decision) ref_roots (Some request) = Inr None"
    "decision_fields decision = Some (''normal'', [ref_leg])" "field_str (JObj decision) ''decider'' = ref_did (CHR ''d'')"
    "pget decision ''request_hash'' = JStr (digest ref_env32 (JObj request))" by (rule ref_decision_made)
  obtain response where r: "check_response ref_env32 (JObj response) ref_roots (Some request) (Some decision) = Inr None"
    "provider_of response = ref_did (CHR ''n'')" "pget response ''lease'' = JObj lease" "output_of response = ''hello''"
    "pget response ''model'' = JStr ''gpt''" "pget response ''status'' = JStr STATUS_OK" "pget response ''issued_at'' = JFloat (Fin 122)"
    by (rule ref_response_made [OF l d(2) _ _ d(4)]) (simp_all add: ref_leg_def)
  have f: "field_str (JObj response) ''provider'' = ref_did (CHR ''n'')" "field_str (JObj response) ''output'' = ''hello''"
    "field_str (JObj response) ''model'' = ''gpt''" "field_str (JObj response) ''status'' = STATUS_OK" "obj_of (JObj x) = x" for x
    using r by (simp_all add: provider_of_def output_of_def field_str_def obj_of_def strv_def)
  note lc = ref_lease_checks [OF l]
  have lf: "field_str (JObj lease) ''subject'' = ref_did (CHR ''n'')" "field_str (JObj lease) ''model'' = ''gpt''"
    using lc by (simp_all add: field_str_def obj_of_def strv_def)
  have book: "lb_check ref_env32 (sl_leases sl) (JObj lease) (ref_did (CHR ''n'')) ''gpt'' (Fin 130) (Fin 120) = Inr None"
    using lc by (simp add: lb_check_def assms f or_reason_def Let_def numv_def)
  have dec: "inspect_decision ref_env32 sl request (JObj decision) None = Inr ()"
    by (simp add: inspect_decision_def assms d ref_decision_violations [OF d(2) q(2)] f hop_quarantined_def)
  have resp: "inspect_response ref_env32 sl request (JObj decision) (JObj response) (Fin 130) = Inr ()"
    using book by (simp add: inspect_response_def assms f r lf lc(1) q(5) numv_def)
  have out: "inspect_output ref_env32 (\<lambda>_. None) request (JObj response) = Inr ()"
    by (simp add: inspect_output_def f q(4) canary_leaked_def canary_at_def CANARY_PREFIX_def)
  have i: "sl_inspect ref_env32 (\<lambda>_. None) request (JObj decision) (JObj response) (Fin 130) None sl =
      (sl\<lparr>sl_seen := [(answer_key (JObj response), response)]\<rparr>, Inr passes)"
  proof -
    have "equivocates sl (JObj response) = None" by (simp add: equivocates_def assms)
    moreover have "remember (answer_key (JObj response)) (obj_of (JObj response)) sl =
        (sl\<lparr>sl_seen := [(answer_key (JObj response), response)]\<rparr>, Inr ())"
      by (simp add: remember_def assms(1-4,6-8) f) (use assms(5) in simp)
    ultimately show ?thesis by (simp add: sl_inspect_def dec resp out conclude_def)
  qed
  let ?ts = "\<lparr>ts_valid = [(ref_did (CHR ''n''), response)], ts_reasons = [], ts_evidence = [], ts_rejected = []\<rparr>"
  let ?sl = "sl\<lparr>sl_seen := [(answer_key (JObj response), response)]\<rparr>"
  have who: "strv (who_of (JObj response)) = ref_did (CHR ''n'')" using who_of_answer [OF r(1)] f(1) by simp
  have all: "inspect_all ref_env32 (\<lambda>_. None) request (Fin 130) None [(JObj decision, JObj response)]
      \<lparr>ts_valid = [], ts_reasons = [], ts_evidence = [], ts_rejected = []\<rparr> sl = (?sl, Inr ?ts)"
    by (simp add: i count_inspection_def who dkeys_def f)
  have agree: "sl_agree ?sl = (=)" by (simp add: assms)
  obtain v where v: "settle (=) 1 ?ts = Inr v" "adj_evidence v = []" "adj_status v = ACCEPTED" "adj_output v = Some ''hello''"
    "adj_providers v = [ref_did (CHR ''n'')]"
    by (simp add: settle_def agreement_groups_def first_longest_def r(2,4))
  have a: "adjudicate ref_env32 (\<lambda>_. None) request [(JObj decision, JObj response)] (Fin 130) (Some 1) None sl = (?sl, Inr v)"
    by (simp only: adjudicate_def needed_answers_def option.case sum.case all prod.case agree v(1))
  have b: "adjudicate ref_env32 (\<lambda>_. None) request [(JObj decision, JObj response)] (Fin 130) None None sl = (?sl, Inr v)"
    by (simp only: adjudicate_def needed_answers_def q(3) option.case json.case sum.case all prod.case agree v(1))
  show ?thesis by (rule that [OF q(1) l r(3) a b v(3,2,4,5) f(1)])
qed


theorem evidence_convicts_witness:
  "\<exists>request decision sl' f evidence targets. ref_request 2 = Inr request \<and> ref_decision request = Inr decision \<and>
     sl_inspect ref_env32 (\<lambda>_. None) request (JObj decision) JNull (Fin 130) None ref_layer = (sl', Inr f) \<and>
     ins_evidence f = Some (DECIDER_TAMPERING, evidence) \<and>
     verifier ref_env32 (\<lambda>_. None) DECIDER_TAMPERING evidence ref_roots (ref_did (CHR ''u'')) = Inr (Some targets) \<and> targets \<noteq> []"
proof -
  obtain request where q: "ref_request 2 = Inr request" "request_evidence_ok ref_env32 (JObj request) ref_roots = Inr True"
    "request_fields request = Some (2, [''gpt''], [])"
    by (rule ref_request_made [of 2]) auto
  obtain decision where d: "ref_decision request = Inr decision"
    "check_decision ref_env32 (JObj decision) ref_roots (Some request) = Inr None"
    "decision_fields decision = Some (''normal'', [ref_leg])" by (rule ref_decision_made)
  let ?ev = "[(''request'', JObj request), (''decision'', JObj decision)]"
  let ?f = "accuses ''decision tampering: quorum-downgrade'' DECIDER_TAMPERING ?ev"
  have i: "sl_inspect ref_env32 (\<lambda>_. None) request (JObj decision) JNull (Fin 130) None ref_layer = (ref_layer, Inr ?f)"
    using d(2) by (simp add: sl_inspect_def inspect_decision_def conclude_def ref_layer_def safety_init_def obj_of_def
        ref_decision_violations [OF d(3) q(3)] hop_quarantined_def)
  have "ref_layer = fold (safety_step ref_env32 (\<lambda>_. None)) []
      (safety_init ref_roots (lease_book_init ref_roots) (ledger_init ref_roots) (=) (Fin 120) 16)"
    by (simp add: ref_layer_def)
  from evidence_convicts [OF this q(2) i verdict_simps(6)] q(1) d(1) i show ?thesis
    by (metis verdict_simps(6))
qed


text \<open>The default comparator is not transitive: equal JSON values written with other blanks agree, and so does a
  text that differs in case only, but the two ends do not. Which answers form a group, and so whether a
  quorum is reached, then depends on the order in which the answers arrive.\<close>

lemma default_agree_not_transitive:
  fixes E :: env
  defines "agree \<equiv> default_agree E (\<lambda>s. if s = ''[true,1]'' \<or> s = ''[true, 1]'' then Some (JList [JBool True, JInt 1]) else None) lower_ascii"
  shows "agree ''[true,1]'' ''[true, 1]'' \<and> agree ''[true, 1]'' ''[TRUE, 1]'' \<and> \<not> agree ''[true,1]'' ''[TRUE, 1]''"
proof -
  have c: "char_of (116 :: nat) = CHR ''t''" "char_of (114 :: nat) = CHR ''r''" "char_of (117 :: nat) = CHR ''u''" "char_of (101 :: nat) = CHR ''e''"
    by code_simp+
  have "lower_ascii (join '' '' (split_words (utf8_chars ''[true, 1]'') [])) = ''[true, 1]''"
    "lower_ascii (join '' '' (split_words (utf8_chars ''[TRUE, 1]'') [])) = ''[true, 1]''"
    "lower_ascii (join '' '' (split_words (utf8_chars ''[true,1]'') [])) = ''[true,1]''"
    by (simp_all add: lower_ascii_def py_space_def is_space_def lower_char_def is_cont_def c)
  then show ?thesis by (simp add: agree_def default_agree_def sole_json_def)
qed

end
