(* ===== verification/Participant.thy ===== *)
theory Participant
  imports Router Safety
begin

text \<open>
  \<^verbatim>\<open>inference/participant.py\<close>: the state every member of the mesh keeps (link state, leases, mutiny ledger,
  advisories), the flooding of signed objects, and the carrying of legs. A method is a function on the
  participant's record that returns the new state and what it returned or raised; a subclass is a record
  extension, and the methods it overrides are the fields of \<open>hooks\<close>. The wire is a list of the frames handed to it, with a
  parameter that says which of them it takes; the clock is read once per call. The log of events keeps the
  names of the events.
\<close>

section \<open>Methods\<close>

type_synonym ('s, 'a) act = "'s \<Rightarrow> 's \<times> 'a res"

definition aret :: "'a \<Rightarrow> ('s, 'a) act" where
  "aret x s = (s, Inr x)"

definition alift :: "'a res \<Rightarrow> ('s, 'a) act" where
  "alift r s = (s, r)"

definition amod :: "('s \<Rightarrow> 's) \<Rightarrow> ('s, unit) act" where
  "amod f s = (f s, Inr ())"

definition abind :: "('s, 'a) act \<Rightarrow> ('a \<Rightarrow> ('s, 'b) act) \<Rightarrow> ('s, 'b) act" where
  "abind m f s = (case m s of (s', Inl e) \<Rightarrow> (s', Inl e) | (s', Inr x) \<Rightarrow> f x s')"

definition aget :: "('s \<Rightarrow> ('s, 'a) act) \<Rightarrow> ('s, 'a) act" where
  "aget f s = f s s"

definition aseq :: "('s, 'a) act \<Rightarrow> ('s, 'b) act \<Rightarrow> ('s, 'b) act" where
  "aseq m n = abind m (\<lambda>_. n)"

definition awhen :: "bool \<Rightarrow> ('s, unit) act \<Rightarrow> ('s, unit) act" where
  "awhen b m = (if b then m else aret ())"

fun afor :: "('x \<Rightarrow> ('s, unit) act) \<Rightarrow> 'x list \<Rightarrow> ('s, unit) act" where
  "afor f [] = aret ()"
| "afor f (x # xs) = aseq (f x) (afor f xs)"

text \<open>\<^verbatim>\<open>try: m except Exception: log\<close>\<close>

definition aguard :: "('s, unit) act \<Rightarrow> ('s, unit) act" where
  "aguard m s = (fst (m s), Inr ())"

section \<open>Frames and the world\<close>

definition FRAME_KINDS :: "string list" where
  "FRAME_KINDS = [''submit'', ''req'', ''resp'', ''nack'', ''result'', ''refused'', ''flood'', ''fault'', ''grant'', ''dir?'', ''dir'']"

definition frame :: "string \<Rightarrow> obj \<Rightarrow> obj res" where
  "frame kind fs =
     (if kind \<in> set FRAME_KINDS then Inr ((''k'', JStr kind) # fs) else Inl (ValueError ''unknown frame kind''))"

text \<open>Of a payload the argument is what \<^verbatim>\<open>json.loads\<close> makes of it, \<open>None\<close> when it is not JSON.\<close>

definition parse_frame :: "json option \<Rightarrow> obj option res" where
  "parse_frame payload =
     (case payload of
        Some (JObj d) \<Rightarrow> rbind (in_frozenset (pget d ''k'') FRAME_KINDS) (\<lambda>known. Inr (if known then Some d else None))
      | _ \<Rightarrow> Inr None)"

type_synonym outbox = "(did \<times> obj) list"

record runtime =
  rt_env :: env
  rt_dec :: decoder
  rt_wire :: "outbox \<Rightarrow> did \<Rightarrow> bool"
  rt_now :: pyfloat

record config =
  cf_heartbeat_every :: pyfloat
  cf_fail_after :: pyfloat
  cf_leg_timeout :: pyfloat
  cf_advise_every :: pyfloat
  cf_suspect_threshold :: int
  cf_suspect_cooldown :: pyfloat
  cf_breaker_threshold :: int
  cf_breaker_cooldown :: pyfloat
  cf_quarantine_threshold :: int
  cf_quarantine_window :: pyfloat
  cf_quarantine_cooldown :: pyfloat
  cf_probation :: pyfloat
  cf_lease_ttl :: pyfloat
  cf_lease_renew_at :: pyfloat

definition default_config :: config where
  "default_config =
     \<lparr>cf_heartbeat_every = Fin 2, cf_fail_after = Fin 7, cf_leg_timeout = Fin 5, cf_advise_every = Fin 5,
      cf_suspect_threshold = 2, cf_suspect_cooldown = Fin 60, cf_breaker_threshold = 3, cf_breaker_cooldown = Fin 30,
      cf_quarantine_threshold = 2, cf_quarantine_window = Fin 60, cf_quarantine_cooldown = Fin 60, cf_probation = Fin 30,
      cf_lease_ttl = Fin 600, cf_lease_renew_at = Fin (1/2)\<rparr>"

text \<open>\<^verbatim>\<open>_Recent.add\<close>: the keys, oldest first.\<close>

definition recent_add :: "nat \<Rightarrow> string \<Rightarrow> string list \<Rightarrow> string list \<times> bool" where
  "recent_add limit key keys =
     (if key \<in> set keys then (keys, False)
      else let keys' = keys @ [key] in (drop (length keys' - limit) keys', True))"

section \<open>The participant\<close>

definition FLOODED :: "string list" where
  "FLOODED = [HEARTBEAT, ADVISORY, INCIDENT, RESET, LEASE_REVOCATION]"

definition TO_USERS :: "string list" where
  "TO_USERS = [INCIDENT, RESET, LEASE_REVOCATION]"

definition DIR_INCIDENTS :: nat where "DIR_INCIDENTS = 2"
definition DIR_RESETS :: nat where "DIR_RESETS = 8"
definition MODE_NORMAL :: string where "MODE_NORMAL = ''normal''"
definition MODE_DEGRADED :: string where "MODE_DEGRADED = ''degraded''"

record participant =
  pa_did :: did
  pa_identity :: identity
  pa_trust :: trust_roots
  pa_roles :: "string list"
  pa_config :: config
  pa_ledger :: mutiny_ledger
  pa_leases :: lease_book
  pa_lsdb :: lsdb
  pa_advisories :: "(did, obj) dict"
  pa_neighbors :: "did list"
  pa_users :: "did list"
  pa_seen :: "string list"
  pa_seq :: int
  pa_next_beat :: pyfloat
  pa_last_mode :: "string option"
  pa_events :: "string list"
  pa_outbox :: outbox
  pa_links :: "did list"

definition participant_init :: "env \<Rightarrow> identity \<Rightarrow> trust_roots \<Rightarrow> string list \<Rightarrow> config \<Rightarrow> int \<Rightarrow> participant res" where
  "participant_init E seed tr roles cfg time_ns =
     rbind (identity_did E seed) (\<lambda>did.
       if \<not> set roles \<subseteq> set MESH_ROLES then Inl (ValueError ''unknown role(s)'')
       else Inr \<lparr>pa_did = did, pa_identity = seed, pa_trust = tr, pa_roles = roles, pa_config = cfg, pa_ledger = ledger_init tr,
              pa_leases = lease_book_init tr, pa_lsdb = lsdb_init tr (cf_fail_after cfg), pa_advisories = [],
              pa_neighbors = [], pa_users = [], pa_seen = [], pa_seq = time_ns, pa_next_beat = Fin 0, pa_last_mode = None,
              pa_events = [], pa_outbox = [], pa_links = []\<rparr>)"

text \<open>The methods a subclass overrides.\<close>

record 'p hooks =
  hk_advisory :: "obj \<Rightarrow> ('p, unit) act"
  hk_incident :: "incident \<Rightarrow> ('p, unit) act"
  hk_reset :: "string set \<Rightarrow> ('p, unit) act"
  hk_lease_revoked :: "string set \<Rightarrow> ('p, unit) act"
  hk_directory :: "did \<Rightarrow> ('p, unit) act"
  hk_mode :: "string option \<Rightarrow> string \<Rightarrow> ('p, unit) act"
  hk_tick :: "pyfloat \<Rightarrow> ('p, unit) act"
  hk_exclusions :: "pyfloat \<Rightarrow> 'p \<Rightarrow> did list"
  hk_load :: "'p \<Rightarrow> pyfloat"
  hk_leases :: "pyfloat \<Rightarrow> 'p \<Rightarrow> obj list"
  hk_beats :: bool
  hk_may_carry :: "obj \<Rightarrow> pyfloat \<Rightarrow> 'p \<Rightarrow> string option"
  hk_serve :: "obj \<Rightarrow> obj \<Rightarrow> nat \<Rightarrow> pyfloat \<Rightarrow> ('p, unit) act"
  hk_leg_failed :: "obj \<Rightarrow> nat \<Rightarrow> did \<Rightarrow> string \<Rightarrow> ('p, unit) act"
  hk_collect :: "obj \<Rightarrow> nat \<Rightarrow> obj \<Rightarrow> ('p, unit) act"

definition pa_note :: "string \<Rightarrow> ('x participant_scheme, unit) act" where
  "pa_note event = amod (\<lambda>p. let es = pa_events p @ [event] in p\<lparr>pa_events := drop (length es - 1024) es\<rparr>)"

definition connect :: "did \<Rightarrow> ('x participant_scheme, bool) act" where
  "connect d p =
     (if d = pa_did p then (p, Inr False)
      else if tr_mesh (pa_trust p) d then (p\<lparr>pa_neighbors := List.insert d (pa_neighbors p), pa_links := pa_links p @ [d]\<rparr>, Inr True)
      else if tr_users (pa_trust p) d then (p\<lparr>pa_users := List.insert d (pa_users p), pa_links := pa_links p @ [d]\<rparr>, Inr True)
      else (p, Inr False))"

definition send :: "runtime \<Rightarrow> did \<Rightarrow> string \<Rightarrow> obj \<Rightarrow> ('x participant_scheme, bool) act" where
  "send R dest kind fs p =
     (case frame kind fs of
        Inl e \<Rightarrow> (p, Inl e)
      | Inr f \<Rightarrow> (p\<lparr>pa_outbox := pa_outbox p @ [(dest, f)]\<rparr>, Inr (rt_wire R (pa_outbox p) dest)))"

definition seen_add :: "string \<Rightarrow> ('x participant_scheme, bool) act" where
  "seen_add key p = (case recent_add 8192 key (pa_seen p) of (keys, new) \<Rightarrow> (p\<lparr>pa_seen := keys\<rparr>, Inr new))"

definition on_lsdb :: "(lsdb \<Rightarrow> lsdb \<times> 'a res) \<Rightarrow> ('x participant_scheme, 'a) act" where
  "on_lsdb f p = (case f (pa_lsdb p) of (db, r) \<Rightarrow> (p\<lparr>pa_lsdb := db\<rparr>, r))"

definition on_leases :: "(lease_book \<Rightarrow> lease_book \<times> 'a res) \<Rightarrow> ('x participant_scheme, 'a) act" where
  "on_leases f p = (case f (pa_leases p) of (lb, r) \<Rightarrow> (p\<lparr>pa_leases := lb\<rparr>, r))"

definition on_ledger :: "(mutiny_ledger \<Rightarrow> mutiny_ledger \<times> 'a res) \<Rightarrow> ('x participant_scheme, 'a) act" where
  "on_ledger f p = (case f (pa_ledger p) of (ml, r) \<Rightarrow> (p\<lparr>pa_ledger := ml\<rparr>, r))"

section \<open>Flooding\<close>

definition flood :: "runtime \<Rightarrow> obj \<Rightarrow> did option \<Rightarrow> ('x participant_scheme, unit) act" where
  "flood R obj exclude = aget (\<lambda>p.
     aseq (alift (rbind (in_frozenset (pget obj ''type'') TO_USERS) (\<lambda>_. Inr ())))
       (let targets = pa_neighbors p @ (if in_frozenset (pget obj ''type'') TO_USERS = Inr True then pa_users p else [])
        in afor (\<lambda>d. awhen (Some d \<noteq> exclude) (aseq (send R d ''flood'' [(''obj'', JObj obj)]) (aret ()))) (sorted_set targets)))"

text \<open>What a participant does with a heartbeat it has stored.\<close>

definition heartbeat_rest :: "runtime \<Rightarrow> obj \<Rightarrow> did option \<Rightarrow> ('x participant_scheme, bool) act" where
  "heartbeat_rest R obj src =
     (let node = strv (pget obj ''node'')
      in aseq (afor (\<lambda>lease. awhen (as_obj lease \<noteq> None \<and> pget (obj_of lease) ''subject'' = JStr node)
                       (aseq (on_leases (lb_add (rt_env R) lease)) (aret ()))) (list_of (pget obj ''leases'')))
           (aseq (amod (\<lambda>p. if src = Some node \<and> node \<notin> set (pa_neighbors p) \<and> \<not> excludes_node (pa_ledger p) node
                           then p\<lparr>pa_neighbors := List.insert node (pa_neighbors p)\<rparr> else p))
             (aret True)))"

definition absorb_heartbeat :: "runtime \<Rightarrow> obj \<Rightarrow> did option \<Rightarrow> ('x participant_scheme, bool) act" where
  "absorb_heartbeat R obj src =
     abind (on_lsdb (ls_merge (rt_env R) (JObj obj) (rt_now R))) (\<lambda>new. if \<not> new then aret False else heartbeat_rest R obj src)"

definition absorb_advisory :: "runtime \<Rightarrow> 'x participant_scheme hooks \<Rightarrow> obj \<Rightarrow> ('x participant_scheme, bool) act" where
  "absorb_advisory R H obj = aget (\<lambda>p.
     abind (alift (check_advisory (rt_env R) (JObj obj) (pa_trust p) (Some (rt_now R)))) (\<lambda>reason.
     if reason \<noteq> None then aret False
     else let c = strv (pget obj ''coordinator'')
          in if (case map_of (pa_advisories p) c of Some cur \<Rightarrow> intv (pget obj ''epoch'') \<le> intv (pget cur ''epoch'') | None \<Rightarrow> False)
             then aret False
             else aseq (amod (\<lambda>p. p\<lparr>pa_advisories := dset c obj (pa_advisories p)\<rparr>)) (aseq (hk_advisory H obj) (aret True))))"

definition absorb_incident :: "runtime \<Rightarrow> 'x participant_scheme hooks \<Rightarrow> obj \<Rightarrow> ('x participant_scheme, bool) act" where
  "absorb_incident R H obj =
     abind (on_ledger (ml_add (rt_env R) (rt_dec R) (JObj obj))) (\<lambda>added.
       case added of
         None \<Rightarrow> aret False
       | Some inc \<Rightarrow> aseq (pa_note ''incident'') (aseq (hk_incident H inc) (aret True)))"

definition absorb_reset :: "runtime \<Rightarrow> 'x participant_scheme hooks \<Rightarrow> obj \<Rightarrow> ('x participant_scheme, bool) act" where
  "absorb_reset R H obj =
     abind (on_ledger (ml_reset (rt_env R) (JObj obj))) (\<lambda>(new, unlatched).
       aseq (awhen (unlatched \<noteq> {}) (aseq (pa_note ''reset'') (hk_reset H unlatched))) (aret new))"

definition absorb_lease_revocation :: "runtime \<Rightarrow> 'x participant_scheme hooks \<Rightarrow> obj \<Rightarrow> ('x participant_scheme, bool) act" where
  "absorb_lease_revocation R H obj =
     abind (on_leases (lb_revoke (rt_env R) (JObj obj))) (\<lambda>newly.
       aseq (awhen (newly \<noteq> {}) (hk_lease_revoked H newly)) (aret (newly \<noteq> {})))"

definition absorb :: "runtime \<Rightarrow> 'x participant_scheme hooks \<Rightarrow> obj \<Rightarrow> did option \<Rightarrow> ('x participant_scheme, bool) act" where
  "absorb R H obj src =
     (let kind = pget obj ''type'' in
      if kind = JStr HEARTBEAT then absorb_heartbeat R obj src
      else if kind = JStr ADVISORY then absorb_advisory R H obj
      else if kind = JStr INCIDENT then absorb_incident R H obj
      else if kind = JStr RESET then absorb_reset R H obj
      else if kind = JStr LEASE_REVOCATION then absorb_lease_revocation R H obj
      else aret False)"

definition on_flood :: "runtime \<Rightarrow> 'x participant_scheme hooks \<Rightarrow> did \<Rightarrow> obj \<Rightarrow> ('x participant_scheme, unit) act" where
  "on_flood R H src f =
     (case pget f ''obj'' of
        JObj obj \<Rightarrow>
          abind (alift (in_frozenset (pget obj ''type'') FLOODED)) (\<lambda>floods.
          if \<not> floods then aret ()
          else abind (seen_add (digest (rt_env R) (JObj obj))) (\<lambda>new.
            if \<not> new then aret ()
            else abind (absorb R H obj (Some src)) (\<lambda>changed. awhen changed (flood R obj (Some src)))))
      | _ \<Rightarrow> aret ())"

section \<open>The directory\<close>

definition last_n :: "nat \<Rightarrow> 'a list \<Rightarrow> 'a list" where
  "last_n n xs = drop (length xs - n) xs"

definition on_dir_query :: "runtime \<Rightarrow> did \<Rightarrow> obj \<Rightarrow> ('x participant_scheme, unit) act" where
  "on_dir_query R src f =
     aseq (amod (\<lambda>p. if tr_users (pa_trust p) src then p\<lparr>pa_users := List.insert src (pa_users p)\<rparr> else p))
       (aget (\<lambda>p. aseq (send R src ''dir''
          [(''leases'', JList (map JObj (take 32 (lb_live (pa_leases p) (rt_now R))))),
           (''incidents'', JList (map JObj (last_n DIR_INCIDENTS (signed_incidents (pa_ledger p))))),
           (''resets'', JList (map JObj (last_n DIR_RESETS (signed_resets (pa_ledger p)))))]) (aret ())))"

text \<open>\<^verbatim>\<open>f.get(k) or []\<close>: a falsy value counts as the empty list.\<close>

definition or_empty :: "json \<Rightarrow> json" where
  "or_empty v = (if v \<in> {JNull, JBool False, JInt 0, JFloat (Fin 0), JStr [], JObj []} then JList [] else v)"

text \<open>Iterating over a value: the characters of a string and the keys of an object are strings.\<close>

definition iterate :: "json \<Rightarrow> json list res" where
  "iterate v =
     (case v of
        JList vs \<Rightarrow> Inr vs
      | JStr s \<Rightarrow> Inr (map JStr (utf8_chars s))
      | JObj d \<Rightarrow> Inr (map JStr (dkeys d))
      | _ \<Rightarrow> Inl (TypeError ''object is not iterable''))"

definition add_values :: "json \<Rightarrow> json \<Rightarrow> json list res" where
  "add_values a b =
     (case (a, b) of
        (JList xs, JList ys) \<Rightarrow> Inr (xs @ ys)
      | (JStr s, JStr t) \<Rightarrow> Inr (map JStr (utf8_chars (s @ t)))
      | _ \<Rightarrow> Inl (TypeError ''unsupported operand type(s) for +''))"

definition on_dir :: "runtime \<Rightarrow> 'x participant_scheme hooks \<Rightarrow> did \<Rightarrow> obj \<Rightarrow> ('x participant_scheme, unit) act" where
  "on_dir R H src f = aget (\<lambda>p.
     if \<not> tr_mesh (pa_trust p) src then aret ()
     else abind (alift (iterate (or_empty (pget f ''leases'')))) (\<lambda>leases.
       aseq (afor (\<lambda>lease. aseq (on_leases (lb_add (rt_env R) lease)) (aret ())) leases)
         (abind (alift (add_values (or_empty (pget f ''incidents'')) (or_empty (pget f ''resets'')))) (\<lambda>objs.
           aseq (afor (\<lambda>v. case v of
                     JObj obj \<Rightarrow> abind (seen_add (digest (rt_env R) v)) (\<lambda>new. awhen new (aseq (absorb R H obj None) (aret ())))
                   | _ \<Rightarrow> aret ()) objs)
             (hk_directory H src)))))"

section \<open>The view\<close>

definition nonempty_list :: "json \<Rightarrow> bool" where
  "nonempty_list v = (list_of v \<noteq> [])"

definition pa_mode :: "pyfloat \<Rightarrow> 'x participant_scheme \<Rightarrow> string" where
  "pa_mode now p =
     (if lockdown (pa_ledger p) then MODE_LOCKDOWN
      else if list_ex (\<lambda>(c, adv). nonempty_list (pget adv ''failed'') \<or> nonempty_list (pget adv ''quarantined'')) (pa_advisories p)
      then MODE_DEGRADED
      else if list_ex (\<lambda>d. \<not> ls_alive (pa_lsdb p) d now) (filter (\<lambda>d. d \<noteq> pa_did p) (ls_known (pa_lsdb p))) then MODE_DEGRADED
      else MODE_NORMAL)"

definition pa_epoch :: "'x participant_scheme \<Rightarrow> int" where
  "pa_epoch p =
     (case map (\<lambda>(c, adv). intv (pget adv ''epoch'')) (pa_advisories p) of [] \<Rightarrow> 0 | e # es \<Rightarrow> fold max es e)"

definition advisory_at :: "int \<Rightarrow> 'x participant_scheme \<Rightarrow> obj option" where
  "advisory_at epoch p = find (\<lambda>adv. intv (pget adv ''epoch'') = epoch) (map snd (pa_advisories p))"

definition pa_quarantined :: "'x participant_scheme \<Rightarrow> did list" where
  "pa_quarantined p = concat (map (\<lambda>(c, adv). map strv (list_of (pget adv ''quarantined''))) (pa_advisories p))"

definition pa_excluded :: "'x participant_scheme hooks \<Rightarrow> pyfloat \<Rightarrow> 'x participant_scheme \<Rightarrow> did list" where
  "pa_excluded H now p =
     filter (excludes_node (pa_ledger p)) (ls_known (pa_lsdb p)) @ pa_quarantined p @ hk_exclusions H now p"

definition check_mode :: "runtime \<Rightarrow> 'x participant_scheme hooks \<Rightarrow> ('x participant_scheme, unit) act" where
  "check_mode R H = aget (\<lambda>p.
     let mode = pa_mode (rt_now R) p; old = pa_last_mode p
     in awhen (Some mode \<noteq> old)
          (aseq (amod (\<lambda>p. p\<lparr>pa_last_mode := Some mode\<rparr>)) (aseq (pa_note ''mode'') (hk_mode H old mode))))"

section \<open>Driving a participant\<close>

definition beat :: "runtime \<Rightarrow> 'x participant_scheme hooks \<Rightarrow> ('x participant_scheme, unit) act" where
  "beat R H =
     aseq (amod (\<lambda>p. p\<lparr>pa_seq := pa_seq p + 1\<rparr>)) (aget (\<lambda>p.
     abind (alift (make_heartbeat (rt_env R) (pa_identity p) (sorted_set (pa_roles p)) (pa_seq p) (sorted_set (pa_neighbors p))
                     (hk_load H p) (hk_leases H (rt_now R) p) (rt_now R))) (\<lambda>hb.
     aseq (on_lsdb (ls_merge (rt_env R) (JObj hb) (rt_now R)))
       (aseq (seen_add (digest (rt_env R) (JObj hb))) (flood R hb None)))))"

definition publish :: "runtime \<Rightarrow> 'x participant_scheme hooks \<Rightarrow> obj \<Rightarrow> ('x participant_scheme, bool) act" where
  "publish R H obj =
     aseq (seen_add (digest (rt_env R) (JObj obj)))
       (abind (absorb R H obj None) (\<lambda>ok.
         aseq (awhen ok (flood R obj None)) (aseq (check_mode R H) (aret ok))))"

definition tick :: "runtime \<Rightarrow> 'x participant_scheme hooks \<Rightarrow> ('x participant_scheme, unit) act" where
  "tick R H = aget (\<lambda>p.
     aseq (awhen (hk_beats H \<and> fle (pa_next_beat p) (rt_now R))
             (aseq (beat R H) (amod (\<lambda>p. p\<lparr>pa_next_beat := fadd (rt_now R) (cf_heartbeat_every (pa_config p))\<rparr>))))
       (aseq (hk_tick H (rt_now R)) (check_mode R H)))"

type_synonym 'p dispatch = "string \<Rightarrow> (did \<Rightarrow> obj \<Rightarrow> ('p, unit) act) option"

definition participant_dispatch :: "runtime \<Rightarrow> 'x participant_scheme hooks \<Rightarrow> 'x participant_scheme dispatch" where
  "participant_dispatch R H kind =
     (if kind = ''flood'' then Some (on_flood R H)
      else if kind = ''dir?'' then Some (on_dir_query R)
      else if kind = ''dir'' then Some (on_dir R H)
      else None)"

definition handle ::
  "runtime \<Rightarrow> 'x participant_scheme hooks \<Rightarrow> 'x participant_scheme dispatch \<Rightarrow> did \<Rightarrow> json option \<Rightarrow> ('x participant_scheme, unit) act" where
  "handle R H D src payload = aget (\<lambda>p.
     abind (alift (parse_frame payload)) (\<lambda>parsed.
       case parsed of
         None \<Rightarrow> aret ()
       | Some f \<Rightarrow>
           if \<not> tr_peers (pa_trust p) src then aret ()
           else (case D (strv (pget f ''k'')) of
                   None \<Rightarrow> aret ()
                 | Some fn \<Rightarrow> aseq (aguard (fn src f)) (check_mode R H))))"

section \<open>Carrying legs\<close>

definition may_carry :: "obj \<Rightarrow> pyfloat \<Rightarrow> 'x participant_scheme \<Rightarrow> string option" where
  "may_carry decision now p =
     (if excludes_node (pa_ledger p) (strv (pget decision ''decider'')) then Some ''the decider is latched''
      else if lockdown (pa_ledger p) \<and> pget decision ''mode'' \<noteq> JStr MODE_LOCKDOWN
      then Some ''lockdown: the decision layer is suspended''
      else None)"

text \<open>The leg a frame is on, with its index and the place of this node on its path. A decision that passed its
  check has well-formed legs.\<close>

definition leg_at :: "'x participant_scheme \<Rightarrow> did \<Rightarrow> leg list \<Rightarrow> json \<Rightarrow> json \<Rightarrow> bool \<Rightarrow> (leg \<times> nat \<times> nat) option" where
  "leg_at p src legs leg_i hop toward_provider =
     (case (leg_i, hop) of
        (JInt i, JInt h) \<Rightarrow>
          if \<not> (0 \<le> i \<and> i < int (length legs)) then None
          else let l = legs ! nat i; path = l_path l
               in if \<not> (0 \<le> h \<and> h < int (length path)) \<or> path ! nat h \<noteq> pa_did p then None
                  else if (if toward_provider then 1 \<le> h \<and> src = path ! (nat h - 1)
                           else h \<le> int (length path) - 2 \<and> src = path ! (nat h + 1))
                  then Some (l, nat i, nat h) else None
      | _ \<Rightarrow> None)"

definition checked_legs :: "obj \<Rightarrow> leg list res" where
  "checked_legs decision =
     (case decision_fields decision of Some (_, legs) \<Rightarrow> Inr legs | None \<Rightarrow> Inl (TypeError ''malformed decision''))"

definition nack :: "runtime \<Rightarrow> 'x participant_scheme hooks \<Rightarrow> obj \<Rightarrow> leg list \<Rightarrow> nat \<Rightarrow> nat \<Rightarrow> did \<Rightarrow> string \<Rightarrow> ('x participant_scheme, unit) act" where
  "nack R H decision legs i hop unreachable reason =
     (if hop = 0 then hk_leg_failed H decision i unreachable reason
      else aget (\<lambda>p. aseq (send R (l_path (legs ! i) ! (hop - 1)) ''nack''
             [(''decision'', JObj decision), (''leg'', JInt (int i)), (''hop'', JInt (int hop - 1)), (''at'', JStr (pa_did p)),
              (''unreachable'', JStr unreachable), (''reason'', JStr (str_take MAX_REASON reason))]) (aret ())))"

definition on_req :: "runtime \<Rightarrow> 'x participant_scheme hooks \<Rightarrow> did \<Rightarrow> obj \<Rightarrow> ('x participant_scheme, unit) act" where
  "on_req R H src f = aget (\<lambda>p.
     let request = pget f ''request''; decision = pget f ''decision''; E = rt_env R; tr = pa_trust p in
     abind (alift (check_request E request tr (rt_now R))) (\<lambda>bad_request.
     if bad_request \<noteq> None then aret ()
     else abind (alift (check_decision E decision tr (Some (obj_of request)))) (\<lambda>bad_decision.
     if bad_decision \<noteq> None then aret ()
     else abind (alift (checked_legs (obj_of decision))) (\<lambda>legs.
     case leg_at p src legs (pget f ''leg'') (pget f ''hop'') True of
       None \<Rightarrow> aret ()
     | Some (leg, i, hop) \<Rightarrow>
         if hop = length (l_path leg) - 1 then hk_serve H (obj_of request) (obj_of decision) i (rt_now R)
         else let nxt = l_path leg ! (hop + 1);
                  why = (case hk_may_carry H (obj_of decision) (rt_now R) p of
                           Some w \<Rightarrow> Some w
                         | None \<Rightarrow> if excludes_node (pa_ledger p) nxt then Some ''the next hop is latched'' else None)
              in (case why of
                    Some w \<Rightarrow> nack R H (obj_of decision) legs i hop nxt w
                  | None \<Rightarrow>
                      abind (send R nxt ''req''
                          [(''request'', request), (''decision'', decision), (''leg'', pget f ''leg''), (''hop'', JInt (int hop + 1))])
                        (\<lambda>sent. awhen (\<not> sent) (nack R H (obj_of decision) legs i hop nxt ''the next hop is unreachable'')))))))"

definition on_nack :: "runtime \<Rightarrow> 'x participant_scheme hooks \<Rightarrow> did \<Rightarrow> obj \<Rightarrow> ('x participant_scheme, unit) act" where
  "on_nack R H src f = aget (\<lambda>p.
     let decision = pget f ''decision'' in
     abind (alift (check_decision (rt_env R) decision (pa_trust p) None)) (\<lambda>bad_decision.
     if bad_decision \<noteq> None then aret ()
     else abind (alift (checked_legs (obj_of decision))) (\<lambda>legs.
     case leg_at p src legs (pget f ''leg'') (pget f ''hop'') False of
       None \<Rightarrow> aret ()
     | Some (leg, i, hop) \<Rightarrow>
         let unreachable = (if is_did (pget f ''unreachable'') then strv (pget f ''unreachable'') else src);
             place = (if is_did (pget f ''at'') then strv (pget f ''at'') else src);
             reason = str_take MAX_REASON (strv (pget f ''reason''))
         in if hop = 0 then hk_leg_failed H (obj_of decision) i unreachable reason
            else aseq (send R (l_path leg ! (hop - 1)) ''nack''
              [(''decision'', decision), (''leg'', pget f ''leg''), (''hop'', JInt (int hop - 1)), (''at'', JStr place),
               (''unreachable'', JStr unreachable), (''reason'', JStr reason)]) (aret ()))))"

definition on_resp :: "runtime \<Rightarrow> 'x participant_scheme hooks \<Rightarrow> did \<Rightarrow> obj \<Rightarrow> ('x participant_scheme, unit) act" where
  "on_resp R H src f = aget (\<lambda>p.
     let decision = pget f ''decision''; response = pget f ''response'' in
     abind (alift (check_decision (rt_env R) decision (pa_trust p) None)) (\<lambda>bad_decision.
     if bad_decision \<noteq> None then aret ()
     else abind (alift (check_response (rt_env R) response (pa_trust p) None (Some (obj_of decision)))) (\<lambda>bad_response.
     if bad_response \<noteq> None then aret ()
     else abind (alift (checked_legs (obj_of decision))) (\<lambda>legs.
     case leg_at p src legs (pget f ''leg'') (pget f ''hop'') False of
       None \<Rightarrow> aret ()
     | Some (leg, i, hop) \<Rightarrow>
         if JStr (l_provider leg) \<noteq> pget (obj_of response) ''provider'' then aret ()
         else if hop = 0 then hk_collect H (obj_of decision) i (obj_of response)
         else aseq (send R (l_path leg ! (hop - 1)) ''resp''
           [(''decision'', decision), (''response'', response), (''leg'', pget f ''leg''), (''hop'', JInt (int hop - 1))]) (aret ())))))"

definition carrier_dispatch :: "runtime \<Rightarrow> 'x participant_scheme hooks \<Rightarrow> 'x participant_scheme dispatch" where
  "carrier_dispatch R H kind =
     (if kind = ''req'' then Some (on_req R H)
      else if kind = ''resp'' then Some (on_resp R H)
      else if kind = ''nack'' then Some (on_nack R H)
      else participant_dispatch R H kind)"

definition base_hooks :: "'x participant_scheme hooks" where
  "base_hooks =
     \<lparr>hk_advisory = (\<lambda>_. aret ()), hk_incident = (\<lambda>_. aret ()), hk_reset = (\<lambda>_. aret ()), hk_lease_revoked = (\<lambda>_. aret ()),
      hk_directory = (\<lambda>_. aret ()), hk_mode = (\<lambda>_ _. aret ()), hk_tick = (\<lambda>_. aret ()), hk_exclusions = (\<lambda>_ _. []),
      hk_load = (\<lambda>_. Fin 0), hk_leases = (\<lambda>_ _. []), hk_beats = True, hk_may_carry = may_carry,
      hk_serve = (\<lambda>_ _ _ _. aret ()), hk_leg_failed = (\<lambda>_ _ _ _. aret ()), hk_collect = (\<lambda>_ _ _. aret ())\<rparr>"

end
