(* ===== verification/Node.thy ===== *)
theory Node
  imports Participant Health
begin

text \<open>
  \<^verbatim>\<open>inference/node.py\<close>: a mesh node, which serves (takes a user's request, decides where it goes, checks and signs its
  own decision, collects the answers and settles them), forwards, and answers with a leased model. The node is the
  participant's record with the fields of \<^verbatim>\<open>MeshNode\<close>; \<open>world\<close> holds what is not in the repository: the model backend, the
  opened sealed box, and the decision policy (\<open>default_policy\<close> is the repository's). A request is followed by the digest it is filed
  under, so a change of the Python object \<^verbatim>\<open>p\<close> is a change of its entry in \<open>mn_pending\<close>.
\<close>

section \<open>The state\<close>

record pending =
  pe_request :: obj
  pe_rhash :: string
  pe_user :: did
  pe_quorum :: int
  pe_lockdown :: bool
  pe_attempt :: int
  pe_decision :: "obj option"
  pe_legs :: "leg list"
  pe_open :: "nat list"
  pe_deadline :: pyfloat
  pe_avoid :: "did list"
  pe_decisions :: "string list"
  pe_items :: "(obj \<times> obj) list"
  pe_charged :: "did list"

record mesh_node = participant +
  mn_safety :: safety_layer
  mn_suspicion :: suspicion
  mn_breaker :: circuit_breaker
  mn_held :: "(string, lease_secret) dict"
  mn_served :: "(string \<times> string, string \<times> string \<times> string) dict"
  mn_pending :: "(string, pending) dict"
  mn_finished :: "(string, string \<times> obj) dict"

text \<open>A backend returns a value or raises an exception, of which the node looks at the class name.\<close>

record world =
  w_backend :: "string \<Rightarrow> string \<Rightarrow> string \<Rightarrow> string + json"
  w_policy :: "view \<Rightarrow> obj \<Rightarrow> int \<Rightarrow> did list \<Rightarrow> leg list res"
  w_unseal :: "string \<Rightarrow> json option"

type_synonym 'a node_act = "(mesh_node, 'a) act"

definition default_policy :: "bool \<Rightarrow> view \<Rightarrow> obj \<Rightarrow> int \<Rightarrow> did list \<Rightarrow> leg list res" where
  "default_policy diverse view request quorum avoid =
     (case request_fields request of
        Some (_, models, pins) \<Rightarrow> plan diverse view models pins quorum avoid
      | None \<Rightarrow> Inl (TypeError ''malformed request''))"

definition mesh_node_init ::
  "env \<Rightarrow> (string \<Rightarrow> json option) \<Rightarrow> (string \<Rightarrow> string) \<Rightarrow> identity \<Rightarrow> trust_roots \<Rightarrow> string list \<Rightarrow> bool \<Rightarrow> config \<Rightarrow> int \<Rightarrow> mesh_node res" where
  "mesh_node_init E loads casefold seed tr roles equipped cfg time_ns =
     rbind (participant_init E seed tr roles cfg time_ns) (\<lambda>p.
       if ROLE_COORDINATOR \<in> set roles \<or> roles = []
       then Inl (ValueError ''a mesh node serves, forwards and/or answers; the coordinator is its own class'')
       else if ROLE_SERVE \<in> set roles \<and> \<not> tr_deciders tr (pa_did p)
       then Inl (ValueError ''a serving node must be on the deciders list'')
       else if ROLE_MODEL \<in> set roles \<and> \<not> equipped
       then Inl (ValueError ''a model node needs a backend and its X25519 transport key'')
       else rbind (circuit_breaker_init (cf_breaker_threshold cfg) (cf_breaker_cooldown cfg) (Fin 600)) (\<lambda>cb.
         Inr (participant.extend p (mesh_node.fields
           (safety_init tr (pa_leases p) (pa_ledger p) (default_agree E loads casefold) MAX_SKEW 4096)
           (suspicion_init (cf_suspect_threshold cfg) (cf_suspect_cooldown cfg)) cb [] [] [] []))))"

definition fresh_pending :: "obj \<Rightarrow> string \<Rightarrow> did \<Rightarrow> int \<Rightarrow> bool \<Rightarrow> pending" where
  "fresh_pending request rhash user quorum in_lockdown =
     \<lparr>pe_request = request, pe_rhash = rhash, pe_user = user, pe_quorum = quorum, pe_lockdown = in_lockdown, pe_attempt = 0,
      pe_decision = None, pe_legs = [], pe_open = [], pe_deadline = Fin 0, pe_avoid = [], pe_decisions = [], pe_items = [],
      pe_charged = []\<rparr>"

definition on_pending :: "string \<Rightarrow> (pending \<Rightarrow> pending) \<Rightarrow> unit node_act" where
  "on_pending rhash f =
     amod (\<lambda>s. case map_of (mn_pending s) rhash of
                 Some p \<Rightarrow> s\<lparr>mn_pending := dset rhash (f p) (mn_pending s)\<rparr>
               | None \<Rightarrow> s)"

definition on_breaker :: "(circuit_breaker \<Rightarrow> circuit_breaker \<times> 'a res) \<Rightarrow> 'a node_act" where
  "on_breaker f s = (case f (mn_breaker s) of (cb, r) \<Rightarrow> (s\<lparr>mn_breaker := cb\<rparr>, r))"

definition breaker_failure :: "runtime \<Rightarrow> did \<Rightarrow> unit node_act" where
  "breaker_failure R d = aseq (on_breaker (cb_failure (rt_env R) (node_target d) (rt_now R))) (aret ())"

definition breaker_success :: "did \<Rightarrow> unit node_act" where
  "breaker_success d = on_breaker (\<lambda>cb. (cb_success (node_target d) cb, Inr ()))"

section \<open>Finishing a request\<close>

definition mesh_finish :: "runtime \<Rightarrow> did \<Rightarrow> string \<Rightarrow> string \<Rightarrow> obj \<Rightarrow> unit node_act" where
  "mesh_finish R user rhash kind fs =
     (let fs' = (if kind = ''refused'' then (''request_hash'', JStr rhash) # fs else fs)
      in aseq (awhen (kind = ''refused'') (pa_note ''refused''))
           (aseq (amod (\<lambda>s. let d = dset rhash (kind, fs') (mn_finished s) in s\<lparr>mn_finished := drop (length d - 256) d\<rparr>))
             (aseq (send R user kind fs') (aret ()))))"

definition pop_pending :: "string \<Rightarrow> unit node_act" where
  "pop_pending rhash = amod (\<lambda>s. s\<lparr>mn_pending := dpop rhash (mn_pending s)\<rparr>)"

definition settle_refused :: "runtime \<Rightarrow> pending \<Rightarrow> string \<Rightarrow> unit node_act" where
  "settle_refused R p reason =
     aseq (pop_pending (pe_rhash p)) (mesh_finish R (pe_user p) (pe_rhash p) ''refused'' [(''reason'', JStr reason)])"

definition result_fields :: "pending \<Rightarrow> obj" where
  "result_fields p =
     [(''request_hash'', JStr (pe_rhash p)), (''items'', JList (map (\<lambda>(d, r). JList [JObj d, JObj r]) (pe_items p)))]"

definition report_fault :: "runtime \<Rightarrow> did \<Rightarrow> string \<Rightarrow> string \<Rightarrow> unit node_act" where
  "report_fault R accused reason rhash = aget (\<lambda>s.
     abind (alift (make_fault (rt_env R) (pa_identity s) accused reason rhash (rt_now R))) (\<lambda>report.
       afor (\<lambda>c. awhen (tr_coordinators (pa_trust s) c) (aseq (send R c ''fault'' [(''report'', JObj report)]) (aret ())))
         (sorted_set (pa_neighbors s))))"

section \<open>The overridden methods of the participant\<close>

definition suspended :: string where
  "suspended = ''lockdown: the decision layer is suspended; use a standby forwarder''"

definition node_incident :: "runtime \<Rightarrow> incident \<Rightarrow> unit node_act" where
  "node_incident R inc = aget (\<lambda>s.
     awhen (lockdown (pa_ledger s))
       (afor (\<lambda>p. awhen (\<not> pe_lockdown p) (settle_refused R p suspended)) (map snd (mn_pending s))))"

definition link_end :: "did \<Rightarrow> did \<times> did \<Rightarrow> did option" where
  "link_end me ab = (case ab of (a, b) \<Rightarrow> if a = me then Some b else if b = me then Some a else None)"

definition node_advisory :: "obj \<Rightarrow> unit node_act" where
  "node_advisory advisory =
     (let down = map strv (list_of (pget advisory ''failed'')) @ map strv (list_of (pget advisory ''quarantined''))
      in case those (map pin_of (list_of (pget advisory ''bypass'') @ list_of (pget advisory ''recruit''))) of
           None \<Rightarrow> alift (Inl (TypeError ''malformed advisory''))
         | Some pairs \<Rightarrow>
             afor (\<lambda>ab. aget (\<lambda>s.
               case link_end (pa_did s) ab of
                 None \<Rightarrow> aret ()
               | Some other \<Rightarrow>
                   awhen (other \<noteq> [] \<and> other \<notin> set (pa_neighbors s) \<and> other \<notin> set down \<and> \<not> excludes_node (pa_ledger s) other)
                     (abind (connect other) (\<lambda>linked. awhen linked (pa_note ''repair-link''))))) pairs)"

definition node_lease_revoked :: "string set \<Rightarrow> unit node_act" where
  "node_lease_revoked ids = aget (\<lambda>s.
     afor (\<lambda>lid. aseq (amod (\<lambda>s. s\<lparr>mn_held := dpop lid (mn_held s)\<rparr>)) (pa_note ''lease-revoked''))
       (filter (\<lambda>lid. lid \<in> ids) (dkeys (mn_held s))))"

definition local_exclusions :: "pyfloat \<Rightarrow> mesh_node \<Rightarrow> did list" where
  "local_exclusions now s = map fst (filter (\<lambda>(d, until). flt now until) (su_until (mn_suspicion s)))"

definition node_load :: "mesh_node \<Rightarrow> pyfloat" where
  "node_load s = Fin (min (of_nat (length (mn_pending s)) / 32) 1)"

definition advertised_leases :: "pyfloat \<Rightarrow> mesh_node \<Rightarrow> obj list" where
  "advertised_leases now s =
     take MAX_LEASES
       (sort_key (\<lambda>x. (- intv (pget x ''key_version''), - ratv (pget x ''expires_at'')))
         (filter (\<lambda>x. in_force now x \<and> \<not> lb_is_revoked (pa_leases s) (lease_id x)) (map (\<lambda>(k, h). ls_lease h) (mn_held s))))"

text \<open>The hooks the publication of an incident may call.\<close>

definition node_core :: "runtime \<Rightarrow> mesh_node hooks" where
  "node_core R = base_hooks
     \<lparr>hk_advisory := node_advisory, hk_incident := node_incident R, hk_lease_revoked := node_lease_revoked,
      hk_exclusions := local_exclusions, hk_load := node_load, hk_leases := advertised_leases\<rparr>"

definition report_incident :: "runtime \<Rightarrow> string \<Rightarrow> obj \<Rightarrow> unit node_act" where
  "report_incident R kind evidence = aget (\<lambda>s.
     abind (alift (make_incident (rt_env R) (pa_identity s) kind evidence (rt_now R))) (\<lambda>inc.
       aseq (publish R (node_core R) inc) (aret ())))"

definition publish_evidence :: "runtime \<Rightarrow> (string \<times> obj) list \<Rightarrow> unit node_act" where
  "publish_evidence R evidence = afor (\<lambda>(kind, ev). report_incident R kind ev) evidence"

section \<open>Deciding\<close>

definition node_excluded :: "runtime \<Rightarrow> mesh_node \<Rightarrow> did list" where
  "node_excluded R s = pa_excluded (node_core R) (rt_now R) s"

definition ineligible :: "pyfloat \<Rightarrow> mesh_node \<Rightarrow> did \<Rightarrow> string \<Rightarrow> string option" where
  "ineligible now s provider model =
     (if excludes_node (pa_ledger s) provider \<or> is_latched (pa_ledger s) (model_target model) then Some ''latched''
      else if \<not> list_ex (\<lambda>(p, m, _). p = provider \<and> m = model) (lb_eligible (pa_leases s) [model] now)
      then Some ''no current lease'' else None)"

definition lockdown_legs :: "runtime \<Rightarrow> obj \<Rightarrow> (string + leg list) node_act" where
  "lockdown_legs R request = aget (\<lambda>s.
     case request_fields request of
       None \<Rightarrow> alift (Inl (TypeError ''malformed request''))
     | Some (_, _, pins) \<Rightarrow>
         if int (length pins) < LOCKDOWN_QUORUM then aret (Inl ''lockdown: pin at least 2 model nodes'')
         else (case find (\<lambda>(provider, model). ineligible (rt_now R) s provider model \<noteq> None) pins of
                 Some (provider, model) \<Rightarrow>
                   aret (Inl (''pinned model node not eligible ('' @ the (ineligible (rt_now R) s provider model) @ ''): '' @ provider))
               | None \<Rightarrow>
                   aseq (afor (\<lambda>(provider, _). aget (\<lambda>s.
                           awhen (provider \<notin> set (pa_neighbors s)) (aseq (connect provider) (aret ())))) pins)
                     (aret (Inr (map (\<lambda>(provider, model).
                        \<lparr>l_provider = provider, l_model = model, l_path = [pa_did s, provider], l_via = VIA_MESH\<rparr>) pins)))))"

definition node_view :: "runtime \<Rightarrow> mesh_node \<Rightarrow> string list \<Rightarrow> view" where
  "node_view R s models =
     (let now = rt_now R; excluded = node_excluded R s; adj = ls_adjacency (pa_lsdb s) now excluded;
          open_for = cb_available (mn_breaker s);
          candidates = map (\<lambda>(p, m, _). (p, m)) (filter (\<lambda>(p, m, _).
             p \<in> set (dkeys adj) \<and> p \<noteq> pa_did s \<and> p \<notin> set excluded \<and> \<not> is_latched (pa_ledger s) (model_target m) \<and>
             open_for (node_target p) now \<and> open_for (model_target m) now) (lb_eligible (pa_leases s) models now));
          providers = map fst candidates
      in \<lparr>v_me = pa_did s, v_mode = pa_mode now s, v_adjacency = adj, v_transit = ls_transit (pa_lsdb s) now excluded,
          v_candidates = candidates,
          v_central = map (\<lambda>c. (c, filter (\<lambda>p. p \<in> set providers) (dget adj c [])))
                        (filter (tr_coordinators (pa_trust s)) (dget adj (pa_did s) [])),
          v_load = map (\<lambda>d. (d, case ls_get (pa_lsdb s) d of
                                    Some st \<Rightarrow> (case ns_load st of Fin q \<Rightarrow> q | _ \<Rightarrow> 0) | None \<Rightarrow> 0)) (dkeys adj)\<rparr>)"

definition choose_legs :: "runtime \<Rightarrow> world \<Rightarrow> pending \<Rightarrow> (string + leg list) node_act" where
  "choose_legs R W p =
     (if pe_lockdown p then lockdown_legs R (pe_request p)
      else aget (\<lambda>s. case request_fields (pe_request p) of
        None \<Rightarrow> alift (Inl (TypeError ''malformed request''))
      | Some (_, models, _) \<Rightarrow>
        (case w_policy W (node_view R s models) (pe_request p) (pe_quorum p) (pe_avoid p) of
           Inr legs \<Rightarrow> aret (Inr legs)
         | Inl (NoRoute why) \<Rightarrow> aret (Inl why)
         | Inl e \<Rightarrow> alift (Inl e))))"

definition decision_mode :: "runtime \<Rightarrow> mesh_node \<Rightarrow> pending \<Rightarrow> string" where
  "decision_mode R s p = (if pe_lockdown p then MODE_LOCKDOWN else pa_mode (rt_now R) s)"

definition proposed_body :: "runtime \<Rightarrow> mesh_node \<Rightarrow> pending \<Rightarrow> leg list \<Rightarrow> obj" where
  "proposed_body R s p legs =
     [(''decider'', JStr (pa_did s)), (''mode'', JStr (decision_mode R s p)), (''request_hash'', JStr (pe_rhash p)),
      (''epoch'', JInt (pa_epoch s)), (''attempt'', JInt (pe_attempt p)), (''issued_at'', JFloat (rt_now R)),
      (''legs'', JList (map to_wire legs))]"

definition self_check :: "runtime \<Rightarrow> mesh_node \<Rightarrow> pending \<Rightarrow> leg list \<Rightarrow> string list res" where
  "self_check R s p legs =
     (let body = proposed_body R s p legs in
      rbind (decision_shape body (pa_trust s)) (\<lambda>shape.
      case shape of
        Some reason \<Rightarrow> Inr [reason]
      | None \<Rightarrow>
          rbind (decision_violations body (pe_request p)) (\<lambda>vs.
          rbind (routed_through body (node_excluded R s @ pe_avoid p)) (\<lambda>hits.
            Inr (vs @ (if hits \<noteq> [] then [''excluded-hop''] else []) @
                 (if list_ex (\<lambda>l. ineligible (rt_now R) s (l_provider l) (l_model l) \<noteq> None) legs
                  then [''ineligible-provider''] else []))))))"

definition decision_mutiny :: "runtime \<Rightarrow> pending \<Rightarrow> leg list \<Rightarrow> string list \<Rightarrow> unit node_act" where
  "decision_mutiny R p legs problems = aget (\<lambda>s.
     let proposal = [(''request_hash'', JStr (pe_rhash p)), (''legs'', JList (map to_wire legs))];
         evidence = [(''reporter'', JStr (pa_did s)), (''proposal'', JObj proposal),
                     (''violation'', JStr (str_take 200 (join '', '' problems)))]
     in aseq (pa_note ''self-report'')
          (aseq (settle_refused R p ''lockdown: this node's decision layer proposed a forbidden route'')
            (report_incident R DECIDER_SELF_REPORTED evidence)))"

text \<open>A leg that cannot be completed; \<open>again\<close> settles the request when no leg is open any more.\<close>

definition leg_failed_with ::
  "runtime \<Rightarrow> (string \<Rightarrow> unit node_act) \<Rightarrow> obj \<Rightarrow> nat \<Rightarrow> did \<Rightarrow> string \<Rightarrow> unit node_act" where
  "leg_failed_with R again decision i unreachable reason = aget (\<lambda>s.
     case map_of (mn_pending s) (strv (pget decision ''request_hash'')) of
       None \<Rightarrow> aret ()
     | Some p \<Rightarrow>
         if pe_decision p = None \<or> digest (rt_env R) (JObj decision) \<noteq> digest (rt_env R) (JObj (the (pe_decision p))) \<or> i \<notin> set (pe_open p)
         then aret ()
         else aseq (pa_note ''leg-failed'')
           (aseq (on_pending (pe_rhash p) (\<lambda>p. p\<lparr>pe_avoid := List.insert unreachable (pe_avoid p), pe_open := filter (\<lambda>j. j \<noteq> i) (pe_open p)\<rparr>))
             (awhen (filter (\<lambda>j. j \<noteq> i) (pe_open p) = []) (again (pe_rhash p)))))"

fun send_legs :: "runtime \<Rightarrow> (string \<Rightarrow> unit node_act) \<Rightarrow> pending \<Rightarrow> obj \<Rightarrow> (nat \<times> leg) list \<Rightarrow> unit node_act" where
  "send_legs R again p decision [] = aret ()"
| "send_legs R again p decision ((i, leg) # rest) = aget (\<lambda>s.
     if (case map_of (mn_pending s) (pe_rhash p) of None \<Rightarrow> True | Some q \<Rightarrow> pe_decision q \<noteq> Some decision) then aret ()
     else abind (send R (l_path leg ! 1) ''req''
            [(''request'', JObj (pe_request p)), (''decision'', JObj decision), (''leg'', JInt (int i)), (''hop'', JInt 1)])
          (\<lambda>sent. aseq (awhen (\<not> sent) (leg_failed_with R again decision i (l_path leg ! 1) ''the first hop is unreachable''))
                    (send_legs R again p decision rest)))"

definition sign_and_send :: "runtime \<Rightarrow> (string \<Rightarrow> unit node_act) \<Rightarrow> pending \<Rightarrow> leg list \<Rightarrow> unit node_act" where
  "sign_and_send R again p legs = aget (\<lambda>s.
     abind (alift (make_decision (rt_env R) (pa_identity s) (pe_request p) legs (decision_mode R s p) (pa_epoch s) (pe_attempt p) (rt_now R)))
       (\<lambda>decision.
          aseq (on_pending (pe_rhash p) (\<lambda>p. p
              \<lparr>pe_decision := Some decision, pe_legs := legs,
               pe_decisions := List.insert (digest (rt_env R) (JObj decision)) (pe_decisions p),
               pe_open := [0..<length legs], pe_deadline := fadd (rt_now R) (cf_leg_timeout (pa_config s))\<rparr>))
            (aseq (pa_note ''decide'') (send_legs R again p decision (List.enumerate 0 legs)))))"

definition decide_step :: "runtime \<Rightarrow> world \<Rightarrow> (string \<Rightarrow> unit node_act) \<Rightarrow> string \<Rightarrow> unit node_act" where
  "decide_step R W again rhash = aget (\<lambda>s.
     case map_of (mn_pending s) rhash of
       None \<Rightarrow> aret ()
     | Some p \<Rightarrow>
         abind (choose_legs R W p) (\<lambda>chosen.
           case chosen of
             Inl why \<Rightarrow> settle_refused R p why
           | Inr legs \<Rightarrow> aget (\<lambda>s. abind (alift (self_check R s p legs)) (\<lambda>problems.
               if problems \<noteq> [] then decision_mutiny R p legs problems else sign_and_send R again p legs))))"

section \<open>Settling\<close>

text \<open>The safety layer shares the lease book and the ledger of its node.\<close>

definition judge :: "runtime \<Rightarrow> pending \<Rightarrow> obj option \<Rightarrow> adjudication node_act" where
  "judge R p advisory s =
     (case adjudicate (rt_env R) (rt_dec R) (pe_request p) (map (\<lambda>(d, r). (JObj d, JObj r)) (pe_items p)) (rt_now R)
             (Some (pe_quorum p)) advisory ((mn_safety s)\<lparr>sl_leases := pa_leases s, sl_ledger := pa_ledger s\<rparr>) of
        (sl, r) \<Rightarrow> (s\<lparr>mn_safety := sl\<rparr>, r))"

definition finish_result :: "runtime \<Rightarrow> pending \<Rightarrow> unit node_act" where
  "finish_result R p =
     aseq (mesh_finish R (pe_user p) (pe_rhash p) ''result'' (result_fields p)) (pop_pending (pe_rhash p))"

definition charge_rejected :: "runtime \<Rightarrow> pending \<Rightarrow> (json \<times> string) list \<Rightarrow> unit node_act" where
  "charge_rejected R p rejected =
     afor (\<lambda>d. aseq (on_pending (pe_rhash p) (\<lambda>p. p\<lparr>pe_charged := List.insert d (pe_charged p)\<rparr>)) (breaker_failure R d))
       (sorted_set (filter (\<lambda>d. d \<notin> set (pe_charged p)) (map (strv \<circ> fst) rejected)))"

definition settle_verdict :: "runtime \<Rightarrow> (string \<Rightarrow> unit node_act) \<Rightarrow> pending \<Rightarrow> adjudication \<Rightarrow> unit node_act" where
  "settle_verdict R decide p v =
     (if adj_status v = ACCEPTED then
        aseq (afor breaker_success (adj_providers v)) (aseq (pa_note ''accepted'') (finish_result R p))
      else if adj_evidence v \<noteq> [] then
        aseq (settle_refused R p (''intercepted: '' @ str_take 180 (join ''; '' (adj_reasons v)))) (publish_evidence R (adj_evidence v))
      else if adj_status v = INTERCEPTED then
        aseq (afor (\<lambda>d. aseq (breaker_failure R d) (report_fault R d ''divergent'' (pe_rhash p))) (adj_dissent v))
          (settle_refused R p ''intercepted: the model nodes disagree'')
      else if pe_attempt p + 1 < MAX_ATTEMPTS then
        aseq (on_pending (pe_rhash p) (\<lambda>p. p\<lparr>pe_attempt := pe_attempt p + 1\<rparr>)) (decide (pe_rhash p))
      else settle_refused R p (''no quorum: '' @ str_take 180 (join ''; '' (adj_reasons v))))"

definition settle_step :: "runtime \<Rightarrow> (string \<Rightarrow> unit node_act) \<Rightarrow> string \<Rightarrow> unit node_act" where
  "settle_step R decide rhash = aget (\<lambda>s.
     case map_of (mn_pending s) rhash of
       None \<Rightarrow> aret ()
     | Some p \<Rightarrow>
         if pe_lockdown p then
           abind (judge R p None) (\<lambda>v. aseq (publish_evidence R (adj_evidence v)) (finish_result R p))
         else if lockdown (pa_ledger s) then settle_refused R p suspended
         else abind (judge R p (case pe_decision p of Some d \<Rightarrow> advisory_at (intv (pget d ''epoch'')) s | None \<Rightarrow> None)) (\<lambda>v.
           aseq (charge_rejected R p (adj_rejected v)) (settle_verdict R decide p v)))"

text \<open>\<^verbatim>\<open>_decide\<close> and \<^verbatim>\<open>_settle\<close> call each other; every new decision is a further attempt, of which there are at most three, so
  three rounds are never exhausted.\<close>

definition settle_rounds :: "runtime \<Rightarrow> world \<Rightarrow> (string \<Rightarrow> unit node_act) \<Rightarrow> nat \<Rightarrow> string \<Rightarrow> unit node_act" where
  "settle_rounds R W base n = ((\<lambda>again. settle_step R (decide_step R W again)) ^^ n) base"

definition mesh_settle :: "runtime \<Rightarrow> world \<Rightarrow> string \<Rightarrow> unit node_act" where
  "mesh_settle R W = settle_rounds R W (\<lambda>_. alift (Inl (RuntimeError ''too many attempts''))) (nat MAX_ATTEMPTS)"

definition mesh_decide :: "runtime \<Rightarrow> world \<Rightarrow> string \<Rightarrow> unit node_act" where
  "mesh_decide R W = decide_step R W (mesh_settle R W)"

definition node_leg_failed :: "runtime \<Rightarrow> world \<Rightarrow> obj \<Rightarrow> nat \<Rightarrow> did \<Rightarrow> string \<Rightarrow> unit node_act" where
  "node_leg_failed R W = leg_failed_with R (mesh_settle R W)"

definition node_collect :: "runtime \<Rightarrow> world \<Rightarrow> obj \<Rightarrow> nat \<Rightarrow> obj \<Rightarrow> unit node_act" where
  "node_collect R W decision i response = aget (\<lambda>s.
     let dh = digest (rt_env R) (JObj decision) in
     case map_of (mn_pending s) (strv (pget decision ''request_hash'')) of
       None \<Rightarrow> aret ()
     | Some p \<Rightarrow>
         if dh \<notin> set (pe_decisions p) then aret ()
         else aseq (on_pending (pe_rhash p) (\<lambda>p. p\<lparr>pe_items := pe_items p @ [(decision, response)]\<rparr>))
           (awhen (case pe_decision p of None \<Rightarrow> False | Some d \<Rightarrow> dh = digest (rt_env R) (JObj d))
             (aseq (amod (\<lambda>s. s\<lparr>mn_suspicion := delivered (interior (pe_legs p ! i)) (mn_suspicion s)\<rparr>))
               (aseq (on_pending (pe_rhash p) (\<lambda>p. p\<lparr>pe_open := filter (\<lambda>j. j \<noteq> i) (pe_open p)\<rparr>))
                 (awhen (filter (\<lambda>j. j \<noteq> i) (pe_open p) = []) (mesh_settle R W (pe_rhash p)))))))"

section \<open>Taking a request\<close>

definition refuse_reason :: "mesh_node \<Rightarrow> string option" where
  "refuse_reason s =
     (let locked = lockdown (pa_ledger s) in
      if locked \<and> (ROLE_FORWARD \<notin> set (pa_roles s) \<or> ROLE_SERVE \<in> set (pa_roles s)) then Some suspended
      else if \<not> locked \<and> ROLE_SERVE \<notin> set (pa_roles s) then Some ''not a serving node''
      else if excludes_node (pa_ledger s) (pa_did s) then Some ''this node is latched''
      else None)"

definition accept_request :: "runtime \<Rightarrow> world \<Rightarrow> did \<Rightarrow> obj \<Rightarrow> unit node_act" where
  "accept_request R W src request = aget (\<lambda>s.
     let rhash = digest (rt_env R) (JObj request); locked = lockdown (pa_ledger s) in
     case refuse_reason s of
       Some why \<Rightarrow> mesh_finish R src rhash ''refused'' [(''reason'', JStr why)]
     | None \<Rightarrow>
         (case request_fields request of
            None \<Rightarrow> alift (Inl (TypeError ''malformed request''))
          | Some (quorum, _, _) \<Rightarrow>
              aseq (amod (\<lambda>s. s\<lparr>mn_pending := dset rhash
                      (fresh_pending request rhash src (if locked then max quorum LOCKDOWN_QUORUM else quorum) locked) (mn_pending s)\<rparr>))
                (mesh_decide R W rhash)))"

definition on_submit :: "runtime \<Rightarrow> world \<Rightarrow> did \<Rightarrow> obj \<Rightarrow> unit node_act" where
  "on_submit R W src f = aget (\<lambda>s.
     let request = pget f ''request'' in
     abind (alift (check_request (rt_env R) request (pa_trust s) (rt_now R))) (\<lambda>reason.
     if reason \<noteq> None \<or> pget (obj_of request) ''user'' \<noteq> JStr src
     then aseq (send R src ''refused'' [(''request_hash'', JStr []),
            (''reason'', JStr (''bad request: '' @ (case reason of Some r \<Rightarrow> r | None \<Rightarrow> ''not submitted by its user'')))]) (aret ())
     else
       (let rhash = digest (rt_env R) request in
        aseq (amod (\<lambda>s. s\<lparr>pa_users := List.insert src (pa_users s)\<rparr>))
          (case map_of (mn_finished s) rhash of
             Some (kind, fs) \<Rightarrow> aseq (send R src kind fs) (aret ())
           | None \<Rightarrow>
               if rhash \<in> set (dkeys (mn_pending s)) then aret ()
               else accept_request R W src (obj_of request)))))"

section \<open>The timer\<close>

definition time_out_leg :: "runtime \<Rightarrow> pending \<Rightarrow> nat \<Rightarrow> unit node_act" where
  "time_out_leg R p i =
     (let leg = pe_legs p ! i; inside = interior leg in
      abind (\<lambda>s. case timed_out inside (rt_now R) (mn_suspicion s) of (su, newly) \<Rightarrow> (s\<lparr>mn_suspicion := su\<rparr>, Inr newly)) (\<lambda>newly.
      aseq (afor (\<lambda>d. aseq (pa_note ''suspect'') (report_fault R d ''timeout'' (pe_rhash p))) newly)
        (aseq (awhen (inside = []) (breaker_failure R (l_provider leg)))
          (on_pending (pe_rhash p) (\<lambda>p. p\<lparr>pe_avoid := fold List.insert (if inside = [] then [l_provider leg] else inside) (pe_avoid p)\<rparr>)))))"

definition time_out_request :: "runtime \<Rightarrow> world \<Rightarrow> string \<Rightarrow> unit node_act" where
  "time_out_request R W rhash = aget (\<lambda>s.
     case map_of (mn_pending s) rhash of
       None \<Rightarrow> aret ()
     | Some p \<Rightarrow>
         if pe_decision p = None \<or> flt (rt_now R) (pe_deadline p) then aret ()
         else aseq (afor (time_out_leg R p) (sort (pe_open p)))
           (aseq (on_pending rhash (\<lambda>p. p\<lparr>pe_open := []\<rparr>)) (mesh_settle R W rhash)))"

definition node_tick :: "runtime \<Rightarrow> world \<Rightarrow> pyfloat \<Rightarrow> unit node_act" where
  "node_tick R W now = aget (\<lambda>s.
     aseq (afor (time_out_request R W) (dkeys (mn_pending s)))
       (aseq (amod (\<lambda>s. s\<lparr>mn_held := filter (\<lambda>(lid, h). \<not> fle (numv (pget (ls_lease h) ''expires_at'')) now) (mn_held s)\<rparr>))
         (amod (\<lambda>s. s\<lparr>pa_leases := lb_prune now (pa_leases s)\<rparr>))))"

section \<open>Answering\<close>

definition hold_grant :: "runtime \<Rightarrow> obj \<Rightarrow> lease_secret \<Rightarrow> unit node_act" where
  "hold_grant R lease opened =
     aseq (amod (\<lambda>s. s\<lparr>mn_held := dset (lease_id lease) opened (mn_held s)\<rparr>))
       (aseq (on_leases (lb_add (rt_env R) (JObj lease))) (pa_note ''grant''))"

definition on_grant :: "runtime \<Rightarrow> world \<Rightarrow> did \<Rightarrow> obj \<Rightarrow> unit node_act" where
  "on_grant R W src f = aget (\<lambda>s.
     if ROLE_MODEL \<notin> set (pa_roles s) \<or> \<not> tr_brokers (pa_trust s) src then aret ()
     else abind (alift (check_lease (rt_env R) (pget f ''lease'') (pa_trust s))) (\<lambda>bad.
       let lease = obj_of (pget f ''lease'') in
       if bad \<noteq> None \<or> pget lease ''subject'' \<noteq> JStr (pa_did s) \<or> pget lease ''broker'' \<noteq> JStr src then aret ()
       else (case pget f ''sealed'' of
               JStr sealed \<Rightarrow>
                 if lb_is_revoked (pa_leases s) (lease_id lease) then aret ()
                 else (case open_inner (rt_env R) lease (w_unseal W sealed) of
                         None \<Rightarrow> pa_note ''grant-rejected''
                       | Some opened \<Rightarrow> hold_grant R lease opened)
             | _ \<Rightarrow> aret ())))"

fun live_secrets :: "env \<Rightarrow> lease_book \<Rightarrow> did \<Rightarrow> string \<Rightarrow> pyfloat \<Rightarrow> lease_secret list \<Rightarrow> lease_secret list res" where
  "live_secrets E lb me model now [] = Inr []"
| "live_secrets E lb me model now (h # hs) =
     rbind (if pget (ls_lease h) ''model'' \<noteq> JStr model then Inr (Some ''the lease is for another model'')
            else lb_check E lb (JObj (ls_lease h)) me model now (Fin 0)) (\<lambda>bad.
     rbind (live_secrets E lb me model now hs) (\<lambda>rest. Inr (if bad = None then h # rest else rest)))"

definition secret_rank :: "lease_secret \<Rightarrow> int \<times> rat" where
  "secret_rank h = (intv (pget (ls_lease h) ''key_version''), ratv (pget (ls_lease h) ''expires_at''))"

definition best_secret :: "lease_secret list \<Rightarrow> lease_secret option" where
  "best_secret hs =
     (case hs of
        [] \<Rightarrow> None
      | h # hs \<Rightarrow> Some (fold (\<lambda>x best. if secret_rank best < secret_rank x then x else best) hs h))"

definition secret_for :: "env \<Rightarrow> string \<Rightarrow> pyfloat \<Rightarrow> mesh_node \<Rightarrow> lease_secret option res" where
  "secret_for E model now s =
     rbind (live_secrets E (pa_leases s) (pa_did s) model now (map snd (mn_held s))) (\<lambda>hs. Inr (best_secret hs))"

definition guard_output :: "decoder \<Rightarrow> string \<Rightarrow> lease_secret \<Rightarrow> obj \<Rightarrow> string option" where
  "guard_output dec out grant request =
     (if contains out (ls_secret grant) then Some ''the upstream answer echoed the leased key''
      else if contains out (ls_canary grant) then Some ''the upstream answer echoed the lease canary''
      else if list_of (pget request ''scopes'') \<noteq> [] \<and> forbidden dec out \<noteq> []
      then Some (str_take 200 (''the upstream answer proposed a forbidden capability: '' @ join '', '' (forbidden dec out)))
      else None)"

definition answer :: "runtime \<Rightarrow> world \<Rightarrow> obj \<Rightarrow> string \<Rightarrow> lease_secret \<Rightarrow> (string \<times> string \<times> string) node_act" where
  "answer R W request model grant =
     (case w_backend W model (strv (pget request ''input'')) (ls_secret grant) of
        Inl cls \<Rightarrow> aret (STATUS_REFUSED, [], ''backend error: '' @ cls)
      | Inr (JStr out) \<Rightarrow>
          if MAX_OUTPUT < str_len out then aret (STATUS_REFUSED, [], ''answer too long for one frame'')
          else (case guard_output (rt_dec R) out grant request of
                  None \<Rightarrow> aret (STATUS_OK, out, [])
                | Some problem \<Rightarrow> aget (\<lambda>s.
                    aseq (pa_note ''self-report'')
                      (aseq (report_incident R MODEL_SELF_REPORTED
                         [(''reporter'', JStr (pa_did s)), (''lease'', JObj (ls_lease grant)), (''violation'', JStr problem)])
                        (aret (STATUS_REFUSED, [], problem)))))
      | Inr _ \<Rightarrow> aret (STATUS_REFUSED, [], ''backend returned no text''))"

definition remember_answer :: "string \<times> string \<Rightarrow> string \<times> string \<times> string \<Rightarrow> unit node_act" where
  "remember_answer key a = amod (\<lambda>s. let d = dset key a (mn_served s) in s\<lparr>mn_served := drop (length d - 4096) d\<rparr>)"

text \<open>The answer to a repeated request is the one given before.\<close>

definition answer_once :: "runtime \<Rightarrow> world \<Rightarrow> obj \<Rightarrow> string \<Rightarrow> lease_secret \<Rightarrow> (string \<times> string \<times> string) node_act" where
  "answer_once R W request model grant = aget (\<lambda>s.
     let key = (digest (rt_env R) (JObj request), model) in
     case map_of (mn_served s) key of
       Some a \<Rightarrow> aret a
     | None \<Rightarrow> abind (answer R W request model grant) (\<lambda>a. aseq (remember_answer key a) (aret a)))"

definition send_response :: "runtime \<Rightarrow> world \<Rightarrow> obj \<Rightarrow> obj \<Rightarrow> nat \<Rightarrow> leg \<Rightarrow> lease_secret \<Rightarrow> unit node_act" where
  "send_response R W request decision i leg grant =
     (let hop = length (l_path leg) - 1 in
      abind (answer_once R W request (l_model leg) grant) (\<lambda>(status, out, reason). aget (\<lambda>s.
      abind (alift (make_response (rt_env R) (pa_identity s) request decision (l_model leg) (ls_lease grant) out status reason (rt_now R))) (\<lambda>response.
        aseq (send R (l_path leg ! (hop - 1)) ''resp''
          [(''decision'', JObj decision), (''response'', JObj response), (''leg'', JInt (int i)), (''hop'', JInt (int hop - 1))]) (aret ())))))"

text \<open>What a model node finds wrong with a decision: the violations, and the advisory that proves a quarantined hop.\<close>

definition decision_problems :: "mesh_node \<Rightarrow> obj \<Rightarrow> obj \<Rightarrow> (string list \<times> obj) res" where
  "decision_problems s request decision =
     rbind (decision_violations decision request) (\<lambda>vs.
     rbind (case advisory_at (intv (pget decision ''epoch'')) s of
              None \<Rightarrow> Inr None
            | Some adv \<Rightarrow> rbind (routed_through decision (quarantined_of (JObj adv))) (\<lambda>hits. Inr (if hits \<noteq> [] then Some adv else None)))
       (\<lambda>hop. Inr (vs @ (if hop \<noteq> None then [''quarantined-hop''] else []),
                   [(''request'', JObj request), (''decision'', JObj decision)] @
                   (case hop of Some adv \<Rightarrow> [(''advisory'', JObj adv)] | None \<Rightarrow> []))))"

definition carry_refusal :: "mesh_node \<Rightarrow> obj \<Rightarrow> string \<Rightarrow> pyfloat \<Rightarrow> string option" where
  "carry_refusal s decision model now =
     (case may_carry decision now s of
        Some why \<Rightarrow> Some why
      | None \<Rightarrow> if excludes_node (pa_ledger s) (pa_did s) \<or> is_latched (pa_ledger s) (model_target model)
                then Some ''the node or model is latched'' else None)"

definition node_serve :: "runtime \<Rightarrow> world \<Rightarrow> obj \<Rightarrow> obj \<Rightarrow> nat \<Rightarrow> pyfloat \<Rightarrow> unit node_act" where
  "node_serve R W request decision i now = aget (\<lambda>s.
     abind (alift (checked_legs decision)) (\<lambda>legs.
     let leg = legs ! i; hop = length (l_path leg) - 1;
         refuse = (\<lambda>why. nack R ((node_core R)\<lparr>hk_leg_failed := node_leg_failed R W\<rparr>) decision legs i hop (pa_did s) why) in
     if ROLE_MODEL \<notin> set (pa_roles s) \<or> l_provider leg \<noteq> pa_did s then aret ()
     else abind (alift (decision_problems s request decision)) (\<lambda>(violations, evidence).
     if violations \<noteq> [] then aseq (report_incident R DECIDER_TAMPERING evidence) (refuse ''decision tampering'')
     else (case carry_refusal s decision (l_model leg) now of
             Some why \<Rightarrow> refuse why
           | None \<Rightarrow>
               abind (alift (secret_for (rt_env R) (l_model leg) now s)) (\<lambda>grant.
                 case grant of
                   None \<Rightarrow> refuse ''no current lease''
                 | Some h \<Rightarrow> send_response R W request decision i leg h)))))"

section \<open>The node\<close>

definition node_hooks :: "runtime \<Rightarrow> world \<Rightarrow> mesh_node hooks" where
  "node_hooks R W = (node_core R)
     \<lparr>hk_tick := node_tick R W, hk_serve := node_serve R W, hk_leg_failed := node_leg_failed R W, hk_collect := node_collect R W\<rparr>"

definition node_dispatch :: "runtime \<Rightarrow> world \<Rightarrow> mesh_node dispatch" where
  "node_dispatch R W kind =
     (if kind = ''submit'' then Some (on_submit R W)
      else if kind = ''grant'' then Some (on_grant R W)
      else carrier_dispatch R (node_hooks R W) kind)"

text \<open>A node is driven by frames and its timer, each at some time and over some wire.\<close>

datatype node_event = Frame_in runtime world did "json option" | Timer runtime world

fun node_step :: "node_event \<Rightarrow> mesh_node \<Rightarrow> mesh_node" where
  "node_step (Frame_in R W src payload) s = fst (handle R (node_hooks R W) (node_dispatch R W) src payload s)"
| "node_step (Timer R W) s = fst (tick R (node_hooks R W) s)"

end
