(* ===== verification/Flooding.thy ===== *)
theory Flooding
  imports Participant "HOL-Library.Multiset"
begin

text \<open>
  What the handlers of a participant keep, and the flooding of signed objects: rules for what a method
  preserves, the contract of the overridden methods, and the facts that make flooding end.
\<close>

named_theorems keeps_rules \<open>a method keeps a predicate of the state\<close>

definition keeps :: "('s \<Rightarrow> bool) \<Rightarrow> ('s, 'a) act \<Rightarrow> bool" where
  "keeps I m \<longleftrightarrow> (\<forall>s. I s \<longrightarrow> I (fst (m s)))"

lemma keepsD: "keeps I m \<Longrightarrow> I s \<Longrightarrow> I (fst (m s))"
  by (simp add: keeps_def)

lemma keeps_basic [keeps_rules]: "keeps I (aret x)" "keeps I (alift r)"
  by (simp_all add: keeps_def aret_def alift_def)

lemma keeps_amod [keeps_rules]: "(\<And>s. I s \<Longrightarrow> I (f s)) \<Longrightarrow> keeps I (amod f)"
  by (simp add: keeps_def amod_def)

lemma keeps_abind [keeps_rules]: "keeps I m \<Longrightarrow> (\<And>x. keeps I (f x)) \<Longrightarrow> keeps I (abind m f)"
  by (fastforce simp: keeps_def abind_def split: prod.split sum.split)

lemma keeps_aget [keeps_rules]: "(\<And>s. keeps I (f s)) \<Longrightarrow> keeps I (aget f)"
  by (simp add: keeps_def aget_def)

lemma keeps_aseq [keeps_rules]: "keeps I m \<Longrightarrow> keeps I n \<Longrightarrow> keeps I (aseq m n)"
  unfolding aseq_def by (rule keeps_abind)

lemma keeps_awhen [keeps_rules]: "(b \<Longrightarrow> keeps I m) \<Longrightarrow> keeps I (awhen b m)"
  by (simp add: awhen_def keeps_basic)

lemma keeps_afor [keeps_rules]: "(\<And>x. x \<in> set xs \<Longrightarrow> keeps I (f x)) \<Longrightarrow> keeps I (afor f xs)"
  by (induction xs) (auto intro: keeps_rules)

lemma keeps_aguard [keeps_rules]: "keeps I m \<Longrightarrow> keeps I (aguard m)"
  by (simp add: keeps_def aguard_def)

lemma keeps_if [keeps_rules]: "(b \<Longrightarrow> keeps I m) \<Longrightarrow> (\<not> b \<Longrightarrow> keeps I n) \<Longrightarrow> keeps I (if b then m else n)"
  by simp

lemma keeps_option [keeps_rules]: "(v = None \<Longrightarrow> keeps I m) \<Longrightarrow> (\<And>x. v = Some x \<Longrightarrow> keeps I (f x)) \<Longrightarrow> keeps I (case v of None \<Rightarrow> m | Some x \<Rightarrow> f x)"
  by (cases v) auto

lemma keeps_prod [keeps_rules]: "(\<And>x y. keeps I (f x y)) \<Longrightarrow> keeps I (case v of (x, y) \<Rightarrow> f x y)"
  by (cases v) auto

lemma keeps_json_obj [keeps_rules]:
  "(\<And>d. keeps I (f d)) \<Longrightarrow> keeps I m \<Longrightarrow> keeps I (case v of JObj d \<Rightarrow> f d | _ \<Rightarrow> m)"
  by (cases v) auto

section \<open>Predicates over what a participant believes\<close>

text \<open>A predicate of the four stores, with the trust they are read against.\<close>

definition beliefs :: "'x participant_scheme \<Rightarrow> trust_roots \<times> lsdb \<times> lease_book \<times> mutiny_ledger \<times> (did, obj) dict" where
  "beliefs p = (pa_trust p, pa_lsdb p, pa_leases p, pa_ledger p, pa_advisories p)"

definition of_beliefs :: "('x participant_scheme \<Rightarrow> bool) \<Rightarrow> bool" where
  "of_beliefs I \<longleftrightarrow> (\<forall>p q. beliefs p = beliefs q \<longrightarrow> I p = I q)"

text \<open>Who the participant is, which no method changes.\<close>

definition standing :: "'x participant_scheme \<Rightarrow> did \<times> identity \<times> string list" where
  "standing p = (pa_did p, pa_identity p, pa_roles p)"

lemma of_beliefsD: "of_beliefs I \<Longrightarrow> I p \<Longrightarrow> beliefs q = beliefs p \<Longrightarrow> I q"
  unfolding of_beliefs_def by blast

definition newer_advisory :: "obj \<Rightarrow> 'x participant_scheme \<Rightarrow> bool" where
  "newer_advisory obj p \<longleftrightarrow>
     (case map_of (pa_advisories p) (strv (pget obj ''coordinator'')) of
        Some cur \<Rightarrow> \<not> intv (pget obj ''epoch'') \<le> intv (pget cur ''epoch'') | None \<Rightarrow> True)"

text \<open>The contract of the four methods a flooded object may call, and of the rest.\<close>

definition absorb_hooks_keep :: "('x participant_scheme \<Rightarrow> bool) \<Rightarrow> 'x participant_scheme hooks \<Rightarrow> bool" where
  "absorb_hooks_keep I H \<longleftrightarrow>
     (\<forall>obj. keeps I (hk_advisory H obj)) \<and> (\<forall>inc. keeps I (hk_incident H inc)) \<and>
     (\<forall>ts. keeps I (hk_reset H ts)) \<and> (\<forall>ids. keeps I (hk_lease_revoked H ids))"

definition hooks_keep :: "('x participant_scheme \<Rightarrow> bool) \<Rightarrow> 'x participant_scheme hooks \<Rightarrow> bool" where
  "hooks_keep I H \<longleftrightarrow>
     absorb_hooks_keep I H \<and> (\<forall>src. keeps I (hk_directory H src)) \<and> (\<forall>old new. keeps I (hk_mode H old new)) \<and>
     (\<forall>now. keeps I (hk_tick H now)) \<and> (\<forall>request decision i now. keeps I (hk_serve H request decision i now)) \<and>
     (\<forall>decision i unreachable reason. keeps I (hk_leg_failed H decision i unreachable reason)) \<and>
     (\<forall>decision i response. keeps I (hk_collect H decision i response))"

locale believing =
  fixes I :: "'x participant_scheme \<Rightarrow> bool" and R :: runtime
  assumes same_beliefs: "\<And>p q. I p \<Longrightarrow> beliefs q = beliefs p \<Longrightarrow> standing q = standing p \<Longrightarrow>
      participant.more q = participant.more p \<Longrightarrow> I q"
    and heartbeat: "\<And>hb. keeps I (on_lsdb (ls_merge (rt_env R) hb (rt_now R)))"
    and lease: "\<And>v. keeps I (on_leases (lb_add (rt_env R) v))"
    and lease_revocation: "\<And>v. keeps I (on_leases (lb_revoke (rt_env R) v))"
    and incident: "\<And>v. keeps I (on_ledger (ml_add (rt_env R) (rt_dec R) v))"
    and reset: "\<And>v. keeps I (on_ledger (ml_reset (rt_env R) v))"
    and advisory: "\<And>p obj. I p \<Longrightarrow> check_advisory (rt_env R) (JObj obj) (pa_trust p) (Some (rt_now R)) = Inr None \<Longrightarrow>
      newer_advisory obj p \<Longrightarrow> I (p\<lparr>pa_advisories := dset (strv (pget obj ''coordinator'')) obj (pa_advisories p)\<rparr>)"
begin

lemma note_keeps [keeps_rules]: "keeps I (pa_note event)"
  unfolding pa_note_def by (rule keeps_amod) (auto intro: same_beliefs simp: beliefs_def standing_def Let_def)

lemma send_keeps [keeps_rules]: "keeps I (send S d kind fs)"
  by (auto simp: keeps_def send_def beliefs_def standing_def intro: same_beliefs split: sum.split)

lemma connect_keeps [keeps_rules]: "keeps I (connect d)"
  by (auto simp: keeps_def connect_def beliefs_def standing_def intro: same_beliefs)

lemma seen_keeps [keeps_rules]: "keeps I (seen_add key)"
  by (auto simp: keeps_def seen_add_def beliefs_def standing_def intro: same_beliefs split: prod.split)

lemma modify_keeps [keeps_rules]:
  "(\<And>p. beliefs (f p) = beliefs p) \<Longrightarrow> (\<And>p. standing (f p) = standing p) \<Longrightarrow>
     (\<And>p. participant.more (f p) = participant.more p) \<Longrightarrow> keeps I (amod f)"
  by (rule keeps_amod) (auto intro: same_beliefs)

lemma flood_keeps [keeps_rules]: "keeps I (flood S obj exclude)"
  unfolding flood_def Let_def by (intro keeps_rules)

lemmas stores_keep [keeps_rules] = heartbeat lease lease_revocation incident reset

lemma absorb_heartbeat_keeps [keeps_rules]: "keeps I (absorb_heartbeat R obj src)"
  unfolding absorb_heartbeat_def heartbeat_rest_def Let_def by (intro keeps_rules) (auto simp: beliefs_def standing_def)

lemma absorb_advisory_keeps:
  assumes "absorb_hooks_keep I H"
  shows "keeps I (absorb_advisory R H obj)"
proof -
  have hook: "keeps I (aseq (hk_advisory H obj) (aret True))"
    using assms by (intro keeps_rules) (simp add: absorb_hooks_keep_def)
  show ?thesis unfolding keeps_def
  proof (intro allI impI)
    fix p assume I: "I p"
    let ?c = "strv (pget obj ''coordinator'')"
    show "I (fst (absorb_advisory R H obj p))"
    proof (cases "check_advisory (rt_env R) (JObj obj) (pa_trust p) (Some (rt_now R)) = Inr None \<and> newer_advisory obj p")
      case True
      then have "absorb_advisory R H obj p =
          aseq (hk_advisory H obj) (aret True) (p\<lparr>pa_advisories := dset ?c obj (pa_advisories p)\<rparr>)"
        by (auto simp: absorb_advisory_def aget_def alift_def abind_def aseq_def amod_def Let_def newer_advisory_def
            split: option.splits if_splits)
      moreover have "I (p\<lparr>pa_advisories := dset ?c obj (pa_advisories p)\<rparr>)" using True I by (intro advisory) auto
      ultimately show ?thesis using keepsD [OF hook] by simp
    next
      case False
      then have "fst (absorb_advisory R H obj p) = p"
        by (auto simp: absorb_advisory_def aget_def alift_def abind_def aret_def Let_def newer_advisory_def
            split: option.splits if_splits sum.splits)
      with I show ?thesis by simp
    qed
  qed
qed

lemma absorb_keeps:
  assumes "absorb_hooks_keep I H"
  shows "keeps I (absorb R H obj src)"
  using assms absorb_advisory_keeps [OF assms]
  unfolding absorb_def Let_def absorb_incident_def absorb_reset_def absorb_lease_revocation_def absorb_hooks_keep_def
  by (intro keeps_rules) auto

lemma on_flood_keeps:
  assumes "absorb_hooks_keep I H"
  shows "keeps I (on_flood R H src f)"
  unfolding on_flood_def by (intro keeps_rules absorb_keeps [OF assms])

lemma on_dir_query_keeps: "keeps I (on_dir_query R src f)"
  unfolding on_dir_query_def by (intro keeps_rules) (auto simp: beliefs_def standing_def)

lemma check_mode_keeps: "hooks_keep I H \<Longrightarrow> keeps I (check_mode R H)"
  unfolding check_mode_def Let_def by (intro keeps_rules) (auto simp: beliefs_def standing_def hooks_keep_def)

lemma on_dir_keeps: "hooks_keep I H \<Longrightarrow> keeps I (on_dir R H src f)"
  unfolding on_dir_def by (intro keeps_rules absorb_keeps) (auto simp: hooks_keep_def)

lemma beat_keeps: "keeps I (beat R H)"
  unfolding beat_def by (intro keeps_rules) (auto simp: beliefs_def standing_def)

lemma publish_keeps: "hooks_keep I H \<Longrightarrow> keeps I (publish R H obj)"
  unfolding publish_def by (intro keeps_rules absorb_keeps check_mode_keeps) (auto simp: hooks_keep_def)

lemma tick_keeps: "hooks_keep I H \<Longrightarrow> keeps I (tick R H)"
  unfolding tick_def by (intro keeps_rules beat_keeps check_mode_keeps) (auto simp: beliefs_def standing_def hooks_keep_def)

lemma participant_dispatch_keeps:
  "hooks_keep I H \<Longrightarrow> participant_dispatch R H kind = Some fn \<Longrightarrow> keeps I (fn src f)"
  by (auto simp: participant_dispatch_def hooks_keep_def intro: on_flood_keeps on_dir_query_keeps on_dir_keeps split: if_splits)

lemma nack_keeps: "hooks_keep I H \<Longrightarrow> keeps I (nack R H decision legs i hop unreachable reason)"
  unfolding nack_def by (intro keeps_rules) (auto simp: hooks_keep_def)

lemma on_req_keeps: "hooks_keep I H \<Longrightarrow> keeps I (on_req R H src f)"
  unfolding on_req_def Let_def by (intro keeps_rules nack_keeps) (auto simp: hooks_keep_def)

lemma on_nack_keeps: "hooks_keep I H \<Longrightarrow> keeps I (on_nack R H src f)"
  unfolding on_nack_def Let_def by (intro keeps_rules) (auto simp: hooks_keep_def)

lemma on_resp_keeps: "hooks_keep I H \<Longrightarrow> keeps I (on_resp R H src f)"
  unfolding on_resp_def Let_def by (intro keeps_rules) (auto simp: hooks_keep_def)

lemma carrier_dispatch_keeps:
  assumes "hooks_keep I H" "carrier_dispatch R H kind = Some fn"
  shows "keeps I (fn src f)"
  using assms(2) on_req_keeps [OF assms(1)] on_resp_keeps [OF assms(1)] on_nack_keeps [OF assms(1)]
    participant_dispatch_keeps [OF assms(1), of kind fn]
  by (auto simp: carrier_dispatch_def split: if_splits)

lemma handle_keeps:
  assumes "hooks_keep I H" "\<And>kind fn src f. D kind = Some fn \<Longrightarrow> keeps I (fn src f)"
  shows "keeps I (handle R H D src payload)"
  unfolding handle_def using check_mode_keeps [OF assms(1)] by (intro keeps_rules) (auto intro: assms(2))

end

section \<open>What a participant has already taken in\<close>

text \<open>An object is stale when absorbing it again changes nothing.\<close>

definition stale :: "env \<Rightarrow> decoder \<Rightarrow> obj \<Rightarrow> 'x participant_scheme \<Rightarrow> bool" where
  "stale E dec obj p \<longleftrightarrow>
     (let kind = pget obj ''type'' in
      if kind = JStr HEARTBEAT then
        (\<exists>cur. map_of (ls_nodes (pa_lsdb p)) (strv (pget obj ''node'')) = Some cur \<and> intv (pget obj ''seq'') \<le> ns_seq cur)
      else if kind = JStr ADVISORY then \<not> newer_advisory obj p
      else if kind = JStr INCIDENT then
        (\<forall>inc. verify_incident E dec (JObj obj) (ml_trust (pa_ledger p)) = Inr (Some inc) \<longrightarrow>
           in_id inc \<in> set (dkeys (ml_incidents (pa_ledger p))))
      else if kind = JStr RESET then digest E (JObj obj) \<in> set (dkeys (ml_resets (pa_ledger p)))
      else if kind = JStr LEASE_REVOCATION then set (revoked_ids obj) \<subseteq> lb_revoked (pa_leases p)
      else True)"

lemmas kind_defs = HEARTBEAT_def ADVISORY_def INCIDENT_def RESET_def LEASE_REVOCATION_def

lemmas act_defs = aret_def alift_def amod_def abind_def aget_def aseq_def awhen_def

lemma stores_trivial: "p\<lparr>pa_lsdb := pa_lsdb p\<rparr> = p" "p\<lparr>pa_leases := pa_leases p\<rparr> = p" "p\<lparr>pa_ledger := pa_ledger p\<rparr> = p"
  by simp_all

lemma stale_heartbeat:
  assumes "pget obj ''type'' = JStr HEARTBEAT" "stale (rt_env R) (rt_dec R) obj p"
  shows "fst (absorb_heartbeat R obj src p) = p \<and> snd (absorb_heartbeat R obj src p) \<noteq> Inr True"
proof -
  let ?m = "ls_merge (rt_env R) (JObj obj) (rt_now R) (pa_lsdb p)"
  have "fst ?m = pa_lsdb p \<and> snd ?m \<noteq> Inr True"
    using assms by (auto simp: stale_def ls_merge_def state_of_def obj_of_def Let_def split: sum.split option.split)
  then obtain r where "?m = (pa_lsdb p, r)" "r \<noteq> Inr True" by (cases ?m) auto
  then show ?thesis by (auto simp: absorb_heartbeat_def on_lsdb_def act_defs split: sum.split)
qed

lemma stale_absorb:
  assumes "stale (rt_env R) (rt_dec R) obj p"
  shows "fst (absorb R H obj src p) = p \<and> snd (absorb R H obj src p) \<noteq> Inr True"
proof -
  let ?kind = "pget obj ''type''"
  consider (hb) "?kind = JStr HEARTBEAT" | (adv) "?kind = JStr ADVISORY" | (inc) "?kind = JStr INCIDENT"
    | (reset) "?kind = JStr RESET" | (rev) "?kind = JStr LEASE_REVOCATION"
    | (other) "?kind \<notin> JStr ` {HEARTBEAT, ADVISORY, INCIDENT, RESET, LEASE_REVOCATION}" by blast
  then show ?thesis
  proof cases
    case hb
    with stale_heartbeat [OF hb assms] show ?thesis by (simp add: absorb_def)
  next
    case adv
    with assms show ?thesis
      by (auto simp: absorb_def absorb_advisory_def stale_def newer_advisory_def act_defs Let_def kind_defs
          split: sum.split option.splits if_splits)
  next
    case inc
    let ?m = "ml_add (rt_env R) (rt_dec R) (JObj obj) (pa_ledger p)"
    have "fst ?m = pa_ledger p \<and> (\<forall>x. snd ?m \<noteq> Inr (Some x))"
      using assms inc by (auto simp: stale_def ml_add_def kind_defs split: sum.split option.split)
    then obtain r where "?m = (pa_ledger p, r)" "\<forall>x. r \<noteq> Inr (Some x)" by (cases ?m) auto
    with inc show ?thesis
      by (auto simp: absorb_def absorb_incident_def on_ledger_def act_defs kind_defs split: sum.split option.split)
  next
    case reset
    let ?m = "ml_reset (rt_env R) (JObj obj) (pa_ledger p)"
    have "fst ?m = pa_ledger p \<and> (\<exists>r. snd ?m = r \<and> (\<forall>x. r = Inr x \<longrightarrow> x = (False, {})))"
      using assms reset by (auto simp: stale_def ml_reset_def kind_defs Let_def split: sum.split option.split)
    then obtain r where "?m = (pa_ledger p, r)" "\<forall>x. r = Inr x \<longrightarrow> x = (False, {})" by (cases ?m) auto
    with reset show ?thesis
      by (auto simp: absorb_def absorb_reset_def on_ledger_def act_defs kind_defs split: sum.split)
  next
    case rev
    let ?m = "lb_revoke (rt_env R) (JObj obj) (pa_leases p)"
    have ids: "set (revoked_ids obj) - lb_revoked (pa_leases p) = {}" using assms rev by (auto simp: stale_def kind_defs)
    have o: "obj_of (JObj obj) = obj" by (simp add: obj_of_def)
    have "fst ?m = pa_leases p \<and> (\<forall>x. snd ?m = Inr x \<longrightarrow> x = {})"
      unfolding lb_revoke_def Let_def o ids by (simp add: case_prod_unfold split: sum.split option.split)
    then obtain r where "?m = (pa_leases p, r)" "\<forall>x. r = Inr x \<longrightarrow> x = {}" by (cases ?m) auto
    with rev show ?thesis
      by (auto simp: absorb_def absorb_lease_revocation_def on_leases_def act_defs kind_defs split: sum.split)
  next
    case other
    then show ?thesis by (auto simp: absorb_def act_defs)
  qed
qed

section \<open>Once absorbed, for ever stale\<close>

lemma ls_merge_grows:
  assumes "ls_merge E hb now db = (db', r)" "map_of (ls_nodes db) d = Some cur"
  shows "\<exists>cur'. map_of (ls_nodes db') d = Some cur' \<and> ns_seq cur \<le> ns_seq cur'"
  using assms by (auto simp: ls_merge_def Let_def split: sum.splits option.splits if_splits)

lemma ml_add_grows:
  assumes "ml_add E dec v ml = (ml', r)"
  shows "ml_trust ml' = ml_trust ml \<and> set (dkeys (ml_incidents ml)) \<subseteq> set (dkeys (ml_incidents ml')) \<and> ml_resets ml' = ml_resets ml"
  using assms by (auto simp: ml_add_def set_dkeys_dset split: sum.splits option.splits if_splits)

lemma ml_reset_grows:
  assumes "ml_reset E v ml = (ml', r)"
  shows "ml_trust ml' = ml_trust ml \<and> ml_incidents ml' = ml_incidents ml \<and> set (dkeys (ml_resets ml)) \<subseteq> set (dkeys (ml_resets ml'))"
  using assms by (auto simp: ml_reset_def Let_def set_dkeys_dset split: sum.splits option.splits if_splits)

lemma lb_add_revoked: "lb_add E v lb = (lb', r) \<Longrightarrow> lb_revoked lb' = lb_revoked lb"
  by (auto simp: lb_add_def Let_def split: sum.splits option.splits if_splits)

lemma lb_revoke_grows: "lb_revoke E v lb = (lb', r) \<Longrightarrow> lb_revoked lb \<subseteq> lb_revoked lb'"
  by (auto simp: lb_revoke_def Let_def split: sum.splits option.splits if_splits)

lemma newer_mono:
  assumes "newer_advisory new p" "\<not> newer_advisory obj p"
  shows "\<not> newer_advisory obj (p\<lparr>pa_advisories := dset (strv (pget new ''coordinator'')) new (pa_advisories p)\<rparr>)"
  using assms by (auto simp: newer_advisory_def split: option.splits if_splits)

lemma stale_cases:
  "stale E dec obj p \<longleftrightarrow>
     (pget obj ''type'' = JStr HEARTBEAT \<longrightarrow>
        (\<exists>cur. map_of (ls_nodes (pa_lsdb p)) (strv (pget obj ''node'')) = Some cur \<and> intv (pget obj ''seq'') \<le> ns_seq cur)) \<and>
     (pget obj ''type'' = JStr ADVISORY \<longrightarrow> \<not> newer_advisory obj p) \<and>
     (pget obj ''type'' = JStr INCIDENT \<longrightarrow>
        (\<forall>inc. verify_incident E dec (JObj obj) (ml_trust (pa_ledger p)) = Inr (Some inc) \<longrightarrow>
           in_id inc \<in> set (dkeys (ml_incidents (pa_ledger p))))) \<and>
     (pget obj ''type'' = JStr RESET \<longrightarrow> digest E (JObj obj) \<in> set (dkeys (ml_resets (pa_ledger p)))) \<and>
     (pget obj ''type'' = JStr LEASE_REVOCATION \<longrightarrow> set (revoked_ids obj) \<subseteq> lb_revoked (pa_leases p))"
  by (auto simp: stale_def kind_defs Let_def)

lemma keeps_store:
  "(\<And>p db r. I p \<Longrightarrow> f (pa_lsdb p) = (db, r) \<Longrightarrow> I (p\<lparr>pa_lsdb := db\<rparr>)) \<Longrightarrow> keeps I (on_lsdb f)"
  "(\<And>p lb r. I p \<Longrightarrow> g (pa_leases p) = (lb, r) \<Longrightarrow> I (p\<lparr>pa_leases := lb\<rparr>)) \<Longrightarrow> keeps I (on_leases g)"
  "(\<And>p ml r. I p \<Longrightarrow> h (pa_ledger p) = (ml, r) \<Longrightarrow> I (p\<lparr>pa_ledger := ml\<rparr>)) \<Longrightarrow> keeps I (on_ledger h)"
  by (auto simp: keeps_def on_lsdb_def on_leases_def on_ledger_def split: prod.split)

text \<open>Predicates of what a subclass adds to the participant, with who it is and whom it trusts.\<close>

definition own_state :: "('x participant_scheme \<Rightarrow> bool) \<Rightarrow> bool" where
  "own_state I \<longleftrightarrow> (\<forall>p q. I p \<longrightarrow> pa_trust q = pa_trust p \<longrightarrow> standing q = standing p \<longrightarrow>
     participant.more q = participant.more p \<longrightarrow> I q)"

lemma own_stateD:
  "own_state I \<Longrightarrow> I p \<Longrightarrow> pa_trust q = pa_trust p \<Longrightarrow> standing q = standing p \<Longrightarrow> participant.more q = participant.more p \<Longrightarrow> I q"
  unfolding own_state_def by blast

lemma own_state_believing:
  assumes "own_state I"
  shows "believing I R"
proof
  note c = own_stateD [OF assms]
  show "I q" if "I p" "beliefs q = beliefs p" "standing q = standing p" "participant.more q = participant.more p" for p q
    using that by (intro c [OF that(1)]) (simp_all add: beliefs_def)
  show "keeps I (on_lsdb (ls_merge (rt_env R) hb (rt_now R)))" for hb
    by (rule keeps_store(1)) (rule c; simp add: standing_def)
  show "keeps I (on_leases (lb_add (rt_env R) v))" for v
    by (rule keeps_store(2)) (rule c; simp add: standing_def)
  show "keeps I (on_leases (lb_revoke (rt_env R) v))" for v
    by (rule keeps_store(2)) (rule c; simp add: standing_def)
  show "keeps I (on_ledger (ml_add (rt_env R) (rt_dec R) v))" for v
    by (rule keeps_store(3)) (rule c; simp add: standing_def)
  show "keeps I (on_ledger (ml_reset (rt_env R) v))" for v
    by (rule keeps_store(3)) (rule c; simp add: standing_def)
  show "I (p\<lparr>pa_advisories := dset (strv (pget obj ''coordinator'')) obj (pa_advisories p)\<rparr>)" if "I p" for p obj
    by (rule c [OF that]) (simp_all add: standing_def)
qed

lemma newer_frame [simp]:
  "newer_advisory obj (p\<lparr>pa_lsdb := db\<rparr>) = newer_advisory obj p"
  "newer_advisory obj (p\<lparr>pa_leases := lb\<rparr>) = newer_advisory obj p"
  "newer_advisory obj (p\<lparr>pa_ledger := ml\<rparr>) = newer_advisory obj p"
  by (simp_all add: newer_advisory_def)

lemma stale_of_beliefs: "of_beliefs (stale E dec obj)"
proof -
  have "newer_advisory obj p = newer_advisory obj q" if "beliefs p = beliefs q" for p q :: "'x participant_scheme"
    using that by (simp add: newer_advisory_def beliefs_def)
  note n = this
  have "stale E dec obj p = stale E dec obj q" if b: "beliefs p = beliefs q" for p q :: "'x participant_scheme"
    unfolding stale_cases n [OF b] using b by (simp add: beliefs_def)
  then show ?thesis unfolding of_beliefs_def by blast
qed

lemma stale_heard:
  assumes "stale E dec obj p" "ls_merge E hb now (pa_lsdb p) = (db, r)"
  shows "stale E dec obj (p\<lparr>pa_lsdb := db\<rparr>)"
proof (cases "pget obj ''type'' = JStr HEARTBEAT")
  case True
  with assms(1) obtain cur where cur: "map_of (ls_nodes (pa_lsdb p)) (strv (pget obj ''node'')) = Some cur"
    "intv (pget obj ''seq'') \<le> ns_seq cur" by (auto simp: stale_cases)
  from ls_merge_grows [OF assms(2) cur(1)] cur(2) True show ?thesis by (auto simp: stale_cases kind_defs)
qed (use assms(1) in \<open>simp add: stale_cases\<close>)

interpretation taken_in: believing "stale (rt_env R) dec obj :: 'x participant_scheme \<Rightarrow> bool" R for R dec obj
proof
  show "stale (rt_env R) dec obj q" if "stale (rt_env R) dec obj p" "beliefs q = beliefs p" for p q :: "'x participant_scheme"
    by (rule of_beliefsD [OF stale_of_beliefs that])
  show "keeps (stale (rt_env R) dec obj) (on_lsdb (ls_merge (rt_env R) hb (rt_now R)))" for hb
    by (rule keeps_store(1)) (rule stale_heard)
  show "keeps (stale (rt_env R) dec obj) (on_leases (lb_add (rt_env R) v))" for v
    by (rule keeps_store(2)) (simp add: stale_cases lb_add_revoked)
  show "keeps (stale (rt_env R) dec obj) (on_leases (lb_revoke (rt_env R) v))" for v
    by (rule keeps_store(2)) (auto simp: stale_cases dest: lb_revoke_grows)
  show "keeps (stale (rt_env R) dec obj) (on_ledger (ml_add (rt_env R) (rt_dec R) v))" for v
    by (rule keeps_store(3)) (auto simp: stale_cases dest!: ml_add_grows)
  show "keeps (stale (rt_env R) dec obj) (on_ledger (ml_reset (rt_env R) v))" for v
    by (rule keeps_store(3)) (auto simp: stale_cases dest!: ml_reset_grows)
qed (simp add: stale_cases newer_mono)

lemma fst_abind: "m p = (q, Inr x) \<Longrightarrow> abind m f p = f x q"
  by (simp add: abind_def)

lemma abind_Inr: "abind m f p = (q, Inr y) \<longleftrightarrow> (\<exists>p1 x. m p = (p1, Inr x) \<and> f x p1 = (q, Inr y))"
  by (auto simp: abind_def split: prod.splits sum.splits)

lemma keeps_run: "keeps I m \<Longrightarrow> I p \<Longrightarrow> m p = (q, r) \<Longrightarrow> I q"
  using keepsD [of I m p] by simp

lemma ls_merge_True:
  assumes "ls_merge E (JObj obj) now db = (db', Inr True)"
  shows "map_of (ls_nodes db') (strv (pget obj ''node'')) = Some (state_of (ls_trust db) obj now)"
proof -
  have o: "obj_of (JObj obj) = obj" "ns_did (state_of (ls_trust db) obj now) = strv (pget obj ''node'')"
    by (simp_all add: obj_of_def state_of_def Let_def)
  from assms show ?thesis unfolding ls_merge_def Let_def o
    by (auto split: sum.splits option.splits if_splits)
qed

lemma lb_revoke_all:
  assumes "lb_revoke E (JObj obj) lb = (lb', Inr ids)" "ids \<noteq> {}"
  shows "set (revoked_ids obj) \<subseteq> lb_revoked lb'"
proof -
  have o: "obj_of (JObj obj) = obj" by (simp add: obj_of_def)
  show ?thesis
  proof (cases "check_lease_revocation E (JObj obj) (lb_trust lb) = Inr None")
    case True
    with assms(1) have "lb_revoked lb' = lb_revoked lb \<union> (set (revoked_ids obj) - lb_revoked lb)"
      unfolding lb_revoke_def Let_def o by auto
    then show ?thesis by blast
  next
    case False
    with assms show ?thesis by (auto simp: lb_revoke_def split: sum.splits option.splits)
  qed
qed

lemma absorb_makes_stale:
  assumes "absorb_hooks_keep (stale (rt_env R) (rt_dec R) obj) H" "absorb R H obj src p = (q, Inr True)"
  shows "stale (rt_env R) (rt_dec R) obj q"
proof -
  let ?I = "stale (rt_env R) (rt_dec R) obj"
  let ?kind = "pget obj ''type''"
  note hooks = assms(1) [unfolded absorb_hooks_keep_def]
  consider (hb) "?kind = JStr HEARTBEAT" | (adv) "?kind = JStr ADVISORY" | (inc) "?kind = JStr INCIDENT"
    | (reset) "?kind = JStr RESET" | (rev) "?kind = JStr LEASE_REVOCATION"
    | (other) "?kind \<notin> JStr ` {HEARTBEAT, ADVISORY, INCIDENT, RESET, LEASE_REVOCATION}" by blast
  then show ?thesis
  proof cases
    case hb
    with assms(2) have run: "absorb_heartbeat R obj src p = (q, Inr True)" by (simp add: absorb_def)
    then obtain p1 new where first: "on_lsdb (ls_merge (rt_env R) (JObj obj) (rt_now R)) p = (p1, Inr new)"
      and rest: "(if \<not> new then aret False else heartbeat_rest R obj src) p1 = (q, Inr True)"
      unfolding absorb_heartbeat_def abind_Inr by blast
    from rest have new: "new" by (cases new) (simp_all add: aret_def)
    with first obtain db where m: "ls_merge (rt_env R) (JObj obj) (rt_now R) (pa_lsdb p) = (db, Inr True)"
      and p1: "p1 = p\<lparr>pa_lsdb := db\<rparr>"
      by (auto simp: on_lsdb_def split: prod.splits)
    from ls_merge_True [OF m] hb have st: "?I (p\<lparr>pa_lsdb := db\<rparr>)" by (simp add: stale_cases kind_defs state_of_def Let_def)
    have rest2: "heartbeat_rest R obj src (p\<lparr>pa_lsdb := db\<rparr>) = (q, Inr True)" using rest new p1 by simp
    have k: "keeps ?I (heartbeat_rest R obj src)"
      unfolding heartbeat_rest_def Let_def by (intro keeps_rules taken_in.modify_keeps taken_in.lease) (auto simp: beliefs_def standing_def)
    show ?thesis by (rule keeps_run [OF k st rest2])
  next
    case adv
    with assms(2) have run: "absorb_advisory R H obj p = (q, Inr True)" by (simp add: absorb_def kind_defs)
    then have rest: "aseq (hk_advisory H obj) (aret True) (p\<lparr>pa_advisories := dset (strv (pget obj ''coordinator'')) obj (pa_advisories p)\<rparr>) = (q, Inr True)"
      by (auto simp: absorb_advisory_def aget_def alift_def abind_def aseq_def amod_def aret_def Let_def split: option.splits if_splits sum.splits)
    have st: "?I (p\<lparr>pa_advisories := dset (strv (pget obj ''coordinator'')) obj (pa_advisories p)\<rparr>)"
      using adv by (simp add: stale_cases kind_defs newer_advisory_def)
    have k: "keeps ?I (aseq (hk_advisory H obj) (aret True))" using hooks by (intro keeps_rules) simp
    show ?thesis by (rule keeps_run [OF k st rest])
  next
    case inc
    with assms(2) have run: "absorb_incident R H obj p = (q, Inr True)" by (simp add: absorb_def kind_defs)
    then obtain ml x where m: "ml_add (rt_env R) (rt_dec R) (JObj obj) (pa_ledger p) = (ml, Inr (Some x))"
      and rest: "aseq (pa_note ''incident'') (aseq (hk_incident H x) (aret True)) (p\<lparr>pa_ledger := ml\<rparr>) = (q, Inr True)"
      unfolding absorb_incident_def abind_Inr by (auto simp: on_ledger_def aret_def split: prod.splits option.splits)
    from m have st: "?I (p\<lparr>pa_ledger := ml\<rparr>)"
      using inc by (auto simp: stale_cases kind_defs ml_add_def split: sum.splits option.splits if_splits)
    have k: "keeps ?I (aseq (pa_note ''incident'') (aseq (hk_incident H x) (aret True)))"
      using hooks by (intro keeps_rules taken_in.note_keeps) simp
    show ?thesis by (rule keeps_run [OF k st rest])
  next
    case reset
    with assms(2) have run: "absorb_reset R H obj p = (q, Inr True)" by (simp add: absorb_def kind_defs)
    then obtain ml ts where m: "ml_reset (rt_env R) (JObj obj) (pa_ledger p) = (ml, Inr (True, ts))"
      and rest: "aseq (awhen (ts \<noteq> {}) (aseq (pa_note ''reset'') (hk_reset H ts))) (aret True) (p\<lparr>pa_ledger := ml\<rparr>) = (q, Inr True)"
      unfolding absorb_reset_def abind_Inr by (auto simp: on_ledger_def aseq_def abind_Inr aret_def split: prod.splits)
    from m have st: "?I (p\<lparr>pa_ledger := ml\<rparr>)"
      using reset by (auto simp: stale_cases kind_defs ml_reset_def Let_def split: sum.splits option.splits if_splits)
    have k: "keeps ?I (aseq (awhen (ts \<noteq> {}) (aseq (pa_note ''reset'') (hk_reset H ts))) (aret True))"
      using hooks by (intro keeps_rules taken_in.note_keeps) simp
    show ?thesis by (rule keeps_run [OF k st rest])
  next
    case rev
    with assms(2) have run: "absorb_lease_revocation R H obj p = (q, Inr True)" by (simp add: absorb_def kind_defs)
    then obtain p1 ids where first: "on_leases (lb_revoke (rt_env R) (JObj obj)) p = (p1, Inr ids)"
      and run1: "aseq (awhen (ids \<noteq> {}) (hk_lease_revoked H ids)) (aret (ids \<noteq> {})) p1 = (q, Inr True)"
      unfolding absorb_lease_revocation_def abind_Inr by blast
    from run1 have ids: "ids \<noteq> {}" unfolding aseq_def abind_Inr aret_def by blast
    from first obtain lb where m: "lb_revoke (rt_env R) (JObj obj) (pa_leases p) = (lb, Inr ids)" and p1: "p1 = p\<lparr>pa_leases := lb\<rparr>"
      by (auto simp: on_leases_def split: prod.splits)
    have rest: "aseq (awhen (ids \<noteq> {}) (hk_lease_revoked H ids)) (aret True) (p\<lparr>pa_leases := lb\<rparr>) = (q, Inr True)"
      using run1 ids p1 by simp
    from m ids have st: "?I (p\<lparr>pa_leases := lb\<rparr>)"
      using rev lb_revoke_all [OF m ids] by (simp add: stale_cases kind_defs)
    have k: "keeps ?I (aseq (awhen (ids \<noteq> {}) (hk_lease_revoked H ids)) (aret True))"
      using hooks by (intro keeps_rules) simp
    show ?thesis by (rule keeps_run [OF k st rest])
  next
    case other
    with assms(2) show ?thesis by (auto simp: absorb_def aret_def)
  qed
qed

section \<open>The mesh of carriers\<close>

text \<open>The methods of \<^verbatim>\<open>Participant\<close> and \<^verbatim>\<open>Carrier\<close> themselves keep whatever a handler keeps.\<close>

lemma base_hooks_keep: "hooks_keep I base_hooks"
  by (simp add: hooks_keep_def absorb_hooks_keep_def base_hooks_def keeps_basic)

lemma base_absorb_keep: "absorb_hooks_keep I base_hooks"
  using base_hooks_keep [of I] by (simp add: hooks_keep_def)

lemma silent_stores [keeps_rules]:
  "keeps (\<lambda>p. J (pa_outbox p)) (on_lsdb f)" "keeps (\<lambda>p. J (pa_outbox p)) (on_leases g)" "keeps (\<lambda>p. J (pa_outbox p)) (on_ledger h)"
  by (rule keeps_store; simp)+

lemma silent_basics [keeps_rules]:
  "keeps (\<lambda>p. J (pa_outbox p)) (seen_add key)" "keeps (\<lambda>p. J (pa_outbox p)) (pa_note event)"
  by (auto simp: keeps_def seen_add_def pa_note_def amod_def Let_def split: prod.split)

lemma silent_absorb: "keeps (\<lambda>p. J (pa_outbox p)) (absorb R base_hooks obj src)"
  unfolding absorb_def Let_def absorb_heartbeat_def heartbeat_rest_def absorb_advisory_def absorb_incident_def
    absorb_reset_def absorb_lease_revocation_def base_hooks_def
  by (intro keeps_rules) (auto simp: keeps_basic)

lemma silent_check_mode: "keeps (\<lambda>p. J (pa_outbox p)) (check_mode R base_hooks)"
  unfolding check_mode_def Let_def base_hooks_def by (intro keeps_rules) (auto simp: keeps_basic)

definition flood_frame :: "obj \<Rightarrow> obj" where
  "flood_frame obj = [(''k'', JStr ''flood''), (''obj'', JObj obj)]"

definition all_frames :: "obj \<Rightarrow> outbox \<Rightarrow> bool" where
  "all_frames f out \<longleftrightarrow> snd ` set out \<subseteq> {f}"

lemma flood_sends: "keeps (\<lambda>p. all_frames (flood_frame obj) (pa_outbox p)) (flood R obj exclude)"
proof -
  have "keeps (\<lambda>p. all_frames (flood_frame obj) (pa_outbox p)) (send R d ''flood'' [(''obj'', JObj obj)])" for d
    by (auto simp: keeps_def send_def frame_def FRAME_KINDS_def flood_frame_def all_frames_def)
  then show ?thesis unfolding flood_def Let_def by (intro keeps_rules)
qed

text \<open>A frame arrives at a participant; its outbox then holds what it sends in answer.\<close>

definition deliver :: "runtime \<Rightarrow> did \<Rightarrow> obj \<Rightarrow> 'x participant_scheme \<Rightarrow> 'x participant_scheme" where
  "deliver R src f p =
     fst (handle R base_hooks (carrier_dispatch R base_hooks) src (Some (JObj f)) (p\<lparr>pa_outbox := []\<rparr>))"

lemma flood_frame_parses:
  "parse_frame (Some (JObj (flood_frame obj))) = Inr (Some (flood_frame obj))"
  "carrier_dispatch R H (strv (pget (flood_frame obj) ''k'')) = Some (on_flood R H)"
  by (simp_all add: flood_frame_def pget_def parse_frame_def FRAME_KINDS_def carrier_dispatch_def participant_dispatch_def strv_def)

lemma deliver_flood:
  "deliver R src (flood_frame obj) p =
     (if tr_peers (pa_trust p) src
      then fst (check_mode R base_hooks (fst (on_flood R base_hooks src (flood_frame obj) (p\<lparr>pa_outbox := []\<rparr>))))
      else p\<lparr>pa_outbox := []\<rparr>)"
  by (simp add: deliver_def handle_def flood_frame_parses aget_def alift_def abind_def aret_def aseq_def aguard_def)

lemma on_flood_frame:
  "on_flood R H src (flood_frame obj) =
     abind (alift (in_frozenset (pget obj ''type'') FLOODED)) (\<lambda>floods.
       if \<not> floods then aret ()
       else abind (seen_add (digest (rt_env R) (JObj obj))) (\<lambda>new.
         if \<not> new then aret ()
         else abind (absorb R H obj (Some src)) (\<lambda>changed. awhen changed (flood R obj (Some src)))))"
  by (simp add: on_flood_def flood_frame_def pget_def)

lemma deliver_stale:
  assumes "stale (rt_env R) (rt_dec R) obj p"
  shows "stale (rt_env R) (rt_dec R) obj (deliver R src f p)"
proof -
  let ?I = "stale (rt_env R) (rt_dec R) obj"
  have st: "?I (p\<lparr>pa_outbox := []\<rparr>)" using assms by (rule of_beliefsD [OF stale_of_beliefs]) (simp add: beliefs_def)
  have k: "keeps ?I (handle R base_hooks (carrier_dispatch R base_hooks) src (Some (JObj f)))"
    by (rule taken_in.handle_keeps [OF base_hooks_keep]) (rule taken_in.carrier_dispatch_keeps [OF base_hooks_keep])
  show ?thesis unfolding deliver_def by (rule keepsD [OF k st])
qed

lemma deliver_all_frames: "all_frames (flood_frame obj) (pa_outbox (deliver R src (flood_frame obj) p))"
proof -
  let ?J = "\<lambda>p. all_frames (flood_frame obj) (pa_outbox p)"
  have "keeps ?J (on_flood R base_hooks src (flood_frame obj))"
    unfolding on_flood_frame by (intro keeps_rules silent_absorb flood_sends)
  moreover have "?J (p\<lparr>pa_outbox := []\<rparr>)" by (simp add: all_frames_def)
  ultimately have "?J (fst (on_flood R base_hooks src (flood_frame obj) (p\<lparr>pa_outbox := []\<rparr>)))" by (rule keepsD)
  from keepsD [OF silent_check_mode [where J = "all_frames (flood_frame obj)"] this] show ?thesis by (simp add: deliver_flood all_frames_def)
qed

text \<open>Something is sent on only when the object was new, and it is stale from then on.\<close>

lemma deliver_sends:
  assumes "pa_outbox (deliver R src (flood_frame obj) p) \<noteq> []"
  shows "\<not> stale (rt_env R) (rt_dec R) obj p \<and> stale (rt_env R) (rt_dec R) obj (deliver R src (flood_frame obj) p)"
proof -
  let ?I = "stale (rt_env R) (rt_dec R) obj"
  let ?p = "p\<lparr>pa_outbox := []\<rparr>"
  let ?key = "digest (rt_env R) (JObj obj)"
  let ?quiet = "\<lambda>p. pa_outbox p = []"
  have empty: "?quiet (fst (check_mode R base_hooks q))" if "?quiet q" for q :: "'a participant_scheme"
    by (rule keepsD [OF silent_check_mode [where J = "\<lambda>out. out = []"] that])
  from assms have peer: "tr_peers (pa_trust p) src" by (auto simp: deliver_flood split: if_splits)
  have run: "pa_outbox (fst (on_flood R base_hooks src (flood_frame obj) ?p)) \<noteq> []"
    using assms empty peer by (auto simp: deliver_flood)
  obtain p1 r1 where seen: "seen_add ?key ?p = (p1, r1)" by (cases "seen_add ?key ?p")
  have p1: "?quiet p1" "beliefs p1 = beliefs p"
    using seen by (auto simp: seen_add_def beliefs_def split: prod.splits)
  obtain p2 r2 where ab: "absorb R base_hooks obj (Some src) p1 = (p2, r2)" by (cases "absorb R base_hooks obj (Some src) p1")
  have p2: "?quiet p2" using keepsD [OF silent_absorb [where J = "\<lambda>out. out = []" and R = R and obj = obj and src = "Some src"] p1(1)] ab by simp
  from run seen ab p2 p1 have r2: "r2 = Inr True"
    and q: "fst (on_flood R base_hooks src (flood_frame obj) ?p) = fst (flood R obj (Some src) p2)"
    unfolding on_flood_frame by (auto simp: abind_def alift_def aret_def awhen_def split: sum.splits if_splits)
  have "\<not> ?I p"
  proof
    assume "?I p"
    then have "?I p1" by (rule of_beliefsD [OF stale_of_beliefs]) (rule p1(2))
    from stale_absorb [OF this, of base_hooks "Some src"] ab r2 show False by simp
  qed
  moreover have "?I p2" by (rule absorb_makes_stale [OF base_absorb_keep]) (use ab r2 in simp)
  then have "?I (fst (flood R obj (Some src) p2))" by (rule keepsD [OF taken_in.flood_keeps])
  then have "?I (fst (check_mode R base_hooks (fst (flood R obj (Some src) p2))))"
    by (rule keepsD [OF taken_in.check_mode_keeps [OF base_hooks_keep]])
  ultimately show ?thesis using peer q by (simp add: deliver_flood)
qed

text \<open>The mesh: carriers by DID and the frames between them. A step delivers one frame to the carrier it is for, which may
  send others, at whatever time and over whatever wire; or it loses a frame.\<close>

type_synonym flight = "(did \<times> did \<times> obj) multiset"
type_synonym net = "(did \<Rightarrow> participant option) \<times> flight"

inductive net_step :: "env \<Rightarrow> decoder \<Rightarrow> net \<Rightarrow> net \<Rightarrow> bool" for E dec where
  arrives: "rt_env R = E \<Longrightarrow> rt_dec R = dec \<Longrightarrow> nodes dst = Some p \<Longrightarrow> q = deliver R src f p \<Longrightarrow>
    net_step E dec (nodes, add_mset (src, dst, f) flight)
      (nodes(dst \<mapsto> q), flight + image_mset (\<lambda>(d, g). (dst, d, g)) (mset (pa_outbox q)))"
| lost: "net_step E dec (nodes, add_mset m flight) (nodes, flight)"

definition only_floods :: "obj set \<Rightarrow> flight \<Rightarrow> bool" where
  "only_floods objs flight \<longleftrightarrow> (\<forall>(s, d, f)\<in>#flight. f \<in> flood_frame ` objs)"

text \<open>The news still to come: pairs of a carrier and an object that is not stale there.\<close>

definition news :: "env \<Rightarrow> decoder \<Rightarrow> obj set \<Rightarrow> (did \<Rightarrow> participant option) \<Rightarrow> (did \<times> obj) set" where
  "news E dec objs nodes = {(d, obj). obj \<in> objs \<and> (\<exists>p. nodes d = Some p \<and> \<not> stale E dec obj p)}"

lemma finite_news: "finite objs \<Longrightarrow> finite (dom nodes) \<Longrightarrow> finite (news E dec objs nodes)"
  by (rule finite_subset [of _ "dom nodes \<times> objs"]) (auto simp: news_def)

definition net_measure :: "env \<Rightarrow> decoder \<Rightarrow> obj set \<Rightarrow> net \<Rightarrow> nat \<times> nat" where
  "net_measure E dec objs N = (card (news E dec objs (fst N)), size (snd N))"

definition net_ok :: "obj set \<Rightarrow> net \<Rightarrow> bool" where
  "net_ok objs N \<longleftrightarrow> finite (dom (fst N)) \<and> only_floods objs (snd N)"

lemma net_step_decreases:
  assumes "net_step E dec N N'" "finite objs" "net_ok objs N"
  shows "net_ok objs N' \<and> (net_measure E dec objs N', net_measure E dec objs N) \<in> less_than <*lex*> less_than"
  using assms(1)
proof (cases rule: net_step.cases)
  case (arrives R nodes dst p q src f flight)
  from assms(3) arrives obtain obj where obj: "obj \<in> objs" "f = flood_frame obj"
    and fin: "finite (dom nodes)" and rest: "only_floods objs flight"
    by (auto simp: net_ok_def only_floods_def)
  have q: "q = deliver R src (flood_frame obj) p" using arrives obj by simp
  have "all_frames (flood_frame obj) (pa_outbox q)" unfolding q by (rule deliver_all_frames)
  then have "only_floods objs (image_mset (\<lambda>(d, g). (dst, d, g)) (mset (pa_outbox q)))"
    using obj by (auto simp: only_floods_def all_frames_def)
  with rest fin arrives have ok: "net_ok objs N'" by (auto simp: net_ok_def only_floods_def)
  let ?old = "news E dec objs nodes" and ?new = "news E dec objs (nodes(dst \<mapsto> q))"
  have keep: "stale E dec o1 q" if "stale E dec o1 p" for o1
    using deliver_stale [of R o1 p src f] that arrives by simp
  have sub: "?new \<subseteq> ?old" using keep arrives by (auto simp: news_def split: if_splits)
  note finite = finite_news [OF assms(2) fin, of E dec]
  have "(net_measure E dec objs N', net_measure E dec objs N) \<in> less_than <*lex*> less_than"
  proof (cases "pa_outbox q = []")
    case True
    from card_mono [OF finite sub] have "card ?new \<le> card ?old" .
    with True arrives show ?thesis by (auto simp: net_measure_def)
  next
    case False
    with deliver_sends [of R src obj p] q arrives
    have "\<not> stale E dec obj p" "stale E dec obj q" by auto
    with obj arrives have "(dst, obj) \<in> ?old" "(dst, obj) \<notin> ?new" by (auto simp: news_def)
    with sub have "?new \<subset> ?old" by blast
    from psubset_card_mono [OF finite this] arrives show ?thesis by (simp add: net_measure_def)
  qed
  with ok show ?thesis by blast
next
  case (lost nodes m flight)
  with assms(3) show ?thesis by (auto simp: net_ok_def only_floods_def net_measure_def)
qed


definition ref_carrier :: "did \<Rightarrow> participant" where
  "ref_carrier d =
     \<lparr>pa_did = d, pa_identity = [], pa_trust = ref_roots, pa_roles = [''forward''], pa_config = default_config, pa_ledger = ledger_init ref_roots,
      pa_leases = lease_book_init ref_roots, pa_lsdb = lsdb_init ref_roots (Fin 7), pa_advisories = [], pa_neighbors = [], pa_users = [],
      pa_seen = [], pa_seq = 0, pa_next_beat = Fin 0, pa_last_mode = None, pa_events = [], pa_outbox = [], pa_links = []\<rparr>"


end
