(* ===== verification/Beliefs.thy ===== *)
theory Beliefs
  imports Flooding
begin

text \<open>
  What a member of the mesh believes is grounded in what somebody signed who may say it: the composition of the
  link-state database, the lease book, the mutiny ledger and the advisories under every handler of
  \<^verbatim>\<open>inference/participant.py\<close>.
\<close>

definition latch_grounded :: "env \<Rightarrow> decoder \<Rightarrow> trust_roots \<Rightarrow> string \<Rightarrow> string \<Rightarrow> bool" where
  "latch_grounded E dec tr t i \<longleftrightarrow>
     (\<exists>v inc. verify_incident E dec v tr = Inr (Some inc) \<and> in_id inc = i \<and> t \<in> set (in_targets inc))"

definition latches_ok :: "env \<Rightarrow> decoder \<Rightarrow> trust_roots \<Rightarrow> (string, string set) dict \<Rightarrow> bool" where
  "latches_ok E dec tr latches \<longleftrightarrow> (\<forall>(t, held)\<in>set latches. held \<noteq> {} \<and> (\<forall>i\<in>held. latch_grounded E dec tr t i))"

definition node_grounded :: "env \<Rightarrow> trust_roots \<Rightarrow> did \<Rightarrow> node_state \<Rightarrow> bool" where
  "node_grounded E tr d st \<longleftrightarrow>
     (\<exists>hb now. check_heartbeat E hb tr (Some now) = Inr None \<and> st = state_of tr (obj_of hb) now \<and> d = ns_did st)"

definition advisory_grounded :: "env \<Rightarrow> trust_roots \<Rightarrow> did \<Rightarrow> obj \<Rightarrow> bool" where
  "advisory_grounded E tr c adv \<longleftrightarrow>
     strv (pget adv ''coordinator'') = c \<and> (\<exists>now. check_advisory E (JObj adv) tr (Some now) = Inr None)"

definition lsdb_grounded :: "env \<Rightarrow> trust_roots \<Rightarrow> lsdb \<Rightarrow> bool" where
  "lsdb_grounded E tr db \<longleftrightarrow> ls_trust db = tr \<and> (\<forall>d st. map_of (ls_nodes db) d = Some st \<longrightarrow> node_grounded E tr d st)"

definition leases_grounded :: "env \<Rightarrow> trust_roots \<Rightarrow> lease_book \<Rightarrow> bool" where
  "leases_grounded E tr lb \<longleftrightarrow> lb_trust lb = tr \<and> (\<forall>x\<in>snd ` set (lb_leases lb). check_lease E (JObj x) tr = Inr None)"

definition ledger_grounded :: "env \<Rightarrow> decoder \<Rightarrow> trust_roots \<Rightarrow> mutiny_ledger \<Rightarrow> bool" where
  "ledger_grounded E dec tr ml \<longleftrightarrow> ml_trust ml = tr \<and> latches_ok E dec tr (ml_latches ml)"

definition grounded :: "env \<Rightarrow> decoder \<Rightarrow> trust_roots \<Rightarrow> 'x participant_scheme \<Rightarrow> bool" where
  "grounded E dec tr p \<longleftrightarrow>
     pa_trust p = tr \<and> lsdb_grounded E tr (pa_lsdb p) \<and> leases_grounded E tr (pa_leases p) \<and>
     ledger_grounded E dec tr (pa_ledger p) \<and>
     (\<forall>(c, adv)\<in>set (pa_advisories p). advisory_grounded E tr c adv)"

section \<open>Every store stays grounded\<close>

lemma lsdb_grounded_merge:
  assumes "lsdb_grounded E tr db" "ls_merge E hb now db = (db', r)"
  shows "lsdb_grounded E tr db'"
proof (cases "check_heartbeat E hb tr (Some now) = Inr None")
  case True
  then have "node_grounded E tr (ns_did (state_of tr (obj_of hb) now)) (state_of tr (obj_of hb) now)"
    by (auto simp: node_grounded_def)
  with assms True show ?thesis
    by (auto simp: lsdb_grounded_def ls_merge_def Let_def split: option.splits if_splits)
next
  case False
  with assms show ?thesis by (auto simp: lsdb_grounded_def ls_merge_def split: sum.splits option.splits)
qed

lemma leases_grounded_add:
  assumes "leases_grounded E tr lb" "lb_add E v lb = (lb', r)"
  shows "leases_grounded E tr lb'"
proof (cases "check_lease E v tr = Inr None")
  case True
  then have "check_lease E (JObj (obj_of v)) tr = Inr None"
    by (cases v) (auto simp: check_lease_def obj_of_def or_reason_def signed_by_def)
  with assms True show ?thesis
    by (auto simp: leases_grounded_def lb_add_def Let_def dest!: set_dset split: if_splits)
next
  case False
  with assms show ?thesis by (auto simp: leases_grounded_def lb_add_def split: sum.splits option.splits)
qed

lemma leases_grounded_revoke:
  "leases_grounded E tr lb \<Longrightarrow> lb_revoke E v lb = (lb', r) \<Longrightarrow> leases_grounded E tr lb'"
  by (auto simp: leases_grounded_def lb_revoke_def Let_def split: sum.splits option.splits)

lemma latches_ok_latch:
  assumes "latches_ok E dec tr latches" "latch_grounded E dec tr t i"
  shows "latches_ok E dec tr (latch i cleared t latches)"
proof -
  have "\<forall>j\<in>dget latches t {}. latch_grounded E dec tr t j"
    using assms(1) by (auto simp: latches_ok_def dget_def split: option.splits dest!: map_of_SomeD)
  with assms show ?thesis by (auto simp: latches_ok_def latch_def dest!: set_dset)
qed

lemma latches_ok_fold:
  "latches_ok E dec tr latches \<Longrightarrow> (\<And>t. t \<in> set ts \<Longrightarrow> latch_grounded E dec tr t i) \<Longrightarrow>
   latches_ok E dec tr (fold (latch i cleared) ts latches)"
  by (induction ts arbitrary: latches) (auto intro: latches_ok_latch)

lemma latches_ok_unlatch: "latches_ok E dec tr latches \<Longrightarrow> latches_ok E dec tr (unlatch targets ids latches)"
  by (auto simp: latches_ok_def unlatch_def split: if_splits)

lemma ledger_grounded_add:
  assumes "ledger_grounded E dec tr ml" "ml_add E dec v ml = (ml', r)"
  shows "ledger_grounded E dec tr ml'"
proof (cases "\<exists>inc. verify_incident E dec v tr = Inr (Some inc)")
  case True
  then obtain inc where inc: "verify_incident E dec v tr = Inr (Some inc)" by blast
  then have "latches_ok E dec tr (fold (latch (in_id inc) (ml_cleared ml)) (in_targets inc) (ml_latches ml))"
    using assms(1) by (intro latches_ok_fold) (auto simp: ledger_grounded_def latch_grounded_def)
  with assms inc show ?thesis by (auto simp: ledger_grounded_def ml_add_def split: if_splits)
next
  case False
  with assms show ?thesis by (auto simp: ledger_grounded_def ml_add_def split: sum.splits option.splits)
qed

lemma ledger_grounded_reset:
  "ledger_grounded E dec tr ml \<Longrightarrow> ml_reset E v ml = (ml', r) \<Longrightarrow> ledger_grounded E dec tr ml'"
  by (auto simp: ledger_grounded_def ml_reset_def Let_def latches_ok_unlatch split: sum.splits option.splits if_splits)

lemma grounded_of_beliefs: "of_beliefs (grounded E dec tr)"
proof -
  have "grounded E dec tr p = grounded E dec tr q" if "beliefs p = beliefs q" for p q :: "'x participant_scheme"
    using that by (simp add: grounded_def beliefs_def)
  then show ?thesis unfolding of_beliefs_def by blast
qed

interpretation ground: believing "grounded (rt_env R) (rt_dec R) tr :: 'x participant_scheme \<Rightarrow> bool" R for R tr
proof
  let ?I = "grounded (rt_env R) (rt_dec R) tr :: 'x participant_scheme \<Rightarrow> bool"
  show "?I q" if "?I p" "beliefs q = beliefs p" for p q :: "'x participant_scheme"
    by (rule of_beliefsD [OF grounded_of_beliefs that])
  show "keeps ?I (on_lsdb (ls_merge (rt_env R) hb (rt_now R)))" for hb
    by (rule keeps_store(1)) (auto simp: grounded_def intro: lsdb_grounded_merge)
  show "keeps ?I (on_leases (lb_add (rt_env R) v))" for v
    by (rule keeps_store(2)) (auto simp: grounded_def intro: leases_grounded_add)
  show "keeps ?I (on_leases (lb_revoke (rt_env R) v))" for v
    by (rule keeps_store(2)) (auto simp: grounded_def intro: leases_grounded_revoke)
  show "keeps ?I (on_ledger (ml_add (rt_env R) (rt_dec R) v))" for v
    by (rule keeps_store(3)) (auto simp: grounded_def intro: ledger_grounded_add)
  show "keeps ?I (on_ledger (ml_reset (rt_env R) v))" for v
    by (rule keeps_store(3)) (auto simp: grounded_def intro: ledger_grounded_reset)
qed (auto simp: grounded_def advisory_grounded_def dest!: set_dset)

section \<open>Runs of a participant\<close>

text \<open>A participant is driven by the frames it receives, its timer and what is published at it, at any times and over any
  wire; \<open>H\<close> gives the methods its class overrides.\<close>

inductive participant_step :: "env \<Rightarrow> decoder \<Rightarrow> (runtime \<Rightarrow> 'x participant_scheme hooks) \<Rightarrow> 'x participant_scheme \<Rightarrow> 'x participant_scheme \<Rightarrow> bool"
  for E dec H where
  handles: "rt_env R = E \<Longrightarrow> rt_dec R = dec \<Longrightarrow>
    participant_step E dec H p (fst (handle R (H R) (carrier_dispatch R (H R)) src payload p))"
| ticks: "rt_env R = E \<Longrightarrow> rt_dec R = dec \<Longrightarrow> participant_step E dec H p (fst (tick R (H R) p))"
| publishes: "rt_env R = E \<Longrightarrow> rt_dec R = dec \<Longrightarrow> participant_step E dec H p (fst (publish R (H R) obj p))"

lemma participant_step_grounded:
  assumes "participant_step E dec H p q" "\<And>R. rt_env R = E \<Longrightarrow> rt_dec R = dec \<Longrightarrow> hooks_keep (grounded E dec tr) (H R)"
    "grounded E dec tr p"
  shows "grounded E dec tr q"
  using assms(1)
proof (cases rule: participant_step.cases)
  case (handles R src payload)
  note hooks = assms(2) [OF handles(2,3)]
  have "keeps (grounded E dec tr) (handle R (H R) (carrier_dispatch R (H R)) src payload)"
    using ground.handle_keeps [of R tr "H R" "carrier_dispatch R (H R)" src payload]
      ground.carrier_dispatch_keeps [of R tr "H R"] hooks handles by simp
  from keepsD [OF this assms(3)] handles show ?thesis by simp
next
  case (ticks R)
  have "keeps (grounded E dec tr) (tick R (H R))"
    using ground.tick_keeps [of R tr "H R"] assms(2) [OF ticks(2,3)] ticks by simp
  from keepsD [OF this assms(3)] ticks show ?thesis by simp
next
  case (publishes R obj)
  have "keeps (grounded E dec tr) (publish R (H R) obj)"
    using ground.publish_keeps [of R tr "H R" obj] assms(2) [OF publishes(2,3)] publishes by simp
  from keepsD [OF this assms(3)] publishes show ?thesis by simp
qed

lemma participant_init_grounded:
  assumes "participant_init E seed tr roles cfg t = Inr p"
  shows "grounded E dec tr p"
  using assms
  by (auto simp: participant_init_def rbind_Inr_iff grounded_def lsdb_grounded_def leases_grounded_def ledger_grounded_def latches_ok_def
      lsdb_init_def lease_book_init_def ledger_init_def split: if_splits)



end
