(* ===== verification/Carrying.thy ===== *)
theory Carrying
  imports Flooding
begin

text \<open>
  What a carrier does with a leg, from \<^verbatim>\<open>inference/participant.py\<close>: a request is handed on exactly where the signed
  decision says, by the node it names and to the node it names next, and a leg all of whose carriers are
  willing reaches its provider; the answer comes back the way the request went.
\<close>

section \<open>Where a frame is\<close>

definition placed :: "'x participant_scheme \<Rightarrow> leg list \<Rightarrow> nat \<Rightarrow> nat \<Rightarrow> bool" where
  "placed p legs i hop \<longleftrightarrow> i < length legs \<and> hop < length (l_path (legs ! i)) \<and> l_path (legs ! i) ! hop = pa_did p"

lemma leg_at_forward:
  "leg_at p src legs v w True = Some (l, i, hop) \<longleftrightarrow>
     v = JInt (int i) \<and> w = JInt (int hop) \<and> placed p legs i hop \<and> l = legs ! i \<and> 1 \<le> hop \<and> src = l_path l ! (hop - 1)"
  unfolding leg_at_def placed_def by (auto split: json.splits if_splits simp: Let_def)

lemma leg_at_back:
  "leg_at p src legs v w False = Some (l, i, hop) \<longleftrightarrow>
     v = JInt (int i) \<and> w = JInt (int hop) \<and> placed p legs i hop \<and> l = legs ! i \<and> hop + 1 < length (l_path l) \<and> src = l_path l ! (hop + 1)"
  unfolding leg_at_def placed_def by (auto split: json.splits if_splits simp: Let_def)

section \<open>The frames of a leg\<close>

definition req_frame :: "json \<Rightarrow> json \<Rightarrow> nat \<Rightarrow> nat \<Rightarrow> obj" where
  "req_frame request decision i hop =
     [(''k'', JStr ''req''), (''request'', request), (''decision'', decision), (''leg'', JInt (int i)), (''hop'', JInt (int hop))]"

definition resp_frame :: "json \<Rightarrow> json \<Rightarrow> nat \<Rightarrow> nat \<Rightarrow> obj" where
  "resp_frame decision response i hop =
     [(''k'', JStr ''resp''), (''decision'', decision), (''response'', response), (''leg'', JInt (int i)), (''hop'', JInt (int hop))]"

lemma frame_fields [simp]:
  "pget (req_frame request decision i hop) ''request'' = request"
  "pget (req_frame request decision i hop) ''decision'' = decision"
  "pget (req_frame request decision i hop) ''leg'' = JInt (int i)"
  "pget (req_frame request decision i hop) ''hop'' = JInt (int hop)"
  "pget (resp_frame decision response i hop) ''response'' = response"
  "pget (resp_frame decision response i hop) ''decision'' = decision"
  "pget (resp_frame decision response i hop) ''leg'' = JInt (int i)"
  "pget (resp_frame decision response i hop) ''hop'' = JInt (int hop)"
  by (simp_all add: req_frame_def resp_frame_def pget_def)

lemma send_known:
  assumes "kind \<in> set FRAME_KINDS"
  shows "send R d kind fs p =
    (p\<lparr>pa_outbox := pa_outbox p @ [(d, (''k'', JStr kind) # fs)]\<rparr>, Inr (rt_wire R (pa_outbox p) d))"
  using assms by (simp add: send_def frame_def)

section \<open>Handing a request on\<close>

lemma abind_lift: "abind (alift (Inr x)) f = f x"
  by (rule ext) (simp add: abind_def alift_def)

text \<open>The decision and request of a frame have passed their checks, and the frame is at its place.\<close>

definition admits :: "runtime \<Rightarrow> 'x participant_scheme \<Rightarrow> did \<Rightarrow> obj \<Rightarrow> leg list \<Rightarrow> nat \<Rightarrow> nat \<Rightarrow> bool" where
  "admits R p src f legs i hop \<longleftrightarrow>
     check_request (rt_env R) (pget f ''request'') (pa_trust p) (rt_now R) = Inr None \<and>
     check_decision (rt_env R) (pget f ''decision'') (pa_trust p) (Some (obj_of (pget f ''request''))) = Inr None \<and>
     checked_legs (obj_of (pget f ''decision'')) = Inr legs \<and>
     pget f ''leg'' = JInt (int i) \<and> pget f ''hop'' = JInt (int hop) \<and> placed p legs i hop \<and> 1 \<le> hop \<and>
     src = l_path (legs ! i) ! (hop - 1)"

lemma admits_unique: "admits R p src f legs i hop \<Longrightarrow> admits R p src f legs' i' hop' \<Longrightarrow> legs = legs' \<and> i = i' \<and> hop = hop'"
  by (auto simp: admits_def)

lemma on_req_drops:
  assumes "\<nexists>legs i hop. admits R p src f legs i hop"
  shows "fst (on_req R H src f p) = p"
proof -
  have "leg_at p src legs (pget f ''leg'') (pget f ''hop'') True = None"
    if "check_request (rt_env R) (pget f ''request'') (pa_trust p) (rt_now R) = Inr None"
      "check_decision (rt_env R) (pget f ''decision'') (pa_trust p) (Some (obj_of (pget f ''request''))) = Inr None"
      "checked_legs (obj_of (pget f ''decision'')) = Inr legs" for legs
  proof (rule ccontr)
    assume "leg_at p src legs (pget f ''leg'') (pget f ''hop'') True \<noteq> None"
    then obtain l i hop where "leg_at p src legs (pget f ''leg'') (pget f ''hop'') True = Some (l, i, hop)" by auto
    with that assms show False by (auto simp: leg_at_forward admits_def)
  qed
  then show ?thesis
    unfolding on_req_def aget_def Let_def abind_def alift_def aret_def
    by (auto split: sum.split option.split)
qed

lemma on_req_admitted:
  assumes "admits R p src f legs i hop"
  shows "on_req R H src f p =
    (let path = l_path (legs ! i); request = pget f ''request''; decision = pget f ''decision''; nxt = path ! (hop + 1) in
     if hop = length path - 1 then hk_serve H (obj_of request) (obj_of decision) i (rt_now R) p
     else case hk_may_carry H (obj_of decision) (rt_now R) p of
            Some w \<Rightarrow> nack R H (obj_of decision) legs i hop nxt w p
          | None \<Rightarrow>
              if excludes_node (pa_ledger p) nxt then nack R H (obj_of decision) legs i hop nxt ''the next hop is latched'' p
              else abind (send R nxt ''req'' [(''request'', request), (''decision'', decision), (''leg'', JInt (int i)), (''hop'', JInt (int hop + 1))])
                     (\<lambda>sent. awhen (\<not> sent) (nack R H (obj_of decision) legs i hop nxt ''the next hop is unreachable'')) p)"
proof -
  have at: "leg_at p src legs (pget f ''leg'') (pget f ''hop'') True = Some (legs ! i, i, hop)"
    using assms by (simp add: leg_at_forward admits_def)
  note a = assms [unfolded admits_def, THEN conjunct1] assms [unfolded admits_def, THEN conjunct2, THEN conjunct1]
    assms [unfolded admits_def, THEN conjunct2, THEN conjunct2, THEN conjunct1]
    assms [unfolded admits_def, THEN conjunct2, THEN conjunct2, THEN conjunct2, THEN conjunct1]
  show ?thesis
    unfolding on_req_def aget_def Let_def
    by (simp add: a(1-3) abind_lift at) (simp add: a(4) split: option.split)
qed

text \<open>The frames a call adds to the outbox.\<close>

definition new_frames :: "'x participant_scheme \<Rightarrow> 'x participant_scheme \<Rightarrow> outbox" where
  "new_frames p q = drop (length (pa_outbox p)) (pa_outbox q)"

lemma new_frames_send [simp]:
  "new_frames p p = []" "new_frames p (p\<lparr>pa_outbox := pa_outbox p @ out\<rparr>) = out"
  by (simp_all add: new_frames_def)

lemma nack_sends:
  assumes "hop \<noteq> 0"
  shows "\<exists>fs. nack R H decision legs i hop unreachable reason p =
    (p\<lparr>pa_outbox := pa_outbox p @ [(l_path (legs ! i) ! (hop - 1), (''k'', JStr ''nack'') # fs)]\<rparr>, Inr ())"
  using assms
  by (simp add: nack_def aget_def aseq_def abind_def aret_def send_known FRAME_KINDS_def) (rule exI, rule refl)

definition serves_quietly :: "'x participant_scheme hooks \<Rightarrow> bool" where
  "serves_quietly H \<longleftrightarrow>
     (\<forall>request decision i now p. \<forall>(d, g)\<in>set (new_frames p (fst (hk_serve H request decision i now p))). pget g ''k'' \<noteq> JStr ''req'')"

lemma kind_Cons: "pget ((''k'', JStr kind) # fs) ''k'' = JStr kind"
  by (simp add: pget_def)

lemma on_req_forwards:
  assumes "admits R p src f legs i hop" "serves_quietly H"
    and "(d, g) \<in> set (new_frames p (fst (on_req R H src f p)))" "pget g ''k'' = JStr ''req''"
  shows "hop + 1 < length (l_path (legs ! i)) \<and> hk_may_carry H (obj_of (pget f ''decision'')) (rt_now R) p = None \<and>
    \<not> excludes_node (pa_ledger p) d \<and> d = l_path (legs ! i) ! (hop + 1) \<and>
    g = req_frame (pget f ''request'') (pget f ''decision'') i (hop + 1)"
proof -
  let ?path = "l_path (legs ! i)"
  let ?nxt = "?path ! (hop + 1)"
  let ?dec = "obj_of (pget f ''decision'')"
  have place: "hop < length ?path" "hop \<noteq> 0" using assms(1) by (auto simp: admits_def placed_def)
  have silent: "(d, g) \<notin> set (new_frames p (fst (nack R H ?dec legs i hop ?nxt w p)))" for w
  proof -
    obtain fs where "nack R H ?dec legs i hop ?nxt w p =
        (p\<lparr>pa_outbox := pa_outbox p @ [(?path ! (hop - 1), (''k'', JStr ''nack'') # fs)]\<rparr>, Inr ())"
      using nack_sends [OF place(2), of R H ?dec legs i ?nxt w p] by blast
    then show ?thesis using assms(4) by (auto simp: kind_Cons)
  qed
  note step = on_req_admitted [OF assms(1), of H, unfolded Let_def]
  have last: "hop \<noteq> length ?path - 1"
  proof
    assume "hop = length ?path - 1"
    then have "on_req R H src f p = hk_serve H (obj_of (pget f ''request'')) ?dec i (rt_now R) p" by (simp add: step)
    with assms(2-4) show False by (fastforce simp: serves_quietly_def)
  qed
  have carry: "hk_may_carry H ?dec (rt_now R) p = None"
  proof (rule ccontr)
    assume "hk_may_carry H ?dec (rt_now R) p \<noteq> None"
    then obtain w where "hk_may_carry H ?dec (rt_now R) p = Some w" by auto
    with last step silent assms(3) show False by simp
  qed
  have good: "\<not> excludes_node (pa_ledger p) ?nxt"
  proof
    assume "excludes_node (pa_ledger p) ?nxt"
    with last step silent carry assms(3) show False by simp
  qed
  let ?p = "p\<lparr>pa_outbox := pa_outbox p @ [(?nxt, req_frame (pget f ''request'') (pget f ''decision'') i (hop + 1))]\<rparr>"
  have "on_req R H src f p = awhen (\<not> rt_wire R (pa_outbox p) ?nxt) (nack R H ?dec legs i hop ?nxt ''the next hop is unreachable'') ?p"
    using last carry good by (simp add: step abind_def send_known FRAME_KINDS_def req_frame_def add.commute [of 1])
  moreover obtain fs where "nack R H ?dec legs i hop ?nxt ''the next hop is unreachable'' ?p =
      (?p\<lparr>pa_outbox := pa_outbox ?p @ [(?path ! (hop - 1), (''k'', JStr ''nack'') # fs)]\<rparr>, Inr ())"
    using nack_sends [OF place(2), of R H ?dec legs i ?nxt _ ?p] by blast
  ultimately have "(d, g) \<in> {(?nxt, req_frame (pget f ''request'') (pget f ''decision'') i (hop + 1)), (?path ! (hop - 1), (''k'', JStr ''nack'') # fs)}"
    using assms(3) by (auto simp: awhen_def aret_def new_frames_def split: if_splits)
  with assms(4) have "d = ?nxt \<and> g = req_frame (pget f ''request'') (pget f ''decision'') i (hop + 1)" by (auto simp: kind_Cons)
  with last carry good place show ?thesis by auto
qed


section \<open>The way out and the way back\<close>

lemma on_resp_admitted:
  assumes "check_decision (rt_env R) (pget f ''decision'') (pa_trust p) None = Inr None"
    "check_response (rt_env R) (pget f ''response'') (pa_trust p) None (Some (obj_of (pget f ''decision''))) = Inr None"
    "checked_legs (obj_of (pget f ''decision'')) = Inr legs" "pget f ''leg'' = JInt (int i)" "pget f ''hop'' = JInt (int hop)"
    "placed p legs i hop" "hop + 1 < length (l_path (legs ! i))" "src = l_path (legs ! i) ! (hop + 1)"
    "pget (obj_of (pget f ''response'')) ''provider'' = JStr (l_provider (legs ! i))"
  shows "on_resp R H src f p =
    (if hop = 0 then hk_collect H (obj_of (pget f ''decision'')) i (obj_of (pget f ''response'')) p
     else aseq (send R (l_path (legs ! i) ! (hop - 1)) ''resp''
       [(''decision'', pget f ''decision''), (''response'', pget f ''response''), (''leg'', JInt (int i)), (''hop'', JInt (int hop - 1))]) (aret ()) p)"
proof -
  have at: "leg_at p src legs (pget f ''leg'') (pget f ''hop'') False = Some (legs ! i, i, hop)"
    using assms(4-8) by (simp add: leg_at_back)
  show ?thesis
    unfolding on_resp_def aget_def Let_def
    by (simp add: assms(1-3) abind_lift at) (simp add: assms(4,9))
qed

text \<open>A frame followed through the mesh: each node it reaches handles it, and goes on while that makes one frame.\<close>

fun follow ::
  "nat \<Rightarrow> (did \<Rightarrow> did \<Rightarrow> obj \<Rightarrow> 'x participant_scheme \<Rightarrow> 'x participant_scheme) \<Rightarrow> (did \<Rightarrow> 'x participant_scheme) \<Rightarrow>
   did \<Rightarrow> did \<Rightarrow> obj \<Rightarrow> did \<times> did \<times> obj" where
  "follow 0 step nodes src dst f = (src, dst, f)"
| "follow (Suc n) step nodes src dst f =
     (case new_frames (nodes dst) (step dst src f (nodes dst)) of
        [(d, g)] \<Rightarrow> follow n step nodes dst d g
      | _ \<Rightarrow> (src, dst, f))"

text \<open>Every node of a path knows who it is and what it may trust, and hands the leg on.\<close>

definition sound_leg :: "env \<Rightarrow> (did \<Rightarrow> runtime) \<Rightarrow> (did \<Rightarrow> 'x participant_scheme) \<Rightarrow> obj \<Rightarrow> obj \<Rightarrow> obj \<Rightarrow> leg list \<Rightarrow> nat \<Rightarrow> bool" where
  "sound_leg E Rs nodes request decision response legs i \<longleftrightarrow>
     i < length legs \<and> 2 \<le> length (l_path (legs ! i)) \<and> checked_legs decision = Inr legs \<and>
     pget response ''provider'' = JStr (l_provider (legs ! i)) \<and>
     (\<forall>d\<in>set (l_path (legs ! i)). rt_env (Rs d) = E \<and> pa_did (nodes d) = d \<and>
        check_request E (JObj request) (pa_trust (nodes d)) (rt_now (Rs d)) = Inr None \<and>
        check_decision E (JObj decision) (pa_trust (nodes d)) (Some request) = Inr None \<and>
        check_response E (JObj response) (pa_trust (nodes d)) None (Some decision) = Inr None)"

definition willing :: "(did \<Rightarrow> runtime) \<Rightarrow> (did \<Rightarrow> 'x participant_scheme) \<Rightarrow> 'x participant_scheme hooks \<Rightarrow> obj \<Rightarrow> did list \<Rightarrow> bool" where
  "willing Rs nodes H decision path \<longleftrightarrow>
     (\<forall>h. 1 \<le> h \<longrightarrow> h + 1 < length path \<longrightarrow>
        hk_may_carry H decision (rt_now (Rs (path ! h))) (nodes (path ! h)) = None \<and>
        \<not> excludes_node (pa_ledger (nodes (path ! h))) (path ! (h + 1)) \<and>
        rt_wire (Rs (path ! h)) (pa_outbox (nodes (path ! h))) (path ! (h + 1)))"

lemma check_decision_any: "check_decision E v tr (Some request) = Inr None \<Longrightarrow> check_decision E v tr None = Inr None"
  by (simp add: check_decision_def Let_def)

lemma check_response_any: "check_response E v tr (Some request) d = Inr None \<Longrightarrow> check_response E v tr None d = Inr None"
  by (auto simp: check_response_def Let_def split: if_splits)

lemma sound_admits:
  assumes "sound_leg E Rs nodes request decision response legs i" "1 \<le> h" "h < length (l_path (legs ! i))"
  shows "admits (Rs (l_path (legs ! i) ! h)) (nodes (l_path (legs ! i) ! h)) (l_path (legs ! i) ! (h - 1))
    (req_frame (JObj request) (JObj decision) i h) legs i h"
proof -
  have "l_path (legs ! i) ! h \<in> set (l_path (legs ! i))" using assms(3) by simp
  with assms show ?thesis by (auto simp: sound_leg_def admits_def placed_def obj_of_def)
qed

lemma request_hop:
  assumes "sound_leg E Rs nodes request decision response legs i" "willing Rs nodes H decision (l_path (legs ! i))"
    and "1 \<le> h" "h + 1 < length (l_path (legs ! i))"
  shows "new_frames (nodes (l_path (legs ! i) ! h))
      (fst (on_req (Rs (l_path (legs ! i) ! h)) H (l_path (legs ! i) ! (h - 1)) (req_frame (JObj request) (JObj decision) i h) (nodes (l_path (legs ! i) ! h)))) =
    [(l_path (legs ! i) ! (h + 1), req_frame (JObj request) (JObj decision) i (h + 1))]"
proof -
  have "h < length (l_path (legs ! i))" using assms(4) by simp
  note step = on_req_admitted [OF sound_admits [OF assms(1,3) this], of H, unfolded Let_def]
  have "hk_may_carry H decision (rt_now (Rs (l_path (legs ! i) ! h))) (nodes (l_path (legs ! i) ! h)) = None"
    "\<not> excludes_node (pa_ledger (nodes (l_path (legs ! i) ! h))) (l_path (legs ! i) ! (h + 1))"
    "rt_wire (Rs (l_path (legs ! i) ! h)) (pa_outbox (nodes (l_path (legs ! i) ! h))) (l_path (legs ! i) ! (h + 1))"
    using assms(2-4) by (auto simp: willing_def)
  moreover have "h \<noteq> length (l_path (legs ! i)) - 1" using assms(4) by simp
  ultimately show ?thesis
    unfolding step by (simp add: obj_of_def abind_def send_known FRAME_KINDS_def awhen_def aret_def) (simp add: req_frame_def)
qed

lemma response_hop:
  assumes "sound_leg E Rs nodes request decision response legs i" "h + 1 < length (l_path (legs ! i))"
  shows "on_resp (Rs (l_path (legs ! i) ! h)) H (l_path (legs ! i) ! (h + 1)) (resp_frame (JObj decision) (JObj response) i h) (nodes (l_path (legs ! i) ! h)) =
    (if h = 0 then hk_collect H decision i response (nodes (l_path (legs ! i) ! h))
     else aseq (send (Rs (l_path (legs ! i) ! h)) (l_path (legs ! i) ! (h - 1)) ''resp''
       [(''decision'', JObj decision), (''response'', JObj response), (''leg'', JInt (int i)), (''hop'', JInt (int h - 1))]) (aret ())
       (nodes (l_path (legs ! i) ! h)))"
proof -
  have "l_path (legs ! i) ! h \<in> set (l_path (legs ! i))" using assms(2) by simp
  with assms have given: "check_decision (rt_env (Rs (l_path (legs ! i) ! h))) (JObj decision) (pa_trust (nodes (l_path (legs ! i) ! h))) (Some request) = Inr None"
    "check_response (rt_env (Rs (l_path (legs ! i) ! h))) (JObj response) (pa_trust (nodes (l_path (legs ! i) ! h))) None (Some decision) = Inr None"
    "checked_legs decision = Inr legs" "placed (nodes (l_path (legs ! i) ! h)) legs i h"
    "pget response ''provider'' = JStr (l_provider (legs ! i))"
    by (auto simp: sound_leg_def placed_def)
  with assms(2) check_decision_any [OF given(1)] show ?thesis
    by (subst on_resp_admitted [of _ _ _ legs i h]) (simp_all add: obj_of_def)
qed

lemma follow_requests:
  assumes "sound_leg E Rs nodes request decision response legs i" "willing Rs nodes H decision (l_path (legs ! i))"
  shows "1 \<le> h \<Longrightarrow> h + n < length (l_path (legs ! i)) \<Longrightarrow>
    follow n (\<lambda>d src f p. fst (on_req (Rs d) H src f p)) nodes (l_path (legs ! i) ! (h - 1)) (l_path (legs ! i) ! h)
        (req_frame (JObj request) (JObj decision) i h) =
      (l_path (legs ! i) ! (h + n - 1), l_path (legs ! i) ! (h + n), req_frame (JObj request) (JObj decision) i (h + n))"
proof (induction n arbitrary: h)
  case (Suc n)
  then have "1 \<le> h" "h + 1 < length (l_path (legs ! i))" by simp_all
  note hop = request_hop [OF assms this]
  from Suc.IH [of "h + 1"] Suc.prems show ?case by (simp add: hop [simplified])
qed simp

lemma follow_responses:
  assumes "sound_leg E Rs nodes request decision response legs i"
  shows "h + n + 1 < length (l_path (legs ! i)) \<Longrightarrow>
    follow n (\<lambda>d src f p. fst (on_resp (Rs d) H src f p)) nodes (l_path (legs ! i) ! (h + n + 1)) (l_path (legs ! i) ! (h + n))
        (resp_frame (JObj decision) (JObj response) i (h + n)) =
      (l_path (legs ! i) ! (h + 1), l_path (legs ! i) ! h, resp_frame (JObj decision) (JObj response) i h)"
proof (induction n)
  case (Suc n)
  let ?path = "l_path (legs ! i)"
  have "h + Suc n + 1 < length ?path" using Suc.prems by simp
  note resp = response_hop [OF assms this, of H]
  have "new_frames (nodes (?path ! (h + Suc n)))
      (fst (on_resp (Rs (?path ! (h + Suc n))) H (?path ! (h + Suc n + 1)) (resp_frame (JObj decision) (JObj response) i (h + Suc n))
        (nodes (?path ! (h + Suc n))))) = [(?path ! (h + n), resp_frame (JObj decision) (JObj response) i (h + n))]"
    unfolding resp by (simp add: aseq_def abind_def aret_def send_known FRAME_KINDS_def) (simp add: resp_frame_def)
  with Suc.IH Suc.prems show ?case by simp
qed simp

text \<open>C35 A leg goes out and comes back: when its request, decision and answer are genuine to every node on the signed path and the nodes
  in between are willing, the request frame travels from hop to hop to the provider, which serves exactly that request and decision,
  and the answer travels the same path back to the decider, which collects exactly that answer for that leg.\<close>

theorem leg_round_trip:
  assumes "sound_leg E Rs nodes request decision response legs i" "willing Rs nodes H decision (l_path (legs ! i))"
    and "path = l_path (legs ! i)" "n = length path - 2"
  shows "follow n (\<lambda>d src f p. fst (on_req (Rs d) H src f p)) nodes (path ! 0) (path ! 1) (req_frame (JObj request) (JObj decision) i 1) =
      (path ! n, last path, req_frame (JObj request) (JObj decision) i (n + 1)) \<and>
    on_req (Rs (last path)) H (path ! n) (req_frame (JObj request) (JObj decision) i (n + 1)) (nodes (last path)) =
      hk_serve H request decision i (rt_now (Rs (last path))) (nodes (last path)) \<and>
    follow n (\<lambda>d src f p. fst (on_resp (Rs d) H src f p)) nodes (last path) (path ! n) (resp_frame (JObj decision) (JObj response) i n) =
      (path ! 1, path ! 0, resp_frame (JObj decision) (JObj response) i 0) \<and>
    on_resp (Rs (path ! 0)) H (path ! 1) (resp_frame (JObj decision) (JObj response) i 0) (nodes (path ! 0)) =
      hk_collect H decision i response (nodes (path ! 0))"
proof -
  have len: "2 \<le> length path" using assms(1,3) by (simp add: sound_leg_def)
  then have n: "n + 1 = length path - 1" "n + 1 < length path" using assms(4) by simp_all
  moreover have "path \<noteq> []" using len by auto
  ultimately have last: "last path = path ! (n + 1)" using last_conv_nth [of path] by simp
  have "1 + n < length (l_path (legs ! i))" using n(2) assms(3) by simp
  from follow_requests [OF assms(1,2) le_refl this]
  have out: "follow n (\<lambda>d src f p. fst (on_req (Rs d) H src f p)) nodes (path ! 0) (path ! 1) (req_frame (JObj request) (JObj decision) i 1) =
      (path ! n, last path, req_frame (JObj request) (JObj decision) i (n + 1))"
    by (simp add: assms(3) last [unfolded assms(3)])
  have "1 \<le> n + 1" "n + 1 < length (l_path (legs ! i))" using n(2) assms(3) by simp_all
  note serve = on_req_admitted [OF sound_admits [OF assms(1) this], of H, unfolded Let_def, folded assms(3)]
  have "on_req (Rs (last path)) H (path ! n) (req_frame (JObj request) (JObj decision) i (n + 1)) (nodes (last path)) =
      hk_serve H request decision i (rt_now (Rs (last path))) (nodes (last path))"
    using serve n(1) by (simp add: last obj_of_def)
  moreover have "0 + n + 1 < length (l_path (legs ! i))" using n(2) assms(3) by simp
  from follow_responses [OF assms(1) this, of H]
  have "follow n (\<lambda>d src f p. fst (on_resp (Rs d) H src f p)) nodes (last path) (path ! n) (resp_frame (JObj decision) (JObj response) i n) =
      (path ! 1, path ! 0, resp_frame (JObj decision) (JObj response) i 0)"
    by (simp add: assms(3) last [unfolded assms(3)])
  moreover have "0 + 1 < length (l_path (legs ! i))" using len assms(3) by simp
  from response_hop [OF assms(1) this, of H]
  have "on_resp (Rs (path ! 0)) H (path ! 1) (resp_frame (JObj decision) (JObj response) i 0) (nodes (path ! 0)) =
      hk_collect H decision i response (nodes (path ! 0))"
    by (simp add: assms(3))
  ultimately show ?thesis using out by blast
qed

section \<open>A concrete leg\<close>

definition ref_relay_leg :: leg where
  "ref_relay_leg = \<lparr>l_provider = ref_did (CHR ''n''), l_model = ''gpt'',
     l_path = [ref_did (CHR ''d''), ref_did (CHR ''f''), ref_did (CHR ''n'')], l_via = VIA_MESH\<rparr>"

definition ref_runtime :: runtime where
  "ref_runtime = \<lparr>rt_env = ref_env32, rt_dec = (\<lambda>_. None), rt_wire = (\<lambda>_ _. True), rt_now = Fin 121\<rparr>"

lemma ref_relay:
  obtains request decision response where
    "sound_leg ref_env32 (\<lambda>_. ref_runtime) ref_carrier request decision response [ref_relay_leg] 0"
    "willing (\<lambda>_. ref_runtime) ref_carrier base_hooks decision (l_path ref_relay_leg)"
proof -
  obtain request where r: "request_evidence_ok ref_env32 (JObj request) ref_roots = Inr True"
    "pget request ''issued_at'' = JFloat (Fin 120)" "pget request ''expires_at'' = JFloat (Fin 180)"
    by (rule ref_request_made [of 1]) auto
  have g: "is_model (JStr ''gpt'')" by code_simp
  have coord: "\<not> tr_coordinators ref_roots (ref_did (CHR ''f''))" by (simp add: ref_roots_def)
  have "leg_shape ref_roots (JStr (ref_did (CHR ''d''))) (to_wire ref_relay_leg) [] = Inr (ref_did (CHR ''n''))"
    using g coord by (simp add: leg_shape_def to_wire_def ref_relay_leg_def pget_def is_did_def MAX_HOPS_def)
  then obtain decision where d: "check_decision ref_env32 (JObj decision) ref_roots (Some request) = Inr None"
    "decision_fields decision = Some (''normal'', [ref_relay_leg])"
    "pget decision ''request_hash'' = JStr (digest ref_env32 (JObj request))"
    by (rule ref_decision_for) (auto simp: ref_roots_def)
  obtain lease where l: "ref_lease = Inr lease" by (rule ref_lease_made)
  obtain response where a: "check_response ref_env32 (JObj response) ref_roots (Some request) (Some decision) = Inr None"
    "pget response ''provider'' = JStr (ref_did (CHR ''n''))"
    by (rule ref_response_made [OF l d(2) _ _ d(3)]) (auto simp: ref_relay_leg_def)
  have "check_request ref_env32 (JObj request) ref_roots (Fin 121) = Inr None"
    using r by (auto simp: request_evidence_ok_def check_request_def rbind_Inr_iff obj_of_def MAX_SKEW_def numv_def)
  then have "sound_leg ref_env32 (\<lambda>_. ref_runtime) ref_carrier request decision response [ref_relay_leg] 0"
    using d a check_response_any [OF a(1)] by (auto simp: sound_leg_def ref_carrier_def ref_runtime_def checked_legs_def ref_relay_leg_def)
  moreover have unlocked: "\<not> lockdown (ledger_init ref_roots)" by (simp add: lockdown_def ledger_init_def)
  have "willing (\<lambda>_. ref_runtime) ref_carrier base_hooks decision (l_path ref_relay_leg)"
    using unlocked by (auto simp: willing_def ref_runtime_def ref_carrier_def base_hooks_def may_carry_def)
  ultimately show thesis by (rule that)
qed


theorem leg_round_trip_witness:
  "\<exists>request decision response.
     follow 1 (\<lambda>d src f p. fst (on_req ref_runtime base_hooks src f p)) ref_carrier (ref_did (CHR ''d'')) (ref_did (CHR ''f''))
         (req_frame (JObj request) (JObj decision) 0 1) =
       (ref_did (CHR ''f''), ref_did (CHR ''n''), req_frame (JObj request) (JObj decision) 0 2) \<and>
     follow 1 (\<lambda>d src f p. fst (on_resp ref_runtime base_hooks src f p)) ref_carrier (ref_did (CHR ''n'')) (ref_did (CHR ''f''))
         (resp_frame (JObj decision) (JObj response) 0 1) =
       (ref_did (CHR ''f''), ref_did (CHR ''d''), resp_frame (JObj decision) (JObj response) 0 0)"
proof -
  obtain request decision response where s:
    "sound_leg ref_env32 (\<lambda>_. ref_runtime) ref_carrier request decision response [ref_relay_leg] 0"
    "willing (\<lambda>_. ref_runtime) ref_carrier base_hooks decision (l_path ref_relay_leg)"
    by (rule ref_relay)
  from s(2) have w: "willing (\<lambda>_. ref_runtime) ref_carrier base_hooks decision (l_path ([ref_relay_leg] ! 0))" by simp
  from leg_round_trip [OF s(1) w refl refl] show ?thesis by (auto simp: ref_relay_leg_def numeral_2_eq_2 intro!: exI)
qed

end
