(* ===== verification/Deciding.thy ===== *)
theory Deciding
  imports Node Beliefs Carrying
begin

text \<open>
  What the handlers of a mesh node keep, the end of the decide and settle recursion of \<^verbatim>\<open>inference/node.py\<close>, and what a
  node's own decisions promise.
\<close>

section \<open>Predicates a mesh node keeps\<close>

lemma more_fields:
  assumes "participant.more q = participant.more (p :: mesh_node)"
  shows "mn_pending q = mn_pending p" "mn_served q = mn_served p" "mn_held q = mn_held p" "mn_safety q = mn_safety p"
    "mn_finished q = mn_finished p"
  using assms by (cases p; cases q; simp)+

text \<open>What no operation but signing changes of a filed request; attempts only grow.\<close>

definition later :: "pending \<Rightarrow> pending \<Rightarrow> bool" where
  "later p q \<longleftrightarrow>
     pe_request q = pe_request p \<and> pe_rhash q = pe_rhash p \<and> pe_user q = pe_user p \<and> pe_quorum q = pe_quorum p \<and>
     pe_lockdown q = pe_lockdown p \<and> pe_decision q = pe_decision p \<and> pe_legs q = pe_legs p \<and> pe_attempt p \<le> pe_attempt q"

definition signed :: "runtime \<Rightarrow> mesh_node \<Rightarrow> leg list \<Rightarrow> obj \<Rightarrow> pending \<Rightarrow> pending" where
  "signed R s legs d p = p
     \<lparr>pe_decision := Some d, pe_legs := legs, pe_decisions := List.insert (digest (rt_env R) (JObj d)) (pe_decisions p),
      pe_open := [0..<length legs], pe_deadline := fadd (rt_now R) (cf_leg_timeout (pa_config s))\<rparr>"

lemma sign_and_send_signed:
  assumes "map_of (mn_pending s) rh = Some p" "pe_rhash p = rh"
    "make_decision (rt_env R) (pa_identity s) (pe_request p) legs (decision_mode R s p) (pa_epoch s) (pe_attempt p) (rt_now R) = Inr d"
  shows "sign_and_send R again p legs s = aseq (pa_note ''decide'') (send_legs R again p d (List.enumerate 0 legs))
    (s\<lparr>mn_pending := dset rh (signed R s legs d p) (mn_pending s)\<rparr>)"
  using assms by (simp add: sign_and_send_def aget_def abind_def alift_def aseq_def on_pending_def amod_def signed_def)

text \<open>Every request is filed under the digest of what its user signed.\<close>

definition filed :: "env \<Rightarrow> mesh_node \<Rightarrow> bool" where
  "filed E s \<longleftrightarrow> (\<forall>rh p. map_of (mn_pending s) rh = Some p \<longrightarrow> pe_rhash p = rh \<and> digest E (JObj (pe_request p)) = rh)"

lemma keeps_pending_links: "keeps (\<lambda>s. mn_pending s = P) (connect d)"
  by (auto simp: keeps_def connect_def)

lemma choose_legs_pending:
  assumes "choose_legs R W p s = (s1, r)"
  shows "mn_pending s1 = mn_pending s"
proof -
  let ?I = "\<lambda>t. mn_pending t = mn_pending s"
  have "keeps ?I (lockdown_legs R (pe_request p))"
    unfolding lockdown_legs_def by (intro keeps_rules keeps_pending_links)
  then have "keeps ?I (choose_legs R W p)"
    unfolding choose_legs_def by (intro keeps_rules) (auto intro!: keeps_rules split: sum.split py_error.split)
  from keeps_run [OF this _ assms] show ?thesis by simp
qed

locale node_keeping = believing I R for I :: "mesh_node \<Rightarrow> bool" and R :: runtime +
  assumes filed: "\<And>s. I s \<Longrightarrow> filed (rt_env R) s"
    and pops: "\<And>s rh. I s \<Longrightarrow> I (s\<lparr>mn_pending := dpop rh (mn_pending s)\<rparr>)"
    and touches: "\<And>s rh p q. I s \<Longrightarrow> map_of (mn_pending s) rh = Some p \<Longrightarrow> later p q \<Longrightarrow> I (s\<lparr>mn_pending := dset rh q (mn_pending s)\<rparr>)"
    and signs: "\<And>s rh p legs d. I s \<Longrightarrow> map_of (mn_pending s) rh = Some p \<Longrightarrow> self_check R s p legs = Inr [] \<Longrightarrow>
      make_decision (rt_env R) (pa_identity s) (pe_request p) legs (decision_mode R s p) (pa_epoch s) (pe_attempt p) (rt_now R) = Inr d \<Longrightarrow>
      I (s\<lparr>mn_pending := dset rh (signed R s legs d p) (mn_pending s)\<rparr>)"
    and rest: "\<And>s. I s \<Longrightarrow> I (s\<lparr>mn_finished := a\<rparr>)" "\<And>s. I s \<Longrightarrow> I (s\<lparr>mn_safety := b\<rparr>)" "\<And>s. I s \<Longrightarrow> I (s\<lparr>mn_suspicion := c\<rparr>)"
      "\<And>s. I s \<Longrightarrow> I (s\<lparr>mn_breaker := e\<rparr>)" "\<And>s. I s \<Longrightarrow> I (s\<lparr>mn_served := g\<rparr>)"
    and drops: "\<And>s hs. I s \<Longrightarrow> set hs \<subseteq> set (mn_held s) \<Longrightarrow> I (s\<lparr>mn_held := hs\<rparr>)"
    and holds: "\<And>s lease inner h. I s \<Longrightarrow> open_inner (rt_env R) lease inner = Some h \<Longrightarrow> I (s\<lparr>mn_held := dset lid h (mn_held s)\<rparr>)"
begin

lemma pending_keeps [keeps_rules]: "(\<And>p. later p (f p)) \<Longrightarrow> keeps I (on_pending rh f)"
  unfolding on_pending_def by (rule keeps_amod) (auto intro: touches split: option.split)

lemma fields_keep [keeps_rules]:
  "keeps I (pop_pending rh)" "keeps I (breaker_failure S d)" "keeps I (breaker_success d)" "keeps I (judge S p adv)"
  unfolding pop_pending_def breaker_failure_def breaker_success_def judge_def on_breaker_def
  by (auto simp: keeps_def amod_def aseq_def abind_def aret_def intro: pops rest split: prod.split sum.split)

lemma mesh_finish_keeps [keeps_rules]: "keeps I (mesh_finish S user rh kind fs)"
  unfolding mesh_finish_def Let_def by (intro keeps_rules) (auto intro: rest keeps_amod)

lemma settle_refused_keeps [keeps_rules]: "keeps I (settle_refused S p reason)"
  unfolding settle_refused_def by (intro keeps_rules)

lemma report_fault_keeps [keeps_rules]: "keeps I (report_fault S d reason rh)"
  unfolding report_fault_def by (intro keeps_rules)

lemma node_overrides_keep [keeps_rules]:
  "keeps I (node_incident S inc)" "keeps I (node_advisory adv)" "keeps I (node_lease_revoked ids)"
  unfolding node_incident_def node_advisory_def node_lease_revoked_def Let_def
  by (intro keeps_rules; auto intro: keeps_amod drops simp: AList.delete_eq)+

lemma node_core_keep: "absorb_hooks_keep I (node_core S)" "hooks_keep I (node_core S)"
  by (auto simp: absorb_hooks_keep_def hooks_keep_def node_core_def base_hooks_def intro: keeps_rules)

lemma report_incident_keeps [keeps_rules]: "keeps I (report_incident R kind ev)"
  unfolding report_incident_def by (intro keeps_rules publish_keeps node_core_keep)

lemma publish_evidence_keeps [keeps_rules]: "keeps I (publish_evidence R evs)"
  unfolding publish_evidence_def by (intro keeps_rules)

lemma decision_mutiny_keeps [keeps_rules]: "keeps I (decision_mutiny R p legs problems)"
  unfolding decision_mutiny_def Let_def by (intro keeps_rules)

lemma finish_result_keeps [keeps_rules]: "keeps I (finish_result S p)"
  unfolding finish_result_def by (intro keeps_rules)

lemma charge_rejected_keeps [keeps_rules]: "keeps I (charge_rejected S p rejected)"
  unfolding charge_rejected_def by (intro keeps_rules) (simp add: later_def)

lemma leg_failed_keeps:
  assumes "\<And>rh. keeps I (again rh)"
  shows "keeps I (leg_failed_with S again d i unreachable reason)"
  unfolding leg_failed_with_def by (intro keeps_rules assms) (simp add: later_def)

lemma send_legs_keeps:
  assumes "\<And>rh. keeps I (again rh)"
  shows "keeps I (send_legs S again p d legs)"
  by (induction legs) (auto intro!: keeps_rules leg_failed_keeps assms)

text \<open>The legs are chosen without touching the requests.\<close>

lemma choose_legs_keeps [keeps_rules]: "keeps I (choose_legs S W p)"
proof -
  have "keeps I (lockdown_legs S (pe_request p))"
    unfolding lockdown_legs_def by (intro keeps_rules)
  then show ?thesis
    unfolding choose_legs_def by (intro keeps_rules) (auto intro!: keeps_rules split: sum.split py_error.split)
qed

lemma sign_and_send_keeps:
  assumes again: "\<And>rh. keeps I (again rh)" and s: "I s" "map_of (mn_pending s) rh = Some p" "self_check R s p legs = Inr []"
  shows "I (fst (sign_and_send R again p legs s))"
proof (cases "make_decision (rt_env R) (pa_identity s) (pe_request p) legs (decision_mode R s p) (pa_epoch s) (pe_attempt p) (rt_now R)")
  case (Inl e)
  with s(1) show ?thesis by (simp add: sign_and_send_def aget_def abind_def alift_def)
next
  case (Inr d)
  have rh: "pe_rhash p = rh" using filed [OF s(1)] s(2) by (simp add: filed_def)
  let ?t = "s\<lparr>mn_pending := dset rh (signed R s legs d p) (mn_pending s)\<rparr>"
  have "I ?t" by (rule signs [OF s Inr])
  moreover have "keeps I (aseq (pa_note ''decide'') (send_legs R again p d (List.enumerate 0 legs)))"
    by (intro keeps_rules send_legs_keeps again)
  ultimately show ?thesis unfolding sign_and_send_signed [OF s(2) rh Inr] by (simp add: keepsD)
qed

lemma decide_step_keeps:
  assumes again: "\<And>rh. keeps I (again rh)"
  shows "keeps I (decide_step R W again rh)"
  unfolding keeps_def
proof (intro allI impI)
  fix s assume s: "I s"
  show "I (fst (decide_step R W again rh s))"
  proof (cases "map_of (mn_pending s) rh")
    case None
    with s show ?thesis by (simp add: decide_step_def aget_def aret_def)
  next
    case (Some p)
    obtain s1 r where c: "choose_legs R W p s = (s1, r)" by (cases "choose_legs R W p s")
    have s1: "I s1" by (rule keeps_run [OF choose_legs_keeps s c])
    have pend: "map_of (mn_pending s1) rh = Some p" using choose_legs_pending [OF c] Some by simp
    show ?thesis
    proof (cases r)
      case (Inl e)
      with Some c s1 show ?thesis by (simp add: decide_step_def aget_def abind_def)
    next
      case (Inr chosen)
      show ?thesis
      proof (cases chosen)
        case (Inl why)
        with Some c Inr show ?thesis
          using keepsD [OF settle_refused_keeps s1] by (simp add: decide_step_def aget_def abind_def)
      next
        case legs: (Inr legs)
        show ?thesis
        proof (cases "self_check R s1 p legs")
          case (Inl e)
          with Some c Inr legs s1 show ?thesis by (simp add: decide_step_def aget_def abind_def alift_def)
        next
          case checked: (Inr problems)
          show ?thesis
            using Some c Inr legs checked keepsD [OF decision_mutiny_keeps s1] sign_and_send_keeps [OF again s1 pend, of legs]
            by (cases "problems = []") (simp_all add: decide_step_def aget_def abind_def alift_def)
        qed
      qed
    qed
  qed
qed

lemma settle_step_keeps:
  assumes "\<And>rh. keeps I (decide rh)"
  shows "keeps I (settle_step R decide rh)"
  unfolding settle_step_def settle_verdict_def by (intro keeps_rules assms) (simp_all add: later_def)

lemma settle_rounds_keeps:
  assumes "\<And>rh. keeps I (base rh)"
  shows "keeps I (settle_rounds R W base n rh)"
proof (induction n arbitrary: rh)
  case 0
  then show ?case by (simp add: settle_rounds_def assms)
next
  case (Suc n)
  then show ?case by (simp add: settle_rounds_def settle_step_keeps decide_step_keeps)
qed

lemma mesh_settle_keeps [keeps_rules]: "keeps I (mesh_settle R W rh)"
  unfolding mesh_settle_def by (intro settle_rounds_keeps keeps_rules)

lemma mesh_decide_keeps [keeps_rules]: "keeps I (mesh_decide R W rh)"
  unfolding mesh_decide_def by (intro decide_step_keeps keeps_rules)

end

text \<open>What also holds when requests are filed and leases expire is kept by every step of a node.\<close>

locale node_running = node_keeping I R for I :: "mesh_node \<Rightarrow> bool" and R :: runtime +
  assumes files: "\<And>s request quorum models pins src. I s \<Longrightarrow>
      check_request (rt_env R) (JObj request) (pa_trust s) (rt_now R) = Inr None \<Longrightarrow> refuse_reason s = None \<Longrightarrow>
      request_fields request = Some (quorum, models, pins) \<Longrightarrow>
      I (s\<lparr>mn_pending := dset (digest (rt_env R) (JObj request))
           (fresh_pending request (digest (rt_env R) (JObj request)) src
             (if lockdown (pa_ledger s) then max quorum LOCKDOWN_QUORUM else quorum) (lockdown (pa_ledger s))) (mn_pending s)\<rparr>)"
    and prunes: "\<And>s now. I s \<Longrightarrow> I (s\<lparr>pa_leases := lb_prune now (pa_leases s)\<rparr>)"
begin

lemma accept_request_keeps:
  assumes s: "I s" "check_request (rt_env R) (JObj request) (pa_trust s) (rt_now R) = Inr None"
  shows "I (fst (accept_request R W src request s))"
proof (cases "refuse_reason s")
  case None
  show ?thesis
  proof (cases "request_fields request")
    case None
    with s \<open>refuse_reason s = None\<close> show ?thesis by (simp add: accept_request_def aget_def alift_def Let_def)
  next
    case (Some f)
    then obtain quorum models pins where f: "request_fields request = Some (quorum, models, pins)" by (cases f) auto
    from files [OF s None f] None f show ?thesis
      by (simp add: accept_request_def aget_def aseq_def amod_def abind_def Let_def keepsD [OF mesh_decide_keeps])
  qed
next
  case (Some why)
  then show ?thesis using s(1) by (simp add: accept_request_def aget_def Let_def keepsD [OF mesh_finish_keeps])
qed

lemma on_submit_keeps: "keeps I (on_submit R W src f)"
  unfolding keeps_def
proof (intro allI impI)
  fix s assume s: "I s"
  let ?request = "pget f ''request''" and ?rh = "digest (rt_env R) (pget f ''request'')"
  let ?t = "s\<lparr>pa_users := List.insert src (pa_users s)\<rparr>"
  have t: "I ?t" using s by (rule same_beliefs) (simp_all add: beliefs_def standing_def)
  have send: "I (fst (aseq (send R d kind fs) (aret ()) u))" if "I u" for d kind fs u
    using that by (intro keepsD [of I] keeps_rules)
  show "I (fst (on_submit R W src f s))"
  proof (cases "check_request (rt_env R) ?request (pa_trust s) (rt_now R)")
    case (Inl e)
    with s show ?thesis by (simp add: on_submit_def aget_def abind_def alift_def Let_def)
  next
    case (Inr reason)
    show ?thesis
    proof (cases "reason \<noteq> None \<or> pget (obj_of ?request) ''user'' \<noteq> JStr src")
      case True
      with Inr show ?thesis by (simp add: on_submit_def aget_def abind_def alift_def Let_def send [OF s])
    next
      case False
      then have req: "?request = JObj (obj_of ?request)" by (cases ?request) (simp_all add: obj_of_def pget_def)
      with False Inr have "check_request (rt_env R) (JObj (obj_of ?request)) (pa_trust ?t) (rt_now R) = Inr None" by simp
      from accept_request_keeps [OF t this] False Inr t show ?thesis
        by (auto simp: on_submit_def aget_def abind_def alift_def Let_def aseq_def amod_def aret_def
            intro: keeps_run [OF send_keeps t] split: option.split prod.split sum.split)
    qed
  qed
qed

lemma node_collect_keeps [keeps_rules]: "keeps I (node_collect R W d i response)"
  unfolding node_collect_def Let_def by (intro keeps_rules) (auto simp: later_def intro: rest keeps_amod)

lemma node_leg_failed_keeps [keeps_rules]: "keeps I (node_leg_failed R W d i unreachable reason)"
  unfolding node_leg_failed_def by (intro leg_failed_keeps keeps_rules)

lemma time_out_keeps [keeps_rules]: "keeps I (time_out_request R W rh)"
proof -
  have su: "keeps I (\<lambda>s. case timed_out inside (rt_now R) (mn_suspicion s) of (su, newly) \<Rightarrow> (s\<lparr>mn_suspicion := su\<rparr>, Inr newly))" for inside
    by (auto simp: keeps_def intro: rest split: prod.split)
  have "keeps I (time_out_leg R p i)" for p i
    unfolding time_out_leg_def Let_def by (intro keeps_rules su) (simp_all add: later_def)
  then show ?thesis unfolding time_out_request_def by (intro keeps_rules) (simp_all add: later_def)
qed

lemma node_tick_keeps: "keeps I (node_tick R W now)"
  unfolding node_tick_def by (intro keeps_rules) (auto intro: drops prunes keeps_amod)

lemma on_grant_keeps: "keeps I (on_grant R W src f)"
proof -
  have held: "keeps I (hold_grant R lease opened)" if "open_inner (rt_env R) lease inner = Some opened" for lease opened inner
    unfolding hold_grant_def by (intro keeps_rules) (auto intro: holds that keeps_amod)
  have "keeps I (case v of JStr sealed \<Rightarrow> g sealed | _ \<Rightarrow> aret ())" if "\<And>x. keeps I (g x)" for g :: "string \<Rightarrow> unit node_act" and v
    using that by (cases v) (auto intro: keeps_rules)
  note str = this
  show ?thesis unfolding on_grant_def Let_def by (intro keeps_rules str held)
qed

lemma answer_keeps [keeps_rules]: "keeps I (answer R W request model h)"
  unfolding answer_def by (cases "w_backend W model (strv (pget request ''input'')) (ls_secret h)")
    (auto intro!: keeps_rules split: json.split)

lemma node_serve_keeps: "keeps I (node_serve R W request d i now)"
proof -
  have "hooks_keep I ((node_core R)\<lparr>hk_leg_failed := node_leg_failed R W\<rparr>)"
    using node_core_keep(2) [of R] node_leg_failed_keeps by (simp add: hooks_keep_def absorb_hooks_keep_def)
  note refuse = nack_keeps [OF this]
  have "keeps I (answer_once R W request model h)" for model h
    unfolding answer_once_def Let_def remember_answer_def by (intro keeps_rules) (auto intro: rest keeps_amod)
  then have "keeps I (send_response R W request d i leg h)" for leg h
    unfolding send_response_def Let_def by (intro keeps_rules)
  then show ?thesis unfolding node_serve_def Let_def by (intro keeps_rules refuse)
qed

lemma node_hooks_keep: "hooks_keep I (node_hooks R W)"
  using node_core_keep(2) [of R] node_tick_keeps node_serve_keeps node_leg_failed_keeps node_collect_keeps
  by (simp add: hooks_keep_def absorb_hooks_keep_def node_hooks_def)

lemma node_frame_keeps: "keeps I (handle R (node_hooks R W) (node_dispatch R W) src payload)"
proof (rule handle_keeps [OF node_hooks_keep])
  show "keeps I (fn src f)" if "node_dispatch R W kind = Some fn" for kind fn src f
    using that on_submit_keeps on_grant_keeps carrier_dispatch_keeps [OF node_hooks_keep, of W kind fn]
    by (auto simp: node_dispatch_def split: if_splits)
qed

lemma node_timer_keeps: "keeps I (tick R (node_hooks R W))"
  by (rule tick_keeps [OF node_hooks_keep])

end

section \<open>Deciding and settling ends\<close>

definition attempt_from :: "int \<Rightarrow> string \<Rightarrow> mesh_node \<Rightarrow> bool" where
  "attempt_from a rh s \<longleftrightarrow> (\<forall>p. map_of (mn_pending s) rh = Some p \<longrightarrow> a \<le> pe_attempt p)"

definition filed_from :: "env \<Rightarrow> int \<Rightarrow> string \<Rightarrow> mesh_node \<Rightarrow> bool" where
  "filed_from E a rh s \<longleftrightarrow> filed E s \<and> attempt_from a rh s"

lemma stores_beside:
  assumes "\<And>s :: mesh_node. \<And>db. I s \<Longrightarrow> I (s\<lparr>pa_lsdb := db\<rparr>)" "\<And>s lb. I s \<Longrightarrow> I (s\<lparr>pa_leases := lb\<rparr>)" "\<And>s ml. I s \<Longrightarrow> I (s\<lparr>pa_ledger := ml\<rparr>)"
  shows "keeps I (on_lsdb f)" "keeps I (on_leases g)" "keeps I (on_ledger h)"
  using assms by (auto intro!: keeps_store)

interpretation attempts: node_keeping "filed_from (rt_env R) a rh" R for R a rh
proof
  let ?I = "filed_from (rt_env R) a rh"
  show "?I q" if "?I p" "participant.more q = participant.more p" for p q :: mesh_node
    using that more_fields(1) [OF that(2)] by (simp add: filed_from_def filed_def attempt_from_def)
  show "?I (s\<lparr>mn_pending := dset rh' q (mn_pending s)\<rparr>)" if "?I s" "map_of (mn_pending s) rh' = Some p" "later p q" for s rh' p q
    using that by (auto simp: filed_from_def filed_def attempt_from_def later_def)
  show "?I (s\<lparr>mn_pending := dset rh' (signed R s legs d p) (mn_pending s)\<rparr>)"
    if "?I s" "map_of (mn_pending s) rh' = Some p" for s rh' p legs d
    using that by (auto simp: filed_from_def filed_def attempt_from_def signed_def)
qed (auto simp: filed_from_def filed_def attempt_from_def map_of_dpop intro!: stores_beside)

text \<open>Two methods that do the same on the states of an invariant.\<close>

definition same_on :: "('s \<Rightarrow> bool) \<Rightarrow> ('s, 'a) act \<Rightarrow> ('s, 'a) act \<Rightarrow> bool" where
  "same_on I m m' \<longleftrightarrow> (\<forall>s. I s \<longrightarrow> m s = m' s)"

lemma same_refl: "same_on I m m"
  by (simp add: same_on_def)

lemma same_abind: "keeps I m \<Longrightarrow> same_on I m m' \<Longrightarrow> (\<And>x. same_on I (f x) (f' x)) \<Longrightarrow> same_on I (abind m f) (abind m' f')"
  by (auto simp: same_on_def abind_def dest: keepsD split: prod.split sum.split)

lemma same_aseq: "keeps I m \<Longrightarrow> same_on I m m' \<Longrightarrow> same_on I n n' \<Longrightarrow> same_on I (aseq m n) (aseq m' n')"
  unfolding aseq_def by (rule same_abind)

lemma same_awhen: "(b \<Longrightarrow> same_on I m m') \<Longrightarrow> same_on I (awhen b m) (awhen b m')"
  by (auto simp: same_on_def awhen_def)

lemma leg_failed_same:
  assumes "same_on (filed_from (rt_env R) a rh) (c rh) (c' rh)" "strv (pget d ''request_hash'') = rh"
  shows "same_on (filed_from (rt_env R) a rh) (leg_failed_with R c d i unreachable reason) (leg_failed_with R c' d i unreachable reason)"
    (is "same_on ?I _ _")
  unfolding same_on_def
proof (intro allI impI)
  fix s assume s: "?I s"
  show "leg_failed_with R c d i unreachable reason s = leg_failed_with R c' d i unreachable reason s"
  proof (cases "map_of (mn_pending s) rh")
    case (Some p)
    then have rh: "pe_rhash p = rh" using s by (simp add: filed_from_def filed_def)
    let ?f = "\<lambda>p. p\<lparr>pe_avoid := List.insert unreachable (pe_avoid p), pe_open := filter (\<lambda>j. j \<noteq> i) (pe_open p)\<rparr>"
    have "same_on ?I (aseq (pa_note ''leg-failed'') (aseq (on_pending (pe_rhash p) ?f) (awhen b (c (pe_rhash p)))))
        (aseq (pa_note ''leg-failed'') (aseq (on_pending (pe_rhash p) ?f) (awhen b (c' (pe_rhash p)))))" for b
      unfolding rh by (intro same_aseq same_awhen same_refl assms(1) keeps_rules attempts.note_keeps attempts.pending_keeps) (simp add: later_def)
    with s Some assms(2) show ?thesis by (auto simp: leg_failed_with_def aget_def same_on_def)
  qed (simp add: leg_failed_with_def aget_def assms(2))
qed

lemma send_legs_same:
  assumes "same_on (filed_from (rt_env R) a rh) (c rh) (c' rh)" "strv (pget d ''request_hash'') = rh"
    and "\<And>rh'. keeps (filed_from (rt_env R) a rh) (c rh')"
  shows "same_on (filed_from (rt_env R) a rh) (send_legs R c p d legs) (send_legs R c' p d legs)"
    (is "same_on ?I _ _")
proof (induction legs)
  case Nil
  show ?case by (simp add: same_refl)
next
  case (Cons il legs)
  obtain i leg where il: "il = (i, leg)" by (cases il)
  let ?fs = "[(''request'', JObj (pe_request p)), (''decision'', JObj d), (''leg'', JInt (int i)), (''hop'', JInt 1)]"
  have "same_on ?I
      (abind (send R (l_path leg ! 1) ''req'' ?fs) (\<lambda>sent. aseq (awhen (\<not> sent) (leg_failed_with R c d i (l_path leg ! 1) why)) (send_legs R c p d legs)))
      (abind (send R (l_path leg ! 1) ''req'' ?fs) (\<lambda>sent. aseq (awhen (\<not> sent) (leg_failed_with R c' d i (l_path leg ! 1) why)) (send_legs R c' p d legs)))" for why
    by (intro same_abind same_aseq same_awhen same_refl leg_failed_same [where c = c and c' = c', OF assms(1,2)] Cons.IH attempts.send_keeps keeps_rules attempts.leg_failed_keeps assms(3))
  then show ?case by (auto simp: il same_on_def aget_def split: option.split)
qed

lemma decided_for:
  assumes "make_decision E seed request legs mode epoch attempt now = Inr d"
  obtains did where "identity_did E seed = Inr did" "pget d ''type'' = JStr DECISION" "pget d ''request_hash'' = JStr (digest E (JObj request))"
    "pget d ''decider'' = JStr did" "pget d ''mode'' = JStr mode" "pget d ''epoch'' = JInt epoch" "pget d ''attempt'' = JInt attempt"
    "pget d ''legs'' = JList (map to_wire legs)" "pget d ''issued_at'' = JFloat now"
proof -
  from assms obtain did where did: "identity_did E seed = Inr did"
    and d: "sign_payload E seed
         [(''type'', JStr DECISION), (''request_hash'', JStr (digest E (JObj request))), (''decider'', JStr did),
          (''mode'', JStr mode), (''epoch'', JInt epoch), (''attempt'', JInt attempt),
          (''legs'', JList (map to_wire legs)), (''issued_at'', JFloat now)] = Inr d"
    by (auto simp: make_decision_def rbind_Inr_iff)
  show thesis by (rule that [OF did]; subst sign_payload_fields(1) [OF d]; simp add: pget_def)
qed

lemma sign_and_send_same:
  assumes "same_on (filed_from (rt_env R) a rh) (c rh) (c' rh)" "\<And>rh'. keeps (filed_from (rt_env R) a rh) (c rh')"
    and s: "filed_from (rt_env R) a rh s" "map_of (mn_pending s) rh = Some p" "self_check R s p legs = Inr []"
  shows "sign_and_send R c p legs s = sign_and_send R c' p legs s"
proof (cases "make_decision (rt_env R) (pa_identity s) (pe_request p) legs (decision_mode R s p) (pa_epoch s) (pe_attempt p) (rt_now R)")
  case (Inl e)
  then show ?thesis by (simp add: sign_and_send_def aget_def abind_def alift_def)
next
  case (Inr d)
  have rh: "pe_rhash p = rh" "digest (rt_env R) (JObj (pe_request p)) = rh"
    using s(1,2) by (simp_all add: filed_from_def filed_def)
  have d: "strv (pget d ''request_hash'') = rh" using Inr rh(2) by (auto elim!: decided_for simp: strv_def)
  let ?I = "filed_from (rt_env R) a rh" and ?t = "s\<lparr>mn_pending := dset rh (signed R s legs d p) (mn_pending s)\<rparr>"
  have t: "?I ?t" by (rule attempts.signs [OF s Inr])
  have "same_on ?I (aseq (pa_note ''decide'') (send_legs R c p d (List.enumerate 0 legs)))
      (aseq (pa_note ''decide'') (send_legs R c' p d (List.enumerate 0 legs)))"
    by (intro same_aseq same_refl attempts.note_keeps send_legs_same [where c = c and c' = c', OF assms(1) d assms(2)])
  then show ?thesis unfolding sign_and_send_signed [OF s(2) rh(1) Inr] using t by (simp add: same_on_def)
qed

lemma decide_same:
  assumes "same_on (filed_from (rt_env R) a rh) (c rh) (c' rh)" "\<And>rh'. keeps (filed_from (rt_env R) a rh) (c rh')"
  shows "same_on (filed_from (rt_env R) a rh) (decide_step R W c rh) (decide_step R W c' rh)" (is "same_on ?I _ _")
  unfolding same_on_def
proof (intro allI impI)
  fix s assume s: "?I s"
  show "decide_step R W c rh s = decide_step R W c' rh s"
  proof (cases "map_of (mn_pending s) rh")
    case (Some p)
    obtain s1 r where chosen: "choose_legs R W p s = (s1, r)" by (cases "choose_legs R W p s")
    have s1: "?I s1" by (rule keeps_run [OF attempts.choose_legs_keeps s chosen])
    have pend: "map_of (mn_pending s1) rh = Some p" using choose_legs_pending [OF chosen] Some by simp
    note same = sign_and_send_same [where c = c and c' = c', OF assms s1 pend]
    show ?thesis
    proof (cases "\<exists>legs. r = Inr (Inr legs) \<and> self_check R s1 p legs = Inr []")
      case True
      then obtain legs where legs: "r = Inr (Inr legs)" "self_check R s1 p legs = Inr []" by blast
      from same [OF legs(2)] legs Some chosen show ?thesis by (simp add: decide_step_def aget_def abind_def alift_def)
    next
      case False
      with Some chosen show ?thesis
        by (auto simp: decide_step_def aget_def abind_def alift_def split: sum.split)
    qed
  qed (simp add: decide_step_def aget_def)
qed

lemma settle_same:
  assumes "a + 1 < MAX_ATTEMPTS \<Longrightarrow> same_on (filed_from (rt_env R) (a + 1) rh) (D rh) (D' rh)"
  shows "same_on (filed_from (rt_env R) a rh) (settle_step R D rh) (settle_step R D' rh)" (is "same_on ?I _ _")
  unfolding same_on_def
proof (intro allI impI)
  fix s assume s: "?I s"
  show "settle_step R D rh s = settle_step R D' rh s"
  proof (cases "map_of (mn_pending s) rh")
    case (Some p)
    then have rh: "pe_rhash p = rh" and a: "a \<le> pe_attempt p" using s by (auto simp: filed_from_def filed_def attempt_from_def)
    let ?f = "\<lambda>p. p\<lparr>pe_attempt := pe_attempt p + 1\<rparr>"
    have again: "same_on ?I (aseq (on_pending rh ?f) (D rh)) (aseq (on_pending rh ?f) (D' rh))" if "pe_attempt p + 1 < MAX_ATTEMPTS"
    proof -
      have "filed_from (rt_env R) (a + 1) rh (fst (on_pending rh ?f t))" if "?I t" for t
        using that by (auto simp: on_pending_def amod_def filed_from_def filed_def attempt_from_def split: option.split)
      with assms a that show ?thesis by (simp add: same_on_def aseq_def abind_def on_pending_def amod_def)
    qed
    have "same_on ?I (settle_verdict R D p v) (settle_verdict R D' p v)" for v
      using again by (simp add: settle_verdict_def rh same_refl)
    then have "same_on ?I (abind (judge R p adv) (\<lambda>v. aseq (charge_rejected R p (adj_rejected v)) (settle_verdict R D p v)))
        (abind (judge R p adv) (\<lambda>v. aseq (charge_rejected R p (adj_rejected v)) (settle_verdict R D' p v)))" for adv
      by (intro same_abind same_aseq same_refl attempts.fields_keep attempts.charge_rejected_keeps)
    with s Some show ?thesis by (auto simp: settle_step_def aget_def same_on_def)
  qed (simp add: settle_step_def aget_def)
qed

lemma rounds_same:
  "same_on (filed_from (rt_env R) (MAX_ATTEMPTS - 1 - int n) rh) (settle_rounds R W b (Suc n) rh) (settle_rounds R W b' (Suc n) rh)"
proof (induction n arbitrary: b b')
  case 0
  show ?case unfolding settle_rounds_def by (simp, rule settle_same) simp
next
  case (Suc n)
  let ?I = "filed_from (rt_env R) (MAX_ATTEMPTS - 1 - int n) rh" and ?quiet = "\<lambda>_. aret () :: unit node_act"
  have keeps: "keeps ?I (settle_rounds R W ?quiet (Suc n) rh')" for rh'
    by (rule attempts.settle_rounds_keeps) (rule keeps_basic)
  have step: "same_on (filed_from (rt_env R) (MAX_ATTEMPTS - 1 - int (Suc n)) rh)
      (settle_rounds R W c (Suc (Suc n)) rh) (settle_rounds R W ?quiet (Suc (Suc n)) rh)" for c
  proof -
    have "same_on ?I (decide_step R W (settle_rounds R W ?quiet (Suc n)) rh) (decide_step R W (settle_rounds R W c (Suc n)) rh)"
      by (rule decide_same [where c = "settle_rounds R W ?quiet (Suc n)" and c' = "settle_rounds R W c (Suc n)", OF Suc.IH keeps])
    then have "same_on ?I (decide_step R W (settle_rounds R W c (Suc n)) rh) (decide_step R W (settle_rounds R W ?quiet (Suc n)) rh)"
      by (simp add: same_on_def)
    then have "same_on (filed_from (rt_env R) (MAX_ATTEMPTS - 1 - int (Suc n)) rh)
        (settle_step R (decide_step R W (settle_rounds R W c (Suc n))) rh)
        (settle_step R (decide_step R W (settle_rounds R W ?quiet (Suc n))) rh)"
      by (intro settle_same) (simp add: algebra_simps)
    then show ?thesis by (simp add: settle_rounds_def)
  qed
  from step [of b] step [of b'] show ?case by (simp add: same_on_def)
qed

section \<open>What a node keeps of itself\<close>

text \<open>The decision a node stands behind verifies for every reader, is for the request, and does nothing against it.\<close>

definition upright :: "env \<Rightarrow> trust_roots \<Rightarrow> pending \<Rightarrow> bool" where
  "upright E tr p \<longleftrightarrow>
     (\<forall>d. pe_decision p = Some d \<longrightarrow>
        check_decision E (JObj d) tr (Some (pe_request p)) = Inr None \<and> decision_violations d (pe_request p) = Inr [])"

definition may_decide :: "env \<Rightarrow> trust_roots \<Rightarrow> identity \<Rightarrow> did \<Rightarrow> string list \<Rightarrow> bool" where
  "may_decide E tr seed me roles \<longleftrightarrow>
     crypto_ok E \<and> length seed = 32 \<and> identity_did E seed = Inr me \<and> tr_mesh tr me \<and> (ROLE_SERVE \<in> set roles \<longrightarrow> tr_deciders tr me)"

definition entry_ok :: "env \<Rightarrow> trust_roots \<Rightarrow> string list \<Rightarrow> pending \<Rightarrow> bool" where
  "entry_ok E tr roles p \<longleftrightarrow> 0 \<le> pe_attempt p \<and> (\<not> pe_lockdown p \<longrightarrow> ROLE_SERVE \<in> set roles) \<and> upright E tr p"

definition grant_ok :: "env \<Rightarrow> lease_secret \<Rightarrow> bool" where
  "grant_ok E h \<longleftrightarrow> pget (ls_lease h) ''canary_hash'' = JStr (canary_hash E (ls_canary h)) \<and> is_canary (ls_canary h)"

definition node_inv :: "env \<Rightarrow> decoder \<Rightarrow> trust_roots \<Rightarrow> identity \<Rightarrow> did \<Rightarrow> string list \<Rightarrow> mesh_node \<Rightarrow> bool" where
  "node_inv E dec tr seed me roles s \<longleftrightarrow>
     may_decide E tr seed me roles \<and> grounded E dec tr s \<and> standing s = (me, seed, roles) \<and> filed E s \<and>
     (\<forall>rh p. map_of (mn_pending s) rh = Some p \<longrightarrow> entry_ok E tr roles p) \<and>
     (\<forall>h\<in>snd ` set (mn_held s). grant_ok E h)"

lemma shape_of_body:
  assumes "\<And>k. k \<in> {''mode'', ''decider'', ''request_hash'', ''epoch'', ''attempt'', ''issued_at'', ''legs''} \<Longrightarrow> pget a k = pget b k"
  shows "decision_shape a tr = decision_shape b tr" "decision_violations a req = decision_violations b req"
  using assms by (simp_all add: decision_shape_def decision_violations_def decision_fields_def)

lemma signed_upright:
  assumes inv: "node_inv E dec tr seed me roles s" and p: "map_of (mn_pending s) rh = Some p" and R: "rt_env R = E"
    and ok: "self_check R s p legs = Inr []"
    and d: "make_decision E (pa_identity s) (pe_request p) legs (decision_mode R s p) (pa_epoch s) (pe_attempt p) (rt_now R) = Inr d"
  shows "check_decision E (JObj d) tr (Some (pe_request p)) = Inr None" "decision_violations d (pe_request p) = Inr []"
proof -
  have st: "pa_did s = me" "pa_identity s = seed" "pa_trust s = tr" and may: "may_decide E tr seed me roles"
    and rh: "digest E (JObj (pe_request p)) = pe_rhash p" and entry: "entry_ok E tr roles p"
    using inv p by (auto simp: node_inv_def standing_def grounded_def filed_def)
  from d obtain did where did: "identity_did E seed = Inr did" and fields: "pget d ''type'' = JStr DECISION"
    "pget d ''request_hash'' = JStr (digest E (JObj (pe_request p)))" "pget d ''decider'' = JStr did" "pget d ''mode'' = JStr (decision_mode R s p)"
    "pget d ''epoch'' = JInt (pa_epoch s)" "pget d ''attempt'' = JInt (pe_attempt p)" "pget d ''legs'' = JList (map to_wire legs)"
    "pget d ''issued_at'' = JFloat (rt_now R)"
    unfolding st by (rule decided_for)
  from did may have me: "did = me" by (simp add: may_decide_def)
  have same: "pget (proposed_body R s p legs) k = pget d k"
    if "k \<in> {''mode'', ''decider'', ''request_hash'', ''epoch'', ''attempt'', ''issued_at'', ''legs''}" for k
    using that fields rh me st by (auto simp: proposed_body_def pget_def)
  have eqs: "decision_shape (proposed_body R s p legs) tr = decision_shape d tr"
    "decision_violations (proposed_body R s p legs) (pe_request p) = decision_violations d (pe_request p)"
    by (rule shape_of_body; erule same)+
  from ok have shape: "decision_shape d tr = Inr None" and vs: "decision_violations d (pe_request p) = Inr []"
    by (auto simp: self_check_def Let_def rbind_Inr_iff st eqs split: option.splits if_splits)
  have sp: "\<exists>payload. sign_payload E seed payload = Inr d"
    using d st by (auto simp: make_decision_def rbind_Inr_iff)
  let ?signers = "if decision_mode R s p = MODE_LOCKDOWN then tr_mesh tr else tr_deciders tr"
  have who: "?signers me"
    using may entry by (auto simp: may_decide_def entry_ok_def decision_mode_def)
  from sp obtain payload where "sign_payload E seed payload = Inr d" by blast
  from verify_payload_signed [OF _ _ this did, of "Some ?signers"] may who me
  have v: "verify_payload E (JObj d) (Some ?signers) = (True, Some me)" by (simp add: may_decide_def)
  have "signed_by E (JObj d) DECISION ''decider'' ?signers = None"
    unfolding signed_by_None using v fields(1,3) me by (auto simp: pget_eq_JStr)
  with shape fields(2,4) show "check_decision E (JObj d) tr (Some (pe_request p)) = Inr None"
    by (simp add: check_decision_def Let_def obj_of_def)
  show "decision_violations d (pe_request p) = Inr []" by (rule vs)
qed

lemma open_inner_grant_ok: "open_inner E lease inner = Some h \<Longrightarrow> grant_ok E h"
  by (auto simp: open_inner_def grant_ok_def split: option.splits json.splits if_splits)

interpretation conduct: node_running "node_inv (rt_env R) (rt_dec R) tr seed me roles" R for R tr seed me roles
proof
  let ?I = "node_inv (rt_env R) (rt_dec R) tr seed me roles"
  show "?I q" if "?I p" "beliefs q = beliefs p" "standing q = standing p" "participant.more q = participant.more p" for p q :: mesh_node
    using that(1,3) of_beliefsD [OF grounded_of_beliefs, of "rt_env R" "rt_dec R" tr p q] that(2) more_fields [OF that(4)]
    by (simp add: node_inv_def filed_def)
  have beside: "keeps ?I m" if "keeps (grounded (rt_env R) (rt_dec R) tr) m"
    "\<And>s. standing (fst (m s)) = standing s \<and> mn_pending (fst (m s)) = mn_pending s \<and> mn_held (fst (m s)) = mn_held s" for m :: "(mesh_node, 'z) act"
    using that by (simp add: keeps_def node_inv_def filed_def)
  show "keeps ?I (on_lsdb (ls_merge (rt_env R) hb (rt_now R)))" for hb
    by (rule beside [OF ground.heartbeat]) (simp add: on_lsdb_def standing_def split: prod.split)
  show "keeps ?I (on_leases (lb_add (rt_env R) v))" "keeps ?I (on_leases (lb_revoke (rt_env R) v))" for v
    by (rule beside [OF ground.lease] beside [OF ground.lease_revocation]; simp add: on_leases_def standing_def split: prod.split)+
  show "keeps ?I (on_ledger (ml_add (rt_env R) (rt_dec R) v))" "keeps ?I (on_ledger (ml_reset (rt_env R) v))" for v
    by (rule beside [OF ground.incident] beside [OF ground.reset]; simp add: on_ledger_def standing_def split: prod.split)+
  show "?I (p\<lparr>pa_advisories := dset (strv (pget obj ''coordinator'')) obj (pa_advisories p)\<rparr>)"
    if "?I p" "check_advisory (rt_env R) (JObj obj) (pa_trust p) (Some (rt_now R)) = Inr None" "newer_advisory obj p" for p obj
    using ground.advisory [of R tr p obj] that by (auto simp: node_inv_def standing_def filed_def)
  show "filed (rt_env R) s" if "?I s" for s using that by (simp add: node_inv_def)
  show "?I (s\<lparr>mn_pending := dpop rh (mn_pending s)\<rparr>)" if "?I s" for s rh
    using that by (auto simp: node_inv_def standing_def filed_def grounded_def map_of_dpop)
  show "?I (s\<lparr>mn_pending := dset rh q (mn_pending s)\<rparr>)" if "?I s" "map_of (mn_pending s) rh = Some p" "later p q" for s rh p q
    using that by (force simp: node_inv_def standing_def filed_def grounded_def later_def entry_ok_def upright_def)
  show "?I (s\<lparr>mn_pending := dset rh (signed R s legs d p) (mn_pending s)\<rparr>)"
    if s: "?I s" "map_of (mn_pending s) rh = Some p" "self_check R s p legs = Inr []"
      "make_decision (rt_env R) (pa_identity s) (pe_request p) legs (decision_mode R s p) (pa_epoch s) (pe_attempt p) (rt_now R) = Inr d"
    for s rh p legs d
    using s(1,2) signed_upright [OF s(1,2) refl s(3,4)]
    by (auto simp: node_inv_def standing_def filed_def grounded_def signed_def entry_ok_def upright_def)
  show "?I (s\<lparr>mn_held := hs\<rparr>)" if "?I s" "set hs \<subseteq> set (mn_held s)" for s hs
    using that by (auto simp: node_inv_def standing_def filed_def grounded_def)
  show "?I (s\<lparr>mn_held := dset lid h (mn_held s)\<rparr>)" if "?I s" "open_inner (rt_env R) lease inner = Some h" for s lease inner h lid
    using that open_inner_grant_ok [OF that(2)]
    by (auto simp: node_inv_def standing_def filed_def grounded_def dest!: set_dset)
  show "?I (s\<lparr>pa_leases := lb_prune now (pa_leases s)\<rparr>)" if "?I s" for s now
    using that by (auto simp: node_inv_def standing_def filed_def grounded_def leases_grounded_def lb_prune_def)
  show "?I (s\<lparr>mn_pending := dset (digest (rt_env R) (JObj request))
           (fresh_pending request (digest (rt_env R) (JObj request)) src
             (if lockdown (pa_ledger s) then max quorum LOCKDOWN_QUORUM else quorum) (lockdown (pa_ledger s))) (mn_pending s)\<rparr>)"
    if "?I s" "refuse_reason s = None" for s request quorum src
    using that
    by (auto simp: node_inv_def standing_def filed_def grounded_def entry_ok_def upright_def fresh_pending_def refuse_reason_def Let_def
        split: if_splits)
qed (simp_all add: node_inv_def standing_def filed_def grounded_def)

section \<open>Runs of a node\<close>

inductive mesh_reach :: "env \<Rightarrow> decoder \<Rightarrow> mesh_node \<Rightarrow> mesh_node \<Rightarrow> bool" for E dec s where
  start: "mesh_reach E dec s s"
| frame_in: "mesh_reach E dec s t \<Longrightarrow> rt_env R = E \<Longrightarrow> rt_dec R = dec \<Longrightarrow> mesh_reach E dec s (node_step (Frame_in R W src payload) t)"
| timer: "mesh_reach E dec s t \<Longrightarrow> rt_env R = E \<Longrightarrow> rt_dec R = dec \<Longrightarrow> mesh_reach E dec s (node_step (Timer R W) t)"

lemma mesh_reach_inv:
  assumes "mesh_reach E dec s t" "node_inv E dec tr seed me roles s"
  shows "node_inv E dec tr seed me roles t"
  using assms
proof (induction rule: mesh_reach.induct)
  case (frame_in t R W src payload)
  then show ?case using keepsD [OF conduct.node_frame_keeps [of R tr seed me roles W src payload]] by simp
next
  case (timer t R W)
  then show ?case using keepsD [OF conduct.node_timer_keeps [of R tr seed me roles W]] by simp
qed

lemma mesh_node_init_inv:
  assumes init: "mesh_node_init E loads casefold seed tr roles equipped cfg t = Inr s"
    and trusted: "crypto_ok E" "length seed = 32" "tr_mesh tr (pa_did s)"
  shows "node_inv E dec tr seed (pa_did s) roles s"
proof -
  from init obtain p :: participant where p: "participant_init E seed tr roles cfg t = Inr p"
    and served: "ROLE_SERVE \<in> set roles \<Longrightarrow> tr_deciders tr (pa_did p)"
    and s: "beliefs s = beliefs p" "standing s = standing p" "mn_pending s = []" "mn_held s = []"
    by (auto simp: mesh_node_init_def rbind_Inr_iff beliefs_def standing_def participant.defs mesh_node.defs split: if_splits)
  have same: "pa_did s = pa_did p" using s(2) by (simp add: standing_def)
  from participant_init_grounded [OF p, of dec] s(1) have "grounded E dec tr s"
    by (simp add: grounded_def beliefs_def)
  moreover from p have "identity_did E seed = Inr (pa_did p)" "standing p = (pa_did p, seed, roles)"
    by (auto simp: participant_init_def rbind_Inr_iff standing_def split: if_splits)
  ultimately show ?thesis
    using trusted served s same by (auto simp: node_inv_def may_decide_def filed_def)
qed

text \<open>C36 Deciding and settling always ends: in every node reached from its start by any frames and timers, settling a request goes
  through at most three rounds of decision and settlement, whatever the policy proposes, however the wire fails and whatever the
  answers are; what would come after the third round is never reached.\<close>

theorem settling_ends:
  assumes "mesh_node_init E loads casefold seed tr roles equipped cfg t0 = Inr s" "crypto_ok E" "length seed = 32" "tr_mesh tr (pa_did s)"
    and "mesh_reach E dec s t" "rt_env R = E"
  shows "settle_rounds R W base (nat MAX_ATTEMPTS) rh t = mesh_settle R W rh t"
proof -
  have "node_inv E dec tr seed (pa_did s) roles t"
    by (rule mesh_reach_inv [OF assms(5) mesh_node_init_inv [OF assms(1-4)]])
  then have "filed_from (rt_env R) (MAX_ATTEMPTS - 1 - int 2) rh t"
    by (auto simp: node_inv_def filed_from_def attempt_from_def entry_ok_def MAX_ATTEMPTS_def assms(6))
  with rounds_same [of R 2 rh W base "\<lambda>_. alift (Inl (RuntimeError ''too many attempts''))"] show ?thesis
    by (simp add: same_on_def mesh_settle_def MAX_ATTEMPTS_def numeral_3_eq_3)
qed

theorem settling_ends_witness:
  "\<exists>s. mesh_node_init ref_env32 (\<lambda>_. None) id (ref_seed (CHR ''d'')) ref_roots [''serve''] False default_config 1 = Inr s \<and>
     (\<forall>W base rh. settle_rounds ref_runtime W base 3 rh s = mesh_settle ref_runtime W rh s)"
proof -
  obtain s where s: "mesh_node_init ref_env32 (\<lambda>_. None) id (ref_seed (CHR ''d'')) ref_roots [''serve''] False default_config 1 = Inr s"
    by (simp add: mesh_node_init_def participant_init_def MESH_ROLES_def circuit_breaker_init_def default_config_def role_defs ref_roots_def)
  have "tr_mesh ref_roots (pa_did s)" by (simp add: ref_roots_def)
  from settling_ends [OF s ref_env32_facts(1) length_ref_seed this mesh_reach.start, of ref_runtime]
  have "settle_rounds ref_runtime W base (nat MAX_ATTEMPTS) rh s = mesh_settle ref_runtime W rh s" for W base rh by (simp add: ref_runtime_def)
  with s show ?thesis by (auto simp: MAX_ATTEMPTS_def)
qed

text \<open>C37 A node never signs against its user: in every node reached from its start by any frames and timers, under any decision policy,
  the decision it stands behind for a request verifies for every reader of the trust roots, is for that request, does nothing against
  it, and together with the request convicts nobody of tampering.\<close>

theorem decisions_upright:
  assumes "mesh_node_init E loads casefold seed tr roles equipped cfg t0 = Inr s" "crypto_ok E" "length seed = 32" "tr_mesh tr (pa_did s)"
    and "mesh_reach E dec s t" "map_of (mn_pending t) rh = Some p" "pe_decision p = Some d"
  shows "rh = digest E (JObj (pe_request p)) \<and> check_decision E (JObj d) tr (Some (pe_request p)) = Inr None \<and>
    decision_violations d (pe_request p) = Inr [] \<and>
    (\<forall>targets. ev_decider_tampering E [(''request'', JObj (pe_request p)), (''decision'', JObj d)] tr \<noteq> Inr (Some targets))"
proof -
  have "node_inv E dec tr seed (pa_did s) roles t"
    by (rule mesh_reach_inv [OF assms(5) mesh_node_init_inv [OF assms(1-4)]])
  then have ok: "upright E tr p" "rh = digest E (JObj (pe_request p))"
    using assms(6) by (auto simp: node_inv_def entry_ok_def filed_def)
  with assms(7) have c: "check_decision E (JObj d) tr (Some (pe_request p)) = Inr None" "decision_violations d (pe_request p) = Inr []"
    by (auto simp: upright_def)
  have "ev_decider_tampering E [(''request'', JObj (pe_request p)), (''decision'', JObj d)] tr \<noteq> Inr (Some targets)" for targets
    using c by (auto simp: ev_decider_tampering_def convict_def finish_def pget_def obj_of_def Let_def rbind_def raises_def need_def passed_def
        split: sum.splits exit.splits if_splits)
  with ok c show ?thesis by blast
qed

text \<open>A concrete request: a serving node learns a lease from a directory and then decides.\<close>

definition ref_world :: world where
  "ref_world = \<lparr>w_backend = (\<lambda>_ _ _. Inl ''Down''), w_policy = (\<lambda>_ _ _ _. Inr [ref_leg]), w_unseal = (\<lambda>_. None)\<rparr>"

definition ref_server :: "mesh_node \<Rightarrow> bool" where
  "ref_server s \<longleftrightarrow>
     pa_did s = ref_did (CHR ''d'') \<and> pa_identity s = ref_seed (CHR ''d'') \<and> pa_trust s = ref_roots \<and> pa_roles s = [''serve''] \<and>
     pa_ledger s = ledger_init ref_roots \<and> pa_lsdb s = lsdb_init ref_roots (Fin 7) \<and> pa_advisories s = [] \<and>
     su_until (mn_suspicion s) = []"

definition idle :: "mesh_node \<Rightarrow> bool" where
  "idle s \<longleftrightarrow> mn_pending s = [] \<and> mn_finished s = []"

lemma ref_server_made:
  obtains s where "mesh_node_init ref_env32 (\<lambda>_. None) id (ref_seed (CHR ''d'')) ref_roots [''serve''] False default_config 1 = Inr s"
    "ref_server s" "idle s" "pa_leases s = lease_book_init ref_roots"
  by (simp add: mesh_node_init_def participant_init_def MESH_ROLES_def circuit_breaker_init_def default_config_def role_defs ref_roots_def
      ref_server_def idle_def suspicion_init_def participant.defs mesh_node.defs)

lemma silent_mode_node:
  "keeps (\<lambda>s. ref_server s \<and> idle s \<and> pa_leases s = lb) (check_mode S (node_hooks R W))"
  "keeps (\<lambda>s. mn_pending s = P) (check_mode S (node_hooks R W))"
  by (auto simp: keeps_def check_mode_def node_hooks_def node_core_def base_hooks_def act_defs pa_note_def ref_server_def idle_def Let_def)

lemma ref_directory:
  assumes "ref_server s" "pa_leases s = lease_book_init ref_roots" "ref_lease = Inr lease" "idle s"
  defines "t \<equiv> node_step (Frame_in ref_runtime ref_world (ref_did (CHR ''f''))
      (Some (JObj [(''k'', JStr ''dir''), (''leases'', JList [JObj lease])]))) s"
  shows "ref_server t \<and> idle t \<and> lease \<in> set (map snd (lb_leases (pa_leases t)))"
proof -
  note c = ref_lease_checks [OF assms(3)]
  obtain lb where lb: "lb_add ref_env32 (JObj lease) (lease_book_init ref_roots) = (lb, Inr True)" "lease \<in> set (map snd (lb_leases lb))"
    using c(1) by (simp add: lb_add_def lease_book_init_def obj_of_def dkeys_def)
  let ?f = "[(''k'', JStr ''dir''), (''leases'', JList [JObj lease])]" and ?s = "s\<lparr>pa_leases := lb\<rparr>"
  have kinds: "in_frozenset (JStr ''dir'') FRAME_KINDS = Inr True" by code_simp
  have "on_dir ref_runtime (node_hooks ref_runtime ref_world) (ref_did (CHR ''f'')) ?f s = (?s, Inr ())"
    using assms(1,2) lb(1)
    by (simp add: on_dir_def act_defs ref_server_def ref_roots_def pget_def or_empty_def iterate_def add_values_def on_leases_def
        ref_runtime_def node_hooks_def node_core_def base_hooks_def)
  then have "t = fst (check_mode ref_runtime (node_hooks ref_runtime ref_world) ?s)"
    using assms(1) kinds
    by (simp add: t_def handle_def act_defs aguard_def parse_frame_def pget_def rbind_def node_dispatch_def carrier_dispatch_def
        participant_dispatch_def strv_def ref_server_def ref_roots_def tr_peers_def any_of_def)
  moreover have "ref_server ?s" "idle ?s" using assms(1,4) by (simp_all add: ref_server_def idle_def)
  ultimately have "ref_server t \<and> idle t \<and> pa_leases t = lb"
    using keepsD [OF silent_mode_node(1) [of lb], of ?s] by simp
  with lb(2) show ?thesis by simp
qed

lemma ref_request_user: "ref_request q = Inr request \<Longrightarrow> pget request ''user'' = JStr (ref_did (CHR ''u''))"
  by (auto simp: ref_request_def make_request_def rbind_Inr_iff Let_def split: option.splits dest!: sign_payload_fields(1) [of _ _ _ _ "''user''"])
    (simp add: pget_def)

lemma ref_self_check:
  assumes s: "ref_server s" "lease \<in> set (map snd (lb_leases (pa_leases s)))" and lease: "ref_lease = Inr lease"
    and rf: "request_fields request = Some (1, [''gpt''], [])" and rh: "rh = digest ref_env32 (JObj request)"
    and d: "check_decision ref_env32 (JObj d) ref_roots (Some request) = Inr None" "pget d ''decider'' = JStr (ref_did (CHR ''d''))"
      "pget d ''mode'' = JStr ''normal''" "pget d ''request_hash'' = JStr rh" "pget d ''epoch'' = JInt 0" "pget d ''attempt'' = JInt 0"
      "pget d ''legs'' = JList [to_wire ref_leg]" "pget d ''issued_at'' = JFloat (Fin 121)"
  shows "self_check ref_runtime s (fresh_pending request rh user 1 False) [ref_leg] = Inr []"
    "decision_mode ref_runtime s (fresh_pending request rh user 1 False) = ''normal''" "pa_epoch s = 0"
proof -
  let ?p = "fresh_pending request rh user 1 False" and ?body = "proposed_body ref_runtime s (fresh_pending request rh user 1 False) [ref_leg]"
  show mode: "decision_mode ref_runtime s ?p = ''normal''" and epoch: "pa_epoch s = 0"
    using s(1) by (simp_all add: decision_mode_def fresh_pending_def pa_mode_def ref_server_def ledger_init_def lockdown_def lsdb_init_def
        ls_known_def dkeys_def MODE_NORMAL_def pa_epoch_def)
  have same: "pget ?body k = pget d k"
    if "k \<in> {''mode'', ''decider'', ''request_hash'', ''epoch'', ''attempt'', ''issued_at'', ''legs''}" for k
    using that d(2-) mode epoch s(1) by (auto simp: proposed_body_def pget_def fresh_pending_def ref_server_def ref_runtime_def)
  have eqs: "decision_shape ?body ref_roots = decision_shape d ref_roots" "decision_violations ?body request = decision_violations d request"
    by (rule shape_of_body; erule same)+
  have fields: "decision_fields ?body = Some (''normal'', [ref_leg])" "decision_fields d = Some (''normal'', [ref_leg])"
    by (simp_all add: decision_fields_def same d(3,7) from_to_wire)
  have violation_free: "violations ''normal'' [ref_leg] 1 [''gpt''] [] = []" by (simp add: violations_def ref_leg_def)
  have "decision_shape ?body ref_roots = Inr None"
    using d(1) by (simp add: eqs check_decision_def Let_def obj_of_def)
  moreover have "decision_violations ?body request = Inr []"
    using violation_free by (simp add: eqs decision_violations_def fields rf)
  moreover have "node_excluded ref_runtime s = []"
    using s(1) by (simp add: node_excluded_def pa_excluded_def ref_server_def ls_known_def lsdb_init_def dkeys_def pa_quarantined_def
        node_core_def base_hooks_def local_exclusions_def)
  moreover have "routed_through ?body [] = Inr []"
    by (simp add: routed_through_def fields sorted_set_def)
  moreover have "ineligible (rt_now ref_runtime) s (l_provider ref_leg) (l_model ref_leg) = None"
  proof -
    note c = ref_lease_checks [OF lease]
    have "pair_of_lease lease \<in> set (map (\<lambda>(p, m, x). (p, m)) (lb_eligible (pa_leases s) [''gpt''] (Fin 121)))"
      unfolding lb_eligible_def using s(2) c by (intro first_per_key_complete) (auto simp: in_force_def numv_def)
    then have "list_ex (\<lambda>(p, m, _). p = ref_did (CHR ''n'') \<and> m = ''gpt'') (lb_eligible (pa_leases s) [''gpt''] (Fin 121))"
      using c(2,3) by (auto simp: list_ex_iff strv_def)
    then show ?thesis
      using s(1) by (simp add: ineligible_def ref_server_def ref_leg_def ref_runtime_def ledger_init_def excludes_node_def is_latched_def dkeys_def)
  qed
  ultimately show "self_check ref_runtime s ?p [ref_leg] = Inr []"
    using s(1) by (simp add: self_check_def Let_def ref_server_def fresh_pending_def)
qed

theorem decisions_upright_witness:
  "\<exists>s t request d. mesh_node_init ref_env32 (\<lambda>_. None) id (ref_seed (CHR ''d'')) ref_roots [''serve''] False default_config 1 = Inr s \<and>
     mesh_reach ref_env32 (\<lambda>_. None) s t \<and> ref_request 1 = Inr request \<and>
     (\<exists>p. map_of (mn_pending t) (digest ref_env32 (JObj request)) = Some p \<and> pe_request p = request \<and> pe_decision p = Some d) \<and>
     decision_violations d request = Inr [] \<and> check_decision ref_env32 (JObj d) ref_roots (Some request) = Inr None"
proof -
  obtain s where s: "mesh_node_init ref_env32 (\<lambda>_. None) id (ref_seed (CHR ''d'')) ref_roots [''serve''] False default_config 1 = Inr s"
    "ref_server s" "idle s" "pa_leases s = lease_book_init ref_roots" by (rule ref_server_made)
  obtain lease where lease: "ref_lease = Inr lease" by (rule ref_lease_made)
  let ?dir = "Frame_in ref_runtime ref_world (ref_did (CHR ''f'')) (Some (JObj [(''k'', JStr ''dir''), (''leases'', JList [JObj lease])]))"
  define t where "t = node_step ?dir s"
  have t: "ref_server t" "idle t" "lease \<in> set (map snd (lb_leases (pa_leases t)))"
    using ref_directory [OF s(2,4) lease s(3)] by (simp_all add: t_def)
  obtain request where r: "ref_request 1 = Inr request" "request_evidence_ok ref_env32 (JObj request) ref_roots = Inr True"
    "request_fields request = Some (1, [''gpt''], [])" "pget request ''quorum'' = JInt 1" "request_scopes request = Inr []"
    "request_issued request = Inr (Fin 120)" "pget request ''issued_at'' = JFloat (Fin 120)" "pget request ''expires_at'' = JFloat (Fin 180)"
    by (rule ref_request_made [of 1]) simp_all
  have checked: "check_request ref_env32 (JObj request) ref_roots (Fin 121) = Inr None"
    using r(2,7,8) by (auto simp: check_request_def request_evidence_ok_def rbind_Inr_iff obj_of_def numv_def MAX_SKEW_def)
  obtain d where d: "ref_decision request = Inr d" "check_decision ref_env32 (JObj d) ref_roots (Some request) = Inr None"
    "decision_fields d = Some (''normal'', [ref_leg])" "field_str (JObj d) ''decider'' = ref_did (CHR ''d'')"
    "pget d ''request_hash'' = JStr (digest ref_env32 (JObj request))" "pget d ''mode'' = JStr ''normal''"
    by (rule ref_decision_made)
  obtain did where did: "identity_did ref_env32 (ref_seed (CHR ''d'')) = Inr did" "pget d ''decider'' = JStr did" "pget d ''epoch'' = JInt 0"
    "pget d ''attempt'' = JInt 0" "pget d ''legs'' = JList (map to_wire [ref_leg])" "pget d ''issued_at'' = JFloat (Fin 121)"
    using d(1) unfolding ref_decision_def by (rule decided_for)
  have me: "pget d ''decider'' = JStr (ref_did (CHR ''d''))" using did(1,2) by simp
  let ?rh = "digest ref_env32 (JObj request)" and ?u = "ref_did (CHR ''u'')"
  let ?submit = "[(''k'', JStr ''submit''), (''request'', JObj request)]"
  define p where "p = fresh_pending request ?rh ?u 1 False"
  have p: "pe_request p = request" "pe_rhash p = ?rh" "\<not> pe_lockdown p" "pe_attempt p = 0" by (simp_all add: p_def fresh_pending_def)
  let ?t1 = "t\<lparr>pa_users := List.insert ?u (pa_users t)\<rparr>" and ?R = ref_runtime and ?W = ref_world
  let ?t2 = "?t1\<lparr>mn_pending := [(?rh, p)]\<rparr>"
  have t2: "ref_server ?t2" "lease \<in> set (map snd (lb_leases (pa_leases ?t2)))" using t(1,3) by (simp_all add: ref_server_def)
  have wire: "pget d ''legs'' = JList [to_wire ref_leg]" using did(5) by simp
  note check = ref_self_check(1,2) [OF t2 lease r(3) refl d(2) me d(6,5) did(3,4) wire did(6), of ?u, folded p_def]
    ref_self_check(3) [OF t2 lease r(3) refl d(2) me d(6,5) did(3,4) wire did(6)]
  have env: "rt_env ?R = ref_env32" "rt_now ?R = Fin 121" "rt_wire ?R = (\<lambda>_ _. True)" by (simp_all add: ref_runtime_def)
  have "make_decision (rt_env ?R) (pa_identity ?t2) (pe_request p) [ref_leg] (decision_mode ?R ?t2 p) (pa_epoch ?t2) (pe_attempt p) (rt_now ?R) = Inr d"
    unfolding check(2,3) p env using d(1) t2(1) by (simp add: ref_decision_def ref_server_def)
  note signed = sign_and_send_signed [OF _ p(2) this, of "mesh_settle ?R ?W"]
  have "mesh_decide ?R ?W ?rh ?t2 = sign_and_send ?R (mesh_settle ?R ?W) p [ref_leg] ?t2"
    using check(1) r(3) p by (simp add: mesh_decide_def decide_step_def choose_legs_def act_defs ref_world_def)
  then have decided: "mn_pending (fst (mesh_decide ?R ?W ?rh ?t2)) = [(?rh, signed ?R ?t2 [ref_leg] d p)]"
    by (simp add: signed act_defs pa_note_def send_def env Let_def frame_def)
  have "refuse_reason ?t1 = None"
    using t(1) by (simp add: refuse_reason_def ref_server_def Let_def role_defs ledger_init_def lockdown_def excludes_node_def is_latched_def dkeys_def)
  then have accepted: "accept_request ?R ?W ?u request ?t1 = mesh_decide ?R ?W ?rh ?t2"
    using t(1,2) r(3) by (simp add: accept_request_def act_defs Let_def env ref_server_def idle_def p_def ledger_init_def lockdown_def)
  have submitted: "on_submit ?R ?W ?u ?submit t = accept_request ?R ?W ?u request ?t1"
    using t(1,2) checked ref_request_user [OF r(1)]
    by (simp add: on_submit_def act_defs Let_def env pget_def obj_of_def ref_server_def idle_def dkeys_def)
  have kinds: "in_frozenset (JStr ''submit'') FRAME_KINDS = Inr True" by code_simp
  define t' where "t' = node_step (Frame_in ?R ?W ?u (Some (JObj ?submit))) t"
  have "t' = fst (check_mode ?R (node_hooks ?R ?W) (fst (on_submit ?R ?W ?u ?submit t)))"
    using t(1) kinds
    by (simp add: t'_def handle_def act_defs aguard_def parse_frame_def pget_def rbind_def node_dispatch_def strv_def ref_server_def
        ref_roots_def tr_peers_def any_of_def)
  with decided accepted submitted have pend: "mn_pending t' = [(?rh, signed ?R ?t2 [ref_leg] d p)]"
    using keepsD [OF silent_mode_node(2) [of "[(?rh, signed ?R ?t2 [ref_leg] d p)]" ?R ?R ?W], of "fst (on_submit ?R ?W ?u ?submit t)"]
    by simp
  have reach: "mesh_reach ref_env32 (\<lambda>_. None) s t'"
    unfolding t'_def t_def by (intro mesh_reach.intros) (simp_all add: ref_runtime_def)
  have entry: "map_of (mn_pending t') ?rh = Some (signed ?R ?t2 [ref_leg] d p)" "pe_decision (signed ?R ?t2 [ref_leg] d p) = Some d"
    "pe_request (signed ?R ?t2 [ref_leg] d p) = request"
    using pend p(1) by (simp_all add: signed_def)
  have "tr_mesh ref_roots (pa_did s)" by (simp add: ref_roots_def)
  from decisions_upright [OF s(1) ref_env32_facts(1) length_ref_seed this reach entry(1,2)] entry
  show ?thesis using s(1) reach r(1) by auto
qed

section \<open>Where the default policy convicts its own node\<close>

lemma legs_shape_member:
  assumes "legs_shape tr decider vs providers = Inr ()" "v \<in> set vs"
  shows "\<exists>seen provider. leg_shape tr decider v seen = Inr provider"
  using assms by (induction vs arbitrary: providers) (auto simp: rbind_Inr_iff)

lemma shape_limits_hops:
  assumes "decision_shape d tr = Inr None" "pget d ''legs'' = JList (map to_wire legs)" "l \<in> set legs"
  shows "length (l_path l) \<le> MAX_HOPS"
proof -
  from assms(1,2) have "legs_shape tr (pget d ''decider'') (map to_wire legs) [] = Inr ()"
    by (auto simp: decision_shape_def reasons_None chain_iffs)
  from legs_shape_member [OF this, of "to_wire l"] assms(3) show ?thesis
    by (auto simp: leg_shape_def chain_iffs to_wire_def pget_def)
qed

text \<open>A route the policy is free to propose, because it is the cheapest, is one the node reports itself for when it has more
  than \<open>MAX_HOPS\<close> nodes; the reported node is latched and the mesh goes to lockdown.\<close>

lemma long_route_self_reports:
  assumes "l \<in> set legs" "MAX_HOPS < length (l_path l)" "self_check R s p legs = Inr problems"
  shows "problems \<noteq> []"
proof
  assume "problems = []"
  with assms(3) have "decision_shape (proposed_body R s p legs) (pa_trust s) = Inr None"
    by (auto simp: self_check_def Let_def rbind_Inr_iff split: option.splits if_splits)
  from shape_limits_hops [OF this _ assms(1)] assms(2) show False by (simp add: proposed_body_def pget_def)
qed

text \<open>The central fallback of the policy looks at what to avoid for the coordinator only, the check of the node for the provider too.\<close>

lemma central_leg_to_avoided:
  assumes "v_candidates view = [(provider, model)]" "model \<in> set models" "provider \<in> set avoid" "v_mode view \<noteq> MODE_LOCKDOWN"
    "coordinator_for view avoid provider = Some c"
  shows "plan diverse view models [] 1 avoid =
    Inr [\<lparr>l_provider = provider, l_model = model, l_path = [v_me view, c, provider], l_via = VIA_CENTRAL\<rparr>]"
proof -
  have "path_to view avoid provider [] = None" using assms(3) by (simp add: path_to_def shortest_path_def)
  then have "scored_entries view avoid [(provider, model)] = []" by (simp add: scored_entries_def)
  moreover have "central_entries view avoid [(provider, model)] [] = [(load_of view provider, 0, provider, model, [v_me view, c, provider])]"
    using assms(5) by (simp add: central_entries_def)
  ultimately show ?thesis
    using assms(1,2,4) by (simp add: plan_def Let_def pick_def central_leg_def)
qed

lemma those_wire: "those (map (from_wire \<circ> to_wire) legs) = Some legs"
  by (induction legs) (simp_all add: from_to_wire)

lemma avoided_provider_self_reports:
  assumes "l \<in> set legs" "d \<in> set (tl (l_path l))" "d \<in> set (pe_avoid p)" "self_check R s p legs = Inr problems"
  shows "problems \<noteq> []"
proof
  assume none: "problems = []"
  let ?body = "proposed_body R s p legs"
  have "decision_fields ?body = Some (decision_mode R s p, legs)"
    by (simp add: decision_fields_def proposed_body_def pget_def those_wire)
  with assms(4) none have "sorted_set (filter (\<lambda>d. d \<in> set (node_excluded R s @ pe_avoid p)) (concat (map (\<lambda>l. tl (l_path l)) legs))) = []"
    by (auto simp: self_check_def Let_def rbind_Inr_iff routed_through_def split: option.splits if_splits)
  from arg_cong [where f = set, OF this] assms(1-3) show False by (auto simp: sorted_set_def)
qed

lemma fallback_self_reports:
  assumes "v_candidates (node_view R s models) = [(provider, model)]" "model \<in> set models" "provider \<in> set (pe_avoid p)"
    "v_mode (node_view R s models) \<noteq> MODE_LOCKDOWN" "coordinator_for (node_view R s models) (pe_avoid p) provider = Some c"
    "request_fields (pe_request p) = Some (1, models, [])"
  shows "\<exists>legs. default_policy diverse (node_view R s models) (pe_request p) 1 (pe_avoid p) = Inr legs \<and> self_check R s p legs \<noteq> Inr []"
proof -
  let ?l = "\<lparr>l_provider = provider, l_model = model, l_path = [pa_did s, c, provider], l_via = VIA_CENTRAL\<rparr>"
  have "default_policy diverse (node_view R s models) (pe_request p) 1 (pe_avoid p) = Inr [?l]"
    using central_leg_to_avoided [OF assms(1-5)] assms(6) by (simp add: default_policy_def node_view_def Let_def)
  moreover have "self_check R s p [?l] \<noteq> Inr []"
    using avoided_provider_self_reports [of ?l "[?l]" provider p R s] assms(3) by auto
  ultimately show ?thesis by blast
qed

section \<open>A model node does not sign what convicts it\<close>

lemma contains_drop: "contains (drop n s) p \<Longrightarrow> contains s p"
proof (induction n arbitrary: s)
  case (Suc n)
  then show ?case by (cases s) auto
qed simp

lemma canaries_found: "token \<in> set (canaries s) \<Longrightarrow> contains s token \<and> is_canary token"
proof (induction s rule: canaries.induct)
  case (2 c cs)
  show ?case
  proof (cases "canary_at (c # cs) \<and> token = take 37 (c # cs)")
    case True
    then have "starts_with (c # cs) token" "37 \<le> length (c # cs)"
      by (auto simp: starts_with_iff canary_at_def simp del: drop_Suc_Cons)
    with True show ?thesis
      by (auto simp: is_canary_def canary_at_def starts_with_iff CANARY_PREFIX_def drop_take)
  next
    case False
    with 2 contains_drop [of 37 "c # cs" token] show ?thesis by (auto split: if_splits)
  qed
qed simp

lemma answer_guarded:
  assumes "answer R W request model h s = (s', Inr (STATUS_OK, out, reason))"
  shows "guard_output (rt_dec R) out h request = None"
  using assms
  by (auto simp: answer_def act_defs split: sum.splits json.splits if_splits option.splits prod.splits)

lemma made_response_fields:
  assumes "make_response E seed request decision model lease out STATUS_OK reason now = Inr r" "identity_did E seed = Inr me"
  shows "pget r ''lease'' = JObj lease" "pget r ''output'' = JStr out" "pget r ''provider'' = JStr me" "pget r ''model'' = JStr model"
proof -
  from assms obtain payload where "sign_payload E seed payload = Inr r" "pget payload ''lease'' = JObj lease" "pget payload ''output'' = JStr out"
    "pget payload ''provider'' = JStr me" "pget payload ''model'' = JStr model"
    by (auto simp: make_response_def rbind_Inr_iff Let_def pget_def split: option.splits)
  then show "pget r ''lease'' = JObj lease" "pget r ''output'' = JStr out" "pget r ''provider'' = JStr me" "pget r ''model'' = JStr model"
    by (simp_all add: sign_payload_fields(1))
qed

lemma convictD: "convict m = Inr (Some ts) \<Longrightarrow> m = Inr ts"
  by (auto simp: convict_def finish_def rbind_def split: sum.splits exit.splits)

text \<open>An answer a model node has just obtained with a current lease and signed is no evidence against it or its model.\<close>

lemma honest_answer:
  assumes "grant_ok E h" "rt_env R = E" "rt_dec R = dec" "lb_check E lb (JObj (ls_lease h)) me model now (Fin 0) = Inr None" "lb_trust lb = tr"
    "identity_did E seed = Inr me" "answer R W request model h s = (s', Inr (STATUS_OK, out, reason))"
    "make_response E seed request decision model (ls_lease h) out STATUS_OK reason t = Inr r"
    and no_collision: "\<forall>x. is_canary x \<and> contains out x \<and> canary_hash E x = canary_hash E (ls_canary h) \<longrightarrow> x = ls_canary h"
  shows "ev_lease_violation E [(''response'', JObj r)] tr \<noteq> Inr (Some targets)"
    "ev_secret_exfiltration E [(''response'', JObj r)] tr \<noteq> Inr (Some targets)"
    "ev_forbidden_capability E dec [(''request'', JObj request), (''response'', JObj r)] tr \<noteq> Inr (Some targets)"
proof -
  note f = made_response_fields [OF assms(8,6)]
  from assms(4,5) have lease: "check_lease E (JObj (ls_lease h)) tr = Inr None" "pget (ls_lease h) ''subject'' = JStr me"
    "pget (ls_lease h) ''model'' = JStr model"
    by (auto simp: lb_check_def obj_of_def Let_def split: if_splits)
  have guard: "guard_output dec out h request = None" using answer_guarded [OF assms(7)] assms(3) by simp
  show "ev_lease_violation E [(''response'', JObj r)] tr \<noteq> Inr (Some targets)"
    using lease f by (auto simp: ev_lease_violation_def pget_def obj_of_def field_str_def chain_iffs Let_def strv_def dest!: convictD)
  have "\<not> canary_leaked E out (canary_hash E (ls_canary h))"
  proof
    assume "canary_leaked E out (canary_hash E (ls_canary h))"
    then obtain token where "token \<in> set (canaries out)" "canary_hash E token = canary_hash E (ls_canary h)"
      by (auto simp: canary_leaked_def canary_hash_def list_ex_iff)
    with canaries_found [of token out] no_collision have "contains out (ls_canary h)" by blast
    with guard show False by (auto simp: guard_output_def split: if_splits)
  qed
  then show "ev_secret_exfiltration E [(''response'', JObj r)] tr \<noteq> Inr (Some targets)"
    using f assms(1) by (auto simp: ev_secret_exfiltration_def grant_ok_def pget_def obj_of_def field_str_def chain_iffs Let_def strv_def dest!: convictD)
  have "\<exists>vs. pget request ''scopes'' = JList vs" if "request_shape request = Inr None"
    using that by (cases "pget request ''scopes''") (auto simp: request_shape_def reasons_None chain_iffs)
  then show "ev_forbidden_capability E dec [(''request'', JObj request), (''response'', JObj r)] tr \<noteq> Inr (Some targets)"
    using f guard
    by (auto simp: ev_forbidden_capability_def guard_output_def pget_def obj_of_def field_str_def chain_iffs Let_def strv_def list_of_def
        request_evidence_ok_def split: if_splits json.splits dest!: convictD)
qed

end
