(* ===== verification/Client.thy ===== *)
theory Client
  imports Participant
begin

text \<open>
  \<^verbatim>\<open>inference/client.py\<close>: the user's end. A client signs a request, sends it to serving nodes (or, in lockdown, pins the
  model nodes itself and goes to a standby forwarder), and judges what comes back with a safety layer of its own. The random
  request id is a function \<open>nonce\<close> of the state, the handle of an ask an argument; of the safety layer the client shares the lease book and
  the ledger of its participant.
\<close>

section \<open>The state\<close>

definition OUTCOME_ACCEPTED :: string where "OUTCOME_ACCEPTED = ''accepted''"
definition OUTCOME_INTERCEPTED :: string where "OUTCOME_INTERCEPTED = ''intercepted''"
definition OUTCOME_REFUSED :: string where "OUTCOME_REFUSED = ''refused''"
definition HELLO_EVERY :: pyfloat where "HELLO_EVERY = Fin 30"

lemmas outcome_kinds = OUTCOME_ACCEPTED_def OUTCOME_INTERCEPTED_def OUTCOME_REFUSED_def

record outcome =
  oc_status :: string
  oc_output :: "string option"
  oc_providers :: "did list"
  oc_reasons :: "string list"
  oc_mode :: string
  oc_via :: "did option"

record ask =
  ak_models :: "string list"
  ak_text :: string
  ak_scopes :: "string list"
  ak_quorum :: int
  ak_ttl :: pyfloat
  ak_request :: "obj option"
  ak_rhash :: string
  ak_mode :: string
  ak_tries :: int
  ak_deadline :: pyfloat
  ak_tried :: "did list"
  ak_awaiting :: "did list"
  ak_unresponsive :: "did list"
  ak_waiting_dir :: bool
  ak_last_reason :: string
  ak_outcome :: "outcome option"

record user_client = participant +
  uc_entries :: "did list"
  uc_standby :: "did list"
  uc_fanout :: int
  uc_timeout :: pyfloat
  uc_max_tries :: int
  uc_safety :: safety_layer
  uc_asks :: "(string, ask) dict"
  uc_by_rhash :: "(string, string) dict"
  uc_late :: "(string, obj) dict"
  uc_next_hello :: pyfloat

type_synonym 'a client_act = "(user_client, 'a) act"

definition fresh_ask :: "string list \<Rightarrow> string \<Rightarrow> string list \<Rightarrow> int \<Rightarrow> pyfloat \<Rightarrow> ask" where
  "fresh_ask models txt scopes quorum ttl =
     \<lparr>ak_models = models, ak_text = txt, ak_scopes = scopes, ak_quorum = quorum, ak_ttl = ttl, ak_request = None, ak_rhash = [],
      ak_mode = MODE_NORMAL, ak_tries = 0, ak_deadline = Fin 0, ak_tried = [], ak_awaiting = [], ak_unresponsive = [],
      ak_waiting_dir = False, ak_last_reason = [], ak_outcome = None\<rparr>"

definition user_client_init ::
  "env \<Rightarrow> (string \<Rightarrow> string \<Rightarrow> bool) \<Rightarrow> identity \<Rightarrow> trust_roots \<Rightarrow> did list \<Rightarrow> did list \<Rightarrow> int \<Rightarrow> pyfloat \<Rightarrow> int \<Rightarrow> config \<Rightarrow> int \<Rightarrow>
   user_client res" where
  "user_client_init E agree seed tr entries standby fanout timeout max_tries cfg time_ns =
     rbind (participant_init E seed tr [] cfg time_ns) (\<lambda>p.
       if \<not> tr_users tr (pa_did p) then Inl (ValueError ''a user client must be on the users list'')
       else Inr (fold (\<lambda>d s. fst (connect d s)) (entries @ standby)
         (participant.extend p (user_client.fields entries standby (max 1 fanout) timeout max_tries
            (safety_init tr (pa_leases p) (pa_ledger p) agree MAX_SKEW 4096) [] [] [] (Fin 0)))))"

definition on_ask :: "string \<Rightarrow> (ask \<Rightarrow> ask) \<Rightarrow> unit client_act" where
  "on_ask h f =
     amod (\<lambda>s. case map_of (uc_asks s) h of Some a \<Rightarrow> s\<lparr>uc_asks := dset h (f a) (uc_asks s)\<rparr> | None \<Rightarrow> s)"

definition forget_rhash :: "string \<Rightarrow> unit client_act" where
  "forget_rhash rhash = amod (\<lambda>s. s\<lparr>uc_by_rhash := dpop rhash (uc_by_rhash s)\<rparr>)"

text \<open>A method of an ask is run on its entry; asks are never removed.\<close>

definition with_ask :: "string \<Rightarrow> (ask \<Rightarrow> unit client_act) \<Rightarrow> unit client_act" where
  "with_ask h f = aget (\<lambda>s. case map_of (uc_asks s) h of None \<Rightarrow> alift (Inl (KeyError h)) | Some a \<Rightarrow> f a)"

section \<open>Outcomes\<close>

definition finish_ask :: "string \<Rightarrow> outcome \<Rightarrow> unit client_act" where
  "finish_ask h out = with_ask h (\<lambda>a.
     aseq (on_ask h (\<lambda>a. a\<lparr>ak_outcome := Some out\<rparr>))
       (aseq (forget_rhash (ak_rhash a))
         (aseq (case ak_request a of
                  None \<Rightarrow> aret ()
                | Some request \<Rightarrow> amod (\<lambda>s. let d = dset (ak_rhash a) request (uc_late s) in s\<lparr>uc_late := drop (length d - 256) d\<rparr>))
           (pa_note ''outcome''))))"

definition refused_outcome :: "string list \<Rightarrow> string \<Rightarrow> did option \<Rightarrow> outcome" where
  "refused_outcome why mode via =
     \<lparr>oc_status = OUTCOME_REFUSED, oc_output = None, oc_providers = [], oc_reasons = why, oc_mode = mode, oc_via = via\<rparr>"

definition intercepted_outcome :: "string list \<Rightarrow> string \<Rightarrow> did \<Rightarrow> outcome" where
  "intercepted_outcome why mode via =
     \<lparr>oc_status = OUTCOME_INTERCEPTED, oc_output = None, oc_providers = [], oc_reasons = why, oc_mode = mode, oc_via = Some via\<rparr>"

section \<open>Submitting\<close>

definition sign_ask :: "runtime \<Rightarrow> (user_client \<Rightarrow> string) \<Rightarrow> string \<Rightarrow> ask \<Rightarrow> int \<Rightarrow> (did \<times> string) list \<Rightarrow> obj client_act" where
  "sign_ask R nonce h a quorum pins =
     aseq (awhen (ak_rhash a \<noteq> []) (forget_rhash (ak_rhash a)))
       (aget (\<lambda>s. abind (alift (make_request (rt_env R) (pa_identity s) (nonce s) (ak_models a) (ak_text a) (ak_scopes a) quorum pins
                                  (ak_ttl a) (rt_now R))) (\<lambda>request.
          let rhash = digest (rt_env R) (JObj request) in
          aseq (on_ask h (\<lambda>a. a\<lparr>ak_request := Some request, ak_rhash := rhash, ak_tries := ak_tries a + 1,
                                 ak_deadline := fadd (rt_now R) (uc_timeout s)\<rparr>))
            (aseq (amod (\<lambda>s. s\<lparr>uc_by_rhash := dset rhash h (uc_by_rhash s)\<rparr>)) (aret request)))))"

definition submit_normal :: "runtime \<Rightarrow> (user_client \<Rightarrow> string) \<Rightarrow> string \<Rightarrow> ask \<Rightarrow> unit client_act" where
  "submit_normal R nonce h a = aget (\<lambda>s.
     let usable = filter (\<lambda>e. \<not> excludes_node (pa_ledger s) e) (uc_entries s);
         unused = filter (\<lambda>e. e \<notin> set (ak_tried a)) usable;
         fresh = (if unused = [] then usable else unused);
         chosen = take (nat (uc_fanout s)) fresh
     in if fresh = [] then finish_ask h (refused_outcome [''no usable entry''] MODE_NORMAL None)
        else aseq (on_ask h (\<lambda>a. a\<lparr>ak_mode := MODE_NORMAL\<rparr>))
          (abind (sign_ask R nonce h a (ak_quorum a) []) (\<lambda>request.
            aseq (on_ask h (\<lambda>a. a\<lparr>ak_awaiting := remdups chosen\<rparr>))
              (afor (\<lambda>e. aseq (on_ask h (\<lambda>a. a\<lparr>ak_tried := ak_tried a @ [e]\<rparr>))
                          (aseq (send R e ''submit'' [(''request'', JObj request)]) (aret ()))) chosen))))"

definition forwarder :: "user_client \<Rightarrow> did list \<Rightarrow> did option" where
  "forwarder s avoid =
     find (\<lambda>d. d \<notin> set avoid \<and> \<not> excludes_node (pa_ledger s) d \<and> \<not> tr_deciders (pa_trust s) d) (uc_standby s)"

text \<open>One pass over the candidates: the place of the model in the request, the provider, the model.\<close>

fun pin_pass :: "bool \<Rightarrow> int \<Rightarrow> (nat \<times> did \<times> string) list \<Rightarrow> (did \<times> string) list \<Rightarrow> (did \<times> string) list" where
  "pin_pass different quorum [] pins = pins"
| "pin_pass different quorum ((i, p, m) # cands) pins =
     (if quorum \<le> int (length pins) then pins
      else if p \<in> fst ` set pins \<or> different \<and> m \<in> snd ` set pins then pin_pass different quorum cands pins
      else pin_pass different quorum cands (pins @ [(p, m)]))"

definition pin_candidates :: "user_client \<Rightarrow> pyfloat \<Rightarrow> string list \<Rightarrow> did list \<Rightarrow> (nat \<times> did \<times> string) list" where
  "pin_candidates s now models avoid =
     sort (map (\<lambda>(p, m, _). (length (takeWhile (\<lambda>x. x \<noteq> m) (sorted_set models)), p, m))
       (filter (\<lambda>(p, m, _). p \<notin> set avoid \<and> \<not> excludes_node (pa_ledger s) p \<and> \<not> is_latched (pa_ledger s) (model_target m))
         (lb_eligible (pa_leases s) models now)))"

definition pick_pins :: "user_client \<Rightarrow> pyfloat \<Rightarrow> string list \<Rightarrow> int \<Rightarrow> did list \<Rightarrow> (did \<times> string) list" where
  "pick_pins s now models quorum avoid =
     (let cands = pin_candidates s now models avoid in pin_pass False quorum cands (pin_pass True quorum cands []))"

definition ask_directory :: "runtime \<Rightarrow> string \<Rightarrow> did \<Rightarrow> unit client_act" where
  "ask_directory R h fwd = aget (\<lambda>s.
     aseq (on_ask h (\<lambda>a. a\<lparr>ak_waiting_dir := True, ak_deadline := fadd (rt_now R) (uc_timeout s), ak_tried := ak_tried a @ [fwd]\<rparr>))
       (aseq (send R fwd ''dir?'' []) (aret ())))"

definition submit_pinned :: "runtime \<Rightarrow> (user_client \<Rightarrow> string) \<Rightarrow> string \<Rightarrow> ask \<Rightarrow> did \<Rightarrow> int \<Rightarrow> (did \<times> string) list \<Rightarrow> unit client_act" where
  "submit_pinned R nonce h a fwd quorum pins =
     aseq (on_ask h (\<lambda>a. a\<lparr>ak_waiting_dir := False\<rparr>))
       (abind (sign_ask R nonce h a quorum pins) (\<lambda>request.
         aseq (on_ask h (\<lambda>a. a\<lparr>ak_tried := ak_tried a @ [fwd], ak_awaiting := [fwd]\<rparr>))
           (aget (\<lambda>s.
             aseq (afor (\<lambda>inc. aseq (send R fwd ''flood'' [(''obj'', JObj inc)]) (aret ())) (last_n 2 (signed_incidents (pa_ledger s))))
               (aseq (send R fwd ''submit'' [(''request'', JObj request)]) (pa_note ''lockdown-submit''))))))"

definition submit_lockdown :: "runtime \<Rightarrow> (user_client \<Rightarrow> string) \<Rightarrow> string \<Rightarrow> ask \<Rightarrow> unit client_act" where
  "submit_lockdown R nonce h a =
     aseq (on_ask h (\<lambda>a. a\<lparr>ak_mode := MODE_LOCKDOWN, ak_awaiting := []\<rparr>))
       (aseq (forget_rhash (ak_rhash a))
         (aget (\<lambda>s.
           case forwarder s (ak_unresponsive a) of
             None \<Rightarrow> finish_ask h (refused_outcome [''lockdown: no standby forwarder''] MODE_LOCKDOWN None)
           | Some fwd \<Rightarrow>
               (let quorum = max (ak_quorum a) LOCKDOWN_QUORUM;
                    pins = pick_pins s (rt_now R) (ak_models a) quorum (ak_unresponsive a)
                in if int (length pins) < quorum
                   then if ak_waiting_dir a
                        then finish_ask h (refused_outcome [''lockdown: '' @ int_str (int (length pins)) @ '' of '' @ int_str quorum @
                               '' independent model nodes available''] MODE_LOCKDOWN None)
                        else ask_directory R h fwd
                   else submit_pinned R nonce h a fwd quorum pins))))"

definition submit :: "runtime \<Rightarrow> (user_client \<Rightarrow> string) \<Rightarrow> string \<Rightarrow> unit client_act" where
  "submit R nonce h = with_ask h (\<lambda>a. aget (\<lambda>s.
     if ak_outcome a \<noteq> None then aret ()
     else if uc_max_tries s \<le> ak_tries a
     then finish_ask h (refused_outcome (''out of tries'' # (if ak_last_reason a = [] then [] else [ak_last_reason a])) (ak_mode a) None)
     else if lockdown (pa_ledger s) then submit_lockdown R nonce h a
     else submit_normal R nonce h a))"

definition client_ask ::
  "runtime \<Rightarrow> (user_client \<Rightarrow> string) \<Rightarrow> string \<Rightarrow> string list \<Rightarrow> string \<Rightarrow> string list \<Rightarrow> int \<Rightarrow> pyfloat \<Rightarrow> string client_act" where
  "client_ask R nonce h models txt scopes quorum ttl =
     aseq (amod (\<lambda>s. s\<lparr>uc_asks := dset h (fresh_ask models txt scopes quorum ttl) (uc_asks s)\<rparr>))
       (aseq (submit R nonce h) (aret h))"

definition client_outcome :: "user_client \<Rightarrow> string \<Rightarrow> outcome option" where
  "client_outcome s h = (case map_of (uc_asks s) h of None \<Rightarrow> None | Some a \<Rightarrow> ak_outcome a)"

section \<open>The overridden methods of the participant\<close>

definition client_incident :: "runtime \<Rightarrow> (user_client \<Rightarrow> string) \<Rightarrow> incident \<Rightarrow> unit client_act" where
  "client_incident R nonce inc = aget (\<lambda>s.
     afor (\<lambda>h. with_ask h (\<lambda>a. awhen (ak_outcome a = None \<and> ak_mode a \<noteq> MODE_LOCKDOWN) (submit R nonce h))) (dkeys (uc_asks s)))"

definition client_directory :: "runtime \<Rightarrow> (user_client \<Rightarrow> string) \<Rightarrow> did \<Rightarrow> unit client_act" where
  "client_directory R nonce src = aget (\<lambda>s.
     afor (\<lambda>h. with_ask h (\<lambda>a. awhen (ak_waiting_dir a \<and> ak_outcome a = None) (submit_lockdown R nonce h a))) (dkeys (uc_asks s)))"

definition client_core :: "runtime \<Rightarrow> (user_client \<Rightarrow> string) \<Rightarrow> user_client hooks" where
  "client_core R nonce = base_hooks
     \<lparr>hk_incident := client_incident R nonce, hk_directory := client_directory R nonce, hk_beats := False\<rparr>"

definition client_evidence :: "runtime \<Rightarrow> (user_client \<Rightarrow> string) \<Rightarrow> (string \<times> obj) list \<Rightarrow> unit client_act" where
  "client_evidence R nonce evidence =
     afor (\<lambda>(kind, ev). aget (\<lambda>s.
       abind (alift (make_incident (rt_env R) (pa_identity s) kind ev (rt_now R))) (\<lambda>inc.
         aseq (publish R (client_core R nonce) inc) (aret ())))) evidence"

section \<open>Answers\<close>

text \<open>A lookup in a dictionary whose keys are strings: an unhashable key raises.\<close>

definition get_key :: "(string, 'v) dict \<Rightarrow> json \<Rightarrow> 'v option res" where
  "get_key d v =
     (case v of
        JStr s \<Rightarrow> Inr (map_of d s)
      | JList _ \<Rightarrow> Inl (TypeError ''unhashable type'')
      | JObj _ \<Rightarrow> Inl (TypeError ''unhashable type'')
      | _ \<Rightarrow> Inr None)"

fun item_pairs :: "json list \<Rightarrow> (obj \<times> obj) list" where
  "item_pairs [] = []"
| "item_pairs (JList [JObj d, JObj r] # vs) = (d, r) # item_pairs vs"
| "item_pairs (_ # vs) = item_pairs vs"

definition client_judge :: "runtime \<Rightarrow> obj \<Rightarrow> (obj \<times> obj) list \<Rightarrow> int option \<Rightarrow> adjudication client_act" where
  "client_judge R request items quorum s =
     (case adjudicate (rt_env R) (rt_dec R) request (map (\<lambda>(d, r). (JObj d, JObj r)) items) (rt_now R) quorum None
             ((uc_safety s)\<lparr>sl_leases := pa_leases s, sl_ledger := pa_ledger s\<rparr>) of
        (sl, r) \<Rightarrow> (s\<lparr>uc_safety := sl\<rparr>, r))"

definition ask_needs :: "ask \<Rightarrow> obj \<Rightarrow> int res" where
  "ask_needs a request =
     (case pget request ''quorum'' of
        JInt q \<Rightarrow> Inr (if ak_mode a = MODE_LOCKDOWN then max q LOCKDOWN_QUORUM else q)
      | _ \<Rightarrow> Inl (TypeError ''malformed request''))"

definition silent_pins :: "obj \<Rightarrow> (obj \<times> obj) list \<Rightarrow> did list res" where
  "silent_pins request items =
     (if list_ex (\<lambda>(d, r). as_list (pget r ''provider'') \<noteq> None \<or> as_obj (pget r ''provider'') \<noteq> None) items
      then Inl (TypeError ''unhashable type'')
      else case request_fields request of
             None \<Rightarrow> Inl (TypeError ''malformed request'')
           | Some (_, _, pins) \<Rightarrow> Inr (filter (\<lambda>p. list_all (\<lambda>(d, r). pget r ''provider'' \<noteq> JStr p) items) (map fst pins)))"

definition take_verdict :: "runtime \<Rightarrow> (user_client \<Rightarrow> string) \<Rightarrow> did \<Rightarrow> string \<Rightarrow> ask \<Rightarrow> obj \<Rightarrow> (obj \<times> obj) list \<Rightarrow> adjudication \<Rightarrow> unit client_act" where
  "take_verdict R nonce src h a request items v =
     (if adj_evidence v \<noteq> [] then
        aseq (finish_ask h (intercepted_outcome (adj_reasons v) (ak_mode a) src)) (client_evidence R nonce (adj_evidence v))
      else if adj_status v = ACCEPTED then
        finish_ask h \<lparr>oc_status = OUTCOME_ACCEPTED, oc_output = adj_output v, oc_providers = adj_providers v,
                      oc_reasons = adj_reasons v, oc_mode = ak_mode a, oc_via = Some src\<rparr>
      else if adj_status v = INTERCEPTED then finish_ask h (intercepted_outcome (adj_reasons v) (ak_mode a) src)
      else if ak_mode a = MODE_LOCKDOWN then
        abind (alift (silent_pins request items)) (\<lambda>silent.
          aseq (on_ask h (\<lambda>a. a\<lparr>ak_unresponsive := ak_unresponsive a @ silent\<rparr>)) (submit R nonce h))
      else if src \<in> set (ak_awaiting a) then
        aseq (on_ask h (\<lambda>a. a\<lparr>ak_awaiting := filter (\<lambda>d. d \<noteq> src) (ak_awaiting a),
                               ak_last_reason := ''the answers relayed by '' @ src @ '' did not verify''\<rparr>))
          (aseq (pa_note ''unverified'')
            (awhen (filter (\<lambda>d. d \<noteq> src) (ak_awaiting a) = []) (submit R nonce h)))
      else aret ())"

definition judge_late :: "runtime \<Rightarrow> (user_client \<Rightarrow> string) \<Rightarrow> json \<Rightarrow> (obj \<times> obj) list \<Rightarrow> unit client_act" where
  "judge_late R nonce rhash items = aget (\<lambda>s.
     abind (alift (get_key (uc_late s) rhash)) (\<lambda>late.
       case late of
         None \<Rightarrow> aret ()
       | Some request \<Rightarrow> abind (client_judge R request items None) (\<lambda>v. client_evidence R nonce (adj_evidence v))))"

definition on_result :: "runtime \<Rightarrow> (user_client \<Rightarrow> string) \<Rightarrow> did \<Rightarrow> obj \<Rightarrow> unit client_act" where
  "on_result R nonce src f =
     abind (alift (iterate (or_empty (pget f ''items'')))) (\<lambda>vs.
     let items = item_pairs vs in
     aseq (afor (\<lambda>(d, r). aseq (on_leases (lb_add (rt_env R) (pget r ''lease''))) (aret ())) items)
       (aget (\<lambda>s. abind (alift (get_key (uc_by_rhash s) (pget f ''request_hash''))) (\<lambda>handle.
          case (case handle of None \<Rightarrow> None | Some h \<Rightarrow> map_option (Pair h) (map_of (uc_asks s) h)) of
            None \<Rightarrow> judge_late R nonce (pget f ''request_hash'') items
          | Some (h, a) \<Rightarrow>
              (case ak_request a of
                 None \<Rightarrow> alift (Inl (TypeError ''no request''))
               | Some request \<Rightarrow>
                   abind (alift (ask_needs a request)) (\<lambda>quorum.
                   abind (client_judge R request items (Some quorum)) (take_verdict R nonce src h a request items)))))))"

definition last_word :: "string \<Rightarrow> string" where
  "last_word s = rev (takeWhile (\<lambda>c. c \<noteq> CHR '' '') (rev s))"

definition on_refused :: "runtime \<Rightarrow> (user_client \<Rightarrow> string) \<Rightarrow> did \<Rightarrow> obj \<Rightarrow> unit client_act" where
  "on_refused R nonce src f = aget (\<lambda>s.
     abind (alift (get_key (uc_by_rhash s) (pget f ''request_hash''))) (\<lambda>handle.
       case (case handle of None \<Rightarrow> None | Some h \<Rightarrow> map_option (Pair h) (map_of (uc_asks s) h)) of
         None \<Rightarrow> aret ()
       | Some (h, a) \<Rightarrow>
           (let reason = strv (pget f ''reason''); awaiting = filter (\<lambda>d. d \<noteq> src) (ak_awaiting a);
                a' = a\<lparr>ak_awaiting := awaiting, ak_last_reason := reason\<rparr>
            in if ak_outcome a \<noteq> None \<or> src \<notin> set (ak_awaiting a) then aret ()
               else aseq (on_ask h (\<lambda>a. a\<lparr>ak_awaiting := filter (\<lambda>d. d \<noteq> src) (ak_awaiting a), ak_last_reason := reason\<rparr>))
                 (aseq (pa_note ''refused'')
                   (if starts_with reason ''intercepted''
                    then finish_ask h (intercepted_outcome [reason] (ak_mode a) src)
                    else if starts_with reason ''lockdown'' \<and> ak_mode a \<noteq> MODE_LOCKDOWN then submit_lockdown R nonce h a'
                    else if awaiting \<noteq> [] then aret ()
                    else aseq (awhen (ak_mode a = MODE_LOCKDOWN \<and> contains reason ''not eligible'')
                                 (on_ask h (\<lambda>a. a\<lparr>ak_unresponsive := ak_unresponsive a @ [last_word reason]\<rparr>)))
                           (submit R nonce h))))))"

section \<open>The timer\<close>

definition check_deadline :: "runtime \<Rightarrow> (user_client \<Rightarrow> string) \<Rightarrow> string \<Rightarrow> unit client_act" where
  "check_deadline R nonce h = with_ask h (\<lambda>a.
     awhen (ak_outcome a = None \<and> fle (ak_deadline a) (rt_now R))
       (aseq (awhen (ak_mode a = MODE_LOCKDOWN \<and> ak_tried a \<noteq> [])
                (on_ask h (\<lambda>a. a\<lparr>ak_unresponsive := ak_unresponsive a @ [last (ak_tried a)], ak_waiting_dir := False\<rparr>)))
         (submit R nonce h)))"

definition client_tick :: "runtime \<Rightarrow> (user_client \<Rightarrow> string) \<Rightarrow> pyfloat \<Rightarrow> unit client_act" where
  "client_tick R nonce now = aget (\<lambda>s.
     aseq (awhen (fle (uc_next_hello s) now)
             (aseq (amod (\<lambda>s. s\<lparr>uc_next_hello := fadd now HELLO_EVERY\<rparr>))
               (afor (\<lambda>d. aseq (send R d ''dir?'' []) (aret ())) (uc_entries s @ uc_standby s))))
       (afor (check_deadline R nonce) (dkeys (uc_asks s))))"

section \<open>The client\<close>

definition client_hooks :: "runtime \<Rightarrow> (user_client \<Rightarrow> string) \<Rightarrow> user_client hooks" where
  "client_hooks R nonce = (client_core R nonce)\<lparr>hk_tick := client_tick R nonce\<rparr>"

definition client_dispatch :: "runtime \<Rightarrow> (user_client \<Rightarrow> string) \<Rightarrow> user_client dispatch" where
  "client_dispatch R nonce kind =
     (if kind = ''result'' then Some (on_result R nonce)
      else if kind = ''refused'' then Some (on_refused R nonce)
      else participant_dispatch R (client_hooks R nonce) kind)"

inductive client_step :: "env \<Rightarrow> decoder \<Rightarrow> user_client \<Rightarrow> user_client \<Rightarrow> bool" for E dec where
  receives: "rt_env R = E \<Longrightarrow> rt_dec R = dec \<Longrightarrow>
    client_step E dec s (fst (handle R (client_hooks R nonce) (client_dispatch R nonce) src payload s))"
| ticks: "rt_env R = E \<Longrightarrow> rt_dec R = dec \<Longrightarrow> client_step E dec s (fst (tick R (client_hooks R nonce) s))"
| asks: "rt_env R = E \<Longrightarrow> rt_dec R = dec \<Longrightarrow> h \<notin> set (dkeys (uc_asks s)) \<Longrightarrow>
    client_step E dec s (fst (client_ask R nonce h models txt scopes quorum ttl s))"

end
