(* ===== verification/Asking.thy ===== *)
theory Asking
  imports Client Flooding
begin

text \<open>
  What a user client promises (\<^verbatim>\<open>inference/client.py\<close>): the answers it accepts are vouched for, by the
  quorum its user asked for, and an outcome is never revised. The invariant is kept by every frame, tick and ask.
\<close>

section \<open>The invariant\<close>

lemma client_fields:
  assumes "participant.more q = participant.more (p :: user_client)"
  shows "uc_asks q = uc_asks p" "uc_by_rhash q = uc_by_rhash p" "uc_safety q = uc_safety p"
  using assms by (cases p; cases q; simp)+

text \<open>What an ask is for never changes.\<close>

definition wanted :: "ask \<Rightarrow> string list \<times> string \<times> string list \<times> int \<times> pyfloat" where
  "wanted a = (ak_models a, ak_text a, ak_scopes a, ak_quorum a, ak_ttl a)"

definition request_for :: "env \<Rightarrow> identity \<Rightarrow> ask \<Rightarrow> obj \<Rightarrow> bool" where
  "request_for E seed a request \<longleftrightarrow>
     (\<exists>req_id quorum pins issued. ak_quorum a \<le> quorum \<and>
        make_request E seed req_id (ak_models a) (ak_text a) (ak_scopes a) quorum pins (ak_ttl a) issued = Inr request)"

definition answer_backed ::
  "env \<Rightarrow> decoder \<Rightarrow> trust_roots \<Rightarrow> (string \<Rightarrow> string \<Rightarrow> bool) \<Rightarrow> obj \<Rightarrow> string \<Rightarrow> did \<Rightarrow> bool" where
  "answer_backed E dec tr agree request answer p \<longleftrightarrow>
     (\<exists>layer now decision response. sl_trust layer = tr \<and> vouched E dec layer request now decision response \<and>
        verify_payload E response (Some (tr_mesh tr)) = (True, Some p) \<and>
        (field_str response ''output'' = answer \<or> agree answer (field_str response ''output'')))"

definition well_answered :: "env \<Rightarrow> decoder \<Rightarrow> trust_roots \<Rightarrow> (string \<Rightarrow> string \<Rightarrow> bool) \<Rightarrow> identity \<Rightarrow> ask \<Rightarrow> outcome \<Rightarrow> bool" where
  "well_answered E dec tr agree seed a out \<longleftrightarrow>
     (oc_status out = OUTCOME_ACCEPTED \<longrightarrow>
        (\<exists>request answer. request_for E seed a request \<and> oc_output out = Some answer \<and>
           distinct (oc_providers out) \<and> ak_quorum a \<le> int (length (oc_providers out)) \<and>
           (oc_mode out = MODE_LOCKDOWN \<longrightarrow> LOCKDOWN_QUORUM \<le> int (length (oc_providers out))) \<and>
           (\<forall>p\<in>set (oc_providers out). answer_backed E dec tr agree request answer p)))"

definition ask_ok :: "env \<Rightarrow> decoder \<Rightarrow> trust_roots \<Rightarrow> (string \<Rightarrow> string \<Rightarrow> bool) \<Rightarrow> identity \<Rightarrow> ask \<Rightarrow> bool" where
  "ask_ok E dec tr agree seed a \<longleftrightarrow>
     (\<forall>r. ak_request a = Some r \<longrightarrow> request_for E seed a r) \<and>
     (\<forall>out. ak_outcome a = Some out \<longrightarrow> well_answered E dec tr agree seed a out)"

definition outstanding :: "string \<Rightarrow> ask \<Rightarrow> bool" where
  "outstanding rh a \<longleftrightarrow> rh \<noteq> [] \<and> ak_rhash a = rh \<and> ak_outcome a = None \<and> ak_request a \<noteq> None"

text \<open>The invariant carries a set of decided handles whose outcome must stay.\<close>

definition client_inv ::
  "decoder \<Rightarrow> trust_roots \<Rightarrow> (string \<Rightarrow> string \<Rightarrow> bool) \<Rightarrow> identity \<Rightarrow> (string \<times> outcome) set \<Rightarrow> env \<Rightarrow> user_client \<Rightarrow> bool" where
  "client_inv dec tr agree seed final E s \<longleftrightarrow>
     (\<forall>m. sha256 E m \<noteq> []) \<and> pa_trust s = tr \<and> pa_identity s = seed \<and> sl_trust (uc_safety s) = tr \<and> sl_agree (uc_safety s) = agree \<and>
     (\<forall>h a. map_of (uc_asks s) h = Some a \<longrightarrow> ask_ok E dec tr agree seed a) \<and>
     (\<forall>rh h. map_of (uc_by_rhash s) rh = Some h \<longrightarrow> (\<exists>a. map_of (uc_asks s) h = Some a \<and> outstanding rh a)) \<and>
     (\<forall>(h, out)\<in>final. client_outcome s h = Some out)"

text \<open>While an ask is being worked on it is open, and what the code read of it still holds.\<close>

definition open_ask :: "string \<Rightarrow> ask \<Rightarrow> user_client \<Rightarrow> bool" where
  "open_ask h a s \<longleftrightarrow>
     (\<exists>b. map_of (uc_asks s) h = Some b \<and> ak_outcome b = None \<and> wanted b = wanted a \<and> ak_rhash b = ak_rhash a)"

definition working ::
  "decoder \<Rightarrow> trust_roots \<Rightarrow> (string \<Rightarrow> string \<Rightarrow> bool) \<Rightarrow> identity \<Rightarrow> (string \<times> outcome) set \<Rightarrow> string \<Rightarrow> ask \<Rightarrow> env \<Rightarrow> user_client \<Rightarrow> bool" where
  "working dec tr agree seed final h a E s \<longleftrightarrow> client_inv dec tr agree seed final E s \<and> open_ask h a s"

lemma client_inv_own: "own_state (client_inv dec tr agree seed final E)"
proof -
  have "client_inv dec tr agree seed final E q"
    if "client_inv dec tr agree seed final E p" "pa_trust q = pa_trust p" "pa_identity q = pa_identity p"
      "participant.more q = participant.more p" for p q
    using that(1) unfolding client_inv_def client_outcome_def client_fields [OF that(4)] that(2,3) .
  then show ?thesis by (simp add: own_state_def standing_def)
qed

lemma working_own: "own_state (working dec tr agree seed final h a E)"
proof -
  have "working dec tr agree seed final h a E q"
    if "working dec tr agree seed final h a E p" "pa_trust q = pa_trust p" "standing q = standing p"
      "participant.more q = participant.more p" for p q
    using that(1) own_stateD [OF client_inv_own _ that(2-4)]
    unfolding working_def open_ask_def client_fields [OF that(4)] by blast
  then show ?thesis unfolding own_state_def by blast
qed

interpretation settled_asks: believing "client_inv dec tr agree seed final (rt_env R)" R for R dec tr agree seed final
  by (rule own_state_believing [OF client_inv_own])

interpretation open_asks: believing "working dec tr agree seed final h a (rt_env R)" R for R dec tr agree seed final h a
  by (rule own_state_believing [OF working_own])

section \<open>Writing to an ask\<close>

text \<open>Methods that start in one predicate and end in another, however they end.\<close>

definition leads :: "('s \<Rightarrow> bool) \<Rightarrow> ('s, 'a) act \<Rightarrow> ('s \<Rightarrow> bool) \<Rightarrow> bool" where
  "leads P m Q \<longleftrightarrow> (\<forall>s. P s \<longrightarrow> Q (fst (m s)))"

lemma leadsD: "leads P m Q \<Longrightarrow> P s \<Longrightarrow> Q (fst (m s))"
  by (simp add: leads_def)

lemma leads_weaken: "leads P m Q \<Longrightarrow> (\<And>s. P' s \<Longrightarrow> P s) \<Longrightarrow> leads P' m Q"
  by (simp add: leads_def)

lemma leads_keeps: "keeps Q m \<Longrightarrow> (\<And>s. P s \<Longrightarrow> Q s) \<Longrightarrow> leads P m Q"
  by (simp add: leads_def keeps_def)

text \<open>First keep the stronger predicate, or first fall back to the weaker.\<close>

lemma leads_abind: "keeps P m \<Longrightarrow> (\<And>s. P s \<Longrightarrow> Q s) \<Longrightarrow> (\<And>x. leads P (f x) Q) \<Longrightarrow> leads P (abind m f) Q"
  by (fastforce simp: leads_def keeps_def abind_def split: prod.split sum.split)

lemma leads_first: "leads P m Q \<Longrightarrow> (\<And>x. keeps Q (f x)) \<Longrightarrow> leads P (abind m f) Q"
  by (fastforce simp: leads_def keeps_def abind_def split: prod.split sum.split)

lemma leads_aseq: "keeps P m \<Longrightarrow> (\<And>s. P s \<Longrightarrow> Q s) \<Longrightarrow> leads P n Q \<Longrightarrow> leads P (aseq m n) Q"
  unfolding aseq_def by (rule leads_abind)

lemma leads_aseq_first: "leads P m Q \<Longrightarrow> keeps Q n \<Longrightarrow> leads P (aseq m n) Q"
  unfolding aseq_def by (rule leads_first)

lemma leads_if: "(b \<Longrightarrow> leads P m Q) \<Longrightarrow> (\<not> b \<Longrightarrow> leads P n Q) \<Longrightarrow> leads P (if b then m else n) Q"
  by simp

lemma leads_aget: "(\<And>s. P s \<Longrightarrow> leads P (f s) Q) \<Longrightarrow> leads P (aget f) Q"
  by (simp add: leads_def aget_def)

lemma wanted_fields:
  "wanted b = wanted a \<longleftrightarrow> ak_models b = ak_models a \<and> ak_text b = ak_text a \<and> ak_scopes b = ak_scopes a \<and>
     ak_quorum b = ak_quorum a \<and> ak_ttl b = ak_ttl a"
  by (simp add: wanted_def)

lemma wanted_same:
  assumes "wanted b = wanted a"
  shows "request_for E seed b = request_for E seed a" "well_answered E dec tr agree seed b = well_answered E dec tr agree seed a"
  using assms by (auto simp: wanted_fields request_for_def well_answered_def fun_eq_iff)

definition untouched :: "(ask \<Rightarrow> ask) \<Rightarrow> bool" where
  "untouched f \<longleftrightarrow> (\<forall>b. wanted (f b) = wanted b \<and> ak_rhash (f b) = ak_rhash b \<and> ak_request (f b) = ak_request b \<and> ak_outcome (f b) = ak_outcome b)"

lemma untouchedD:
  assumes "untouched f"
  shows "wanted (f b) = wanted b" "ak_rhash (f b) = ak_rhash b" "ak_request (f b) = ak_request b" "ak_outcome (f b) = ak_outcome b"
  using assms by (auto simp: untouched_def)

lemma by_rhashD:
  "client_inv dec tr agree seed final E s \<Longrightarrow> map_of (uc_by_rhash s) rh = Some h \<Longrightarrow> \<exists>b. map_of (uc_asks s) h = Some b \<and> outstanding rh b"
  "client_inv dec tr agree seed final E s \<Longrightarrow> map_of (uc_by_rhash s) rh = Some h \<Longrightarrow> map_of (uc_asks s) h = Some b \<Longrightarrow> outstanding rh b"
  unfolding client_inv_def by fastforce+

text \<open>Storing an ask that is as good as the one before keeps the invariant.\<close>

lemma store_ask:
  assumes "client_inv dec tr agree seed final E s" "map_of (uc_asks s) h = Some b" "ask_ok E dec tr agree seed b'"
    "ak_outcome b' = ak_outcome b" "\<And>rh. map_of (uc_by_rhash s) rh = Some h \<Longrightarrow> outstanding rh b'"
  shows "client_inv dec tr agree seed final E (s\<lparr>uc_asks := dset h b' (uc_asks s)\<rparr>)"
proof -
  have "client_outcome (s\<lparr>uc_asks := dset h b' (uc_asks s)\<rparr>) h' = client_outcome s h'" for h'
    using assms(2,4) by (simp add: client_outcome_def)
  with assms show ?thesis by (auto simp: client_inv_def)
qed

lemma on_ask_run:
  "map_of (uc_asks s) h = Some b \<Longrightarrow> on_ask h f s = (s\<lparr>uc_asks := dset h (f b) (uc_asks s)\<rparr>, Inr ())"
  "map_of (uc_asks s) h = None \<Longrightarrow> on_ask h f s = (s, Inr ())"
  by (simp_all add: on_ask_def amod_def)

lemma on_ask_inv:
  assumes "untouched f" "client_inv dec tr agree seed final E s"
  shows "client_inv dec tr agree seed final E (fst (on_ask h f s))"
proof (cases "map_of (uc_asks s) h")
  case (Some b)
  note u = untouchedD [OF assms(1), of b]
  have "ask_ok E dec tr agree seed b" using assms(2) Some by (simp add: client_inv_def)
  then have ok: "ask_ok E dec tr agree seed (f b)" by (simp add: ask_ok_def wanted_same [OF u(1)] u)
  have "outstanding rh (f b)" if "map_of (uc_by_rhash s) rh = Some h" for rh
    using by_rhashD(2) [OF assms(2) that Some] by (simp add: outstanding_def u)
  from store_ask [OF assms(2) Some ok u(4) this] show ?thesis by (simp add: on_ask_run(1) [OF Some])
qed (use assms(2) in \<open>simp add: on_ask_run\<close>)

lemma on_ask_open:
  assumes "untouched f" "open_ask h a s"
  shows "open_ask h a (fst (on_ask h' f s))"
  using assms(2) untouchedD [OF assms(1)] by (auto simp: open_ask_def on_ask_def amod_def split: option.splits)

lemma on_ask_keeps [keeps_rules]:
  "untouched f \<Longrightarrow> keeps (client_inv dec tr agree seed final E) (on_ask h' f)"
  "untouched f \<Longrightarrow> keeps (working dec tr agree seed final h a E) (on_ask h' f)"
  by (auto simp: keeps_def working_def intro: on_ask_inv on_ask_open)

lemma untouched_simps [simp]:
  "untouched (\<lambda>a. a\<lparr>ak_mode := m\<rparr>)" "untouched (\<lambda>a. a\<lparr>ak_awaiting := ds\<rparr>)" "untouched (\<lambda>a. a\<lparr>ak_tried := tried a\<rparr>)"
  "untouched (\<lambda>a. a\<lparr>ak_waiting_dir := w\<rparr>)" "untouched (\<lambda>a. a\<lparr>ak_unresponsive := us a\<rparr>)"
  "untouched (\<lambda>a. a\<lparr>ak_mode := m, ak_awaiting := ds\<rparr>)" "untouched (\<lambda>a. a\<lparr>ak_waiting_dir := w, ak_deadline := t, ak_tried := tried a\<rparr>)"
  "untouched (\<lambda>a. a\<lparr>ak_tried := tried a, ak_awaiting := ds\<rparr>)" "untouched (\<lambda>a. a\<lparr>ak_unresponsive := us a, ak_waiting_dir := w\<rparr>)"
  "untouched (\<lambda>a. a\<lparr>ak_awaiting := ds' a, ak_last_reason := reason\<rparr>)"
  by (simp_all add: untouched_def wanted_def)

lemma forget_inv: "client_inv dec tr agree seed final E s \<Longrightarrow> client_inv dec tr agree seed final E (fst (forget_rhash rh s))"
  by (auto simp: client_inv_def client_outcome_def forget_rhash_def amod_def)

lemma forget_keeps [keeps_rules]:
  "keeps (client_inv dec tr agree seed final E) (forget_rhash rh)"
  "keeps (working dec tr agree seed final h a E) (forget_rhash rh)"
  by (auto simp: keeps_def working_def open_ask_def forget_rhash_def amod_def intro: forget_inv [unfolded forget_rhash_def amod_def fst_conv])

lemma client_fields_keep [keeps_rules]:
  "keeps (client_inv dec tr agree seed final E) (amod (\<lambda>s. s\<lparr>uc_late := late s\<rparr>))"
  "keeps (client_inv dec tr agree seed final E) (amod (\<lambda>s. s\<lparr>uc_next_hello := t\<rparr>))"
  by (auto simp: keeps_def amod_def client_inv_def client_outcome_def)

section \<open>Deciding and signing\<close>

lemma with_ask_leads:
  assumes "\<And>a. ak_outcome a = None \<Longrightarrow> leads (working dec tr agree seed final h a E) (f a) (client_inv dec tr agree seed final E)"
    and "\<And>a. ak_outcome a \<noteq> None \<Longrightarrow> keeps (client_inv dec tr agree seed final E) (f a)"
  shows "keeps (client_inv dec tr agree seed final E) (with_ask h f)"
proof -
  let ?I = "client_inv dec tr agree seed final E"
  have "?I (fst (with_ask h f s))" if I: "?I s" for s
  proof (cases "map_of (uc_asks s) h")
    case None
    with I show ?thesis by (simp add: with_ask_def aget_def alift_def)
  next
    case (Some a)
    have run: "with_ask h f s = f a s" by (simp add: with_ask_def aget_def Some)
    show ?thesis
    proof (cases "ak_outcome a = None")
      case True
      with I Some have "working dec tr agree seed final h a E s" by (simp add: working_def open_ask_def)
      from leadsD [OF assms(1) [OF True] this] run show ?thesis by simp
    next
      case False
      from keepsD [OF assms(2) [OF False] I] run show ?thesis by simp
    qed
  qed
  then show ?thesis by (simp add: keeps_def)
qed

text \<open>Deciding an open ask, with an outcome that is well answered when it is an acceptance.\<close>

definition decided :: "string \<Rightarrow> ask \<Rightarrow> outcome \<Rightarrow> user_client \<Rightarrow> user_client" where
  "decided h b out s = s\<lparr>uc_asks := dset h (b\<lparr>ak_outcome := Some out\<rparr>) (uc_asks s), uc_by_rhash := dpop (ak_rhash b) (uc_by_rhash s)\<rparr>"

lemma finish_run:
  assumes "map_of (uc_asks s) h = Some b"
  shows "finish_ask h out s =
    aseq (case ak_request b of None \<Rightarrow> aret ()
          | Some request \<Rightarrow> amod (\<lambda>s. let d = dset (ak_rhash b) request (uc_late s) in s\<lparr>uc_late := drop (length d - 256) d\<rparr>))
      (pa_note ''outcome'') (decided h b out s)"
  using assms by (simp add: finish_ask_def with_ask_def aget_def aseq_def abind_def on_ask_def amod_def forget_rhash_def decided_def)

lemma decided_inv:
  assumes I: "client_inv dec tr agree seed final E s" and b: "map_of (uc_asks s) h = Some b" "ak_outcome b = None"
    and ok: "well_answered E dec tr agree seed b out"
  shows "client_inv dec tr agree seed final E (decided h b out s)"
proof -
  have other: "h' \<noteq> h" if "map_of (uc_by_rhash s) rh = Some h'" "rh \<noteq> ak_rhash b" for rh h'
    using by_rhashD(2) [OF I that(1)] b(1) that(2) by (auto simp: outstanding_def)
  have req: "request_for E seed b r" if "ak_request b = Some r" for r
    using I b that by (auto simp: client_inv_def ask_ok_def)
  have w: "wanted (b\<lparr>ak_outcome := Some out\<rparr>) = wanted b" by (simp add: wanted_def)
  have "ask_ok E dec tr agree seed (b\<lparr>ak_outcome := Some out\<rparr>)"
    using ok req by (simp add: ask_ok_def wanted_same [OF w])
  moreover have "h' \<noteq> h" if "(h', o') \<in> final" for h' o'
    using I b that by (auto simp: client_inv_def client_outcome_def)
  ultimately show ?thesis
    using I other by (auto simp: client_inv_def decided_def client_outcome_def)
qed

lemma finish_leads:
  assumes "\<And>b. wanted b = wanted a \<Longrightarrow> well_answered E dec tr agree seed b out"
  shows "leads (working dec tr agree seed final h a E) (finish_ask h out) (client_inv dec tr agree seed final E)"
  unfolding leads_def
proof (intro allI impI)
  fix s assume "working dec tr agree seed final h a E s"
  then obtain b where b: "client_inv dec tr agree seed final E s" "map_of (uc_asks s) h = Some b" "ak_outcome b = None" "wanted b = wanted a"
    by (auto simp: working_def open_ask_def)
  have d: "client_inv dec tr agree seed final E (decided h b out s)" by (rule decided_inv [OF b(1-3) assms [OF b(4)]])
  let ?R = "\<lparr>rt_env = E, rt_dec = dec, rt_wire = (\<lambda>_ _. True), rt_now = Fin 0\<rparr>"
  have n: "keeps (client_inv dec tr agree seed final E) (pa_note ''outcome'')"
    using settled_asks.note_keeps [of dec tr agree seed final ?R] by simp
  have "keeps (client_inv dec tr agree seed final E)
    (aseq (case ak_request b of None \<Rightarrow> aret ()
          | Some request \<Rightarrow> amod (\<lambda>s. let d = dset (ak_rhash b) request (uc_late s) in s\<lparr>uc_late := drop (length d - 256) d\<rparr>))
      (pa_note ''outcome''))"
    unfolding Let_def by (intro keeps_rules n)
  from keepsD [OF this d] show "client_inv dec tr agree seed final E (fst (finish_ask h out s))" by (simp add: finish_run [OF b(2)])
qed

lemma unanswered [simp]: "oc_status out \<noteq> OUTCOME_ACCEPTED \<Longrightarrow> well_answered E dec tr agree seed a out"
  by (simp add: well_answered_def)

lemma finish_unanswered:
  "oc_status out \<noteq> OUTCOME_ACCEPTED \<Longrightarrow>
   leads (working dec tr agree seed final h a E) (finish_ask h out) (client_inv dec tr agree seed final E)"
  by (rule finish_leads) simp

lemma verdict_outcomes [simp]:
  "oc_status (refused_outcome why mode via) \<noteq> OUTCOME_ACCEPTED" "oc_status (intercepted_outcome why mode src) \<noteq> OUTCOME_ACCEPTED"
  by (simp_all add: refused_outcome_def intercepted_outcome_def outcome_kinds)

lemma working_inv: "working dec tr agree seed final h a E s \<Longrightarrow> client_inv dec tr agree seed final E s"
  by (simp add: working_def)

lemma hexdigest_empty: "hexdigest E m = [] \<longleftrightarrow> sha256 E m = []"
  by (cases "sha256 E m") (simp_all add: hexdigest_def hex_def)

text \<open>Signing for an open ask: the request is for it, and its hash leads to it alone.\<close>

lemma signed_inv:
  assumes I: "client_inv dec tr agree seed final E s" and b: "map_of (uc_asks s) h = Some b" "ak_outcome b = None"
    and fresh: "\<And>rh. map_of (uc_by_rhash s) rh \<noteq> Some h"
    and made: "request_for E seed b request" and rhash: "rhash \<noteq> []"
  shows "client_inv dec tr agree seed final E
    (s\<lparr>uc_asks := dset h (b\<lparr>ak_request := Some request, ak_rhash := rhash, ak_tries := n, ak_deadline := t\<rparr>) (uc_asks s),
       uc_by_rhash := dset rhash h (uc_by_rhash s)\<rparr>)"
proof -
  let ?b = "b\<lparr>ak_request := Some request, ak_rhash := rhash, ak_tries := n, ak_deadline := t\<rparr>"
  have w: "wanted ?b = wanted b" by (simp add: wanted_def)
  have "ask_ok E dec tr agree seed b" using I b by (simp add: client_inv_def)
  then have ok: "ask_ok E dec tr agree seed ?b" using made by (simp add: ask_ok_def wanted_same [OF w])
  have o: "ak_outcome ?b = ak_outcome b" by simp
  have "client_inv dec tr agree seed final E (s\<lparr>uc_asks := dset h ?b (uc_asks s)\<rparr>)" (is "client_inv _ _ _ _ _ _ ?s")
    by (rule store_ask [OF I b(1) ok o]) (use fresh in simp)
  moreover have "outstanding rhash ?b" using b(2) rhash by (simp add: outstanding_def)
  moreover have "client_outcome (?s\<lparr>uc_by_rhash := dset rhash h (uc_by_rhash s)\<rparr>) = client_outcome ?s"
    by (simp add: client_outcome_def fun_eq_iff)
  ultimately show ?thesis by (auto simp: client_inv_def)
qed

lemma sign_leads:
  assumes "ak_quorum a \<le> quorum"
  shows "leads (working dec tr agree seed final h a (rt_env R)) (sign_ask R nonce h a quorum pins)
    (client_inv dec tr agree seed final (rt_env R))"
  unfolding leads_def
proof (intro allI impI)
  let ?I = "client_inv dec tr agree seed final (rt_env R)" and ?W = "working dec tr agree seed final h a (rt_env R)"
  fix s assume W: "?W s"
  let ?m = "awhen (ak_rhash a \<noteq> []) (forget_rhash (ak_rhash a))"
  obtain s1 where s1: "?m s = (s1, Inr ())" by (cases "ak_rhash a \<noteq> []") (simp_all add: awhen_def forget_rhash_def amod_def aret_def)
  have "keeps ?W ?m" by (intro keeps_rules)
  from keepsD [OF this W] s1 have W1: "?W s1" by simp
  then obtain b where I: "?I s1" and b: "map_of (uc_asks s1) h = Some b" "ak_outcome b = None" "wanted b = wanted a" "ak_rhash b = ak_rhash a"
    by (auto simp: working_def open_ask_def)
  have id: "pa_identity s1 = seed" using I by (simp add: client_inv_def)
  let ?made = "make_request (rt_env R) seed (nonce s1) (ak_models a) (ak_text a) (ak_scopes a) quorum pins (ak_ttl a) (rt_now R)"
  show "?I (fst (sign_ask R nonce h a quorum pins s))"
  proof (cases ?made)
    case (Inl e)
    then have "fst (sign_ask R nonce h a quorum pins s) = s1" by (simp add: sign_ask_def aseq_def abind_def s1 aget_def alift_def id)
    with I show ?thesis by simp
  next
    case (Inr request)
    let ?rh = "digest (rt_env R) (JObj request)"
    have run: "fst (sign_ask R nonce h a quorum pins s) =
      s1\<lparr>uc_asks := dset h (b\<lparr>ak_request := Some request, ak_rhash := ?rh, ak_tries := ak_tries b + 1,
              ak_deadline := fadd (rt_now R) (uc_timeout s1)\<rparr>) (uc_asks s1), uc_by_rhash := dset ?rh h (uc_by_rhash s1)\<rparr>"
      by (simp add: sign_ask_def aseq_def abind_def s1 aget_def alift_def id Inr Let_def on_ask_def amod_def b(1) aret_def)
    have fresh: "map_of (uc_by_rhash s1) rh \<noteq> Some h" for rh
    proof
      assume m: "map_of (uc_by_rhash s1) rh = Some h"
      from by_rhashD(2) [OF I m b(1)] have rh: "rh = ak_rhash a" "rh \<noteq> []" by (auto simp: outstanding_def b(4))
      with m s1 show False by (auto simp: awhen_def forget_rhash_def amod_def)
    qed
    have "request_for (rt_env R) seed b request"
      unfolding wanted_same(1) [OF b(3)] request_for_def using Inr assms by blast
    moreover have "?rh \<noteq> []"
      using I hexdigest_empty [of "rt_env R"] by (simp add: client_inv_def digest_def)
    ultimately show ?thesis using signed_inv [OF I b(1,2) fresh] by (simp add: run)
  qed
qed

section \<open>Submitting\<close>

lemmas leads_rules = leads_aget leads_aseq leads_abind

lemma submit_normal_leads:
  "leads (working dec tr agree seed final h a (rt_env R)) (submit_normal R nonce h a) (client_inv dec tr agree seed final (rt_env R))"
proof -
  let ?I = "client_inv dec tr agree seed final (rt_env R)" and ?W = "working dec tr agree seed final h a (rt_env R)"
  have sign: "leads ?W (sign_ask R nonce h a (ak_quorum a) []) ?I" by (rule sign_leads) simp
  have rest: "keeps ?I (aseq (on_ask h (\<lambda>a. a\<lparr>ak_awaiting := ds\<rparr>))
      (afor (\<lambda>e. aseq (on_ask h (\<lambda>a. a\<lparr>ak_tried := ak_tried a @ [e]\<rparr>)) (aseq (send R e ''submit'' fs) (aret ()))) es))" for ds es fs
    by (intro keeps_rules settled_asks.send_keeps) simp_all
  have go: "leads ?W (aseq (on_ask h (\<lambda>a. a\<lparr>ak_mode := MODE_NORMAL\<rparr>))
      (abind (sign_ask R nonce h a (ak_quorum a) []) (\<lambda>request. aseq (on_ask h (\<lambda>a. a\<lparr>ak_awaiting := ds\<rparr>))
        (afor (\<lambda>e. aseq (on_ask h (\<lambda>a. a\<lparr>ak_tried := ak_tried a @ [e]\<rparr>))
                     (aseq (send R e ''submit'' [(''request'', JObj request)]) (aret ()))) es)))) ?I" for ds es
    by (rule leads_aseq [OF _ working_inv leads_first [OF sign rest]]) (auto intro: keeps_rules)
  show ?thesis unfolding submit_normal_def Let_def
    by (rule leads_aget) (simp add: go finish_unanswered)
qed

lemma submit_pinned_leads:
  assumes "ak_quorum a \<le> quorum"
  shows "leads (working dec tr agree seed final h a (rt_env R)) (submit_pinned R nonce h a fwd quorum pins)
    (client_inv dec tr agree seed final (rt_env R))"
proof -
  let ?I = "client_inv dec tr agree seed final (rt_env R)" and ?W = "working dec tr agree seed final h a (rt_env R)"
  have rest: "keeps ?I (aseq (on_ask h (\<lambda>a. a\<lparr>ak_tried := ak_tried a @ [fwd], ak_awaiting := [fwd]\<rparr>))
      (aget (\<lambda>s. aseq (afor (\<lambda>inc. aseq (send R fwd ''flood'' [(''obj'', JObj inc)]) (aret ())) (last_n 2 (signed_incidents (pa_ledger s))))
               (aseq (send R fwd ''submit'' [(''request'', JObj request)]) (pa_note ''lockdown-submit'')))))" for request
    by (intro keeps_rules settled_asks.send_keeps settled_asks.note_keeps) simp_all
  show ?thesis unfolding submit_pinned_def
    by (rule leads_aseq [OF _ working_inv leads_first [OF sign_leads [OF assms] rest]]) (auto intro: keeps_rules)
qed

lemma ask_directory_keeps: "keeps (client_inv dec tr agree seed final (rt_env R)) (ask_directory R h fwd)"
  unfolding ask_directory_def by (intro keeps_rules settled_asks.send_keeps) simp

lemma submit_lockdown_leads:
  "leads (working dec tr agree seed final h a (rt_env R)) (submit_lockdown R nonce h a) (client_inv dec tr agree seed final (rt_env R))"
proof -
  let ?I = "client_inv dec tr agree seed final (rt_env R)" and ?W = "working dec tr agree seed final h a (rt_env R)"
  have dir: "leads ?W (ask_directory R h fwd) ?I" for fwd by (rule leads_keeps [OF ask_directory_keeps working_inv])
  have pinned: "leads ?W (submit_pinned R nonce h a fwd (max (ak_quorum a) LOCKDOWN_QUORUM) pins) ?I" for fwd pins
    by (rule submit_pinned_leads) simp
  have body: "leads ?W (aget (\<lambda>s.
           case forwarder s (ak_unresponsive a) of
             None \<Rightarrow> finish_ask h (refused_outcome [''lockdown: no standby forwarder''] MODE_LOCKDOWN None)
           | Some fwd \<Rightarrow>
               (let quorum = max (ak_quorum a) LOCKDOWN_QUORUM;
                    pins = pick_pins s (rt_now R) (ak_models a) quorum (ak_unresponsive a)
                in if int (length pins) < quorum
                   then if ak_waiting_dir a
                        then finish_ask h (refused_outcome [''lockdown: '' @ int_str (int (length pins)) @ '' of '' @ int_str quorum @
                               '' independent model nodes available''] MODE_LOCKDOWN None)
                        else ask_directory R h fwd
                   else submit_pinned R nonce h a fwd quorum pins))) ?I"
    unfolding Let_def by (rule leads_aget) (simp add: finish_unanswered dir pinned split: option.split)
  show ?thesis unfolding submit_lockdown_def
    by (rule leads_aseq [OF _ working_inv leads_aseq [OF _ working_inv body]]) (auto intro: keeps_rules)
qed

lemma submit_keeps: "keeps (client_inv dec tr agree seed final (rt_env R)) (submit R nonce h)"
  unfolding submit_def
proof (rule with_ask_leads)
  let ?I = "client_inv dec tr agree seed final (rt_env R)"
  show "leads (working dec tr agree seed final h a (rt_env R)) (aget (\<lambda>s.
     if ak_outcome a \<noteq> None then aret ()
     else if uc_max_tries s \<le> ak_tries a
     then finish_ask h (refused_outcome (''out of tries'' # (if ak_last_reason a = [] then [] else [ak_last_reason a])) (ak_mode a) None)
     else if lockdown (pa_ledger s) then submit_lockdown R nonce h a
     else submit_normal R nonce h a)) ?I" if "ak_outcome a = None" for a
    using that by (intro leads_aget) (simp add: finish_unanswered submit_lockdown_leads submit_normal_leads)
  show "keeps ?I (aget (\<lambda>s.
     if ak_outcome a \<noteq> None then aret ()
     else if uc_max_tries s \<le> ak_tries a
     then finish_ask h (refused_outcome (''out of tries'' # (if ak_last_reason a = [] then [] else [ak_last_reason a])) (ak_mode a) None)
     else if lockdown (pa_ledger s) then submit_lockdown R nonce h a
     else submit_normal R nonce h a))" if "ak_outcome a \<noteq> None" for a
    using that by (intro keeps_aget) (simp add: keeps_basic)
qed

lemma client_incident_keeps: "keeps (client_inv dec tr agree seed final (rt_env R)) (client_incident R nonce inc)"
  unfolding client_incident_def
proof (intro keeps_rules with_ask_leads)
  fix h a
  show "leads (working dec tr agree seed final h a (rt_env R)) (awhen (ak_outcome a = None \<and> ak_mode a \<noteq> MODE_LOCKDOWN) (submit R nonce h))
    (client_inv dec tr agree seed final (rt_env R))"
    by (rule leads_keeps [OF _ working_inv]) (intro keeps_rules submit_keeps)
qed (rule submit_keeps)

lemma client_directory_keeps: "keeps (client_inv dec tr agree seed final (rt_env R)) (client_directory R nonce src)"
  unfolding client_directory_def
proof (intro keeps_rules with_ask_leads)
  fix h a
  show "leads (working dec tr agree seed final h a (rt_env R)) (awhen (ak_waiting_dir a \<and> ak_outcome a = None) (submit_lockdown R nonce h a))
    (client_inv dec tr agree seed final (rt_env R))"
  proof (cases "ak_waiting_dir a \<and> ak_outcome a = None")
    case True
    then show ?thesis by (simp add: awhen_def submit_lockdown_leads)
  next
    case False
    then show ?thesis by (auto simp: awhen_def intro!: leads_keeps [OF keeps_basic(1) working_inv])
  qed
qed simp

lemma client_core_keep: "hooks_keep (client_inv dec tr agree seed final (rt_env R)) (client_core R nonce)"
  using client_incident_keeps client_directory_keeps
  by (simp add: hooks_keep_def absorb_hooks_keep_def client_core_def base_hooks_def keeps_basic)

lemma client_evidence_keeps: "keeps (client_inv dec tr agree seed final (rt_env R)) (client_evidence R nonce evs)"
  unfolding client_evidence_def by (intro keeps_rules settled_asks.publish_keeps client_core_keep)

section \<open>Answers\<close>

lemma client_judge_run:
  assumes "client_judge R request items quorum s = (s', r)"
  shows "\<exists>sl. adjudicate (rt_env R) (rt_dec R) request (map (\<lambda>(d, r). (JObj d, JObj r)) items) (rt_now R) quorum None
      ((uc_safety s)\<lparr>sl_leases := pa_leases s, sl_ledger := pa_ledger s\<rparr>) = (sl, r) \<and> s' = s\<lparr>uc_safety := sl\<rparr>"
  using assms by (auto simp: client_judge_def split: prod.splits)

lemma inspect_all_frame:
  "inspect_all E dec request now advisory items ts sl = (sl', r) \<Longrightarrow> sl_trust sl' = sl_trust sl \<and> sl_agree sl' = sl_agree sl"
proof (induction items arbitrary: ts sl)
  case (Cons it items)
  obtain decision response where it: "it = (decision, response)" by (cases it)
  obtain sl1 f where i: "sl_inspect E dec request decision response now advisory sl = (sl1, f)" by force
  obtain seen where s: "sl1 = sl\<lparr>sl_seen := seen\<rparr>" using sl_inspect_frame(1) [OF i] by blast
  show ?case
  proof (cases f)
    case (Inl e)
    with Cons.prems i it s show ?thesis by auto
  next
    case (Inr v)
    with Cons.prems i it have "inspect_all E dec request now advisory items (count_inspection response v ts) sl1 = (sl', r)" by simp
    from Cons.IH [OF this] s show ?thesis by simp
  qed
qed simp

lemma adjudicate_frame:
  "adjudicate E dec request items now quorum advisory sl = (sl', r) \<Longrightarrow> sl_trust sl' = sl_trust sl \<and> sl_agree sl' = sl_agree sl"
  by (auto simp: adjudicate_def split: sum.splits prod.splits dest!: inspect_all_frame)

lemma client_judge_inv:
  assumes "client_inv dec tr agree seed final E s" "client_judge R request items quorum s = (s', r)"
  shows "client_inv dec tr agree seed final E s'" "uc_asks s' = uc_asks s"
proof -
  from client_judge_run [OF assms(2)] obtain sl where s': "s' = s\<lparr>uc_safety := sl\<rparr>" "sl_trust sl = sl_trust (uc_safety s)" "sl_agree sl = sl_agree (uc_safety s)"
    by (auto dest: adjudicate_frame)
  show "client_inv dec tr agree seed final E s'" "uc_asks s' = uc_asks s"
    using assms(1) s' by (auto simp: client_inv_def client_outcome_def)
qed

lemma client_judge_keeps: "keeps (client_inv dec tr agree seed final E) (client_judge R request items quorum)"
  unfolding keeps_def by (metis client_judge_inv(1) prod.collapse)

lemma requested_quorum:
  assumes "request_for E seed a request"
  shows "\<exists>q. pget request ''quorum'' = JInt q \<and> ak_quorum a \<le> q"
proof -
  from assms obtain req_id quorum pins issued where q: "ak_quorum a \<le> quorum"
    and m: "make_request E seed req_id (ak_models a) (ak_text a) (ak_scopes a) quorum pins (ak_ttl a) issued = Inr request"
    by (auto simp: request_for_def)
  from m obtain body where "sign_payload E seed body = Inr request" "pget body ''quorum'' = JInt quorum"
    by (auto simp: make_request_def rbind_Inr_iff Let_def pget_def split: option.splits)
  from sign_payload_fields(1) [OF this(1), of "''quorum''"] this(2) q show ?thesis by simp
qed

definition accepting :: "did \<Rightarrow> ask \<Rightarrow> adjudication \<Rightarrow> outcome" where
  "accepting src a v = \<lparr>oc_status = OUTCOME_ACCEPTED, oc_output = adj_output v, oc_providers = adj_providers v,
     oc_reasons = adj_reasons v, oc_mode = ak_mode a, oc_via = Some src\<rparr>"

lemma judged_well:
  assumes I: "client_inv dec tr agree seed final (rt_env R) s" and req: "request_for (rt_env R) seed a request"
    and needs: "ask_needs a request = Inr quorum" and dec: "rt_dec R = dec"
    and judged: "client_judge R request items (Some quorum) s = (s', Inr v)" "adj_status v = ACCEPTED"
    and b: "wanted b = wanted a"
  shows "well_answered (rt_env R) dec tr agree seed b (accepting src a v)"
proof -
  let ?layer = "(uc_safety s)\<lparr>sl_leases := pa_leases s, sl_ledger := pa_ledger s\<rparr>"
  from client_judge_run [OF judged(1)] obtain sl where
    adj: "adjudicate (rt_env R) (rt_dec R) request (map (\<lambda>(d, r). (JObj d, JObj r)) items) (rt_now R) (Some quorum) None ?layer = (sl, Inr v)" by blast
  have layer: "sl_trust ?layer = tr" "sl_agree ?layer = agree" using I by (simp_all add: client_inv_def)
  have vouches: "answer_backed (rt_env R) dec tr agree request out p"
    if "vouched (rt_env R) (rt_dec R) ?layer request (rt_now R) decision response"
      "verify_payload (rt_env R) response (Some (tr_mesh tr)) = (True, Some p)"
      "field_str response ''output'' = out \<or> agree out (field_str response ''output'')" for out p decision response
    using that layer(1) dec unfolding answer_backed_def by blast
  from adjudicate_accepted [OF adj judged(2)] obtain needed out
    where n: "needed_answers request (Some quorum) = Inr needed" "needed \<le> int (length (adj_providers v))"
      and v: "distinct (adj_providers v)" "adj_output v = Some out"
      and each: "\<forall>p\<in>set (adj_providers v). \<exists>decision response. (decision, response) \<in> set (map (\<lambda>(d, r). (JObj d, JObj r)) items) \<and>
       vouched (rt_env R) (rt_dec R) ?layer request (rt_now R) decision response \<and>
       verify_payload (rt_env R) response (Some (tr_mesh (sl_trust ?layer))) = (True, Some p) \<and>
       (field_str response ''output'' = out \<or> sl_agree ?layer out (field_str response ''output''))"
    by blast
  have backed: "answer_backed (rt_env R) dec tr agree request out p" if p: "p \<in> set (adj_providers v)" for p
  proof -
    from bspec [OF each p] obtain decision response where
      "vouched (rt_env R) (rt_dec R) ?layer request (rt_now R) decision response"
      "verify_payload (rt_env R) response (Some (tr_mesh tr)) = (True, Some p)"
      "field_str response ''output'' = out \<or> agree out (field_str response ''output'')"
      unfolding layer by (elim exE conjE)
    then show ?thesis by (rule vouches)
  qed
  have n': "quorum \<le> int (length (adj_providers v))" using n by (simp add: needed_answers_def)
  obtain q where q: "pget request ''quorum'' = JInt q" "ak_quorum a \<le> q" using requested_quorum [OF req] by blast
  have "ak_quorum a \<le> quorum \<and> (ak_mode a = MODE_LOCKDOWN \<longrightarrow> LOCKDOWN_QUORUM \<le> quorum)"
    using needs q by (auto simp: ask_needs_def)
  with n' have "ak_quorum a \<le> int (length (adj_providers v))" "ak_mode a = MODE_LOCKDOWN \<longrightarrow> LOCKDOWN_QUORUM \<le> int (length (adj_providers v))"
    by auto
  with v req backed show ?thesis unfolding wanted_same(2) [OF b] well_answered_def accepting_def outcome.select_convs by blast
qed

lemma take_verdict_leads:
  assumes "\<And>b. adj_status v = ACCEPTED \<Longrightarrow> wanted b = wanted a \<Longrightarrow> well_answered (rt_env R) dec tr agree seed b (accepting src a v)"
  shows "leads (working dec tr agree seed final h a (rt_env R)) (take_verdict R nonce src h a request items v)
    (client_inv dec tr agree seed final (rt_env R))"
proof -
  let ?I = "client_inv dec tr agree seed final (rt_env R)" and ?W = "working dec tr agree seed final h a (rt_env R)"
  have no: "leads ?W (finish_ask h (intercepted_outcome (adj_reasons v) (ak_mode a) src)) ?I" by (rule finish_unanswered) simp
  have yes: "leads ?W (finish_ask h (accepting src a v)) ?I" if "adj_status v = ACCEPTED" by (rule finish_leads) (rule assms [OF that])
  have pinned: "keeps ?I (abind (alift (silent_pins request items)) (\<lambda>silent.
          aseq (on_ask h (\<lambda>a. a\<lparr>ak_unresponsive := ak_unresponsive a @ silent\<rparr>)) (submit R nonce h)))"
    by (intro keeps_rules submit_keeps) simp
  have path: "keeps ?I (aseq (on_ask h (\<lambda>a. a\<lparr>ak_awaiting := filter (\<lambda>d. d \<noteq> src) (ak_awaiting a),
                               ak_last_reason := ''the answers relayed by '' @ src @ '' did not verify''\<rparr>))
          (aseq (pa_note ''unverified'')
            (awhen (filter (\<lambda>d. d \<noteq> src) (ak_awaiting a) = []) (submit R nonce h))))"
    by (intro keeps_rules submit_keeps settled_asks.note_keeps) simp
  note weak = leads_keeps [OF pinned working_inv] leads_keeps [OF path working_inv] leads_keeps [OF keeps_basic(1) working_inv]
  show ?thesis
    unfolding take_verdict_def accepting_def [symmetric]
    by (intro leads_if leads_aseq_first [OF no client_evidence_keeps] yes no weak)
qed

lemma answered_leads:
  assumes "request_for (rt_env R) seed a request" "rt_dec R = dec" "ask_needs a request = Inr quorum"
  shows "leads (working dec tr agree seed final h a (rt_env R))
    (abind (client_judge R request items (Some quorum)) (take_verdict R nonce src h a request items))
    (client_inv dec tr agree seed final (rt_env R))"
  unfolding leads_def
proof (intro allI impI)
  let ?I = "client_inv dec tr agree seed final (rt_env R)" and ?W = "working dec tr agree seed final h a (rt_env R)"
  fix s assume W: "?W s"
  then have I: "?I s" by (rule working_inv)
  obtain s' r where j: "client_judge R request items (Some quorum) s = (s', r)" by force
  note s' = client_judge_inv [OF I j]
  with W have W': "?W s'" by (simp add: working_def open_ask_def)
  show "?I (fst (abind (client_judge R request items (Some quorum)) (take_verdict R nonce src h a request items) s))"
  proof (cases r)
    case (Inl e)
    with j s' show ?thesis by (simp add: abind_def)
  next
    case (Inr v)
    with j have j': "client_judge R request items (Some quorum) s = (s', Inr v)" by simp
    have "leads ?W (take_verdict R nonce src h a request items v) ?I"
      by (rule take_verdict_leads) (rule judged_well [OF I assms(1,3,2) j'])
    from leadsD [OF this W'] j' show ?thesis by (simp add: abind_def)
  qed
qed

text \<open>A hash the client knows leads to the open ask it is for.\<close>

definition entry :: "user_client \<Rightarrow> string option \<Rightarrow> (string \<times> ask) option" where
  "entry s hdl = (case hdl of None \<Rightarrow> None | Some h \<Rightarrow> map_option (Pair h) (map_of (uc_asks s) h))"

lemma known_ask:
  assumes I: "client_inv dec tr agree seed final E s" and h: "get_key (uc_by_rhash s) v = Inr hdl" and a: "entry s hdl = Some (h, a)"
  shows "working dec tr agree seed final h a E s" "ak_request a = Some r \<Longrightarrow> request_for E seed a r" "ak_outcome a = None"
proof -
  have m: "map_of (uc_asks s) h = Some a" "hdl = Some h" using a by (auto simp: entry_def split: option.splits)
  obtain rh where "map_of (uc_by_rhash s) rh = Some h" using h m(2) by (auto simp: get_key_def split: json.splits)
  from by_rhashD(2) [OF I this m(1)] show o: "ak_outcome a = None" by (simp add: outstanding_def)
  with I m(1) show "working dec tr agree seed final h a E s" by (simp add: working_def open_ask_def)
  show "request_for E seed a r" if "ak_request a = Some r" using I m(1) that by (auto simp: client_inv_def ask_ok_def)
qed

text \<open>The two answers to a request start by looking its ask up.\<close>

lemma looked_up_keeps:
  assumes none: "keeps (client_inv dec tr agree seed final E) m"
    and some: "\<And>h a. (\<And>r. ak_request a = Some r \<Longrightarrow> request_for E seed a r) \<Longrightarrow>
      leads (working dec tr agree seed final h a E) (f h a) (client_inv dec tr agree seed final E)"
  shows "keeps (client_inv dec tr agree seed final E) (aget (\<lambda>s. abind (alift (get_key (uc_by_rhash s) v)) (\<lambda>hdl.
    case (case hdl of None \<Rightarrow> None | Some h \<Rightarrow> map_option (Pair h) (map_of (uc_asks s) h)) of None \<Rightarrow> m | Some (h, a) \<Rightarrow> f h a)))"
proof -
  let ?I = "client_inv dec tr agree seed final E"
  have "?I (fst (abind (alift (get_key (uc_by_rhash s) v)) (\<lambda>hdl. case entry s hdl of None \<Rightarrow> m | Some (h, a) \<Rightarrow> f h a) s))"
    if I: "?I s" for s
  proof (cases "get_key (uc_by_rhash s) v")
    case (Inl e)
    with I show ?thesis by (simp add: abind_def alift_def)
  next
    case (Inr hdl)
    show ?thesis
    proof (cases "entry s hdl")
      case None
      with Inr keepsD [OF none I] show ?thesis by (simp add: abind_def alift_def)
    next
      case (Some ha)
      obtain h a where ha: "ha = (h, a)" by (cases ha)
      note k = known_ask [OF I Inr Some [unfolded ha]]
      from leadsD [OF some [OF k(2)] k(1)] Inr Some ha show ?thesis by (simp add: abind_def alift_def)
    qed
  qed
  then show ?thesis by (simp add: keeps_def aget_def entry_def)
qed

lemma judge_late_keeps: "keeps (client_inv dec tr agree seed final (rt_env R)) (judge_late R nonce rhash items)"
  unfolding judge_late_def by (intro keeps_rules client_judge_keeps client_evidence_keeps)

lemma on_result_keeps:
  assumes "rt_dec R = dec"
  shows "keeps (client_inv dec tr agree seed final (rt_env R)) (on_result R nonce src f)"
proof -
  let ?I = "client_inv dec tr agree seed final (rt_env R)"
  have answered: "leads (working dec tr agree seed final h a (rt_env R))
     (case ak_request a of None \<Rightarrow> alift (Inl (TypeError ''no request''))
      | Some request \<Rightarrow> abind (alift (ask_needs a request)) (\<lambda>quorum.
          abind (client_judge R request items (Some quorum)) (take_verdict R nonce src h a request items))) ?I"
    if req: "\<And>r. ak_request a = Some r \<Longrightarrow> request_for (rt_env R) seed a r" for h a items
  proof (cases "ak_request a")
    case None
    then show ?thesis by (simp add: leads_keeps [OF keeps_basic(2) working_inv])
  next
    case (Some request)
    show ?thesis
    proof (cases "ask_needs a request")
      case (Inl e)
      then show ?thesis using Some by (auto simp: leads_def abind_def alift_def dest: working_inv)
    next
      case (Inr quorum)
      from answered_leads [OF req [OF Some] assms Inr] Inr Some show ?thesis by (simp add: leads_def abind_def alift_def)
    qed
  qed
  show ?thesis unfolding on_result_def Let_def
    by (intro keeps_abind keeps_basic keeps_aseq keeps_afor keeps_prod settled_asks.stores_keep looked_up_keeps judge_late_keeps answered)
qed

lemma on_refused_keeps: "keeps (client_inv dec tr agree seed final (rt_env R)) (on_refused R nonce src f)"
proof -
  let ?I = "client_inv dec tr agree seed final (rt_env R)"
  have refused: "leads (working dec tr agree seed final h a (rt_env R))
     (let reason = strv (pget f ''reason''); awaiting = filter (\<lambda>d. d \<noteq> src) (ak_awaiting a);
                a' = a\<lparr>ak_awaiting := awaiting, ak_last_reason := reason\<rparr>
            in if ak_outcome a \<noteq> None \<or> src \<notin> set (ak_awaiting a) then aret ()
               else aseq (on_ask h (\<lambda>a. a\<lparr>ak_awaiting := filter (\<lambda>d. d \<noteq> src) (ak_awaiting a), ak_last_reason := reason\<rparr>))
                 (aseq (pa_note ''refused'')
                   (if starts_with reason ''intercepted''
                    then finish_ask h (intercepted_outcome [reason] (ak_mode a) src)
                    else if starts_with reason ''lockdown'' \<and> ak_mode a \<noteq> MODE_LOCKDOWN then submit_lockdown R nonce h a'
                    else if awaiting \<noteq> [] then aret ()
                    else aseq (awhen (ak_mode a = MODE_LOCKDOWN \<and> contains reason ''not eligible'')
                                 (on_ask h (\<lambda>a. a\<lparr>ak_unresponsive := ak_unresponsive a @ [last_word reason]\<rparr>)))
                           (submit R nonce h)))) ?I" for h a
  proof -
    let ?W = "working dec tr agree seed final h a (rt_env R)"
    have lock: "leads ?W (submit_lockdown R nonce h (a\<lparr>ak_awaiting := ds, ak_last_reason := reason\<rparr>)) ?I" for ds reason
      by (rule leads_weaken [OF submit_lockdown_leads]) (simp add: working_def open_ask_def wanted_def)
    have no: "leads ?W (finish_ask h (intercepted_outcome why mode src)) ?I" for why mode by (rule finish_unanswered) simp
    have again: "keeps ?I (aseq (awhen b (on_ask h (\<lambda>a. a\<lparr>ak_unresponsive := ak_unresponsive a @ ws\<rparr>))) (submit R nonce h))" for b ws
      by (intro keeps_rules submit_keeps) simp
    have awaiting: "keeps ?W (on_ask h (\<lambda>a. a\<lparr>ak_awaiting := filter (\<lambda>d. d \<noteq> src) (ak_awaiting a), ak_last_reason := reason\<rparr>))" for reason
      by (rule on_ask_keeps(2)) simp
    note weak = leads_keeps [OF again working_inv] leads_keeps [OF keeps_basic(1) working_inv]
    show ?thesis unfolding Let_def
      by (intro leads_if leads_aseq [OF awaiting working_inv] leads_aseq [OF open_asks.note_keeps working_inv] lock no weak)
  qed
  show ?thesis unfolding on_refused_def
    by (rule looked_up_keeps [OF keeps_basic(1) refused])
qed

section \<open>Every step of a client\<close>

lemma check_deadline_keeps: "keeps (client_inv dec tr agree seed final (rt_env R)) (check_deadline R nonce h)"
  unfolding check_deadline_def
proof (rule with_ask_leads)
  let ?I = "client_inv dec tr agree seed final (rt_env R)"
  show "keeps ?I (awhen (ak_outcome a = None \<and> fle (ak_deadline a) (rt_now R))
       (aseq (awhen (ak_mode a = MODE_LOCKDOWN \<and> ak_tried a \<noteq> [])
                (on_ask h (\<lambda>a. a\<lparr>ak_unresponsive := ak_unresponsive a @ [last (ak_tried a)], ak_waiting_dir := False\<rparr>)))
         (submit R nonce h)))" for a
    by (intro keeps_rules submit_keeps) simp
  then show "leads (working dec tr agree seed final h a (rt_env R)) (awhen (ak_outcome a = None \<and> fle (ak_deadline a) (rt_now R))
       (aseq (awhen (ak_mode a = MODE_LOCKDOWN \<and> ak_tried a \<noteq> [])
                (on_ask h (\<lambda>a. a\<lparr>ak_unresponsive := ak_unresponsive a @ [last (ak_tried a)], ak_waiting_dir := False\<rparr>)))
         (submit R nonce h))) ?I" for a
    by (rule leads_keeps [OF _ working_inv])
qed

lemma client_tick_keeps: "keeps (client_inv dec tr agree seed final (rt_env R)) (client_tick R nonce now)"
  unfolding client_tick_def by (intro keeps_rules settled_asks.send_keeps check_deadline_keeps)

lemma client_hooks_keep: "hooks_keep (client_inv dec tr agree seed final (rt_env R)) (client_hooks R nonce)"
  using client_core_keep [of dec tr agree seed final R nonce] client_tick_keeps
  by (simp add: hooks_keep_def absorb_hooks_keep_def client_hooks_def)

lemma client_dispatch_keeps:
  assumes "rt_dec R = dec" "client_dispatch R nonce kind = Some fn"
  shows "keeps (client_inv dec tr agree seed final (rt_env R)) (fn src f)"
  using assms(2) on_result_keeps [OF assms(1)] on_refused_keeps settled_asks.participant_dispatch_keeps [OF client_hooks_keep]
  by (auto simp: client_dispatch_def split: if_splits)

lemma new_ask_inv:
  assumes "client_inv dec tr agree seed final E s" "h \<notin> set (dkeys (uc_asks s))"
  shows "client_inv dec tr agree seed final E (s\<lparr>uc_asks := dset h (fresh_ask models txt scopes quorum ttl) (uc_asks s)\<rparr>)"
proof -
  have n: "map_of (uc_asks s) h = None" using assms(2) by (simp add: dkeys_def map_of_eq_None_iff)
  have "ask_ok E dec tr agree seed (fresh_ask models txt scopes quorum ttl)" by (simp add: ask_ok_def fresh_ask_def)
  moreover have "h' \<noteq> h" if "map_of (uc_by_rhash s) rh = Some h'" for rh h'
    using by_rhashD(1) [OF assms(1) that] n by auto
  moreover have "client_outcome (s\<lparr>uc_asks := dset h (fresh_ask models txt scopes quorum ttl) (uc_asks s)\<rparr>) h' = client_outcome s h'" for h'
    using n by (simp add: client_outcome_def fresh_ask_def)
  ultimately show ?thesis using assms(1) by (auto simp: client_inv_def)
qed

lemma client_step_inv:
  assumes "client_step E dec s t" "client_inv dec tr agree seed final E s"
  shows "client_inv dec tr agree seed final E t"
  using assms(1)
proof (cases rule: client_step.cases)
  case (receives R nonce src payload)
  have "keeps (client_inv dec tr agree seed final (rt_env R)) (handle R (client_hooks R nonce) (client_dispatch R nonce) src payload)"
    by (rule settled_asks.handle_keeps [OF client_hooks_keep]) (rule client_dispatch_keeps [OF receives(3)])
  with receives assms(2) show ?thesis by (auto dest: keepsD)
next
  case (ticks R nonce)
  with settled_asks.tick_keeps [OF client_hooks_keep [of dec tr agree seed final R nonce]] assms(2) show ?thesis
    by (auto dest: keepsD)
next
  case (asks R h nonce models input_text scopes quorum ttl)
  let ?s = "s\<lparr>uc_asks := dset h (fresh_ask models input_text scopes quorum ttl) (uc_asks s)\<rparr>"
  have t: "t = fst (aseq (submit R nonce h) (aret h) ?s)" using asks by (simp add: client_ask_def aseq_def abind_def amod_def)
  have "keeps (client_inv dec tr agree seed final (rt_env R)) (aseq (submit R nonce h) (aret h))" by (intro keeps_rules submit_keeps)
  moreover have "client_inv dec tr agree seed final (rt_env R) ?s" using new_ask_inv [OF assms(2)] asks by simp
  ultimately show ?thesis using asks t by (auto dest: keepsD)
qed

lemma client_run_inv:
  assumes "(client_step E dec)\<^sup>*\<^sup>* s t" "client_inv dec tr agree seed final E s"
  shows "client_inv dec tr agree seed final E t"
  using assms by (induction rule: rtranclp_induct) (auto intro: client_step_inv)

lemma user_client_init_inv:
  assumes "user_client_init E agree seed tr entries standby fanout timeout max_tries cfg t = Inr s" "\<And>m. length (sha256 E m) = 32"
  shows "client_inv dec tr agree seed {} E s" "uc_asks s = []"
proof -
  let ?R = "\<lparr>rt_env = E, rt_dec = dec, rt_wire = (\<lambda>_ _. True), rt_now = Fin 0\<rparr>"
  let ?I = "\<lambda>s. client_inv dec tr agree seed {} E s \<and> uc_asks s = []"
  from assms(1) obtain p where p: "participant_init E seed tr [] cfg t = Inr p"
    and s: "s = fold (\<lambda>d s. fst (connect d s)) (entries @ standby)
         (participant.extend p (user_client.fields entries standby (max 1 fanout) timeout max_tries
            (safety_init tr (pa_leases p) (pa_ledger p) agree MAX_SKEW 4096) [] [] [] (Fin 0)))" (is "_ = fold _ _ ?s0")
    by (auto simp: user_client_init_def rbind_Inr_iff split: if_splits)
  have "sha256 E m \<noteq> []" for m using assms(2) [of m] by auto
  then have "?I ?s0" using p
    by (auto simp: client_inv_def participant_init_def rbind_Inr_iff participant.defs user_client.defs safety_init_def split: if_splits)
  moreover have "?I (fst (connect d s))" if "?I s" for d s
    using that keepsD [OF settled_asks.connect_keeps [of dec tr agree seed "{}" ?R d], of s] by (simp add: connect_def)
  ultimately have "?I (fold (\<lambda>d s. fst (connect d s)) ds ?s0)" for ds
    by (induction ds rule: rev_induct) auto
  then show "client_inv dec tr agree seed {} E s" "uc_asks s = []" unfolding s by blast+
qed


text \<open>C39 Outcomes are final: once an ask is decided, no frame, tick or further ask changes what it came to.\<close>

theorem outcomes_final:
  assumes "user_client_init E agree seed tr entries standby fanout timeout max_tries cfg t0 = Inr s0" "\<And>m. length (sha256 E m) = 32"
    and "(client_step E dec)\<^sup>*\<^sup>* s0 s" "client_outcome s h = Some out" "(client_step E dec)\<^sup>*\<^sup>* s t"
  shows "client_outcome t h = Some out"
proof -
  have "client_inv dec tr agree seed {} E s"
    by (rule client_run_inv [OF assms(3)]) (rule user_client_init_inv [OF assms(1,2)])
  with assms(4) have "client_inv dec tr agree seed {(h, out)} E s" by (simp add: client_inv_def)
  from client_run_inv [OF assms(5) this] show ?thesis by (simp add: client_inv_def)
qed

section \<open>A client at work\<close>

definition ref_nonce :: "user_client \<Rightarrow> string" where
  "ref_nonce = (\<lambda>_. replicate 32 (CHR ''0''))"

definition ref_time :: "pyfloat \<Rightarrow> runtime" where
  "ref_time now = \<lparr>rt_env = ref_env32, rt_dec = (\<lambda>_. None), rt_wire = (\<lambda>_ _. True), rt_now = now\<rparr>"

lemma ref_time_simps [simp]:
  "rt_env (ref_time t) = ref_env32" "rt_dec (ref_time t) = (\<lambda>_. None)" "rt_now (ref_time t) = t" "rt_wire (ref_time t) = (\<lambda>_ _. True)"
  by (simp_all add: ref_time_def)

definition ref_judging :: "lease_book \<Rightarrow> safety_layer" where
  "ref_judging lb = (safety_init ref_roots (lease_book_init ref_roots) (ledger_init ref_roots) (=) (Fin 120) 4096)\<lparr>sl_leases := lb\<rparr>"

definition ready :: "did list \<Rightarrow> user_client \<Rightarrow> bool" where
  "ready entries s \<longleftrightarrow>
     pa_identity s = ref_seed (CHR ''u'') \<and> pa_trust s = ref_roots \<and> pa_ledger s = ledger_init ref_roots \<and>
     pa_leases s = lease_book_init ref_roots \<and> uc_entries s = entries \<and> uc_fanout s = 1 \<and> uc_timeout s = Fin 15 \<and> uc_max_tries s = 4 \<and>
     uc_safety s = safety_init ref_roots (lease_book_init ref_roots) (ledger_init ref_roots) (=) (Fin 120) 4096 \<and>
     uc_asks s = [] \<and> uc_by_rhash s = []"

lemma ref_client:
  assumes "length entries \<le> 1"
  obtains s where "user_client_init ref_env32 (=) (ref_seed (CHR ''u'')) ref_roots entries [] 1 (Fin 15) 4 default_config 1 = Inr s"
    "ready entries s"
proof -
  have "\<exists>s. user_client_init ref_env32 (=) (ref_seed (CHR ''u'')) ref_roots entries [] 1 (Fin 15) 4 default_config 1 = Inr s \<and> ready entries s"
    using assms
    by (cases entries) (auto simp: user_client_init_def participant_init_def ref_roots_def participant.defs user_client.defs ready_def
        connect_def MAX_SKEW_def)
  with that show ?thesis by blast
qed

lemma ref_lockdown [simp]: "lockdown (ledger_init tr) = False"
  by (simp add: lockdown_def ledger_init_def)

definition asked :: "obj \<Rightarrow> ask \<Rightarrow> user_client \<Rightarrow> bool" where
  "asked request a s \<longleftrightarrow>
     pa_trust s = ref_roots \<and> pa_ledger s = ledger_init ref_roots \<and> pa_leases s = lease_book_init ref_roots \<and>
     uc_safety s = safety_init ref_roots (lease_book_init ref_roots) (ledger_init ref_roots) (=) (Fin 120) 4096 \<and>
     uc_asks s = [(''h'', a)] \<and> uc_by_rhash s = [(digest ref_env32 (JObj request), ''h'')] \<and>
     ak_request a = Some request \<and> ak_mode a = MODE_NORMAL \<and> ak_outcome a = None \<and> ak_rhash a = digest ref_env32 (JObj request)"

lemma ref_asked:
  assumes "ready [e] s" "ref_request 1 = Inr request"
  shows "\<exists>a. asked request a (fst (client_ask (ref_time (Fin 120)) ref_nonce ''h'' [''gpt''] ''hi'' [] 1 (Fin 60) s))"
proof -
  have made: "make_request ref_env32 (ref_seed (CHR ''u'')) (replicate 32 (CHR ''0'')) [''gpt''] ''hi'' [] 1 [] (Fin 60) (Fin 120) = Inr request"
    using assms(2) by (simp add: ref_request_def)
  show ?thesis
    using assms(1) made
    by (simp add: ready_def asked_def client_ask_def submit_def with_ask_def submit_normal_def sign_ask_def on_ask_def forget_rhash_def
        fresh_ask_def act_defs ref_nonce_def Let_def send_def frame_def FRAME_KINDS_def)
qed

definition result_frame :: "obj \<Rightarrow> obj \<Rightarrow> obj \<Rightarrow> obj" where
  "result_frame request decision response =
     [(''k'', JStr ''result''), (''request_hash'', JStr (digest ref_env32 (JObj request))),
      (''items'', JList [JList [JObj decision, JObj response]])]"

lemma ref_answered:
  assumes "asked request a s" "pget request ''quorum'' = JInt 1" "pget response ''lease'' = JObj lease"
    and lb: "lb_add ref_env32 (JObj lease) (lease_book_init ref_roots) = (lb, Inr b)"
    and adj: "adjudicate ref_env32 (\<lambda>_. None) request [(JObj decision, JObj response)] (Fin 130) (Some 1) None (ref_judging lb) = (sl', Inr v)"
    and v: "adj_status v = ACCEPTED" "adj_evidence v = []"
  shows "client_outcome (fst (on_result (ref_time (Fin 130)) ref_nonce ''e'' (result_frame request decision response) s)) ''h'' =
    Some (accepting ''e'' a v)"
proof -
  let ?R = "ref_time (Fin 130)"
  let ?f = "result_frame request decision response"
  let ?s1 = "s\<lparr>pa_leases := lb\<rparr>"
  from assms(1) have s: "pa_leases s = lease_book_init ref_roots" "pa_ledger s = ledger_init ref_roots" "uc_asks s = [(''h'', a)]"
    "uc_by_rhash s = [(digest ref_env32 (JObj request), ''h'')]" "ak_request a = Some request" "ak_mode a = MODE_NORMAL"
    "uc_safety s = safety_init ref_roots (lease_book_init ref_roots) (ledger_init ref_roots) (=) (Fin 120) 4096"
    by (simp_all add: asked_def)
  have learn: "on_leases (lb_add ref_env32 (JObj lease)) s = (?s1, Inr b)" by (simp add: on_leases_def s lb)
  have "(uc_safety ?s1)\<lparr>sl_leases := pa_leases ?s1, sl_ledger := pa_ledger ?s1\<rparr> = ref_judging lb"
    by (simp add: ref_judging_def s safety_init_def)
  then have judged: "client_judge ?R request [(decision, response)] (Some 1) ?s1 = (?s1\<lparr>uc_safety := sl'\<rparr>, Inr v)" (is "_ = (?s2, _)")
    using adj by (simp add: client_judge_def)
  have verdict: "take_verdict ?R ref_nonce ''e'' ''h'' a request [(decision, response)] v = finish_ask ''h'' (accepting ''e'' a v)"
    by (simp add: take_verdict_def v accepting_def)
  have f: "pget ?f ''items'' = JList [JList [JObj decision, JObj response]]" "pget ?f ''request_hash'' = JStr (digest ref_env32 (JObj request))"
    by (simp_all add: result_frame_def pget_def)
  have run: "on_result ?R ref_nonce ''e'' ?f s = finish_ask ''h'' (accepting ''e'' a v) ?s2"
    using learn judged assms(2,3) s(3-6)
    by (simp add: on_result_def f or_empty_def iterate_def act_defs get_key_def ask_needs_def MODE_NORMAL_def verdict Let_def)
  have "client_outcome (fst (finish_ask ''h'' (accepting ''e'' a v) ?s2)) ''h'' = Some (accepting ''e'' a v)"
    using s(3,5) by (simp add: finish_run decided_def act_defs Let_def pa_note_def client_outcome_def)
  then show ?thesis unfolding run .
qed

lemma client_steps:
  "client_step ref_env32 (\<lambda>_. None) s (fst (handle (ref_time now) (client_hooks (ref_time now) nonce) (client_dispatch (ref_time now) nonce) src payload s))"
  "client_step ref_env32 (\<lambda>_. None) s (fst (tick (ref_time now) (client_hooks (ref_time now) nonce) s))"
  "h \<notin> set (dkeys (uc_asks s)) \<Longrightarrow> client_step ref_env32 (\<lambda>_. None) s (fst (client_ask (ref_time now) nonce h models input_text scopes quorum ttl s))"
  by (rule client_step.intros; simp)+

lemma handled_result:
  assumes "pa_trust s = ref_roots"
  shows "handle (ref_time (Fin 130)) H (client_dispatch (ref_time (Fin 130)) ref_nonce) ''e'' (Some (JObj (result_frame request decision response))) s =
    check_mode (ref_time (Fin 130)) H (fst (on_result (ref_time (Fin 130)) ref_nonce ''e'' (result_frame request decision response) s))"
  using assms
  by (simp add: handle_def act_defs parse_frame_def result_frame_def pget_def FRAME_KINDS_def tr_peers_def ref_roots_def any_of_def strv_def
      client_dispatch_def aguard_def)


theorem outcomes_final_witness:
  "\<exists>s0 s t :: user_client. \<exists>out. user_client_init ref_env32 (=) (ref_seed (CHR ''u'')) ref_roots [] [] 1 (Fin 15) 4 default_config 1 = Inr s0 \<and>
     (client_step ref_env32 (\<lambda>_. None))\<^sup>*\<^sup>* s0 s \<and> client_outcome s ''h'' = Some out \<and> oc_status out = OUTCOME_REFUSED \<and>
     client_step ref_env32 (\<lambda>_. None) s t \<and> client_outcome t ''h'' = Some out"
proof -
  obtain s0 where s0: "user_client_init ref_env32 (=) (ref_seed (CHR ''u'')) ref_roots [] [] 1 (Fin 15) 4 default_config 1 = Inr s0" "ready [] s0"
    by (rule ref_client [of "[]"]) simp
  define s where "s = fst (client_ask (ref_time (Fin 120)) ref_nonce ''h'' [''gpt''] ''hi'' [] 1 (Fin 60) s0)"
  have step: "client_step ref_env32 (\<lambda>_. None) s0 s" unfolding s_def using s0(2) by (intro client_steps(3)) (simp add: ready_def dkeys_def)
  have out: "client_outcome s ''h'' = Some (refused_outcome [''no usable entry''] MODE_NORMAL None)"
    using s0(2) by (simp add: s_def ready_def client_ask_def submit_def with_ask_def submit_normal_def act_defs fresh_ask_def Let_def
        finish_run decided_def pa_note_def client_outcome_def)
  let ?t = "fst (tick (ref_time (Fin 200)) (client_hooks (ref_time (Fin 200)) ref_nonce) s)"
  have t: "client_step ref_env32 (\<lambda>_. None) s ?t" by (rule client_steps(2))
  have "client_outcome ?t ''h'' = Some (refused_outcome [''no usable entry''] MODE_NORMAL None)"
    by (rule outcomes_final [OF s0(1) _ _ out]) (use step t in \<open>auto\<close>)
  moreover have "(client_step ref_env32 (\<lambda>_. None))\<^sup>*\<^sup>* s0 s" using step by (rule r_into_rtranclp)
  moreover have "oc_status (refused_outcome [''no usable entry''] MODE_NORMAL None) = OUTCOME_REFUSED" by (simp add: refused_outcome_def)
  ultimately show ?thesis using s0(1) out t by blast
qed

text \<open>In lockdown a result counts against the pinned nodes whoever sends it: the check that the sender is the forwarder the request
  went to is made for refusals only. An empty result from any peer that knows the hash of the request marks every
  pinned node unresponsive and spends a try.\<close>

lemma anyone_fails_pins:
  assumes "map_of (uc_by_rhash s) rh = Some h" "map_of (uc_asks s) h = Some a" "ak_request a = Some request" "ak_mode a = MODE_LOCKDOWN"
    and "pget request ''quorum'' = JInt q" "request_fields request = Some (q', models, pins)"
  shows "on_result R nonce src [(''request_hash'', JStr rh), (''items'', JList [])] s =
    aseq (on_ask h (\<lambda>a. a\<lparr>ak_unresponsive := ak_unresponsive a @ map fst pins\<rparr>)) (submit R nonce h)
      (s\<lparr>uc_safety := (uc_safety s)\<lparr>sl_leases := pa_leases s, sl_ledger := pa_ledger s\<rparr>\<rparr>)"
proof -
  let ?f = "[(''request_hash'', JStr rh), (''items'', JList [])]"
  let ?sl = "(uc_safety s)\<lparr>sl_leases := pa_leases s, sl_ledger := pa_ledger s\<rparr>"
  have needs: "ask_needs a request = Inr (max q LOCKDOWN_QUORUM)" using assms(4,5) by (simp add: ask_needs_def)
  have two: "0 < max q LOCKDOWN_QUORUM" by (simp add: LOCKDOWN_QUORUM_def)
  obtain v where v: "client_judge R request [] (Some (max q LOCKDOWN_QUORUM)) s = (s\<lparr>uc_safety := ?sl\<rparr>, Inr v)"
    "adj_status v = INSUFFICIENT" "adj_evidence v = []"
    using two by (simp add: client_judge_def adjudicate_def needed_answers_def settle_def Let_def)
  have f: "pget ?f ''items'' = JList []" "pget ?f ''request_hash'' = JStr rh" by (simp_all add: pget_def)
  have silent: "silent_pins request [] = Inr (map fst pins)" using assms(6) by (simp add: silent_pins_def)
  show ?thesis
    using v assms(1-4)
    by (simp add: on_result_def f or_empty_def iterate_def act_defs get_key_def needs take_verdict_def silent Let_def)
qed

end
