(* ===== verification/Authorities.thy ===== *)
theory Authorities
  imports Carrying Health Binding
begin

text \<open>
  \<^verbatim>\<open>inference/coordinator.py\<close> and \<^verbatim>\<open>inference/broker.py\<close>: the central server, which signs advisories and carries
  legs outside lockdown, and the key authority, which lends keys by leases and takes them back on a mutiny. The
  key source is the in-memory one of \<^verbatim>\<open>inference/lease.py\<close>; its \<^verbatim>\<open>mint\<close> hook, the random canary and the sealed box
  are the fields of \<open>desk\<close>.
\<close>

section \<open>The coordinator\<close>

record coordinator = participant +
  co_standby :: "did list"
  co_faults :: fault_tracker
  co_epoch :: int
  co_next_advice :: pyfloat

type_synonym 'a coordinator_act = "(coordinator, 'a) act"

definition coordinator_init :: "env \<Rightarrow> identity \<Rightarrow> trust_roots \<Rightarrow> did list \<Rightarrow> config \<Rightarrow> int \<Rightarrow> coordinator res" where
  "coordinator_init E seed tr standby cfg time_ns =
     rbind (participant_init E seed tr [ROLE_COORDINATOR] cfg time_ns) (\<lambda>p.
       if \<not> tr_coordinators tr (pa_did p) then Inl (ValueError ''a coordinator must be on the coordinators list'')
       else rbind (fault_tracker_init (cf_quarantine_threshold cfg) (cf_quarantine_window cfg) (cf_quarantine_cooldown cfg)
                     (Fin 3600) (cf_probation cfg)) (\<lambda>ft.
         Inr (participant.extend p (coordinator.fields standby ft 0 (Fin 0)))))"

definition on_fault :: "runtime \<Rightarrow> did \<Rightarrow> obj \<Rightarrow> unit coordinator_act" where
  "on_fault R src f = aget (\<lambda>s.
     let report = pget f ''report'' in
     abind (alift (check_fault (rt_env R) report (pa_trust s) (rt_now R))) (\<lambda>bad.
     if bad \<noteq> None \<or> pget (obj_of report) ''reporter'' \<noteq> JStr src then aret ()
     else abind (\<lambda>s. case ft_report (rt_env R) (strv (pget (obj_of report) ''accused'')) src (rt_now R) (co_faults s) of
                       (ft, r) \<Rightarrow> (s\<lparr>co_faults := ft\<rparr>, r))
            (\<lambda>newly. awhen newly (pa_note ''quarantine''))))"

definition central_may_carry :: "obj \<Rightarrow> pyfloat \<Rightarrow> coordinator \<Rightarrow> string option" where
  "central_may_carry decision now s =
     (if lockdown (pa_ledger s) then Some ''lockdown: the central server is off the data path'' else may_carry decision now s)"

text \<open>\<^verbatim>\<open>int(now * 1000)\<close>\<close>

definition millis :: "pyfloat \<Rightarrow> int res" where
  "millis now =
     (case now of
        Fin q \<Rightarrow> Inr (if 0 \<le> q then \<lfloor>q * 1000\<rfloor> else \<lceil>q * 1000\<rceil>)
      | NaN \<Rightarrow> Inl (ValueError ''cannot convert float NaN to integer'')
      | _ \<Rightarrow> Inl (OverflowError ''cannot convert float infinity to integer''))"

definition attach_orphan :: "did \<Rightarrow> unit coordinator_act" where
  "attach_orphan d = aget (\<lambda>s.
     if d \<in> set (pa_neighbors s) then aret () else abind (connect d) (\<lambda>linked. awhen linked (pa_note ''central-attach'')))"

definition sign_advice ::
  "runtime \<Rightarrow> did list \<Rightarrow> did list \<Rightarrow> (did \<times> did) list \<Rightarrow> (did \<times> did) list \<Rightarrow> obj coordinator_act" where
  "sign_advice R failed quarantined bypass recruit = aget (\<lambda>s.
     abind (alift (millis (rt_now R))) (\<lambda>ms.
     let epoch = max (co_epoch s + 1) ms in
     aseq (amod (\<lambda>s. s\<lparr>co_epoch := epoch\<rparr>))
       (abind (alift (make_advisory (rt_env R) (pa_identity s) epoch failed quarantined bypass recruit (rt_now R))) (\<lambda>advisory.
         aseq (awhen (failed \<noteq> [] \<or> quarantined \<noteq> [] \<or> bypass \<noteq> [] \<or> recruit \<noteq> []) (pa_note ''advise''))
           (aseq (publish R base_hooks advisory) (aret advisory))))))"

definition advise :: "runtime \<Rightarrow> obj coordinator_act" where
  "advise R = aget (\<lambda>s.
     let db = pa_lsdb s; now = rt_now R;
         known = filter (\<lambda>d. d \<noteq> pa_did s) (ls_known db);
         failed = sort (filter (\<lambda>d. \<not> ls_alive db d now) known);
         quarantined = sorted_list_of_set (ft_quarantined (co_faults s) now);
         down = failed @ quarantined @ filter (excludes_node (pa_ledger s)) known;
         deciders = filter (\<lambda>d. ROLE_SERVE \<in> set (ls_roles db d)) known
     in case plan_repairs db now down (co_standby s) deciders of
          (bypass, recruit, orphans) \<Rightarrow>
            aseq (afor attach_orphan orphans) (sign_advice R failed quarantined bypass recruit))"

definition coordinator_tick :: "runtime \<Rightarrow> pyfloat \<Rightarrow> unit coordinator_act" where
  "coordinator_tick R now = aget (\<lambda>s.
     awhen (fle (co_next_advice s) now)
       (aseq (amod (\<lambda>s. s\<lparr>co_next_advice := fadd now (cf_advise_every (pa_config s))\<rparr>)) (aseq (advise R) (aret ()))))"

definition coordinator_hooks :: "runtime \<Rightarrow> coordinator hooks" where
  "coordinator_hooks R = base_hooks\<lparr>hk_may_carry := central_may_carry, hk_tick := coordinator_tick R\<rparr>"

definition coordinator_dispatch :: "runtime \<Rightarrow> coordinator dispatch" where
  "coordinator_dispatch R kind =
     (if kind = ''fault'' then Some (on_fault R) else carrier_dispatch R (coordinator_hooks R) kind)"

section \<open>Assignments\<close>

record assignment =
  as_key :: string
  as_models :: "string list"

fun assignments_from_bindings ::
  "env \<Rightarrow> (did, string list) dict \<Rightarrow> trust_roots \<Rightarrow> pyfloat \<Rightarrow> json list \<Rightarrow> (did, assignment) dict \<Rightarrow> (did, assignment) dict res" where
  "assignments_from_bindings E models tr now [] out = Inr out"
| "assignments_from_bindings E models tr now (v # vs) out =
     rbind (verify_binding E v now (Some (tr_mesh tr))) (\<lambda>r.
       case (b_ok r, b_did r) of
         (True, Some d) \<Rightarrow>
           (case map_of models d of
              None \<Rightarrow> assignments_from_bindings E models tr now vs out
            | Some ms \<Rightarrow>
                if sorted_set ms = [] \<or> \<not> list_all (\<lambda>m. is_model (JStr m)) (sorted_set ms)
                then Inl (ValueError (''bad model list for '' @ d))
                else assignments_from_bindings E models tr now vs
                       (dset d \<lparr>as_key = the (b_transport_public_key r), as_models = sorted_set ms\<rparr> out))
       | _ \<Rightarrow> assignments_from_bindings E models tr now vs out)"

section \<open>The broker\<close>

record key_broker = participant +
  kb_keys :: key_source
  kb_assignments :: "(did, assignment) dict"
  kb_issued :: "(string, obj) dict"
  kb_dark :: "(string, int) dict"

type_synonym 'a broker_act = "(key_broker, 'a) act"

record desk =
  dk_mint :: "(string \<Rightarrow> string) option"
  dk_canary :: "key_broker \<Rightarrow> string"
  dk_seal :: "obj \<Rightarrow> string \<Rightarrow> string \<Rightarrow> string \<Rightarrow> string res"

definition key_broker_init :: "env \<Rightarrow> identity \<Rightarrow> trust_roots \<Rightarrow> key_source \<Rightarrow> (did, assignment) dict \<Rightarrow> config \<Rightarrow> int \<Rightarrow> key_broker res" where
  "key_broker_init E seed tr keys assignments cfg time_ns =
     rbind (participant_init E seed tr [ROLE_BROKER] cfg time_ns) (\<lambda>p.
       if \<not> tr_brokers tr (pa_did p) then Inl (ValueError ''a broker must be on the brokers list'')
       else Inr (fold (\<lambda>d s. fst (connect d s)) (sort (dkeys assignments))
              (participant.extend p (key_broker.fields keys assignments [] []))))"

section \<open>Lending\<close>

definition grant_lease :: "runtime \<Rightarrow> desk \<Rightarrow> did \<Rightarrow> assignment \<Rightarrow> string \<Rightarrow> int \<Rightarrow> string \<Rightarrow> unit broker_act" where
  "grant_lease R D d a model version secret = aget (\<lambda>s.
     let canary = dk_canary D s in
     abind (alift (make_lease (rt_env R) (pa_identity s) d model version canary (cf_lease_ttl (pa_config s)) (rt_now R))) (\<lambda>lease.
     abind (alift (dk_seal D lease secret canary (as_key a))) (\<lambda>sealed.
       aseq (amod (\<lambda>s. s\<lparr>kb_issued := dset (lease_id lease) lease (kb_issued s)\<rparr>))
         (aseq (on_leases (lb_add (rt_env R) (JObj lease)))
           (aseq (send R d ''grant'' [(''lease'', JObj lease), (''sealed'', JStr sealed)]) (pa_note ''lease''))))))"

definition has_fresh :: "key_broker \<Rightarrow> did \<Rightarrow> string \<Rightarrow> int \<Rightarrow> pyfloat \<Rightarrow> bool" where
  "has_fresh s d model version now \<longleftrightarrow>
     list_ex (\<lambda>(lid, x). pget x ''subject'' = JStr d \<and> pget x ''model'' = JStr model \<and> pget x ''key_version'' = JInt version \<and>
        flt (fmul (cf_lease_ttl (pa_config s)) (cf_lease_renew_at (pa_config s))) (fsub (numv (pget x ''expires_at'')) now)) (kb_issued s)"

definition lendable :: "key_broker \<Rightarrow> string \<Rightarrow> (int \<times> string) option" where
  "lendable s model =
     (case ks_current (kb_keys s) model of
        None \<Rightarrow> None
      | Some (version, secret) \<Rightarrow>
          if is_latched (pa_ledger s) (model_target model) \<or> version \<le> dget (kb_dark s) model (- 1) then None
          else Some (version, secret))"

definition issue_one :: "runtime \<Rightarrow> desk \<Rightarrow> pyfloat \<Rightarrow> did \<Rightarrow> assignment \<Rightarrow> string \<Rightarrow> int broker_act" where
  "issue_one R D now d a model = aget (\<lambda>s.
     case lendable s model of
       None \<Rightarrow> aret 0
     | Some (version, secret) \<Rightarrow>
         if has_fresh s d model version now then aret 0
         else aseq (grant_lease R D d a model version secret) (aret 1))"

fun acount :: "('x \<Rightarrow> ('s, int) act) \<Rightarrow> 'x list \<Rightarrow> ('s, int) act" where
  "acount f [] = aret 0"
| "acount f (x # xs) = abind (f x) (\<lambda>n. abind (acount f xs) (\<lambda>m. aret (n + m)))"

definition issue_due :: "runtime \<Rightarrow> desk \<Rightarrow> pyfloat \<Rightarrow> int broker_act" where
  "issue_due R D now = aget (\<lambda>s.
     acount (\<lambda>(d, a). aget (\<lambda>s. if excludes_node (pa_ledger s) d then aret 0 else acount (issue_one R D now d a) (as_models a)))
       (sort_key fst (kb_assignments s)))"

definition broker_tick :: "runtime \<Rightarrow> desk \<Rightarrow> pyfloat \<Rightarrow> unit broker_act" where
  "broker_tick R D now =
     aseq (amod (\<lambda>s. s\<lparr>kb_issued := filter (\<lambda>(lid, x). \<not> fle (numv (pget x ''expires_at'')) now) (kb_issued s)\<rparr>))
       (aseq (issue_due R D now) (aret ()))"

section \<open>Reacting to mutiny\<close>

fun chunks :: "nat \<Rightarrow> 'a list \<Rightarrow> 'a list list" where
  "chunks n [] = []"
| "chunks n (x # xs) = (x # take (n - 1) xs) # chunks n (drop (n - 1) xs)"

definition revoke_chunk :: "runtime \<Rightarrow> string \<Rightarrow> string list \<Rightarrow> unit broker_act" where
  "revoke_chunk R reason ids = aget (\<lambda>s.
     abind (alift (make_lease_revocation (rt_env R) (pa_identity s) ids reason (rt_now R))) (\<lambda>revocation.
       aseq (amod (\<lambda>s. s\<lparr>kb_issued := filter (\<lambda>(lid, x). lid \<notin> set ids) (kb_issued s)\<rparr>))
         (aseq (publish R base_hooks revocation) (pa_note ''revoke''))))"

definition revoke_leases :: "runtime \<Rightarrow> string list \<Rightarrow> string \<Rightarrow> unit broker_act" where
  "revoke_leases R ids reason = afor (revoke_chunk R reason) (chunks MAX_REVOKED_LEASES (sorted_set ids))"

text \<open>\<^verbatim>\<open>target.partition(":")\<close>, without the separator.\<close>

definition kind_of :: "string \<Rightarrow> string" where
  "kind_of target = takeWhile (\<lambda>c. c \<noteq> CHR '':'') target"

definition ref_of :: "string \<Rightarrow> string" where
  "ref_of target = drop 1 (dropWhile (\<lambda>c. c \<noteq> CHR '':'') target)"

definition leases_on :: "string \<Rightarrow> string \<Rightarrow> (string, obj) dict \<Rightarrow> obj list" where
  "leases_on field v issued = filter (\<lambda>x. pget x field = JStr v) (map snd issued)"

text \<open>The lease ids to revoke and the models to rotate, for the targets of an incident.\<close>

definition struck :: "incident \<Rightarrow> (string, obj) dict \<Rightarrow> string list" where
  "struck inc issued = concat (map (\<lambda>t.
     if kind_of t = ''node'' then map lease_id (leases_on ''subject'' (ref_of t) issued)
     else if kind_of t = ''model'' then map lease_id (leases_on ''model'' (ref_of t) issued) else []) (in_targets inc))"

definition exposed :: "incident \<Rightarrow> (string, obj) dict \<Rightarrow> string list" where
  "exposed inc issued = concat (map (\<lambda>t.
     if kind_of t = ''node'' then map (\<lambda>x. strv (pget x ''model'')) (leases_on ''subject'' (ref_of t) issued)
     else if kind_of t = ''model'' \<and> in_kind inc = MODEL_SELF_REPORTED then [ref_of t] else []) (in_targets inc))"

definition rotate_key :: "desk \<Rightarrow> string \<Rightarrow> string list broker_act" where
  "rotate_key D model s =
     (let old = ks_current (kb_keys s) model;
          (keys, fresh) = ks_rotate (dk_mint D) model (kb_keys s);
          dark = (case (fresh, old) of (None, Some (version, _)) \<Rightarrow> dset model version (kb_dark s) | _ \<Rightarrow> kb_dark s);
          stale = filter (\<lambda>x. case fresh of None \<Rightarrow> True | Some v \<Rightarrow> intv (pget x ''key_version'') < v) (leases_on ''model'' model (kb_issued s))
      in aseq (pa_note ''rotate'') (aret (map lease_id stale)) (s\<lparr>kb_keys := keys, kb_dark := dark\<rparr>))"

fun rotate_keys :: "desk \<Rightarrow> string list \<Rightarrow> string list broker_act" where
  "rotate_keys D [] = aret []"
| "rotate_keys D (m # ms) = abind (rotate_key D m) (\<lambda>ids. abind (rotate_keys D ms) (\<lambda>rest. aret (ids @ rest)))"

definition broker_incident :: "runtime \<Rightarrow> desk \<Rightarrow> incident \<Rightarrow> unit broker_act" where
  "broker_incident R D inc = aget (\<lambda>s.
     abind (rotate_keys D (sorted_set (exposed inc (kb_issued s)))) (\<lambda>stale.
       aseq (revoke_leases R (struck inc (kb_issued s) @ stale) (''incident '' @ str_take 16 (in_id inc)))
         (aseq (issue_due R D (rt_now R)) (aret ()))))"

definition broker_reset :: "runtime \<Rightarrow> desk \<Rightarrow> string set \<Rightarrow> unit broker_act" where
  "broker_reset R D unlatched = aseq (issue_due R D (rt_now R)) (aret ())"

definition broker_hooks :: "runtime \<Rightarrow> desk \<Rightarrow> key_broker hooks" where
  "broker_hooks R D = base_hooks
     \<lparr>hk_incident := broker_incident R D, hk_reset := broker_reset R D, hk_tick := broker_tick R D\<rparr>"

definition broker_dispatch :: "runtime \<Rightarrow> desk \<Rightarrow> key_broker dispatch" where
  "broker_dispatch R D = participant_dispatch R (broker_hooks R D)"

text \<open>The operator installs a key by hand.\<close>

definition install_key :: "string \<Rightarrow> string \<Rightarrow> key_broker \<Rightarrow> key_broker" where
  "install_key model secret s = s\<lparr>kb_keys := fst (ks_set model secret (kb_keys s))\<rparr>"

inductive broker_step :: "env \<Rightarrow> decoder \<Rightarrow> key_broker \<Rightarrow> key_broker \<Rightarrow> bool" for E dec where
  receives: "rt_env R = E \<Longrightarrow> rt_dec R = dec \<Longrightarrow>
    broker_step E dec s (fst (handle R (broker_hooks R D) (broker_dispatch R D) src payload s))"
| ticks: "rt_env R = E \<Longrightarrow> rt_dec R = dec \<Longrightarrow> broker_step E dec s (fst (tick R (broker_hooks R D) s))"
| publishes: "rt_env R = E \<Longrightarrow> rt_dec R = dec \<Longrightarrow> broker_step E dec s (fst (publish R (broker_hooks R D) obj s))"
| installs: "broker_step E dec s (install_key model secret s)"

end
