(* ===== verification/Custody.thy ===== *)
theory Custody
  imports Authorities Flooding
begin

text \<open>
  What the key authority and the central server promise: a key that a convicted node held is never lent again, an advisory
  is always newer than the one before, and in lockdown the central server takes no request further.
\<close>

section \<open>Predicates a broker keeps\<close>

lemma broker_fields:
  assumes "participant.more q = participant.more (p :: key_broker)"
  shows "kb_keys q = kb_keys p" "kb_issued q = kb_issued p" "kb_dark q = kb_dark p" "kb_assignments q = kb_assignments p"
  using assms by (cases p; cases q; simp)+

lemma aseq_amod: "aseq (amod f) m s = m (f s)"
  by (simp add: aseq_def abind_def amod_def)

text \<open>What every operation of the broker is made of: leases leave, keys rotate, and a lease is made of a key that may be lent.\<close>

locale lending = believing I R for I :: "key_broker \<Rightarrow> bool" and R :: runtime +
  assumes drops: "\<And>s P. I s \<Longrightarrow> I (s\<lparr>kb_issued := filter P (kb_issued s)\<rparr>)"
    and rotates: "\<And>s keys dark. I s \<Longrightarrow> ks_rotate mint model (kb_keys s) = (keys, fresh) \<Longrightarrow>
      dark = (case (fresh, ks_current (kb_keys s) model) of (None, Some (version, _)) \<Rightarrow> dset model version (kb_dark s) | _ \<Rightarrow> kb_dark s) \<Longrightarrow>
      I (s\<lparr>kb_keys := keys, kb_dark := dark\<rparr>)"
    and lends: "\<And>s lease. I s \<Longrightarrow> lendable s model = Some (version, secret) \<Longrightarrow>
      make_lease (rt_env R) (pa_identity s) d model version canary ttl (rt_now R) = Inr lease \<Longrightarrow>
      I (s\<lparr>kb_issued := dset (lease_id lease) lease (kb_issued s)\<rparr>)"
begin

lemma grant_keeps:
  assumes "I s" "lendable s model = Some (version, secret)"
  shows "I (fst (grant_lease R D d a model version secret s))"
proof (cases "make_lease (rt_env R) (pa_identity s) d model version (dk_canary D s) (cf_lease_ttl (pa_config s)) (rt_now R)")
  case (Inl e)
  with assms(1) show ?thesis by (simp add: grant_lease_def aget_def abind_def alift_def Let_def)
next
  case (Inr lease)
  show ?thesis
  proof (cases "dk_seal D lease secret (dk_canary D s) (as_key a)")
    case (Inl e)
    with Inr assms(1) show ?thesis by (simp add: grant_lease_def aget_def abind_def alift_def Let_def)
  next
    case (Inr sealed)
    let ?s = "s\<lparr>kb_issued := dset (lease_id lease) lease (kb_issued s)\<rparr>"
    let ?rest = "aseq (on_leases (lb_add (rt_env R) (JObj lease)))
           (aseq (send R d ''grant'' [(''lease'', JObj lease), (''sealed'', JStr sealed)]) (pa_note ''lease''))"
    have "keeps I ?rest" by (intro keeps_rules)
    moreover have "I ?s" by (rule lends [OF assms \<open>make_lease _ _ _ _ _ _ _ _ = Inr lease\<close>])
    moreover have "grant_lease R D d a model version secret s = ?rest ?s"
      using \<open>make_lease _ _ _ _ _ _ _ _ = Inr lease\<close> Inr
      by (simp add: grant_lease_def aget_def Let_def abind_lift aseq_amod)
    ultimately show ?thesis by (simp add: keeps_def)
  qed
qed

lemma issue_one_keeps [keeps_rules]: "keeps I (issue_one R D now d a model)"
proof -
  have "I (fst (issue_one R D now d a model s))" if I: "I s" for s
  proof (cases "lendable s model")
    case None
    with I show ?thesis by (simp add: issue_one_def aget_def aret_def)
  next
    case (Some k)
    then obtain version secret where k: "lendable s model = Some (version, secret)" by (cases k) auto
    have "I (fst (aseq (grant_lease R D d a model version secret) (aret (1 :: int)) s))"
      using grant_keeps [OF I k, of D d a] by (auto simp: aseq_def abind_def aret_def split: prod.splits sum.splits)
    with k I show ?thesis by (simp add: issue_one_def aget_def aret_def)
  qed
  then show ?thesis by (simp add: keeps_def)
qed

lemma acount_keeps [keeps_rules]: "(\<And>x. keeps I (f x)) \<Longrightarrow> keeps I (acount f xs)"
  by (induction xs) (simp_all add: keeps_rules)

lemma issue_due_keeps [keeps_rules]: "keeps I (issue_due R D now)"
  unfolding issue_due_def by (intro keeps_rules)

lemma issued_keeps [keeps_rules]: "keeps I (amod (\<lambda>s. s\<lparr>kb_issued := filter P (kb_issued s)\<rparr>))"
  by (rule keeps_amod) (rule drops)

lemma broker_tick_keeps: "keeps I (broker_tick R D now)"
  unfolding broker_tick_def by (intro keeps_rules)

lemma revoke_leases_keeps [keeps_rules]: "keeps I (revoke_leases R ids reason)"
  unfolding revoke_leases_def revoke_chunk_def by (intro keeps_rules publish_keeps base_hooks_keep)

lemma rotate_key_keeps [keeps_rules]: "keeps I (rotate_key D model)"
proof -
  have "I (fst (rotate_key D model s))" if I: "I s" for s
  proof -
    obtain keys fresh where r: "ks_rotate (dk_mint D) model (kb_keys s) = (keys, fresh)" by force
    have "keeps I (aseq (pa_note ''rotate'') (aret ids))" for ids :: "string list" by (intro keeps_rules)
    from keepsD [OF this rotates [OF I r refl]] show ?thesis by (simp add: rotate_key_def Let_def r)
  qed
  then show ?thesis by (simp add: keeps_def)
qed

lemma rotate_keys_keeps [keeps_rules]: "keeps I (rotate_keys D models)"
  by (induction models) (auto intro: keeps_rules)

lemma broker_incident_keeps: "keeps I (broker_incident R D inc)"
  unfolding broker_incident_def by (intro keeps_rules)

lemma broker_hooks_keep: "hooks_keep I (broker_hooks R D)"
  using broker_incident_keeps broker_tick_keeps
  by (simp add: hooks_keep_def absorb_hooks_keep_def broker_hooks_def broker_reset_def base_hooks_def keeps_rules)

lemma broker_handle_keeps: "keeps I (handle R (broker_hooks R D) (broker_dispatch R D) src payload)"
  by (rule handle_keeps [OF broker_hooks_keep]) (auto simp: broker_dispatch_def intro: participant_dispatch_keeps [OF broker_hooks_keep])

lemma after_incident_keeps:
  "keeps I (aseq (revoke_leases R ids reason) (aseq (issue_due R D now) (aret ())))"
  by (intro keeps_rules)

end

lemma broker_run_keeps:
  assumes "(broker_step E dec)\<^sup>*\<^sup>* s t" "\<And>R. lending I R" "\<And>s model secret. I s \<Longrightarrow> I (install_key model secret s)" "I s"
  shows "I t"
  using assms(1,4)
proof (induction rule: rtranclp_induct)
  case (step t u)
  have I: "I t" by (rule step.IH [OF step.prems])
  from step.hyps(2) show ?case
  proof (cases rule: broker_step.cases)
    case (receives R D src payload)
    with keepsD [OF lending.broker_handle_keeps [OF assms(2)] I] show ?thesis by simp
  next
    case (ticks R D)
    with keepsD [OF believing.tick_keeps [OF lending.axioms(1) [OF assms(2)] lending.broker_hooks_keep [OF assms(2)]] I] show ?thesis by simp
  next
    case (publishes R D obj)
    with keepsD [OF believing.publish_keeps [OF lending.axioms(1) [OF assms(2)] lending.broker_hooks_keep [OF assms(2)]] I] show ?thesis by simp
  next
    case (installs model secret)
    with assms(3) [OF I] show ?thesis by simp
  qed
qed

section \<open>Spent keys\<close>

text \<open>A version the source has reached, and one that is not lent any more.\<close>

definition due :: "string \<Rightarrow> int \<Rightarrow> key_broker \<Rightarrow> bool" where
  "due model v s \<longleftrightarrow> (\<exists>c secret. ks_current (kb_keys s) model = Some (c, secret) \<and> v \<le> c)"

definition spent :: "string \<Rightarrow> int \<Rightarrow> key_broker \<Rightarrow> bool" where
  "spent model v s \<longleftrightarrow>
     due model v s \<and> (v \<le> dget (kb_dark s) model (- 1) \<or> (\<exists>c secret. ks_current (kb_keys s) model = Some (c, secret) \<and> v < c))"

definition issued_ok :: "key_broker \<Rightarrow> bool" where
  "issued_ok s \<longleftrightarrow>
     (\<forall>(lid, x)\<in>set (kb_issued s). \<exists>model v. pget x ''model'' = JStr model \<and> pget x ''key_version'' = JInt v \<and> due model v s)"

text \<open>Every lease that is not one of the old ones is of a later version.\<close>

definition later_only :: "(string \<times> obj) set \<Rightarrow> string \<Rightarrow> int \<Rightarrow> key_broker \<Rightarrow> bool" where
  "later_only old model v s \<longleftrightarrow>
     (\<forall>(lid, x)\<in>set (kb_issued s). (lid, x) \<notin> old \<longrightarrow> pget x ''model'' = JStr model \<longrightarrow> v < intv (pget x ''key_version''))"

definition retired :: "(string \<times> obj) set \<Rightarrow> string \<Rightarrow> int \<Rightarrow> key_broker \<Rightarrow> bool" where
  "retired old model v s \<longleftrightarrow> spent model v s \<and> later_only old model v s"

lemma lendable_later:
  assumes "lendable s model = Some (c, secret)"
  shows "ks_current (kb_keys s) model = Some (c, secret)" "spent model v s \<Longrightarrow> v < c"
  using assms by (auto simp: lendable_def spent_def split: option.splits if_splits)

lemma ks_set_current:
  "ks_set model secret ks = (ks', version) \<Longrightarrow>
   ks_current ks' m = (if m = model then Some (version, secret) else ks_current ks m) \<and>
   version = (case ks_current ks model of None \<Rightarrow> 1 | Some (c, _) \<Rightarrow> c + 1)"
  by (auto simp: ks_set_def ks_current_def dget_def Let_def split: option.splits)

lemma ks_rotate_current:
  assumes "ks_rotate mint model ks = (ks', fresh)"
  shows "(fresh = None \<and> ks' = ks) \<or>
    (\<exists>c x x'. ks_current ks model = Some (c, x) \<and> fresh = Some (c + 1) \<and> ks_current ks' = (ks_current ks)(model := Some (c + 1, x')))"
proof (cases mint)
  case None
  with assms show ?thesis by (simp add: ks_rotate_def)
next
  case (Some f)
  show ?thesis
  proof (cases "ks_current ks model")
    case None
    with Some assms show ?thesis by (auto simp: ks_rotate_def ks_current_def dkeys_def map_of_eq_None_iff)
  next
    case (Some k)
    obtain c x where k: "k = (c, x)" by (cases k)
    obtain ks1 version where s: "ks_set model (f model) ks = (ks1, version)" by force
    have "model \<in> set (dkeys ks)" using Some by (auto simp: ks_current_def dkeys_def dest: map_of_SomeD intro: rev_image_eqI)
    with assms \<open>mint = Some f\<close> s have "ks' = ks1" "fresh = Some version" by (auto simp: ks_rotate_def)
    with ks_set_current [OF s] Some k show ?thesis by (auto simp: fun_eq_iff)
  qed
qed

lemma due_rotates:
  assumes "due m v s" "ks_rotate mint model (kb_keys s) = (keys, fresh)"
  shows "due m v (s\<lparr>kb_keys := keys, kb_dark := dark\<rparr>)"
  using assms(1) ks_rotate_current [OF assms(2)] by (auto simp: due_def)

lemma due_installs: "due m v s \<Longrightarrow> due m v (install_key model secret s)"
  using ks_set_current [of model secret "kb_keys s" "fst (ks_set model secret (kb_keys s))" "snd (ks_set model secret (kb_keys s))" m]
  by (auto simp: due_def install_key_def split: if_splits option.splits)

lemma spent_rotates:
  assumes "spent m v s" "ks_rotate mint model (kb_keys s) = (keys, fresh)"
    "dark = (case (fresh, ks_current (kb_keys s) model) of (None, Some (version, _)) \<Rightarrow> dset model version (kb_dark s) | _ \<Rightarrow> kb_dark s)"
  shows "spent m v (s\<lparr>kb_keys := keys, kb_dark := dark\<rparr>)"
proof -
  have d: "due m v (s\<lparr>kb_keys := keys, kb_dark := dark\<rparr>)" using assms(1,2) by (auto simp: spent_def intro: due_rotates)
  from ks_rotate_current [OF assms(2)] show ?thesis
  proof
    assume "fresh = None \<and> keys = kb_keys s"
    with assms(1,3) d show ?thesis by (auto simp: spent_def due_def dget_def split: option.splits)
  next
    assume "\<exists>c x x'. ks_current (kb_keys s) model = Some (c, x) \<and> fresh = Some (c + 1) \<and>
      ks_current keys = (ks_current (kb_keys s))(model := Some (c + 1, x'))"
    then obtain c x x' where r: "ks_current (kb_keys s) model = Some (c, x)" "fresh = Some (c + 1)"
      "ks_current keys = (ks_current (kb_keys s))(model := Some (c + 1, x'))" by blast
    have "dark = kb_dark s" using assms(3) r(2) by simp
    with assms(1) d r(1,3) show ?thesis by (cases "m = model") (auto simp: spent_def due_def)
  qed
qed

lemma spent_installs: "spent m v s \<Longrightarrow> spent m v (install_key model secret s)"
  using ks_set_current [of model secret "kb_keys s" "fst (ks_set model secret (kb_keys s))" "snd (ks_set model secret (kb_keys s))" m]
    due_installs [of m v s model secret]
  by (auto simp: spent_def due_def install_key_def split: if_splits option.splits)

text \<open>Rotating a model spends every version the source had reached.\<close>

lemma rotation_spends:
  assumes "due model v s" "ks_rotate mint model (kb_keys s) = (keys, fresh)"
    "dark = (case (fresh, ks_current (kb_keys s) model) of (None, Some (version, _)) \<Rightarrow> dset model version (kb_dark s) | _ \<Rightarrow> kb_dark s)"
  shows "spent model v (s\<lparr>kb_keys := keys, kb_dark := dark\<rparr>)"
  using ks_rotate_current [OF assms(2)] assms(1,3) due_rotates [OF assms(1,2)]
  by (auto simp: spent_def due_def dget_def)

section \<open>Nothing lends them again\<close>

lemma make_lease_fields:
  assumes "make_lease E broker d model version canary ttl now = Inr lease"
  shows "pget lease ''model'' = JStr model" "pget lease ''key_version'' = JInt version" "pget lease ''subject'' = JStr d"
proof -
  from assms obtain full where f: "sign_payload E broker full = Inr lease"
    "pget full ''model'' = JStr model" "pget full ''key_version'' = JInt version" "pget full ''subject'' = JStr d"
    by (auto simp: make_lease_def rbind_Inr_iff Let_def pget_def split: option.splits)
  then show "pget lease ''model'' = JStr model" "pget lease ''key_version'' = JInt version" "pget lease ''subject'' = JStr d"
    by (simp_all add: sign_payload_fields [OF f(1)])
qed

lemma own_broker:
  fixes I :: "key_broker \<Rightarrow> bool"
  assumes "\<And>p q. I p \<Longrightarrow> kb_keys q = kb_keys p \<Longrightarrow> kb_issued q = kb_issued p \<Longrightarrow> kb_dark q = kb_dark p \<Longrightarrow> I q"
  shows "own_state I"
  unfolding own_state_def by (intro allI impI) (erule assms, (rule broker_fields, assumption)+)

interpretation issuing: lending issued_ok R for R
proof (intro lending.intro own_state_believing own_broker lending_axioms.intro)
  show "issued_ok q" if "issued_ok p" "kb_keys q = kb_keys p" "kb_issued q = kb_issued p" "kb_dark q = kb_dark p" for p q
    using that by (simp add: issued_ok_def due_def)
  show "issued_ok (s\<lparr>kb_issued := filter P (kb_issued s)\<rparr>)" if "issued_ok s" for s P
    using that by (fastforce simp: issued_ok_def due_def)
  show "issued_ok (s\<lparr>kb_keys := keys, kb_dark := dark\<rparr>)"
    if "issued_ok s" "ks_rotate mint model (kb_keys s) = (keys, fresh)" for s keys dark mint model fresh
    using that due_rotates [OF _ that(2)] by (fastforce simp: issued_ok_def)
  show "issued_ok (s\<lparr>kb_issued := dset (lease_id lease) lease (kb_issued s)\<rparr>)"
    if "issued_ok s" "lendable s model = Some (version, secret)"
      "make_lease (rt_env R) (pa_identity s) d model version canary ttl (rt_now R) = Inr lease" for s lease model version secret d canary ttl
  proof -
    have "due model version s" using lendable_later(1) [OF that(2)] by (simp add: due_def)
    with that(1) make_lease_fields [OF that(3)] show ?thesis by (fastforce simp: issued_ok_def due_def dest!: set_dset)
  qed
qed

interpretation retiring: lending "retired old model v" R for R old model v
proof (intro lending.intro own_state_believing own_broker lending_axioms.intro)
  show "retired old model v q" if "retired old model v p" "kb_keys q = kb_keys p" "kb_issued q = kb_issued p" "kb_dark q = kb_dark p" for p q
    using that by (simp add: retired_def spent_def due_def later_only_def)
  show "retired old model v (s\<lparr>kb_issued := filter P (kb_issued s)\<rparr>)" if "retired old model v s" for s P
    using that by (auto simp: retired_def spent_def due_def later_only_def)
  show "retired old model v (s\<lparr>kb_keys := keys, kb_dark := dark\<rparr>)"
    if "retired old model v s" "ks_rotate mint m (kb_keys s) = (keys, fresh)"
      "dark = (case (fresh, ks_current (kb_keys s) m) of (None, Some (version, _)) \<Rightarrow> dset m version (kb_dark s) | _ \<Rightarrow> kb_dark s)"
    for s keys dark mint m fresh
    using that(1) spent_rotates [OF _ that(2,3)] by (auto simp: retired_def later_only_def)
  show "retired old model v (s\<lparr>kb_issued := dset (lease_id lease) lease (kb_issued s)\<rparr>)"
    if "retired old model v s" "lendable s m = Some (version, secret)"
      "make_lease (rt_env R) (pa_identity s) d m version canary ttl (rt_now R) = Inr lease" for s lease m version secret d canary ttl
    using that(1) lendable_later(2) [OF that(2)] make_lease_fields [OF that(3)]
    by (auto simp: retired_def spent_def due_def later_only_def intv_def dest!: set_dset)
qed

lemma issued_installs: "issued_ok s \<Longrightarrow> issued_ok (install_key model secret s)"
  using due_installs [of _ _ s model secret] by (fastforce simp: issued_ok_def install_key_def)

lemma retired_installs: "retired old model v s \<Longrightarrow> retired old model v (install_key m secret s)"
  using spent_installs [of model v s m secret] by (simp add: retired_def later_only_def install_key_def)

lemma rotate_key_run:
  assumes "ks_rotate (dk_mint D) model (kb_keys s) = (keys, fresh)"
  shows "\<exists>t ids. rotate_key D model s = (t, Inr ids) \<and> kb_issued t = kb_issued s \<and> kb_keys t = keys \<and>
    kb_dark t = (case (fresh, ks_current (kb_keys s) model) of (None, Some (version, _)) \<Rightarrow> dset model version (kb_dark s) | _ \<Rightarrow> kb_dark s)"
  using assms by (simp add: rotate_key_def Let_def aseq_def abind_def pa_note_def amod_def aret_def)

lemma rotate_keys_spend:
  assumes "due model v s"
  shows "\<exists>t ids. rotate_keys D models s = (t, Inr ids) \<and> kb_issued t = kb_issued s \<and> due model v t \<and>
    (model \<in> set models \<or> spent model v s \<longrightarrow> spent model v t)"
  using assms
proof (induction models arbitrary: s)
  case Nil
  then show ?case by (simp add: aret_def)
next
  case (Cons m ms)
  obtain keys fresh where r: "ks_rotate (dk_mint D) m (kb_keys s) = (keys, fresh)" by force
  from rotate_key_run [OF r] obtain t ids where t: "rotate_key D m s = (t, Inr ids)" "kb_issued t = kb_issued s" "kb_keys t = keys"
    "kb_dark t = (case (fresh, ks_current (kb_keys s) m) of (None, Some (version, _)) \<Rightarrow> dset m version (kb_dark s) | _ \<Rightarrow> kb_dark s)" by blast
  have frame: "due model v t = due model v (s\<lparr>kb_keys := keys, kb_dark := kb_dark t\<rparr>)"
    "spent model v t = spent model v (s\<lparr>kb_keys := keys, kb_dark := kb_dark t\<rparr>)"
    using t(3) by (simp_all add: due_def spent_def)
  have due: "due model v t" unfolding frame by (rule due_rotates [OF Cons.prems r])
  have "spent model v t" if "model = m"
    unfolding frame using rotation_spends [OF _ r t(4)] Cons.prems that by simp
  moreover have "spent model v t" if "spent model v s" unfolding frame by (rule spent_rotates [OF that r t(4)])
  moreover obtain u rest where "rotate_keys D ms t = (u, Inr rest)" "kb_issued u = kb_issued t" "due model v u"
    "model \<in> set ms \<or> spent model v t \<longrightarrow> spent model v u"
    using Cons.IH [OF due] by blast
  ultimately show ?case using t(1,2) by (auto simp: abind_def aret_def)
qed

lemma incident_retires:
  assumes "ks_current (kb_keys s) model = Some (v, secret)" "model \<in> set (exposed inc (kb_issued s))"
  shows "retired (set (kb_issued s)) model v (fst (broker_incident R D inc s))"
proof -
  let ?I = "retired (set (kb_issued s)) model v"
  have "due model v s" using assms(1) by (simp add: due_def)
  from rotate_keys_spend [OF this, of D "sorted_set (exposed inc (kb_issued s))"] assms(2)
  obtain t ids where t: "rotate_keys D (sorted_set (exposed inc (kb_issued s))) s = (t, Inr ids)" "kb_issued t = kb_issued s" "spent model v t"
    by auto
  have "?I t" using t(2,3) by (auto simp: retired_def later_only_def)
  from keepsD [OF retiring.after_incident_keeps [where R = R] this] show ?thesis
    by (simp add: broker_incident_def aget_def abind_def t(1))
qed

text \<open>A node's lease exposes its model's key to it, a model that echoed its lease exposes its own.\<close>

lemma exposedI:
  assumes "t \<in> set (in_targets inc)"
    "kind_of t = ''node'' \<and> (lid, x) \<in> set issued \<and> pget x ''subject'' = JStr (ref_of t) \<and> pget x ''model'' = JStr model \<or>
     kind_of t = ''model'' \<and> in_kind inc = MODEL_SELF_REPORTED \<and> ref_of t = model"
  shows "model \<in> set (exposed inc issued)"
proof -
  let ?f = "\<lambda>t. if kind_of t = ''node'' then map (\<lambda>x. strv (pget x ''model'')) (leases_on ''subject'' (ref_of t) issued)
     else if kind_of t = ''model'' \<and> in_kind inc = MODEL_SELF_REPORTED then [ref_of t] else []"
  have "model \<in> set (?f t)"
    using assms(2)
  proof
    assume n: "kind_of t = ''node'' \<and> (lid, x) \<in> set issued \<and> pget x ''subject'' = JStr (ref_of t) \<and> pget x ''model'' = JStr model"
    then have "x \<in> set (leases_on ''subject'' (ref_of t) issued)" by (force simp: leases_on_def)
    then have "strv (pget x ''model'') \<in> (\<lambda>x. strv (pget x ''model'')) ` set (leases_on ''subject'' (ref_of t) issued)" by (rule imageI)
    with n show ?thesis by (simp add: strv_def)
  qed simp
  then show ?thesis unfolding exposed_def set_concat set_map by (rule UN_I [OF imageI [OF assms(1)]])
qed

lemma target_parts: "kind_of (node_target d) = ''node''" "ref_of (node_target d) = d"
  "kind_of (model_target m) = ''model''" "ref_of (model_target m) = m"
  by (simp_all add: kind_of_def ref_of_def node_target_def model_target_def)

lemma broker_start_issued:
  assumes "key_broker_init E seed tr keys assignments cfg t0 = Inr s"
  shows "issued_ok s"
proof -
  have none: "kb_issued (fst (connect d s)) = kb_issued s" for d and s :: key_broker by (simp add: connect_def)
  have "kb_issued (fold (\<lambda>d s. fst (connect d s)) ds s) = kb_issued s" for ds and s :: key_broker
    by (induction ds arbitrary: s) (simp_all add: none)
  with assms have "kb_issued s = []"
    by (auto simp: key_broker_init_def rbind_Inr_iff participant.defs key_broker.defs split: if_splits)
  then show ?thesis by (simp add: issued_ok_def)
qed


text \<open>Only leases still on issue count. A node whose lease ran out, or was revoked because its model was latched first, keeps the
  secret; when the node is convicted later nothing is rotated, and the key it knows may be lent again.\<close>

lemma late_conviction_rotates_nothing:
  assumes "in_targets inc = [node_target d]" "leases_on ''subject'' d (kb_issued s) = []"
  shows "fst (broker_incident R D inc s) = fst (issue_due R D (rt_now R) s)"
proof -
  have "struck inc (kb_issued s) = []" "exposed inc (kb_issued s) = []"
    using assms by (simp_all add: struck_def exposed_def target_parts)
  then show ?thesis
    by (simp add: broker_incident_def aget_def abind_def revoke_leases_def sorted_set_def aseq_def aret_def split: prod.split sum.split)
qed

section \<open>The central server\<close>

lemma coordinator_fields:
  assumes "participant.more q = participant.more (p :: coordinator)"
  shows "co_epoch q = co_epoch p"
  using assms by (cases p; cases q; simp)

interpretation epochs: believing "\<lambda>s :: coordinator. co_epoch s = e" R for R e
  by (rule own_state_believing) (auto simp: own_state_def dest: coordinator_fields)

text \<open>Every advisory a coordinator signs has a larger epoch than all before it, so it replaces them wherever it arrives.\<close>

lemma attach_keeps [keeps_rules]: "keeps (\<lambda>s :: coordinator. co_epoch s = e) (attach_orphan d)"
  unfolding attach_orphan_def by (intro keeps_rules epochs.connect_keeps epochs.note_keeps)

lemma sign_advice_epoch:
  assumes "sign_advice R failed quarantined bypass recruit s = (t, Inr advisory)"
  shows "co_epoch s < co_epoch t \<and> pget advisory ''epoch'' = JInt (co_epoch t)"
proof -
  obtain ms where ms: "millis (rt_now R) = Inr ms"
    using assms by (cases "millis (rt_now R)") (simp_all add: sign_advice_def aget_def abind_def alift_def)
  let ?e = "max (co_epoch s + 1) ms"
  obtain adv where adv: "make_advisory (rt_env R) (pa_identity s) ?e failed quarantined bypass recruit (rt_now R) = Inr adv"
    using assms ms
    by (cases "make_advisory (rt_env R) (pa_identity s) ?e failed quarantined bypass recruit (rt_now R)")
      (simp_all add: sign_advice_def aget_def abind_lift Let_def aseq_amod abind_def alift_def)
  let ?rest = "aseq (awhen (failed \<noteq> [] \<or> quarantined \<noteq> [] \<or> bypass \<noteq> [] \<or> recruit \<noteq> []) (pa_note ''advise''))
           (aseq (publish R base_hooks adv) (aret adv))"
  have run: "?rest (s\<lparr>co_epoch := ?e\<rparr>) = (t, Inr advisory)"
    using assms by (simp add: sign_advice_def aget_def ms abind_lift Let_def aseq_amod adv)
  have "keeps (\<lambda>s :: coordinator. co_epoch s = ?e) ?rest"
    by (intro keeps_rules epochs.note_keeps epochs.publish_keeps base_hooks_keep)
  from keeps_run [OF this _ run] have t: "co_epoch t = ?e" by simp
  have "advisory = adv" using run by (auto simp: aseq_def abind_def aret_def awhen_def split: prod.splits sum.splits)
  moreover obtain body where "sign_payload (rt_env R) (pa_identity s) body = Inr adv" "pget body ''epoch'' = JInt ?e"
    using adv by (auto simp: make_advisory_def rbind_Inr_iff pget_def)
  ultimately show ?thesis using t by (simp add: sign_payload_fields)
qed

lemma advice_supersedes:
  assumes "advise R s = (t, Inr advisory)"
  shows "co_epoch s < co_epoch t \<and> pget advisory ''epoch'' = JInt (co_epoch t)"
proof -
  from assms obtain orphans failed quarantined bypass recruit where
    run: "aseq (afor attach_orphan orphans) (sign_advice R failed quarantined bypass recruit) s = (t, Inr advisory)"
    by (auto simp: advise_def aget_def Let_def split: prod.splits)
  then obtain u where u: "afor attach_orphan orphans s = (u, Inr ())" "sign_advice R failed quarantined bypass recruit u = (t, Inr advisory)"
    unfolding aseq_def abind_Inr by auto
  have "keeps (\<lambda>s. co_epoch s = co_epoch s') (afor attach_orphan orphans)" for s' :: coordinator by (intro keeps_rules)
  from keeps_run [OF this _ u(1), of s] sign_advice_epoch [OF u(2)] show ?thesis by simp
qed

text \<open>In lockdown the central server takes no request further, whatever the decision says; but answers still pass through it.\<close>

lemma central_stops_requests:
  assumes "lockdown (pa_ledger s)" "(d, g) \<in> set (new_frames s (fst (on_req R (coordinator_hooks R) src f s)))"
  shows "pget g ''k'' \<noteq> JStr ''req''"
proof
  assume k: "pget g ''k'' = JStr ''req''"
  show False
  proof (cases "\<exists>legs i hop. admits R s src f legs i hop")
    case True
    then obtain legs i hop where a: "admits R s src f legs i hop" by blast
    have "serves_quietly (coordinator_hooks R)" by (simp add: serves_quietly_def coordinator_hooks_def base_hooks_def aret_def new_frames_def)
    from on_req_forwards [OF a this assms(2) k] assms(1) show False by (simp add: coordinator_hooks_def central_may_carry_def)
  next
    case False
    then have "fst (on_req R (coordinator_hooks R) src f s) = s" by (rule on_req_drops)
    with assms(2) show False by (simp add: new_frames_def)
  qed
qed

lemma central_relays_answers:
  assumes "sound_leg E Rs nodes request decision response legs i" "h + 1 < length (l_path (legs ! i))" "0 < h"
  shows "new_frames (nodes (l_path (legs ! i) ! h)) (fst (on_resp (Rs (l_path (legs ! i) ! h)) H (l_path (legs ! i) ! (h + 1))
      (resp_frame (JObj decision) (JObj response) i h) (nodes (l_path (legs ! i) ! h)))) =
    [(l_path (legs ! i) ! (h - 1), resp_frame (JObj decision) (JObj response) i (h - 1))]"
  unfolding response_hop [OF assms(1,2)] using assms(3)
  by (simp add: aseq_def abind_def send_known FRAME_KINDS_def aret_def) (simp add: resp_frame_def of_nat_diff)

section \<open>A broker at work\<close>

text \<open>What the traffic of a broker leaves alone.\<close>

definition rest_of :: "key_broker \<Rightarrow> (did, assignment) dict \<times> key_source \<times> (string, obj) dict \<times> (string, int) dict \<times> mutiny_ledger \<times> config \<times> identity" where
  "rest_of s = (kb_assignments s, kb_keys s, kb_issued s, kb_dark s, pa_ledger s, pa_config s, pa_identity s)"

lemma rest_keeps [keeps_rules]:
  "keeps (\<lambda>s. rest_of s = K) (on_leases f)" "keeps (\<lambda>s. rest_of s = K) (seen_add key)" "keeps (\<lambda>s. rest_of s = K) (pa_note event)"
  "keeps (\<lambda>s. rest_of s = K) (send R d kind fs)"
  by (auto simp: keeps_def rest_of_def on_leases_def seen_add_def pa_note_def amod_def send_def Let_def split: prod.split sum.split)

lemma ref_lease_for:
  assumes "0 \<le> v"
  obtains lease where "make_lease ref_env32 (ref_seed (CHR ''b'')) (ref_did c) ''gpt'' v ''c'' (Fin 600) (Fin t) = Inr lease"
proof -
  let ?body = "[(''type'', JStr LEASE), (''broker'', JStr (ref_did (CHR ''b''))), (''subject'', JStr (ref_did c)),
     (''model'', JStr ''gpt''), (''key_version'', JInt v), (''valid_from'', JFloat (Fin t)), (''expires_at'', JFloat (Fin (t + 600))),
     (''canary_hash'', JStr (canary_hash ref_env32 ''c''))]"
  let ?full = "?body @ [(''lease_id'', JStr (take 32 (digest ref_env32 (JObj ?body))))]"
  have h: "re_class hex_char 64 64 (canary_hash ref_env32 ''c'')" "re_class hex_char 32 32 (take 32 (digest ref_env32 (JObj ?body)))"
    by (simp_all add: canary_hash_def digest_def re_class_hex)
  have g: "re_class model_char 1 128 ''gpt''" by code_simp
  have "lease_body ?full = ?body" by (simp add: lease_body_def)
  with h g assms have shape: "lease_shape ref_env32 ?full = Inr None"
    by (simp add: lease_shape_def reasons_None chain_iffs pget_def is_did_def is_model_def is_hex64_def is_hex32_def need_num_def numv_def)
  have "\<not> has_envelope ?full" by (simp add: has_envelope_def dkeys_def)
  then obtain lease where "sign_payload ref_env32 (ref_seed (CHR ''b'')) ?full = Inr lease"
    using sign_payload_total [OF ref_env32_facts(1) length_ref_seed] by blast
  with shape show thesis by (intro that) (simp add: make_lease_def)
qed

definition ref_desk :: desk where
  "ref_desk = \<lparr>dk_mint = Some (\<lambda>_. ''new''), dk_canary = (\<lambda>_. ''c''), dk_seal = (\<lambda>_ _ _ _. Inr ''sealed'')\<rparr>"

definition ref_clock :: "rat \<Rightarrow> runtime" where
  "ref_clock t = \<lparr>rt_env = ref_env32, rt_dec = (\<lambda>_. None), rt_wire = (\<lambda>_ _. True), rt_now = Fin t\<rparr>"

lemma ref_clock_simps [simp]:
  "rt_env (ref_clock t) = ref_env32" "rt_dec (ref_clock t) = (\<lambda>_. None)" "rt_now (ref_clock t) = Fin t" "rt_wire (ref_clock t) = (\<lambda>_ _. True)"
  by (simp_all add: ref_clock_def)

definition ref_assigned :: "(did, assignment) dict" where
  "ref_assigned = [(ref_did (CHR ''n''), \<lparr>as_key = [], as_models = [''gpt'']\<rparr>)]"

lemma fst_then_ret: "fst (abind m (\<lambda>n. abind (aret k) (\<lambda>l. aret (n + l))) s) = fst (m s)" "fst (aseq m' (aret x) s) = fst (m' s)"
  by (simp_all add: abind_def aret_def aseq_def split: prod.split sum.split)

text \<open>With nothing on issue a broker in good standing lends its one key to its one node.\<close>

lemma ref_issues:
  assumes "rest_of s = (ref_assigned, [(''gpt'', (v, secret))], [], [], ledger_init ref_roots, default_config, ref_seed (CHR ''b''))" "0 \<le> v"
  shows "\<exists>lease. rest_of (fst (issue_due (ref_clock t) ref_desk (Fin t) s)) =
      (ref_assigned, [(''gpt'', (v, secret))], [(lease_id lease, lease)], [], ledger_init ref_roots, default_config, ref_seed (CHR ''b'')) \<and>
    pget lease ''subject'' = JStr (ref_did (CHR ''n'')) \<and> pget lease ''model'' = JStr ''gpt'' \<and> pget lease ''key_version'' = JInt v"
proof -
  obtain lease where l: "make_lease ref_env32 (ref_seed (CHR ''b'')) (ref_did (CHR ''n'')) ''gpt'' v ''c'' (Fin 600) (Fin t) = Inr lease"
    by (rule ref_lease_for [OF assms(2)])
  let ?s = "s\<lparr>kb_issued := [(lease_id lease, lease)]\<rparr>"
  let ?rest = "aseq (on_leases (lb_add ref_env32 (JObj lease)))
           (aseq (send (ref_clock t) (ref_did (CHR ''n'')) ''grant'' [(''lease'', JObj lease), (''sealed'', JStr ''sealed'')]) (pa_note ''lease''))"
  let ?K = "(ref_assigned, [(''gpt'', (v, secret))], [(lease_id lease, lease)], [] :: (string, int) dict, ledger_init ref_roots, default_config, ref_seed (CHR ''b''))"
  have "keeps (\<lambda>s. rest_of s = ?K) ?rest" by (intro keeps_rules)
  moreover have "rest_of ?s = ?K" using assms(1) by (simp add: rest_of_def)
  ultimately have k: "rest_of (fst (?rest ?s)) = ?K" by (simp add: keeps_def)
  have g: "lendable s ''gpt'' = Some (v, secret)" "\<not> has_fresh s (ref_did (CHR ''n'')) ''gpt'' v (Fin t)"
    using assms by (simp_all add: rest_of_def lendable_def ks_current_def has_fresh_def dget_def)
  have "grant_lease (ref_clock t) ref_desk (ref_did (CHR ''n'')) \<lparr>as_key = [], as_models = [''gpt'']\<rparr> ''gpt'' v secret s = ?rest ?s"
    using assms(1) l
    by (simp add: rest_of_def grant_lease_def aget_def Let_def abind_lift aseq_amod ref_desk_def default_config_def)
  with g assms(1) have "fst (issue_due (ref_clock t) ref_desk (Fin t) s) = fst (?rest ?s)"
    by (simp add: rest_of_def issue_due_def ref_assigned_def aget_def fst_then_ret issue_one_def)
  with k make_lease_fields [OF l] show ?thesis by auto
qed

lemma ref_broker:
  obtains s where "key_broker_init ref_env32 (ref_seed (CHR ''b'')) ref_roots [(''gpt'', (1, ''old''))] ref_assigned default_config 1 = Inr s"
    "rest_of s = (ref_assigned, [(''gpt'', (1, ''old''))], [], [], ledger_init ref_roots, default_config, ref_seed (CHR ''b''))" "pa_next_beat s = Fin 0"
  by (simp add: key_broker_init_def participant_init_def MESH_ROLES_def role_defs ref_roots_def participant.defs key_broker.defs ref_assigned_def
      dkeys_def rest_of_def connect_def)


end
