(* ===== verification/Spec2Isabelle.thy ===== *)
theory Spec2Isabelle
  imports Trust_Policy Binding Capability Loop_Gate Goals Journal Sync State_Store Run Memory Membership Health Deciding Asking Custody
begin

text \<open>
  A verification library for \<^verbatim>\<open>secdogie\<close>, the Python program whose nodes act for an operator on other
  machines. It models the parts that decide whom to trust and what may be done, and the mesh that answers model
  requests between nodes that do not trust each other. This theory only imports the others.

  \<^bold>\<open>Parts and how they interact.\<close> Every node has an Ed25519 identity whose name is a \<^verbatim>\<open>did:key\<close>. All
  statements that cross a machine boundary are JSON objects signed over their canonical bytes together with a type
  tag. A trust object, which is an allowlist or a policy that also applies master revocations, says whose signature
  counts. On that rest three things. First the citadel: an append-only journal of signed events, hash-linked per
  author, from which goals, materialised state, runs, episodes, memory and their recovery are computed, and which two
  nodes synchronise. Second the gates that stand before every action of the computer-use agent. Third the inference
  mesh: participants flood signed heartbeats, leases, faults and incidents, and users, mesh nodes, the coordinator and
  the key broker are participants that override some of its handlers.

  \<^bold>\<open>Vocabulary.\<close>
  \<^item> \<^theory_text>\<open>Prelude\<close>: Python values of the model (text as code points, the error type, sums as results),
    hints and generic list and word facts. \<^theory_text>\<open>Py_Text\<close>: the string operations used on free text.
  \<^item> \<^theory_text>\<open>Json\<close>: JSON values after \<^verbatim>\<open>json.loads\<close>, canonical bytes, and that these determine the value.
    \<^theory_text>\<open>Base64\<close>: the codec of signatures and keys, with its round trip.
  \<^item> \<^theory_text>\<open>Gossip\<close>: two locales, \<^theory_text>\<open>gossip_set\<close> and \<^theory_text>\<open>lww_table\<close>, with the convergence lemmas of replicas
    that receive the same messages in any order and multiplicity. Revocations, state deltas and membership records are
    their interpretations.

  \<^bold>\<open>Identity\<close> (\<^verbatim>\<open>src/identity/secdogie_identity\<close>).
  \<^item> \<^theory_text>\<open>Did\<close> is \<^verbatim>\<open>did.py\<close>: base58btc and did:key both ways; encoding and decoding are inverse bijections.
  \<^item> \<^theory_text>\<open>Signing\<close> is \<^verbatim>\<open>keys.py\<close>, \<^verbatim>\<open>allowlist.py\<close> and \<^verbatim>\<open>signing.py\<close>: what is signed verifies, what
    verifies was signed by whom it names, and an allowlist file is well formed.
  \<^item> \<^theory_text>\<open>Revocation\<close> is \<^verbatim>\<open>revocation.py\<close>: a record counts only with a threshold of distinct masters.
  \<^item> \<^theory_text>\<open>Trust_Policy\<close> is \<^verbatim>\<open>policy.py\<close>: the policy state machine with its store. The trusted set is an
    abstract allowlist minus the revoked, in any delivery order, only shrinks, and survives a restart.
  \<^item> \<^theory_text>\<open>Statements\<close>, \<^theory_text>\<open>Binding\<close>, \<^theory_text>\<open>Capability\<close>: signed statements with a validity window, the
    locale \<^theory_text>\<open>signed_statement\<close> of what an accepted one means, and two of its three instances.

  \<^bold>\<open>Citadel\<close> (\<^verbatim>\<open>src/citadel/secdogie_citadel\<close>).
  \<^item> \<^theory_text>\<open>Authz\<close> (\<^verbatim>\<open>authz.py\<close>), \<^theory_text>\<open>Socratic\<close> (\<^verbatim>\<open>socratic.py\<close>), \<^theory_text>\<open>Action_Gate\<close>
    (\<^verbatim>\<open>action_gate.py\<close>) and \<^theory_text>\<open>Loop_Gate\<close> (\<^verbatim>\<open>loop_gate.py\<close>): what an action must have before it runs,
    with all fifteen checks of the gate.
  \<^item> \<^theory_text>\<open>Goals\<close> (\<^verbatim>\<open>goals.py\<close>): the goal graph; the topological order exists exactly on acyclic graphs.
  \<^item> \<^theory_text>\<open>Journal\<close> (\<^verbatim>\<open>journal.py\<close>) and \<^theory_text>\<open>Sync\<close> (\<^verbatim>\<open>sync.py\<close>, \<^verbatim>\<open>replication.py\<close>): the table keeps
    verifying, a table that verifies is authentic, and synchronisation converges.
  \<^item> \<^theory_text>\<open>State_Store\<close> (\<^verbatim>\<open>state.py\<close>), \<^theory_text>\<open>Run\<close> (\<^verbatim>\<open>run.py\<close>, \<^verbatim>\<open>recovery.py\<close>, \<^verbatim>\<open>episodes.py\<close>) and
    \<^theory_text>\<open>Memory\<close> (\<^verbatim>\<open>lessons.py\<close>, \<^verbatim>\<open>consolidate.py\<close>): folds over the journal, the tamper-evident chain of
    a run and safe recovery, and what may enter long-term memory.

  \<^bold>\<open>Transport\<close> (\<^verbatim>\<open>src/transport/secdogie_transport\<close>).
  \<^item> \<^theory_text>\<open>Membership\<close> is \<^verbatim>\<open>endpoint.py\<close> and \<^verbatim>\<open>membership.py\<close>: authenticity and convergence of the signed
    last-writer-wins view.

  \<^bold>\<open>Inference mesh\<close> (\<^verbatim>\<open>src/inference/secdogie_inference\<close>).
  \<^item> \<^theory_text>\<open>Health\<close> (\<^verbatim>\<open>breaker.py\<close>, \<^verbatim>\<open>health.py\<close>), \<^theory_text>\<open>Mesh_Protocol\<close> (\<^verbatim>\<open>protocol.py\<close>: makers and
    checks of every signed object, the locale \<^theory_text>\<open>mesh_object\<close>), \<^theory_text>\<open>Lease\<close> (\<^verbatim>\<open>lease.py\<close>),
    \<^theory_text>\<open>Mutiny\<close> (\<^verbatim>\<open>screen.py\<close>, \<^verbatim>\<open>mutiny.py\<close>: the ledger refines the set of unreset incidents),
    \<^theory_text>\<open>Paths\<close> and \<^theory_text>\<open>Link_State\<close> (\<^verbatim>\<open>topology.py\<close>: shortest paths are optimal, no node can forge
    a link), \<^theory_text>\<open>Safety\<close> (\<^verbatim>\<open>safety.py\<close>) and \<^theory_text>\<open>Router\<close> (\<^verbatim>\<open>router.py\<close>).
  \<^item> \<^theory_text>\<open>Participant\<close> is \<^verbatim>\<open>participant.py\<close>. A method is a function from the state to a result and a
    new state; the methods a subclass overrides are the record \<^theory_text>\<open>hooks\<close>. \<^theory_text>\<open>Flooding\<close> holds the rules by
    which a method keeps an invariant (locale \<^theory_text>\<open>believing\<close>, proved once for every participant), \<^theory_text>\<open>Beliefs\<close>
    and \<^theory_text>\<open>Carrying\<close> what every participant believes and forwards.
  \<^item> \<^theory_text>\<open>Node\<close> is \<^verbatim>\<open>node.py\<close> and \<^theory_text>\<open>Deciding\<close> its proofs (locales \<^theory_text>\<open>node_keeping\<close>,
    \<^theory_text>\<open>node_running\<close>); \<^theory_text>\<open>Client\<close> is \<^verbatim>\<open>client.py\<close> and \<^theory_text>\<open>Asking\<close> its proofs;
    \<^theory_text>\<open>Authorities\<close> is \<^verbatim>\<open>coordinator.py\<close> and \<^verbatim>\<open>broker.py\<close> and \<^theory_text>\<open>Custody\<close> their proofs (locale
    \<^theory_text>\<open>lending\<close>).

  \<^bold>\<open>Bounds.\<close> The topological sort takes one round per goal, which \<^theory_text>\<open>Goals\<close> shows to suffice. The decide and
  settle recursion of a node takes \<^verbatim>\<open>MAX_ATTEMPTS\<close> = 3 rounds and \<^theory_text>\<open>Deciding\<close> shows the round after them is
  never entered. The search for a path ends by the number of unvisited nodes and heap entries. Every other loop is
  structural recursion. The bounds of the code itself (answer memory, seen window, quarantine, frame and text sizes) are
  in the definitions with the numbers of the code.

  \<^bold>\<open>What the definitions take as given.\<close>
  \<^item> libsodium (keys, signatures, sealed boxes) and SHA-256 are arguments. Signature laws are named hypotheses, and
    statements about hashes exhibit a collision instead of assuming that there is none.
  \<^item> The JSON text decoder, \<^verbatim>\<open>float()\<close> of a text, \<^verbatim>\<open>str.casefold\<close> and the regular expressions of the Socratic
    review are arguments. White space is ASCII white space.
  \<^item> Clocks and random choices are arguments, read once per call. Finite floats are the rational numbers they stand for;
    NaN and the infinities are values of their own where the code lets them in.
  \<^item> A Python set is a list, a heap a sorted list, an SQLite table the list of its rows with the column affinities
    written out. Locks are left out: operations are atomic.
  \<^item> The wire of a participant is the list of frames it hands over, with an argument that says which of them the wire
    takes. The log keeps event names. The backend, the mint hook of keys and the routing policy are arguments;
    \<^theory_text>\<open>Router\<close> provides the default policy.

  \<^bold>\<open>Not modelled.\<close>
  \<^item> \<^verbatim>\<open>inference/wire.py\<close>, sessions, sealed transport, relays, rendezvous and discovery: threads, sockets and timers around
    libsodium sessions, whose frames are opaque to the parts above.
  \<^item> \<^verbatim>\<open>citadel/supervisor.py\<close>: glue of the modelled parts with the agent loop, threads and file locks.
  \<^item> The computer-use agent beyond the gates, desktop perception and input, providers: they drive operating-system and
    vendor interfaces.
  \<^item> \<^verbatim>\<open>dialogue\<close> and \<^verbatim>\<open>fleet\<close>: a chat protocol and a task queue beside the trust core, not reached.
  \<^item> Command lines, consoles and windows: argument parsing, printing, drawing. Tests, packaging, and the parts in
    other languages.
\<close>

end
